(* ===== verification/Wwan_Prelude.thy ===== *)
theory Wwan_Prelude
  imports Main "HOL-Library.Word" "HOL-Library.Monad_Syntax"
begin

text \<open>
  The material every component shares: the machine integers of the C sources, little-endian
  byte encodings, C objects in memory (a pointer is null or the bytes of the object it points
  to), the errno values, and the generic lemmas about them.

  Undefined behaviour. An access outside an object, a null dereference and a loop that never
  ends have no value in C. Operations that can do one of these return an \<open>option\<close>, and
  \<^term>\<open>None\<close> is that behaviour; \<open>do\<close> blocks thread it. A negative errno is an ordinary result
  (\<^term>\<open>Some\<close> of a pair or of an \<open>int\<close>).

  Platform. The host is little endian and a plain \<open>char\<close> is signed (the x86 and mipsel ABIs of
  the targets these packages are built for), so \<open>cpu_to_le16\<close> and its kin are the identity on
  values and a \<open>char\<close> widens with its sign.
\<close>

unbundle bit_operations_syntax

named_theorems mem_simps \<open>reading and writing bytes of C objects\<close>
named_theorems frame_simps \<open>fields an operation leaves alone\<close>

section \<open>Machine integers\<close>

type_synonym u8 = "8 word"
type_synonym u16 = "16 word"
type_synonym u32 = "32 word"
type_synonym u64 = "64 word"

lemma unat_u16_less [simp]: "unat (x :: u16) < 65536"
  using unsigned_less [of x] by simp

lemma unat_u64_less [simp]: "unat (x :: u64) < 18446744073709551616"
  using unsigned_less [of x] by simp

lemma u64_unat_add:
  "unat a + unat b < 18446744073709551616 \<Longrightarrow> unat (a + b :: u64) = unat a + unat b"
  by (simp add: unat_word_ariths)

lemma unat_u16_of_nat [simp]: "n < 65536 \<Longrightarrow> unat (of_nat n :: u16) = n"
  by (simp add: unat_of_nat take_bit_nat_eq_self)

lemma unat_u32_of_nat [simp]: "n < 4294967296 \<Longrightarrow> unat (of_nat n :: u32) = n"
  by (simp add: unat_of_nat take_bit_nat_eq_self)

lemma u16_of_nat_unat_plus: "unat (x :: u16) + n < 65536 \<Longrightarrow> unat (x + of_nat n) = unat x + n"
  by (simp add: unat_word_ariths take_bit_nat_eq_self unat_of_nat)

lemma u16_wrap: "65536 + (x :: u16) = x"
proof -
  have "(65536 :: u16) = 0" by simp
  then show ?thesis by (metis add_0)
qed

lemma ucast_and_ff [simp]: "(ucast (c AND 0xff) :: u8) = ucast (c :: u16)"
proof -
  have ff: "(0xff :: u16) = mask 8" by (simp add: mask_eq_exp_minus_1)
  show ?thesis unfolding ff by (rule bit_word_eqI) (auto simp: bit_simps)
qed

lemma sint_small:
  assumes "unat (x :: u32) < 2 ^ 31"
  shows "sint x = int (unat x)"
proof -
  have "int (unat x) < int (2 ^ 31)" using assms by (simp only: of_nat_less_iff)
  then have "uint x < 2 ^ 31" by simp
  moreover have "- (2 ^ 31) \<le> uint x" by (rule order_trans [of _ 0]) simp_all
  ultimately show ?thesis
    using signed_take_bit_int_eq_self [of 31 "uint x"] by (simp add: sint_uint)
qed

section \<open>Errno values\<close>

text \<open>The values of \<^verbatim>\<open>asm-generic/errno-base.h\<close> and \<^verbatim>\<open>errno.h\<close> that the sources return.\<close>

definition EPERM :: int where [simp]: "EPERM = 1"
definition EINTR :: int where [simp]: "EINTR = 4"
definition EIO :: int where [simp]: "EIO = 5"
definition ENXIO :: int where [simp]: "ENXIO = 6"
definition EBADF :: int where [simp]: "EBADF = 9"
definition ENOMEM :: int where [simp]: "ENOMEM = 12"
definition EFAULT :: int where [simp]: "EFAULT = 14"
definition EBUSY :: int where [simp]: "EBUSY = 16"
definition EEXIST :: int where [simp]: "EEXIST = 17"
definition ETIME :: int where [simp]: "ETIME = 62"
definition ENODEV :: int where [simp]: "ENODEV = 19"
definition EINVAL :: int where [simp]: "EINVAL = 22"
definition ENOMSG :: int where [simp]: "ENOMSG = 42"
definition EBADR :: int where [simp]: "EBADR = 53"
definition EBADRQC :: int where [simp]: "EBADRQC = 56"
definition EOPNOTSUPP :: int where [simp]: "EOPNOTSUPP = 95"
definition ENETDOWN :: int where [simp]: "ENETDOWN = 100"
definition ENOTCONN :: int where [simp]: "ENOTCONN = 107"
definition ENODATA :: int where [simp]: "ENODATA = 61"
definition EOVERFLOW :: int where [simp]: "EOVERFLOW = 75"
definition ETOOMANYREFS :: int where [simp]: "ETOOMANYREFS = 109"
definition ETIMEDOUT :: int where [simp]: "ETIMEDOUT = 110"
definition ERESTARTSYS :: int where [simp]: "ERESTARTSYS = 512"

section \<open>Little-endian encodings\<close>

definition le16 :: "u16 \<Rightarrow> u8 list" where
  "le16 v = [ucast v, ucast (drop_bit 8 v)]"

definition le32 :: "u32 \<Rightarrow> u8 list" where
  "le32 v = [ucast v, ucast (drop_bit 8 v), ucast (drop_bit 16 v), ucast (drop_bit 24 v)]"

definition le64 :: "u64 \<Rightarrow> u8 list" where
  "le64 v = le32 (ucast v) @ le32 (ucast (drop_bit 32 v))"

definition of_le16 :: "u8 \<Rightarrow> u8 \<Rightarrow> u16" where
  "of_le16 a b = ucast a OR push_bit 8 (ucast b)"

definition of_le32 :: "u8 \<Rightarrow> u8 \<Rightarrow> u8 \<Rightarrow> u8 \<Rightarrow> u32" where
  "of_le32 a b c d =
     ucast a OR push_bit 8 (ucast b) OR push_bit 16 (ucast c) OR push_bit 24 (ucast d)"

lemma of_le16_le16 [simp]: "of_le16 (ucast v) (ucast (drop_bit 8 v)) = v"
  by (rule bit_word_eqI) (auto simp: of_le16_def bit_simps)

lemma of_le32_le32 [simp]:
  "of_le32 (ucast v) (ucast (drop_bit 8 v)) (ucast (drop_bit 16 v)) (ucast (drop_bit 24 v)) = v"
proof (rule bit_word_eqI)
  fix n assume "n < LENGTH(32)"
  then consider "n < 8" | "8 \<le> n" "n < 16" | "16 \<le> n" "n < 24" | "24 \<le> n" "n < 32"
    by fastforce
  then show "bit (of_le32 (ucast v) (ucast (drop_bit 8 v)) (ucast (drop_bit 16 v))
      (ucast (drop_bit 24 v))) n = bit v n"
    by cases (auto simp: of_le32_def bit_simps)
qed

lemma of_le16_add: "push_bit 8 (ucast b) + ucast a = of_le16 a b"
proof -
  have "push_bit 8 (ucast b) + ucast a = (push_bit 8 (ucast b) OR ucast a :: u16)"
    using bit_imp_le_length [of a] by (intro disjunctive_add) (force simp: bit_simps)
  then show ?thesis by (simp add: of_le16_def or.commute)
qed

lemma le16_of_le16 [simp]: "le16 (of_le16 a b) = [a, b]"
proof -
  have a: "\<not> bit a (8 + n)" for n
    using bit_imp_le_length [of a "8 + n"] by auto
  show ?thesis
    by (auto simp: le16_def of_le16_def bit_simps a intro!: bit_word_eqI)
qed

lemma length_le16 [simp]: "length (le16 v) = 2"
  by (simp add: le16_def)

lemma length_le32 [simp]: "length (le32 v) = 4"
  by (simp add: le32_def)

lemma length_le64 [simp]: "length (le64 v) = 8"
  by (simp add: le64_def)

section \<open>C objects\<close>

text \<open>
  A pointer to bytes: null, or the object it points to from the pointed-to byte on. The length
  of the list is the true extent of the object, which need not be the size a caller claims.
\<close>

datatype cptr = Null | Ptr "u8 list"

definition rd8 :: "u8 list \<Rightarrow> nat \<Rightarrow> u8 option" where
  "rd8 b i = (if i < length b then Some (b ! i) else None)"

definition rd16 :: "u8 list \<Rightarrow> nat \<Rightarrow> u16 option" where
  "rd16 b i = (if i + 1 < length b then Some (of_le16 (b ! i) (b ! (i + 1))) else None)"

definition rd32 :: "u8 list \<Rightarrow> nat \<Rightarrow> u32 option" where
  "rd32 b i =
     (if i + 3 < length b
      then Some (of_le32 (b ! i) (b ! (i + 1)) (b ! (i + 2)) (b ! (i + 3))) else None)"

definition rdn :: "u8 list \<Rightarrow> nat \<Rightarrow> nat \<Rightarrow> u8 list option" where
  "rdn b i n = (if i + n \<le> length b then Some (take n (drop i b)) else None)"

text \<open>The element of a C array.\<close>

definition elem :: "'a list \<Rightarrow> nat \<Rightarrow> 'a option" where
  "elem xs i = (if i < length xs then Some (xs ! i) else None)"

text \<open>Storing a run of bytes; every store of the sources is one of these.\<close>

definition puts :: "u8 list \<Rightarrow> nat \<Rightarrow> u8 list \<Rightarrow> u8 list option" where
  "puts b i vs =
     (if i + length vs \<le> length b then Some (take i b @ vs @ drop (i + length vs) b) else None)"

definition put8 :: "u8 list \<Rightarrow> nat \<Rightarrow> u8 \<Rightarrow> u8 list option" where
  [mem_simps]: "put8 b i v = puts b i [v]"

definition put16 :: "u8 list \<Rightarrow> nat \<Rightarrow> u16 \<Rightarrow> u8 list option" where
  [mem_simps]: "put16 b i v = puts b i (le16 v)"

definition put32 :: "u8 list \<Rightarrow> nat \<Rightarrow> u32 \<Rightarrow> u8 list option" where
  [mem_simps]: "put32 b i v = puts b i (le32 v)"

lemma rd8_append: "i = length pre \<Longrightarrow> rd8 (pre @ x # suf) i = Some x"
  by (simp add: rd8_def)

lemma rd16_append: "i = length pre \<Longrightarrow> rd16 (pre @ le16 v @ suf) i = Some v"
  by (simp add: rd16_def le16_def nth_append)

lemma rd32_append: "i = length pre \<Longrightarrow> rd32 (pre @ le32 v @ suf) i = Some v"
  by (simp add: rd32_def le32_def nth_append)

lemma rdn_append: "i = length pre \<Longrightarrow> n = length vs \<Longrightarrow> rdn (pre @ vs @ suf) i n = Some vs"
  by (simp add: rdn_def)

lemma length_rdn: "rdn b i n = Some vs \<Longrightarrow> length vs = n"
  by (auto simp: rdn_def split: if_splits)

lemma length_puts: "puts b i vs = Some b' \<Longrightarrow> length b' = length b"
  by (auto simp: puts_def split: if_splits)

lemma puts_nth_other:
  assumes "puts b i vs = Some b'" and "j < i \<or> i + length vs \<le> j" and "j < length b"
  shows "b' ! j = b ! j"
  using assms by (auto simp: puts_def nth_append split: if_splits)

lemma puts_take: "puts b i vs = Some b' \<Longrightarrow> n \<le> i \<Longrightarrow> take n b' = take n b"
  by (auto simp: puts_def min_absorb1 split: if_splits)

lemma puts_Some_iff: "puts b i vs = Some b' \<longleftrightarrow>
    i + length vs \<le> length b \<and> b' = take i b @ vs @ drop (i + length vs) b"
  by (auto simp: puts_def)

lemma puts_drop: "puts b i vs = Some b' \<Longrightarrow> drop i b' = vs @ drop (i + length vs) b"
  by (auto simp: puts_Some_iff)

text \<open>
  Stores at consecutive offsets are one store. This is the rule that turns the straight-line
  message builders into a single block of bytes.
\<close>

lemma puts_puts:
  assumes "j = i + length vs"
  shows "Option.bind (puts b i vs) (\<lambda>b'. puts b' j ws) = puts b i (vs @ ws)"
  using assms by (auto simp: puts_def bind_eq_None_conv min_absorb1 ac_simps)

lemma puts_fuse [mem_simps]:
  assumes "j = i + length vs"
  shows "Option.bind (puts b i vs) (\<lambda>b'. Option.bind (puts b' j ws) k) =
         Option.bind (puts b i (vs @ ws)) k"
  by (simp flip: puts_puts [OF assms] add: bind_assoc)

section \<open>Slices of circular buffers\<close>

text \<open>The elements at \<open>cnt\<close> consecutive positions from \<open>start\<close> on, modulo \<open>n\<close>.\<close>

definition ring_slice :: "(nat \<Rightarrow> 'a) \<Rightarrow> nat \<Rightarrow> nat \<Rightarrow> nat \<Rightarrow> 'a list" where
  "ring_slice get n start cnt = map (\<lambda>i. get ((start + i) mod n)) [0..<cnt]"

lemma length_ring_slice [simp]: "length (ring_slice get n start cnt) = cnt"
  by (simp add: ring_slice_def)

lemma ring_slice_0 [simp]: "ring_slice get n start 0 = []"
  by (simp add: ring_slice_def)

lemma ring_slice_Suc: "ring_slice get n start (Suc cnt) =
    ring_slice get n start cnt @ [get ((start + cnt) mod n)]"
  by (simp add: ring_slice_def)

lemma ring_slice_Cons: "ring_slice get n start (Suc cnt) =
    get (start mod n) # ring_slice get n (Suc start mod n) cnt"
proof -
  have "[0..<Suc cnt] = 0 # map Suc [0..<cnt]"
    by (simp add: map_Suc_upt upt_conv_Cons)
  then show ?thesis
    by (simp add: ring_slice_def mod_simps)
qed

lemma ring_slice_append: "ring_slice get n start (a + b) =
    ring_slice get n start a @ ring_slice get n ((start + a) mod n) b"
  by (induction b) (simp_all add: ring_slice_Suc ac_simps mod_simps)

lemma ring_slice_cong:
  assumes "\<And>i. i < cnt \<Longrightarrow> get ((start + i) mod n) = get' ((start + i) mod n)"
  shows "ring_slice get n start cnt = ring_slice get' n start cnt"
  using assms by (simp add: ring_slice_def)

lemma ring_position_apart:
  fixes n :: nat
  assumes "i < n" and "j < n" and "(start + i) mod n = (start + j) mod n"
  shows "i = j"
proof -
  have le: "a = b" if "a \<le> b" "b < n" "(start + a) mod n = (start + b) mod n" for a b :: nat
  proof -
    have "n dvd b - a"
      using that mod_eq_dvd_iff_nat [of "start + a" "start + b" n] by simp
    then show ?thesis using that by (metis diff_le_self dvd_imp_le le_antisym diff_is_0_eq
      less_le_trans not_less zero_less_iff_neq_zero)
  qed
  show ?thesis
    using le [of i j] le [of j i] assms by (cases "i \<le> j") auto
qed

text \<open>A block of bytes stored at a position of a ring and continued at its start, and the reverse.\<close>

definition circ_store :: "u8 list \<Rightarrow> nat \<Rightarrow> nat \<Rightarrow> nat \<Rightarrow> u8 list \<Rightarrow> u8 list option" where
  "circ_store a base n p xs =
     (if p + length xs \<le> n then puts a (base + p) xs
      else do { a \<leftarrow> puts a (base + p) (take (n - p) xs); puts a base (drop (n - p) xs) })"

definition circ_load :: "u8 list \<Rightarrow> nat \<Rightarrow> nat \<Rightarrow> nat \<Rightarrow> nat \<Rightarrow> u8 list option" where
  "circ_load a base n p k =
     (if p + k \<le> n then rdn a (base + p) k
      else do { xs \<leftarrow> rdn a (base + p) (n - p); ys \<leftarrow> rdn a base (k - (n - p)); Some (xs @ ys) })"

lemma puts_ok: "i + length vs \<le> length b \<Longrightarrow> \<exists>b'. puts b i vs = Some b'"
  by (simp add: puts_def)

lemma puts_nth:
  assumes "puts b i vs = Some b'"
  shows "j < length b \<Longrightarrow> b' ! j = (if i \<le> j \<and> j < i + length vs then vs ! (j - i) else b ! j)"
  using assms by (auto simp: puts_Some_iff nth_append)

lemma mod_below: "p < n \<Longrightarrow> j < n \<Longrightarrow> (p + j) mod n = (if p + j < n then p + j else p + j - n)" for n :: nat
  by (simp add: le_mod_geq)

lemma circ_store_spec:
  assumes "p < n" "length xs \<le> n" "base + n \<le> length a"
  obtains a' where "circ_store a base n p xs = Some a'" "length a' = length a"
    "\<And>j. j < length xs \<Longrightarrow> a' ! (base + (p + j) mod n) = xs ! j"
    "\<And>q. q < length a \<Longrightarrow> (\<And>j. j < length xs \<Longrightarrow> q \<noteq> base + (p + j) mod n) \<Longrightarrow> a' ! q = a ! q"
proof (cases "p + length xs \<le> n")
  case True
  obtain a' where a': "puts a (base + p) xs = Some a'"
    using assms True by (auto simp: puts_def)
  show ?thesis
  proof (rule that [of a'])
    show "circ_store a base n p xs = Some a'" using True a' by (simp add: circ_store_def)
    show "length a' = length a" using a' by (rule length_puts)
    fix j assume j: "j < length xs"
    then show "a' ! (base + (p + j) mod n) = xs ! j"
      using True assms puts_nth [OF a', of "base + p + j"] by (simp add: mod_below add.assoc)
  next
    fix q assume q: "q < length a" "\<And>j. j < length xs \<Longrightarrow> q \<noteq> base + (p + j) mod n"
    have "\<not> (base + p \<le> q \<and> q < base + p + length xs)"
    proof
      assume "base + p \<le> q \<and> q < base + p + length xs"
      then obtain j where "q = base + p + j" "j < length xs" by (auto simp: le_iff_add)
      then show False using q(2) [of j] True assms by (simp add: mod_below add.assoc)
    qed
    then show "a' ! q = a ! q" using puts_nth [OF a' q(1)] by auto
  qed
next
  case False
  obtain b where b: "puts a (base + p) (take (n - p) xs) = Some b"
    using puts_ok [of "base + p" "take (n - p) xs" a] assms(1,3) by fastforce
  have lb: "length b = length a" using b by (rule length_puts)
  obtain a' where a': "puts b base (drop (n - p) xs) = Some a'"
    using puts_ok [of base "drop (n - p) xs" b] assms lb by fastforce
  show ?thesis
  proof (rule that [of a'])
    show "circ_store a base n p xs = Some a'" using False b a' by (simp add: circ_store_def)
    show "length a' = length a" using a' lb by (simp add: length_puts)
    fix j assume j: "j < length xs"
    show "a' ! (base + (p + j) mod n) = xs ! j"
    proof (cases "p + j < n")
      case True
      moreover have "base + (length xs + p) - n \<le> base + p" using assms by linarith
      ultimately show ?thesis
        using j False assms lb puts_nth [OF a', of "base + p + j"] puts_nth [OF b, of "base + p + j"]
        by (simp add: mod_below add.assoc)
    next
      case wrapped: False
      then obtain k where k: "p + j = n + k" by (auto simp: not_less le_iff_add)
      have "k < length (drop (n - p) xs)" using k j assms(1) by simp
      moreover have "n - p + k = j" using k assms(1) by simp
      moreover have "base + k < length b" "k < n" using k j assms lb by simp_all
      ultimately show ?thesis
        using k puts_nth [OF a', of "base + k"] by (simp add: less_diff_conv)
    qed
  next
    fix q assume q: "q < length a" "\<And>j. j < length xs \<Longrightarrow> q \<noteq> base + (p + j) mod n"
    have "\<not> (base + p \<le> q \<and> q < base + n)"
    proof
      assume "base + p \<le> q \<and> q < base + n"
      then obtain j where "q = base + p + j" "p + j < n" by (auto simp: le_iff_add)
      then show False using q(2) [of j] False assms by (simp add: mod_below add.assoc)
    qed
    moreover have "\<not> (base \<le> q \<and> q < base + (p + length xs - n))"
    proof
      assume "base \<le> q \<and> q < base + (p + length xs - n)"
      then obtain j where "q = base + j" "j < p + length xs - n" by (auto simp: le_iff_add)
      moreover from this have "j + (n - p) < length xs" "j + (n - p) < n" using assms by linarith+
      ultimately show False using q(2) [of "j + (n - p)"] False assms by (simp add: mod_below)
    qed
    ultimately show "a' ! q = a ! q"
      using puts_nth [OF a', of q] puts_nth [OF b, of q] q(1) lb False assms by auto
  qed
qed

lemma circ_load_spec:
  assumes "p < n" "k \<le> n" "base + n \<le> length a"
  shows "circ_load a base n p k = Some (ring_slice (\<lambda>q. a ! (base + q)) n p k)"
proof (cases "p + k \<le> n")
  case True
  have "take k (drop (base + p) a) = ring_slice (\<lambda>q. a ! (base + q)) n p k"
    using True assms by (intro nth_equalityI) (auto simp: ring_slice_def mod_below add.assoc)
  then show ?thesis using True assms by (simp add: circ_load_def rdn_def)
next
  case False
  have "take (n - p) (drop (base + p) a) @ take (k - (n - p)) (drop base a) = ring_slice (\<lambda>q. a ! (base + q)) n p k"
    using False assms
    by (intro nth_equalityI) (auto simp: ring_slice_def nth_append mod_below add.assoc add.commute [of p])
  then show ?thesis using False assms by (simp add: circ_load_def rdn_def)
qed

section \<open>Rings with free-running pointers\<close>

text \<open>The pointers are 32-bit counters that wrap on their own; a position in the ring is a counter modulo
  the size, which divides \<^verbatim>\<open>2^32\<close>. The content is what lies from the read to the write counter.\<close>

definition wrap_content :: "(nat \<Rightarrow> 'a) \<Rightarrow> nat \<Rightarrow> u32 \<Rightarrow> u32 \<Rightarrow> 'a list" where
  "wrap_content slot n rd wr = ring_slice slot n (unat rd mod n) (unat (wr - rd))"

lemma length_wrap_content [simp]: "length (wrap_content slot n rd wr) = unat (wr - rd)"
  by (simp add: wrap_content_def)

lemma wrap_content_empty_iff: "wrap_content slot n rd wr = [] \<longleftrightarrow> wr = rd"
  by (metis length_0_conv length_wrap_content right_minus_eq unat_eq_zero)

lemma wrap_position:
  assumes "n dvd 2 ^ 32"
  shows "unat (rd + of_nat k :: u32) mod n = (unat rd mod n + k) mod n"
proof -
  have "unat (rd + of_nat k) = (unat rd + k) mod 2 ^ 32"
    by (simp add: unat_word_ariths unat_of_nat mod_simps)
  then have "unat (rd + of_nat k) mod n = (unat rd + k) mod n"
    using assms by (simp only: mod_mod_cancel)
  then show ?thesis by (simp add: mod_simps)
qed

lemma wrap_write_position:
  assumes "n dvd 2 ^ 32"
  shows "unat (wr :: u32) mod n = (unat rd mod n + unat (wr - rd)) mod n"
  using wrap_position [OF assms, of rd "unat (wr - rd)"] by simp

lemma wrap_used_Suc:
  fixes rd wr :: u32
  assumes "unat (wr - rd) < n" "n < 2 ^ 32"
  shows "unat (wr + 1 - rd) = Suc (unat (wr - rd))"
proof -
  have "wr + 1 - rd = (wr - rd) + 1" by simp
  moreover have "unat ((wr - rd) + 1) = unat (wr - rd) + 1"
    using assms by (simp add: unat_word_ariths)
  ultimately show ?thesis by (simp only: Suc_eq_plus1)
qed

lemma wrap_push:
  assumes "n dvd 2 ^ 32" "0 < n" "n < 2 ^ 32" "unat (wr - rd) < n"
    and "slot' (unat wr mod n) = x" "\<And>k. k < n \<Longrightarrow> k \<noteq> unat wr mod n \<Longrightarrow> slot' k = slot k"
  shows "wrap_content slot' n rd (wr + 1) = wrap_content slot n rd wr @ [x]"
proof -
  let ?u = "unat (wr - rd)"
  have "slot' ((unat rd mod n + i) mod n) = slot ((unat rd mod n + i) mod n)" if "i < ?u" for i
  proof (rule assms(6))
    show "(unat rd mod n + i) mod n < n" using assms(2) by simp
    show "(unat rd mod n + i) mod n \<noteq> unat wr mod n"
      using ring_position_apart [of i n ?u "unat rd mod n"] that assms(4) wrap_write_position [OF assms(1), of wr rd] by auto
  qed
  then have "ring_slice slot' n (unat rd mod n) ?u = ring_slice slot n (unat rd mod n) ?u"
    by (rule ring_slice_cong)
  then show ?thesis
    unfolding wrap_content_def wrap_used_Suc [OF assms(4,3)]
    using assms(5) wrap_write_position [OF assms(1), of wr rd] by (simp add: ring_slice_Suc)
qed

lemma wrap_pop:
  assumes "n dvd 2 ^ 32" "wr \<noteq> rd"
  shows "wrap_content slot n rd wr = slot (unat rd mod n) # wrap_content slot n (rd + 1) wr"
proof -
  define k where "k = unat (wr - rd) - 1"
  have pos: "0 < unat (wr - rd)" using assms(2) by (simp add: unat_gt_0)
  have "wr - (rd + 1) = (wr - rd) - 1" by simp
  moreover have "unat ((wr - rd) - 1) = k" using pos unat_minus_one [of "wr - rd"] assms(2) by (simp add: k_def)
  ultimately have "unat (wr - (rd + 1)) = k" by (simp only:)
  moreover have "unat (wr - rd) = Suc k" using pos by (simp add: k_def)
  moreover have "unat (rd + 1) mod n = Suc (unat rd mod n) mod n" using wrap_position [OF assms(1), of rd 1] by simp
  ultimately show ?thesis by (simp add: wrap_content_def ring_slice_Cons)
qed

lemma wrap_content_cong:
  assumes "0 < n" "\<And>k. k < n \<Longrightarrow> slot' k = slot k"
  shows "wrap_content slot' n rd wr = wrap_content slot n rd wr"
  unfolding wrap_content_def using assms by (intro ring_slice_cong) simp

section \<open>Streams over shared memory\<close>

text \<open>
  The contract of a family of streams over a shared state: every transfer appends to or takes
  from the content of one stream and leaves the others alone. Whatever the order of the
  transfers, each stream then delivers what was written to it in order, each element once.
\<close>

datatype ('p, 'a) transfer = Wrote 'p "'a list" | Got 'p "'a list"

primrec chained :: "('m \<Rightarrow> 'e \<Rightarrow> 'm \<Rightarrow> bool) \<Rightarrow> 'm \<Rightarrow> 'e list \<Rightarrow> 'm \<Rightarrow> bool" where
  "chained step m [] m' \<longleftrightarrow> m' = m"
| "chained step m (e # es) m' \<longleftrightarrow> (\<exists>m1. step m e m1 \<and> chained step m1 es m')"

primrec written :: "'p \<Rightarrow> ('p, 'a) transfer list \<Rightarrow> 'a list" where
  "written p [] = []"
| "written p (e # es) = (case e of Wrote q xs \<Rightarrow> if q = p then xs else [] | Got q xs \<Rightarrow> []) @ written p es"

primrec delivered :: "'p \<Rightarrow> ('p, 'a) transfer list \<Rightarrow> 'a list" where
  "delivered p [] = []"
| "delivered p (e # es) = (case e of Wrote q xs \<Rightarrow> [] | Got q xs \<Rightarrow> if q = p then xs else []) @ delivered p es"

locale fifo_streams =
  fixes step :: "'m \<Rightarrow> ('p, 'a) transfer \<Rightarrow> 'm \<Rightarrow> bool" and inv :: "'m \<Rightarrow> bool" and content :: "'m \<Rightarrow> 'p \<Rightarrow> 'a list"
    and streams :: "'p set"
  assumes inv_step: "inv m \<Longrightarrow> step m e m' \<Longrightarrow> inv m'"
    and wrote: "inv m \<Longrightarrow> step m (Wrote p xs) m' \<Longrightarrow> q \<in> streams \<Longrightarrow> content m' q = content m q @ (if q = p then xs else [])"
    and got: "inv m \<Longrightarrow> step m (Got p xs) m' \<Longrightarrow> q \<in> streams \<Longrightarrow> content m q = (if q = p then xs else []) @ content m' q"
begin

lemma inv_chain: "inv m \<Longrightarrow> chained step m es m' \<Longrightarrow> inv m'"
  by (induction es arbitrary: m) (auto intro: inv_step)

theorem stream_law:
  assumes "inv m" "chained step m es m'" "q \<in> streams"
  shows "content m q @ written q es = delivered q es @ content m' q"
  using assms(1,2)
proof (induction es arbitrary: m)
  case (Cons e es)
  obtain m1 where m1: "step m e m1" "chained step m1 es m'" using Cons.prems(2) by auto
  have IH: "content m1 q @ written q es = delivered q es @ content m' q"
    using Cons.IH [OF inv_step [OF Cons.prems(1) m1(1)] m1(2)] .
  show ?case
  proof (cases e)
    case (Wrote p xs)
    then show ?thesis using wrote [OF Cons.prems(1) m1(1) [unfolded Wrote] assms(3)] IH by (auto split: if_splits)
  next
    case (Got p xs)
    then show ?thesis using got [OF Cons.prems(1) m1(1) [unfolded Got] assms(3)] IH by (auto split: if_splits)
  qed
qed simp

end

section \<open>Encodings as an interface\<close>

text \<open>
  What a client of a fixed-width encoding relies on: the width, and that the decoder reads back
  what the encoder wrote, whatever follows it in the object.
\<close>

locale fixed_codec =
  fixes enc :: "'a \<Rightarrow> u8 list" and rd :: "u8 list \<Rightarrow> nat \<Rightarrow> 'a option" and w :: nat
  assumes enc_width: "length (enc v) = w"
    and rd_enc: "rd (pre @ enc v @ suf) (length pre) = Some v"
begin

lemma rd_after_put: "puts b i (enc v) = Some b' \<Longrightarrow> rd b' i = Some v"
  using rd_enc [of "take i b" v "drop (i + w) b"] enc_width
  by (auto simp: puts_Some_iff min_absorb2)

lemma enc_inj: "enc u = enc v \<Longrightarrow> u = v"
  by (metis option.inject rd_enc)

end

interpretation c16: fixed_codec le16 rd16 2
  by unfold_locales (simp_all add: rd16_append)

interpretation c32: fixed_codec le32 rd32 4
  by unfold_locales (simp_all add: rd32_append)

interpretation c8: fixed_codec "\<lambda>v. [v]" rd8 1
  by unfold_locales (simp_all add: rd8_append)

end
