(* ===== verification/Qmi_Codec.thy ===== *)
theory Qmi_Codec
  imports Wwan_Prelude
begin

text \<open>
  The QMI message codec of the GobiNet driver, \<^verbatim>\<open>drivers/quectel-gobinet/src/QMI.c\<close>: the QMUX
  transport header, the TLV search, the request builders and the response parsers.

  A builder takes the buffer it fills and returns the C result with the buffer after the stores.
  A parser takes the received object and the size its caller claims for it. The request
  parameters have their C widths.
\<close>

section \<open>Sizes\<close>

text \<open>\<^verbatim>\<open>sizeof( sQMUX )\<close>: type, length (2 bytes), control flag, service, client, packed.\<close>

record sQMUX =
  mTF :: u8
  mLength :: u16
  mCtrlFlag :: u8
  mQMIService :: u8
  mQMIClientID :: u8

definition sQMUX_bytes :: "sQMUX \<Rightarrow> u8 list" where
  "sQMUX_bytes h = [mTF h] @ le16 (mLength h) @ [mCtrlFlag h, mQMIService h, mQMIClientID h]"

definition QMUXHeaderSize :: u16 where "QMUXHeaderSize = 6"

definition QMICTLGetClientIDReqSize :: u16 where "QMICTLGetClientIDReqSize = 6 + 10"

definition QMICTLReleaseClientIDReqSize :: u16 where "QMICTLReleaseClientIDReqSize = 6 + 11"

definition QMICTLReadyReqSize :: u16 where "QMICTLReadyReqSize = 6 + 6"

definition QMIWDSSetEventReportReqSize :: u16 where "QMIWDSSetEventReportReqSize = 6 + 15"

definition QMIWDSGetPKGSRVCStatusReqSize :: u16 where "QMIWDSGetPKGSRVCStatusReqSize = 6 + 7"

definition QMIDMSGetMEIDReqSize :: u16 where "QMIDMSGetMEIDReqSize = 6 + 7"

text \<open>The packed \<^verbatim>\<open>struct QMIWDS_ADMIN_SET_DATA_FORMAT_REQ_MSG\<close> has 78 bytes.\<close>

definition sizeof_SET_DATA_FORMAT_REQ_MSG :: nat where
  "sizeof_SET_DATA_FORMAT_REQ_MSG = 1 + 2 + 2 + 2 + 4 + 7 + 7 + 7 + 7 + 7 + 11 + 7 + 7 + 7"

definition QMIWDASetDataFormatReqSize :: "int \<Rightarrow> u16" where
  "QMIWDASetDataFormatReqSize qmap_version =
     (if qmap_version \<noteq> 0 then 6 + of_nat sizeof_SET_DATA_FORMAT_REQ_MSG else 6 + 18)"

definition QMICTLSyncReqSize :: u16 where "QMICTLSyncReqSize = 6 + 6"

lemmas req_size_defs = QMUXHeaderSize_def QMICTLGetClientIDReqSize_def
  QMICTLReleaseClientIDReqSize_def QMICTLReadyReqSize_def QMIWDSSetEventReportReqSize_def
  QMIWDSGetPKGSRVCStatusReqSize_def QMIDMSGetMEIDReqSize_def
  sizeof_SET_DATA_FORMAT_REQ_MSG_def QMIWDASetDataFormatReqSize_def QMICTLSyncReqSize_def

section \<open>QMUX header\<close>

text \<open>\<open>ParseQMUX\<close>: the client ID (an out parameter, kept on errors) and the C result.\<close>

definition ParseQMUX :: "u16 \<Rightarrow> cptr \<Rightarrow> u16 \<Rightarrow> (int \<times> u16) option" where
  "ParseQMUX clientID pBuffer buffSize =
     (case pBuffer of
        Null \<Rightarrow> Some (- ENOMEM, clientID)
      | Ptr b \<Rightarrow>
          if buffSize < 12 then Some (- ENOMEM, clientID)
          else do {
            tf \<leftarrow> rd8 b 0;
            len \<leftarrow> rd16 b 1;
            flag \<leftarrow> rd8 b 3;
            if tf \<noteq> 1 \<or> int (unat len) \<noteq> int (unat buffSize) - 1 \<or> flag \<noteq> 0x80
            then Some (- EINVAL, clientID)
            else do {
              svc \<leftarrow> rd8 b 4;
              cid \<leftarrow> rd8 b 5;
              Some (6, push_bit 8 (ucast cid) + ucast svc)
            }
          })"

definition FillQMUX :: "u16 \<Rightarrow> cptr \<Rightarrow> u16 \<Rightarrow> (int \<times> cptr) option" where
  "FillQMUX clientID pBuffer buffSize =
     (case pBuffer of
        Null \<Rightarrow> Some (- ENOMEM, Null)
      | Ptr b \<Rightarrow>
          if buffSize < QMUXHeaderSize then Some (- ENOMEM, Ptr b)
          else do {
            b \<leftarrow> put8 b 0 1;
            b \<leftarrow> put16 b 1 (buffSize - 1);
            b \<leftarrow> put8 b 3 0;
            b \<leftarrow> put8 b 4 (ucast (clientID AND 0xff));
            b \<leftarrow> put8 b 5 (ucast (drop_bit 8 clientID));
            Some (0, Ptr b)
          })"

section \<open>TLV search and generic message checks\<close>

text \<open>
  The loop of \<open>GetTLV\<close>. \<open>pos\<close> is a \<open>u16\<close>: it is promoted to \<open>int\<close> in the guard and wraps in
  the step, so the loop need not end; \<open>None\<close> is also the value of not returning. The copy loop
  of the source is one block read and one block store.
\<close>

partial_function (option) GetTLV_loop ::
  "u8 list \<Rightarrow> u16 \<Rightarrow> u8 \<Rightarrow> u8 list \<Rightarrow> u16 \<Rightarrow> u16 \<Rightarrow> (int \<times> u8 list) option" where
  "GetTLV_loop msg messageLen ty out bufferLen pos =
     (if unat pos + 3 < unat messageLen
      then do {
        tlvSize \<leftarrow> rd16 msg (unat pos + 1);
        t \<leftarrow> rd8 msg (unat pos);
        if t = ty
        then if bufferLen < tlvSize then Some (- ENOMEM, out)
             else do {
               v \<leftarrow> rdn msg (unat pos + 3) (unat tlvSize);
               out' \<leftarrow> puts out 0 v;
               Some (int (unat tlvSize), out')
             }
        else GetTLV_loop msg messageLen ty out bufferLen (pos + tlvSize + 3)
      }
      else Some (- ENOMSG, out))"

definition GetTLV :: "cptr \<Rightarrow> u16 \<Rightarrow> u8 \<Rightarrow> cptr \<Rightarrow> u16 \<Rightarrow> (int \<times> cptr) option" where
  "GetTLV pQMIMessage messageLen ty pOutDataBuf bufferLen =
     (case pQMIMessage of
        Null \<Rightarrow> Some (- ENOMEM, pOutDataBuf)
      | Ptr msg \<Rightarrow>
          (case pOutDataBuf of
             Null \<Rightarrow> Some (- ENOMEM, Null)
           | Ptr out \<Rightarrow>
               map_option (\<lambda>(r, out'). (r, Ptr out'))
                 (GetTLV_loop msg messageLen ty out bufferLen 4)))"

text \<open>
  \<open>ValidQMIMessage\<close>. \<open>mandTLV\<close> is an uninitialised local, read only after all of it has been
  stored. \<open>get_unaligned(&mandTLV[2])\<close> is a \<open>char\<close> access, since \<open>&mandTLV[2]\<close> is a \<open>char *\<close>:
  the result is that one byte, widened to \<open>u16\<close> with its sign.
\<close>

definition ValidQMIMessage :: "u8 list \<Rightarrow> u16 \<Rightarrow> int option" where
  "ValidQMIMessage msg messageLen =
     do {
       (r, mandTLV) \<leftarrow> GetTLV_loop msg messageLen 2 (replicate 4 0) 4 4;
       if r = 4
       then do {
         q \<leftarrow> rd16 mandTLV 0;
         if q \<noteq> 0
         then do { e \<leftarrow> rd8 mandTLV 2; Some (int (unat (scast e :: u16))) }
         else Some 0
       }
       else Some (- ENOMSG)
     }"

definition GetQMIMessageID :: "u8 list \<Rightarrow> u16 \<Rightarrow> int option" where
  "GetQMIMessageID msg messageLen =
     (if messageLen < 2 then Some (- ENODATA)
      else do { v \<leftarrow> rd16 msg 0; Some (int (unat v)) })"

section \<open>Request builders\<close>

text \<open>
  Every builder stores at constant offsets behind the QMUX header. Offsets are those of the
  source, \<open>sizeof( sQMUX )\<close> being 6.
\<close>

definition QMICTLGetClientIDReq :: "cptr \<Rightarrow> u16 \<Rightarrow> u8 \<Rightarrow> u8 \<Rightarrow> (int \<times> cptr) option" where
  "QMICTLGetClientIDReq pBuffer buffSize transactionID serviceType =
     (case pBuffer of
        Null \<Rightarrow> Some (- ENOMEM, Null)
      | Ptr b \<Rightarrow>
          if buffSize < QMICTLGetClientIDReqSize then Some (- ENOMEM, Ptr b)
          else do {
            b \<leftarrow> put8 b 6 0x00;
            b \<leftarrow> put8 b (6 + 1) transactionID;
            b \<leftarrow> put16 b (6 + 2) 0x0022;
            b \<leftarrow> put16 b (6 + 4) 0x0004;
            b \<leftarrow> put8 b (6 + 6) 0x01;
            b \<leftarrow> put16 b (6 + 7) 0x0001;
            b \<leftarrow> put8 b (6 + 9) serviceType;
            Some (6 + 10, Ptr b)
          })"

definition QMICTLReleaseClientIDReq :: "cptr \<Rightarrow> u16 \<Rightarrow> u8 \<Rightarrow> u16 \<Rightarrow> (int \<times> cptr) option" where
  "QMICTLReleaseClientIDReq pBuffer buffSize transactionID clientID =
     (case pBuffer of
        Null \<Rightarrow> Some (- ENOMEM, Null)
      | Ptr b \<Rightarrow>
          if buffSize < QMICTLReleaseClientIDReqSize then Some (- ENOMEM, Ptr b)
          else do {
            b \<leftarrow> put8 b 6 0x00;
            b \<leftarrow> put8 b (6 + 1) transactionID;
            b \<leftarrow> put16 b (6 + 2) 0x0023;
            b \<leftarrow> put16 b (6 + 4) 0x0005;
            b \<leftarrow> put8 b (6 + 6) 0x01;
            b \<leftarrow> put16 b (6 + 7) 0x0002;
            b \<leftarrow> put16 b (6 + 9) clientID;
            Some (6 + 11, Ptr b)
          })"

definition QMICTLReadyReq :: "cptr \<Rightarrow> u16 \<Rightarrow> u8 \<Rightarrow> (int \<times> cptr) option" where
  "QMICTLReadyReq pBuffer buffSize transactionID =
     (case pBuffer of
        Null \<Rightarrow> Some (- ENOMEM, Null)
      | Ptr b \<Rightarrow>
          if buffSize < QMICTLReadyReqSize then Some (- ENOMEM, Ptr b)
          else do {
            b \<leftarrow> put8 b 6 0x00;
            b \<leftarrow> put8 b (6 + 1) transactionID;
            b \<leftarrow> put16 b (6 + 2) 0x0021;
            b \<leftarrow> put16 b (6 + 4) 0x0000;
            Some (6 + 6, Ptr b)
          })"

definition QMIWDSSetEventReportReq :: "cptr \<Rightarrow> u16 \<Rightarrow> u16 \<Rightarrow> (int \<times> cptr) option" where
  "QMIWDSSetEventReportReq pBuffer buffSize transactionID =
     (case pBuffer of
        Null \<Rightarrow> Some (- ENOMEM, Null)
      | Ptr b \<Rightarrow>
          if buffSize < QMIWDSSetEventReportReqSize then Some (- ENOMEM, Ptr b)
          else do {
            b \<leftarrow> put8 b 6 0x00;
            b \<leftarrow> put16 b (6 + 1) transactionID;
            b \<leftarrow> put16 b (6 + 3) 0x0001;
            b \<leftarrow> put16 b (6 + 5) 0x0008;
            b \<leftarrow> put8 b (6 + 7) 0x11;
            b \<leftarrow> put16 b (6 + 8) 0x0005;
            b \<leftarrow> put8 b (6 + 10) 0x01;
            b \<leftarrow> put32 b (6 + 11) 0x000000ff;
            Some (6 + 15, Ptr b)
          })"

definition QMIWDSGetPKGSRVCStatusReq :: "cptr \<Rightarrow> u16 \<Rightarrow> u16 \<Rightarrow> (int \<times> cptr) option" where
  "QMIWDSGetPKGSRVCStatusReq pBuffer buffSize transactionID =
     (case pBuffer of
        Null \<Rightarrow> Some (- ENOMEM, Null)
      | Ptr b \<Rightarrow>
          if buffSize < QMIWDSGetPKGSRVCStatusReqSize then Some (- ENOMEM, Ptr b)
          else do {
            b \<leftarrow> put8 b 6 0x00;
            b \<leftarrow> put16 b (6 + 1) transactionID;
            b \<leftarrow> put16 b (6 + 3) 0x0022;
            b \<leftarrow> put16 b (6 + 5) 0x0000;
            Some (6 + 7, Ptr b)
          })"

definition QMIDMSGetMEIDReq :: "cptr \<Rightarrow> u16 \<Rightarrow> u16 \<Rightarrow> (int \<times> cptr) option" where
  "QMIDMSGetMEIDReq pBuffer buffSize transactionID =
     (case pBuffer of
        Null \<Rightarrow> Some (- ENOMEM, Null)
      | Ptr b \<Rightarrow>
          if buffSize < QMIDMSGetMEIDReqSize then Some (- ENOMEM, Ptr b)
          else do {
            b \<leftarrow> put8 b 6 0x00;
            b \<leftarrow> put16 b (6 + 1) transactionID;
            b \<leftarrow> put16 b (6 + 3) 0x0025;
            b \<leftarrow> put16 b (6 + 5) 0x0000;
            Some (6 + 7, Ptr b)
          })"

text \<open>
  A \<^verbatim>\<open>struct QMIWDS_ADMIN_SET_DATA_FORMAT_TLV\<close> member at offset \<open>off\<close>: the stores to \<open>TLVType\<close>,
  \<open>TLVLength\<close> and \<open>Value\<close>.
\<close>

definition put_SET_DATA_FORMAT_TLV :: "u8 list \<Rightarrow> nat \<Rightarrow> u8 \<Rightarrow> u32 \<Rightarrow> u8 list option" where
  "put_SET_DATA_FORMAT_TLV b off ty v =
     do {
       b \<leftarrow> put8 b off ty;
       b \<leftarrow> put16 b (off + 1) 4;
       put32 b (off + 3) v
     }"

text \<open>
  \<open>QMIWDASetDataFormatReq\<close>. The branch for QMAP checks neither the pointer nor the size; the
  members of the packed message struct start at \<open>pBuffer + 6\<close>.
\<close>

definition QMIWDASetDataFormatReq ::
  "cptr \<Rightarrow> u16 \<Rightarrow> bool \<Rightarrow> int \<Rightarrow> u32 \<Rightarrow> u16 \<Rightarrow> (int \<times> cptr) option" where
  "QMIWDASetDataFormatReq pBuffer buffSize bRawIPMode qmap_version rx_size transactionID =
     (if qmap_version \<noteq> 0
      then (case pBuffer of
        Null \<Rightarrow> None
      | Ptr b \<Rightarrow> do {
          b \<leftarrow> put8 b 6 0x00;
          b \<leftarrow> put16 b (6 + 1) transactionID;
          b \<leftarrow> put16 b (6 + 3) 0x0020;
          b \<leftarrow> put16 b (6 + 5) (of_nat (sizeof_SET_DATA_FORMAT_REQ_MSG - 7));
          b \<leftarrow> put8 b (6 + 7) 0x10;
          b \<leftarrow> put16 b (6 + 8) 0x0001;
          b \<leftarrow> put8 b (6 + 10) 0;
          b \<leftarrow> put_SET_DATA_FORMAT_TLV b (6 + 11) 0x11 0x02;
          b \<leftarrow> put_SET_DATA_FORMAT_TLV b (6 + 18) 0x12 (of_int qmap_version);
          b \<leftarrow> put_SET_DATA_FORMAT_TLV b (6 + 25) 0x13 (of_int qmap_version);
          b \<leftarrow> put_SET_DATA_FORMAT_TLV b (6 + 32) 0x15 (rx_size div 1024);
          b \<leftarrow> put_SET_DATA_FORMAT_TLV b (6 + 39) 0x16 rx_size;
          b \<leftarrow> put8 b (6 + 46) 0x17;
          b \<leftarrow> put16 b (6 + 47) 8;
          b \<leftarrow> put32 b (6 + 49) 0x02;
          b \<leftarrow> put32 b (6 + 53) 0x04;
          b \<leftarrow> put_SET_DATA_FORMAT_TLV b (6 + 57) 0x19 0;
          b \<leftarrow> put_SET_DATA_FORMAT_TLV b (6 + 64) 27 11;
          b \<leftarrow> put_SET_DATA_FORMAT_TLV b (6 + 71) 28 (8 * 1024);
          Some (int (unat (QMIWDASetDataFormatReqSize qmap_version)), Ptr b)
        })
      else (case pBuffer of
        Null \<Rightarrow> Some (- ENOMEM, Null)
      | Ptr b \<Rightarrow>
          if buffSize < QMIWDASetDataFormatReqSize qmap_version then Some (- ENOMEM, Ptr b)
          else do {
            b \<leftarrow> put8 b 6 0x00;
            b \<leftarrow> put16 b (6 + 1) transactionID;
            b \<leftarrow> put16 b (6 + 3) 0x0020;
            b \<leftarrow> put16 b (6 + 5) 0x000b;
            b \<leftarrow> put8 b (6 + 7) 0x10;
            b \<leftarrow> put16 b (6 + 8) 0x0001;
            b \<leftarrow> put8 b (6 + 10) 0;
            b \<leftarrow> put8 b (6 + 11) 0x11;
            b \<leftarrow> put16 b (6 + 12) 0x0004;
            b \<leftarrow> put32 b (6 + 14) (if bRawIPMode then 2 else 1);
            Some (int (unat (QMIWDASetDataFormatReqSize qmap_version)), Ptr b)
          }))"

definition QMICTLSyncReq :: "cptr \<Rightarrow> u16 \<Rightarrow> u16 \<Rightarrow> (int \<times> cptr) option" where
  "QMICTLSyncReq pBuffer buffSize transactionID =
     (case pBuffer of
        Null \<Rightarrow> Some (- ENOMEM, Null)
      | Ptr b \<Rightarrow>
          if buffSize < QMICTLSyncReqSize then Some (- ENOMEM, Ptr b)
          else do {
            b \<leftarrow> put8 b 6 0x00;
            b \<leftarrow> put8 b (6 + 1) (ucast transactionID);
            b \<leftarrow> put16 b (6 + 2) 0x0027;
            b \<leftarrow> put16 b (6 + 4) 0x0000;
            Some (6 + 6, Ptr b)
          })"

section \<open>Response parsers\<close>

text \<open>
  The parsers step over QMUX and SDU (\<open>pBuffer + offset\<close> is \<open>drop offset\<close>) and hand the rest to
  the generic functions.
\<close>

definition QMICTLGetClientIDResp :: "cptr \<Rightarrow> u16 \<Rightarrow> u16 \<Rightarrow> (int \<times> u16) option" where
  "QMICTLGetClientIDResp pBuffer buffSize clientID =
     (case pBuffer of
        Null \<Rightarrow> Some (- ENOMEM, clientID)
      | Ptr b \<Rightarrow>
          if buffSize < 8 then Some (- ENOMEM, clientID)
          else let msg = drop 8 b; n = buffSize - 8 in do {
            result \<leftarrow> GetQMIMessageID msg n;
            if result \<noteq> 0x22 then Some (- EFAULT, clientID)
            else do {
              result \<leftarrow> ValidQMIMessage msg n;
              if result \<noteq> 0 then Some (- EFAULT, clientID)
              else do {
                (result, out) \<leftarrow> GetTLV_loop msg n 0x01 (le16 clientID) 2 4;
                clientID' \<leftarrow> rd16 out 0;
                if result \<noteq> 2 then Some (- EFAULT, clientID') else Some (0, clientID')
              }
            }
          })"

definition QMICTLReleaseClientIDResp :: "cptr \<Rightarrow> u16 \<Rightarrow> int option" where
  "QMICTLReleaseClientIDResp pBuffer buffSize =
     (case pBuffer of
        Null \<Rightarrow> Some (- ENOMEM)
      | Ptr b \<Rightarrow>
          if buffSize < 8 then Some (- ENOMEM)
          else let msg = drop 8 b; n = buffSize - 8 in do {
            result \<leftarrow> GetQMIMessageID msg n;
            if result \<noteq> 0x23 then Some (- EFAULT)
            else do {
              result \<leftarrow> ValidQMIMessage msg n;
              if result \<noteq> 0 then Some (- EFAULT) else Some 0
            }
          })"

text \<open>
  The out parameters of \<open>QMIWDSEventResp\<close>. The driver's \<open>bool\<close> is an \<open>unsigned char\<close> holding 0 or 1.
\<close>

record wds_event =
  TXOk :: u32
  RXOk :: u32
  TXErr :: u32
  RXErr :: u32
  TXOfl :: u32
  RXOfl :: u32
  TXBytesOk :: u64
  RXBytesOk :: u64
  bLinkState :: bool
  bReconfigure :: bool

text \<open>\<open>GetTLV\<close> into a \<open>u32\<close> or \<open>u64\<close> variable: its bytes are the buffer.\<close>

definition GetTLV_u32 :: "u8 list \<Rightarrow> u16 \<Rightarrow> u8 \<Rightarrow> u32 \<Rightarrow> u32 option" where
  "GetTLV_u32 msg n ty v =
     do { (r, out) \<leftarrow> GetTLV_loop msg n ty (le32 v) 4 4; rd32 out 0 }"

definition GetTLV_u64 :: "u8 list \<Rightarrow> u16 \<Rightarrow> u8 \<Rightarrow> u64 \<Rightarrow> u64 option" where
  "GetTLV_u64 msg n ty v =
     do {
       (r, out) \<leftarrow> GetTLV_loop msg n ty (le64 v) 8 4;
       lo \<leftarrow> rd32 out 0;
       hi \<leftarrow> rd32 out 4;
       Some (ucast lo OR push_bit 32 (ucast hi))
     }"

text \<open>\<open>ev = None\<close> stands for a null pointer among the out parameters.\<close>

definition QMIWDSEventResp :: "cptr \<Rightarrow> u16 \<Rightarrow> wds_event option \<Rightarrow> (int \<times> wds_event option) option" where
  "QMIWDSEventResp pBuffer buffSize ev =
     (case (pBuffer, ev) of
        (Null, _) \<Rightarrow> Some (- ENOMEM, ev)
      | (_, None) \<Rightarrow> Some (- ENOMEM, ev)
      | (Ptr b, Some e) \<Rightarrow>
          if buffSize < 9 then Some (- ENOMEM, ev)
          else let msg = drop 9 b; n = buffSize - 9 in do {
            result \<leftarrow> GetQMIMessageID msg n;
            if result = 0x01 then do {
              a \<leftarrow> GetTLV_u32 msg n 0x10 (TXOk e);
              b \<leftarrow> GetTLV_u32 msg n 0x11 (RXOk e);
              c \<leftarrow> GetTLV_u32 msg n 0x12 (TXErr e);
              d \<leftarrow> GetTLV_u32 msg n 0x13 (RXErr e);
              f \<leftarrow> GetTLV_u32 msg n 0x14 (TXOfl e);
              g \<leftarrow> GetTLV_u32 msg n 0x15 (RXOfl e);
              h \<leftarrow> GetTLV_u64 msg n 0x19 (TXBytesOk e);
              i \<leftarrow> GetTLV_u64 msg n 0x1A (RXBytesOk e);
              Some (0, Some (e\<lparr>TXOk := a, RXOk := b, TXErr := c, RXErr := d, TXOfl := f,
                               RXOfl := g, TXBytesOk := h, RXBytesOk := i\<rparr>))
            }
            else if result = 0x22 then do {
              (result, pktStatusRead) \<leftarrow> GetTLV_loop msg n 0x01 (replicate 2 0) 2 4;
              let e1 = (if result \<ge> 1 then e\<lparr>bLinkState := (pktStatusRead ! 0 = 0x02)\<rparr> else e);
                  e2 = (if result = 2 then e1\<lparr>bReconfigure := (pktStatusRead ! 1 = 0x01)\<rparr> else e1)
              in Some (if result < 0 then result else 0, Some e2)
            }
            else Some (- EFAULT, ev)
          })"

definition QMIDMSGetMEIDResp :: "cptr \<Rightarrow> u16 \<Rightarrow> cptr \<Rightarrow> int \<Rightarrow> (int \<times> cptr) option" where
  "QMIDMSGetMEIDResp pBuffer buffSize pMEID meidSize =
     (case pBuffer of
        Null \<Rightarrow> Some (- ENOMEM, pMEID)
      | Ptr b \<Rightarrow>
          if buffSize < 9 \<or> meidSize < 14 then Some (- ENOMEM, pMEID)
          else let msg = drop 9 b; n = buffSize - 9 in do {
            result \<leftarrow> GetQMIMessageID msg n;
            if result \<noteq> 0x25 then Some (- EFAULT, pMEID)
            else do {
              result \<leftarrow> ValidQMIMessage msg n;
              if result \<noteq> 0 then Some (- EFAULT, pMEID)
              else do {
                (result, pMEID') \<leftarrow> GetTLV (Ptr msg) n 0x12 pMEID 14;
                if result \<noteq> 14 then Some (- EFAULT, pMEID') else Some (0, pMEID')
              }
            }
          })"

record QMAP_SETTING =
  qmap_enabled :: u32
  dl_data_aggregation_max_datagrams :: u32
  dl_data_aggregation_max_size :: u32
  ul_data_aggregation_max_datagrams :: u32
  ul_data_aggregation_max_size :: u32
  dl_minimum_padding :: u32

text \<open>The three \<open>int\<close> out parameters of \<open>QMIWDASetDataFormatResp\<close>, as 32-bit storage.\<close>

record data_format =
  qmap_version :: u32
  rx_size :: u32
  tx_size :: u32

definition GetTLV_settings :: "u8 list \<Rightarrow> u16 \<Rightarrow> QMAP_SETTING \<Rightarrow> QMAP_SETTING option" where
  "GetTLV_settings msg n pset =
     do {
       a \<leftarrow> GetTLV_u32 msg n 0x15 (dl_data_aggregation_max_datagrams pset);
       b \<leftarrow> GetTLV_u32 msg n 0x16 (dl_data_aggregation_max_size pset);
       c \<leftarrow> GetTLV_u32 msg n 0x17 (ul_data_aggregation_max_datagrams pset);
       d \<leftarrow> GetTLV_u32 msg n 0x18 (ul_data_aggregation_max_size pset);
       e \<leftarrow> GetTLV_u32 msg n 0x1a (dl_minimum_padding pset);
       Some (pset\<lparr>dl_data_aggregation_max_datagrams := a, dl_data_aggregation_max_size := b,
                 ul_data_aggregation_max_datagrams := c, ul_data_aggregation_max_size := d,
                 dl_minimum_padding := e\<rparr>)
     }"

definition QMIWDASetDataFormatResp ::
  "cptr \<Rightarrow> u16 \<Rightarrow> bool \<Rightarrow> data_format \<Rightarrow> QMAP_SETTING option
     \<Rightarrow> (int \<times> data_format \<times> QMAP_SETTING option) option" where
  "QMIWDASetDataFormatResp pBuffer buffSize bRawIPMode f pset =
     (case pBuffer of
        Null \<Rightarrow> Some (- ENOMEM, f, pset)
      | Ptr b \<Rightarrow>
          if buffSize < 9 then Some (- ENOMEM, f, pset)
          else let msg = drop 9 b; n = buffSize - 9 in do {
            result \<leftarrow> GetQMIMessageID msg n;
            if result \<noteq> 0x20 then Some (- EFAULT, f, pset)
            else do {
              result \<leftarrow> ValidQMIMessage msg n;
              if result \<noteq> 0 then Some (0, f, pset)
              else do {
                (result, pktLinkProtocol) \<leftarrow> GetTLV_loop msg n 0x11 (replicate 4 0) 4 4;
                if result \<noteq> 4 then Some (0, f, pset)
                else let proto = pktLinkProtocol ! 0 in
                  if proto \<noteq> (if bRawIPMode then 2 else 1) then Some (int (unat proto), f, pset)
                  else do {
                    v \<leftarrow> GetTLV_u32 msg n 0x12 (qmap_version f);
                    v' \<leftarrow> (if v \<noteq> 0 then GetTLV_u32 msg n 0x13 v else Some v);
                    rx \<leftarrow> GetTLV_u32 msg n 0x16 (rx_size f);
                    tx \<leftarrow> GetTLV_u32 msg n 0x18 (tx_size f);
                    pset' \<leftarrow> (case pset of None \<Rightarrow> Some None
                                     | Some s \<Rightarrow> map_option Some (GetTLV_settings msg n s));
                    Some (int (unat proto),
                          f\<lparr>qmap_version := v', rx_size := rx, tx_size := tx\<rparr>, pset')
                  }
              }
            }
          })"

definition QMICTLSyncResp :: "cptr \<Rightarrow> u16 \<Rightarrow> int option" where
  "QMICTLSyncResp pBuffer buffSize =
     (case pBuffer of
        Null \<Rightarrow> Some (- ENOMEM)
      | Ptr b \<Rightarrow>
          if buffSize < 8 then Some (- ENOMEM)
          else let msg = drop 8 b; n = buffSize - 8 in do {
            result \<leftarrow> GetQMIMessageID msg n;
            if result \<noteq> 0x27 then Some (- EFAULT)
            else ValidQMIMessage msg n
          })"

section \<open>What the codec guarantees: the QMUX header\<close>

lemma length_sQMUX_bytes [simp]: "length (sQMUX_bytes h) = 6"
  by (simp add: sQMUX_bytes_def)

text \<open>The header of a message of \<open>n\<close> bytes for a client; the low byte of a client ID is its service.\<close>

definition qmux_header :: "u8 \<Rightarrow> u16 \<Rightarrow> u16 \<Rightarrow> sQMUX" where
  "qmux_header flag clientID n =
     \<lparr>mTF = 1, mLength = n - 1, mCtrlFlag = flag, mQMIService = ucast clientID,
      mQMIClientID = ucast (drop_bit 8 clientID)\<rparr>"

lemma FillQMUX_Ptr:
  "6 \<le> n \<Longrightarrow> FillQMUX c (Ptr b) n =
     map_option (\<lambda>b'. (0, Ptr b')) (puts b 0 (sQMUX_bytes (qmux_header 0 c n)))"
  by (simp add: FillQMUX_def QMUXHeaderSize_def mem_simps sQMUX_bytes_def qmux_header_def leD
      map_conv_bind_option comp_def)

lemma ParseQMUX_header:
  assumes "unat n = length (sQMUX_bytes (qmux_header flag c n) @ rest)" and "12 \<le> n"
  shows "ParseQMUX old (Ptr (sQMUX_bytes (qmux_header flag c n) @ rest)) n =
           (if flag = 0x80 then Some (6, c) else Some (- EINVAL, old))"
proof -
  have "int (unat (n - 1)) = int (unat n) - 1"
    using assms by (simp add: unat_sub word_le_nat_alt)
  then show ?thesis using assms
    by (simp add: ParseQMUX_def sQMUX_bytes_def qmux_header_def rd8_def rd16_def le16_def not_less
        of_le16_add)
qed

section \<open>What the codec guarantees: TLV sequences\<close>

text \<open>
  A well-formed QMI message is a 4-byte header (message ID, length of the TLVs) and a sequence
  of TLVs. What \<open>GetTLV\<close> should find is the first one of the type (\<^const>\<open>map_of\<close>). Its loop guard
  \<open>pos + 3 < messageLen\<close> hides an empty TLV at the very end, so that what it does find is the first
  one among the others; this is \<open>tlv_find\<close>.
\<close>

definition tlv_bytes :: "u8 \<times> u8 list \<Rightarrow> u8 list" where
  "tlv_bytes = (\<lambda>(t, v). t # le16 (of_nat (length v)) @ v)"

definition tlvs_bytes :: "(u8 \<times> u8 list) list \<Rightarrow> u8 list" where
  "tlvs_bytes ts = concat (map tlv_bytes ts)"

lemma tlvs_bytes_simps [simp]:
  "tlvs_bytes [] = []"
  "tlvs_bytes ((t, v) # ts) = t # le16 (of_nat (length v)) @ v @ tlvs_bytes ts"
  by (simp_all add: tlvs_bytes_def tlv_bytes_def)

lemma length_tlv_bytes [simp]: "length (tlv_bytes (t, v)) = 3 + length v"
  by (simp add: tlv_bytes_def)

definition tlv_find :: "u8 \<Rightarrow> (u8 \<times> u8 list) list \<Rightarrow> u8 list option" where
  "tlv_find ty ts = map_of (if ts \<noteq> [] \<and> snd (last ts) = [] then butlast ts else ts) ty"

lemma tlv_find_simps [simp]:
  "tlv_find ty [] = None"
  "tlv_find ty ((t, v) # ts) = (if v = [] \<and> ts = [] then None else if t = ty then Some v else tlv_find ty ts)"
  by (auto simp: tlv_find_def)

definition tlv_result :: "u8 list option \<Rightarrow> u16 \<Rightarrow> u8 list \<Rightarrow> int \<times> u8 list" where
  "tlv_result r bufferLen out =
     (case r of None \<Rightarrow> (- ENOMSG, out)
      | Some v \<Rightarrow> if unat bufferLen < length v then (- ENOMEM, out)
                  else (int (length v), v @ drop (length v) out))"

lemma tlv_reads:
  assumes "length pre = i" and "b = pre @ tlvs_bytes ((t, v) # ts) @ slack"
  shows "rd8 b i = Some t" and "rd16 b (i + 1) = Some (of_nat (length v))"
    and "rdn b (i + 3) (length v) = Some v"
  using assms rd8_append [of i pre t]
    rd16_append [of "i + 1" "pre @ [t]" "of_nat (length v)" "v @ tlvs_bytes ts @ slack"]
    rdn_append [of "i + 3" "pre @ t # le16 (of_nat (length v))" "length v" v "tlvs_bytes ts @ slack"]
  by simp_all

lemma tlv_guard:
  assumes "length pre = i" and "\<not> (v = [] \<and> ts = [])"
  shows "i + 3 < length (pre @ tlvs_bytes ((t, v) # ts))"
  using assms by (cases ts; cases v) (auto simp: tlvs_bytes_def tlv_bytes_def split: prod.splits)

lemma tlv_next_pos:
  assumes "length pre = unat (pos :: u16)" and "unat pos + 3 + length v < 65536"
  shows "unat (pos + of_nat (length v) + 3) = length (pre @ tlv_bytes (t, v))"
  using assms u16_of_nat_unat_plus [of pos "length v + 3"] by (simp add: add.assoc)

lemma GetTLV_loop_tlvs:
  assumes "length pre = unat pos"
    and "unat n = length (pre @ tlvs_bytes ts)"
    and "unat bufferLen \<le> length out"
  shows "GetTLV_loop (pre @ tlvs_bytes ts @ slack) n ty out bufferLen pos =
           Some (tlv_result (tlv_find ty ts) bufferLen out)"
  using assms
proof (induction ts arbitrary: pre pos)
  case Nil
  then show ?case by (simp add: GetTLV_loop.simps tlv_result_def)
next
  case (Cons tv ts)
  obtain t v where tv: "tv = (t, v)" by (cases tv)
  have n: "unat n < 65536" by simp
  have len: "unat n = unat pos + 3 + length v + length (tlvs_bytes ts)"
    using Cons.prems tv by simp
  note reads = tlv_reads [OF Cons.prems(1) refl, of t v ts slack, folded tv]
  have sz: "unat (of_nat (length v) :: u16) = length v"
    using len n by simp
  show ?case
  proof (cases "v = [] \<and> ts = []")
    case True
    then show ?thesis using tv len by (simp add: GetTLV_loop.simps tlv_result_def)
  next
    case more: False
    then have guard: "unat pos + 3 < unat n"
      using tlv_guard [OF Cons.prems(1) more, of t] Cons.prems(2) tv by simp
    show ?thesis
    proof (cases "t = ty")
      case True
      have "bufferLen < of_nat (length v) \<longleftrightarrow> unat bufferLen < length v"
        using sz by (simp add: word_less_nat_alt)
      then show ?thesis
        using guard more True Cons.prems(3) tv reads sz
        by (subst GetTLV_loop.simps) (auto simp: tlv_result_def puts_def)
    next
      case neq: False
      have "GetTLV_loop ((pre @ tlv_bytes tv) @ tlvs_bytes ts @ slack) n ty out bufferLen
              (pos + of_nat (length v) + 3) = Some (tlv_result (tlv_find ty ts) bufferLen out)"
        using tlv_next_pos [OF Cons.prems(1), of v t] len n Cons.prems tv
        by (intro Cons.IH) (auto simp: tlv_bytes_def)
      then show ?thesis
        using guard more neq tv reads
        by (subst GetTLV_loop.simps) (auto simp: tlv_bytes_def)
    qed
  qed
qed

text \<open>
  A TLV whose length field is \<open>0xFFFD\<close> advances the 16-bit position by \<open>0x10000\<close>, that is not
  at all. A search that meets one of another type never returns.
\<close>

definition tlv_stuck :: "u8 list \<Rightarrow> u16 \<Rightarrow> u8 \<Rightarrow> u16 \<Rightarrow> bool" where
  "tlv_stuck msg n ty pos \<longleftrightarrow>
     unat pos + 3 < unat n \<and> rd16 msg (unat pos + 1) = Some 0xFFFD \<and>
     (case rd8 msg (unat pos) of None \<Rightarrow> False | Some t \<Rightarrow> t \<noteq> ty)"

lemma GetTLV_loop_not_stuck:
  assumes ret: "GetTLV_loop msg n ty out bufferLen pos = Some r"
  shows "\<not> tlv_stuck msg n ty pos"
proof (rule GetTLV_loop.raw_induct [where
      P = "\<lambda>msg n ty out bufferLen pos r. \<not> tlv_stuck msg n ty pos", OF _ ret])
  fix f :: "u8 list \<Rightarrow> u16 \<Rightarrow> u8 \<Rightarrow> u8 list \<Rightarrow> u16 \<Rightarrow> u16 \<Rightarrow> (int \<times> u8 list) option"
    and msg :: "u8 list" and n :: u16 and ty :: u8 and out :: "u8 list" and bufferLen pos :: u16 and r
  assume IH: "\<And>msg n ty out bufferLen pos r.
      f msg n ty out bufferLen pos = Some r \<Longrightarrow> \<not> tlv_stuck msg n ty pos"
    and eq: "(if unat pos + 3 < unat n
      then do {
        tlvSize \<leftarrow> rd16 msg (unat pos + 1);
        t \<leftarrow> rd8 msg (unat pos);
        if t = ty
        then if bufferLen < tlvSize then Some (- ENOMEM, out)
             else do {
               v \<leftarrow> rdn msg (unat pos + 3) (unat tlvSize);
               out' \<leftarrow> puts out 0 v;
               Some (int (unat tlvSize), out')
             }
        else f msg n ty out bufferLen (pos + tlvSize + 3)
      }
      else Some (- ENOMSG, out)) = Some r"
  show "\<not> tlv_stuck msg n ty pos"
  proof
    assume stuck: "tlv_stuck msg n ty pos"
    with eq have "f msg n ty out bufferLen pos = Some r"
      by (auto simp: tlv_stuck_def u16_wrap split: option.splits)
    from IH [OF this] stuck show False by blast
  qed
qed

lemma GetTLV_loop_stuck: "tlv_stuck msg n ty pos \<Longrightarrow> GetTLV_loop msg n ty out bufferLen pos = None"
  using GetTLV_loop_not_stuck by (cases "GetTLV_loop msg n ty out bufferLen pos") blast+

section \<open>What the codec guarantees: requests\<close>

text \<open>The two request layouts: control messages have a one-byte transaction ID, others two.\<close>

definition ctl_msg :: "u8 \<Rightarrow> u16 \<Rightarrow> (u8 \<times> u8 list) list \<Rightarrow> u8 list" where
  "ctl_msg tid i ts = [0, tid] @ le16 i @ le16 (of_nat (length (tlvs_bytes ts))) @ tlvs_bytes ts"

definition svc_msg :: "u16 \<Rightarrow> u16 \<Rightarrow> (u8 \<times> u8 list) list \<Rightarrow> u8 list" where
  "svc_msg tid i ts =
     [0] @ le16 tid @ le16 i @ le16 (of_nat (length (tlvs_bytes ts))) @ tlvs_bytes ts"

text \<open>
  The contract of a request builder: it refuses a null pointer and a buffer said to be shorter
  than the request, and otherwise stores exactly the request behind the QMUX header.
\<close>

locale request_builder =
  fixes build :: "cptr \<Rightarrow> u16 \<Rightarrow> 'p \<Rightarrow> (int \<times> cptr) option" and sz :: u16
    and body :: "'p \<Rightarrow> u8 list"
  assumes null: "build Null n p = Some (- ENOMEM, Null)"
    and small: "n < sz \<Longrightarrow> build (Ptr b) n p = Some (- ENOMEM, Ptr b)"
    and fill: "sz \<le> n \<Longrightarrow> build (Ptr b) n p =
                 map_option (\<lambda>b'. (int (unat sz), Ptr b')) (puts b 6 (body p))"
    and body_size: "6 + length (body p) = unat sz"
begin

lemma build_ok:
  assumes "sz \<le> n" and "unat n \<le> length b"
  shows "build (Ptr b) n p = Some (int (unat sz), Ptr (take 6 b @ body p @ drop (unat sz) b))"
proof -
  have "6 + length (body p) \<le> length b"
    using assms body_size [of p] by (simp add: word_le_nat_alt)
  then show ?thesis
    using assms fill body_size [of p] by (simp add: puts_def)
qed

lemma build_total: "unat n \<le> length b \<Longrightarrow> build (Ptr b) n p \<noteq> None"
  using build_ok [of n b p] small [of n b p] by (cases "n < sz") auto

lemma build_result:
  "unat n \<le> length b \<Longrightarrow> build (Ptr b) n p = Some (r, q) \<Longrightarrow> r = - ENOMEM \<or> r = int (unat sz)"
  using build_ok [of n b p] small [of n b p] by (cases "n < sz") auto

end

lemmas builder_simps = req_size_defs mem_simps ctl_msg_def svc_msg_def map_conv_bind_option comp_def leD

interpretation get_client_id: request_builder
  "\<lambda>q n (tid, svc). QMICTLGetClientIDReq q n tid svc" QMICTLGetClientIDReqSize
  "\<lambda>(tid, svc). ctl_msg tid 0x22 [(0x01, [svc])]"
  by unfold_locales (auto simp: QMICTLGetClientIDReq_def builder_simps)

interpretation release_client_id: request_builder
  "\<lambda>q n (tid, c). QMICTLReleaseClientIDReq q n tid c" QMICTLReleaseClientIDReqSize
  "\<lambda>(tid, c). ctl_msg tid 0x23 [(0x01, le16 c)]"
  by unfold_locales (auto simp: QMICTLReleaseClientIDReq_def builder_simps)

interpretation ready: request_builder QMICTLReadyReq QMICTLReadyReqSize
  "\<lambda>tid. ctl_msg tid 0x21 []"
  by unfold_locales (auto simp: QMICTLReadyReq_def builder_simps)

interpretation set_event_report: request_builder QMIWDSSetEventReportReq
  QMIWDSSetEventReportReqSize "\<lambda>tid. svc_msg tid 0x01 [(0x11, 0x01 # le32 0xff)]"
  by unfold_locales (auto simp: QMIWDSSetEventReportReq_def builder_simps)

interpretation get_pkg_srvc_status: request_builder QMIWDSGetPKGSRVCStatusReq
  QMIWDSGetPKGSRVCStatusReqSize "\<lambda>tid. svc_msg tid 0x22 []"
  by unfold_locales (auto simp: QMIWDSGetPKGSRVCStatusReq_def builder_simps)

interpretation get_meid: request_builder QMIDMSGetMEIDReq QMIDMSGetMEIDReqSize
  "\<lambda>tid. svc_msg tid 0x25 []"
  by unfold_locales (auto simp: QMIDMSGetMEIDReq_def builder_simps)

interpretation set_data_format: request_builder
  "\<lambda>q n (raw, rx, tid). QMIWDASetDataFormatReq q n raw 0 rx tid" "QMIWDASetDataFormatReqSize 0"
  "\<lambda>(raw, rx, tid). svc_msg tid 0x20 [(0x10, [0]), (0x11, le32 (if raw then 2 else 1))]"
  by unfold_locales (auto simp: QMIWDASetDataFormatReq_def builder_simps)

interpretation sync: request_builder QMICTLSyncReq QMICTLSyncReqSize
  "\<lambda>tid. ctl_msg (ucast tid) 0x27 []"
  by unfold_locales (auto simp: QMICTLSyncReq_def builder_simps)

text \<open>
  The QMAP request does not meet the contract: it stores its 78 bytes whatever size it is told.
\<close>

definition qmap_format_tlvs :: "int \<Rightarrow> u32 \<Rightarrow> (u8 \<times> u8 list) list" where
  "qmap_format_tlvs v rx =
     [(0x10, [0]), (0x11, le32 2), (0x12, le32 (of_int v)), (0x13, le32 (of_int v)),
      (0x15, le32 (rx div 1024)), (0x16, le32 rx), (0x17, le32 2 @ le32 4), (0x19, le32 0),
      (27, le32 11), (28, le32 (8 * 1024))]"

lemma QMIWDASetDataFormatReq_qmap:
  assumes "v \<noteq> 0"
  shows "QMIWDASetDataFormatReq (Ptr b) n raw v rx tid =
    map_option (\<lambda>b'. (84, Ptr b')) (puts b 6 (svc_msg tid 0x20 (qmap_format_tlvs v rx)))"
  using assms
  by (simp add: QMIWDASetDataFormatReq_def put_SET_DATA_FORMAT_TLV_def builder_simps
      qmap_format_tlvs_def)

text \<open>In an object of at least 84 bytes that is the whole request; in a shorter one it is a store out of bounds.\<close>

lemma QMIWDASetDataFormatReq_qmap_fits:
  assumes "v \<noteq> 0"
  shows "QMIWDASetDataFormatReq (Ptr b) n raw v rx tid =
    (if 84 \<le> length b
     then Some (84, Ptr (take 6 b @ svc_msg tid 0x20 (qmap_format_tlvs v rx) @ drop 84 b))
     else None)"
proof -
  have "length (svc_msg tid 0x20 (qmap_format_tlvs v rx)) = 78"
    by (simp add: svc_msg_def qmap_format_tlvs_def)
  then show ?thesis
    by (simp add: QMIWDASetDataFormatReq_qmap [OF assms] puts_def)
qed

section \<open>What the codec guarantees: responses\<close>

text \<open>
  The outcome the result TLV of a message stands for: what \<open>ValidQMIMessage\<close> computes on every
  well-formed message. The error is the low byte of the two-byte error code only.
\<close>

definition result_code :: "(u8 \<times> u8 list) list \<Rightarrow> int" where
  "result_code ts =
     (case tlv_find 2 ts of
        Some [q0, q1, e0, e1] \<Rightarrow>
          if q0 = 0 \<and> q1 = 0 then 0 else int (unat (scast e0 :: u16))
      | _ \<Rightarrow> - ENOMSG)"

text \<open>A message after QMUX and SDU: the ID, the length of the TLVs, the TLVs.\<close>

definition qmi_msg :: "u16 \<Rightarrow> (u8 \<times> u8 list) list \<Rightarrow> u8 list" where
  "qmi_msg i ts = le16 i @ le16 (of_nat (length (tlvs_bytes ts))) @ tlvs_bytes ts"

lemma length_qmi_msg [simp]: "length (qmi_msg i ts) = 4 + length (tlvs_bytes ts)"
  by (simp add: qmi_msg_def)

lemma GetTLV_loop_qmi_msg:
  assumes "unat n = length (qmi_msg i ts)" and "unat bufferLen \<le> length out"
  shows "GetTLV_loop (qmi_msg i ts @ slack) n ty out bufferLen 4 =
           Some (tlv_result (tlv_find ty ts) bufferLen out)"
  using GetTLV_loop_tlvs [of "le16 i @ le16 (of_nat (length (tlvs_bytes ts)))" 4 n ts bufferLen
      out slack ty] assms
  by (simp add: qmi_msg_def)

lemma GetQMIMessageID_qmi_msg:
  assumes "unat n = length (qmi_msg i ts)"
  shows "GetQMIMessageID (qmi_msg i ts @ slack) n = Some (int (unat i))"
proof -
  have "\<not> n < 2"
    using assms by (simp add: word_less_nat_alt)
  then show ?thesis
    using rd16_append [of 0 "[]" i "le16 (of_nat (length (tlvs_bytes ts))) @ tlvs_bytes ts @ slack"]
    by (simp add: GetQMIMessageID_def qmi_msg_def)
qed

lemma of_le16_eq_0_iff: "of_le16 a b = 0 \<longleftrightarrow> a = 0 \<and> b = 0"
  using le16_of_le16 [of a b] by (auto simp: le16_def of_le16_def)

lemma ValidQMIMessage_qmi_msg:
  assumes "unat n = length (qmi_msg i ts)"
  shows "ValidQMIMessage (qmi_msg i ts @ slack) n = Some (result_code ts)"
proof -
  have loop: "GetTLV_loop (qmi_msg i ts @ slack) n 2 (replicate 4 0) 4 4 =
      Some (tlv_result (tlv_find 2 ts) 4 (replicate 4 0))"
    using assms by (intro GetTLV_loop_qmi_msg) auto
  show ?thesis
  proof (cases "tlv_find 2 ts")
    case None
    with loop show ?thesis
      by (simp add: ValidQMIMessage_def tlv_result_def result_code_def)
  next
    case (Some v)
    show ?thesis
    proof (cases "length v = 4")
      case True
      then obtain q0 q1 e0 e1 where "v = [q0, q1, e0, e1]"
        by (auto simp: numeral_eq_Suc length_Suc_conv)
      with loop Some show ?thesis
        by (simp add: ValidQMIMessage_def tlv_result_def result_code_def rd16_def rd8_def
            of_le16_eq_0_iff)
    next
      case False
      then have "result_code ts = - ENOMSG"
        using Some by (auto simp: result_code_def split: list.splits)
      with loop Some False show ?thesis
        by (auto simp: ValidQMIMessage_def tlv_result_def)
    qed
  qed
qed

lemma drop_message [simp]: "length hdr = k \<Longrightarrow> drop k (hdr @ m) = m"
  by simp

text \<open>
  The size of the message behind \<open>k\<close> bytes of transport headers, as the parsers compute it.
\<close>

lemma inner_size:
  assumes "unat (n :: u16) = k + length m" and "k < 65536"
  shows "\<not> n < of_nat k" and "unat (n - of_nat k) = length m"
  using assms by (auto simp: word_less_nat_alt unat_sub word_le_nat_alt)

lemmas parser_msg = GetTLV_loop_qmi_msg [where slack = "[]", simplified]
  GetQMIMessageID_qmi_msg [where slack = "[]", simplified]
  ValidQMIMessage_qmi_msg [where slack = "[]", simplified]

text \<open>Comparing a message ID, promoted to \<open>int\<close>, with a constant.\<close>

lemma uint_u16_eq: "0 \<le> k \<Longrightarrow> k < 65536 \<Longrightarrow> uint (x :: u16) = k \<longleftrightarrow> x = of_int k"
  by (auto simp: uint_word_of_int_eq take_bit_int_eq_self)

text \<open>What the three generic functions return on a message behind \<open>k\<close> bytes of headers.\<close>

lemma inner_parse:
  assumes "k < 65536" and "unat n = k + (4 + length (tlvs_bytes ts))"
  shows "GetQMIMessageID (qmi_msg i ts) (n - of_nat k) = Some (int (unat i))"
    and "ValidQMIMessage (qmi_msg i ts) (n - of_nat k) = Some (result_code ts)"
    and "unat bufferLen \<le> length out \<Longrightarrow>
         GetTLV_loop (qmi_msg i ts) (n - of_nat k) ty out bufferLen 4 =
           Some (tlv_result (tlv_find ty ts) bufferLen out)"
    and "\<not> n < of_nat k"
  using inner_size [of n k "qmi_msg i ts"] assms parser_msg by simp_all

lemmas ctl_parse = inner_parse [where k = 8, simplified]
lemmas svc_parse = inner_parse [where k = 9, simplified]

lemma QMICTLGetClientIDResp_msg:
  assumes "length hdr = 8" and "unat n = length (hdr @ qmi_msg i ts)"
  shows "QMICTLGetClientIDResp (Ptr (hdr @ qmi_msg i ts)) n old =
     (if i \<noteq> 0x22 \<or> result_code ts \<noteq> 0 then Some (- EFAULT, old)
      else case tlv_find 1 ts of
             Some [svc, cid] \<Rightarrow> Some (0, of_le16 svc cid)
           | Some [x] \<Rightarrow> Some (- EFAULT, of_le16 x (ucast (drop_bit 8 old)))
           | _ \<Rightarrow> Some (- EFAULT, old))"
  using assms
  by (simp add: QMICTLGetClientIDResp_def ctl_parse uint_u16_eq tlv_result_def le16_def rd16_def
      Let_def split: option.split list.split)

lemma QMICTLReleaseClientIDResp_msg:
  assumes "length hdr = 8" and "unat n = length (hdr @ qmi_msg i ts)"
  shows "QMICTLReleaseClientIDResp (Ptr (hdr @ qmi_msg i ts)) n =
     Some (if i \<noteq> 0x23 \<or> result_code ts \<noteq> 0 then - EFAULT else 0)"
  using assms
  by (simp add: QMICTLReleaseClientIDResp_def ctl_parse uint_u16_eq Let_def)

lemma QMICTLSyncResp_msg:
  assumes "length hdr = 8" and "unat n = length (hdr @ qmi_msg i ts)"
  shows "QMICTLSyncResp (Ptr (hdr @ qmi_msg i ts)) n =
     Some (if i \<noteq> 0x27 then - EFAULT else result_code ts)"
  using assms
  by (simp add: QMICTLSyncResp_def ctl_parse uint_u16_eq Let_def)

lemma QMIDMSGetMEIDResp_msg:
  assumes "length hdr = 9" and "unat n = length (hdr @ qmi_msg i ts)"
    and "14 \<le> meidSize" and "14 \<le> length meid"
  shows "QMIDMSGetMEIDResp (Ptr (hdr @ qmi_msg i ts)) n (Ptr meid) meidSize =
     (if i \<noteq> 0x25 \<or> result_code ts \<noteq> 0 then Some (- EFAULT, Ptr meid)
      else let (r, out) = tlv_result (tlv_find 0x12 ts) 14 meid
           in Some (if r = 14 then 0 else - EFAULT, Ptr out))"
  using assms
  by (simp add: QMIDMSGetMEIDResp_def GetTLV_def svc_parse uint_u16_eq Let_def split: prod.split)

text \<open>A \<open>u32\<close> variable after a search into it: the first bytes are those of the TLV found.\<close>

definition tlv_u32 :: "u8 \<Rightarrow> (u8 \<times> u8 list) list \<Rightarrow> u32 \<Rightarrow> u32" where
  "tlv_u32 ty ts v =
     (case snd (tlv_result (tlv_find ty ts) 4 (le32 v)) of
        [a, b, c, d] \<Rightarrow> of_le32 a b c d
      | _ \<Rightarrow> v)"

lemma length_tlv_result: "unat m \<le> length out \<Longrightarrow> length (snd (tlv_result r m out)) = length out"
  by (auto simp: tlv_result_def split: option.splits)

lemma GetTLV_u32_msg:
  assumes "unat n = length (qmi_msg i ts)"
  shows "GetTLV_u32 (qmi_msg i ts) n ty v = Some (tlv_u32 ty ts v)"
proof -
  obtain r out where res: "tlv_result (tlv_find ty ts) 4 (le32 v) = (r, out)"
    by fastforce
  with length_tlv_result [of 4 "le32 v" "tlv_find ty ts"] have "length out = 4" by simp
  then obtain a b c d where "out = [a, b, c, d]"
    by (auto simp: numeral_eq_Suc length_Suc_conv)
  with res assms show ?thesis
    by (simp add: GetTLV_u32_def parser_msg tlv_u32_def rd32_def)
qed

lemma GetTLV_u64_msg:
  assumes "unat n = length (qmi_msg i ts)"
  shows "\<exists>w. GetTLV_u64 (qmi_msg i ts) n ty v = Some w"
proof -
  obtain r out where res: "tlv_result (tlv_find ty ts) 8 (le64 v) = (r, out)"
    by fastforce
  with length_tlv_result [of 8 "le64 v" "tlv_find ty ts"] have "length out = 8" by simp
  with res assms show ?thesis
    by (simp add: GetTLV_u64_def parser_msg rd32_def)
qed

lemma tlv_u32_found: "tlv_find ty ts = Some (le32 w) \<Longrightarrow> tlv_u32 ty ts v = w"
  by (simp add: tlv_u32_def tlv_result_def le32_def)

lemma tlv_u32_absent: "tlv_find ty ts = None \<Longrightarrow> tlv_u32 ty ts v = v"
  by (simp add: tlv_u32_def tlv_result_def le32_def)

lemma QMIWDSEventResp_status_msg:
  assumes "length hdr = 9" and "unat n = length (hdr @ qmi_msg 0x22 ts)"
  shows "QMIWDSEventResp (Ptr (hdr @ qmi_msg 0x22 ts)) n (Some e) =
     (case tlv_find 1 ts of
        Some [] \<Rightarrow> Some (0, Some e)
      | Some [s] \<Rightarrow> Some (0, Some (e\<lparr>bLinkState := (s = 2)\<rparr>))
      | Some [s, r] \<Rightarrow> Some (0, Some (e\<lparr>bLinkState := (s = 2), bReconfigure := (r = 1)\<rparr>))
      | None \<Rightarrow> Some (- ENOMSG, Some e)
      | _ \<Rightarrow> Some (- ENOMEM, Some e))"
proof -
  have "replicate 2 (0 :: u8) = [0, 0]"
    by (simp add: numeral_2_eq_2)
  then show ?thesis
    using assms
    by (simp add: QMIWDSEventResp_def svc_parse tlv_result_def Let_def
        split: option.split list.split)
qed

lemma QMIWDSEventResp_report_msg:
  assumes "length hdr = 9" and "unat n = length (hdr @ qmi_msg 0x01 ts)"
  shows "\<exists>h i. QMIWDSEventResp (Ptr (hdr @ qmi_msg 0x01 ts)) n (Some e) =
    Some (0, Some (e\<lparr>TXOk := tlv_u32 0x10 ts (TXOk e), RXOk := tlv_u32 0x11 ts (RXOk e),
                     TXErr := tlv_u32 0x12 ts (TXErr e), RXErr := tlv_u32 0x13 ts (RXErr e),
                     TXOfl := tlv_u32 0x14 ts (TXOfl e), RXOfl := tlv_u32 0x15 ts (RXOfl e),
                     TXBytesOk := h, RXBytesOk := i\<rparr>))"
proof -
  have n: "unat (n - 9) = length (qmi_msg 0x01 ts)"
    using inner_size [of n 9 "qmi_msg 0x01 ts"] assms by simp
  obtain h i where "GetTLV_u64 (qmi_msg 0x01 ts) (n - 9) 0x19 (TXBytesOk e) = Some h"
    and "GetTLV_u64 (qmi_msg 0x01 ts) (n - 9) 0x1A (RXBytesOk e) = Some i"
    using GetTLV_u64_msg [OF n] by meson
  then have "QMIWDSEventResp (Ptr (hdr @ qmi_msg 0x01 ts)) n (Some e) =
    Some (0, Some (e\<lparr>TXOk := tlv_u32 0x10 ts (TXOk e), RXOk := tlv_u32 0x11 ts (RXOk e),
                     TXErr := tlv_u32 0x12 ts (TXErr e), RXErr := tlv_u32 0x13 ts (RXErr e),
                     TXOfl := tlv_u32 0x14 ts (TXOfl e), RXOfl := tlv_u32 0x15 ts (RXOfl e),
                     TXBytesOk := h, RXBytesOk := i\<rparr>))"
    using assms n by (simp add: QMIWDSEventResp_def svc_parse GetTLV_u32_msg Let_def)
  then show ?thesis by blast
qed

lemma GetTLV_settings_msg:
  assumes "unat n = length (qmi_msg i ts)"
  shows "GetTLV_settings (qmi_msg i ts) n s =
    Some (s\<lparr>dl_data_aggregation_max_datagrams := tlv_u32 0x15 ts (dl_data_aggregation_max_datagrams s),
            dl_data_aggregation_max_size := tlv_u32 0x16 ts (dl_data_aggregation_max_size s),
            ul_data_aggregation_max_datagrams := tlv_u32 0x17 ts (ul_data_aggregation_max_datagrams s),
            ul_data_aggregation_max_size := tlv_u32 0x18 ts (ul_data_aggregation_max_size s),
            dl_minimum_padding := tlv_u32 0x1a ts (dl_minimum_padding s)\<rparr>)"
  using assms by (simp add: GetTLV_settings_def GetTLV_u32_msg)

text \<open>The negotiated version: the uplink TLV, overridden by the downlink TLV unless it is zero.\<close>

definition negotiated_version :: "(u8 \<times> u8 list) list \<Rightarrow> u32 \<Rightarrow> u32" where
  "negotiated_version ts v =
     (if tlv_u32 0x12 ts v \<noteq> 0 then tlv_u32 0x13 ts (tlv_u32 0x12 ts v) else tlv_u32 0x12 ts v)"

lemma QMIWDASetDataFormatResp_msg:
  assumes "length hdr = 9" and "unat n = length (hdr @ qmi_msg 0x20 ts)"
    and "result_code ts = 0" and "tlv_find 0x11 ts = Some (p # q)" and "length q = 3"
    and "p = (if raw then 2 else 1)"
  shows "QMIWDASetDataFormatResp (Ptr (hdr @ qmi_msg 0x20 ts)) n raw f None =
    Some (int (unat p),
          f\<lparr>qmap_version := negotiated_version ts (qmap_version f),
            rx_size := tlv_u32 0x16 ts (rx_size f), tx_size := tlv_u32 0x18 ts (tx_size f)\<rparr>, None)"
proof -
  have n: "unat (n - 9) = length (qmi_msg 0x20 ts)"
    using inner_size [of n 9 "qmi_msg 0x20 ts"] assms by simp
  have proto: "tlv_result (tlv_find 0x11 ts) 4 (replicate 4 0) = (4, p # q)"
    using assms by (simp add: tlv_result_def)
  show ?thesis
    using assms(1-3,6) n proto
    by (simp add: QMIWDASetDataFormatResp_def svc_parse GetTLV_u32_msg negotiated_version_def Let_def)
qed

section \<open>Properties\<close>

lemma sQMUX_bytes_flag:
  "(sQMUX_bytes (qmux_header f c n) @ rest)[3 := g] = sQMUX_bytes (qmux_header g c n) @ rest"
  by (simp add: sQMUX_bytes_def qmux_header_def le16_def list_update_append numeral_eq_Suc)

text \<open>
  C1. The QMUX header round trip. A request filled in by \<open>FillQMUX\<close> that comes back from the
  device as a response (control flag \<open>0x80\<close>) is parsed by \<open>ParseQMUX\<close> to the client ID it was
  sent for, with the header size as result; the request itself is refused as a response.
\<close>

theorem qmux_roundtrip:
  assumes "FillQMUX c (Ptr b) n = Some (0, Ptr b')" and "12 \<le> n" and "length b = unat n"
  shows "ParseQMUX old (Ptr (b'[3 := 0x80])) n = Some (6, c) \<and>
         ParseQMUX old (Ptr b') n = Some (- EINVAL, old)"
proof -
  have "6 \<le> n" and n: "12 \<le> unat n"
    using assms(2) by (auto simp: word_le_nat_alt)
  then have b': "b' = sQMUX_bytes (qmux_header 0 c n) @ drop 6 b"
    using assms FillQMUX_Ptr [of n c b] by (auto simp: puts_def split: if_splits)
  have "unat n = length (sQMUX_bytes (qmux_header f c n) @ drop 6 b)" for f
    using assms(3) n by simp
  from ParseQMUX_header [OF this assms(2)] show ?thesis
    unfolding b' sQMUX_bytes_flag by simp
qed

theorem qmux_roundtrip_witness:
  "\<exists>b'. FillQMUX 0x0301 (Ptr (replicate 12 0)) 12 = Some (0, Ptr b') \<and>
        ParseQMUX 0 (Ptr (b'[3 := 0x80])) 12 = Some (6, 0x0301) \<and>
        ParseQMUX 0 (Ptr b') 12 = Some (- EINVAL, 0)"
proof -
  obtain b' where fill: "FillQMUX 0x0301 (Ptr (replicate 12 0)) 12 = Some (0, Ptr b')"
    using FillQMUX_Ptr [of 12 "0x0301" "replicate 12 0"] by (simp add: puts_def)
  have "(12 :: u16) \<le> 12" and "length (replicate 12 (0 :: u8)) = unat (12 :: u16)"
    by simp_all
  from qmux_roundtrip [OF fill this, of 0] fill show ?thesis by blast
qed

text \<open>
  C2. \<open>GetTLV\<close> on every well-formed message: it returns the size of the first TLV of the type
  and stores its value, or refuses with \<open>-ENOMEM\<close> when the value does not fit, or with \<open>-ENOMSG\<close>
  when there is none. The one exception is an empty TLV at the end of the message: the loop test
  \<open>pos + 3 < messageLen\<close> never visits it, and the search is that of the message without it. The
  search ends and reads only the message.
\<close>

theorem GetTLV_well_formed:
  assumes "unat n = length (qmi_msg i ts)" and "unat bufferLen \<le> length out"
  shows "GetTLV (Ptr (qmi_msg i ts)) n ty (Ptr out) bufferLen =
    Some (case map_of (if ts \<noteq> [] \<and> snd (last ts) = [] then butlast ts else ts) ty of
            None \<Rightarrow> (- ENOMSG, Ptr out)
          | Some v \<Rightarrow> if unat bufferLen < length v then (- ENOMEM, Ptr out)
                      else (int (length v), Ptr (v @ drop (length v) out)))"
  unfolding tlv_find_def [symmetric]
  using assms by (simp add: GetTLV_def parser_msg tlv_result_def split: option.split)

theorem GetTLV_well_formed_witness:
  "GetTLV (Ptr (qmi_msg 0x22 [(2, [0, 0, 0, 0]), (1, [7, 9])])) 16 1 (Ptr [5, 5]) 2 =
     Some (2, Ptr [7, 9])"
  using GetTLV_well_formed [of 16 "0x22" "[(2, [0, 0, 0, 0]), (1, [7, 9])]" 2 "[5, 5]" 1]
  by simp

text \<open>
  The client ID a device assigns is the one its messages are routed by. When a successful
  \<open>QMI_CTL_GET_CLIENT_ID\<close> response carries service and client number, \<open>QMICTLGetClientIDResp\<close>
  returns the 16-bit ID that \<open>ParseQMUX\<close> reports for every later message whose QMUX header names
  that service and client.
\<close>

theorem client_id_routes:
  assumes "length hdr = 8" and "unat n = length (hdr @ qmi_msg 0x22 ts)"
    and "result_code ts = 0" and "tlv_find 1 ts = Some [svc, cid]"
    and "unat m = 6 + length rest" and "12 \<le> m"
  shows "\<exists>c. QMICTLGetClientIDResp (Ptr (hdr @ qmi_msg 0x22 ts)) n old = Some (0, c) \<and>
    ParseQMUX old' (Ptr (sQMUX_bytes \<lparr>mTF = 1, mLength = m - 1, mCtrlFlag = 0x80,
      mQMIService = svc, mQMIClientID = cid\<rparr> @ rest)) m = Some (6, c)"
proof -
  have hd: "\<lparr>mTF = 1, mLength = m - 1, mCtrlFlag = 0x80, mQMIService = svc, mQMIClientID = cid\<rparr> =
      qmux_header 0x80 (of_le16 svc cid) m"
    using le16_of_le16 [of svc cid] by (simp add: qmux_header_def le16_def)
  show ?thesis
    unfolding hd using assms ParseQMUX_header [of m "0x80" "of_le16 svc cid" rest old']
    by (simp add: QMICTLGetClientIDResp_msg)
qed

theorem client_id_routes_witness:
  "\<exists>c. QMICTLGetClientIDResp
         (Ptr (replicate 8 0 @ qmi_msg 0x22 [(2, [0, 0, 0, 0]), (1, [3, 1])])) 24 0 = Some (0, c) \<and>
       ParseQMUX 0 (Ptr (sQMUX_bytes \<lparr>mTF = 1, mLength = 12 - 1, mCtrlFlag = 0x80,
         mQMIService = 3, mQMIClientID = 1\<rparr> @ replicate 6 0)) 12 = Some (6, c)"
  using client_id_routes [of "replicate 8 0" 24 "[(2, [0, 0, 0, 0]), (1, [3, 1])]" 3 1 12
      "replicate 6 0" 0 0]
  by (simp add: result_code_def)

text \<open>
  C3. Every request the driver sends is well formed. Given a buffer of at least the size it is
  told, each builder returns the size of its request, has stored behind the QMUX header exactly
  the message with the right ID, a length field that counts its TLVs and the TLVs with its
  parameters, and has left every other byte of the buffer alone. The one exception is the data
  format request with a QMAP version: it does not look at the size it is told, and in an object of
  less than 84 bytes it stores out of bounds.
\<close>

theorem requests_well_formed:
  assumes "24 \<le> n" and "unat n \<le> length b"
  shows "QMICTLGetClientIDReq (Ptr b) n t svc =
           Some (16, Ptr (take 6 b @ ctl_msg t 0x22 [(0x01, [svc])] @ drop 16 b)) \<and>
         QMICTLReleaseClientIDReq (Ptr b) n t c =
           Some (17, Ptr (take 6 b @ ctl_msg t 0x23 [(0x01, le16 c)] @ drop 17 b)) \<and>
         QMICTLReadyReq (Ptr b) n t = Some (12, Ptr (take 6 b @ ctl_msg t 0x21 [] @ drop 12 b)) \<and>
         QMICTLSyncReq (Ptr b) n tid =
           Some (12, Ptr (take 6 b @ ctl_msg (ucast tid) 0x27 [] @ drop 12 b)) \<and>
         QMIWDSSetEventReportReq (Ptr b) n tid =
           Some (21, Ptr (take 6 b @ svc_msg tid 0x01 [(0x11, 0x01 # le32 0xff)] @ drop 21 b)) \<and>
         QMIWDSGetPKGSRVCStatusReq (Ptr b) n tid =
           Some (13, Ptr (take 6 b @ svc_msg tid 0x22 [] @ drop 13 b)) \<and>
         QMIDMSGetMEIDReq (Ptr b) n tid =
           Some (13, Ptr (take 6 b @ svc_msg tid 0x25 [] @ drop 13 b)) \<and>
         QMIWDASetDataFormatReq (Ptr b) n raw v rx tid =
           (if v = 0 then Some (24, Ptr (take 6 b @
              svc_msg tid 0x20 [(0x10, [0]), (0x11, le32 (if raw then 2 else 1))] @ drop 24 b))
            else if 84 \<le> length b
            then Some (84, Ptr (take 6 b @ svc_msg tid 0x20 (qmap_format_tlvs v rx) @ drop 84 b))
            else None)"
proof -
  have le: "k \<le> n" if "unat k \<le> 24" for k :: u16
    using assms(1) that by (simp add: word_le_nat_alt)
  note oks = get_client_id.build_ok [of n b "(t, svc)"] release_client_id.build_ok [of n b "(t, c)"]
    ready.build_ok [of n b t] sync.build_ok [of n b tid] set_event_report.build_ok [of n b tid]
    get_pkg_srvc_status.build_ok [of n b tid] get_meid.build_ok [of n b tid]
    set_data_format.build_ok [of n b "(raw, rx, tid)"]
  show ?thesis
    using oks assms(2) le QMIWDASetDataFormatReq_qmap_fits [of v b n raw rx tid] by (simp add: req_size_defs)
qed

theorem requests_well_formed_witness:
  "QMICTLReleaseClientIDReq (Ptr (replicate 24 0)) 24 5 0x0301 =
     Some (17, Ptr (take 6 (replicate 24 0) @ ctl_msg 5 0x23 [(0x01, le16 0x0301)] @
       drop 17 (replicate 24 0)))"
  using requests_well_formed [of 24 "replicate 24 0" 5 0 "0x0301" 0 False 5 0] by simp

text \<open>
  \<open>GetTLV\<close> need not return. On a message that holds a TLV of another type with length field
  \<open>0xFFFD\<close> in first place, followed by at least one byte, the 16-bit position stops advancing
  and the search never ends.
\<close>

theorem GetTLV_never_returns:
  assumes "length hdr = 4" and "t \<noteq> ty" and "unat n = length (hdr @ [t, 0xFD, 0xFF] @ x # rest)"
  shows "GetTLV (Ptr (hdr @ [t, 0xFD, 0xFF] @ x # rest)) n ty (Ptr out) bufferLen = None"
proof -
  have "of_le16 0xFD 0xFF = 0xFFFD"
    by (simp add: of_le16_def)
  then have "tlv_stuck (hdr @ [t, 0xFD, 0xFF] @ x # rest) n ty 4"
    using assms by (simp add: tlv_stuck_def rd16_def rd8_def nth_append)
  then show ?thesis
    by (simp add: GetTLV_def GetTLV_loop_stuck)
qed

theorem GetTLV_never_returns_witness:
  "GetTLV (Ptr [0x22, 0, 4, 0, 1, 0xFD, 0xFF, 0]) 8 2 (Ptr [0, 0, 0, 0]) 4 = None"
  using GetTLV_never_returns [of "[0x22, 0, 4, 0]" 1 2 8 0 "[]" "[0, 0, 0, 0]" 4] by simp

text \<open>
  \<open>GetTLV\<close> trusts the length field of the TLV it finds. When that field promises more bytes
  than the message holds (and no more than the caller's buffer takes), the copy reads beyond
  the object.
\<close>

theorem GetTLV_overread:
  assumes "length hdr = 4" and "v \<noteq> []" and "unat n = length (hdr @ [ty] @ le16 k @ v)"
    and "length v < unat k" and "k \<le> bufferLen"
  shows "GetTLV (Ptr (hdr @ [ty] @ le16 k @ v)) n ty (Ptr out) bufferLen = None"
proof -
  have "rd16 (hdr @ [ty] @ le16 k @ v) 5 = Some k"
    using rd16_append [of 5 "hdr @ [ty]" k v] assms(1) by simp
  moreover have "\<not> bufferLen < k"
    using assms(5) by (simp add: leD)
  ultimately show ?thesis
    using assms by (simp add: GetTLV_def GetTLV_loop.simps rd8_def nth_append rdn_def)
qed

theorem GetTLV_overread_witness:
  "GetTLV (Ptr ([0x22, 0, 4, 0] @ [1] @ le16 2 @ [3])) 8 1 (Ptr [0, 0]) 2 = None"
  using GetTLV_overread [of "[0x22, 0, 4, 0]" "[3]" 8 1 2 2 "[0, 0]"] by simp

text \<open>
  A failure whose error code is a multiple of 256 counts as success. The result TLV below
  says failure (a nonzero result), yet \<open>ValidQMIMessage\<close> returns 0, since it reads one byte of the
  two-byte error code; the release and sync parsers then report success as well.
\<close>

theorem failure_taken_for_success:
  assumes "tlv_find 2 ts = Some [q0, q1, 0, e1]" and "q0 \<noteq> 0 \<or> q1 \<noteq> 0"
    and "length hdr = 8" and "unat n = length (hdr @ qmi_msg 0x27 ts)"
  shows "ValidQMIMessage (qmi_msg 0x27 ts) (n - 8) = Some 0 \<and>
         QMICTLSyncResp (Ptr (hdr @ qmi_msg 0x27 ts)) n = Some 0"
proof -
  have "result_code ts = 0"
    using assms(1) by (simp add: result_code_def)
  then show ?thesis
    using assms(3,4) by (simp add: QMICTLSyncResp_msg ctl_parse)
qed

theorem failure_taken_for_success_witness:
  "ValidQMIMessage (qmi_msg 0x27 [(2, [1, 0, 0, 1])]) (19 - 8) = Some 0 \<and>
   QMICTLSyncResp (Ptr (replicate 8 0 @ qmi_msg 0x27 [(2, [1, 0, 0, 1])])) 19 = Some 0"
  using failure_taken_for_success [of "[(2, [1, 0, 0, 1])]" 1 0 1 "replicate 8 0" 19] by simp

text \<open>
  The packet service indication. On every well-formed status message the parser reports the
  link as up exactly when the first status byte is 2, asks for reconfiguration exactly when a
  second byte is 1, leaves the statistics alone, and otherwise returns the error of the search
  with nothing changed.
\<close>

theorem packet_service_status:
  assumes "length hdr = 9" and "unat n = length (hdr @ qmi_msg 0x22 ts)"
  shows "QMIWDSEventResp (Ptr (hdr @ qmi_msg 0x22 ts)) n (Some e) =
     (case tlv_find 1 ts of
        None \<Rightarrow> Some (- ENOMSG, Some e)
      | Some [] \<Rightarrow> Some (0, Some e)
      | Some [s] \<Rightarrow> Some (0, Some (e\<lparr>bLinkState := (s = 2)\<rparr>))
      | Some [s, r] \<Rightarrow> Some (0, Some (e\<lparr>bLinkState := (s = 2), bReconfigure := (r = 1)\<rparr>))
      | _ \<Rightarrow> Some (- ENOMEM, Some e))"
  using QMIWDSEventResp_status_msg [OF assms] by simp

theorem packet_service_status_witness:
  "map_option (map_prod id (map_option bLinkState))
     (QMIWDSEventResp (Ptr (replicate 9 0 @ qmi_msg 0x22 [(1, [2, 0])])) 18
       (Some \<lparr>TXOk = 0, RXOk = 0, TXErr = 0, RXErr = 0, TXOfl = 0, RXOfl = 0, TXBytesOk = 0,
              RXBytesOk = 0, bLinkState = False, bReconfigure = False\<rparr>)) = Some (0, Some True)"
  using packet_service_status [of "replicate 9 0" 18 "[(1, [2, 0])]"] by simp

end
