(* ===== verification/Qmi_Clients.thy ===== *)
theory Qmi_Clients
  imports Qmi_Codec
begin

text \<open>
  The client memory of the GobiNet driver, \<^verbatim>\<open>drivers/quectel-gobinet/src/QMIDevice.c\<close>: per-client
  queues of received messages, of waiters and of outstanding URBs, the dispatch of received
  messages to them (\<open>ReadCallback\<close>), and the asynchronous reads built on them.

  Pointers to client entries are addresses; following one that is no longer in the list is
  undefined behaviour (\<^term>\<open>None\<close>). The spin lock is a flag: taking it twice deadlocks and the
  \<open>BUG()\<close> of the lock checks (SMP kernels) are \<^term>\<open>None\<close> as well. Memory allocation
  follows a script (\<open>mallocs\<close>), so every theorem covers every pattern of failures. Debug output
  is left out.
\<close>

section \<open>State\<close>

record sReadMemList =
  rd_mpData :: "u8 list"
  rd_mTransactionID :: u16
  rd_mDataSize :: u16

datatype notify_funct = UpSem | QMIWDSCallback

record sNotifyList =
  nt_mpNotifyFunct :: "notify_funct option"
  nt_mTransactionID :: u16
  nt_mpData :: nat

record sClientMemList =
  cm_addr :: nat
  mClientID :: u16
  mpList :: "sReadMemList list"
  mpReadNotifyList :: "sNotifyList list"
  mpURBList :: "nat list"
  mWaitQueue :: nat

record QuecSem =
  readSem :: nat
  sem_magic :: u32

definition QUEC_SEM_MAGIC :: u32 where "QUEC_SEM_MAGIC = 0x12345678"

text \<open>
  What the rest of the system does while a thread of the driver sleeps, as data: a read URB
  completes (status, buffer, length), the device is unplugged, the driver is told to go away.
\<close>

datatype event = ReadDone int "u8 list" nat | Unplugged | Invalidated

text \<open>
  The fate of one \<open>WriteSync\<close>: the results of waking the interface and of submitting the URB, what
  happens during the wait, the final result of waiting and the status of the URB.
\<close>

record write_env =
  autopm_result :: int
  submit_result :: int
  write_events :: "event list"
  down_result :: int
  urb_status :: int

text \<open>
  The device. Beside the fields of the source: \<open>sems\<close> are the semaphore objects that exist,
  \<open>wire\<close> the buffers handed to the USB stack, \<open>carrier\<close> the net device's carrier flag,
  \<open>udev_state\<close> whether the USB device is attached, \<open>endpoints\<close> the address, attributes of the
  interface's endpoints, \<open>mpReadURB\<close> to \<open>mpIntBuffer\<close> whether these are allocated,
  \<open>int_submits\<close> and \<open>read_submits\<close> how often the interrupt and the read URB have been
  handed to the USB stack. Three scripts describe the environment: \<open>mallocs\<close> the outcomes of the
  next allocations (success once used up), \<open>writes\<close> the fates of the next writes (success once used
  up) and \<open>waits\<close> what happens before and after the interruption of the next sleeps on a read (a
  sleep without an entry never ends). \<open>next_addr\<close> is the next fresh address. \<open>mWaitQueue\<close> of a
  client counts the 10 ms rounds its pollers need to leave once woken, 0 when there are none.
\<close>

record ul_agg_ctx =
  ctx_ul_data_aggregation_max_size :: u32
  ctx_ul_data_aggregation_max_datagrams :: u32
  ctx_dl_minimum_padding :: u32

record sGobiUSBNet =
  refcount :: int
  qmap_mode :: int
  qmap_size :: int
  mQmapVersion :: int
  link_state :: u32
  qmap_settings :: QMAP_SETTING
  agg_ctx :: ul_agg_ctx
  mbRawIPMode :: bool
  m_qcrmcall_mode :: int
  mbMdm9x07 :: bool
  mbQMIReady :: bool
  mbQMISyncIng :: bool
  mDownReason :: u64
  mbQMIValid :: bool
  mbDeregisterQMIDevice :: bool
  mMEID :: "u8 list"
  mbCdevIsInitialized :: bool
  mpReadURB :: bool
  mpReadSetupPacket :: bool
  mpReadBuffer :: bool
  mpIntURB :: bool
  mpIntBuffer :: bool
  mpClientMemList :: "sClientMemList list"
  mClientMemLock :: bool
  mQMICTLTransactionID :: u32
  carrier :: bool
  udev_state :: bool
  endpoints :: "(u8 \<times> u8) list"
  sems :: "nat \<rightharpoonup> QuecSem"
  wire :: "u8 list list"
  int_submits :: nat
  read_submits :: nat
  mallocs :: "bool list"
  writes :: "write_env list"
  waits :: "(event list \<times> event list) list"
  next_addr :: nat

type_synonym dev = sGobiUSBNet

section \<open>Kernel services\<close>

definition spin_lock :: "dev \<Rightarrow> dev option" where
  "spin_lock d = (if mClientMemLock d then None else Some (d\<lparr>mClientMemLock := True\<rparr>))"

definition spin_unlock :: "dev \<Rightarrow> dev option" where
  "spin_unlock d = (if mClientMemLock d then Some (d\<lparr>mClientMemLock := False\<rparr>) else None)"

text \<open>\<open>kmalloc\<close>: a fresh address or null.\<close>

definition kmalloc :: "dev \<Rightarrow> nat option \<times> dev" where
  "kmalloc d =
     (case mallocs d of
        False # ms \<Rightarrow> (None, d\<lparr>mallocs := ms\<rparr>)
      | ms \<Rightarrow> (Some (next_addr d), d\<lparr>mallocs := tl ms, next_addr := Suc (next_addr d)\<rparr>))"

definition verify_lock :: "dev \<Rightarrow> unit option" where
  "verify_lock d = (if mClientMemLock d then Some () else None)"

section \<open>Basic tests\<close>

definition IsDeviceValid :: "dev option \<Rightarrow> bool" where
  "IsDeviceValid pDev =
     (case pDev of None \<Rightarrow> False | Some d \<Rightarrow> if mbQMIValid d = False then False else True)"

definition NO_NDIS_CONNECTION :: nat where "NO_NDIS_CONNECTION = 0"
definition CDC_CONNECTION_SPEED :: nat where "CDC_CONNECTION_SPEED = 1"
definition DRIVER_SUSPENDED :: nat where "DRIVER_SUSPENDED = 2"
definition NET_IFACE_STOPPED :: nat where "NET_IFACE_STOPPED = 3"

definition QuecGobiSetDownReason :: "dev \<Rightarrow> nat \<Rightarrow> dev" where
  "QuecGobiSetDownReason d reason =
     (if reason = NO_NDIS_CONNECTION then d
      else d\<lparr>mDownReason := set_bit reason (mDownReason d), carrier := False\<rparr>)"

definition QuecGobiClearDownReason :: "dev \<Rightarrow> nat \<Rightarrow> dev" where
  "QuecGobiClearDownReason d reason =
     (let d = d\<lparr>mDownReason := unset_bit reason (mDownReason d)\<rparr>
      in if mDownReason d = 0
         then if qmap_mode d \<noteq> 0 \<and> link_state d = 0 then d else d\<lparr>carrier := True\<rparr>
         else d)"

definition QuecGobiTestDownReason :: "dev \<Rightarrow> nat \<Rightarrow> bool" where
  "QuecGobiTestDownReason d reason = bit (mDownReason d) reason"

section \<open>Client entries\<close>

definition deref_client :: "dev \<Rightarrow> nat \<Rightarrow> sClientMemList option" where
  "deref_client d a = find (\<lambda>c. cm_addr c = a) (mpClientMemList d)"

definition upd_client :: "dev \<Rightarrow> nat \<Rightarrow> (sClientMemList \<Rightarrow> sClientMemList) \<Rightarrow> dev" where
  "upd_client d a f =
     d\<lparr>mpClientMemList := map (\<lambda>c. if cm_addr c = a then f c else c) (mpClientMemList d)\<rparr>"

definition FindClientMem :: "dev \<Rightarrow> u16 \<Rightarrow> nat option option" where
  "FindClientMem d clientID =
     (if \<not> IsDeviceValid (Some d) then Some None
      else do {
        verify_lock d;
        Some (map_option cm_addr (find (\<lambda>c. mClientID c = clientID) (mpClientMemList d)))
      })"

definition AddToReadMemList :: "dev \<Rightarrow> u16 \<Rightarrow> u16 \<Rightarrow> u8 list \<Rightarrow> u16 \<Rightarrow> (bool \<times> dev) option" where
  "AddToReadMemList d clientID transactionID pData dataSize =
     do {
       verify_lock d;
       pClientMem \<leftarrow> FindClientMem d clientID;
       case pClientMem of
         None \<Rightarrow> Some (False, d)
       | Some a \<Rightarrow>
           (case kmalloc d of
              (None, d) \<Rightarrow> Some (False, d)
            | (Some _, d) \<Rightarrow>
                Some (True, upd_client d a (\<lambda>c. c\<lparr>mpList := mpList c @
                  [\<lparr>rd_mpData = pData, rd_mTransactionID = transactionID, rd_mDataSize = dataSize\<rparr>]\<rparr>)))
     }"

text \<open>Unlinking the first element of a linked list that satisfies a condition.\<close>

fun unlink_first :: "('a \<Rightarrow> bool) \<Rightarrow> 'a list \<Rightarrow> ('a \<times> 'a list) option" where
  "unlink_first P [] = None"
| "unlink_first P (x # xs) =
     (if P x then Some (x, xs) else map_option (\<lambda>(y, ys). (y, x # ys)) (unlink_first P xs))"

definition PopFromReadMemList :: "dev \<Rightarrow> u16 \<Rightarrow> u16 \<Rightarrow> ((u8 list \<times> u16) option \<times> dev) option" where
  "PopFromReadMemList d clientID transactionID =
     do {
       verify_lock d;
       pClientMem \<leftarrow> FindClientMem d clientID;
       case pClientMem of
         None \<Rightarrow> Some (None, d)
       | Some a \<Rightarrow> do {
           c \<leftarrow> deref_client d a;
           case unlink_first (\<lambda>r. transactionID = 0 \<or> transactionID = rd_mTransactionID r) (mpList c) of
             None \<Rightarrow> Some (None, d)
           | Some (r, rs) \<Rightarrow>
               Some (Some (rd_mpData r, rd_mDataSize r), upd_client d a (\<lambda>c. c\<lparr>mpList := rs\<rparr>))
         }
     }"

definition AddToNotifyList :: "dev \<Rightarrow> u16 \<Rightarrow> u16 \<Rightarrow> notify_funct option \<Rightarrow> nat \<Rightarrow> (bool \<times> dev) option" where
  "AddToNotifyList d clientID transactionID pNotifyFunct pData =
     do {
       verify_lock d;
       pClientMem \<leftarrow> FindClientMem d clientID;
       case pClientMem of
         None \<Rightarrow> Some (False, d)
       | Some a \<Rightarrow>
           (case kmalloc d of
              (None, d) \<Rightarrow> Some (False, d)
            | (Some _, d) \<Rightarrow>
                Some (True, upd_client d a (\<lambda>c. c\<lparr>mpReadNotifyList := mpReadNotifyList c @
                  [\<lparr>nt_mpNotifyFunct = pNotifyFunct, nt_mTransactionID = transactionID,
                    nt_mpData = pData\<rparr>]\<rparr>)))
     }"

definition AddToURBList :: "dev \<Rightarrow> u16 \<Rightarrow> nat \<Rightarrow> (bool \<times> dev) option" where
  "AddToURBList d clientID pURB =
     do {
       verify_lock d;
       pClientMem \<leftarrow> FindClientMem d clientID;
       case pClientMem of
         None \<Rightarrow> Some (False, d)
       | Some a \<Rightarrow>
           (case kmalloc d of
              (None, d) \<Rightarrow> Some (False, d)
            | (Some _, d) \<Rightarrow> Some (True, upd_client d a (\<lambda>c. c\<lparr>mpURBList := mpURBList c @ [pURB]\<rparr>)))
     }"

definition PopFromURBList :: "dev \<Rightarrow> u16 \<Rightarrow> (nat option \<times> dev) option" where
  "PopFromURBList d clientID =
     do {
       verify_lock d;
       pClientMem \<leftarrow> FindClientMem d clientID;
       case pClientMem of
         None \<Rightarrow> Some (None, d)
       | Some a \<Rightarrow> do {
           c \<leftarrow> deref_client d a;
           case mpURBList c of
             [] \<Rightarrow> Some (None, d)
           | u # us \<Rightarrow> Some (Some u, upd_client d a (\<lambda>c. c\<lparr>mpURBList := us\<rparr>))
         }
     }"

section \<open>Notification\<close>

text \<open>\<open>UpSem\<close>: raise the semaphore, or free an abandoned one.\<close>

definition run_UpSem :: "dev \<Rightarrow> nat \<Rightarrow> dev option" where
  "run_UpSem d pSem =
     (case sems d pSem of
        None \<Rightarrow> None
      | Some s \<Rightarrow>
          if sem_magic s = QUEC_SEM_MAGIC
          then Some (d\<lparr>sems := (sems d)(pSem \<mapsto> s\<lparr>readSem := readSem s + 1\<rparr>)\<rparr>)
          else Some (d\<lparr>sems := (sems d)(pSem := None)\<rparr>))"

text \<open>
  \<open>ReadAsync\<close> up to the point where it runs its own callback: the result to return, or that
  data is there and the callback has to run.
\<close>

datatype async_result = AsyncErr int | AsyncRun | AsyncQueued

definition ReadAsync_check ::
  "dev \<Rightarrow> u16 \<Rightarrow> u16 \<Rightarrow> notify_funct option \<Rightarrow> nat \<Rightarrow> (async_result \<times> dev) option" where
  "ReadAsync_check d clientID transactionID pCallback pData =
     (if \<not> IsDeviceValid (Some d) then Some (AsyncErr (- ENXIO), d)
      else do {
        d \<leftarrow> spin_lock d;
        pClientMem \<leftarrow> FindClientMem d clientID;
        case pClientMem of
          None \<Rightarrow> do { d \<leftarrow> spin_unlock d; Some (AsyncErr (- ENXIO), d) }
        | Some a \<Rightarrow> do {
            c \<leftarrow> deref_client d a;
            if \<exists>r \<in> set (mpList c). transactionID = 0 \<or> transactionID = rd_mTransactionID r
            then do { d \<leftarrow> spin_unlock d; Some (AsyncRun, d) }
            else do {
              (ok, d) \<leftarrow> AddToNotifyList d clientID transactionID pCallback pData;
              d \<leftarrow> spin_unlock d;
              Some (AsyncQueued, d)
            }
          }
      })"

text \<open>
  What \<open>QMIWDSCallback\<close> does with a popped message: update the link state. The statistics
  counters start at all ones and are not used.
\<close>

definition QMIWDSCallback_update :: "dev \<Rightarrow> u8 list \<Rightarrow> u16 \<Rightarrow> dev option" where
  "QMIWDSCallback_update d pReadBuffer readBufferSize =
     do {
       (result, ev) \<leftarrow> QMIWDSEventResp (Ptr pReadBuffer) readBufferSize
         (Some \<lparr>TXOk = - 1, RXOk = - 1, TXErr = - 1, RXErr = - 1, TXOfl = - 1, RXOfl = - 1,
                TXBytesOk = - 1, RXBytesOk = - 1,
                bLinkState = \<not> QuecGobiTestDownReason d NO_NDIS_CONNECTION, bReconfigure = False\<rparr>);
       e \<leftarrow> ev;
       if result < 0 then Some d
       else if bReconfigure e
       then Some (QuecGobiClearDownReason (QuecGobiSetDownReason d NO_NDIS_CONNECTION) NO_NDIS_CONNECTION)
       else if bLinkState e
       then Some (if QuecGobiTestDownReason d NO_NDIS_CONNECTION
                  then QuecGobiClearDownReason d NO_NDIS_CONNECTION else d)
       else Some (if \<not> QuecGobiTestDownReason d NO_NDIS_CONNECTION
                  then QuecGobiSetDownReason d NO_NDIS_CONNECTION else d)
     }"

text \<open>
  \<open>QMIWDSCallback\<close> re-arms itself with \<open>ReadAsync\<close>, which runs it at once while messages are
  queued: together they are a loop.
\<close>

partial_function (option) run_QMIWDSCallback :: "dev \<Rightarrow> u16 \<Rightarrow> nat \<Rightarrow> dev option" where
  "run_QMIWDSCallback d clientID pData =
     (if \<not> IsDeviceValid (Some d) then Some d
      else do {
        d \<leftarrow> spin_lock d;
        (popped, d) \<leftarrow> PopFromReadMemList d clientID 0;
        d \<leftarrow> spin_unlock d;
        case popped of
          None \<Rightarrow> Some d
        | Some (pReadBuffer, readBufferSize) \<Rightarrow> do {
            d \<leftarrow> QMIWDSCallback_update d pReadBuffer readBufferSize;
            (r, d) \<leftarrow> ReadAsync_check d clientID 0 (Some QMIWDSCallback) pData;
            case r of
              AsyncRun \<Rightarrow> run_QMIWDSCallback d clientID pData
            | _ \<Rightarrow> Some d
          }
      })"

definition run_notify :: "notify_funct \<Rightarrow> dev \<Rightarrow> u16 \<Rightarrow> nat \<Rightarrow> dev option" where
  "run_notify f d clientID pData =
     (case f of UpSem \<Rightarrow> run_UpSem d pData
              | QMIWDSCallback \<Rightarrow> run_QMIWDSCallback d clientID pData)"

definition ReadAsync :: "dev \<Rightarrow> u16 \<Rightarrow> u16 \<Rightarrow> notify_funct \<Rightarrow> nat \<Rightarrow> (int \<times> dev) option" where
  "ReadAsync d clientID transactionID pCallback pData =
     do {
       (r, d) \<leftarrow> ReadAsync_check d clientID transactionID (Some pCallback) pData;
       case r of
         AsyncErr e \<Rightarrow> Some (e, d)
       | AsyncRun \<Rightarrow> do { d \<leftarrow> run_notify pCallback d clientID pData; Some (0, d) }
       | AsyncQueued \<Rightarrow> Some (0, d)
     }"

definition NotifyAndPopNotifyList :: "dev \<Rightarrow> u16 \<Rightarrow> u16 \<Rightarrow> (bool \<times> dev) option" where
  "NotifyAndPopNotifyList d clientID transactionID =
     do {
       verify_lock d;
       pClientMem \<leftarrow> FindClientMem d clientID;
       case pClientMem of
         None \<Rightarrow> Some (False, d)
       | Some a \<Rightarrow> do {
           c \<leftarrow> deref_client d a;
           case unlink_first (\<lambda>n. transactionID = 0 \<or> nt_mTransactionID n = 0
                                 \<or> transactionID = nt_mTransactionID n) (mpReadNotifyList c) of
             None \<Rightarrow> Some (False, d)
           | Some (n, ns) \<Rightarrow> do {
               let d = upd_client d a (\<lambda>c. c\<lparr>mpReadNotifyList := ns\<rparr>);
               d \<leftarrow> (case nt_mpNotifyFunct n of
                       None \<Rightarrow> Some d
                     | Some f \<Rightarrow> do {
                         d \<leftarrow> spin_unlock d;
                         d \<leftarrow> run_notify f d clientID (nt_mpData n);
                         spin_lock d
                       });
               Some (True, d)
             }
         }
     }"

section \<open>The interrupt-driven read\<close>

definition ResubmitIntURB :: "dev \<Rightarrow> dev" where
  "ResubmitIntURB d = (if \<not> mpIntURB d then d else d\<lparr>int_submits := int_submits d + 1\<rparr>)"

text \<open>
  The walk of \<open>ReadCallback\<close> along the client list (the addresses still to visit); it stops early
  when memory runs out, and after the first match of a message that is not a broadcast.
\<close>

fun ReadCallback_walk :: "nat list \<Rightarrow> dev \<Rightarrow> u16 \<Rightarrow> u16 \<Rightarrow> u8 list \<Rightarrow> u16 \<Rightarrow> dev option" where
  "ReadCallback_walk [] d clientID transactionID pData dataSize = Some d"
| "ReadCallback_walk (a # as) d clientID transactionID pData dataSize =
     do {
       c \<leftarrow> deref_client d a;
       if mClientID c = clientID \<or> mClientID c OR 0xff00 = clientID
       then (case kmalloc d of
               (None, d) \<Rightarrow> Some d
             | (Some _, d) \<Rightarrow> do {
                 pDataCopy \<leftarrow> rdn pData 0 (unat dataSize);
                 (ok, d) \<leftarrow> AddToReadMemList d (mClientID c) transactionID pDataCopy dataSize;
                 if \<not> ok then Some d
                 else do {
                   (_, d) \<leftarrow> NotifyAndPopNotifyList d (mClientID c) transactionID;
                   if drop_bit 8 clientID \<noteq> 0xff then Some d
                   else ReadCallback_walk as d clientID transactionID pData dataSize
                 }
               })
       else ReadCallback_walk as d clientID transactionID pData dataSize
     }"

text \<open>
  \<open>ReadCallback\<close> for a URB with completion status, transfer buffer and actual length. The
  optional packet merging and the URB error workaround are compiled out.
\<close>

definition ReadCallback :: "dev \<Rightarrow> int \<Rightarrow> u8 list \<Rightarrow> nat \<Rightarrow> dev option" where
  "ReadCallback d status pData actual_length =
     (if \<not> IsDeviceValid (Some d) then Some d
      else if status \<noteq> 0 then Some (ResubmitIntURB d)
      else let dataSize = of_nat actual_length :: u16 in do {
        (result, clientID) \<leftarrow> ParseQMUX 0 (Ptr pData) dataSize;
        if result < 0 then Some (ResubmitIntURB d)
        else if int (unat dataSize) < result + 3 then Some (ResubmitIntURB d)
        else do {
          transactionID \<leftarrow> (if clientID = 0
                             then map_option ucast (rd8 pData (nat result + 1))
                             else rd16 pData (nat result + 1));
          d \<leftarrow> spin_lock d;
          d \<leftarrow> ReadCallback_walk (map cm_addr (mpClientMemList d)) d clientID transactionID pData dataSize;
          d \<leftarrow> spin_unlock d;
          Some (ResubmitIntURB d)
        }
      })"

definition USB_CDC_NOTIFY_RESPONSE_AVAILABLE :: u8 where "USB_CDC_NOTIFY_RESPONSE_AVAILABLE = 0x01"
definition USB_CDC_NOTIFY_SPEED_CHANGE :: u8 where "USB_CDC_NOTIFY_SPEED_CHANGE = 0x2a"

text \<open>
  \<open>IntCallback\<close>: the completion status, the interrupt buffer (a \<open>usb_cdc_notification\<close>: the
  notification type is its second byte) and the result of submitting the read URB.
\<close>

definition IntCallback :: "dev \<Rightarrow> int \<Rightarrow> u8 list \<Rightarrow> int \<Rightarrow> dev option" where
  "IntCallback d status transfer_buffer submit =
     (if \<not> IsDeviceValid (Some d) then Some d
      else if status \<noteq> 0
      then if status \<noteq> - EOVERFLOW then Some d else Some d
      else do {
        bNotificationType \<leftarrow> rd8 transfer_buffer 1;
        if bNotificationType = USB_CDC_NOTIFY_RESPONSE_AVAILABLE
        then if submit \<noteq> 0 then Some (ResubmitIntURB d)
             else Some (d\<lparr>read_submits := read_submits d + 1\<rparr>)
        else if bNotificationType = USB_CDC_NOTIFY_SPEED_CHANGE
        then do {
          up \<leftarrow> rd32 transfer_buffer 8;
          down \<leftarrow> rd32 transfer_buffer 12;
          Some (ResubmitIntURB
            (if up = 0 \<or> down = 0 then QuecGobiSetDownReason d CDC_CONNECTION_SPEED
             else QuecGobiClearDownReason d CDC_CONNECTION_SPEED))
        }
        else Some (ResubmitIntURB d)
      })"

section \<open>Well-formed devices\<close>

definition client_of :: "dev \<Rightarrow> u16 \<Rightarrow> sClientMemList option" where
  "client_of d cid = find (\<lambda>c. mClientID c = cid) (mpClientMemList d)"

definition dev_ok :: "dev \<Rightarrow> bool" where
  "dev_ok d \<longleftrightarrow> distinct (map cm_addr (mpClientMemList d)) \<and> distinct (map mClientID (mpClientMemList d))
     \<and> (\<forall>c \<in> set (mpClientMemList d). cm_addr c < next_addr d)"

definition keeps_identity :: "(sClientMemList \<Rightarrow> sClientMemList) \<Rightarrow> bool" where
  "keeps_identity f \<longleftrightarrow>
     (\<forall>c. cm_addr (f c) = cm_addr c \<and> mClientID (f c) = mClientID c \<and> mWaitQueue (f c) = mWaitQueue c)"

lemma find_unique:
  assumes "distinct (map g xs)" and "x \<in> set xs"
  shows "find (\<lambda>y. g y = g x) xs = Some x"
  using assms by (induction xs) (auto simp: image_iff)

lemma find_in_set: "find P xs = Some x \<Longrightarrow> x \<in> set xs \<and> P x"
  by (auto simp: find_Some_iff)

lemma client_of_SomeD: "client_of d cid = Some c \<Longrightarrow> c \<in> set (mpClientMemList d) \<and> mClientID c = cid"
  unfolding client_of_def by (rule find_in_set)

lemma client_of_member: "dev_ok d \<Longrightarrow> c \<in> set (mpClientMemList d) \<Longrightarrow> client_of d (mClientID c) = Some c"
  unfolding client_of_def dev_ok_def by (rule find_unique) simp_all

lemma deref_client_member: "dev_ok d \<Longrightarrow> c \<in> set (mpClientMemList d) \<Longrightarrow> deref_client d (cm_addr c) = Some c"
  unfolding deref_client_def dev_ok_def by (rule find_unique) simp_all

lemma deref_client_of: "dev_ok d \<Longrightarrow> client_of d cid = Some c \<Longrightarrow> deref_client d (cm_addr c) = Some c"
  by (simp add: client_of_SomeD deref_client_member)

lemma FindClientMem_eq:
  "IsDeviceValid (Some d) \<Longrightarrow> mClientMemLock d \<Longrightarrow> FindClientMem d cid = Some (map_option cm_addr (client_of d cid))"
  by (simp add: FindClientMem_def verify_lock_def client_of_def)

lemma find_map_upd:
  assumes "distinct (map g xs)" and "distinct (map h xs)" and "find (\<lambda>x. g x = k) xs = Some y"
    and "\<And>x. g (f x) = g x"
  shows "find (\<lambda>x. g x = k') (map (\<lambda>x. if h x = h y then f x else x) xs) =
           (if k' = k then Some (f y) else find (\<lambda>x. g x = k') xs)"
  using assms(1-3)
proof (induction xs)
  case (Cons x xs)
  show ?case
  proof (cases "g x = k")
    case True
    with Cons.prems have "y = x" by simp
    then have "map (\<lambda>z. if h z = h y then f z else z) xs = xs"
      using Cons.prems(2) by (intro map_idI) (auto simp: image_iff)
    with True \<open>y = x\<close> assms(4) show ?thesis by auto
  next
    case False
    with Cons.prems have "y \<in> set xs" and "find (\<lambda>x. g x = k) xs = Some y"
      by (auto dest: find_in_set)
    moreover from this Cons.prems(2) have "h x \<noteq> h y" by (auto simp: image_iff)
    ultimately show ?thesis using Cons False assms(4) by auto
  qed
qed simp

lemma client_of_upd_client:
  assumes "dev_ok d" and "client_of d cid = Some c" and "keeps_identity f"
  shows "client_of (upd_client d (cm_addr c) f) cid' = (if cid' = cid then Some (f c) else client_of d cid')"
  using assms find_map_upd [of mClientID "mpClientMemList d" cm_addr cid c f cid']
  by (simp add: client_of_def upd_client_def dev_ok_def keeps_identity_def)

section \<open>What an operation leaves alone\<close>

definition dev_frame :: "dev \<Rightarrow> dev \<Rightarrow> bool" where
  "dev_frame d d' \<longleftrightarrow>
     map cm_addr (mpClientMemList d') = map cm_addr (mpClientMemList d) \<and>
     map mClientID (mpClientMemList d') = map mClientID (mpClientMemList d) \<and>
     mbQMIValid d' = mbQMIValid d \<and> mbDeregisterQMIDevice d' = mbDeregisterQMIDevice d \<and>
     mClientMemLock d' = mClientMemLock d \<and> mpIntURB d' = mpIntURB d \<and>
     int_submits d' = int_submits d \<and> read_submits d' = read_submits d \<and> wire d' = wire d \<and>
     udev_state d' = udev_state d \<and> qmap_mode d' = qmap_mode d \<and> link_state d' = link_state d \<and>
     mQMICTLTransactionID d' = mQMICTLTransactionID d \<and> writes d' = writes d \<and> waits d' = waits d \<and>
     map mWaitQueue (mpClientMemList d') = map mWaitQueue (mpClientMemList d) \<and> next_addr d \<le> next_addr d'"

lemma dev_frame_refl [simp]: "dev_frame d d"
  by (simp add: dev_frame_def)

lemma dev_frame_trans: "dev_frame d d' \<Longrightarrow> dev_frame d' d'' \<Longrightarrow> dev_frame d d''"
  by (auto simp: dev_frame_def)

lemma dev_ok_maps:
  "dev_ok d \<longleftrightarrow> distinct (map cm_addr (mpClientMemList d)) \<and> distinct (map mClientID (mpClientMemList d))
     \<and> list_all (\<lambda>a. a < next_addr d) (map cm_addr (mpClientMemList d))"
  by (simp add: dev_ok_def list_all_iff)

lemma dev_frame_ok:
  assumes "dev_frame d d'" and "dev_ok d"
  shows "dev_ok d'"
proof -
  have "list_all (\<lambda>a. a < next_addr d) (map cm_addr (mpClientMemList d'))" and "next_addr d \<le> next_addr d'"
    using assms unfolding dev_ok_maps dev_frame_def by metis+
  then have "list_all (\<lambda>a. a < next_addr d') (map cm_addr (mpClientMemList d'))"
    by (auto elim: list.pred_mono_strong)
  with assms show ?thesis unfolding dev_ok_maps dev_frame_def by metis
qed

lemma dev_frame_upd_client: "keeps_identity f \<Longrightarrow> dev_frame d (upd_client d a f)"
  by (auto simp: dev_frame_def upd_client_def keeps_identity_def)

lemma dev_frame_kmalloc: "kmalloc d = (r, d') \<Longrightarrow> dev_frame d d'"
  by (auto simp: kmalloc_def dev_frame_def split: list.splits bool.splits)


text \<open>The queue operations moreover leave semaphores and link state alone.\<close>

definition queue_frame :: "dev \<Rightarrow> dev \<Rightarrow> bool" where
  "queue_frame d d' \<longleftrightarrow> dev_frame d d' \<and> sems d' = sems d \<and> mDownReason d' = mDownReason d \<and> carrier d' = carrier d"

lemma queue_frame_refl [simp]: "queue_frame d d"
  by (simp add: queue_frame_def)

lemma queue_frame_trans: "queue_frame d d' \<Longrightarrow> queue_frame d' d'' \<Longrightarrow> queue_frame d d''"
  by (auto simp: queue_frame_def intro: dev_frame_trans)

lemma queue_frame_upd_client: "keeps_identity f \<Longrightarrow> queue_frame d (upd_client d a f)"
  by (simp add: queue_frame_def dev_frame_upd_client) (simp add: upd_client_def)

lemma mallocs_upd_client [simp]: "mallocs (upd_client d a f) = mallocs d"
  by (simp add: upd_client_def)

definition malloc_ok :: "dev \<Rightarrow> bool" where
  "malloc_ok d \<longleftrightarrow> mallocs d = [] \<or> hd (mallocs d)"

lemma kmalloc_cases:
  obtains (fails) d' where "kmalloc d = (None, d')" and "\<not> malloc_ok d"
    | (works) d' where "kmalloc d = (Some (next_addr d), d')" and "malloc_ok d"
  by (cases "mallocs d") (auto simp: kmalloc_def malloc_ok_def split: bool.splits)

lemma kmalloc_frame:
  assumes "kmalloc d = (r, d')"
  shows "queue_frame d d'" and "mallocs d' = tl (mallocs d)" and "client_of d' = client_of d"
    and "mpClientMemList d' = mpClientMemList d"
  using assms
  by (auto simp: kmalloc_def queue_frame_def dev_frame_def client_of_def fun_eq_iff split: list.splits bool.splits)

text \<open>\<open>ready d\<close>: a valid device with its lock held and a proper client list.\<close>

definition ready :: "dev \<Rightarrow> bool" where
  "ready d \<longleftrightarrow> IsDeviceValid (Some d) \<and> dev_ok d \<and> mClientMemLock d"

lemma ready_frame: "dev_frame d d' \<Longrightarrow> ready d \<Longrightarrow> ready d'"
  using dev_frame_ok [of d d'] by (simp add: ready_def IsDeviceValid_def dev_frame_def split: if_splits)

lemma ready_queue_frame: "queue_frame d d' \<Longrightarrow> ready d \<Longrightarrow> ready d'"
  using ready_frame [of d d'] by (simp add: queue_frame_def)

lemma ready_FindClientMem: "ready d \<Longrightarrow> FindClientMem d cid = Some (map_option cm_addr (client_of d cid))"
  by (simp add: ready_def FindClientMem_eq)

lemma ready_verify_lock: "ready d \<Longrightarrow> verify_lock d = Some ()"
  by (simp add: ready_def verify_lock_def)

lemma ready_deref: "ready d \<Longrightarrow> client_of d cid = Some c \<Longrightarrow> deref_client d (cm_addr c) = Some c"
  by (simp add: ready_def deref_client_of)

lemma ready_upd:
  "ready d \<Longrightarrow> client_of d cid = Some c \<Longrightarrow> keeps_identity f \<Longrightarrow>
   client_of (upd_client d (cm_addr c) f) cid' = (if cid' = cid then Some (f c) else client_of d cid')"
  by (simp add: ready_def client_of_upd_client)

lemmas ready_simps = ready_FindClientMem ready_verify_lock ready_deref

text \<open>The three operations that add an entry to a client are one operation up to the field they extend.\<close>

definition add_entry :: "dev \<Rightarrow> u16 \<Rightarrow> (sClientMemList \<Rightarrow> sClientMemList) \<Rightarrow> (bool \<times> dev) option" where
  "add_entry d clientID f =
     do {
       verify_lock d;
       pClientMem \<leftarrow> FindClientMem d clientID;
       case pClientMem of
         None \<Rightarrow> Some (False, d)
       | Some a \<Rightarrow>
           (case kmalloc d of
              (None, d) \<Rightarrow> Some (False, d)
            | (Some _, d) \<Rightarrow> Some (True, upd_client d a f))
     }"

lemma add_entry_instances:
  "AddToReadMemList d clientID transactionID pData dataSize = add_entry d clientID
     (\<lambda>c. c\<lparr>mpList := mpList c @ [\<lparr>rd_mpData = pData, rd_mTransactionID = transactionID, rd_mDataSize = dataSize\<rparr>]\<rparr>)"
  "AddToNotifyList d clientID transactionID pNotifyFunct p = add_entry d clientID
     (\<lambda>c. c\<lparr>mpReadNotifyList := mpReadNotifyList c @
        [\<lparr>nt_mpNotifyFunct = pNotifyFunct, nt_mTransactionID = transactionID, nt_mpData = p\<rparr>]\<rparr>)"
  "AddToURBList d clientID pURB = add_entry d clientID (\<lambda>c. c\<lparr>mpURBList := mpURBList c @ [pURB]\<rparr>)"
  unfolding AddToReadMemList_def AddToNotifyList_def AddToURBList_def add_entry_def by (rule refl)+

lemma add_entry_absent: "ready d \<Longrightarrow> client_of d cid = None \<Longrightarrow> add_entry d cid f = Some (False, d)"
  by (simp add: add_entry_def ready_simps)

lemma add_entry_present:
  assumes "ready d" and "client_of d cid = Some c" and "keeps_identity f"
  shows "\<exists>d'. add_entry d cid f = Some (malloc_ok d, d') \<and> queue_frame d d' \<and> mallocs d' = tl (mallocs d) \<and>
           client_of d' = (if malloc_ok d then (client_of d)(cid \<mapsto> f c) else client_of d)"
proof (cases rule: kmalloc_cases [of d])
  case (fails d')
  with assms show ?thesis by (simp add: add_entry_def ready_simps kmalloc_frame [OF fails(1)])
next
  case (works d')
  note fr = kmalloc_frame [OF works(1)]
  have r: "ready d'" using ready_queue_frame [OF fr(1) assms(1)] .
  have "client_of (upd_client d' (cm_addr c) f) = (client_of d)(cid \<mapsto> f c)"
    using ready_upd [OF r _ assms(3), of cid c] assms(2) fr(3) by (auto simp: fun_eq_iff)
  with works assms show ?thesis
    by (simp add: add_entry_def ready_simps fr queue_frame_trans [OF fr(1) queue_frame_upd_client])
qed

section \<open>Per-client queues as an interface\<close>

text \<open>Adding and removing many elements through a given operation.\<close>

fun add_all :: "(dev \<Rightarrow> u16 \<Rightarrow> 'a \<Rightarrow> (bool \<times> dev) option) \<Rightarrow> dev \<Rightarrow> u16 \<Rightarrow> 'a list \<Rightarrow> dev option" where
  "add_all add d cid [] = Some d"
| "add_all add d cid (x # xs) = do { (ok, d) \<leftarrow> add d cid x; if ok then add_all add d cid xs else None }"

fun drain :: "(dev \<Rightarrow> u16 \<Rightarrow> ('b option \<times> dev) option) \<Rightarrow> nat \<Rightarrow> dev \<Rightarrow> u16 \<Rightarrow> ('b list \<times> dev) option" where
  "drain pop 0 d cid = Some ([], d)"
| "drain pop (Suc k) d cid = do {
     (r, d) \<leftarrow> pop d cid;
     case r of None \<Rightarrow> Some ([], d)
     | Some x \<Rightarrow> do { (xs, d) \<leftarrow> drain pop k d cid; Some (x # xs, d) }
   }"

text \<open>
  What the driver relies on in each of a client's queues: adding appends for the named client
  only, and fails, changing nothing, without the client or without memory.
\<close>

locale client_queue =
  fixes content :: "sClientMemList \<Rightarrow> 'a list"
    and add :: "dev \<Rightarrow> u16 \<Rightarrow> 'a \<Rightarrow> (bool \<times> dev) option"
    and put :: "'a \<Rightarrow> sClientMemList \<Rightarrow> sClientMemList"
  assumes content_put: "content (put x c) = content c @ [x]"
    and put_identity: "keeps_identity (put x)"
    and add_is_entry: "add d cid x = add_entry d cid (put x)"
begin

lemma add_absent: "ready d \<Longrightarrow> client_of d cid = None \<Longrightarrow> add d cid x = Some (False, d)"
  by (simp add: add_is_entry add_entry_absent)

lemma add_present:
  assumes "ready d" and "client_of d cid = Some c"
  shows "\<exists>d'. add d cid x = Some (malloc_ok d, d') \<and> queue_frame d d' \<and> mallocs d' = tl (mallocs d) \<and>
           client_of d' = (if malloc_ok d then (client_of d)(cid \<mapsto> put x c) else client_of d)"
  using add_entry_present [OF assms put_identity] by (simp add: add_is_entry)

lemma add_all_appends:
  assumes "ready d" and "client_of d cid = Some c" and "mallocs d = []"
  shows "\<exists>d'. add_all add d cid xs = Some d' \<and> queue_frame d d' \<and> mallocs d' = [] \<and>
           client_of d' = (client_of d)(cid \<mapsto> fold put xs c)"
  using assms
proof (induction xs arbitrary: d c)
  case Nil
  then show ?case by (simp add: map_upd_triv)
next
  case (Cons x xs)
  obtain d1 where d1: "add d cid x = Some (True, d1)" "queue_frame d d1" "mallocs d1 = []"
    "client_of d1 = (client_of d)(cid \<mapsto> put x c)"
    using add_present [OF Cons.prems(1,2), of x] Cons.prems(3) by (auto simp: malloc_ok_def)
  have "ready d1" using ready_queue_frame [OF d1(2) Cons.prems(1)] .
  moreover have "client_of d1 cid = Some (put x c)" by (simp add: d1(4))
  ultimately obtain d' where d': "add_all add d1 cid xs = Some d'" "queue_frame d1 d'" "mallocs d' = []"
    "client_of d' = (client_of d)(cid \<mapsto> fold put xs (put x c))"
    using Cons.IH [OF _ _ d1(3)] unfolding d1(4) fun_upd_upd by blast
  moreover have "queue_frame d d'" using d1(2) d'(2) by (rule queue_frame_trans)
  ultimately show ?case using d1 by (intro exI [of _ d']) simp
qed

lemma content_fold_put: "content (fold put xs c) = content c @ xs"
  by (induction xs arbitrary: c) (simp_all add: content_put)

end

text \<open>A queue that can also be emptied from the front, one element at a time.\<close>

locale client_fifo = client_queue content add put
  for content :: "sClientMemList \<Rightarrow> 'a list" and add put +
  fixes pop :: "dev \<Rightarrow> u16 \<Rightarrow> ('b option \<times> dev) option" and view :: "'a \<Rightarrow> 'b"
    and setc :: "'a list \<Rightarrow> sClientMemList \<Rightarrow> sClientMemList"
  assumes pop_empty: "ready d \<Longrightarrow> client_of d cid = Some c \<Longrightarrow> content c = [] \<Longrightarrow> pop d cid = Some (None, d)"
    and pop_absent: "ready d \<Longrightarrow> client_of d cid = None \<Longrightarrow> pop d cid = Some (None, d)"
    and pop_front: "ready d \<Longrightarrow> client_of d cid = Some c \<Longrightarrow> content c = x # xs \<Longrightarrow>
          pop d cid = Some (Some (view x), upd_client d (cm_addr c) (setc xs))"
    and setc: "keeps_identity (setc xs)" "content (setc xs c) = xs"
begin

lemma drain_all:
  assumes "ready d" and "client_of d cid = Some c" and "length (content c) \<le> k"
  shows "\<exists>d' c'. drain pop k d cid = Some (map view (content c), d') \<and> queue_frame d d' \<and>
           client_of d' = (client_of d)(cid \<mapsto> c') \<and> content c' = []"
  using assms
proof (induction k arbitrary: d c)
  case 0
  then show ?case by (intro exI [of _ d] exI [of _ c]) (simp add: map_upd_triv)
next
  case (Suc k)
  show ?case
  proof (cases "content c")
    case Nil
    with Suc.prems pop_empty show ?thesis by (intro exI [of _ d] exI [of _ c]) (simp add: map_upd_triv)
  next
    case (Cons x xs)
    let ?d = "upd_client d (cm_addr c) (setc xs)"
    have fr: "queue_frame d ?d" by (simp add: queue_frame_upd_client setc)
    have c1: "client_of ?d = (client_of d)(cid \<mapsto> setc xs c)"
      using ready_upd [OF Suc.prems(1,2) setc(1)] by (auto simp: fun_eq_iff)
    have "ready ?d" using ready_queue_frame [OF fr Suc.prems(1)] .
    moreover have "client_of ?d cid = Some (setc xs c)" by (simp add: c1)
    moreover have "length (content (setc xs c)) \<le> k" using Suc.prems(3) Cons by (simp add: setc)
    ultimately obtain d' c' where d': "drain pop k ?d cid = Some (map view xs, d')" "queue_frame ?d d'"
      "client_of d' = (client_of d)(cid \<mapsto> c')" "content c' = []"
      using Suc.IH [of ?d "setc xs c"] unfolding c1 fun_upd_upd setc(2) by blast
    then show ?thesis
      using pop_front [OF Suc.prems(1,2) Cons] Cons queue_frame_trans [OF fr d'(2)]
      by (intro exI [of _ d'] exI [of _ c']) simp
  qed
qed

text \<open>First in, first out: what is added after the present content comes out after it, in order.\<close>

lemma fifo:
  assumes "ready d" and "client_of d cid = Some c" and "mallocs d = []"
  shows "\<exists>d1 d2. add_all add d cid xs = Some d1 \<and>
           drain pop (length (content c) + length xs) d1 cid = Some (map view (content c @ xs), d2) \<and>
           (\<forall>cid'. cid' \<noteq> cid \<longrightarrow> client_of d2 cid' = client_of d cid')"
proof -
  obtain d1 where d1: "add_all add d cid xs = Some d1" "queue_frame d d1"
    "client_of d1 = (client_of d)(cid \<mapsto> fold put xs c)" using add_all_appends [OF assms] by blast
  have "ready d1" using ready_queue_frame [OF d1(2) assms(1)] .
  moreover have "client_of d1 cid = Some (fold put xs c)" by (simp add: d1(3))
  ultimately obtain d2 c' where "drain pop (length (content c) + length xs) d1 cid = Some (map view (content c @ xs), d2)"
    and "client_of d2 = (client_of d)(cid \<mapsto> c')"
    using drain_all [of d1 cid "fold put xs c"] unfolding d1(3) fun_upd_upd content_fold_put by force
  with d1(1) show ?thesis by (intro exI [of _ d1] exI [of _ d2]) simp
qed

end

lemma entry_eta [simp]:
  fixes r :: sReadMemList and n :: sNotifyList
  shows "\<lparr>rd_mpData = rd_mpData r, rd_mTransactionID = rd_mTransactionID r, rd_mDataSize = rd_mDataSize r\<rparr> = r"
    and "\<lparr>nt_mpNotifyFunct = nt_mpNotifyFunct n, nt_mTransactionID = nt_mTransactionID n, nt_mpData = nt_mpData n\<rparr> = n"
  by simp_all

interpretation read_q: client_fifo mpList
  "\<lambda>d cid r. AddToReadMemList d cid (rd_mTransactionID r) (rd_mpData r) (rd_mDataSize r)"
  "\<lambda>r c. c\<lparr>mpList := mpList c @ [r]\<rparr>" "\<lambda>d cid. PopFromReadMemList d cid 0"
  "\<lambda>r. (rd_mpData r, rd_mDataSize r)" "\<lambda>rs c. c\<lparr>mpList := rs\<rparr>"
  by unfold_locales (simp_all add: add_entry_instances keeps_identity_def PopFromReadMemList_def ready_simps)

interpretation urb_q: client_fifo mpURBList AddToURBList
  "\<lambda>u c. c\<lparr>mpURBList := mpURBList c @ [u]\<rparr>" PopFromURBList id "\<lambda>us c. c\<lparr>mpURBList := us\<rparr>"
  by unfold_locales (simp_all add: add_entry_instances keeps_identity_def PopFromURBList_def ready_simps)

interpretation notify_q: client_queue mpReadNotifyList
  "\<lambda>d cid n. AddToNotifyList d cid (nt_mTransactionID n) (nt_mpNotifyFunct n) (nt_mpData n)"
  "\<lambda>n c. c\<lparr>mpReadNotifyList := mpReadNotifyList c @ [n]\<rparr>"
  by unfold_locales (simp_all add: add_entry_instances keeps_identity_def)

section \<open>Critical sections\<close>

text \<open>\<open>idle d\<close>: a valid device with a proper client list and its lock free.\<close>

definition idle :: "dev \<Rightarrow> bool" where
  "idle d \<longleftrightarrow> IsDeviceValid (Some d) \<and> dev_ok d \<and> \<not> mClientMemLock d"

lemma idle_frame: "dev_frame d d' \<Longrightarrow> idle d \<Longrightarrow> idle d'"
  using dev_frame_ok [of d d'] by (simp add: idle_def IsDeviceValid_def dev_frame_def split: if_splits)

lemma idle_lock:
  assumes "idle d"
  shows "spin_lock d = Some (d\<lparr>mClientMemLock := True\<rparr>)" and "ready (d\<lparr>mClientMemLock := True\<rparr>)"
    and "IsDeviceValid (Some d)"
  using assms by (simp_all add: idle_def ready_def spin_lock_def dev_ok_def IsDeviceValid_def split: if_splits)

lemma ready_unlock: 
  assumes "ready d"
  shows "spin_unlock d = Some (d\<lparr>mClientMemLock := False\<rparr>)" and "idle (d\<lparr>mClientMemLock := False\<rparr>)"
  using assms by (simp_all add: idle_def ready_def spin_unlock_def dev_ok_def IsDeviceValid_def split: if_splits)

lemma lock_fields [simp]:
  "client_of (d\<lparr>mClientMemLock := b\<rparr>) = client_of d" "malloc_ok (d\<lparr>mClientMemLock := b\<rparr>) = malloc_ok d"
  by (simp_all add: client_of_def malloc_ok_def fun_eq_iff)

lemma section_frame:
  assumes "queue_frame (d\<lparr>mClientMemLock := True\<rparr>) d'" and "idle d"
  shows "queue_frame d (d'\<lparr>mClientMemLock := False\<rparr>)" and "spin_unlock d' = Some (d'\<lparr>mClientMemLock := False\<rparr>)"
  using assms by (simp_all add: queue_frame_def dev_frame_def spin_unlock_def idle_def)

lemma PopFromReadMemList_eq:
  "ready d \<Longrightarrow> PopFromReadMemList d cid t =
     Some (case client_of d cid of None \<Rightarrow> (None, d)
           | Some c \<Rightarrow> (case unlink_first (\<lambda>r. t = 0 \<or> t = rd_mTransactionID r) (mpList c) of
                None \<Rightarrow> (None, d)
              | Some (r, rs) \<Rightarrow> (Some (rd_mpData r, rd_mDataSize r),
                  upd_client d (cm_addr c) (\<lambda>c. c\<lparr>mpList := rs\<rparr>))))"
  by (cases "client_of d cid") (simp_all add: PopFromReadMemList_def ready_simps split: option.splits)

text \<open>Popping in a critical section of its own.\<close>

lemma pop_section:
  assumes "idle d"
  shows "\<exists>r d'. do { d \<leftarrow> spin_lock d; (r, d) \<leftarrow> PopFromReadMemList d cid t; d \<leftarrow> spin_unlock d; Some (r, d) } = Some (r, d')
    \<and> queue_frame d d' \<and> mallocs d' = mallocs d \<and>
    (case client_of d cid of None \<Rightarrow> r = None \<and> client_of d' = client_of d
     | Some c \<Rightarrow> (case unlink_first (\<lambda>r. t = 0 \<or> t = rd_mTransactionID r) (mpList c) of
          None \<Rightarrow> r = None \<and> client_of d' = client_of d
        | Some (m, ms) \<Rightarrow> r = Some (rd_mpData m, rd_mDataSize m)
            \<and> client_of d' = (client_of d)(cid \<mapsto> c\<lparr>mpList := ms\<rparr>)))"
proof -
  let ?d = "d\<lparr>mClientMemLock := True\<rparr>"
  note l = idle_lock [OF assms]
  have id: "keeps_identity (\<lambda>c. c\<lparr>mpList := ms\<rparr>)" for ms by (simp add: keeps_identity_def)
  have u: "spin_unlock ?d = Some (?d\<lparr>mClientMemLock := False\<rparr>)" "queue_frame d (?d\<lparr>mClientMemLock := False\<rparr>)"
    using section_frame [of d ?d] assms by simp_all
  have v: "spin_unlock (upd_client ?d a (\<lambda>c. c\<lparr>mpList := ms\<rparr>)) =
      Some ((upd_client ?d a (\<lambda>c. c\<lparr>mpList := ms\<rparr>))\<lparr>mClientMemLock := False\<rparr>)"
    "queue_frame d ((upd_client ?d a (\<lambda>c. c\<lparr>mpList := ms\<rparr>))\<lparr>mClientMemLock := False\<rparr>)" for a ms
    using section_frame [OF queue_frame_upd_client [OF id] assms] by simp_all
  have w: "client_of (upd_client ?d (cm_addr c) (\<lambda>c. c\<lparr>mpList := ms\<rparr>)) = (client_of d)(cid \<mapsto> c\<lparr>mpList := ms\<rparr>)"
    if "client_of d cid = Some c" for c ms
    using ready_upd [OF l(2), of cid c, OF _ id] that by (auto simp: fun_eq_iff)
  show ?thesis
    using u by (auto simp: l PopFromReadMemList_eq v w split: option.splits simp del: fun_upd_apply)
qed

lemma ReadAsync_check_spec:
  assumes "idle d"
  shows "\<exists>r d'. ReadAsync_check d cid t f p = Some (r, d') \<and> queue_frame d d' \<and>
    (case client_of d cid of None \<Rightarrow> r = AsyncErr (- ENXIO) \<and> client_of d' = client_of d \<and> mallocs d' = mallocs d
     | Some c \<Rightarrow>
         if \<exists>m \<in> set (mpList c). t = 0 \<or> t = rd_mTransactionID m
         then r = AsyncRun \<and> client_of d' = client_of d \<and> mallocs d' = mallocs d
         else r = AsyncQueued \<and> mallocs d' = tl (mallocs d) \<and>
              client_of d' = (if malloc_ok d then (client_of d)(cid \<mapsto> c\<lparr>mpReadNotifyList := mpReadNotifyList c @
                 [\<lparr>nt_mpNotifyFunct = f, nt_mTransactionID = t, nt_mpData = p\<rparr>]\<rparr>) else client_of d))"
proof -
  let ?d = "d\<lparr>mClientMemLock := True\<rparr>"
  note l = idle_lock [OF assms]
  have u: "spin_unlock ?d = Some (?d\<lparr>mClientMemLock := False\<rparr>)" "queue_frame d (?d\<lparr>mClientMemLock := False\<rparr>)"
    using section_frame [of d ?d] assms by simp_all
  show ?thesis
  proof (cases "client_of d cid")
    case None
    with u show ?thesis by (simp add: ReadAsync_check_def l ready_FindClientMem)
  next
    case (Some c)
    obtain d1 where d1: "AddToNotifyList ?d cid t f p = Some (malloc_ok d, d1)" "queue_frame ?d d1"
      "mallocs d1 = tl (mallocs d)" "client_of d1 = (if malloc_ok d then (client_of d)(cid \<mapsto> c\<lparr>mpReadNotifyList :=
         mpReadNotifyList c @ [\<lparr>nt_mpNotifyFunct = f, nt_mTransactionID = t, nt_mpData = p\<rparr>]\<rparr>) else client_of d)"
      using notify_q.add_present [OF l(2), of cid c "\<lparr>nt_mpNotifyFunct = f, nt_mTransactionID = t, nt_mpData = p\<rparr>"] Some
      by auto
    have "deref_client ?d (cm_addr c) = Some c" using ready_deref [OF l(2)] Some by simp
    then show ?thesis
      using u Some d1 section_frame [OF d1(2) assms]
      by (auto simp: ReadAsync_check_def l ready_FindClientMem simp del: fun_upd_apply)
  qed
qed


section \<open>The WDS callback\<close>

lemma down_reason_fields [simp]:
  "dev_frame d (QuecGobiSetDownReason d r)" "client_of (QuecGobiSetDownReason d r) = client_of d"
  "mallocs (QuecGobiSetDownReason d r) = mallocs d" "sems (QuecGobiSetDownReason d r) = sems d"
  "dev_frame d (QuecGobiClearDownReason d r)" "client_of (QuecGobiClearDownReason d r) = client_of d"
  "mallocs (QuecGobiClearDownReason d r) = mallocs d" "sems (QuecGobiClearDownReason d r) = sems d"
  by (simp_all add: QuecGobiSetDownReason_def QuecGobiClearDownReason_def Let_def dev_frame_def client_of_def fun_eq_iff)

lemma QMIWDSCallback_update_frame:
  assumes "QMIWDSCallback_update d b n = Some d'"
  shows "dev_frame d d'" and "client_of d' = client_of d" and "mallocs d' = mallocs d" and "sems d' = sems d"
  using assms dev_frame_trans [OF down_reason_fields(1) down_reason_fields(5)]
  by (auto simp: QMIWDSCallback_update_def Let_def split: if_splits option.splits bind_splits)

lemma queue_frame_dev: "queue_frame d d' \<Longrightarrow> dev_frame d d'"
  by (simp add: queue_frame_def)

text \<open>One round of the callback, for any continuation \<open>run\<close>.\<close>

lemma wds_iteration:
  assumes "idle d" and "(if \<not> IsDeviceValid (Some d) then Some d
      else do {
        d \<leftarrow> spin_lock d;
        (popped, d) \<leftarrow> PopFromReadMemList d cid 0;
        d \<leftarrow> spin_unlock d;
        case popped of
          None \<Rightarrow> Some d
        | Some (pReadBuffer, readBufferSize) \<Rightarrow> do {
            d \<leftarrow> QMIWDSCallback_update d pReadBuffer readBufferSize;
            (r, d) \<leftarrow> ReadAsync_check d cid 0 (Some QMIWDSCallback) p;
            case r of
              AsyncRun \<Rightarrow> run d cid p
            | _ \<Rightarrow> Some d
          }
      }) = Some d'"
  shows "\<exists>d3. dev_frame d d3 \<and> sems d3 = sems d \<and> (d' = d3 \<or> run d3 cid p = Some d')"
proof -
  obtain r d1 where pop: "do { d \<leftarrow> spin_lock d; (r, d) \<leftarrow> PopFromReadMemList d cid 0; d \<leftarrow> spin_unlock d; Some (r, d) }
      = Some (r, d1)" and f1: "queue_frame d d1" using pop_section [OF assms(1), of cid 0] by blast
  have i1: "idle d1" using idle_frame [OF queue_frame_dev [OF f1] assms(1)] .
  have body: "(case r of None \<Rightarrow> Some d1
      | Some (b, n) \<Rightarrow> do { d \<leftarrow> QMIWDSCallback_update d1 b n;
          (r, d) \<leftarrow> ReadAsync_check d cid 0 (Some QMIWDSCallback) p;
          case r of AsyncRun \<Rightarrow> run d cid p | _ \<Rightarrow> Some d }) = Some d'"
    using assms pop by (auto simp: idle_def split: bind_splits)
  show ?thesis
  proof (cases r)
    case None
    with body f1 show ?thesis by (auto simp: queue_frame_def)
  next
    case (Some bn)
    with body obtain d2 where upd: "QMIWDSCallback_update d1 (fst bn) (snd bn) = Some d2"
      by (auto split: prod.splits bind_splits)
    note u = QMIWDSCallback_update_frame [OF upd]
    obtain a d3 where chk: "ReadAsync_check d2 cid 0 (Some QMIWDSCallback) p = Some (a, d3)" "queue_frame d2 d3"
      using ReadAsync_check_spec [OF idle_frame [OF u(1) i1], of cid 0] by blast
    have "dev_frame d d3" "sems d3 = sems d"
      using f1 u(1,4) chk(2) by (auto simp: queue_frame_def intro: dev_frame_trans)
    moreover have "d' = d3 \<or> run d3 cid p = Some d'"
      using body Some upd chk(1) by (auto split: async_result.splits prod.splits)
    ultimately show ?thesis by blast
  qed
qed

lemma run_QMIWDSCallback_frame:
  assumes "run_QMIWDSCallback d cid p = Some d'" and "idle d"
  shows "dev_frame d d' \<and> sems d' = sems d"
proof -
  have "idle d \<longrightarrow> dev_frame d d' \<and> sems d' = sems d"
    by (rule run_QMIWDSCallback.raw_induct
        [of "\<lambda>d cid p d'. idle d \<longrightarrow> dev_frame d d' \<and> sems d' = sems d", OF _ assms(1)],
        intro impI, drule (1) wds_iteration [rotated]) (metis idle_frame dev_frame_trans)
  with assms(2) show ?thesis by blast
qed

section \<open>Dispatch keeps the device in order\<close>

lemma run_notify_frame:
  assumes "run_notify f d cid p = Some d'" and "idle d"
  shows "dev_frame d d'"
proof (cases f)
  case UpSem
  with assms show ?thesis
    by (auto simp: run_notify_def run_UpSem_def dev_frame_def split: option.splits if_splits)
next
  case QMIWDSCallback
  with assms run_QMIWDSCallback_frame show ?thesis by (simp add: run_notify_def)
qed

lemma notify_section_frame:
  assumes "ready d" and "do { d \<leftarrow> spin_unlock d; d \<leftarrow> run_notify f d cid p; spin_lock d } = Some d'"
  shows "dev_frame d d'"
proof -
  note u = ready_unlock [OF assms(1)]
  obtain d2 where d2: "run_notify f (d\<lparr>mClientMemLock := False\<rparr>) cid p = Some d2" "spin_lock d2 = Some d'"
    using assms(2) by (auto simp: u split: bind_splits)
  have "dev_frame (d\<lparr>mClientMemLock := False\<rparr>) d2" using run_notify_frame [OF d2(1) u(2)] .
  with d2(2) assms(1) show ?thesis by (auto simp: dev_frame_def spin_lock_def ready_def split: if_splits)
qed

lemma NotifyAndPopNotifyList_frame:
  assumes "NotifyAndPopNotifyList d cid t = Some (b, d')" and "ready d"
  shows "dev_frame d d'"
proof (cases "client_of d cid")
  case None
  with assms show ?thesis by (simp add: NotifyAndPopNotifyList_def ready_simps)
next
  case (Some c)
  let ?u = "unlink_first (\<lambda>n. t = 0 \<or> nt_mTransactionID n = 0 \<or> t = nt_mTransactionID n) (mpReadNotifyList c)"
  show ?thesis
  proof (cases ?u)
    case None
    with assms Some show ?thesis by (simp add: NotifyAndPopNotifyList_def ready_simps)
  next
    case (Some x)
    let ?d = "upd_client d (cm_addr c) (\<lambda>c. c\<lparr>mpReadNotifyList := snd x\<rparr>)"
    have f: "dev_frame d ?d" by (intro dev_frame_upd_client) (simp add: keeps_identity_def)
    note r = ready_frame [OF f assms(2)]
    have "?d = d' \<or> (\<exists>f. do { d \<leftarrow> spin_unlock ?d; d \<leftarrow> run_notify f d cid (nt_mpData (fst x)); spin_lock d } = Some d')"
      using assms \<open>client_of d cid = Some c\<close> Some
      by (cases "nt_mpNotifyFunct (fst x)"; cases x)
        (auto simp: NotifyAndPopNotifyList_def ready_simps Let_def bind_eq_Some_conv)
    then show ?thesis using f notify_section_frame [OF r] dev_frame_trans by blast
  qed
qed

lemma ReadCallback_walk_frame:
  "ReadCallback_walk as d cid t b n = Some d' \<Longrightarrow> ready d \<Longrightarrow> dev_frame d d'"
proof (induction as arbitrary: d)
  case (Cons a as)
  then obtain c where c: "deref_client d a = Some c" by (auto split: bind_splits)
  show ?case
  proof (cases "mClientID c = cid \<or> mClientID c OR 0xff00 = cid")
    case False
    with Cons c show ?thesis by (auto split: bind_splits)
  next
    case True
    obtain r d1 where k: "kmalloc d = (r, d1)" by (cases "kmalloc d")
    note f1 = queue_frame_dev [OF kmalloc_frame(1) [OF k]]
    note r1 = ready_frame [OF f1 Cons.prems(2)]
    show ?thesis
    proof (cases r)
      case None
      with Cons.prems c True k f1 show ?thesis by simp
    next
      case (Some x)
      with Cons.prems c True k obtain p ok d2 where p: "rdn b 0 (unat n) = Some p"
        and add: "AddToReadMemList d1 (mClientID c) t p n = Some (ok, d2)" by (auto split: bind_splits)
      have "dev_frame d1 d2"
        using read_q.add_present [OF r1, of "mClientID c" _ "\<lparr>rd_mpData = p, rd_mTransactionID = t, rd_mDataSize = n\<rparr>"]
          read_q.add_absent [OF r1, of "mClientID c" "\<lparr>rd_mpData = p, rd_mTransactionID = t, rd_mDataSize = n\<rparr>"] add
        by (cases "client_of d1 (mClientID c)") (auto simp: queue_frame_def)
      then have f2: "dev_frame d d2" using f1 dev_frame_trans by blast
      note r2 = ready_frame [OF f2 Cons.prems(2)]
      have "d' = d2 \<or> (\<exists>x d3. NotifyAndPopNotifyList d2 (mClientID c) t = Some (x, d3) \<and>
                (d' = d3 \<or> ReadCallback_walk as d3 cid t b n = Some d'))"
        using Cons.prems(1) c True k Some p add by (auto split: bind_splits if_splits)
      then show ?thesis
        using f2 Cons.IH NotifyAndPopNotifyList_frame [OF _ r2] ready_frame [OF _ r2] dev_frame_trans
        by metis
    qed
  qed
qed simp

lemma int_submits_Resubmit [simp]:
  "int_submits (ResubmitIntURB d) = int_submits d + (if mpIntURB d then 1 else 0)"
  by (simp add: ResubmitIntURB_def)

lemma idle_Resubmit [simp]: "idle (ResubmitIntURB d) = idle d"
  by (simp add: ResubmitIntURB_def idle_def IsDeviceValid_def dev_ok_def)

lemma clients_Resubmit [simp]: "mpClientMemList (ResubmitIntURB d) = mpClientMemList d"
  by (simp add: ResubmitIntURB_def)

lemma walk_section:
  assumes "idle d" and "do { d \<leftarrow> spin_lock d;
      d \<leftarrow> ReadCallback_walk (map cm_addr (mpClientMemList d)) d cid t b n; spin_unlock d } = Some d'"
  shows "dev_frame d d'"
proof -
  note l = idle_lock [OF assms(1)]
  obtain d2 where d2: "ReadCallback_walk (map cm_addr (mpClientMemList d)) (d\<lparr>mClientMemLock := True\<rparr>) cid t b n = Some d2"
    "spin_unlock d2 = Some d'" using assms(2) by (auto simp: l split: bind_splits)
  have "dev_frame (d\<lparr>mClientMemLock := True\<rparr>) d2" using ReadCallback_walk_frame [OF d2(1) l(2)] .
  with d2(2) assms(1) show ?thesis by (auto simp: dev_frame_def spin_unlock_def idle_def split: if_splits)
qed

lemma ReadCallback_frame:
  assumes "idle d" and "ReadCallback d status b n = Some d'"
  shows "idle d' \<and> map mClientID (mpClientMemList d') = map mClientID (mpClientMemList d)
    \<and> int_submits d' = int_submits d + (if mpIntURB d then 1 else 0)"
proof -
  have v: "IsDeviceValid (Some d)" using assms(1) by (simp add: idle_def)
  have "d' = ResubmitIntURB d \<or> (\<exists>cid t m d1. d' = ResubmitIntURB d1 \<and> do { d \<leftarrow> spin_lock d;
      d \<leftarrow> ReadCallback_walk (map cm_addr (mpClientMemList d)) d cid t b m; spin_unlock d } = Some d1)"
    using assms(2) v by (auto simp: ReadCallback_def Let_def bind_eq_Some_conv split: if_splits; metis)
  then obtain d1 where d1: "d' = ResubmitIntURB d1" "dev_frame d d1"
    using walk_section [OF assms(1)] dev_frame_refl by blast
  then have "idle d1" using assms(1) idle_frame by blast
  with d1 show ?thesis by (simp add: dev_frame_def)
qed

section \<open>Draining the event queue\<close>

text \<open>A queued message that is a complete packet service status indication.\<close>

definition status_indication :: "sReadMemList \<Rightarrow> bool" where
  "status_indication m \<longleftrightarrow> (\<exists>hdr ts. length hdr = 9 \<and> rd_mpData m = hdr @ qmi_msg 0x22 ts \<and>
     unat (rd_mDataSize m) = length (rd_mpData m))"

text \<open>A message the callback can read: the parser returns on it.\<close>

definition wds_readable :: "sReadMemList \<Rightarrow> bool" where
  "wds_readable m \<longleftrightarrow>
     (\<forall>e. \<exists>r e'. QMIWDSEventResp (Ptr (rd_mpData m)) (rd_mDataSize m) (Some e) = Some (r, Some e'))"

lemma status_indication_readable:
  assumes "status_indication m"
  shows "wds_readable m"
proof -
  obtain hdr ts where h: "length hdr = 9" "rd_mpData m = hdr @ qmi_msg 0x22 ts"
    "unat (rd_mDataSize m) = length (hdr @ qmi_msg 0x22 ts)" using assms by (auto simp: status_indication_def)
  show ?thesis
    unfolding wds_readable_def using QMIWDSEventResp_status_msg [OF h(1,3)] h(2) by (simp split: option.splits list.splits)
qed

lemma update_readable:
  assumes "wds_readable m"
  shows "\<exists>d'. QMIWDSCallback_update d (rd_mpData m) (rd_mDataSize m) = Some d'"
proof -
  obtain r e' where "QMIWDSEventResp (Ptr (rd_mpData m)) (rd_mDataSize m)
      (Some \<lparr>TXOk = - 1, RXOk = - 1, TXErr = - 1, RXErr = - 1, TXOfl = - 1, RXOfl = - 1,
                TXBytesOk = - 1, RXBytesOk = - 1,
                bLinkState = \<not> QuecGobiTestDownReason d NO_NDIS_CONNECTION, bReconfigure = False\<rparr>) = Some (r, Some e')"
    using assms unfolding wds_readable_def by blast
  then show ?thesis by (simp add: QMIWDSCallback_update_def)
qed

lemma wds_drains:
  assumes "idle d" and "client_of d cid = Some c" and "mpList c \<noteq> []" and "mallocs d = []"
    and "\<forall>m \<in> set (mpList c). wds_readable m"
  shows "\<exists>d'. run_QMIWDSCallback d cid p = Some d' \<and> mallocs d' = [] \<and> client_of d' = (client_of d)(cid \<mapsto> c\<lparr>mpList := [],
           mpReadNotifyList := mpReadNotifyList c @
             [\<lparr>nt_mpNotifyFunct = Some QMIWDSCallback, nt_mTransactionID = 0, nt_mpData = p\<rparr>]\<rparr>)"
  using assms
proof (induction "mpList c" arbitrary: d c)
  case (Cons m ms)
  obtain d1 where pop: "do { d \<leftarrow> spin_lock d; (r, d) \<leftarrow> PopFromReadMemList d cid 0; d \<leftarrow> spin_unlock d; Some (r, d) }
      = Some (Some (rd_mpData m, rd_mDataSize m), d1)" "queue_frame d d1" "mallocs d1 = []"
    "client_of d1 = (client_of d)(cid \<mapsto> c\<lparr>mpList := ms\<rparr>)"
    using pop_section [OF Cons.prems(1), of cid 0] Cons.prems(2,4) Cons.hyps(2) [symmetric] by auto
  obtain d2 where upd: "QMIWDSCallback_update d1 (rd_mpData m) (rd_mDataSize m) = Some d2"
    using update_readable Cons.prems(5) Cons.hyps(2) by (metis list.set_intros(1))
  note u = QMIWDSCallback_update_frame [OF upd]
  have i2: "idle d2" using idle_frame [OF dev_frame_trans [OF queue_frame_dev [OF pop(2)] u(1)] Cons.prems(1)] .
  have c2: "client_of d2 cid = Some (c\<lparr>mpList := ms\<rparr>)" by (simp add: u(2) pop(4))
  obtain a d3 where chk: "ReadAsync_check d2 cid 0 (Some QMIWDSCallback) p = Some (a, d3)" "queue_frame d2 d3"
    "if ms \<noteq> [] then a = AsyncRun \<and> client_of d3 = client_of d2 \<and> mallocs d3 = []
     else a = AsyncQueued \<and> mallocs d3 = [] \<and> client_of d3 = (client_of d2)(cid \<mapsto> c\<lparr>mpList := ms, mpReadNotifyList := mpReadNotifyList c @
        [\<lparr>nt_mpNotifyFunct = Some QMIWDSCallback, nt_mTransactionID = 0, nt_mpData = p\<rparr>]\<rparr>)"
    using ReadAsync_check_spec [OF i2, of cid 0 "Some QMIWDSCallback" p] c2 u(3) pop(3)
    by (cases ms) (auto simp: malloc_ok_def simp del: fun_upd_apply split: if_splits)
  have run: "run_QMIWDSCallback d cid p = (if ms \<noteq> [] then run_QMIWDSCallback d3 cid p else Some d3)"
    using pop(1) upd chk(1,3) Cons.prems(1)
    by (subst run_QMIWDSCallback.simps) (auto simp: idle_def bind_eq_Some_conv split: if_splits)
  have i3: "idle d3" using idle_frame [OF queue_frame_dev [OF chk(2)] i2] .
  show ?case
  proof (cases "ms = []")
    case True
    with run chk(3) u(2) pop(4) show ?thesis by (simp add: fun_upd_upd)
  next
    case False
    have "client_of d3 cid = Some (c\<lparr>mpList := ms\<rparr>)" "mallocs d3 = []" using False chk(3) c2 by simp_all
    moreover have "\<forall>x \<in> set ms. wds_readable x" using Cons.prems(5) by (simp flip: Cons.hyps(2))
    ultimately obtain d' where "run_QMIWDSCallback d3 cid p = Some d'" "mallocs d' = []"
      "client_of d' = (client_of d3)(cid \<mapsto> c\<lparr>mpList := [], mpReadNotifyList := mpReadNotifyList c @
             [\<lparr>nt_mpNotifyFunct = Some QMIWDSCallback, nt_mTransactionID = 0, nt_mpData = p\<rparr>]\<rparr>)"
      using Cons.hyps(1) [of "c\<lparr>mpList := ms\<rparr>" d3] i3 False by (auto simp del: fun_upd_apply)
    with run False chk(3) u(2) pop(4) show ?thesis by (simp add: fun_upd_upd)
  qed
qed simp


section \<open>Delivery\<close>

text \<open>Who a message for \<open>cid\<close> is meant for, and what a client looks like after receiving it.\<close>

definition addressed :: "u16 \<Rightarrow> sClientMemList \<Rightarrow> bool" where
  "addressed cid c \<longleftrightarrow> mClientID c = cid \<or> mClientID c OR 0xff00 = cid"

definition first_waiter :: "u16 \<Rightarrow> sClientMemList \<Rightarrow> (sNotifyList \<times> sNotifyList list) option" where
  "first_waiter t c = unlink_first (\<lambda>n. t = 0 \<or> nt_mTransactionID n = 0 \<or> t = nt_mTransactionID n) (mpReadNotifyList c)"

text \<open>
  The first matching waiter is removed. A semaphore is raised; the WDS callback consumes the whole
  queue and is the last waiter again.
\<close>

definition notified :: "u16 \<Rightarrow> sClientMemList \<Rightarrow> sClientMemList" where
  "notified t c = (case first_waiter t c of None \<Rightarrow> c
     | Some (w, ns) \<Rightarrow>
         if nt_mpNotifyFunct w = Some QMIWDSCallback
         then c\<lparr>mpList := [], mpReadNotifyList := ns @
           [\<lparr>nt_mpNotifyFunct = Some QMIWDSCallback, nt_mTransactionID = 0, nt_mpData = nt_mpData w\<rparr>]\<rparr>
         else c\<lparr>mpReadNotifyList := ns\<rparr>)"

definition receive :: "sReadMemList \<Rightarrow> sClientMemList \<Rightarrow> sClientMemList" where
  "receive m c = notified (rd_mTransactionID m) (c\<lparr>mpList := mpList c @ [m]\<rparr>)"

definition woken :: "u16 \<Rightarrow> sClientMemList \<Rightarrow> nat list" where
  "woken t c = (case first_waiter t c of None \<Rightarrow> []
     | Some (n, _) \<Rightarrow> if nt_mpNotifyFunct n = Some UpSem then [nt_mpData n] else [])"

definition raise :: "nat \<Rightarrow> (nat \<rightharpoonup> QuecSem) \<Rightarrow> (nat \<rightharpoonup> QuecSem)" where
  "raise a s = s(a := map_option (\<lambda>q. q\<lparr>readSem := readSem q + 1\<rparr>) (s a))"

text \<open>All waiters of a client block on semaphores that exist and are not abandoned.\<close>

definition live_waiters :: "(nat \<rightharpoonup> QuecSem) \<Rightarrow> sClientMemList \<Rightarrow> bool" where
  "live_waiters s c \<longleftrightarrow> (\<forall>w \<in> set (mpReadNotifyList c). nt_mpNotifyFunct w = Some UpSem \<and>
     (case s (nt_mpData w) of None \<Rightarrow> False | Some q \<Rightarrow> sem_magic q = QUEC_SEM_MAGIC))"

text \<open>
  The waiters a delivery can serve: blocked on a live semaphore, without a callback, or the WDS
  callback with messages it can read.
\<close>

definition servable :: "(nat \<rightharpoonup> QuecSem) \<Rightarrow> sClientMemList \<Rightarrow> bool" where
  "servable s c \<longleftrightarrow> (\<forall>w \<in> set (mpReadNotifyList c).
     case nt_mpNotifyFunct w of
       None \<Rightarrow> True
     | Some UpSem \<Rightarrow> (case s (nt_mpData w) of None \<Rightarrow> False | Some q \<Rightarrow> sem_magic q = QUEC_SEM_MAGIC)
     | Some QMIWDSCallback \<Rightarrow> \<forall>m \<in> set (mpList c). wds_readable m)"

lemma live_waiters_servable: "live_waiters s c \<Longrightarrow> servable s c"
  by (auto simp: live_waiters_def servable_def)

lemma servable_raise: "servable s c \<Longrightarrow> servable (raise a s) c"
  by (fastforce simp: servable_def raise_def split: option.splits notify_funct.splits)

lemma servable_folds: "servable s c \<Longrightarrow> servable (fold raise as s) c"
  by (induction as arbitrary: s) (simp_all add: servable_raise)

lemma unlink_first_SomeD:
  "unlink_first P xs = Some (x, ys) \<Longrightarrow> x \<in> set xs \<and> P x \<and> set ys \<subseteq> set xs"
  by (induction xs arbitrary: ys) (auto split: if_splits)

lemma live_waiters_raise: "live_waiters s c \<Longrightarrow> live_waiters (raise a s) c"
  by (auto simp: live_waiters_def raise_def split: option.splits)

lemma live_waiters_folds: "live_waiters s c \<Longrightarrow> live_waiters (fold raise as s) c"
  by (induction as arbitrary: s) (simp_all add: live_waiters_raise)

lemma upd_client_middle:
  assumes "dev_ok d" and "mpClientMemList d = pre @ c # suf"
  shows "mpClientMemList (upd_client d (cm_addr c) f) = pre @ f c # suf"
proof -
  have "cm_addr c \<notin> cm_addr ` set pre" "cm_addr c \<notin> cm_addr ` set suf"
    using assms by (auto simp: dev_ok_def image_iff)
  then have "map (\<lambda>x. if cm_addr x = cm_addr c then f x else x) pre = pre"
    "map (\<lambda>x. if cm_addr x = cm_addr c then f x else x) suf = suf" by (auto intro!: map_idI simp: image_iff)
  with assms(2) show ?thesis by (simp add: upd_client_def)
qed

lemma client_of_middle:
  "ready d \<Longrightarrow> mpClientMemList d = pre @ c # suf \<Longrightarrow> client_of d (mClientID c) = Some c"
  by (simp add: ready_def client_of_member)

lemma kmalloc_unlimited:
  assumes "mallocs d = []"
  obtains d' where "kmalloc d = (Some (next_addr d), d')" "queue_frame d d'" "mallocs d' = []"
    "mpClientMemList d' = mpClientMemList d"
  using assms kmalloc_frame [of d "Some (next_addr d)"] by (auto simp: kmalloc_def)

lemma add_middle:
  assumes "ready d" and "mpClientMemList d = pre @ c # suf" and "mallocs d = []" and "keeps_identity f"
  shows "\<exists>d'. add_entry d (mClientID c) f = Some (True, d') \<and> queue_frame d d' \<and> mallocs d' = [] \<and>
           mpClientMemList d' = pre @ f c # suf"
proof -
  obtain d1 where k: "kmalloc d = (Some (next_addr d), d1)" "queue_frame d d1" "mallocs d1 = []"
    "mpClientMemList d1 = mpClientMemList d" using kmalloc_unlimited [OF assms(3)] by blast
  have "dev_ok d1" using ready_queue_frame [OF k(2) assms(1)] by (simp add: ready_def)
  with k assms client_of_middle [OF assms(1,2)] show ?thesis
    by (simp add: add_entry_def ready_simps upd_client_middle queue_frame_trans [OF k(2) queue_frame_upd_client])
qed

text \<open>The client list after a change to one client, from the clients found by their IDs.\<close>

lemma clients_middle:
  assumes "dev_ok d" "dev_ok d'" "map mClientID (mpClientMemList d') = map mClientID (mpClientMemList d)"
    and cl: "mpClientMemList d = pre @ c # suf" and "client_of d' = (client_of d)(mClientID c \<mapsto> c')"
  shows "mpClientMemList d' = pre @ c' # suf"
proof (rule nth_equalityI)
  have len: "length (mpClientMemList d') = length (mpClientMemList d)" by (rule map_eq_imp_length_eq [OF assms(3)])
  then show "length (mpClientMemList d') = length (pre @ c' # suf)" using cl by simp
  fix j assume j: "j < length (mpClientMemList d')"
  have id: "mClientID (mpClientMemList d' ! j) = mClientID (mpClientMemList d ! j)"
    using assms(3) j len by (metis nth_map)
  have mem: "client_of d' (mClientID (mpClientMemList d' ! j)) = Some (mpClientMemList d' ! j)"
    "client_of d (mClientID (mpClientMemList d ! j)) = Some (mpClientMemList d ! j)"
    using j len assms(1,2) by (auto intro!: client_of_member)
  have "mClientID (mpClientMemList d ! j) = mClientID c \<longleftrightarrow> j = length pre"
    using assms(1) j len cl nth_eq_iff_index_eq [of "map mClientID (mpClientMemList d)" j "length pre"]
    by (simp add: dev_ok_def del: map_append)
  then have "mpClientMemList d' ! j = (if j = length pre then c' else mpClientMemList d ! j)"
    using mem unfolding id assms(5) by (simp split: if_splits)
  then show "mpClientMemList d' ! j = (pre @ c' # suf) ! j"
    using cl by (simp add: nth_append nth_Cons split: nat.split)
qed

text \<open>Running what a waiter asks for, with the lock released meanwhile.\<close>

lemma run_waiter:
  assumes r: "ready d" and cl: "mpClientMemList d = pre @ c # suf"
    and f: "f = UpSem \<Longrightarrow> \<exists>q. sems d p = Some q \<and> sem_magic q = QUEC_SEM_MAGIC"
      "f = QMIWDSCallback \<Longrightarrow> mallocs d = [] \<and> mpList c \<noteq> [] \<and> (\<forall>m \<in> set (mpList c). wds_readable m)"
  shows "\<exists>d'. do { d \<leftarrow> spin_unlock d; d \<leftarrow> run_notify f d (mClientID c) p; spin_lock d } = Some d' \<and> dev_frame d d'
    \<and> mallocs d' = mallocs d \<and> sems d' = (if f = UpSem then raise p (sems d) else sems d)
    \<and> mpClientMemList d' = pre @ (if f = UpSem then c else c\<lparr>mpList := [], mpReadNotifyList := mpReadNotifyList c @
        [\<lparr>nt_mpNotifyFunct = Some QMIWDSCallback, nt_mTransactionID = 0, nt_mpData = p\<rparr>]\<rparr>) # suf"
proof (cases f)
  case UpSem
  with f(1) obtain q where q: "sems d p = Some q" "sem_magic q = QUEC_SEM_MAGIC" by blast
  show ?thesis
    using UpSem q r cl by (intro exI [of _ "d\<lparr>sems := raise p (sems d)\<rparr>"])
      (auto simp: run_notify_def run_UpSem_def spin_unlock_def spin_lock_def ready_def raise_def dev_frame_def)
next
  case QMIWDSCallback
  let ?d = "d\<lparr>mClientMemLock := False\<rparr>"
  let ?c = "c\<lparr>mpList := [], mpReadNotifyList := mpReadNotifyList c @
        [\<lparr>nt_mpNotifyFunct = Some QMIWDSCallback, nt_mTransactionID = 0, nt_mpData = p\<rparr>]\<rparr>"
  note u = ready_unlock [OF r]
  obtain e where e: "run_QMIWDSCallback ?d (mClientID c) p = Some e" "mallocs e = []"
    "client_of e = (client_of d)(mClientID c \<mapsto> ?c)"
    using wds_drains [OF u(2), of "mClientID c" c p] client_of_middle [OF r cl] f(2) [OF QMIWDSCallback]
    by (auto simp del: fun_upd_apply)
  note fr = run_QMIWDSCallback_frame [OF e(1) u(2)]
  have "mpClientMemList (e\<lparr>mClientMemLock := True\<rparr>) = pre @ ?c # suf"
    using clients_middle [of d e pre c suf ?c] r cl e(3) fr dev_frame_ok [of ?d e] u(2)
    by (simp add: ready_def dev_frame_def idle_def)
  then show ?thesis
    using QMIWDSCallback e fr u(1) f(2) r
    by (intro exI [of _ "e\<lparr>mClientMemLock := True\<rparr>"])
      (auto simp: run_notify_def spin_lock_def dev_frame_def ready_def)
qed

lemma notify_middle:
  assumes r: "ready d" and cl: "mpClientMemList d = pre @ c # suf" and ok: "servable (sems d) c"
    and mem: "mallocs d = [] \<and> mpList c \<noteq> [] \<or> live_waiters (sems d) c"
  shows "\<exists>b d'. NotifyAndPopNotifyList d (mClientID c) t = Some (b, d') \<and> dev_frame d d' \<and> mallocs d' = mallocs d \<and>
           sems d' = fold raise (woken t c) (sems d) \<and> mpClientMemList d' = pre @ notified t c # suf"
proof (cases "first_waiter t c")
  case None
  with assms(1,2) client_of_middle [OF assms(1,2)] show ?thesis
    by (auto simp: NotifyAndPopNotifyList_def ready_simps first_waiter_def woken_def notified_def)
next
  case (Some x)
  obtain n ns where x: "x = (n, ns)" by (cases x)
  have n: "n \<in> set (mpReadNotifyList c)" using Some x unlink_first_SomeD by (fastforce simp: first_waiter_def)
  let ?d = "upd_client d (cm_addr c) (\<lambda>c. c\<lparr>mpReadNotifyList := ns\<rparr>)"
  let ?c = "c\<lparr>mpReadNotifyList := ns\<rparr>"
  have f: "dev_frame d ?d" by (intro dev_frame_upd_client) (simp add: keeps_identity_def)
  have s: "sems ?d = sems d" by (simp add: upd_client_def)
  have cl': "mpClientMemList ?d = pre @ ?c # suf"
    using upd_client_middle [OF _ cl] r by (simp add: ready_def)
  have eq: "NotifyAndPopNotifyList d (mClientID c) t = map_option (Pair True) (case nt_mpNotifyFunct n of None \<Rightarrow> Some ?d
      | Some f \<Rightarrow> do { d \<leftarrow> spin_unlock ?d; d \<leftarrow> run_notify f d (mClientID c) (nt_mpData n); spin_lock d })"
    using r client_of_middle [OF r cl] Some x
    by (auto simp: NotifyAndPopNotifyList_def ready_simps first_waiter_def Let_def map_conv_bind_option
        split: option.splits bind_splits)
  show ?thesis
  proof (cases "nt_mpNotifyFunct n")
    case None
    with eq Some x f s cl' show ?thesis by (intro exI [of _ True] exI [of _ ?d]) (simp add: woken_def notified_def)
  next
    case fn: (Some g)
    have "g = UpSem \<Longrightarrow> \<exists>q. sems ?d (nt_mpData n) = Some q \<and> sem_magic q = QUEC_SEM_MAGIC"
      using ok n fn s by (auto simp: servable_def split: option.splits)
    moreover have "g = QMIWDSCallback \<Longrightarrow> mallocs ?d = [] \<and> mpList ?c \<noteq> [] \<and> (\<forall>m \<in> set (mpList ?c). wds_readable m)"
      using ok n fn mem by (auto simp: servable_def live_waiters_def)
    ultimately obtain d' where
      "do { d \<leftarrow> spin_unlock ?d; d \<leftarrow> run_notify g d (mClientID c) (nt_mpData n); spin_lock d } = Some d'" "dev_frame ?d d'"
      "mallocs d' = mallocs d" "sems d' = (if g = UpSem then raise (nt_mpData n) (sems d) else sems d)"
      "mpClientMemList d' = pre @ (if g = UpSem then ?c else ?c\<lparr>mpList := [], mpReadNotifyList := ns @
        [\<lparr>nt_mpNotifyFunct = Some QMIWDSCallback, nt_mTransactionID = 0, nt_mpData = nt_mpData n\<rparr>]\<rparr>) # suf"
      using run_waiter [OF ready_frame [OF f r] cl', of g "nt_mpData n"] s by auto
    then show ?thesis
      using eq fn Some x dev_frame_trans [OF f] by (cases g) (auto simp: woken_def notified_def)
  qed
qed

lemma service_mask: "drop_bit 8 (x OR 0xff00) = (0xff :: u16)" for x :: u16
proof -
  have m: "(0xff :: u16) = mask 8" "drop_bit 8 (0xff00 :: u16) = mask 8" by (simp_all add: mask_eq_exp_minus_1)
  show ?thesis
    unfolding drop_bit_or m
    by (rule bit_word_eqI) (auto simp: bit_simps dest: bit_imp_le_length)
qed

lemma unicast_addressed: "drop_bit 8 cid \<noteq> 0xff \<Longrightarrow> addressed cid c \<longleftrightarrow> mClientID c = cid"
  using service_mask by (auto simp: addressed_def)


lemma woken_receive: "woken t (c\<lparr>mpList := ms\<rparr>) = woken t c"
  by (simp add: first_waiter_def woken_def)

lemma deliver_middle:
  assumes r: "ready d" and cl: "mpClientMemList d = pre @ c # suf" and mem: "mallocs d = []"
    and ok: "servable (sems d) (c\<lparr>mpList := mpList c @ [m]\<rparr>)"
    and m: "m = \<lparr>rd_mpData = p, rd_mTransactionID = t, rd_mDataSize = n\<rparr>"
  shows "\<exists>d2 b d3. AddToReadMemList d (mClientID c) t p n = Some (True, d2) \<and>
           NotifyAndPopNotifyList d2 (mClientID c) t = Some (b, d3) \<and> dev_frame d d3 \<and> mallocs d3 = [] \<and>
           sems d3 = fold raise (woken t c) (sems d) \<and> mpClientMemList d3 = pre @ receive m c # suf"
proof -
  let ?c = "c\<lparr>mpList := mpList c @ [m]\<rparr>"
  obtain d2 where d2: "AddToReadMemList d (mClientID c) t p n = Some (True, d2)" "queue_frame d d2" "mallocs d2 = []"
    "mpClientMemList d2 = pre @ ?c # suf"
    using add_middle [OF r cl mem, of "\<lambda>c. c\<lparr>mpList := mpList c @ [m]\<rparr>"] m
    by (auto simp: add_entry_instances keeps_identity_def)
  have s2: "sems d2 = sems d" using d2(2) by (simp add: queue_frame_def)
  have "servable (sems d2) ?c" using ok by (simp add: s2)
  from notify_middle [OF ready_queue_frame [OF d2(2) r] d2(4) this, of t] obtain b d3 where
    "NotifyAndPopNotifyList d2 (mClientID c) t = Some (b, d3)" "dev_frame d2 d3" "mallocs d3 = []"
    "sems d3 = fold raise (woken t c) (sems d)" "mpClientMemList d3 = pre @ receive m c # suf"
    using d2(3) m by (auto simp: s2 woken_receive receive_def)
  with d2 dev_frame_trans [OF queue_frame_dev [OF d2(2)]] show ?thesis by blast
qed

lemma walk_delivers:
  assumes "ready d" and "mallocs d = []" and "mpClientMemList d = pre @ suf"
    and "\<forall>c \<in> set suf. addressed cid c \<longrightarrow> servable (sems d) (c\<lparr>mpList := mpList c @ [m]\<rparr>)" and n: "unat n \<le> length b"
    and m: "m = \<lparr>rd_mpData = take (unat n) b, rd_mTransactionID = t, rd_mDataSize = n\<rparr>"
  shows "\<exists>d'. ReadCallback_walk (map cm_addr suf) d cid t b n = Some d' \<and> dev_frame d d' \<and> mallocs d' = [] \<and>
           mpClientMemList d' = pre @ map (\<lambda>c. if addressed cid c then receive m c else c) suf \<and>
           sems d' = fold raise (concat (map (woken t) (filter (addressed cid) suf))) (sems d)"
  using assms(1-4)
proof (induction suf arbitrary: d pre)
  case (Cons c suf)
  have c: "deref_client d (cm_addr c) = Some c"
    using Cons.prems(1,3) by (simp add: ready_def deref_client_member)
  show ?case
  proof (cases "addressed cid c")
    case False
    with Cons.IH [of d "pre @ [c]"] Cons.prems c show ?thesis by (auto simp: addressed_def)
  next
    case True
    obtain d1 where k: "kmalloc d = (Some (next_addr d), d1)" "queue_frame d d1" "mallocs d1 = []"
      "mpClientMemList d1 = mpClientMemList d" using kmalloc_unlimited [OF Cons.prems(2)] by blast
    have s1: "sems d1 = sems d" using k(2) by (simp add: queue_frame_def)
    note r1 = ready_queue_frame [OF k(2) Cons.prems(1)]
    obtain d2 x d3 where d3: "AddToReadMemList d1 (mClientID c) t (take (unat n) b) n = Some (True, d2)"
      "NotifyAndPopNotifyList d2 (mClientID c) t = Some (x, d3)" "dev_frame d1 d3" "mallocs d3 = []"
      "sems d3 = fold raise (woken t c) (sems d)" "mpClientMemList d3 = pre @ receive m c # suf"
      using deliver_middle [OF r1 _ k(3) _ m, of pre c suf] Cons.prems(3,4) k(4) True unfolding s1 by auto
    have f3: "dev_frame d d3" using dev_frame_trans [OF queue_frame_dev [OF k(2)] d3(3)] .
    have walk: "ReadCallback_walk (map cm_addr (c # suf)) d cid t b n =
      (if drop_bit 8 cid \<noteq> 0xff then Some d3 else ReadCallback_walk (map cm_addr suf) d3 cid t b n)"
      using c True k(1) d3(1,2) n by (simp add: addressed_def rdn_def)
    show ?thesis
    proof (cases "drop_bit 8 cid \<noteq> 0xff")
      case uni: True
      have "\<not> addressed cid y" if "y \<in> set suf" for y
        using that Cons.prems(1,3) True by (auto simp: unicast_addressed [OF uni] ready_def dev_ok_def image_iff)
      then have "map (\<lambda>c. if addressed cid c then receive m c else c) suf = suf" "filter (addressed cid) suf = []"
        by (auto simp: filter_empty_conv intro!: map_idI)
      with walk uni True d3 f3 show ?thesis by simp
    next
      case False
      have "\<forall>c \<in> set suf. addressed cid c \<longrightarrow> servable (sems d3) (c\<lparr>mpList := mpList c @ [m]\<rparr>)"
        using Cons.prems(4) d3(5) servable_folds by simp
      from Cons.IH [OF ready_frame [OF f3 Cons.prems(1)] d3(4), of "pre @ [receive m c]"] this d3(6)
      obtain d' where "ReadCallback_walk (map cm_addr suf) d3 cid t b n = Some d'" "dev_frame d3 d'" "mallocs d' = []"
        "mpClientMemList d' = pre @ receive m c # map (\<lambda>c. if addressed cid c then receive m c else c) suf"
        "sems d' = fold raise (concat (map (woken t) (filter (addressed cid) suf))) (sems d3)" by auto
      with walk False True d3(5) dev_frame_trans [OF f3] show ?thesis by auto
    qed
  qed
qed simp


lemma ReadCallback_delivery_frame:
  assumes "idle d" and "mallocs d = []" and "\<forall>c \<in> set (mpClientMemList d). addressed cid c \<longrightarrow> servable (sems d) (c\<lparr>mpList := mpList c @ [m]\<rparr>)"
    and "n \<le> length b" and "n < 65536" and "ParseQMUX 0 (Ptr b) (of_nat n) = Some (6, cid)"
    and "9 \<le> n" and t: "t = (if cid = 0 then ucast (b ! 7) else of_le16 (b ! 7) (b ! 8))"
    and m: "m = \<lparr>rd_mpData = take n b, rd_mTransactionID = t, rd_mDataSize = of_nat n\<rparr>"
  shows "\<exists>d1. ReadCallback d 0 b n = Some (ResubmitIntURB d1) \<and> dev_frame d d1 \<and> mallocs d1 = [] \<and>
           mpClientMemList d1 = map (\<lambda>c. if addressed cid c then receive m c else c) (mpClientMemList d) \<and>
           sems d1 = fold raise (concat (map (woken t) (filter (addressed cid) (mpClientMemList d)))) (sems d)"
proof -
  note l = idle_lock [OF assms(1)]
  let ?d = "d\<lparr>mClientMemLock := True\<rparr>"
  have n: "unat (of_nat n :: u16) = n" using assms(5) by (simp add: unat_of_nat)
  obtain d2 where d2: "ReadCallback_walk (map cm_addr (mpClientMemList d)) ?d cid t b (of_nat n) = Some d2"
    "dev_frame ?d d2" "mallocs d2 = []"
    "mpClientMemList d2 = map (\<lambda>c. if addressed cid c then receive m c else c) (mpClientMemList d)"
    "sems d2 = fold raise (concat (map (woken t) (filter (addressed cid) (mpClientMemList d)))) (sems d)"
    using walk_delivers [OF l(2), where pre = "[]" and suf = "mpClientMemList d" and n = "of_nat n" and b = b and m = m
        and t = t and cid = cid] assms(2,3,4) m n by auto
  have "dev_frame d (d2\<lparr>mClientMemLock := False\<rparr>)" "mClientMemLock d2"
    using d2(2) assms(1) by (simp_all add: dev_frame_def idle_def)
  moreover have "(if cid = 0 then map_option ucast (rd8 b 7) else rd16 b 7) = Some t"
    using assms(4,7) t by (simp add: rd8_def rd16_def)
  ultimately show ?thesis
    using assms(6,7) d2 n l(1,3)
    by (intro exI [of _ "d2\<lparr>mClientMemLock := False\<rparr>"]) (auto simp: ReadCallback_def Let_def spin_unlock_def)
qed

lemma ReadCallback_delivery:
  assumes "idle d" and "mallocs d = []" and "\<forall>c \<in> set (mpClientMemList d). addressed cid c \<longrightarrow> servable (sems d) (c\<lparr>mpList := mpList c @ [m]\<rparr>)"
    and "n \<le> length b" and "n < 65536" and "ParseQMUX 0 (Ptr b) (of_nat n) = Some (6, cid)"
    and "9 \<le> n" and t: "t = (if cid = 0 then ucast (b ! 7) else of_le16 (b ! 7) (b ! 8))"
    and m: "m = \<lparr>rd_mpData = take n b, rd_mTransactionID = t, rd_mDataSize = of_nat n\<rparr>"
  shows "\<exists>d'. ReadCallback d 0 b n = Some d' \<and>
           mpClientMemList d' = map (\<lambda>c. if addressed cid c then receive m c else c) (mpClientMemList d) \<and>
           sems d' = fold raise (concat (map (woken t) (filter (addressed cid) (mpClientMemList d)))) (sems d) \<and>
           int_submits d' = int_submits d + (if mpIntURB d then 1 else 0)"
proof -
  obtain d1 where "ReadCallback d 0 b n = Some (ResubmitIntURB d1)" "dev_frame d d1"
    "mpClientMemList d1 = map (\<lambda>c. if addressed cid c then receive m c else c) (mpClientMemList d)"
    "sems d1 = fold raise (concat (map (woken t) (filter (addressed cid) (mpClientMemList d)))) (sems d)"
    using ReadCallback_delivery_frame [OF assms] by blast
  then show ?thesis by (simp add: dev_frame_def) (simp add: ResubmitIntURB_def)
qed

section \<open>Carrier and down reasons\<close>

text \<open>The carrier is on only when no reason keeps the interface down.\<close>

definition carrier_ok :: "dev \<Rightarrow> bool" where
  "carrier_ok d \<longleftrightarrow> (carrier d \<longrightarrow> mDownReason d = 0)"

lemma carrier_ok_Set: "carrier_ok d \<Longrightarrow> carrier_ok (QuecGobiSetDownReason d r)"
  by (simp add: carrier_ok_def QuecGobiSetDownReason_def)

lemma carrier_ok_Clear: "carrier_ok d \<Longrightarrow> carrier_ok (QuecGobiClearDownReason d r)"
  by (auto simp: carrier_ok_def QuecGobiClearDownReason_def Let_def unset_bit_eq_and_not)

lemma carrier_ok_Resubmit [simp]: "carrier_ok (ResubmitIntURB d) = carrier_ok d"
  by (simp add: carrier_ok_def ResubmitIntURB_def)

lemma carrier_ok_submits [simp]: "carrier_ok (d\<lparr>read_submits := k\<rparr>) = carrier_ok d"
  by (simp add: carrier_ok_def)

lemma carrier_ok_IntCallback:
  "carrier_ok d \<Longrightarrow> IntCallback d status buf submit = Some d' \<Longrightarrow> carrier_ok d'"
  by (auto simp: IntCallback_def carrier_ok_Set carrier_ok_Clear bind_eq_Some_conv split: if_splits)

lemma carrier_ok_update:
  "carrier_ok d \<Longrightarrow> QMIWDSCallback_update d b n = Some d' \<Longrightarrow> carrier_ok d'"
  by (auto simp: QMIWDSCallback_update_def carrier_ok_Set carrier_ok_Clear bind_eq_Some_conv split: if_splits)

lemma update_keeps_carrier:
  "carrier d \<Longrightarrow> QMIWDSCallback_update d b n = Some d' \<Longrightarrow> carrier d'"
  by (auto simp: QMIWDSCallback_update_def QuecGobiSetDownReason_def QuecGobiClearDownReason_def Let_def
      bind_eq_Some_conv split: if_splits)

section \<open>Properties of the client memory\<close>

text \<open>
  A device with the control client and two WDS clients, the first of which has a thread waiting
  for transaction 5, and a broadcast for the WDS service with that transaction ID.
\<close>

definition example_dev :: dev where
  "example_dev = \<lparr>refcount = 1, qmap_mode = 0, qmap_size = 0, mQmapVersion = 0, link_state = 0,
     qmap_settings = \<lparr>qmap_enabled = 0, dl_data_aggregation_max_datagrams = 0, dl_data_aggregation_max_size = 0,
       ul_data_aggregation_max_datagrams = 0, ul_data_aggregation_max_size = 0, dl_minimum_padding = 0\<rparr>,
     agg_ctx = \<lparr>ctx_ul_data_aggregation_max_size = 0, ctx_ul_data_aggregation_max_datagrams = 1, ctx_dl_minimum_padding = 0\<rparr>,
     mbRawIPMode = False, m_qcrmcall_mode = 0, mbMdm9x07 = False, mbQMIReady = True, mbQMISyncIng = False,
     mDownReason = 0, mbQMIValid = True, mbDeregisterQMIDevice = False, mMEID = replicate 14 0,
     mbCdevIsInitialized = True,
     mpReadURB = True, mpReadSetupPacket = True, mpReadBuffer = True, mpIntURB = True, mpIntBuffer = True,
     mpClientMemList =
       [\<lparr>cm_addr = 0, mClientID = 0, mpList = [], mpReadNotifyList = [], mpURBList = [], mWaitQueue = 0\<rparr>,
        \<lparr>cm_addr = 1, mClientID = 0x0101, mpList = [], mpReadNotifyList =
           [\<lparr>nt_mpNotifyFunct = Some UpSem, nt_mTransactionID = 5, nt_mpData = 3\<rparr>], mpURBList = [], mWaitQueue = 0\<rparr>,
        \<lparr>cm_addr = 2, mClientID = 0x0201, mpList = [\<lparr>rd_mpData = replicate 9 0 @ qmi_msg 0x22 [(1, [2, 0])],
           rd_mTransactionID = 0, rd_mDataSize = 18\<rparr>], mpReadNotifyList = [], mpURBList = [], mWaitQueue = 0\<rparr>],
     mClientMemLock = False, mQMICTLTransactionID = 0, carrier = True, udev_state = True,
     endpoints = [(0x83, 3)], sems = [3 \<mapsto> \<lparr>readSem = 0, sem_magic = QUEC_SEM_MAGIC\<rparr>], wire = [],
     int_submits = 1, read_submits = 1, mallocs = [], writes = [], waits = [], next_addr = 4\<rparr>"

definition example_msg :: "u8 list" where
  "example_msg = [1, 12, 0, 0x80, 1, 0xff, 4, 5, 0, 0x22, 0, 0, 0]"

lemma example_dev_idle: "idle example_dev"
  by (simp add: example_dev_def idle_def IsDeviceValid_def dev_ok_def)

lemma example_msg_parse: "ParseQMUX 0 (Ptr example_msg) (of_nat 13) = Some (6, 0xff01)"
  by code_simp

lemma example_live: "\<forall>c \<in> set (mpClientMemList example_dev). live_waiters (sems example_dev) c"
  by (simp add: example_dev_def live_waiters_def)

lemma example_mallocs: "mallocs example_dev = []"
  by (simp add: example_dev_def)

lemma example_fields:
  "IsDeviceValid (Some example_dev)" "mpIntURB example_dev" "int_submits example_dev = 1" "read_submits example_dev = 1"
  by (simp_all add: example_dev_def IsDeviceValid_def)

text \<open>
  The same device as a registered one has it: its second WDS client has the permanent waiter of the
  driver, the WDS callback.
\<close>

definition armed_dev :: dev where
  "armed_dev = example_dev\<lparr>mpClientMemList := (mpClientMemList example_dev)[2 := (mpClientMemList example_dev ! 2)
     \<lparr>mpReadNotifyList := [\<lparr>nt_mpNotifyFunct = Some QMIWDSCallback, nt_mTransactionID = 0, nt_mpData = 0\<rparr>]\<rparr>]\<rparr>"

lemma armed_dev_idle: "idle armed_dev" "mallocs armed_dev = []"
  by (simp_all add: armed_dev_def example_dev_def idle_def IsDeviceValid_def dev_ok_def)

lemma example_readable:
  "wds_readable \<lparr>rd_mpData = example_msg, rd_mTransactionID = 5, rd_mDataSize = 13\<rparr>"
  "wds_readable \<lparr>rd_mpData = replicate 9 0 @ qmi_msg 0x22 [(1, [2, 0])], rd_mTransactionID = 0, rd_mDataSize = 18\<rparr>"
proof -
  have "length (take 9 example_msg) = 9 \<and> example_msg = take 9 example_msg @ qmi_msg 0x22 [] \<and> length example_msg = 13"
    by (simp add: example_msg_def qmi_msg_def le16_def)
  then show "wds_readable \<lparr>rd_mpData = example_msg, rd_mTransactionID = 5, rd_mDataSize = 13\<rparr>"
    unfolding status_indication_def by (intro status_indication_readable [unfolded status_indication_def]
        exI [of _ "take 9 example_msg"] exI [of _ "[]"]) simp
  show "wds_readable \<lparr>rd_mpData = replicate 9 0 @ qmi_msg 0x22 [(1, [2, 0])], rd_mTransactionID = 0, rd_mDataSize = 18\<rparr>"
    by (intro status_indication_readable)
      (auto simp: status_indication_def intro!: exI [of _ "replicate 9 0"] exI [of _ "[(1, [2, 0])]"])
qed

lemma example_servable:
  "\<forall>c \<in> set (mpClientMemList d). addressed 0xff01 c \<longrightarrow> servable (sems d)
     (c\<lparr>mpList := mpList c @ [\<lparr>rd_mpData = take 13 example_msg, rd_mTransactionID = 5, rd_mDataSize = of_nat 13\<rparr>]\<rparr>)"
  if "d = example_dev \<or> d = armed_dev"
proof -
  have "take 13 example_msg = example_msg" by (simp add: example_msg_def)
  then show ?thesis
    using that example_readable by (auto simp: example_dev_def armed_dev_def servable_def)
qed

text \<open>
  C4. Delivery of a received message, with memory available: each client the message is addressed
  to, the one with its client ID or, for a broadcast, every client of the service, has it appended to
  its queue and its first matching waiter removed. A thread that waits on its semaphore is woken; the
  WDS callback, the permanent waiter of a registered device, reads the whole queue and is the last
  waiter again. No other client changes and the interrupt URB is resubmitted. The semaphores of the
  waiters are live and the callback's messages are ones its parser returns on.
\<close>

theorem read_callback_delivers:
  assumes "idle d" and "mallocs d = []" and "\<forall>c \<in> set (mpClientMemList d). addressed cid c \<longrightarrow> servable (sems d) (c\<lparr>mpList := mpList c @ [m]\<rparr>)"
    and "n \<le> length b" and "n < 65536" and "ParseQMUX 0 (Ptr b) (of_nat n) = Some (6, cid)"
    and "9 \<le> n" and t: "t = (if cid = 0 then ucast (b ! 7) else of_le16 (b ! 7) (b ! 8))"
    and m: "m = \<lparr>rd_mpData = take n b, rd_mTransactionID = t, rd_mDataSize = of_nat n\<rparr>"
  shows "\<exists>d'. ReadCallback d 0 b n = Some d' \<and>
           mpClientMemList d' = map (\<lambda>c. if addressed cid c then receive m c else c) (mpClientMemList d) \<and>
           sems d' = fold raise (concat (map (woken t) (filter (addressed cid) (mpClientMemList d)))) (sems d) \<and>
           int_submits d' = int_submits d + (if mpIntURB d then 1 else 0)"
  using assms by (rule ReadCallback_delivery)

theorem read_callback_delivers_witness:
  "\<exists>d'. ReadCallback armed_dev 0 example_msg 13 = Some d' \<and>
     map (\<lambda>c. (length (mpList c), length (mpReadNotifyList c))) (mpClientMemList d') = [(0, 0), (1, 0), (0, 1)] \<and>
     map_option readSem (sems d' 3) = Some 1"
proof -
  let ?m = "\<lparr>rd_mpData = take 13 example_msg, rd_mTransactionID = 5, rd_mDataSize = of_nat 13\<rparr>"
  have "13 \<le> length example_msg" "5 = (if (0xff01 :: u16) = 0 then ucast (example_msg ! 7)
      else of_le16 (example_msg ! 7) (example_msg ! 8))" by (simp_all add: example_msg_def of_le16_def)
  with read_callback_delivers [OF armed_dev_idle example_servable [of armed_dev] _ _ example_msg_parse _ _ refl]
  obtain d' where d': "ReadCallback armed_dev 0 example_msg 13 = Some d'"
    "mpClientMemList d' = map (\<lambda>c. if addressed 0xff01 c then receive ?m c else c) (mpClientMemList armed_dev)"
    "sems d' = fold raise (concat (map (woken 5) (filter (addressed 0xff01) (mpClientMemList armed_dev)))) (sems armed_dev)"
    by auto
  note ex = armed_dev_def example_dev_def addressed_def first_waiter_def
  have "map (\<lambda>c. (length (mpList c), length (mpReadNotifyList c))) (mpClientMemList d') = [(0, 0), (1, 0), (0, 1)]"
    unfolding d'(2) by (simp add: ex receive_def notified_def)
  moreover have "concat (map (woken 5) (filter (addressed 0xff01) (mpClientMemList armed_dev))) = [3]"
    by (simp add: ex woken_def)
  moreover have "sems armed_dev = [3 \<mapsto> \<lparr>readSem = 0, sem_magic = QUEC_SEM_MAGIC\<rparr>]"
    by (simp add: armed_dev_def example_dev_def)
  ultimately have "map (\<lambda>c. (length (mpList c), length (mpReadNotifyList c))) (mpClientMemList d') = [(0, 0), (1, 0), (0, 1)]
      \<and> map_option readSem (sems d' 3) = Some 1" using d'(3) by (simp add: raise_def)
  then show ?thesis using d'(1) by (intro exI [of _ d']) simp
qed

text \<open>
  C5. Whatever arrives and whatever runs out or wakes up meanwhile, when \<open>ReadCallback\<close> returns the
  lock is free again, the client list is the same list of distinct clients and the interrupt URB
  has been resubmitted exactly once, so that reading goes on.
\<close>

theorem read_callback_keeps_device:
  assumes "idle d" and "ReadCallback d status b n = Some d'"
  shows "idle d' \<and> map mClientID (mpClientMemList d') = map mClientID (mpClientMemList d)
    \<and> int_submits d' = int_submits d + (if mpIntURB d then 1 else 0)"
  using assms by (rule ReadCallback_frame)

theorem read_callback_keeps_device_witness:
  "\<exists>d'. ReadCallback example_dev 0 example_msg 13 = Some d' \<and> idle d' \<and> int_submits d' = 2"
proof -
  obtain d' where d': "ReadCallback example_dev 0 example_msg 13 = Some d'"
    using ReadCallback_delivery [of example_dev "0xff01" _ 13 example_msg 5, OF example_dev_idle example_mallocs
        example_servable [of example_dev] _ _ example_msg_parse _ _ refl] by (force simp: example_msg_def of_le16_def)
  with read_callback_keeps_device [OF example_dev_idle d'] show ?thesis by (auto simp: example_dev_def)
qed

text \<open>
  The WDS callback and its re-arming read drain a queue of status indications completely,
  end, and leave exactly one new waiter, the callback itself, for the next indication.
\<close>

theorem wds_callback_drains:
  assumes "idle d" and "client_of d cid = Some c" and "mpList c \<noteq> []" and "mallocs d = []"
    and "\<forall>m \<in> set (mpList c). wds_readable m"
  shows "\<exists>d'. run_QMIWDSCallback d cid p = Some d' \<and> client_of d' = (client_of d)(cid \<mapsto> c\<lparr>mpList := [],
           mpReadNotifyList := mpReadNotifyList c @
             [\<lparr>nt_mpNotifyFunct = Some QMIWDSCallback, nt_mTransactionID = 0, nt_mpData = p\<rparr>]\<rparr>)"
  using wds_drains [OF assms] by blast

theorem wds_callback_drains_witness:
  "\<exists>d'. run_QMIWDSCallback example_dev 0x0201 0 = Some d' \<and> map_option mpList (client_of d' 0x0201) = Some []"
proof -
  let ?c = "mpClientMemList example_dev ! 2"
  have c: "client_of example_dev 0x0201 = Some ?c" by (simp add: example_dev_def client_of_def)
  have s: "\<forall>m \<in> set (mpList ?c). wds_readable m" using example_readable(2) by (simp add: example_dev_def)
  have "mpList ?c \<noteq> []" by (simp add: example_dev_def)
  from wds_callback_drains [OF example_dev_idle c this example_mallocs s, of 0] show ?thesis by auto
qed

text \<open>
  The read queue of a client is first in, first out: messages added after those already there
  are popped after them, in order, byte for byte, and the other clients do not change.
\<close>

theorem read_queue_fifo:
  assumes "ready d" and "client_of d cid = Some c" and "mallocs d = []"
  shows "\<exists>d1 d2. add_all (\<lambda>d cid r. AddToReadMemList d cid (rd_mTransactionID r) (rd_mpData r) (rd_mDataSize r)) d cid rs
             = Some d1 \<and>
           drain (\<lambda>d cid. PopFromReadMemList d cid 0) (length (mpList c) + length rs) d1 cid
             = Some (map (\<lambda>r. (rd_mpData r, rd_mDataSize r)) (mpList c @ rs), d2) \<and>
           (\<forall>cid'. cid' \<noteq> cid \<longrightarrow> client_of d2 cid' = client_of d cid')"
  using assms by (rule read_q.fifo)

theorem read_queue_fifo_witness:
  "\<exists>d1 d2. add_all (\<lambda>d cid r. AddToReadMemList d cid (rd_mTransactionID r) (rd_mpData r) (rd_mDataSize r))
       (example_dev\<lparr>mClientMemLock := True\<rparr>) 0 [\<lparr>rd_mpData = [7], rd_mTransactionID = 1, rd_mDataSize = 1\<rparr>,
          \<lparr>rd_mpData = [8], rd_mTransactionID = 2, rd_mDataSize = 1\<rparr>] = Some d1 \<and>
     drain (\<lambda>d cid. PopFromReadMemList d cid 0) 2 d1 0 = Some ([([7], 1), ([8], 1)], d2)"
  using read_queue_fifo [of "example_dev\<lparr>mClientMemLock := True\<rparr>" 0 "mpClientMemList example_dev ! 0"
      "[\<lparr>rd_mpData = [7], rd_mTransactionID = 1, rd_mDataSize = 1\<rparr>, \<lparr>rd_mpData = [8], rd_mTransactionID = 2, rd_mDataSize = 1\<rparr>]"]
    idle_lock(2) [OF example_dev_idle]
  by (auto simp: example_dev_def client_of_def numeral_2_eq_2)

text \<open>
  An interrupt that completes normally on a valid device is followed by exactly one URB
  submission, of the read or the interrupt URB; after an error, \<open>-EOVERFLOW\<close> included, nothing is
  submitted and reading stops, although the comment there says that overflows are ignored.
\<close>

theorem int_callback_submits:
  assumes "IsDeviceValid (Some d)" and "mpIntURB d" and "16 \<le> length buf"
  shows "\<exists>d'. IntCallback d status buf submit = Some d' \<and>
           int_submits d' + read_submits d' = int_submits d + read_submits d + (if status = 0 then 1 else 0)"
  using assms
  by (auto simp: IntCallback_def rd8_def rd32_def ResubmitIntURB_def QuecGobiSetDownReason_def
      QuecGobiClearDownReason_def Let_def)

theorem int_callback_submits_witness:
  "\<exists>d'. IntCallback example_dev (- EOVERFLOW) (replicate 16 1) 0 = Some d' \<and> int_submits d' + read_submits d' = 2"
  using int_callback_submits [of example_dev "replicate 16 1" "- EOVERFLOW" 0] by (simp add: example_fields numeral_2_eq_2)

text \<open>
  The carrier is on only while no down reason is set: interrupts, setting and clearing reasons
  and packet service status indications keep that. A status indication never turns the carrier
  off, whatever it reports: the reason "no NDIS connection" is never recorded.
\<close>

theorem carrier_follows_reasons:
  assumes "carrier_ok d"
  shows "carrier_ok (QuecGobiSetDownReason d r) \<and> carrier_ok (QuecGobiClearDownReason d r) \<and>
    (\<forall>d'. IntCallback d status buf submit = Some d' \<longrightarrow> carrier_ok d') \<and>
    (\<forall>d'. QMIWDSCallback_update d b n = Some d' \<longrightarrow> carrier_ok d' \<and> (carrier d \<longrightarrow> carrier d'))"
  using assms carrier_ok_Set carrier_ok_Clear carrier_ok_IntCallback carrier_ok_update update_keeps_carrier by blast

theorem carrier_follows_reasons_witness:
  "carrier_ok (QuecGobiSetDownReason example_dev CDC_CONNECTION_SPEED)"
  using carrier_follows_reasons [of example_dev CDC_CONNECTION_SPEED] by (simp add: carrier_ok_def example_dev_def)

end
