(* ===== verification/Qmi_Driver.thy ===== *)
theory Qmi_Driver
  imports Qmi_Clients
begin

text \<open>
  The driver level of \<^verbatim>\<open>drivers/quectel-gobinet/src/QMIDevice.c\<close>: transaction IDs, synchronous reads
  and writes, client registration and release, the ready and sync procedures, the character device
  operations and the start and end of reading. Sleeping threads follow the scripts of the device
  (\<open>waits\<close>, \<open>writes\<close>); a sleep nothing ends is \<^term>\<open>None\<close>, like undefined behaviour.
\<close>

section \<open>What happens meanwhile\<close>

definition run_event :: "event \<Rightarrow> dev \<Rightarrow> dev option" where
  "run_event e d =
     (case e of
        ReadDone status buf n \<Rightarrow> ReadCallback d status buf n
      | Unplugged \<Rightarrow> Some (d\<lparr>udev_state := False\<rparr>)
      | Invalidated \<Rightarrow> Some (d\<lparr>mbQMIValid := False\<rparr>))"

fun run_events :: "event list \<Rightarrow> dev \<Rightarrow> dev option" where
  "run_events [] d = Some d"
| "run_events (e # es) d = do { d \<leftarrow> run_event e d; run_events es d }"

section \<open>Transaction IDs\<close>

text \<open>The \<open>while\<close> loops that pop and free messages until none matches.\<close>

partial_function (option) purge :: "dev \<Rightarrow> u16 \<Rightarrow> u16 \<Rightarrow> dev option" where
  "purge d clientID transactionID =
     do {
       (r, d) \<leftarrow> PopFromReadMemList d clientID transactionID;
       case r of None \<Rightarrow> Some d | Some _ \<Rightarrow> purge d clientID transactionID
     }"

definition QMICTL :: u16 where "QMICTL = 0"
definition QMIWDS :: u8 where "QMIWDS = 1"
definition QMIDMS :: u8 where "QMIDMS = 2"
definition QMIWDA :: u8 where "QMIWDA = 0x1A"

definition QMIXactionIDGet :: "dev \<Rightarrow> (u8 \<times> dev) option" where
  "QMIXactionIDGet d =
     (let d = d\<lparr>mQMICTLTransactionID := mQMICTLTransactionID d + 1\<rparr>;
          transactionID = ucast (mQMICTLTransactionID d) :: u8;
          (transactionID, d) =
            (if transactionID = 0
             then let d = d\<lparr>mQMICTLTransactionID := mQMICTLTransactionID d + 1\<rparr>
                  in (ucast (mQMICTLTransactionID d), d)
             else (transactionID, d))
      in if transactionID \<noteq> 0
         then do {
           d \<leftarrow> spin_lock d;
           d \<leftarrow> purge d QMICTL (ucast transactionID);
           d \<leftarrow> spin_unlock d;
           Some (transactionID, d)
         }
         else Some (transactionID, d))"

section \<open>Synchronous reads\<close>

text \<open>
  \<open>down_interruptible\<close>, and 200 ms of \<open>down_timeout\<close> when that was interrupted: 0 with the
  semaphore taken, or \<open>-ETIME\<close>.
\<close>

definition try_down :: "dev \<Rightarrow> nat \<Rightarrow> (bool \<times> dev) option" where
  "try_down d a =
     (case sems d a of
        None \<Rightarrow> None
      | Some s \<Rightarrow>
          if 0 < readSem s then Some (True, d\<lparr>sems := (sems d)(a \<mapsto> s\<lparr>readSem := readSem s - 1\<rparr>)\<rparr>)
          else Some (False, d))"

definition down_wait :: "dev \<Rightarrow> nat \<Rightarrow> (int \<times> dev) option" where
  "down_wait d a =
     (case waits d of
        [] \<Rightarrow> None
      | (before, after) # ws \<Rightarrow> do {
          d \<leftarrow> run_events before (d\<lparr>waits := ws\<rparr>);
          (ok, d) \<leftarrow> try_down d a;
          if ok then Some (0, d)
          else do {
            d \<leftarrow> run_events after d;
            (ok, d) \<leftarrow> try_down d a;
            Some (if ok then 0 else - ETIME, d)
          }
        })"

text \<open>
  The loop of \<open>ReadSync\<close>, entered with the lock held; \<open>a\<close> is the client entry found before,
  \<open>readSem\<close> the address of the semaphore on the stack.
\<close>

partial_function (option) ReadSync_loop ::
  "dev \<Rightarrow> u16 \<Rightarrow> u16 \<Rightarrow> nat \<Rightarrow> nat \<Rightarrow> ((int \<times> u8 list option) \<times> dev) option" where
  "ReadSync_loop d clientID transactionID a sem =
     do {
       (r, d) \<leftarrow> PopFromReadMemList d clientID transactionID;
       case r of
         Some (pData, dataSize) \<Rightarrow> do {
           d \<leftarrow> spin_unlock d;
           Some ((int (unat dataSize), Some pData), d)
         }
       | None \<Rightarrow>
           let d = d\<lparr>sems := (sems d)(sem \<mapsto> \<lparr>readSem = 0, sem_magic = QUEC_SEM_MAGIC\<rparr>)\<rparr> in do {
             (ok, d) \<leftarrow> AddToNotifyList d clientID transactionID (Some UpSem) sem;
             d \<leftarrow> spin_unlock d;
             if \<not> ok then Some ((- EFAULT, None), d)
             else do {
               (result, d) \<leftarrow> down_wait d sem;
               if result \<noteq> 0
               then do {
                 d \<leftarrow> spin_lock d;
                 c \<leftarrow> deref_client d a;
                 let d = (case unlink_first (\<lambda>n. nt_mpData n = sem) (mpReadNotifyList c) of
                            None \<Rightarrow> d
                          | Some (_, ns) \<Rightarrow> upd_client d a (\<lambda>c. c\<lparr>mpReadNotifyList := ns\<rparr>));
                 d \<leftarrow> spin_unlock d;
                 Some ((- EINTR, None), d)
               }
               else if \<not> IsDeviceValid (Some d) then Some ((- ENXIO, None), d)
               else do {
                 d \<leftarrow> spin_lock d;
                 ReadSync_loop d clientID transactionID a sem
               }
             }
           }
     }"

text \<open>\<open>ReadSync\<close>: the semaphore's stack slot exists until the function returns.\<close>

definition ReadSync :: "dev \<Rightarrow> u16 \<Rightarrow> u16 \<Rightarrow> ((int \<times> u8 list option) \<times> dev) option" where
  "ReadSync d clientID transactionID =
     (if \<not> IsDeviceValid (Some d) then Some ((- ENXIO, None), d)
      else do {
        d \<leftarrow> spin_lock d;
        pClientMem \<leftarrow> FindClientMem d clientID;
        case pClientMem of
          None \<Rightarrow> do { d \<leftarrow> spin_unlock d; Some ((- ENXIO, None), d) }
        | Some a \<Rightarrow>
            let sem = next_addr d; d = d\<lparr>next_addr := Suc sem\<rparr> in do {
              (r, d) \<leftarrow> ReadSync_loop d clientID transactionID a sem;
              Some (r, d\<lparr>sems := (sems d)(sem := None)\<rparr>)
            }
      })"

section \<open>Start and end of reading\<close>

definition USB_DIR_IN :: u8 where "USB_DIR_IN = 0x80"
definition USB_ENDPOINT_XFER_INT :: u8 where "USB_ENDPOINT_XFER_INT = 3"

definition GetEndpoint :: "(u8 \<times> u8) list \<Rightarrow> u8 \<Rightarrow> u8 \<Rightarrow> (u8 \<times> u8) option" where
  "GetEndpoint eps type dir =
     find (\<lambda>(bEndpointAddress, bmAttributes). bEndpointAddress AND 0x80 = dir \<and> bmAttributes AND 3 = type) eps"

text \<open>\<open>StartRead\<close>, given the result of submitting the interrupt URB.\<close>

definition QuecStartRead :: "dev \<Rightarrow> int \<Rightarrow> int \<times> dev" where
  "QuecStartRead d submit =
     (if \<not> IsDeviceValid (Some d) then (- ENXIO, d)
      else case kmalloc d of
        (None, d) \<Rightarrow> (- ENOMEM, d\<lparr>mpReadURB := False\<rparr>)
      | (Some _, d) \<Rightarrow> (case kmalloc (d\<lparr>mpReadURB := True\<rparr>) of
        (None, d) \<Rightarrow> (- ENOMEM, d\<lparr>mpReadURB := False, mpIntURB := False\<rparr>)
      | (Some _, d) \<Rightarrow> (case kmalloc (d\<lparr>mpIntURB := True\<rparr>) of
        (None, d) \<Rightarrow> (- ENOMEM, d\<lparr>mpReadBuffer := False, mpIntURB := False, mpReadURB := False\<rparr>)
      | (Some _, d) \<Rightarrow> (case kmalloc (d\<lparr>mpReadBuffer := True\<rparr>) of
        (None, d) \<Rightarrow> (- ENOMEM, d\<lparr>mpIntBuffer := False, mpReadBuffer := False, mpIntURB := False, mpReadURB := False\<rparr>)
      | (Some _, d) \<Rightarrow> (case kmalloc (d\<lparr>mpIntBuffer := True\<rparr>) of
        (None, d) \<Rightarrow> (- ENOMEM, d\<lparr>mpReadSetupPacket := False, mpIntBuffer := False, mpReadBuffer := False,
                                 mpIntURB := False, mpReadURB := False\<rparr>)
      | (Some _, d) \<Rightarrow> (case GetEndpoint (endpoints d) USB_ENDPOINT_XFER_INT USB_DIR_IN of
        None \<Rightarrow> (- ENXIO, d\<lparr>mpReadSetupPacket := False, mpIntBuffer := False, mpReadBuffer := False,
                             mpIntURB := False, mpReadURB := False\<rparr>)
      | Some _ \<Rightarrow> (submit, (if submit = 0 then d\<lparr>mpReadSetupPacket := True, int_submits := int_submits d + 1\<rparr>
                           else d\<lparr>mpReadSetupPacket := True\<rparr>))))))))"

definition QuecKillRead :: "dev \<Rightarrow> dev" where
  "QuecKillRead d = d\<lparr>mpReadSetupPacket := False, mpReadBuffer := False, mpIntBuffer := False,
                      mpReadURB := False, mpIntURB := False\<rparr>"

text \<open>
  \<open>GobiNetSuspend\<close> of \<^verbatim>\<open>GobiUSBNet.c\<close>: \<open>auto\<close> and \<open>suspend\<close> are the bits of the power event.
\<close>

definition GobiNetSuspend :: "dev \<Rightarrow> bool \<Rightarrow> bool \<Rightarrow> int \<Rightarrow> int \<times> dev" where
  "GobiNetSuspend d autosuspend suspend usbnet_suspend =
     (if mbQMISyncIng d then (- EBUSY, d)
      else let d = (if autosuspend then d else QuecGobiSetDownReason d DRIVER_SUSPENDED);
               d = (if suspend \<and> m_qcrmcall_mode d = 0 then QuecKillRead d else d)
           in (usbnet_suspend, d))"

section \<open>Synchronous writes\<close>

definition write_ok :: write_env where
  "write_ok = \<lparr>autopm_result = 0, submit_result = 0, write_events = [], down_result = 0, urb_status = 0\<rparr>"

definition next_write :: "dev \<Rightarrow> write_env \<times> dev" where
  "next_write d = (case writes d of [] \<Rightarrow> (write_ok, d) | w # ws \<Rightarrow> (w, d\<lparr>writes := ws\<rparr>))"

text \<open>
  The second part of \<open>WriteSync\<close>, from the submission of the URB on, with the URB in the client's
  list and the lock free.
\<close>

definition WriteSync_submit :: "dev \<Rightarrow> write_env \<Rightarrow> nat \<Rightarrow> u8 list \<Rightarrow> int \<Rightarrow> u16 \<Rightarrow> (int \<times> dev) option" where
  "WriteSync_submit d w pWriteURB data writeBufferSize clientID =
     (if submit_result w < 0
      then do {
        d \<leftarrow> spin_lock d;
        (popped, d) \<leftarrow> PopFromURBList d clientID;
        d \<leftarrow> spin_unlock d;
        Some (submit_result w, d)
      }
      else do {
        let d = d\<lparr>wire := wire d @ [data]\<rparr>;
        d \<leftarrow> spin_lock d;
        d \<leftarrow> spin_unlock d;
        d \<leftarrow> run_events (write_events w) d;
        if \<not> IsDeviceValid (Some d) then Some (- ENXIO, d)
        else do {
          d \<leftarrow> spin_lock d;
          (popped, d) \<leftarrow> PopFromURBList d clientID;
          d \<leftarrow> spin_unlock d;
          if popped \<noteq> Some pWriteURB then Some (- EINVAL, d)
          else if down_result w = 0
          then if urb_status w = 0 then Some (writeBufferSize, d) else Some (urb_status w, d)
          else Some (down_result w, d)
        }
      })"

definition WriteSync :: "dev \<Rightarrow> u8 list \<Rightarrow> int \<Rightarrow> u16 \<Rightarrow> (int \<times> dev) option" where
  "WriteSync d pWriteBuffer writeBufferSize clientID =
     (if \<not> IsDeviceValid (Some d) then Some (- ENXIO, d)
      else case kmalloc d of
        (None, d) \<Rightarrow> Some (- ENOMEM, d)
      | (Some pWriteURB, d) \<Rightarrow> do {
          (result, buf) \<leftarrow> FillQMUX clientID (Ptr pWriteBuffer) (of_int writeBufferSize);
          if result < 0 then Some (result, d)
          else (case kmalloc d of
            (None, d) \<Rightarrow> None
          | (Some writeSetup, d) \<Rightarrow> do {
              data \<leftarrow> (case buf of Null \<Rightarrow> None | Ptr b \<Rightarrow> rdn b 0 (nat writeBufferSize));
              let (w, d) = next_write d;
              if autopm_result w < 0
              then Some (autopm_result w,
                         if autopm_result w = - EPERM then snd (GobiNetSuspend d False True 0) else d)
              else do {
                d \<leftarrow> spin_lock d;
                (ok, d) \<leftarrow> AddToURBList d clientID pWriteURB;
                d \<leftarrow> spin_unlock d;
                if \<not> ok then Some (- EINVAL, d)
                else WriteSync_submit d w pWriteURB data writeBufferSize clientID
              }
            })
        })"


section \<open>Client registration\<close>

text \<open>
  The exchange of \<open>GetClientID\<close> with the modem: a new client ID of the service or an error. The
  allocated but uninitialised request buffer has unspecified content, here zeros; the request
  fills all of it.
\<close>

definition GetClientID_request :: "dev \<Rightarrow> u8 \<Rightarrow> ((int + u16) \<times> dev) option" where
  "GetClientID_request d serviceType =
     (case kmalloc d of
        (None, d) \<Rightarrow> Some (Inl (- ENOMEM), d)
      | (Some _, d) \<Rightarrow> do {
          (transactionID, d) \<leftarrow> QMIXactionIDGet d;
          (result, buf) \<leftarrow> QMICTLGetClientIDReq (Ptr (replicate (unat QMICTLGetClientIDReqSize) 0))
                              QMICTLGetClientIDReqSize transactionID serviceType;
          if result < 0 then Some (Inl result, d)
          else do {
            (result, d) \<leftarrow> (case buf of Null \<Rightarrow> None
                            | Ptr b \<Rightarrow> WriteSync d b (int (unat QMICTLGetClientIDReqSize)) QMICTL);
            if result < 0 then Some (Inl result, d)
            else do {
              ((result, pReadBuffer), d) \<leftarrow> ReadSync d QMICTL (ucast transactionID);
              if result < 0 then Some (Inl result, d)
              else do {
                rbuf \<leftarrow> pReadBuffer;
                (result, clientID) \<leftarrow> QMICTLGetClientIDResp (Ptr rbuf) (of_int result) 0;
                if result < 0 then Some (Inl result, d) else Some (Inr clientID, d)
              }
            }
          }
        })"

definition new_client :: "nat \<Rightarrow> u16 \<Rightarrow> sClientMemList" where
  "new_client a clientID = \<lparr>cm_addr = a, mClientID = clientID, mpList = [], mpReadNotifyList = [],
                            mpURBList = [], mWaitQueue = 0\<rparr>"

text \<open>The second half of \<open>GetClientID\<close>: the entry of the new client.\<close>

definition GetClientID_register :: "dev \<Rightarrow> u16 \<Rightarrow> (int \<times> dev) option" where
  "GetClientID_register d clientID =
     do {
       d \<leftarrow> spin_lock d;
       pClientMem \<leftarrow> FindClientMem d clientID;
       case pClientMem of
         Some _ \<Rightarrow> do { d \<leftarrow> spin_unlock d; Some (- ETOOMANYREFS, d) }
       | None \<Rightarrow>
           (case kmalloc d of
              (None, d) \<Rightarrow> do { d \<leftarrow> spin_unlock d; Some (- ENOMEM, d) }
            | (Some a, d) \<Rightarrow> do {
                let d = d\<lparr>mpClientMemList := mpClientMemList d @ [new_client a clientID]\<rparr>;
                d \<leftarrow> spin_unlock d;
                Some (int (unat clientID), d)
              })
     }"

definition GetClientID :: "dev \<Rightarrow> u8 \<Rightarrow> (int \<times> dev) option" where
  "GetClientID d serviceType =
     (if \<not> IsDeviceValid (Some d) then Some (- ENXIO, d)
      else do {
        (r, d) \<leftarrow> (if serviceType \<noteq> 0 then GetClientID_request d serviceType else Some (Inr 0, d));
        case r of
          Inl result \<Rightarrow> Some (result, d)
        | Inr clientID \<Rightarrow> GetClientID_register d clientID
      })"

section \<open>Client release\<close>

partial_function (option) notify_all :: "dev \<Rightarrow> u16 \<Rightarrow> dev option" where
  "notify_all d clientID =
     do {
       (more, d) \<leftarrow> NotifyAndPopNotifyList d clientID 0;
       if more then notify_all d clientID else Some d
     }"

partial_function (option) kill_urbs :: "dev \<Rightarrow> u16 \<Rightarrow> dev option" where
  "kill_urbs d clientID =
     do {
       (pDelURB, d) \<leftarrow> PopFromURBList d clientID;
       case pDelURB of
         None \<Rightarrow> Some d
       | Some _ \<Rightarrow> do { d \<leftarrow> spin_unlock d; d \<leftarrow> spin_lock d; kill_urbs d clientID }
     }"

text \<open>The clean-up loop along the client list (the addresses still to visit).\<close>

fun Release_walk :: "nat list \<Rightarrow> dev \<Rightarrow> u16 \<Rightarrow> dev option" where
  "Release_walk [] d clientID = Some d"
| "Release_walk (a # as) d clientID =
     do {
       c \<leftarrow> deref_client d a;
       if mClientID c = clientID
       then do {
         d \<leftarrow> notify_all d clientID;
         d \<leftarrow> kill_urbs d clientID;
         d \<leftarrow> purge d clientID 0;
         Release_walk as (d\<lparr>mpClientMemList := filter (\<lambda>c. cm_addr c \<noteq> a) (mpClientMemList d)\<rparr>) clientID
       }
       else Release_walk as d clientID
     }"

text \<open>The message to the modem; all its errors are ignored.\<close>

definition Release_request :: "dev \<Rightarrow> u16 \<Rightarrow> dev option" where
  "Release_request d clientID =
     (case kmalloc d of
        (None, d) \<Rightarrow> Some d
      | (Some _, d) \<Rightarrow> do {
          (transactionID, d) \<leftarrow> QMIXactionIDGet d;
          (result, buf) \<leftarrow> QMICTLReleaseClientIDReq (Ptr (replicate (unat QMICTLReleaseClientIDReqSize) 0))
                              QMICTLReleaseClientIDReqSize transactionID clientID;
          if result < 0 then Some d
          else do {
            (result, d) \<leftarrow> (case buf of Null \<Rightarrow> None
                            | Ptr b \<Rightarrow> WriteSync d b (int (unat QMICTLReleaseClientIDReqSize)) QMICTL);
            if result < 0 then Some d
            else do {
              ((result, pReadBuffer), d) \<leftarrow> ReadSync d QMICTL (ucast transactionID);
              if result < 0 then Some d
              else do {
                rbuf \<leftarrow> pReadBuffer;
                _ \<leftarrow> QMICTLReleaseClientIDResp (Ptr rbuf) (of_int result);
                Some d
              }
            }
          }
        })"

definition ReleaseClientID :: "dev \<Rightarrow> u16 \<Rightarrow> dev option" where
  "ReleaseClientID d clientID =
     (if \<not> IsDeviceValid (Some d) then Some d
      else do {
        d \<leftarrow> (if clientID \<noteq> QMICTL \<and> udev_state d then Release_request d clientID else Some d);
        d \<leftarrow> spin_lock d;
        d \<leftarrow> Release_walk (map cm_addr (mpClientMemList d)) d clientID;
        spin_unlock d
      })"

section \<open>The character device\<close>

text \<open>
  The per-file storage: the client of the file, if the file is still open. \<open>IOCTL\<close> results that
  go through \<open>copy_to_user\<close> are returned beside the status; the outcome of the copy is a parameter.
\<close>

record sQMIFilpStorage =
  fp_mClientID :: u16

type_synonym filp = "sQMIFilpStorage option"

definition IOCTL_QMI_GET_SERVICE_FILE :: u32 where "IOCTL_QMI_GET_SERVICE_FILE = 0x8BE0 + 1"
definition IOCTL_QMI_GET_DEVICE_VIDPID :: u32 where "IOCTL_QMI_GET_DEVICE_VIDPID = 0x8BE0 + 2"
definition IOCTL_QMI_GET_DEVICE_MEID :: u32 where "IOCTL_QMI_GET_DEVICE_MEID = 0x8BE0 + 3"

text \<open>\<open>UserspaceOpen\<close>: \<open>ready\<close> is whether the wait for the ready completion succeeded.\<close>

definition UserspaceOpen :: "dev \<Rightarrow> bool \<Rightarrow> (int \<times> filp) \<times> dev" where
  "UserspaceOpen d completed =
     (if mbMdm9x07 d \<and> \<not> mbQMIReady d \<and> \<not> completed then ((- ETIMEDOUT, None), d)
      else if \<not> IsDeviceValid (Some d) then ((- ENXIO, None), d)
      else case kmalloc d of
        (None, d) \<Rightarrow> ((- ENOMEM, None), d)
      | (Some _, d) \<Rightarrow> ((0, Some \<lparr>fp_mClientID = - 1\<rparr>), d\<lparr>refcount := refcount d + 1\<rparr>))"

definition UserspaceunlockedIOCTL ::
  "dev \<Rightarrow> filp \<Rightarrow> u32 \<Rightarrow> u64 \<Rightarrow> u16 \<Rightarrow> u16 \<Rightarrow> int \<Rightarrow> ((int \<times> u8 list \<times> filp) \<times> dev) option" where
  "UserspaceunlockedIOCTL d pFilp cmd arg idVendor idProduct copied =
     (case pFilp of
        None \<Rightarrow> Some ((- EBADF, [], pFilp), d)
      | Some fd \<Rightarrow>
          if \<not> IsDeviceValid (Some d) then Some ((- ENXIO, [], pFilp), d)
          else if cmd = IOCTL_QMI_GET_SERVICE_FILE
          then if (ucast arg :: u8) = 0 then Some ((- EINVAL, [], pFilp), d)
               else if fp_mClientID fd \<noteq> - 1 then Some ((- EBADR, [], pFilp), d)
               else do {
                 (result, d) \<leftarrow> GetClientID d (ucast arg);
                 (result, d) \<leftarrow> (if result < 0 \<and> (ucast arg :: u8) = QMIWDA
                                 then do {
                                   d \<leftarrow> ReleaseClientID d (ucast QMIWDA OR push_bit 8 1);
                                   GetClientID d (ucast arg)
                                 }
                                 else Some (result, d));
                 if result < 0 then Some ((result, [], pFilp), d)
                 else Some ((0, [], Some (fd\<lparr>fp_mClientID := of_int result\<rparr>)), d)
               }
          else if cmd = IOCTL_QMI_GET_DEVICE_VIDPID
          then if arg = 0 then Some ((- EINVAL, [], pFilp), d)
               else Some ((copied, le32 (push_bit 16 (ucast idVendor) + ucast idProduct), pFilp), d)
          else if cmd = IOCTL_QMI_GET_DEVICE_MEID
          then if arg = 0 then Some ((- EINVAL, [], pFilp), d)
               else Some ((copied, mMEID d, pFilp), d)
          else Some ((- EBADRQC, [], pFilp), d))"

definition UserspaceClose :: "dev \<Rightarrow> filp \<Rightarrow> ((int \<times> filp) \<times> dev) option" where
  "UserspaceClose d pFilp =
     (case pFilp of
        None \<Rightarrow> Some ((- EBADF, pFilp), d)
      | Some fd \<Rightarrow>
          let d = d\<lparr>refcount := refcount d - 1\<rparr> in
          if \<not> IsDeviceValid (Some d) then Some ((- ENXIO, pFilp), d)
          else do {
            d \<leftarrow> (if fp_mClientID fd \<noteq> - 1
                  then if mbDeregisterQMIDevice d then Some d else ReleaseClientID d (fp_mClientID fd)
                  else Some d);
            Some ((0, None), d)
          })"

text \<open>\<open>UserspaceRead\<close>: the bytes stored in the user's buffer, if any.\<close>

definition UserspaceRead :: "dev \<Rightarrow> filp \<Rightarrow> nat \<Rightarrow> bool \<Rightarrow> ((int \<times> u8 list) \<times> dev) option" where
  "UserspaceRead d pFilp len copy_ok =
     (case pFilp of
        None \<Rightarrow> Some ((- EBADF, []), d)
      | Some fd \<Rightarrow>
          if \<not> IsDeviceValid (Some d) then Some ((- ENXIO, []), d)
          else if fp_mClientID fd = - 1 then Some ((- EBADR, []), d)
          else do {
            ((result, pReadData), d) \<leftarrow> ReadSync d (fp_mClientID fd) 0;
            if result \<le> 0 then Some ((result, []), d)
            else do {
              b \<leftarrow> pReadData;
              let result = result - int (unat QMUXHeaderSize);
              if (if result < 0 then result + 2 ^ 64 else result) > int len then Some ((- EOVERFLOW, []), d)
              else do {
                small \<leftarrow> rdn b (unat QMUXHeaderSize) (nat result);
                if copy_ok then Some ((result, small), d) else Some ((- EFAULT, []), d)
              }
            }
          })"

text \<open>
  \<open>UserspaceWrite\<close> of the user's bytes; \<open>not_copied\<close> is what \<open>copy_from_user\<close> could not copy. The
  size is below 2 GiB, where the kernel cuts every write off, so that \<open>int\<close> holds it.
\<close>

definition UserspaceWrite :: "dev \<Rightarrow> filp \<Rightarrow> u8 list \<Rightarrow> int \<Rightarrow> (int \<times> dev) option" where
  "UserspaceWrite d pFilp pBuf not_copied =
     (case pFilp of
        None \<Rightarrow> Some (- EBADF, d)
      | Some fd \<Rightarrow>
          if \<not> IsDeviceValid (Some d) then Some (- ENXIO, d)
          else if fp_mClientID fd = - 1 then Some (- EBADR, d)
          else (case kmalloc d of
            (None, d) \<Rightarrow> Some (- ENOMEM, d)
          | (Some _, d) \<Rightarrow>
              if not_copied \<noteq> 0 then Some (not_copied, d)
              else let n = int (length pBuf) + int (unat QMUXHeaderSize) in do {
                (status, d) \<leftarrow> WriteSync d (replicate (unat QMUXHeaderSize) 0 @ pBuf) n (fp_mClientID fd);
                Some (if status = n then int (length pBuf) else status, d)
              }))"

definition POLLIN :: nat where "POLLIN = 0x0001"
definition POLLOUT :: nat where "POLLOUT = 0x0004"
definition POLLERR :: nat where "POLLERR = 0x0008"
definition POLLHUP :: nat where "POLLHUP = 0x0010"
definition POLLRDNORM :: nat where "POLLRDNORM = 0x0040"
definition POLLWRNORM :: nat where "POLLWRNORM = 0x0100"

definition UserspacePoll :: "dev \<Rightarrow> filp \<Rightarrow> (nat \<times> dev) option" where
  "UserspacePoll d pFilp =
     (case pFilp of
        None \<Rightarrow> Some (POLLERR, d)
      | Some fd \<Rightarrow>
          if \<not> IsDeviceValid (Some d) then Some (POLLERR, d)
          else if mbDeregisterQMIDevice d then Some (POLLHUP OR POLLERR, d)
          else if fp_mClientID fd = - 1 then Some (POLLERR, d)
          else do {
            d \<leftarrow> spin_lock d;
            pClientMem \<leftarrow> FindClientMem d (fp_mClientID fd);
            case pClientMem of
              None \<Rightarrow> do { d \<leftarrow> spin_unlock d; Some (POLLERR, d) }
            | Some a \<Rightarrow> do {
                c \<leftarrow> deref_client d a;
                let status = POLLOUT OR POLLWRNORM;
                let status = (if mpList c \<noteq> [] then status OR (POLLIN OR POLLRDNORM) else status);
                d \<leftarrow> spin_unlock d;
                Some (status OR POLLOUT OR POLLWRNORM, d)
              }
          })"


section \<open>Procedures\<close>

definition QMICTLSyncProc :: "dev \<Rightarrow> (int \<times> dev) option" where
  "QMICTLSyncProc d =
     (if \<not> IsDeviceValid (Some d) then Some (- EFAULT, d)
      else case kmalloc d of
        (None, d) \<Rightarrow> Some (- ENOMEM, d)
      | (Some _, d) \<Rightarrow> do {
          (transactionID, d) \<leftarrow> QMIXactionIDGet d;
          (result, buf) \<leftarrow> QMICTLSyncReq (Ptr (replicate (unat QMICTLSyncReqSize) 0))
                              QMICTLSyncReqSize (ucast transactionID);
          if result < 0 then Some (result, d)
          else do {
            (result, d) \<leftarrow> (case buf of Null \<Rightarrow> None
                            | Ptr b \<Rightarrow> WriteSync d b (int (unat QMICTLSyncReqSize)) QMICTL);
            if result < 0 then Some (result, d)
            else do {
              ((result, pReadBuffer), d) \<leftarrow> ReadSync d QMICTL (ucast transactionID);
              if result < 0 then Some (result, d)
              else do {
                rbuf \<leftarrow> pReadBuffer;
                result \<leftarrow> QMICTLSyncResp (Ptr rbuf) (of_int result);
                if result < 0 then Some (result, d)
                else do {
                  d \<leftarrow> spin_lock d;
                  d \<leftarrow> purge d QMICTL 0;
                  d \<leftarrow> spin_unlock d;
                  Some (0, d)
                }
              }
            }
          }
        })"

text \<open>\<open>down_timeout\<close> on the semaphore of \<open>QMIReady\<close>: without an entry in the script, time just passes.\<close>

definition down_timeout :: "dev \<Rightarrow> nat \<Rightarrow> (bool \<times> dev) option" where
  "down_timeout d a =
     (case waits d of
        [] \<Rightarrow> try_down d a
      | (before, _) # ws \<Rightarrow> do { d \<leftarrow> run_events before (d\<lparr>waits := ws\<rparr>); try_down d a })"

text \<open>One round of \<open>QMIReady\<close>: \<open>None\<close> to go on, or the result.\<close>

definition QMIReady_round :: "dev \<Rightarrow> (bool option \<times> dev) option" where
  "QMIReady_round d =
     (case kmalloc d of
        (None, d) \<Rightarrow> None
      | (Some rsem, d) \<Rightarrow> do {
          let d = d\<lparr>sems := (sems d)(rsem \<mapsto> \<lparr>readSem = 0, sem_magic = QUEC_SEM_MAGIC\<rparr>)\<rparr>;
          (transactionID, d) \<leftarrow> QMIXactionIDGet d;
          (result, d) \<leftarrow> ReadAsync d QMICTL (ucast transactionID) UpSem rsem;
          if result \<noteq> 0 then Some (Some False, d)
          else do {
            (result, buf) \<leftarrow> QMICTLReadyReq (Ptr (replicate (unat QMICTLReadyReqSize) 0))
                                QMICTLReadyReqSize transactionID;
            if result < 0 then Some (Some False, d)
            else do {
              (result, d) \<leftarrow> (case buf of Null \<Rightarrow> None
                              | Ptr b \<Rightarrow> WriteSync d b (int (unat QMICTLReadyReqSize)) QMICTL);
              if result < 0 then Some (Some False, d)
              else do {
                (ok, d) \<leftarrow> down_timeout d rsem;
                if ok
                then do {
                  d \<leftarrow> spin_lock (d\<lparr>sems := (sems d)(rsem := None)\<rparr>);
                  (r, d) \<leftarrow> PopFromReadMemList d QMICTL (ucast transactionID);
                  d \<leftarrow> spin_unlock d;
                  case r of
                    Some _ \<Rightarrow> Some (Some True, d)
                  | None \<Rightarrow> Some (if mbDeregisterQMIDevice d then Some False else None, d)
                }
                else do {
                  s \<leftarrow> sems d rsem;
                  d \<leftarrow> spin_lock (d\<lparr>sems := (sems d)(rsem \<mapsto> s\<lparr>sem_magic := 0\<rparr>)\<rparr>);
                  (_, d) \<leftarrow> NotifyAndPopNotifyList d QMICTL (ucast transactionID);
                  d \<leftarrow> spin_unlock d;
                  Some (if mbDeregisterQMIDevice d then Some False else None, d)
                }
              }
            }
          }
        })"

partial_function (option) QMIReady_loop :: "dev \<Rightarrow> u16 \<Rightarrow> u16 \<Rightarrow> (bool \<times> dev) option" where
  "QMIReady_loop d curTime timeout =
     (if curTime < timeout
      then do {
        (r, d) \<leftarrow> QMIReady_round d;
        case r of
          Some b \<Rightarrow> Some (b, d)
        | None \<Rightarrow> QMIReady_loop d (curTime + 2000) timeout
      }
      else Some (False, d))"

definition QMIReady :: "dev \<Rightarrow> u16 \<Rightarrow> (bool \<times> dev) option" where
  "QMIReady d timeout =
     (if \<not> IsDeviceValid (Some d) then Some (False, d)
      else case kmalloc d of
        (None, d) \<Rightarrow> Some (False, d)
      | (Some _, d) \<Rightarrow> QMIReady_loop d 0 timeout)"

text \<open>Allocating, building and writing a request of a service client.\<close>

definition send_request :: "dev \<Rightarrow> u16 \<Rightarrow> (cptr \<Rightarrow> (int \<times> cptr) option) \<Rightarrow> u16 \<Rightarrow> (int \<times> dev) option" where
  "send_request d bufsize build clientID =
     (case kmalloc d of
        (None, d) \<Rightarrow> Some (- ENOMEM, d)
      | (Some _, d) \<Rightarrow> do {
          (result, buf) \<leftarrow> build (Ptr (replicate (unat bufsize) 0));
          if result < 0 then Some (result, d)
          else (case buf of Null \<Rightarrow> None | Ptr b \<Rightarrow> WriteSync d b (int (unat bufsize)) clientID)
        })"

text \<open>\<open>SetupQMIWDSCallback\<close>, given the result of the final control message.\<close>

definition SetupQMIWDSCallback :: "dev \<Rightarrow> int \<Rightarrow> (int \<times> dev) option" where
  "SetupQMIWDSCallback d control =
     (if \<not> IsDeviceValid (Some d) then Some (- EFAULT, d)
      else do {
        (result, d) \<leftarrow> GetClientID d QMIWDS;
        if result < 0 then Some (result, d)
        else let WDSClientID = of_int result :: u16 in do {
          (result, d) \<leftarrow> send_request d QMIWDSSetEventReportReqSize
                           (\<lambda>p. QMIWDSSetEventReportReq p QMIWDSSetEventReportReqSize 1) WDSClientID;
          if result < 0 then Some (result, d)
          else do {
            (result, d) \<leftarrow> send_request d QMIWDSGetPKGSRVCStatusReqSize
                             (\<lambda>p. QMIWDSGetPKGSRVCStatusReq p QMIWDSGetPKGSRVCStatusReqSize 2) WDSClientID;
            if result < 0 then Some (result, d)
            else do {
              (result, d) \<leftarrow> ReadAsync d WDSClientID 0 QMIWDSCallback 0;
              if result \<noteq> 0 then Some (result, d)
              else if control < 0 then Some (control, d)
              else Some (0, d)
            }
          }
        }
      })"

definition QMIDMSGetMEID :: "dev \<Rightarrow> (int \<times> dev) option" where
  "QMIDMSGetMEID d =
     (if \<not> IsDeviceValid (Some d) then Some (- EFAULT, d)
      else do {
        (result, d) \<leftarrow> GetClientID d QMIDMS;
        if result < 0 then Some (result, d)
        else let DMSClientID = of_int result :: u16 in do {
          (result, d) \<leftarrow> send_request d QMIDMSGetMEIDReqSize
                           (\<lambda>p. QMIDMSGetMEIDReq p QMIDMSGetMEIDReqSize 1) DMSClientID;
          if result < 0 then Some (result, d)
          else do {
            ((result, pReadBuffer), d) \<leftarrow> ReadSync d DMSClientID 1;
            if result < 0 then Some (result, d)
            else do {
              rbuf \<leftarrow> pReadBuffer;
              (result, meid) \<leftarrow> QMIDMSGetMEIDResp (Ptr rbuf) (of_int result) (Ptr (mMEID d)) 14;
              m \<leftarrow> (case meid of Null \<Rightarrow> None | Ptr m \<Rightarrow> Some m);
              let d = d\<lparr>mMEID := (if result < 0 then replicate 14 0x30 else m)\<rparr>;
              d \<leftarrow> ReleaseClientID d DMSClientID;
              Some (0, d)
            }
          }
        }
      })"

text \<open>The aggregation context after a successful negotiation.\<close>

definition update_agg_ctx :: "QMAP_SETTING \<Rightarrow> ul_agg_ctx \<Rightarrow> ul_agg_ctx" where
  "update_agg_ctx s ctx =
     (let ctx = (if ul_data_aggregation_max_datagrams s > 1
                 then \<lparr>ctx_ul_data_aggregation_max_size = ul_data_aggregation_max_size s,
                       ctx_ul_data_aggregation_max_datagrams = ul_data_aggregation_max_datagrams s,
                       ctx_dl_minimum_padding = dl_minimum_padding s\<rparr>
                 else ctx)
      in if ctx_ul_data_aggregation_max_datagrams ctx > 11
         then ctx\<lparr>ctx_ul_data_aggregation_max_datagrams := 11\<rparr> else ctx)"

text \<open>
  \<open>QMIWDASetDataFormat\<close>: \<open>rx_urb_size\<close> says whether the caller wants the receive size, which is
  returned beside the status.
\<close>

definition QMIWDASetDataFormat :: "dev \<Rightarrow> int \<Rightarrow> bool \<Rightarrow> ((int \<times> int option) \<times> dev) option" where
  "QMIWDASetDataFormat d mode rx_urb_size =
     (if \<not> IsDeviceValid (Some d) then Some ((- EFAULT, None), d)
      else do {
        (result, d) \<leftarrow> GetClientID d QMIWDA;
        if result < 0 then Some ((result, None), d)
        else let WDAClientID = of_int result :: u16; bufsize = QMIWDASetDataFormatReqSize mode in do {
          (result, d) \<leftarrow> send_request d bufsize
             (\<lambda>p. QMIWDASetDataFormatReq p bufsize (mbRawIPMode d) (if mode \<noteq> 0 then mQmapVersion d else 0)
                    (31 * 1024) 1) WDAClientID;
          if result < 0 then Some ((result, None), d)
          else do {
            ((result, pReadBuffer), d) \<leftarrow> ReadSync d WDAClientID 1;
            if result < 0 then Some ((result, None), d)
            else do {
              rbuf \<leftarrow> pReadBuffer;
              let zero = \<lparr>qmap_version = 0, rx_size = 0, tx_size = 0\<rparr>;
              (rx, d) \<leftarrow>
                (if mode \<noteq> 0 \<and> rx_urb_size
                 then do {
                   (result, f, pset) \<leftarrow> QMIWDASetDataFormatResp (Ptr rbuf) (of_int result) (mbRawIPMode d)
                                          zero (Some (qmap_settings d));
                   s \<leftarrow> pset;
                   let d = d\<lparr>qmap_settings := s\<rparr>;
                   if qmap_version f \<noteq> 0
                   then Some (Some (sint (rx_size f)), d\<lparr>agg_ctx := update_agg_ctx s (agg_ctx d)\<rparr>)
                   else Some (Some 0, d)
                 }
                 else do {
                   _ \<leftarrow> QMIWDASetDataFormatResp (Ptr rbuf) (of_int result) (mbRawIPMode d) zero None;
                   Some (None, d)
                 });
              d \<leftarrow> ReleaseClientID d WDAClientID;
              Some ((0, rx), d)
            }
          }
        }
      })"

text \<open>\<open>qmi_sync_thread\<close>; dropping the last reference, which frees the device, is left out.\<close>

definition qmi_sync_steps :: "dev \<Rightarrow> int \<Rightarrow> (int \<times> dev) option" where
  "qmi_sync_steps d control =
     do {
       (ok, d) \<leftarrow> QMIReady d 30000;
       if \<not> ok then Some (0, d)
       else do {
         (result, d) \<leftarrow> QMICTLSyncProc d;
         if result \<noteq> 0 then Some (result, d)
         else do {
           (result, d) \<leftarrow>
             (if qmap_mode d \<noteq> 0
              then do {
                ((result, rx), d) \<leftarrow> QMIWDASetDataFormat d (qmap_mode d) True;
                Some (result, case rx of None \<Rightarrow> d | Some n \<Rightarrow> d\<lparr>qmap_size := n\<rparr>)
              }
              else Some (0, d));
           if result \<noteq> 0 then Some (result, d)
           else do {
             (result, d) \<leftarrow> SetupQMIWDSCallback d control;
             if result \<noteq> 0 then Some (result, d) else QMIDMSGetMEID d
           }
         }
       }
     }"

definition qmi_sync_thread :: "dev \<Rightarrow> int \<Rightarrow> (int \<times> dev) option" where
  "qmi_sync_thread d control =
     do {
       (result, d) \<leftarrow> qmi_sync_steps d control;
       Some (result, d\<lparr>mbQMIReady := True, mbQMISyncIng := False, refcount := refcount d - 1\<rparr>)
     }"

text \<open>The release of all clients by \<open>DeregisterQMIDevice\<close>, lock held.\<close>

partial_function (option) release_all :: "dev \<Rightarrow> dev option" where
  "release_all d =
     (case mpClientMemList d of
        [] \<Rightarrow> Some d
      | c # _ \<Rightarrow>
          if 0 < mWaitQueue c
          then do {
            d \<leftarrow> spin_unlock d;
            d \<leftarrow> spin_lock (upd_client d (cm_addr c) (\<lambda>c. c\<lparr>mWaitQueue := mWaitQueue c - 1\<rparr>));
            release_all d
          }
          else do {
            d \<leftarrow> spin_unlock d;
            d \<leftarrow> ReleaseClientID d (mClientID c);
            d \<leftarrow> spin_lock d;
            release_all d
          })"

text \<open>\<open>DeregisterQMIDevice\<close> up to the removal of the character device.\<close>

definition DeregisterQMIDevice :: "dev \<Rightarrow> dev option" where
  "DeregisterQMIDevice d =
     (if \<not> IsDeviceValid (Some d) then Some d
      else do {
        d \<leftarrow> spin_lock (d\<lparr>mbDeregisterQMIDevice := True\<rparr>);
        d \<leftarrow> release_all d;
        d \<leftarrow> spin_unlock d;
        Some ((QuecKillRead d)\<lparr>mbQMIValid := False\<rparr>)
      })"

text \<open>
  \<open>RegisterQMIDevice\<close>: the results of the kernel services it calls, and the name of the network
  interface.
\<close>

record register_env =
  start_submit :: int
  kthread_result :: int
  control_result :: int
  chrdev_result :: int
  cdev_result :: int
  net_name :: string

fun after_substring :: "string \<Rightarrow> string \<Rightarrow> string option" where
  "after_substring pat [] = None"
| "after_substring pat (c # cs) =
     (if take (length pat) (c # cs) = pat then Some (drop (length pat) (c # cs)) else after_substring pat cs)"

fun simple_strtoul :: "nat \<Rightarrow> string \<Rightarrow> nat" where
  "simple_strtoul acc [] = acc"
| "simple_strtoul acc (c # cs) =
     (if 48 \<le> (of_char c :: nat) \<and> (of_char c :: nat) \<le> 57
      then simple_strtoul (10 * acc + (of_char c - 48)) cs else acc)"

definition qmi_index :: "string \<Rightarrow> int option" where
  "qmi_index name =
     (case List.find (\<lambda>p. after_substring p name \<noteq> None) [''eth'', ''usb'', ''ppp'', ''lte''] of
        None \<Rightarrow> None
      | Some p \<Rightarrow> map_option (\<lambda>s. sint (of_nat (simple_strtoul 0 s) :: u32)) (after_substring p name))"

definition register_chardev :: "dev \<Rightarrow> register_env \<Rightarrow> int \<times> dev" where
  "register_chardev d e =
     (if chrdev_result e < 0 then (chrdev_result e, d)
      else let d = d\<lparr>mbCdevIsInitialized := True\<rparr> in
        if cdev_result e \<noteq> 0 then (cdev_result e, d)
        else case qmi_index (net_name e) of
          None \<Rightarrow> (- ENXIO, d)
        | Some i \<Rightarrow> if i < 0 then (- ENXIO, d) else (0, d))"

definition RegisterQMIDevice :: "dev \<Rightarrow> register_env \<Rightarrow> (int \<times> dev) option" where
  "RegisterQMIDevice d e =
     (if mbCdevIsInitialized d then Some (- EEXIST, d)
      else do {
        (result, d) \<leftarrow> GetClientID (d\<lparr>mbQMIValid := True, mbDeregisterQMIDevice := False\<rparr>) 0;
        if result \<noteq> 0 then Some (result, d\<lparr>mbQMIValid := False\<rparr>)
        else do {
          let (result, d) = QuecStartRead (d\<lparr>mQMICTLTransactionID := 1\<rparr>) (start_submit e);
          if result \<noteq> 0 then Some (result, d\<lparr>mbQMIValid := False\<rparr>)
          else if mbMdm9x07 d
          then if kthread_result e < 0
               then Some (kthread_result e, d\<lparr>mbQMIReady := False, mbQMISyncIng := False\<rparr>)
               else Some (register_chardev
                      (d\<lparr>refcount := refcount d + 1, mbQMIReady := False, mbQMISyncIng := True\<rparr>) e)
          else do {
            (ok, d) \<leftarrow> QMIReady d 30000;
            if \<not> ok then Some (- ETIMEDOUT, d)
            else do {
              (result, d) \<leftarrow> QMICTLSyncProc d;
              if result \<noteq> 0 then Some (result, d)
              else do {
                ((result, _), d) \<leftarrow> QMIWDASetDataFormat d (qmap_mode d) False;
                if result \<noteq> 0 then Some (result, d)
                else do {
                  (result, d) \<leftarrow> SetupQMIWDSCallback d (control_result e);
                  if result \<noteq> 0 then Some (result, d)
                  else do {
                    (result, d) \<leftarrow> QMIDMSGetMEID d;
                    if result \<noteq> 0 then Some (result, d)
                    else Some (register_chardev d e)
                  }
                }
              }
            }
          }
        }
      })"

lemma IsDeviceValid_Some [simp]: "IsDeviceValid (Some d) = mbQMIValid d"
  by (simp add: IsDeviceValid_def)

section \<open>Purging and transaction IDs\<close>

lemma purge_spec:
  assumes "ready d"
  shows "\<exists>d'. purge d cid t = Some d' \<and> queue_frame d d' \<and> mallocs d' = mallocs d \<and>
     (case client_of d cid of None \<Rightarrow> d' = d
      | Some c \<Rightarrow> client_of d' = (client_of d)(cid \<mapsto>
          c\<lparr>mpList := filter (\<lambda>r. \<not> (t = 0 \<or> t = rd_mTransactionID r)) (mpList c)\<rparr>))"
proof (cases "client_of d cid")
  case None
  with assms show ?thesis by (subst purge.simps) (simp add: PopFromReadMemList_eq)
next
  case (Some c)
  have unlink: "unlink_first P xs = None \<Longrightarrow> filter (\<lambda>x. \<not> P x) xs = xs" for P and xs :: "sReadMemList list"
    by (induction xs) (auto split: if_splits)
  have unlink_filter: "unlink_first P xs = Some (x, ys) \<Longrightarrow>
      length ys < length xs \<and> filter (\<lambda>x. \<not> P x) ys = filter (\<lambda>x. \<not> P x) xs" for P x ys and xs :: "sReadMemList list"
    by (induction xs arbitrary: ys) (auto split: if_splits)
  have id: "keeps_identity (\<lambda>c. c\<lparr>mpList := ms\<rparr>)" for ms by (simp add: keeps_identity_def)
  have "\<exists>d'. purge d cid t = Some d' \<and> queue_frame d d' \<and> mallocs d' = mallocs d \<and>
      client_of d' = (client_of d)(cid \<mapsto> c\<lparr>mpList := filter (\<lambda>r. \<not> (t = 0 \<or> t = rd_mTransactionID r)) (mpList c)\<rparr>)"
    using assms Some
  proof (induction "length (mpList c)" arbitrary: d c rule: less_induct)
    case less
    show ?case
    proof (cases "unlink_first (\<lambda>r. t = 0 \<or> t = rd_mTransactionID r) (mpList c)")
      case None
      then have "c\<lparr>mpList := filter (\<lambda>r. \<not> (t = 0 \<or> t = rd_mTransactionID r)) (mpList c)\<rparr> = c"
        using unlink [OF None] by simp
      with None less.prems show ?thesis
        by (subst purge.simps) (simp add: PopFromReadMemList_eq map_upd_triv del: de_Morgan_disj)
    next
      case (Some x)
      obtain m ms where x: "x = (m, ms)" by (cases x)
      let ?d = "upd_client d (cm_addr c) (\<lambda>c. c\<lparr>mpList := ms\<rparr>)"
      have fr: "queue_frame d ?d" by (simp add: queue_frame_upd_client id)
      have c1: "client_of ?d = (client_of d)(cid \<mapsto> c\<lparr>mpList := ms\<rparr>)"
        using ready_upd [OF less.prems id] by (auto simp: fun_eq_iff)
      note lf = unlink_filter [OF Some [unfolded x]]
      have "purge d cid t = purge ?d cid t"
        using less.prems Some x by (subst purge.simps) (simp add: PopFromReadMemList_eq)
      moreover have "ready ?d" using ready_queue_frame [OF fr less.prems(1)] .
      moreover have "client_of ?d cid = Some (c\<lparr>mpList := ms\<rparr>)" by (simp add: c1)
      ultimately obtain d' where "purge d cid t = Some d'" "queue_frame ?d d'" "mallocs d' = mallocs ?d"
        "client_of d' = (client_of ?d)(cid \<mapsto> c\<lparr>mpList := filter (\<lambda>r. \<not> (t = 0 \<or> t = rd_mTransactionID r)) (mpList c)\<rparr>)"
        using less.hyps [of "c\<lparr>mpList := ms\<rparr>" ?d] lf by (auto simp del: fun_upd_apply de_Morgan_disj)
      then show ?thesis using queue_frame_trans [OF fr] unfolding c1 fun_upd_upd by (auto simp del: fun_upd_apply)
    qed
  qed
  with Some show ?thesis by (simp del: fun_upd_apply de_Morgan_disj)
qed

lemma purge_section:
  assumes "idle d"
  shows "\<exists>d'. do { d \<leftarrow> spin_lock d; d \<leftarrow> purge d cid t; spin_unlock d } = Some d' \<and> queue_frame d d' \<and>
     mallocs d' = mallocs d \<and>
     (case client_of d cid of None \<Rightarrow> client_of d' = client_of d
      | Some c \<Rightarrow> client_of d' = (client_of d)(cid \<mapsto>
          c\<lparr>mpList := filter (\<lambda>r. \<not> (t = 0 \<or> t = rd_mTransactionID r)) (mpList c)\<rparr>))"
proof -
  note l = idle_lock [OF assms]
  let ?d = "d\<lparr>mClientMemLock := True\<rparr>"
  obtain d2 where d2: "purge ?d cid t = Some d2" "queue_frame ?d d2" "mallocs d2 = mallocs d"
    "case client_of d cid of None \<Rightarrow> d2 = ?d | Some c \<Rightarrow> client_of d2 = (client_of d)(cid \<mapsto>
          c\<lparr>mpList := filter (\<lambda>r. \<not> (t = 0 \<or> t = rd_mTransactionID r)) (mpList c)\<rparr>)"
    using purge_spec [OF l(2), of cid t, unfolded lock_fields] by auto
  have "do { d \<leftarrow> spin_lock d; d \<leftarrow> purge d cid t; spin_unlock d } = Some (d2\<lparr>mClientMemLock := False\<rparr>)"
    using section_frame [OF d2(2) assms] d2(1) l(1) by simp
  moreover have "queue_frame d (d2\<lparr>mClientMemLock := False\<rparr>)" using section_frame [OF d2(2) assms] by simp
  moreover have "case client_of d cid of None \<Rightarrow> client_of (d2\<lparr>mClientMemLock := False\<rparr>) = client_of d
      | Some c \<Rightarrow> client_of (d2\<lparr>mClientMemLock := False\<rparr>) = (client_of d)(cid \<mapsto>
          c\<lparr>mpList := filter (\<lambda>r. \<not> (t = 0 \<or> t = rd_mTransactionID r)) (mpList c)\<rparr>)"
    using d2(4) by (cases "client_of d cid") (simp_all del: fun_upd_apply de_Morgan_disj)
  ultimately show ?thesis using d2(3) by (intro exI [of _ "d2\<lparr>mClientMemLock := False\<rparr>"]) (simp del: de_Morgan_disj fun_upd_apply)
qed

text \<open>The transaction ID the driver takes next, and the counter after it.\<close>

definition next_xid :: "u32 \<Rightarrow> u32" where
  "next_xid k = (if (ucast (k + 1) :: u8) = 0 then k + 2 else k + 1)"

lemma next_xid_nonzero: "(ucast (next_xid k) :: u8) \<noteq> 0"
proof
  assume z: "(ucast (next_xid k) :: u8) = 0"
  have low: "unat (ucast w :: u8) = unat w mod 256" for w :: u32
    by (simp add: unsigned_ucast_eq take_bit_eq_mod)
  have plus: "unat (ucast (k + 1) :: u8) = (unat k + 1) mod 256" "unat (ucast (k + 2) :: u8) = (unat k + 2) mod 256"
    by (simp_all add: low unat_word_ariths mod_mod_cancel)
  have "unat (ucast (k + 1) :: u8) = 0 \<and> unat (ucast (k + 2) :: u8) = 0"
    using z by (auto simp: next_xid_def split: if_splits)
  then show False unfolding plus by presburger
qed

lemma QMIXactionIDGet_spec:
  assumes "idle d"
  shows "\<exists>d'. QMIXactionIDGet d = Some (ucast (next_xid (mQMICTLTransactionID d)), d') \<and>
     queue_frame (d\<lparr>mQMICTLTransactionID := next_xid (mQMICTLTransactionID d)\<rparr>) d' \<and> mallocs d' = mallocs d \<and>
     (case client_of d QMICTL of None \<Rightarrow> client_of d' = client_of d
      | Some c \<Rightarrow> client_of d' = (client_of d)(QMICTL \<mapsto>
          c\<lparr>mpList := filter (\<lambda>r. rd_mTransactionID r \<noteq> ucast (ucast (next_xid (mQMICTLTransactionID d)) :: u8)) (mpList c)\<rparr>))"
proof -
  let ?k = "next_xid (mQMICTLTransactionID d)" and ?t = "ucast (next_xid (mQMICTLTransactionID d)) :: u8"
  let ?d = "d\<lparr>mQMICTLTransactionID := ?k\<rparr>"
  have i: "idle ?d" using assms by (simp add: idle_def dev_ok_def)
  have c: "client_of ?d = client_of d" by (simp add: client_of_def fun_eq_iff)
  have up: "(ucast x :: u16) = 0 \<longleftrightarrow> x = 0" for x :: u8 by transfer simp
  have nz: "(ucast ?t :: u16) \<noteq> 0" unfolding up by (rule next_xid_nonzero)
  obtain d' where d': "do { d \<leftarrow> spin_lock ?d; d \<leftarrow> purge d QMICTL (ucast ?t); spin_unlock d } = Some d'" "queue_frame ?d d'"
    "mallocs d' = mallocs d" "case client_of d QMICTL of None \<Rightarrow> client_of d' = client_of d
      | Some c \<Rightarrow> client_of d' = (client_of d)(QMICTL \<mapsto>
          c\<lparr>mpList := filter (\<lambda>r. \<not> ((ucast ?t :: u16) = 0 \<or> ucast ?t = rd_mTransactionID r)) (mpList c)\<rparr>)"
    using purge_section [OF i, of QMICTL "ucast ?t", unfolded c] by auto
  have f: "(\<lambda>r. \<not> ((ucast ?t :: u16) = 0 \<or> ucast ?t = rd_mTransactionID r)) = (\<lambda>r. rd_mTransactionID r \<noteq> ucast ?t)"
    using nz by auto
  have "QMIXactionIDGet d = Some (?t, d')"
    using d'(1) next_xid_nonzero [of "mQMICTLTransactionID d"]
    by (auto simp: QMIXactionIDGet_def Let_def next_xid_def bind_eq_Some_conv add.assoc split: if_splits)
  with d'(2,3) d'(4) [unfolded f] show ?thesis by auto
qed


section \<open>Synchronous writes\<close>

lemma field_clients [simp]:
  "client_of (d\<lparr>wire := w\<rparr>) = client_of d" "client_of (d\<lparr>sems := s\<rparr>) = client_of d"
  "client_of (d\<lparr>next_addr := k\<rparr>) = client_of d" "client_of (d\<lparr>waits := ws\<rparr>) = client_of d"
  "client_of (d\<lparr>mQMICTLTransactionID := x\<rparr>) = client_of d"
  by (simp_all add: client_of_def fun_eq_iff)

lemma URB_section:
  assumes "idle d" and "client_of d cid = Some c" and "mallocs d = []"
  shows "\<exists>a b d'. spin_lock d = Some a \<and> AddToURBList a cid u = Some (True, b) \<and> spin_unlock b = Some d' \<and>
     queue_frame d d' \<and> mallocs d' = [] \<and> client_of d' = (client_of d)(cid \<mapsto> c\<lparr>mpURBList := mpURBList c @ [u]\<rparr>)"
proof -
  note l = idle_lock [OF assms(1)]
  obtain d1 where d1: "AddToURBList (d\<lparr>mClientMemLock := True\<rparr>) cid u = Some (True, d1)" "queue_frame (d\<lparr>mClientMemLock := True\<rparr>) d1"
    "mallocs d1 = []" "client_of d1 = (client_of d)(cid \<mapsto> c\<lparr>mpURBList := mpURBList c @ [u]\<rparr>)"
    using urb_q.add_present [OF l(2), of cid c u] assms(2,3) by (auto simp: malloc_ok_def)
  with l(1) section_frame [OF d1(2) assms(1)] show ?thesis by (simp del: fun_upd_apply)
qed

lemma pop_URB_section:
  assumes "idle d" and "client_of d cid = Some c" and "mpURBList c = u # us"
  shows "\<exists>a b d'. spin_lock d = Some a \<and> PopFromURBList a cid = Some (Some u, b) \<and> spin_unlock b = Some d' \<and>
     queue_frame d d' \<and> mallocs d' = mallocs d \<and> client_of d' = (client_of d)(cid \<mapsto> c\<lparr>mpURBList := us\<rparr>)"
proof -
  note l = idle_lock [OF assms(1)]
  let ?d = "d\<lparr>mClientMemLock := True\<rparr>"
  let ?e = "upd_client ?d (cm_addr c) (\<lambda>c. c\<lparr>mpURBList := us\<rparr>)"
  have c: "client_of ?d cid = Some c" using assms(2) by simp
  have id: "keeps_identity (\<lambda>c. c\<lparr>mpURBList := us\<rparr>)" by (simp add: keeps_identity_def)
  have "PopFromURBList ?d cid = Some (Some u, ?e)" using urb_q.pop_front [OF l(2) c assms(3)] by simp
  moreover have "client_of ?e = (client_of d)(cid \<mapsto> c\<lparr>mpURBList := us\<rparr>)"
    using ready_upd [OF l(2) c id] by (auto simp: fun_eq_iff)
  ultimately show ?thesis
    using l(1) section_frame [OF queue_frame_upd_client [OF id] assms(1), of "cm_addr c"] by (simp del: fun_upd_apply)
qed

lemma WriteSync_sends:
  assumes "idle d" and "mallocs d = []" and "writes d = []" and "client_of d cid = Some c"
    and "6 \<le> length buf" and "length buf < 65536" and fresh: "next_addr d \<notin> set (mpURBList c)"
  shows "\<exists>d'. WriteSync d buf (int (length buf)) cid = Some (if mpURBList c = [] then int (length buf) else - EINVAL, d') \<and>
     queue_frame (d\<lparr>wire := wire d @ [sQMUX_bytes (qmux_header 0 cid (of_nat (length buf))) @ drop 6 buf]\<rparr>) d' \<and>
     mallocs d' = [] \<and> (mpURBList c = [] \<longrightarrow> client_of d' = client_of d)"
proof -
  let ?n = "of_nat (length buf) :: u16" and ?hdr = "sQMUX_bytes (qmux_header 0 cid (of_nat (length buf)))"
  let ?data = "?hdr @ drop 6 buf"
  have v: "mbQMIValid d" using assms(1) by (simp add: idle_def)
  have "6 \<le> ?n" using assms(5,6) by (simp add: word_le_nat_alt)
  then have fill: "FillQMUX cid (Ptr buf) ?n = Some (0, Ptr ?data)"
    using assms(5) by (simp add: FillQMUX_Ptr puts_def sQMUX_bytes_def)
  have rd: "rdn ?data 0 (length buf) = Some ?data" using assms(5) by (simp add: rdn_def sQMUX_bytes_def)
  obtain d1 where k1: "kmalloc d = (Some (next_addr d), d1)" "queue_frame d d1" "mallocs d1 = []"
    "mpClientMemList d1 = mpClientMemList d" using kmalloc_unlimited [OF assms(2)] by blast
  obtain d2 where k2: "kmalloc d1 = (Some (next_addr d1), d2)" "queue_frame d1 d2" "mallocs d2 = []"
    "mpClientMemList d2 = mpClientMemList d1" using kmalloc_unlimited [OF k1(3)] by blast
  have f2: "queue_frame d d2" using queue_frame_trans [OF k1(2) k2(2)] .
  have i2: "idle d2" using idle_frame [OF queue_frame_dev [OF f2] assms(1)] .
  have w2: "next_write d2 = (write_ok, d2)" using f2 assms(3) by (simp add: next_write_def queue_frame_def dev_frame_def)
  have c2: "client_of d2 cid = Some c" using k1(4) k2(4) assms(4) by (simp add: client_of_def)
  let ?u = "next_addr d" and ?c = "c\<lparr>mpURBList := mpURBList c @ [next_addr d]\<rparr>"
  obtain a b d3 where d3: "spin_lock d2 = Some a" "AddToURBList a cid ?u = Some (True, b)" "spin_unlock b = Some d3"
    "queue_frame d2 d3" "mallocs d3 = []" "client_of d3 = (client_of d2)(cid \<mapsto> ?c)"
    using URB_section [OF i2 c2 k2(3), of ?u] by blast
  have wr: "WriteSync d buf (int (length buf)) cid = WriteSync_submit d3 write_ok ?u ?data (int (length buf)) cid"
    using v k1(1) k2(1) fill rd d3(1-3) assms(5) by (simp add: WriteSync_def w2 write_ok_def)
  let ?d4 = "d3\<lparr>wire := wire d3 @ [?data]\<rparr>"
  have f3: "queue_frame d d3" using queue_frame_trans [OF f2 d3(4)] .
  then have f4: "queue_frame (d\<lparr>wire := wire d @ [?data]\<rparr>) ?d4" by (simp add: queue_frame_def dev_frame_def)
  have i4: "idle ?d4"
    using idle_frame [OF queue_frame_dev [OF f3] assms(1)] by (simp add: idle_def dev_ok_def)
  have c4: "client_of ?d4 cid = Some ?c" by (simp add: d3(6))
  obtain u us where us: "mpURBList ?c = u # us" by (cases "mpURBList c") simp_all
  obtain a' b' d5 where d5: "spin_lock ?d4 = Some a'" "PopFromURBList a' cid = Some (Some u, b')" "spin_unlock b' = Some d5"
    "queue_frame ?d4 d5" "mallocs d5 = []" "client_of d5 = (client_of ?d4)(cid \<mapsto> ?c\<lparr>mpURBList := us\<rparr>)"
    using pop_URB_section [OF i4 c4 us] d3(5) by auto
  have lk: "spin_unlock a' = Some ?d4" using d5(1) i4 by (auto simp: spin_lock_def spin_unlock_def idle_def split: if_splits)
  have "WriteSync_submit d3 write_ok ?u ?data (int (length buf)) cid = Some (if u = ?u then int (length buf) else - EINVAL, d5)"
    using d5(1-3) lk i4 by (simp add: WriteSync_submit_def write_ok_def Let_def idle_def)
  moreover have "queue_frame (d\<lparr>wire := wire d @ [?data]\<rparr>) d5" using queue_frame_trans [OF f4 d5(4)] .
  moreover have "client_of d5 = client_of d" if "mpURBList c = []"
  proof -
    have "us = []" using that us by simp
    then have "?c\<lparr>mpURBList := us\<rparr> = c" using that by simp
    moreover have "client_of d2 = client_of d" using k1(4) k2(4) by (simp add: client_of_def fun_eq_iff)
    ultimately show ?thesis using d5(6) d3(6) assms(4) by (simp add: map_upd_triv)
  qed
  moreover have "u = ?u \<longleftrightarrow> mpURBList c = []" using us fresh by (cases "mpURBList c") auto
  ultimately show ?thesis using wr d5(5) by (intro exI [of _ d5]) simp
qed

section \<open>Synchronous reads\<close>

lemma client_of_map:
  assumes "mpClientMemList d' = map f (mpClientMemList d)" and "\<And>c. mClientID (f c) = mClientID c"
  shows "client_of d' cid = map_option f (client_of d cid)"
proof -
  have "find (\<lambda>c. mClientID c = cid) (map f xs) = map_option f (find (\<lambda>c. mClientID c = cid) xs)" for xs
    using assms(2) by (induction xs) auto
  then show ?thesis unfolding client_of_def assms(1) .
qed

lemma filter_unique: "distinct (map g xs) \<Longrightarrow> x \<in> set xs \<Longrightarrow> filter (\<lambda>y. g y = g x) xs = [x]"
  by (induction xs) (auto simp: filter_empty_conv image_iff)

lemma unlink_first_append_fresh:
  "\<forall>x \<in> set xs. \<not> P x \<Longrightarrow> P y \<Longrightarrow> unlink_first P (xs @ [y]) = Some (y, xs)"
  by (induction xs) auto

lemma unlink_first_none: "\<forall>x \<in> set xs. \<not> P x \<Longrightarrow> unlink_first P xs = None"
  by (induction xs) auto

lemma mClientID_receive [simp]: "mClientID (receive m c) = mClientID c"
  by (simp add: receive_def notified_def split: option.split)

lemma pop_section_found:
  assumes "idle d" and "client_of d cid = Some c"
    and "unlink_first (\<lambda>r. t = 0 \<or> t = rd_mTransactionID r) (mpList c) = Some (m, ms)"
  shows "\<exists>a b d'. spin_lock d = Some a \<and> PopFromReadMemList a cid t = Some (Some (rd_mpData m, rd_mDataSize m), b) \<and>
     spin_unlock b = Some d' \<and> queue_frame d d' \<and> mallocs d' = mallocs d \<and>
     client_of d' = (client_of d)(cid \<mapsto> c\<lparr>mpList := ms\<rparr>)"
proof -
  obtain r d' where "do { d \<leftarrow> spin_lock d; (r, d) \<leftarrow> PopFromReadMemList d cid t; d \<leftarrow> spin_unlock d; Some (r, d) } = Some (r, d')"
    "queue_frame d d'" "mallocs d' = mallocs d" "r = Some (rd_mpData m, rd_mDataSize m)"
    "client_of d' = (client_of d)(cid \<mapsto> c\<lparr>mpList := ms\<rparr>)"
    using pop_section [OF assms(1), of cid t] assms(2,3) by (auto simp del: fun_upd_apply)
  then show ?thesis by (auto simp: bind_eq_Some_conv simp del: fun_upd_apply)
qed

text \<open>Delivery to one client whose only matching waiter came last.\<close>

lemma deliver_to_waiter:
  assumes "idle d" and "mallocs d = []" and "\<forall>c \<in> set (mpClientMemList d). live_waiters (sems d) c"
    and "n \<le> length b" and "n < 65536" and "ParseQMUX 0 (Ptr b) (of_nat n) = Some (6, cid)"
    and "9 \<le> n" and t: "t = (if cid = 0 then ucast (b ! 7) else of_le16 (b ! 7) (b ! 8))" and "t \<noteq> 0"
    and uni: "drop_bit 8 cid \<noteq> 0xff"
    and c: "client_of d cid = Some (c\<lparr>mpReadNotifyList := mpReadNotifyList c @
              [\<lparr>nt_mpNotifyFunct = Some UpSem, nt_mTransactionID = t, nt_mpData = sem\<rparr>]\<rparr>)"
    and old: "\<forall>w \<in> set (mpReadNotifyList c). nt_mTransactionID w \<noteq> 0 \<and> nt_mTransactionID w \<noteq> t"
  shows "\<exists>d1. ReadCallback d 0 b n = Some (ResubmitIntURB d1) \<and> dev_frame d d1 \<and> mallocs d1 = [] \<and>
     client_of d1 = (client_of d)(cid \<mapsto> c\<lparr>mpList := mpList c @
       [\<lparr>rd_mpData = take n b, rd_mTransactionID = t, rd_mDataSize = of_nat n\<rparr>]\<rparr>) \<and>
     sems d1 = raise sem (sems d)"
proof -
  let ?m = "\<lparr>rd_mpData = take n b, rd_mTransactionID = t, rd_mDataSize = of_nat n\<rparr>"
  let ?w = "\<lparr>nt_mpNotifyFunct = Some UpSem, nt_mTransactionID = t, nt_mpData = sem\<rparr>"
  let ?c = "c\<lparr>mpReadNotifyList := mpReadNotifyList c @ [?w]\<rparr>"
  obtain d1 where d1: "ReadCallback d 0 b n = Some (ResubmitIntURB d1)" "dev_frame d d1" "mallocs d1 = []"
    "mpClientMemList d1 = map (\<lambda>c. if addressed cid c then receive ?m c else c) (mpClientMemList d)"
    "sems d1 = fold raise (concat (map (woken t) (filter (addressed cid) (mpClientMemList d)))) (sems d)"
    using ReadCallback_delivery_frame [OF assms(1,2) _ assms(4-8) refl] assms(3)
    by (auto simp: live_waiters_def servable_def)
  have fw: "first_waiter t ?c = Some (?w, mpReadNotifyList c)"
    using old assms(9) by (auto simp: first_waiter_def intro!: unlink_first_append_fresh)
  have "client_of d1 = (client_of d)(cid \<mapsto> c\<lparr>mpList := mpList c @ [?m]\<rparr>)"
  proof
    fix k
    have "client_of d1 k = map_option (\<lambda>c. if addressed cid c then receive ?m c else c) (client_of d k)"
      using client_of_map [OF d1(4)] by simp
    moreover have "addressed cid c' \<longleftrightarrow> k = cid" if "client_of d k = Some c'" for c'
      using client_of_SomeD [OF that] by (auto simp: unicast_addressed [OF uni])
    moreover have "receive ?m ?c = c\<lparr>mpList := mpList c @ [?m]\<rparr>" 
      using fw by (simp add: receive_def notified_def first_waiter_def)
    ultimately show "client_of d1 k = ((client_of d)(cid \<mapsto> c\<lparr>mpList := mpList c @ [?m]\<rparr>)) k"
      using c by (cases "client_of d k") auto
  qed
  moreover have "filter (addressed cid) (mpClientMemList d) = [?c]"
  proof -
    have "distinct (map mClientID (mpClientMemList d))" using assms(1) by (simp add: idle_def dev_ok_def)
    moreover have "?c \<in> set (mpClientMemList d)" "mClientID ?c = cid" using client_of_SomeD [OF c] by simp_all
    ultimately have "filter (\<lambda>x. mClientID x = cid) (mpClientMemList d) = [?c]"
      using filter_unique [of mClientID "mpClientMemList d" ?c] by simp
    moreover have "addressed cid = (\<lambda>x. mClientID x = cid)" by (auto simp: fun_eq_iff unicast_addressed [OF uni])
    ultimately show ?thesis by simp
  qed
  then have "sems d1 = raise sem (sems d)" using d1(5) by (simp add: woken_def fw)
  ultimately show ?thesis using d1(1-3) by (intro exI [of _ d1]) simp
qed


lemma live_waiters_upd: "live_waiters s c \<Longrightarrow> live_waiters (s(a \<mapsto> \<lparr>readSem = k, sem_magic = QUEC_SEM_MAGIC\<rparr>)) c"
  by (auto simp: live_waiters_def split: option.splits)

lemma live_waiters_add:
  "live_waiters s c \<Longrightarrow> live_waiters (s(a \<mapsto> \<lparr>readSem = k, sem_magic = QUEC_SEM_MAGIC\<rparr>)) (c\<lparr>mpReadNotifyList :=
     mpReadNotifyList c @ [\<lparr>nt_mpNotifyFunct = Some UpSem, nt_mTransactionID = t, nt_mpData = a\<rparr>]\<rparr>)"
  by (auto simp: live_waiters_def split: option.splits)

lemma live_client: "\<forall>c \<in> set (mpClientMemList d). P c \<Longrightarrow> client_of d cid = Some c \<Longrightarrow> P c"
  using client_of_SomeD by blast

lemma all_clients_iff:
  "dev_ok d \<Longrightarrow> (\<forall>c \<in> set (mpClientMemList d). P c) \<longleftrightarrow> (\<forall>cid c. client_of d cid = Some c \<longrightarrow> P c)"
  using client_of_SomeD client_of_member by blast

text \<open>Registering a waiter and letting go of the lock.\<close>

lemma wait_section:
  assumes "ready d" and "client_of d cid = Some c" and "mallocs d = []"
  shows "\<exists>b d'. AddToNotifyList d cid t (Some UpSem) sem = Some (True, b) \<and> spin_unlock b = Some d' \<and>
     queue_frame (d\<lparr>mClientMemLock := False\<rparr>) d' \<and> mallocs d' = [] \<and>
     client_of d' = (client_of d)(cid \<mapsto> c\<lparr>mpReadNotifyList := mpReadNotifyList c @
       [\<lparr>nt_mpNotifyFunct = Some UpSem, nt_mTransactionID = t, nt_mpData = sem\<rparr>]\<rparr>)"
proof -
  obtain b where b: "AddToNotifyList d cid t (Some UpSem) sem = Some (True, b)" "queue_frame d b" "mallocs b = []"
    "client_of b = (client_of d)(cid \<mapsto> c\<lparr>mpReadNotifyList := mpReadNotifyList c @
       [\<lparr>nt_mpNotifyFunct = Some UpSem, nt_mTransactionID = t, nt_mpData = sem\<rparr>]\<rparr>)"
    using notify_q.add_present [OF assms(1,2), of "\<lparr>nt_mpNotifyFunct = Some UpSem, nt_mTransactionID = t, nt_mpData = sem\<rparr>"]
      assms(3) by (auto simp: malloc_ok_def)
  then have "mClientMemLock b" "queue_frame (d\<lparr>mClientMemLock := False\<rparr>) (b\<lparr>mClientMemLock := False\<rparr>)"
    using assms(1) by (simp_all add: ready_def queue_frame_def dev_frame_def)
  with b show ?thesis by (intro exI [of _ b] exI [of _ "b\<lparr>mClientMemLock := False\<rparr>"]) (simp add: spin_unlock_def del: fun_upd_apply)
qed

text \<open>
  A read that sleeps and is woken by the delivery of the message it waits for: it returns that
  message and leaves queue and waiters as they were.
\<close>

lemma ReadSync_waits:
  assumes i: "idle d" and mem: "mallocs d = []" and live: "\<forall>c \<in> set (mpClientMemList d). live_waiters (sems d) c"
    and w: "waits d = ([ReadDone 0 b n], e) # ws"
    and n: "n \<le> length b" "n < 65536" and q: "ParseQMUX 0 (Ptr b) (of_nat n) = Some (6, cid)" "9 \<le> n"
    and t: "t = (if cid = 0 then ucast (b ! 7) else of_le16 (b ! 7) (b ! 8))" "t \<noteq> 0"
    and uni: "drop_bit 8 cid \<noteq> 0xff" and c: "client_of d cid = Some c"
    and oldm: "\<forall>m \<in> set (mpList c). rd_mTransactionID m \<noteq> t"
    and oldw: "\<forall>w \<in> set (mpReadNotifyList c). nt_mTransactionID w \<noteq> 0 \<and> nt_mTransactionID w \<noteq> t"
  shows "\<exists>d'. ReadSync d cid t = Some ((int n, Some (take n b)), d') \<and> idle d' \<and> mallocs d' = [] \<and>
     client_of d' = client_of d \<and> sems d' = (sems d)(next_addr d := None) \<and> waits d' = ws \<and>
     wire d' = wire d \<and> writes d' = writes d \<and> next_addr d < next_addr d'"
proof -
  let ?a = "next_addr d"
  let ?w = "\<lparr>nt_mpNotifyFunct = Some UpSem, nt_mTransactionID = t, nt_mpData = ?a\<rparr>"
  let ?m = "\<lparr>rd_mpData = take n b, rd_mTransactionID = t, rd_mDataSize = of_nat n\<rparr>"
  let ?s0 = "(sems d)(?a \<mapsto> \<lparr>readSem = 0, sem_magic = QUEC_SEM_MAGIC\<rparr>)"
  let ?d1 = "d\<lparr>mClientMemLock := True, next_addr := Suc ?a\<rparr>" and ?d2 = "d\<lparr>mClientMemLock := True, next_addr := Suc ?a, sems := ?s0\<rparr>"
  have r: "ready ?d1" "ready ?d2" using i by (auto simp: idle_def ready_def dev_ok_def intro: less_SucI)
  have c2: "client_of ?d1 = client_of d" "client_of ?d2 = client_of d" by (simp_all add: client_of_def fun_eq_iff)
  have "unlink_first (\<lambda>r. t = 0 \<or> t = rd_mTransactionID r) (mpList c) = None"
    using oldm t(2) by (intro unlink_first_none) auto
  then have pop: "PopFromReadMemList ?d1 cid t = Some (None, ?d1)"
    using r(1) c by (simp add: PopFromReadMemList_eq c2)
  obtain b3 d3 where d3: "AddToNotifyList ?d2 cid t (Some UpSem) ?a = Some (True, b3)" "spin_unlock b3 = Some d3"
    "queue_frame (?d2\<lparr>mClientMemLock := False\<rparr>) d3" "mallocs d3 = []"
    "client_of d3 = (client_of d)(cid \<mapsto> c\<lparr>mpReadNotifyList := mpReadNotifyList c @ [?w]\<rparr>)"
    using wait_section [OF r(2), of cid c t ?a] c mem unfolding c2 by auto
  have i3: "idle (d3\<lparr>waits := ws\<rparr>)" and w3: "waits d3 = ([ReadDone 0 b n], e) # ws" and s3: "sems d3 = ?s0"
    using d3(3) r(2) dev_frame_ok [OF queue_frame_dev [OF d3(3)]] w
    by (auto simp: idle_def ready_def queue_frame_def dev_frame_def dev_ok_def)
  have ok3: "dev_ok (d3\<lparr>waits := ws\<rparr>)" and ok: "dev_ok d" using i3 i by (simp_all add: idle_def)
  have "\<forall>c \<in> set (mpClientMemList (d3\<lparr>waits := ws\<rparr>)). live_waiters ?s0 c"
    unfolding all_clients_iff [OF ok3]
    using live c unfolding all_clients_iff [OF ok]
    by (simp add: d3(5) live_waiters_upd live_waiters_add)
  then obtain d4 where d4: "ReadCallback (d3\<lparr>waits := ws\<rparr>) 0 b n = Some (ResubmitIntURB d4)"
    "dev_frame (d3\<lparr>waits := ws\<rparr>) d4" "mallocs d4 = []"
    "client_of d4 = (client_of (d3\<lparr>waits := ws\<rparr>))(cid \<mapsto> c\<lparr>mpList := mpList c @ [?m]\<rparr>)"
    "sems d4 = raise ?a ?s0"
    using deliver_to_waiter [OF i3 _ _ n q(1) q(2) t uni, of c ?a] oldw d3(4) s3 by (auto simp: d3(5))
  let ?d5 = "(ResubmitIntURB d4)\<lparr>sems := ?s0\<rparr>"
  have down: "down_wait d3 ?a = Some (0, ?d5)"
    using w3 d4(1,5) by (simp add: down_wait_def run_event_def try_down_def raise_def ResubmitIntURB_def)
  have f4: "idle d4" "waits d4 = ws" "wire d4 = wire d" "writes d4 = writes d" "?a < next_addr d4"
    using idle_frame [OF d4(2) i3] d4(2) d3(3) by (auto simp: queue_frame_def dev_frame_def)
  then have i5: "idle ?d5" by (simp add: ResubmitIntURB_def idle_def dev_ok_def)
  have c5: "client_of ?d5 = (client_of d)(cid \<mapsto> c\<lparr>mpList := mpList c @ [?m]\<rparr>)"
    using d4(4) d3(5) by (simp add: ResubmitIntURB_def client_of_def fun_eq_iff)
  have un: "unlink_first (\<lambda>r. t = 0 \<or> t = rd_mTransactionID r) (mpList c @ [?m]) = Some (?m, mpList c)"
    using oldm t(2) by (intro unlink_first_append_fresh) auto
  have "client_of ?d5 cid = Some (c\<lparr>mpList := mpList c @ [?m]\<rparr>)" by (simp only: c5 fun_upd_same)
  from pop_section_found [OF i5 this, of t ?m "mpList c"] un obtain a6 b6 d6 where
    d6: "spin_lock ?d5 = Some a6" "PopFromReadMemList a6 cid t = Some (Some (take n b, of_nat n), b6)"
    "spin_unlock b6 = Some d6" "queue_frame ?d5 d6" "mallocs d6 = mallocs ?d5" "client_of d6 = (client_of ?d5)(cid \<mapsto> c)"
    by auto
  have again: "ReadSync_loop a6 cid t (cm_addr c) ?a = Some ((int n, Some (take n b)), d6)"
    using d6(2,3) n(2) by (subst ReadSync_loop.simps) (simp add: uint_u16_eq)
  have "ReadSync_loop ?d1 cid t (cm_addr c) ?a = Some ((int n, Some (take n b)), d6)"
    using pop d3(1,2) down d6(1) again i5 by (subst ReadSync_loop.simps) (simp add: idle_def)
  then have "ReadSync d cid t = Some ((int n, Some (take n b)), d6\<lparr>sems := (sems d6)(?a := None)\<rparr>)"
    using i c idle_lock [OF i] by (simp add: ReadSync_def ready_FindClientMem idle_def)
  moreover have "idle (d6\<lparr>sems := (sems d6)(?a := None)\<rparr>)" "sems d6 = ?s0" "waits d6 = ws" "wire d6 = wire d"
    "writes d6 = writes d" "?a < next_addr d6"
    using idle_frame [OF queue_frame_dev [OF d6(4)] i5] d6(4) f4
    by (auto simp: idle_def dev_ok_def queue_frame_def dev_frame_def ResubmitIntURB_def split: if_splits)
  moreover have "client_of d6 = client_of d"
    using d6(6) unfolding c5 fun_upd_upd using c by (simp add: map_upd_triv)
  moreover have "mallocs d6 = []" using d6(5) d4(3) by (simp add: ResubmitIntURB_def)
  ultimately show ?thesis by (intro exI [of _ "d6\<lparr>sems := (sems d6)(?a := None)\<rparr>"]) simp
qed

section \<open>Registration\<close>

lemma find_append_new:
  "find P (xs @ [y]) = (case find P xs of None \<Rightarrow> if P y then Some y else None | Some x \<Rightarrow> Some x)"
  by (induction xs) auto

lemma GetClientID_register_spec:
  assumes "idle d" and "mallocs d = []" and "client_of d k = None"
  shows "\<exists>a d'. GetClientID_register d k = Some (int (unat k), d') \<and> idle d' \<and> mallocs d' = [] \<and>
     client_of d' = (client_of d)(k \<mapsto> new_client a k) \<and> wire d' = wire d \<and> sems d' = sems d \<and> waits d' = waits d \<and>
     writes d' = writes d"
proof -
  let ?d = "d\<lparr>mClientMemLock := True\<rparr>"
  note l = idle_lock [OF assms(1)]
  obtain d1 where k1: "kmalloc ?d = (Some (next_addr d), d1)" "d1 = ?d\<lparr>next_addr := Suc (next_addr d)\<rparr>"
    using assms(2) by (simp add: kmalloc_def)
  let ?e = "d1\<lparr>mpClientMemList := mpClientMemList d1 @ [new_client (next_addr d) k], mClientMemLock := False\<rparr>"
  have "GetClientID_register d k = Some (int (unat k), ?e)"
    using l k1 assms(3) by (simp add: GetClientID_register_def ready_FindClientMem spin_unlock_def Let_def)
  moreover have "k \<notin> mClientID ` set (mpClientMemList d)"
    using assms(1,3) client_of_member by (fastforce simp: idle_def)
  then have "idle ?e"
    using assms(1) k1(2) by (auto simp: idle_def dev_ok_def new_client_def image_iff)
  moreover have "client_of ?e = (client_of d)(k \<mapsto> new_client (next_addr d) k)"
    using k1(2) assms(3)
    by (auto simp: client_of_def fun_eq_iff find_append_new new_client_def split: option.splits)
  ultimately show ?thesis using k1(2) assms(2) by (intro exI [of _ "next_addr d"] exI [of _ ?e]) simp
qed

text \<open>The modem's answer to a client ID request.\<close>

definition client_id_response :: "u8 \<Rightarrow> (u8 \<times> u8 list) list \<Rightarrow> u8 list" where
  "client_id_response tid ts =
     sQMUX_bytes (qmux_header 0x80 0 (of_nat (8 + length (qmi_msg 0x22 ts)))) @ [1, tid] @ qmi_msg 0x22 ts"

lemma client_id_response_facts:
  assumes "8 + length (qmi_msg 0x22 ts) < 65536"
  shows "length (client_id_response tid ts) = 8 + length (qmi_msg 0x22 ts)"
    and "client_id_response tid ts ! 7 = tid"
    and "ParseQMUX 0 (Ptr (client_id_response tid ts)) (of_nat (8 + length (qmi_msg 0x22 ts))) = Some (6, 0)"
    and "result_code ts = 0 \<Longrightarrow> tlv_find 1 ts = Some [s, k] \<Longrightarrow>
         QMICTLGetClientIDResp (Ptr (client_id_response tid ts)) (of_nat (8 + length (qmi_msg 0x22 ts))) 0 = Some (0, of_le16 s k)"
proof -
  let ?n = "8 + length (qmi_msg 0x22 ts)"
  show len: "length (client_id_response tid ts) = ?n" by (simp add: client_id_response_def sQMUX_bytes_def)
  show "client_id_response tid ts ! 7 = tid" by (simp add: client_id_response_def sQMUX_bytes_def le16_def)
  have n: "unat (of_nat ?n :: u16) = ?n" using assms by (intro unat_u16_of_nat)
  then have "12 \<le> (of_nat ?n :: u16)" by (simp add: word_le_nat_alt)
  with n len show "ParseQMUX 0 (Ptr (client_id_response tid ts)) (of_nat ?n) = Some (6, 0)"
    using ParseQMUX_header [of "of_nat ?n" "0x80" 0 "[1, tid] @ qmi_msg 0x22 ts" 0]
    by (simp add: client_id_response_def)
  assume "result_code ts = 0" and "tlv_find 1 ts = Some [s, k]"
  with n len show "QMICTLGetClientIDResp (Ptr (client_id_response tid ts)) (of_nat ?n) 0 = Some (0, of_le16 s k)"
    using QMICTLGetClientIDResp_msg [of "sQMUX_bytes (qmux_header 0x80 0 (of_nat ?n)) @ [1, tid]" "of_nat ?n" "0x22" ts 0]
    by (simp add: client_id_response_def sQMUX_bytes_def)
qed

lemma ucast_u8_u16_zero: "(ucast x :: u16) = 0 \<longleftrightarrow> x = 0" for x :: u8
  by transfer simp

text \<open>What \<open>GetClientID\<close> puts on the wire.\<close>

definition client_id_request :: "u8 \<Rightarrow> u8 \<Rightarrow> u8 list" where
  "client_id_request tid svc = sQMUX_bytes (qmux_header 0 0 16) @ ctl_msg tid 0x22 [(0x01, [svc])]"

lemma GetClientID_exchange:
  assumes i: "idle d" and mem: "mallocs d = []" and wr: "writes d = []"
    and live: "\<forall>c \<in> set (mpClientMemList d). live_waiters (sems d) c"
    and c: "client_of d 0 = Some c" "mpURBList c = []" "mpReadNotifyList c = []"
    and w: "waits d = ([ReadDone 0 (client_id_response tid ts) (8 + length (qmi_msg 0x22 ts))], e) # ws"
    and n: "8 + length (qmi_msg 0x22 ts) < 65536" and tid: "tid = ucast (next_xid (mQMICTLTransactionID d))"
    and ts: "result_code ts = 0" "tlv_find 1 ts = Some [s, k]"
  shows "\<exists>d'. GetClientID_request d svc = Some (Inr (of_le16 s k), d') \<and> idle d' \<and> mallocs d' = [] \<and>
     client_of d' = (client_of d)(0 \<mapsto> c\<lparr>mpList := filter (\<lambda>r. rd_mTransactionID r \<noteq> ucast tid) (mpList c)\<rparr>) \<and>
     wire d' = wire d @ [client_id_request tid svc] \<and> waits d' = ws"
proof -
  let ?n = "8 + length (qmi_msg 0x22 ts)" and ?c = "c\<lparr>mpList := filter (\<lambda>r. rd_mTransactionID r \<noteq> ucast tid) (mpList c)\<rparr>"
  let ?buf = "replicate 6 0 @ ctl_msg tid 0x22 [(0x01, [svc])] :: u8 list"
  obtain d1 where k1: "kmalloc d = (Some (next_addr d), d1)" "queue_frame d d1" "mallocs d1 = []"
    "mpClientMemList d1 = mpClientMemList d" using kmalloc_unlimited [OF mem] by blast
  have c1: "client_of d1 = client_of d" using k1(4) by (simp add: client_of_def fun_eq_iff)
  have x1: "mQMICTLTransactionID d1 = mQMICTLTransactionID d" using k1(2) by (simp add: queue_frame_def dev_frame_def)
  obtain d2 where d2: "QMIXactionIDGet d1 = Some (tid, d2)" "queue_frame (d1\<lparr>mQMICTLTransactionID := next_xid (mQMICTLTransactionID d)\<rparr>) d2"
    "mallocs d2 = []" "client_of d2 = (client_of d)(0 \<mapsto> ?c)"
    using QMIXactionIDGet_spec [OF idle_frame [OF queue_frame_dev [OF k1(2)] i]] c(1) k1(3)
    by (auto simp: c1 x1 tid QMICTL_def simp del: fun_upd_apply)
  have f2: "idle d2" "writes d2 = []" "waits d2 = waits d" "sems d2 = sems d" "wire d2 = wire d"
    using i d2(2) k1(2) wr dev_frame_ok [OF queue_frame_dev [OF d2(2)]] dev_frame_ok [OF queue_frame_dev [OF k1(2)]]
    by (auto simp: idle_def queue_frame_def dev_frame_def dev_ok_def)
  have build: "QMICTLGetClientIDReq (Ptr (replicate 16 0)) 16 tid svc = Some (16, Ptr ?buf)"
    using get_client_id.build_ok [of 16 "replicate 16 0" "(tid, svc)"]
    by (simp add: QMICTLGetClientIDReqSize_def)
  have len: "length ?buf = 16" by (simp add: ctl_msg_def)
  have c2: "client_of d2 0 = Some ?c" by (simp add: d2(4))
  obtain d3 where d3: "WriteSync d2 ?buf 16 0 = Some (16, d3)" "queue_frame (d2\<lparr>wire := wire d @ [client_id_request tid svc]\<rparr>) d3"
    "mallocs d3 = []" "client_of d3 = client_of d2"
    using WriteSync_sends [OF f2(1) d2(3) f2(2) c2, of ?buf] c(2) len f2(5)
    by (auto simp: client_id_request_def)
  have f3: "idle d3" "waits d3 = waits d" "sems d3 = sems d" "wire d3 = wire d @ [client_id_request tid svc]"
    using f2 d3(2) dev_frame_ok [OF queue_frame_dev [OF d3(2)]]
    by (auto simp: idle_def queue_frame_def dev_frame_def dev_ok_def)
  have ok: "dev_ok d" "dev_ok d3" using i f3(1) by (simp_all add: idle_def)
  have live3: "\<forall>c \<in> set (mpClientMemList d3). live_waiters (sems d3) c"
  proof -
    have "live_waiters (sems d) ?c" using c(3) by (simp add: live_waiters_def)
    then show ?thesis
      using live unfolding all_clients_iff [OF ok(1)] all_clients_iff [OF ok(2)] d3(4) d2(4) f3(3) by simp
  qed
  note resp = client_id_response_facts [OF n]
  have c3: "client_of d3 0 = Some ?c" by (simp add: d3(4) c2)
  have tz: "(ucast tid :: u16) \<noteq> 0" unfolding ucast_u8_u16_zero tid by (rule next_xid_nonzero)
  obtain d4 where d4: "ReadSync d3 0 (ucast tid) = Some ((int ?n, Some (take ?n (client_id_response tid ts))), d4)"
    "idle d4" "mallocs d4 = []" "client_of d4 = client_of d3" "waits d4 = ws" "wire d4 = wire d3"
    using ReadSync_waits [OF f3(1) d3(3) live3 w [folded f3(2)] _ n resp(3) _ _ tz _ c3]
    unfolding resp(1,2) by (simp add: c(3)) metis
  have "GetClientID_request d svc = Some (Inr (of_le16 s k), d4)"
    using k1(1) d2(1) build d3(1) d4(1) resp(1) resp(4) [OF ts] n
    by (simp add: GetClientID_request_def QMICTLGetClientIDReqSize_def QMICTL_def)
  then show ?thesis using d4 d3(4) d2(4) f3(4) by (intro exI [of _ d4]) simp
qed

section \<open>Release\<close>

lemma notify_all_middle:
  assumes "ready d" and "mpClientMemList d = pre @ c # suf" and "live_waiters (sems d) c"
  shows "\<exists>d'. notify_all d (mClientID c) = Some d' \<and> dev_frame d d' \<and> mallocs d' = mallocs d \<and>
     mpClientMemList d' = pre @ c\<lparr>mpReadNotifyList := []\<rparr> # suf \<and>
     sems d' = fold raise (map nt_mpData (mpReadNotifyList c)) (sems d)"
  using assms
proof (induction "mpReadNotifyList c" arbitrary: d c)
  case Nil
  have "NotifyAndPopNotifyList d (mClientID c) 0 = Some (False, d)"
    using Nil client_of_middle [OF Nil.prems(1,2)] by (simp add: NotifyAndPopNotifyList_def ready_simps flip: Nil.hyps)
  with Nil.prems Nil.hyps show ?case by (subst notify_all.simps) auto
next
  case (Cons w ns)
  have fw: "first_waiter 0 c = Some (w, ns)" by (simp add: first_waiter_def flip: Cons.hyps(2))
  have w: "nt_mpNotifyFunct w = Some UpSem" using Cons.prems(3) by (simp add: live_waiters_def flip: Cons.hyps(2))
  let ?c = "c\<lparr>mpReadNotifyList := ns\<rparr>"
  obtain b d1 where d1: "NotifyAndPopNotifyList d (mClientID c) 0 = Some (b, d1)" "dev_frame d d1" "mallocs d1 = mallocs d"
    "sems d1 = raise (nt_mpData w) (sems d)" "mpClientMemList d1 = pre @ ?c # suf"
    using notify_middle [OF Cons.prems(1,2) live_waiters_servable [OF Cons.prems(3)], of 0] Cons.prems(3) fw w
    by (auto simp: woken_def notified_def)
  have b
    using d1(1) client_of_middle [OF Cons.prems(1,2)] Cons.prems(1) fw
    by (auto simp: NotifyAndPopNotifyList_def ready_simps first_waiter_def Let_def bind_eq_Some_conv)
  have "live_waiters (sems d1) ?c"
    using Cons.prems(3) live_waiters_raise [of "sems d" c] Cons.hyps(2) [symmetric] d1(4) by (auto simp: live_waiters_def)
  from Cons.hyps(1) [OF _ ready_frame [OF d1(2) Cons.prems(1)] d1(5) this] obtain d' where
    "notify_all d1 (mClientID c) = Some d'" "dev_frame d1 d'" "mallocs d' = mallocs d1"
    "mpClientMemList d' = pre @ c\<lparr>mpReadNotifyList := []\<rparr> # suf"
    "sems d' = fold raise (map nt_mpData ns) (sems d1)" by auto
  with d1 \<open>b\<close> show ?case
    using dev_frame_trans [OF d1(2)] by (subst notify_all.simps) (simp flip: Cons.hyps(2))
qed

lemma kill_urbs_middle:
  assumes "ready d" and "mpClientMemList d = pre @ c # suf"
  shows "\<exists>d'. kill_urbs d (mClientID c) = Some d' \<and> queue_frame d d' \<and> mallocs d' = mallocs d \<and>
     mpClientMemList d' = pre @ c\<lparr>mpURBList := []\<rparr> # suf"
  using assms
proof (induction "mpURBList c" arbitrary: d c)
  case Nil
  have "PopFromURBList d (mClientID c) = Some (None, d)"
    using Nil client_of_middle [OF Nil.prems] urb_q.pop_empty by simp
  with Nil.prems Nil.hyps show ?case by (subst kill_urbs.simps) auto
next
  case (Cons u us)
  let ?d = "upd_client d (cm_addr c) (\<lambda>c. c\<lparr>mpURBList := us\<rparr>)"
  have id: "keeps_identity (\<lambda>c. c\<lparr>mpURBList := us\<rparr>)" by (simp add: keeps_identity_def)
  have fr: "queue_frame d ?d" by (simp add: queue_frame_upd_client id)
  note r = ready_queue_frame [OF fr Cons.prems(1)]
  have "PopFromURBList d (mClientID c) = Some (Some u, ?d)"
    using urb_q.pop_front [OF Cons.prems(1) client_of_middle [OF Cons.prems], of u us] Cons.hyps(2) by simp
  moreover have "do { d \<leftarrow> spin_unlock ?d; spin_lock d } = Some ?d"
    using r by (simp add: ready_def spin_unlock_def spin_lock_def)
  ultimately have step: "kill_urbs d (mClientID c) = kill_urbs ?d (mClientID c)"
    by (subst kill_urbs.simps) (auto simp: bind_eq_Some_conv)
  have "mpClientMemList ?d = pre @ c\<lparr>mpURBList := us\<rparr> # suf"
    using upd_client_middle [OF _ Cons.prems(2)] Cons.prems(1) by (simp add: ready_def)
  from Cons.hyps(1) [OF _ r this] step show ?case using queue_frame_trans [OF fr] by auto
qed

lemma purge_middle:
  assumes "ready d" and "mpClientMemList d = pre @ c # suf"
  shows "\<exists>d'. purge d (mClientID c) 0 = Some d' \<and> queue_frame d d' \<and> mallocs d' = mallocs d \<and>
     mpClientMemList d' = pre @ c\<lparr>mpList := []\<rparr> # suf"
  using assms
proof (induction "mpList c" arbitrary: d c)
  case Nil
  have "PopFromReadMemList d (mClientID c) 0 = Some (None, d)"
    using Nil client_of_middle [OF Nil.prems] read_q.pop_empty by simp
  with Nil.prems Nil.hyps show ?case by (subst purge.simps) auto
next
  case (Cons m ms)
  let ?d = "upd_client d (cm_addr c) (\<lambda>c. c\<lparr>mpList := ms\<rparr>)"
  have id: "keeps_identity (\<lambda>c. c\<lparr>mpList := ms\<rparr>)" by (simp add: keeps_identity_def)
  have fr: "queue_frame d ?d" by (simp add: queue_frame_upd_client id)
  note r = ready_queue_frame [OF fr Cons.prems(1)]
  have "PopFromReadMemList d (mClientID c) 0 = Some (Some (rd_mpData m, rd_mDataSize m), ?d)"
    using read_q.pop_front [OF Cons.prems(1) client_of_middle [OF Cons.prems], of m ms] Cons.hyps(2) by simp
  then have step: "purge d (mClientID c) 0 = purge ?d (mClientID c) 0" by (subst purge.simps) auto
  have "mpClientMemList ?d = pre @ c\<lparr>mpList := ms\<rparr> # suf"
    using upd_client_middle [OF _ Cons.prems(2)] Cons.prems(1) by (simp add: ready_def)
  from Cons.hyps(1) [OF _ r this] step show ?case using queue_frame_trans [OF fr] by auto
qed

text \<open>The three clean-ups of one client together.\<close>

lemma clean_client:
  assumes "ready d" and "mpClientMemList d = pre @ c # suf" and "live_waiters (sems d) c"
  shows "\<exists>d1 d2 d3. notify_all d (mClientID c) = Some d1 \<and> kill_urbs d1 (mClientID c) = Some d2 \<and>
     purge d2 (mClientID c) 0 = Some d3 \<and> dev_frame d d3 \<and> mallocs d3 = mallocs d \<and>
     mpClientMemList d3 = pre @ c\<lparr>mpReadNotifyList := [], mpURBList := [], mpList := []\<rparr> # suf \<and>
     sems d3 = fold raise (map nt_mpData (mpReadNotifyList c)) (sems d)"
proof -
  obtain d1 where d1: "notify_all d (mClientID c) = Some d1" "dev_frame d d1" "mallocs d1 = mallocs d"
     "mpClientMemList d1 = pre @ c\<lparr>mpReadNotifyList := []\<rparr> # suf"
     "sems d1 = fold raise (map nt_mpData (mpReadNotifyList c)) (sems d)" using notify_all_middle [OF assms] by blast
  note r1 = ready_frame [OF d1(2) assms(1)]
  obtain d2 where d2: "kill_urbs d1 (mClientID c) = Some d2" "queue_frame d1 d2" "mallocs d2 = mallocs d1"
     "mpClientMemList d2 = pre @ c\<lparr>mpReadNotifyList := [], mpURBList := []\<rparr> # suf"
    using kill_urbs_middle [OF r1 d1(4)] by auto
  obtain d3 where d3: "purge d2 (mClientID c) 0 = Some d3" "queue_frame d2 d3" "mallocs d3 = mallocs d2"
     "mpClientMemList d3 = pre @ c\<lparr>mpReadNotifyList := [], mpURBList := [], mpList := []\<rparr> # suf"
    using purge_middle [OF ready_queue_frame [OF d2(2) r1] d2(4)] by auto
  have "queue_frame d1 d3" using queue_frame_trans [OF d2(2) d3(2)] .
  then have "dev_frame d d3" "sems d3 = sems d1" using d1(2) by (auto simp: queue_frame_def intro: dev_frame_trans)
  with d1 d2 d3 show ?thesis by auto
qed

text \<open>Everything but the client list is as before.\<close>

definition list_frame :: "dev \<Rightarrow> dev \<Rightarrow> bool" where
  "list_frame d d' \<longleftrightarrow> dev_frame (d\<lparr>mpClientMemList := mpClientMemList d'\<rparr>) d'"

lemma list_frame_trans: "list_frame d d' \<Longrightarrow> list_frame d' d'' \<Longrightarrow> list_frame d d''"
  by (auto simp: list_frame_def dev_frame_def)

lemma dev_frame_list: "dev_frame d d' \<Longrightarrow> list_frame d d'"
  by (simp add: list_frame_def dev_frame_def)

definition waiter_sems :: "sClientMemList \<Rightarrow> nat list" where
  "waiter_sems c = map nt_mpData (mpReadNotifyList c)"

lemma Release_walk_removes:
  assumes "ready d" and "mpClientMemList d = pre @ suf" and "\<forall>c \<in> set suf. live_waiters (sems d) c"
  shows "\<exists>d'. Release_walk (map cm_addr suf) d cid = Some d' \<and> list_frame d d' \<and> ready d' \<and> mallocs d' = mallocs d \<and>
     mpClientMemList d' = pre @ filter (\<lambda>c. mClientID c \<noteq> cid) suf \<and>
     sems d' = fold raise (concat (map waiter_sems (filter (\<lambda>c. mClientID c = cid) suf))) (sems d)"
  using assms
proof (induction suf arbitrary: d pre)
  case Nil
  then show ?case by (simp add: list_frame_def dev_frame_def)
next
  case (Cons c suf)
  have c: "deref_client d (cm_addr c) = Some c" using Cons.prems(1,2) by (simp add: ready_def deref_client_member)
  show ?case
  proof (cases "mClientID c = cid")
    case False
    with Cons.IH [of d "pre @ [c]"] Cons.prems c show ?thesis by auto
  next
    case True
    obtain d1 d2 d3 where d3: "notify_all d cid = Some d1" "kill_urbs d1 cid = Some d2" "purge d2 cid 0 = Some d3"
      "dev_frame d d3" "mallocs d3 = mallocs d"
      "mpClientMemList d3 = pre @ c\<lparr>mpReadNotifyList := [], mpURBList := [], mpList := []\<rparr> # suf"
      "sems d3 = fold raise (map nt_mpData (mpReadNotifyList c)) (sems d)"
      using clean_client [OF Cons.prems(1,2)] Cons.prems(3) True by auto
    let ?d = "d3\<lparr>mpClientMemList := filter (\<lambda>x. cm_addr x \<noteq> cm_addr c) (mpClientMemList d3)\<rparr>"
    have r3: "ready d3" using ready_frame [OF d3(4) Cons.prems(1)] .
    have "cm_addr c \<notin> cm_addr ` set pre" "cm_addr c \<notin> cm_addr ` set suf"
      using Cons.prems(1,2) by (auto simp: ready_def dev_ok_def image_iff)
    then have "filter (\<lambda>x. cm_addr x \<noteq> cm_addr c) pre = pre" "filter (\<lambda>x. cm_addr x \<noteq> cm_addr c) suf = suf"
      by (auto simp: filter_id_conv image_iff)
    then have cl: "mpClientMemList ?d = pre @ suf" by (simp add: d3(6))
    have r: "ready ?d" using r3 d3(6) cl by (auto simp: ready_def dev_ok_def)
    have "\<forall>c \<in> set suf. live_waiters (sems ?d) c" using Cons.prems(3) d3(7) live_waiters_folds by simp
    from Cons.IH [OF r cl this] obtain d' where d': "Release_walk (map cm_addr suf) ?d cid = Some d'" "list_frame ?d d'"
      "ready d'" "mallocs d' = mallocs d" "mpClientMemList d' = pre @ filter (\<lambda>c. mClientID c \<noteq> cid) suf"
      "sems d' = fold raise (concat (map waiter_sems (filter (\<lambda>c. mClientID c = cid) suf))) (sems d3)"
      by (auto simp: d3(5))
    have "list_frame d d'"
      using d'(2) d3(4) by (auto simp: list_frame_def dev_frame_def)
    with d' c True d3 show ?thesis by (auto simp flip: waiter_sems_def)
  qed
qed

text \<open>Without a control client nothing can be sent: requests end with \<open>-EINVAL\<close>.\<close>

lemma QMIXactionIDGet_absent:
  assumes "idle d" and "client_of d QMICTL = None"
  shows "QMIXactionIDGet d = Some (ucast (next_xid (mQMICTLTransactionID d)),
           d\<lparr>mQMICTLTransactionID := next_xid (mQMICTLTransactionID d)\<rparr>)"
proof -
  let ?d = "d\<lparr>mQMICTLTransactionID := next_xid (mQMICTLTransactionID d)\<rparr>"
  have i: "idle ?d" using assms(1) by (simp add: idle_def dev_ok_def)
  note l = idle_lock [OF i]
  have "purge (?d\<lparr>mClientMemLock := True\<rparr>) QMICTL t = Some (?d\<lparr>mClientMemLock := True\<rparr>)" for t
    using purge_spec [OF l(2), of QMICTL t] assms(2) by simp
  moreover have "spin_unlock (?d\<lparr>mClientMemLock := True\<rparr>) = Some ?d"
    using assms(1) by (simp add: spin_unlock_def idle_def)
  ultimately show ?thesis
    using l(1) next_xid_nonzero [of "mQMICTLTransactionID d"]
    by (auto simp: QMIXactionIDGet_def Let_def next_xid_def add.assoc)
qed

lemma kmalloc_Nil: "mallocs d = [] \<Longrightarrow> kmalloc d = (Some (next_addr d), d\<lparr>next_addr := Suc (next_addr d)\<rparr>)"
  by (simp add: kmalloc_def)

lemma idle_fields [simp]: "idle d \<Longrightarrow> next_addr d \<le> k \<Longrightarrow> idle (d\<lparr>next_addr := k\<rparr>)"
  "idle (d\<lparr>mQMICTLTransactionID := x\<rparr>) = idle d"
  by (auto simp: idle_def dev_ok_def)

lemma WriteSync_absent:
  assumes "idle d" and "mallocs d = []" and "writes d = []" and "client_of d cid = None"
    and "6 \<le> length buf" and "length buf < 65536"
  shows "WriteSync d buf (int (length buf)) cid = Some (- EINVAL, d\<lparr>next_addr := Suc (Suc (next_addr d))\<rparr>)"
proof -
  let ?n = "of_nat (length buf) :: u16" and ?d = "d\<lparr>next_addr := Suc (Suc (next_addr d))\<rparr>"
  let ?data = "sQMUX_bytes (qmux_header 0 cid ?n) @ drop 6 buf"
  have v: "mbQMIValid d" using assms(1) by (simp add: idle_def)
  have "6 \<le> ?n" using assms(5,6) by (simp add: word_le_nat_alt)
  then have fill: "FillQMUX cid (Ptr buf) ?n = Some (0, Ptr ?data)"
    using assms(5) by (simp add: FillQMUX_Ptr puts_def sQMUX_bytes_def)
  have rd: "rdn ?data 0 (length buf) = Some ?data" using assms(5) by (simp add: rdn_def sQMUX_bytes_def)
  have i: "idle ?d" using assms(1) by simp
  note l = idle_lock [OF i]
  have "AddToURBList (?d\<lparr>mClientMemLock := True\<rparr>) cid u = Some (False, ?d\<lparr>mClientMemLock := True\<rparr>)" for u
    using urb_q.add_absent [OF l(2)] assms(4) by simp
  moreover have "spin_unlock (?d\<lparr>mClientMemLock := True\<rparr>) = Some ?d"
    using assms(1) by (simp add: spin_unlock_def idle_def)
  ultimately show ?thesis
    using v fill rd l(1) assms(2,3) by (simp add: WriteSync_def kmalloc_Nil next_write_def write_ok_def)
qed

lemma Release_request_absent:
  assumes "idle d" and "mallocs d = []" and "writes d = []" and "client_of d QMICTL = None"
  shows "Release_request d cid = Some (d\<lparr>mQMICTLTransactionID := next_xid (mQMICTLTransactionID d),
           next_addr := Suc (Suc (Suc (next_addr d)))\<rparr>)"
proof -
  let ?t = "ucast (next_xid (mQMICTLTransactionID d)) :: u8"
  let ?d = "d\<lparr>next_addr := Suc (next_addr d)\<rparr>" and ?buf = "replicate 6 0 @ ctl_msg ?t 0x23 [(0x01, le16 cid)] :: u8 list"
  have x: "QMIXactionIDGet ?d = Some (?t, ?d\<lparr>mQMICTLTransactionID := next_xid (mQMICTLTransactionID d)\<rparr>)"
    using QMIXactionIDGet_absent [of ?d] assms by simp
  have build: "QMICTLReleaseClientIDReq (Ptr (replicate 17 0)) 17 ?t cid = Some (17, Ptr ?buf)"
    using release_client_id.build_ok [of 17 "replicate 17 0" "(?t, cid)"]
    by (simp add: QMICTLReleaseClientIDReqSize_def)
  have len: "length ?buf = 17" by (simp add: ctl_msg_def)
  have "WriteSync (?d\<lparr>mQMICTLTransactionID := next_xid (mQMICTLTransactionID d)\<rparr>) ?buf 17 QMICTL =
     Some (- EINVAL, ?d\<lparr>mQMICTLTransactionID := next_xid (mQMICTLTransactionID d), next_addr := Suc (Suc (Suc (next_addr d)))\<rparr>)"
    using WriteSync_absent [of "?d\<lparr>mQMICTLTransactionID := next_xid (mQMICTLTransactionID d)\<rparr>" QMICTL ?buf] assms len by simp
  with x build assms(2) show ?thesis
    by (simp add: Release_request_def kmalloc_Nil QMICTLReleaseClientIDReqSize_def)
qed

text \<open>A device at rest: lock free, memory available, writes succeed, all waiters alive.\<close>

definition calm :: "dev \<Rightarrow> bool" where
  "calm d \<longleftrightarrow> idle d \<and> mallocs d = [] \<and> writes d = [] \<and> (\<forall>c \<in> set (mpClientMemList d). live_waiters (sems d) c)"

lemma release_clean:
  assumes "calm d"
  shows "\<exists>d'. do { d \<leftarrow> spin_lock d; d \<leftarrow> Release_walk (map cm_addr (mpClientMemList d)) d cid; spin_unlock d } = Some d' \<and>
     list_frame d d' \<and> calm d' \<and> mpClientMemList d' = filter (\<lambda>c. mClientID c \<noteq> cid) (mpClientMemList d) \<and>
     sems d' = fold raise (concat (map waiter_sems
       (filter (\<lambda>c. mClientID c = cid) (mpClientMemList d)))) (sems d)"
proof -
  have i: "idle d" and mem: "mallocs d = []" "writes d = []" and live: "\<forall>c \<in> set (mpClientMemList d). live_waiters (sems d) c"
    using assms by (simp_all add: calm_def)
  note l = idle_lock [OF i]
  let ?d = "d\<lparr>mClientMemLock := True\<rparr>"
  obtain d2 where d2: "Release_walk (map cm_addr (mpClientMemList d)) ?d cid = Some d2" "list_frame ?d d2" "ready d2" "mallocs d2 = []"
    "mpClientMemList d2 = filter (\<lambda>c. mClientID c \<noteq> cid) (mpClientMemList d)"
    "sems d2 = fold raise (concat (map waiter_sems (filter (\<lambda>c. mClientID c = cid) (mpClientMemList d)))) (sems d)"
    using Release_walk_removes [OF l(2), of "[]" "mpClientMemList d" cid] live mem by auto
  let ?e = "d2\<lparr>mClientMemLock := False\<rparr>"
  have "list_frame d ?e" using d2(2) i by (simp add: list_frame_def dev_frame_def idle_def)
  moreover have "calm ?e"
    using ready_unlock(2) [OF d2(3)] d2(2,4-6) mem live live_waiters_folds
    by (auto simp: calm_def list_frame_def dev_frame_def)
  ultimately show ?thesis using d2 l(1) ready_unlock(1) [OF d2(3)] by (intro exI [of _ ?e]) simp
qed

text \<open>Releasing a client when the control client is gone, or the control client itself.\<close>

lemma ReleaseClientID_quiet:
  assumes "calm d" and "cid = QMICTL \<or> client_of d QMICTL = None \<or> \<not> udev_state d"
  shows "\<exists>d'. ReleaseClientID d cid = Some d' \<and> calm d' \<and> wire d' = wire d \<and> waits d' = waits d \<and>
     mpClientMemList d' = filter (\<lambda>c. mClientID c \<noteq> cid) (mpClientMemList d) \<and>
     sems d' = fold raise (concat (map waiter_sems (filter (\<lambda>c. mClientID c = cid) (mpClientMemList d)))) (sems d)"
proof -
  define d1 where "d1 = (if cid \<noteq> QMICTL \<and> udev_state d then d\<lparr>mQMICTLTransactionID := next_xid (mQMICTLTransactionID d),
           next_addr := Suc (Suc (Suc (next_addr d)))\<rparr> else d)"
  have c1: "calm d1" using assms(1) by (auto simp: d1_def calm_def idle_def dev_ok_def)
  obtain d' where d': "do { d \<leftarrow> spin_lock d1; d \<leftarrow> Release_walk (map cm_addr (mpClientMemList d)) d cid; spin_unlock d } = Some d'"
    "list_frame d1 d'" "calm d'" "mpClientMemList d' = filter (\<lambda>c. mClientID c \<noteq> cid) (mpClientMemList d1)"
    "sems d' = fold raise (concat (map waiter_sems (filter (\<lambda>c. mClientID c = cid) (mpClientMemList d1)))) (sems d1)"
    using release_clean [OF c1, of cid] by blast
  have "(if cid \<noteq> QMICTL \<and> udev_state d then Release_request d cid else Some d) = Some d1"
    using assms Release_request_absent [of d cid] by (auto simp: d1_def calm_def)
  then have "ReleaseClientID d cid = Some d'"
    using d'(1) assms(1) by (simp add: ReleaseClientID_def calm_def idle_def)
  moreover have "mpClientMemList d1 = mpClientMemList d" "wire d1 = wire d" "waits d1 = waits d" "sems d1 = sems d"
    by (simp_all add: d1_def)
  ultimately show ?thesis using d'(2-5) by (auto simp: list_frame_def dev_frame_def)
qed

lemma filter_head:
  assumes "distinct (map g (x # xs))"
  shows "filter (\<lambda>y. g y \<noteq> g x) (x # xs) = xs"
  using assms by (auto simp: filter_id_conv image_iff)

text \<open>Clients released from the head of a list that starts with the control client.\<close>

definition ctl_first :: "dev \<Rightarrow> bool" where
  "ctl_first d \<longleftrightarrow> (\<forall>c \<in> set (tl (mpClientMemList d)). mClientID c \<noteq> QMICTL)"

lemma ctl_first_absent:
  assumes "ctl_first d" and "mpClientMemList d = c # cs" and "mClientID c \<noteq> QMICTL"
  shows "client_of d QMICTL = None"
  using assms by (auto simp: ctl_first_def client_of_def find_None_iff)

lemma unlock_calm:
  assumes "ready d" and "mallocs d = []" and "writes d = []" and "\<forall>c \<in> set (mpClientMemList d). live_waiters (sems d) c"
  shows "calm (d\<lparr>mClientMemLock := False\<rparr>)"
  using assms ready_unlock(2) [OF assms(1)] by (simp add: calm_def)

lemma calm_lock:
  assumes "calm d"
  shows "spin_lock d = Some (d\<lparr>mClientMemLock := True\<rparr>)" and "ready (d\<lparr>mClientMemLock := True\<rparr>)"
    and "mallocs (d\<lparr>mClientMemLock := True\<rparr>) = []" and "writes (d\<lparr>mClientMemLock := True\<rparr>) = []"
    and "\<forall>c \<in> set (mpClientMemList (d\<lparr>mClientMemLock := True\<rparr>)). live_waiters (sems (d\<lparr>mClientMemLock := True\<rparr>)) c"
  using assms idle_lock [of d] by (simp_all add: calm_def)

lemma release_all_ends:
  assumes "ready d" and "mallocs d = []" and "writes d = []" and "\<forall>c \<in> set (mpClientMemList d). live_waiters (sems d) c"
    and "ctl_first d"
  shows "\<exists>d'. release_all d = Some d' \<and> ready d' \<and> mpClientMemList d' = [] \<and> wire d' = wire d"
  using assms
proof (induction "sum_list (map (\<lambda>c. Suc (mWaitQueue c)) (mpClientMemList d))" arbitrary: d rule: less_induct)
  case less
  show ?case
  proof (cases "mpClientMemList d")
    case Nil
    with less.prems show ?thesis by (subst release_all.simps) simp
  next
    case (Cons c cs)
    note u = ready_unlock [OF less.prems(1)] and cu = unlock_calm [OF less.prems(1-4)]
    show ?thesis
    proof (cases "0 < mWaitQueue c")
      case True
      let ?f = "\<lambda>c. c\<lparr>mWaitQueue := mWaitQueue c - 1\<rparr>"
      let ?d = "upd_client d (cm_addr c) ?f"
      have cl: "mpClientMemList ?d = ?f c # cs"
        using upd_client_middle [of d "[]" c cs ?f] less.prems(1) Cons by (simp add: ready_def)
      have "spin_lock (upd_client (d\<lparr>mClientMemLock := False\<rparr>) (cm_addr c) ?f) = Some ?d"
        using less.prems(1) by (cases d) (simp add: upd_client_def spin_lock_def ready_def)
      then have "release_all d = release_all ?d"
        using Cons True u(1) by (subst release_all.simps) simp
      moreover have "sems ?d = sems d" "wire ?d = wire d" "writes ?d = writes d" by (simp_all add: upd_client_def)
      moreover have "ready ?d"
        using less.prems(1) Cons cl by (auto simp: ready_def dev_ok_def upd_client_def)
      moreover have "ctl_first ?d" using less.prems(5) Cons unfolding ctl_first_def cl by simp
      ultimately show ?thesis
        using less.hyps [of ?d] True Cons less.prems(2-4) unfolding cl by (auto simp: live_waiters_def)
    next
      case False
      let ?u = "d\<lparr>mClientMemLock := False\<rparr>"
      have q: "mClientID c = QMICTL \<or> client_of ?u QMICTL = None \<or> \<not> udev_state ?u"
        using ctl_first_absent [OF less.prems(5) Cons] by (cases "mClientID c = QMICTL") simp_all
      obtain d2 where d2: "ReleaseClientID ?u (mClientID c) = Some d2" "calm d2" "wire d2 = wire d"
        "mpClientMemList d2 = filter (\<lambda>x. mClientID x \<noteq> mClientID c) (c # cs)"
        using ReleaseClientID_quiet [OF cu q] Cons by auto
      have "distinct (map mClientID (c # cs))" using less.prems(1) Cons by (simp add: ready_def dev_ok_def)
      then have cl: "mpClientMemList d2 = cs" using d2(4) filter_head by metis
      let ?d = "d2\<lparr>mClientMemLock := True\<rparr>"
      have "release_all d = release_all ?d"
        using Cons False u(1) d2(1) calm_lock(1) [OF d2(2)] by (subst release_all.simps) simp
      moreover have "ctl_first ?d" using less.prems(5) Cons cl by (cases cs) (auto simp: ctl_first_def)
      ultimately show ?thesis
        using less.hyps [of ?d] calm_lock(2-5) [OF d2(2)] cl Cons d2(3) by simp
    qed
  qed
qed

lemma DeregisterQMIDevice_ends:
  assumes "calm d" and "ctl_first d"
  shows "\<exists>d'. DeregisterQMIDevice d = Some d' \<and> mpClientMemList d' = [] \<and> \<not> mbQMIValid d' \<and> \<not> mClientMemLock d' \<and>
     \<not> mpReadURB d' \<and> \<not> mpIntURB d' \<and> wire d' = wire d"
proof -
  let ?d = "d\<lparr>mbDeregisterQMIDevice := True\<rparr>"
  have c: "calm ?d" using assms(1) by (auto simp: calm_def idle_def dev_ok_def)
  have "ctl_first (?d\<lparr>mClientMemLock := True\<rparr>)" using assms(2) by (simp add: ctl_first_def)
  from release_all_ends [OF calm_lock(2-5) [OF c] this] obtain d2 where
    d2: "release_all (?d\<lparr>mClientMemLock := True\<rparr>) = Some d2" "ready d2" "mpClientMemList d2 = []" "wire d2 = wire d" by auto
  then show ?thesis
    using calm_lock(1) [OF c] ready_unlock(1) [OF d2(2)] assms(1)
    by (simp add: DeregisterQMIDevice_def QuecKillRead_def calm_def idle_def)
qed

section \<open>Reading and writing files\<close>

lemma UserspaceWrite_sends:
  assumes "idle d" and "mallocs d = []" and "writes d = []" and "client_of d (fp_mClientID fd) = Some c"
    and "mpURBList c = []" and "fp_mClientID fd \<noteq> - 1" and "length pBuf + 6 < 65536"
  shows "\<exists>d'. UserspaceWrite d (Some fd) pBuf 0 = Some (int (length pBuf), d') \<and>
     wire d' = wire d @ [sQMUX_bytes (qmux_header 0 (fp_mClientID fd) (of_nat (length pBuf + 6))) @ pBuf]"
proof -
  let ?d = "d\<lparr>next_addr := Suc (next_addr d)\<rparr>" and ?buf = "replicate 6 0 @ pBuf"
  obtain d' where "WriteSync ?d ?buf (int (length pBuf) + 6) (fp_mClientID fd) = Some (int (length pBuf) + 6, d')"
    "wire d' = wire d @ [sQMUX_bytes (qmux_header 0 (fp_mClientID fd) (of_nat (length pBuf + 6))) @ pBuf]"
    using WriteSync_sends [of ?d "fp_mClientID fd" c ?buf] assms
    by (auto simp: add.commute queue_frame_def dev_frame_def)
  then show ?thesis
    using assms by (simp add: UserspaceWrite_def kmalloc_Nil QMUXHeaderSize_def idle_def Let_def)
qed


lemma ReadSync_immediate:
  assumes "idle d" and "client_of d cid = Some c"
    and "unlink_first (\<lambda>r. t = 0 \<or> t = rd_mTransactionID r) (mpList c) = Some (m, ms)"
  shows "\<exists>d'. ReadSync d cid t = Some ((int (unat (rd_mDataSize m)), Some (rd_mpData m)), d') \<and>
     client_of d' = (client_of d)(cid \<mapsto> c\<lparr>mpList := ms\<rparr>)"
proof -
  let ?d = "d\<lparr>next_addr := Suc (next_addr d)\<rparr>"
  have "idle ?d" "client_of ?d cid = Some c" using assms by simp_all
  from pop_section_found [OF this assms(3)] obtain a b d' where
    p: "spin_lock ?d = Some a" "PopFromReadMemList a cid t = Some (Some (rd_mpData m, rd_mDataSize m), b)"
    "spin_unlock b = Some d'" "client_of d' = (client_of d)(cid \<mapsto> c\<lparr>mpList := ms\<rparr>)" by auto
  have a: "a = d\<lparr>mClientMemLock := True, next_addr := Suc (next_addr d)\<rparr>"
    using p(1) by (cases d) (auto simp: spin_lock_def split: if_splits)
  have "ReadSync_loop a cid t (cm_addr c) (next_addr d) = Some ((int (unat (rd_mDataSize m)), Some (rd_mpData m)), d')"
    using p(2,3) by (subst ReadSync_loop.simps) simp
  then have "ReadSync d cid t = Some ((int (unat (rd_mDataSize m)), Some (rd_mpData m)), d'\<lparr>sems := (sems d')(next_addr d := None)\<rparr>)"
    using assms(1,2) idle_lock [OF assms(1)] a by (simp add: ReadSync_def ready_FindClientMem idle_def)
  with p(4) show ?thesis by simp
qed

lemma UserspaceRead_payload:
  assumes "idle d" and "client_of d (fp_mClientID fd) = Some c" and "fp_mClientID fd \<noteq> - 1"
    and "mpList c = m # ms" and "unat (rd_mDataSize m) = length (rd_mpData m)" and "6 < length (rd_mpData m)"
  shows "\<exists>d'. UserspaceRead d (Some fd) len True =
      Some (if len < length (rd_mpData m) - 6 then (- EOVERFLOW, [])
            else (int (length (rd_mpData m)) - 6, drop 6 (rd_mpData m)), d') \<and>
     client_of d' = (client_of d)(fp_mClientID fd \<mapsto> c\<lparr>mpList := ms\<rparr>)"
proof -
  have "unlink_first (\<lambda>r. (0::u16) = 0 \<or> 0 = rd_mTransactionID r) (mpList c) = Some (m, ms)" using assms(4) by simp
  from ReadSync_immediate [OF assms(1,2) this] obtain d' where
    "ReadSync d (fp_mClientID fd) 0 = Some ((int (length (rd_mpData m)), Some (rd_mpData m)), d')"
    "client_of d' = (client_of d)(fp_mClientID fd \<mapsto> c\<lparr>mpList := ms\<rparr>)" using assms(5) by auto
  then show ?thesis
    using assms by (intro exI [of _ d']) (auto simp: UserspaceRead_def QMUXHeaderSize_def idle_def Let_def rdn_def nat_diff_distrib)
qed

lemma UserspacePoll_ready:
  assumes "idle d" and "client_of d (fp_mClientID fd) = Some c" and "fp_mClientID fd \<noteq> - 1" and "\<not> mbDeregisterQMIDevice d"
  shows "\<exists>st. UserspacePoll d (Some fd) = Some (st, d) \<and> (bit st 0 \<longleftrightarrow> mpList c \<noteq> []) \<and> bit st 2 \<and> \<not> bit st 3"
proof -
  note l = idle_lock [OF assms(1)]
  have "spin_unlock (d\<lparr>mClientMemLock := True\<rparr>) = Some d" using assms(1) by (cases d) (simp add: spin_unlock_def idle_def)
  moreover have "deref_client (d\<lparr>mClientMemLock := True\<rparr>) (cm_addr c) = Some c" using ready_deref [OF l(2)] assms(2) by simp
  ultimately have "UserspacePoll d (Some fd) = Some ((if mpList c \<noteq> [] then POLLOUT OR POLLWRNORM OR (POLLIN OR POLLRDNORM)
      else POLLOUT OR POLLWRNORM) OR POLLOUT OR POLLWRNORM, d)"
    using assms l by (simp add: UserspacePoll_def ready_FindClientMem idle_def Let_def or.assoc)
  then show ?thesis by (auto simp: POLLIN_def POLLOUT_def POLLWRNORM_def POLLRDNORM_def)
qed

section \<open>Allocation of the read resources\<close>

definition read_resources :: "dev \<Rightarrow> bool list" where
  "read_resources d = [mpReadURB d, mpIntURB d, mpReadBuffer d, mpIntBuffer d, mpReadSetupPacket d]"

lemma kmalloc_read_resources: "kmalloc d = (r, d') \<Longrightarrow> mpReadURB d' = mpReadURB d \<and> mpIntURB d' = mpIntURB d \<and>
    mpReadBuffer d' = mpReadBuffer d \<and> mpIntBuffer d' = mpIntBuffer d \<and> mpReadSetupPacket d' = mpReadSetupPacket d \<and>
    endpoints d' = endpoints d"
  by (auto simp: kmalloc_def split: list.splits bool.splits)

lemma QuecStartRead_all_or_nothing:
  assumes "mbQMIValid d" and "read_resources d = replicate 5 False"
  shows "case QuecStartRead d submit of (r, d') \<Rightarrow>
     (r = submit \<and> read_resources d' = replicate 5 True) \<or>
     (r \<in> {- ENOMEM, - ENXIO} \<and> read_resources d' = replicate 5 False)"
proof -
  obtain r1 d1 where k1: "kmalloc d = (r1, d1)" by fastforce
  obtain r2 d2 where k2: "kmalloc (d1\<lparr>mpReadURB := True\<rparr>) = (r2, d2)" by fastforce
  obtain r3 d3 where k3: "kmalloc (d2\<lparr>mpIntURB := True\<rparr>) = (r3, d3)" by fastforce
  obtain r4 d4 where k4: "kmalloc (d3\<lparr>mpReadBuffer := True\<rparr>) = (r4, d4)" by fastforce
  obtain r5 d5 where k5: "kmalloc (d4\<lparr>mpIntBuffer := True\<rparr>) = (r5, d5)" by fastforce
  note ks = k1 k2 k3 k4 k5
  have fields: "mpIntURB d1 = False" "mpReadBuffer d1 = False" "mpIntBuffer d1 = False" "mpReadSetupPacket d1 = False"
    "mpReadURB d2 = True" "mpReadBuffer d2 = False" "mpIntBuffer d2 = False" "mpReadSetupPacket d2 = False"
    "mpReadURB d3 = True" "mpIntURB d3 = True" "mpIntBuffer d3 = False" "mpReadSetupPacket d3 = False"
    "mpReadURB d4 = True" "mpIntURB d4 = True" "mpReadBuffer d4 = True" "mpReadSetupPacket d4 = False"
    "mpReadURB d5 = True" "mpIntURB d5 = True" "mpReadBuffer d5 = True" "mpIntBuffer d5 = True"
    using assms(2) ks [THEN kmalloc_read_resources] by (simp_all add: read_resources_def numeral_eq_Suc)
  show ?thesis
    using assms(1)
    by (cases r1; cases r2; cases r3; cases r4; cases r5; cases "GetEndpoint (endpoints d5) USB_ENDPOINT_XFER_INT USB_DIR_IN")
      (simp_all add: QuecStartRead_def ks fields read_resources_def numeral_eq_Suc)
qed

section \<open>Properties of the driver\<close>

text \<open>A device whose modem answers the next client ID request with client 1 of service 3.\<close>

definition example_tlvs :: "(u8 \<times> u8 list) list" where
  "example_tlvs = [(2, [0, 0, 0, 0]), (1, [3, 1])]"

definition answering_dev :: dev where
  "answering_dev = example_dev\<lparr>waits := [([ReadDone 0 (client_id_response 1 example_tlvs) 24], [])]\<rparr>"

lemma answering_facts:
  "idle answering_dev" "mallocs answering_dev = []" "writes answering_dev = []" "wire answering_dev = []"
  "\<forall>c \<in> set (mpClientMemList answering_dev). live_waiters (sems answering_dev) c"
  "client_of answering_dev 0 = Some (mpClientMemList example_dev ! 0)"
  "client_of answering_dev 0x0103 = None" "mQMICTLTransactionID answering_dev = 0"
  "waits answering_dev = ([ReadDone 0 (client_id_response 1 example_tlvs) 24], []) # []"
  using example_dev_idle example_live
  by (simp_all add: answering_dev_def example_mallocs idle_def dev_ok_def)
    (simp_all add: example_dev_def client_of_def)

lemma answering_client: "mpURBList (mpClientMemList example_dev ! 0) = []" "mpReadNotifyList (mpClientMemList example_dev ! 0) = []"
  by (simp_all add: example_dev_def)

lemma example_clients:
  "client_of example_dev 0x0101 = Some (mpClientMemList example_dev ! Suc 0)" "mpURBList (mpClientMemList example_dev ! Suc 0) = []"
  "client_of example_dev 0x0201 = Some (mpClientMemList example_dev ! 2)"
  "mpList (mpClientMemList example_dev ! 2) = [\<lparr>rd_mpData = replicate 9 0 @ qmi_msg 0x22 [(1, [2, 0])],
     rd_mTransactionID = 0, rd_mDataSize = 18\<rparr>]"
  "mallocs example_dev = []" "writes example_dev = []" "wire example_dev = []"
  by (simp_all add: example_dev_def client_of_def)

lemma calm_example: "calm example_dev" "ctl_first example_dev"
  using example_dev_idle example_live example_mallocs
  by (simp_all add: calm_def) (simp_all add: example_dev_def ctl_first_def QMICTL_def)

text \<open>
  C6. A client ID exchange from end to end: \<open>GetClientID\<close> sends exactly one well-formed request with
  a fresh transaction ID, sleeps, is woken by the delivery of the modem's answer, extracts the client
  ID from it and enters a client with empty queues under that ID; stale answers with the
  transaction ID are gone and all other clients are as they were.
\<close>

theorem get_client_id_exchange:
  assumes i: "idle d" and mem: "mallocs d = []" and wr: "writes d = []"
    and live: "\<forall>c \<in> set (mpClientMemList d). live_waiters (sems d) c"
    and c: "client_of d 0 = Some c" "mpURBList c = []" "mpReadNotifyList c = []"
    and w: "waits d = ([ReadDone 0 (client_id_response tid ts) (8 + length (qmi_msg 0x22 ts))], e) # ws"
    and n: "8 + length (qmi_msg 0x22 ts) < 65536" and tid: "tid = ucast (next_xid (mQMICTLTransactionID d))"
    and ts: "result_code ts = 0" "tlv_find 1 ts = Some [s, k]"
    and new: "client_of d (of_le16 s k) = None" and svc: "svc \<noteq> 0"
  shows "\<exists>a d'. GetClientID d svc = Some (int (unat (of_le16 s k)), d') \<and> idle d' \<and>
     client_of d' = (client_of d)(0 \<mapsto> c\<lparr>mpList := filter (\<lambda>r. rd_mTransactionID r \<noteq> ucast tid) (mpList c)\<rparr>,
                                 of_le16 s k \<mapsto> new_client a (of_le16 s k)) \<and>
     wire d' = wire d @ [client_id_request tid svc] \<and> waits d' = ws"
proof -
  obtain d1 where d1: "GetClientID_request d svc = Some (Inr (of_le16 s k), d1)" "idle d1" "mallocs d1 = []"
    "client_of d1 = (client_of d)(0 \<mapsto> c\<lparr>mpList := filter (\<lambda>r. rd_mTransactionID r \<noteq> ucast tid) (mpList c)\<rparr>)"
    "wire d1 = wire d @ [client_id_request tid svc]" "waits d1 = ws"
    using GetClientID_exchange [OF i mem wr live c w n tid ts, of svc] by blast
  have "client_of d1 (of_le16 s k) = None" using new c(1) d1(4) by auto
  from GetClientID_register_spec [OF d1(2,3) this] obtain a d' where
    "GetClientID_register d1 (of_le16 s k) = Some (int (unat (of_le16 s k)), d')" "idle d'"
    "client_of d' = (client_of d1)(of_le16 s k \<mapsto> new_client a (of_le16 s k))" "wire d' = wire d1" "waits d' = waits d1"
    by blast
  moreover have "mbQMIValid d" using i by (simp add: idle_def)
  ultimately show ?thesis
    using d1 svc by (intro exI [of _ a] exI [of _ d']) (simp add: GetClientID_def)
qed

theorem get_client_id_exchange_witness:
  "\<exists>d'. GetClientID answering_dev 3 = Some (0x0103, d') \<and> map_option mpList (client_of d' 0x0103) = Some [] \<and>
     wire d' = [client_id_request 1 3]"
proof -
  have m: "8 + length (qmi_msg 0x22 example_tlvs) = 24" by (simp add: example_tlvs_def)
  have k: "of_le16 3 1 = 0x0103" by (simp add: of_le16_def)
  have tid: "1 = (ucast (next_xid (mQMICTLTransactionID answering_dev)) :: u8)"
    unfolding answering_facts(8) by (simp add: next_xid_def)
  have w: "waits answering_dev = ([ReadDone 0 (client_id_response 1 example_tlvs) (8 + length (qmi_msg 0x22 example_tlvs))], []) # []"
    unfolding m by (rule answering_facts(9))
  have n: "8 + length (qmi_msg 0x22 example_tlvs) < 65536" unfolding m by simp
  have ts: "result_code example_tlvs = 0" "tlv_find 1 example_tlvs = Some [3, 1]" by (simp_all add: example_tlvs_def result_code_def)
  have new: "client_of answering_dev (of_le16 3 1) = None" unfolding k by (rule answering_facts(7))
  note ex = get_client_id_exchange [OF answering_facts(1-3,5,6) answering_client w n tid ts new, of 3]
  show ?thesis using ex by (auto simp: k new_client_def answering_facts(4))
qed

text \<open>
  C7. A synchronous write that the USB stack carries out puts exactly the QMUX header of the
  client, with the length of the message, and the caller's bytes on the wire. The result is the
  size only when the client had no URB outstanding: with an earlier one in its list the wrong URB is
  taken back and the caller is told \<open>-EINVAL\<close> although the message has been sent.
\<close>

theorem write_sync_sends:
  assumes "idle d" and "mallocs d = []" and "writes d = []" and "client_of d cid = Some c"
    and "6 \<le> length buf" and "length buf < 65536" and "next_addr d \<notin> set (mpURBList c)"
  shows "\<exists>d'. WriteSync d buf (int (length buf)) cid = Some (if mpURBList c = [] then int (length buf) else - EINVAL, d') \<and>
     wire d' = wire d @ [sQMUX_bytes (qmux_header 0 cid (of_nat (length buf))) @ drop 6 buf] \<and> idle d' \<and>
     (mpURBList c = [] \<longrightarrow> client_of d' = client_of d)"
proof -
  obtain d' where d': "WriteSync d buf (int (length buf)) cid = Some (if mpURBList c = [] then int (length buf) else - EINVAL, d')"
    "queue_frame (d\<lparr>wire := wire d @ [sQMUX_bytes (qmux_header 0 cid (of_nat (length buf))) @ drop 6 buf]\<rparr>) d'"
    "mpURBList c = [] \<longrightarrow> client_of d' = client_of d" using WriteSync_sends [OF assms] by blast
  have "idle (d\<lparr>wire := wire d @ [sQMUX_bytes (qmux_header 0 cid (of_nat (length buf))) @ drop 6 buf]\<rparr>)"
    using assms(1) by (simp add: idle_def dev_ok_def)
  then have "idle d'" using idle_frame [OF queue_frame_dev [OF d'(2)]] by blast
  with d' show ?thesis by (auto simp: queue_frame_def dev_frame_def)
qed

theorem write_sync_sends_witness:
  "\<exists>d'. WriteSync answering_dev [0, 0, 0, 0, 0, 0, 7] 7 0 = Some (7, d') \<and> wire d' = [[1, 6, 0, 0, 0, 0, 7]]"
  using write_sync_sends [OF answering_facts(1-3,6), of "[0, 0, 0, 0, 0, 0, 7]"]
  by (auto simp: answering_client answering_facts(4) sQMUX_bytes_def qmux_header_def le16_def)

text \<open>
  Deregistration ends and empties the client list, frees the read resources and invalidates
  the device. When the control client is the first of the list, as registration makes it, no message
  reaches the modem: the control client goes first, so that none of the other releases can be sent.
\<close>

theorem deregister_sends_nothing:
  assumes "calm d" and "ctl_first d"
  shows "\<exists>d'. DeregisterQMIDevice d = Some d' \<and> mpClientMemList d' = [] \<and> \<not> mbQMIValid d' \<and> \<not> mClientMemLock d' \<and>
     \<not> mpReadURB d' \<and> \<not> mpIntURB d' \<and> wire d' = wire d"
  using assms by (rule DeregisterQMIDevice_ends)

theorem deregister_sends_nothing_witness:
  "\<exists>d'. DeregisterQMIDevice example_dev = Some d' \<and> mpClientMemList d' = [] \<and> wire d' = []"
  using deregister_sends_nothing [OF calm_example] by (auto simp: example_dev_def)

text \<open>
  Releasing a client, on a device that is unplugged or has no control client, removes exactly
  the entry with that ID, wakes every thread that waits on it, and keeps the device in order.
\<close>

theorem release_removes_client:
  assumes "calm d" and "cid = QMICTL \<or> client_of d QMICTL = None \<or> \<not> udev_state d"
  shows "\<exists>d'. ReleaseClientID d cid = Some d' \<and> calm d' \<and>
     mpClientMemList d' = filter (\<lambda>c. mClientID c \<noteq> cid) (mpClientMemList d) \<and>
     sems d' = fold raise (concat (map waiter_sems (filter (\<lambda>c. mClientID c = cid) (mpClientMemList d)))) (sems d)"
  using ReleaseClientID_quiet [OF assms] by blast

theorem release_removes_client_witness:
  "\<exists>d'. ReleaseClientID (example_dev\<lparr>udev_state := False\<rparr>) 0x0101 = Some d' \<and>
     map mClientID (mpClientMemList d') = [0, 0x0201] \<and> map_option readSem (sems d' 3) = Some 1"
proof -
  have "calm (example_dev\<lparr>udev_state := False\<rparr>)" using calm_example(1) by (auto simp: calm_def idle_def dev_ok_def)
  from release_removes_client [OF this, of "0x0101"] show ?thesis
    by (auto simp: example_dev_def waiter_sems_def raise_def)
qed

text \<open>
  Transaction IDs are never 0, the value that matches everything, and are handed out together
  with a control queue that holds no message with the same ID; other messages stay.
\<close>

theorem transaction_id_fresh:
  assumes "idle d" and "client_of d QMICTL = Some c"
  shows "\<exists>tid d'. QMIXactionIDGet d = Some (tid, d') \<and> tid \<noteq> 0 \<and> idle d' \<and>
     client_of d' = (client_of d)(QMICTL \<mapsto> c\<lparr>mpList := filter (\<lambda>r. rd_mTransactionID r \<noteq> ucast tid) (mpList c)\<rparr>)"
proof -
  obtain d' where d': "QMIXactionIDGet d = Some (ucast (next_xid (mQMICTLTransactionID d)), d')"
    "queue_frame (d\<lparr>mQMICTLTransactionID := next_xid (mQMICTLTransactionID d)\<rparr>) d'"
    "client_of d' = (client_of d)(QMICTL \<mapsto>
       c\<lparr>mpList := filter (\<lambda>r. rd_mTransactionID r \<noteq> ucast (ucast (next_xid (mQMICTLTransactionID d)) :: u8)) (mpList c)\<rparr>)"
    using QMIXactionIDGet_spec [OF assms(1)] assms(2) by auto
  have "idle d'" using idle_frame [OF queue_frame_dev [OF d'(2)]] assms(1) by simp
  with d' next_xid_nonzero show ?thesis by blast
qed

theorem transaction_id_fresh_witness:
  "\<exists>tid d'. QMIXactionIDGet answering_dev = Some (tid, d') \<and> tid \<noteq> 0 \<and> idle d'"
  using transaction_id_fresh [OF answering_facts(1)] answering_facts(6) by (auto simp: QMICTL_def)

text \<open>
  A write through the character device puts the QMUX header of the file's client and the user's
  bytes on the wire and returns the user's size, for messages whose size fits the header's 16 bits.
\<close>

theorem userspace_write_sends:
  assumes "idle d" and "mallocs d = []" and "writes d = []" and "client_of d (fp_mClientID fd) = Some c"
    and "mpURBList c = []" and "fp_mClientID fd \<noteq> - 1" and "length pBuf + 6 < 65536"
  shows "\<exists>d'. UserspaceWrite d (Some fd) pBuf 0 = Some (int (length pBuf), d') \<and>
     wire d' = wire d @ [sQMUX_bytes (qmux_header 0 (fp_mClientID fd) (of_nat (length pBuf + 6))) @ pBuf]"
  using assms by (rule UserspaceWrite_sends)

theorem userspace_write_sends_witness:
  "\<exists>d'. UserspaceWrite example_dev (Some \<lparr>fp_mClientID = 0x0101\<rparr>) [9] 0 = Some (1, d') \<and> wire d' = [[1, 6, 0, 0, 1, 1, 9]]"
proof -
  have "(257 :: u8) = 1" by simp
  then show ?thesis
    using userspace_write_sends [of example_dev "\<lparr>fp_mClientID = 0x0101\<rparr>" "mpClientMemList example_dev ! Suc 0" "[9]"] example_dev_idle
    by (auto simp: example_clients sQMUX_bytes_def qmux_header_def le16_def)
qed

text \<open>
  A read through the character device returns the first queued message of the file's client
  without its QMUX header and takes it off the queue; a user buffer that is too small is answered
  with \<open>-EOVERFLOW\<close>, and the message is lost.
\<close>

theorem userspace_read_payload:
  assumes "idle d" and "client_of d (fp_mClientID fd) = Some c" and "fp_mClientID fd \<noteq> - 1"
    and "mpList c = m # ms" and "unat (rd_mDataSize m) = length (rd_mpData m)" and "6 < length (rd_mpData m)"
  shows "\<exists>d'. UserspaceRead d (Some fd) len True =
      Some (if len < length (rd_mpData m) - 6 then (- EOVERFLOW, [])
            else (int (length (rd_mpData m)) - 6, drop 6 (rd_mpData m)), d') \<and>
     client_of d' = (client_of d)(fp_mClientID fd \<mapsto> c\<lparr>mpList := ms\<rparr>)"
  using assms by (rule UserspaceRead_payload)

theorem userspace_read_payload_witness:
  "\<exists>d'. UserspaceRead example_dev (Some \<lparr>fp_mClientID = 0x0201\<rparr>) 100 True =
     Some ((12, replicate 3 0 @ qmi_msg 0x22 [(1, [2, 0])]), d')"
  using userspace_read_payload [of example_dev "\<lparr>fp_mClientID = 0x0201\<rparr>" "mpClientMemList example_dev ! 2"
      "hd (mpList (mpClientMemList example_dev ! 2))" "[]" 100] example_dev_idle
  by (auto simp: example_clients)

text \<open>
  Polling reports "readable" exactly when a message is queued for the file's client, always
  "writable", and no error, without changing the device.
\<close>

theorem userspace_poll_ready:
  assumes "idle d" and "client_of d (fp_mClientID fd) = Some c" and "fp_mClientID fd \<noteq> - 1" and "\<not> mbDeregisterQMIDevice d"
  shows "\<exists>st. UserspacePoll d (Some fd) = Some (st, d) \<and> (bit st 0 \<longleftrightarrow> mpList c \<noteq> []) \<and> bit st 2 \<and> \<not> bit st 3"
  using assms by (rule UserspacePoll_ready)

theorem userspace_poll_ready_witness:
  "\<exists>st. UserspacePoll example_dev (Some \<lparr>fp_mClientID = 0x0201\<rparr>) = Some (st, example_dev) \<and> bit st 0"
proof -
  have "\<not> mbDeregisterQMIDevice example_dev" by (simp add: example_dev_def)
  then show ?thesis
    using userspace_poll_ready [OF example_dev_idle, of "\<lparr>fp_mClientID = 0x0201\<rparr>"] by (auto simp: example_clients)
qed

text \<open>
  Starting to read allocates both URBs, both buffers and the setup packet, or, when any
  allocation fails or there is no interrupt endpoint, leaves none of them allocated.
\<close>

theorem start_read_all_or_nothing:
  assumes "mbQMIValid d" and "read_resources d = replicate 5 False"
  shows "case QuecStartRead d submit of (r, d') \<Rightarrow>
     (r = submit \<and> read_resources d' = replicate 5 True) \<or>
     (r \<in> {- ENOMEM, - ENXIO} \<and> read_resources d' = replicate 5 False)"
  using assms by (rule QuecStartRead_all_or_nothing)

theorem start_read_all_or_nothing_witness:
  "case QuecStartRead ((QuecKillRead example_dev)\<lparr>mallocs := [True, True, False]\<rparr>) 0 of (r, d') \<Rightarrow>
     (r = 0 \<and> read_resources d' = replicate 5 True) \<or>
     (r \<in> {- ENOMEM, - ENXIO} \<and> read_resources d' = replicate 5 False)"
  by (rule start_read_all_or_nothing)
    (simp_all add: QuecKillRead_def read_resources_def example_dev_def numeral_eq_Suc)

end
