(* ===== verification/Mhi_Ring.thy ===== *)
theory Mhi_Ring
  imports Wwan_Prelude
begin

text \<open>
  The rings of the MHI core (\<^verbatim>\<open>core/mhi_main.c\<close>): arrays of equally sized elements in memory
  shared with the modem, with a read and a write pointer. \<open>mhi_ring\<close> keeps the pointers of
  \<^verbatim>\<open>struct mhi_ring\<close> as 64-bit addresses, and the ring operations are the pointer arithmetic of
  the source, wrap-around of the address included.

  The abstract view is a position: the index of the element a pointer points to. The locale
  \<open>circular\<close> states what a client relies on (the two advances move a position by one, modulo
  the number of elements) and derives the rest once: the number of used elements and the list
  of elements between the positions, which grows at the end and shrinks at the front.
\<close>

section \<open>Circular positions\<close>

text \<open>The number of elements from the read position up to the write position.\<close>

definition ring_used :: "nat \<Rightarrow> nat \<Rightarrow> nat \<Rightarrow> nat" where
  "ring_used n r w = (if r \<le> w then w - r else n + w - r)"

lemma ring_used_less: "r < n \<Longrightarrow> w < n \<Longrightarrow> ring_used n r w < n"
  by (auto simp: ring_used_def)

lemma ring_used_pos: "r < n \<Longrightarrow> w < n \<Longrightarrow> (r + ring_used n r w) mod n = w"
  by (auto simp: ring_used_def)

lemma ring_used_0: "r < n \<Longrightarrow> w < n \<Longrightarrow> ring_used n r w = 0 \<longleftrightarrow> r = w"
  by (auto simp: ring_used_def)

lemma ring_used_adv_w:
  assumes "r < n" "w < n" "ring_used n r w < n - 1"
  shows "ring_used n r (Suc w mod n) = Suc (ring_used n r w)"
proof (cases "Suc w = n")
  case True
  with assms show ?thesis by (auto simp: ring_used_def split: if_splits)
next
  case False
  then have "Suc w mod n = Suc w" using assms by simp
  with assms show ?thesis by (auto simp: ring_used_def split: if_splits)
qed

lemma ring_used_adv_r:
  assumes "r < n" "w < n" "ring_used n r w \<noteq> 0"
  shows "ring_used n (Suc r mod n) w = ring_used n r w - 1"
proof (cases "Suc r = n")
  case True
  with assms show ?thesis by (auto simp: ring_used_def split: if_splits)
next
  case False
  then have "Suc r mod n = Suc r" using assms by simp
  with assms show ?thesis by (auto simp: ring_used_def split: if_splits)
qed

locale circular =
  fixes ok :: "'s \<Rightarrow> bool" and sz rpos wpos :: "'s \<Rightarrow> nat" and adv_r adv_w :: "'s \<Rightarrow> 's"
  assumes positions: "ok s \<Longrightarrow> rpos s < sz s \<and> wpos s < sz s"
    and adv_w: "ok s \<Longrightarrow> ok (adv_w s) \<and> sz (adv_w s) = sz s \<and> rpos (adv_w s) = rpos s \<and>
                 wpos (adv_w s) = Suc (wpos s) mod sz s"
    and adv_r: "ok s \<Longrightarrow> ok (adv_r s) \<and> sz (adv_r s) = sz s \<and> wpos (adv_r s) = wpos s \<and>
                 rpos (adv_r s) = Suc (rpos s) mod sz s"
begin

abbreviation "used s \<equiv> ring_used (sz s) (rpos s) (wpos s)"

abbreviation "entries get s \<equiv> ring_slice get (sz s) (rpos s) (used s)"

lemma used_bound: "ok s \<Longrightarrow> used s \<le> sz s - 1"
  using positions [of s] ring_used_less [of "rpos s" "sz s" "wpos s"] by auto

lemma used_adv_w: "ok s \<Longrightarrow> used s < sz s - 1 \<Longrightarrow> used (adv_w s) = Suc (used s)"
  using positions [of s] adv_w [of s] by (simp add: ring_used_adv_w)

lemma used_adv_r: "ok s \<Longrightarrow> used s \<noteq> 0 \<Longrightarrow> used (adv_r s) = used s - 1"
  using positions [of s] adv_r [of s] by (simp add: ring_used_adv_r)

text \<open>Storing at the write position and advancing appends; advancing the read position drops
  the first entry. Nothing else changes.\<close>

lemma entries_adv_w:
  assumes ok: "ok s" and room: "used s < sz s - 1"
    and get': "\<And>i. i < sz s \<Longrightarrow> i \<noteq> wpos s \<Longrightarrow> get' i = get i" and new: "get' (wpos s) = x"
  shows "entries get' (adv_w s) = entries get s @ [x]"
proof -
  have p: "rpos s < sz s" "wpos s < sz s" using positions [OF ok] by auto
  have w: "(rpos s + used s) mod sz s = wpos s" using p by (rule ring_used_pos)
  have "ring_slice get' (sz s) (rpos s) (used s) = entries get s"
  proof (rule ring_slice_cong)
    fix i assume i: "i < used s"
    have "(rpos s + i) mod sz s \<noteq> wpos s"
    proof
      assume "(rpos s + i) mod sz s = wpos s"
      with w have "i = used s"
        using i room by (intro ring_position_apart [of i "sz s" "used s" "rpos s"]) auto
      with i show False by simp
    qed
    moreover have "(rpos s + i) mod sz s < sz s" using p by simp
    ultimately show "get' ((rpos s + i) mod sz s) = get ((rpos s + i) mod sz s)"
      by (simp add: get')
  qed
  then show ?thesis
    using adv_w [OF ok] used_adv_w [OF ok room] w new by (simp add: ring_slice_Suc)
qed

lemma entries_adv_r:
  assumes ok: "ok s" and some: "used s \<noteq> 0"
  shows "entries get s = get (rpos s) # entries get (adv_r s)"
proof -
  obtain m where m: "used s = Suc m" using some not0_implies_Suc by blast
  have "rpos s < sz s" using positions [OF ok] by auto
  then show ?thesis
    using adv_r [OF ok] used_adv_r [OF ok some] m by (simp add: ring_slice_Cons)
qed

lemma empty_iff: "ok s \<Longrightarrow> entries get s = [] \<longleftrightarrow> rpos s = wpos s"
  using positions [of s] ring_used_0 [of "rpos s" "sz s" "wpos s"]
  by (metis length_0_conv length_ring_slice)

end

section \<open>The ring of the MHI core\<close>

record mhi_ring =
  r_iommu_base :: u64
  r_ctxt_wp :: u64
  r_base :: u64
  r_rp :: u64
  r_wp :: u64
  r_el_size :: u64
  r_len :: u64
  r_elements :: u64
  r_db_addr :: u64

text \<open>One step of a pointer, back to the base at the end of the ring.\<close>

definition ring_next :: "mhi_ring \<Rightarrow> u64 \<Rightarrow> u64" where
  "ring_next ring p =
     (let p = p + r_el_size ring in if r_base ring + r_len ring \<le> p then r_base ring else p)"

definition mhi_add_ring_element :: "mhi_ring \<Rightarrow> mhi_ring" where
  "mhi_add_ring_element ring = ring\<lparr>r_wp := ring_next ring (r_wp ring)\<rparr>"

definition mhi_del_ring_element :: "mhi_ring \<Rightarrow> mhi_ring" where
  "mhi_del_ring_element ring = ring\<lparr>r_rp := ring_next ring (r_rp ring)\<rparr>"

text \<open>\<open>int\<close> of an unsigned 64-bit value: the low 32 bits with their sign.\<close>

definition int_of_u64 :: "u64 \<Rightarrow> int" where
  "int_of_u64 x = sint (ucast x :: 32 word)"

definition get_nr_avail_ring_elements :: "mhi_ring \<Rightarrow> int" where
  "get_nr_avail_ring_elements ring =
     (if r_wp ring < r_rp ring
      then int_of_u64 ((r_rp ring - r_wp ring) div r_el_size ring - 1)
      else int_of_u64 ((r_rp ring - r_base ring) div r_el_size ring +
             ((r_base ring + r_len ring - r_wp ring) div r_el_size ring - 1)))"

definition sizeof_mhi_tre :: u64 where "sizeof_mhi_tre = 16"

definition get_used_ring_elements :: "u64 \<Rightarrow> u64 \<Rightarrow> u32 \<Rightarrow> u32" where
  "get_used_ring_elements rp wp el_num =
     (if rp \<le> wp then ucast ((wp - rp) div sizeof_mhi_tre)
      else el_num - ucast ((rp - wp) div sizeof_mhi_tre))"

definition mhi_to_virtual :: "mhi_ring \<Rightarrow> u64 \<Rightarrow> u64" where
  "mhi_to_virtual ring addr = (addr - r_iommu_base ring) + r_base ring"

definition mhi_to_physical :: "mhi_ring \<Rightarrow> u64 \<Rightarrow> u64" where
  "mhi_to_physical ring addr = (addr - r_base ring) + r_iommu_base ring"

definition mhi_recycle_ev_ring_element :: "mhi_ring \<Rightarrow> mhi_ring" where
  "mhi_recycle_ev_ring_element ring =
     (let ring = ring\<lparr>r_wp := ring_next ring (r_wp ring)\<rparr>;
          ring = ring\<lparr>r_ctxt_wp := r_iommu_base ring + (r_wp ring - r_base ring)\<rparr>
      in ring\<lparr>r_rp := ring_next ring (r_rp ring)\<rparr>)"

definition mhi_is_ring_full :: "mhi_ring \<Rightarrow> bool" where
  "mhi_is_ring_full ring \<longleftrightarrow> ring_next ring (r_wp ring) = r_rp ring"

section \<open>Well-formed rings and positions\<close>

definition ring_n :: "mhi_ring \<Rightarrow> nat" where
  "ring_n ring = unat (r_elements ring)"

definition slot :: "mhi_ring \<Rightarrow> nat \<Rightarrow> u64" where
  "slot ring i = r_base ring + of_nat i * r_el_size ring"

definition ring_index :: "mhi_ring \<Rightarrow> u64 \<Rightarrow> nat" where
  "ring_index ring p = (unat p - unat (r_base ring)) div unat (r_el_size ring)"

definition rpos :: "mhi_ring \<Rightarrow> nat" where
  "rpos ring = ring_index ring (r_rp ring)"

definition wpos :: "mhi_ring \<Rightarrow> nat" where
  "wpos ring = ring_index ring (r_wp ring)"

text \<open>What \<open>mhi_init_dev_ctxt\<close> and \<open>mhi_init_chan_ctxt\<close> set up: \<open>elements\<close> elements of
  \<open>el_size\<close> bytes, an object that does not wrap the address space, pointers at elements.\<close>

definition ring_geometry :: "mhi_ring \<Rightarrow> bool" where
  "ring_geometry ring \<longleftrightarrow>
     r_el_size ring \<noteq> 0 \<and> r_elements ring \<noteq> 0 \<and> ring_n ring < 2 ^ 31 \<and>
     unat (r_len ring) = ring_n ring * unat (r_el_size ring) \<and>
     unat (r_base ring) + unat (r_len ring) < 2 ^ 64"

definition ring_ok :: "mhi_ring \<Rightarrow> bool" where
  "ring_ok ring \<longleftrightarrow>
     ring_geometry ring \<and>
     rpos ring < ring_n ring \<and> r_rp ring = slot ring (rpos ring) \<and>
     wpos ring < ring_n ring \<and> r_wp ring = slot ring (wpos ring)"

lemma ring_el_pos: "ring_geometry ring \<Longrightarrow> 0 < unat (r_el_size ring)"
  by (simp add: ring_geometry_def unat_gt_0)

lemma ring_n_pos: "ring_geometry ring \<Longrightarrow> 0 < ring_n ring"
  by (simp add: ring_geometry_def ring_n_def unat_gt_0)

lemma unat_slot:
  assumes "ring_geometry ring" and "i \<le> ring_n ring"
  shows "unat (slot ring i) = unat (r_base ring) + i * unat (r_el_size ring)"
proof -
  have b: "i * unat (r_el_size ring) \<le> unat (r_len ring)"
    using assms by (simp add: ring_geometry_def)
  then have i: "i * unat (r_el_size ring) < 2 ^ 64"
    using unat_u64_less [of "r_len ring"] by (simp del: unat_u64_less)
  have "i < 2 ^ 64"
    using assms(2) unat_u64_less [of "r_elements ring"] by (simp add: ring_n_def del: unat_u64_less)
  then have "unat (of_nat i * r_el_size ring) = i * unat (r_el_size ring)"
    using i by (simp add: unat_word_ariths unat_of_nat take_bit_nat_eq_self)
  moreover have "unat (r_base ring) + i * unat (r_el_size ring) < 18446744073709551616"
  proof -
    have "unat (r_base ring) + unat (r_len ring) < 18446744073709551616"
      using assms(1) by (simp add: ring_geometry_def)
    with b show ?thesis by linarith
  qed
  ultimately show ?thesis
    by (simp add: slot_def u64_unat_add)
qed

lemma ring_index_slot [simp]:
  "ring_geometry ring \<Longrightarrow> i < ring_n ring \<Longrightarrow> ring_index ring (slot ring i) = i"
  using ring_el_pos [of ring] by (simp add: ring_index_def unat_slot)

lemma slot_inj:
  assumes "ring_geometry ring" "i < ring_n ring" "j < ring_n ring"
  shows "slot ring i = slot ring j \<longleftrightarrow> i = j"
  using assms ring_index_slot by metis

lemma ring_end:
  assumes "ring_geometry ring"
  shows "r_base ring + r_len ring = slot ring (ring_n ring)"
proof -
  have "unat (r_base ring + r_len ring) = unat (slot ring (ring_n ring))"
    using assms unat_slot [OF assms order.refl] by (simp add: u64_unat_add ring_geometry_def)
  then show ?thesis by (rule unsigned_word_eqI)
qed

lemma ring_next_slot:
  assumes "ring_geometry ring" and "i < ring_n ring"
  shows "ring_next ring (slot ring i) = slot ring (Suc i mod ring_n ring)"
proof -
  have step: "slot ring i + r_el_size ring = slot ring (Suc i)"
    by (simp add: slot_def algebra_simps)
  have "r_base ring + r_len ring \<le> slot ring (Suc i) \<longleftrightarrow> Suc i = ring_n ring"
    using assms ring_el_pos [OF assms(1)]
    by (simp add: ring_end word_le_nat_alt unat_slot del: mult_Suc) (auto simp del: mult_Suc)
  moreover have "slot ring 0 = r_base ring" by (simp add: slot_def)
  ultimately show ?thesis
    using assms(2) by (auto simp: ring_next_def step Let_def)
qed

text \<open>The fields a pointer update leaves alone.\<close>

lemma ring_frame [simp]:
  "ring_n (ring\<lparr>r_wp := p\<rparr>) = ring_n ring" "ring_n (ring\<lparr>r_rp := p\<rparr>) = ring_n ring"
  "slot (ring\<lparr>r_wp := p\<rparr>) = slot ring" "slot (ring\<lparr>r_rp := p\<rparr>) = slot ring"
  "ring_geometry (ring\<lparr>r_wp := p\<rparr>) = ring_geometry ring"
  "ring_geometry (ring\<lparr>r_rp := p\<rparr>) = ring_geometry ring"
  "rpos (ring\<lparr>r_wp := p\<rparr>) = rpos ring" "wpos (ring\<lparr>r_rp := p\<rparr>) = wpos ring"
  "rpos (ring\<lparr>r_rp := p\<rparr>) = ring_index ring p" "wpos (ring\<lparr>r_wp := p\<rparr>) = ring_index ring p"
  by (auto simp: ring_n_def slot_def ring_geometry_def rpos_def wpos_def ring_index_def)

lemma ring_ctxt_frame [simp]:
  "ring_n (ring\<lparr>r_ctxt_wp := p\<rparr>) = ring_n ring" "slot (ring\<lparr>r_ctxt_wp := p\<rparr>) = slot ring"
  "ring_geometry (ring\<lparr>r_ctxt_wp := p\<rparr>) = ring_geometry ring"
  "rpos (ring\<lparr>r_ctxt_wp := p\<rparr>) = rpos ring" "wpos (ring\<lparr>r_ctxt_wp := p\<rparr>) = wpos ring"
  "ring_ok (ring\<lparr>r_ctxt_wp := p\<rparr>) = ring_ok ring"
  by (auto simp: ring_n_def slot_def ring_geometry_def rpos_def wpos_def ring_index_def ring_ok_def)

lemma advance_frame [simp]:
  "slot (mhi_add_ring_element ring) = slot ring" "slot (mhi_del_ring_element ring) = slot ring"
  "r_el_size (mhi_add_ring_element ring) = r_el_size ring"
  "r_el_size (mhi_del_ring_element ring) = r_el_size ring"
  "r_iommu_base (mhi_add_ring_element ring) = r_iommu_base ring"
  "r_iommu_base (mhi_del_ring_element ring) = r_iommu_base ring"
  "r_base (mhi_add_ring_element ring) = r_base ring"
  "r_base (mhi_del_ring_element ring) = r_base ring"
  "ring_n (mhi_add_ring_element ring) = ring_n ring"
  "ring_n (mhi_del_ring_element ring) = ring_n ring"
  by (auto simp: mhi_add_ring_element_def mhi_del_ring_element_def)

interpretation mr: circular ring_ok ring_n rpos wpos mhi_del_ring_element mhi_add_ring_element
proof
  fix ring :: mhi_ring
  assume ok: "ring_ok ring"
  then have g: "ring_geometry ring" and r: "rpos ring < ring_n ring" "r_rp ring = slot ring (rpos ring)"
    and w: "wpos ring < ring_n ring" "r_wp ring = slot ring (wpos ring)"
    by (auto simp: ring_ok_def)
  have n: "Suc i mod ring_n ring < ring_n ring" for i
    using ring_n_pos [OF g] by simp
  show "rpos ring < ring_n ring \<and> wpos ring < ring_n ring" using r w by simp
  show "ring_ok (mhi_add_ring_element ring) \<and> ring_n (mhi_add_ring_element ring) = ring_n ring \<and>
      rpos (mhi_add_ring_element ring) = rpos ring \<and>
      wpos (mhi_add_ring_element ring) = Suc (wpos ring) mod ring_n ring"
    using g r w n [of "wpos ring"] ring_next_slot [OF g w(1)]
    by (simp add: mhi_add_ring_element_def ring_ok_def)
  show "ring_ok (mhi_del_ring_element ring) \<and> ring_n (mhi_del_ring_element ring) = ring_n ring \<and>
      wpos (mhi_del_ring_element ring) = wpos ring \<and>
      rpos (mhi_del_ring_element ring) = Suc (rpos ring) mod ring_n ring"
    using g r w n [of "rpos ring"] ring_next_slot [OF g r(1)]
    by (simp add: mhi_del_ring_element_def ring_ok_def)
qed

section \<open>Counting elements\<close>

lemma slot_less: "ring_geometry ring \<Longrightarrow> i \<le> ring_n ring \<Longrightarrow> j \<le> ring_n ring \<Longrightarrow>
    slot ring i < slot ring j \<longleftrightarrow> i < j"
  using ring_el_pos [of ring] by (simp add: word_less_nat_alt unat_slot)

lemma slot_diff_div:
  assumes g: "ring_geometry ring" and "i \<le> j" "j \<le> ring_n ring"
  shows "unat ((slot ring j - slot ring i) div r_el_size ring) = j - i"
proof -
  have "\<not> slot ring j < slot ring i" using assms slot_less [OF g, of j i] by simp
  then have "unat (slot ring j - slot ring i) = unat (slot ring j) - unat (slot ring i)"
    by (simp add: unat_sub not_less)
  also have "\<dots> = (j - i) * unat (r_el_size ring)"
    using assms by (simp add: unat_slot diff_mult_distrib)
  finally show ?thesis
    using ring_el_pos [OF g] by (simp add: unat_div_distrib)
qed

lemma int_of_u64_small:
  assumes "unat x < 2 ^ 31"
  shows "int_of_u64 x = int (unat x)"
proof -
  have "int (unat x) < int (2 ^ 31)" using assms by (simp only: of_nat_less_iff)
  then have x: "uint x < 2 ^ 31" by simp
  have lo: "- (2 ^ 31) \<le> uint x" by (rule order.trans [of _ 0]) simp_all
  have "uint (ucast x :: 32 word) = uint x"
    using x by (simp add: unsigned_ucast_eq take_bit_int_eq_self)
  then show ?thesis
    using signed_take_bit_int_eq_self [OF lo x] by (simp add: int_of_u64_def sint_uint)
qed

lemma u64_add_small: "unat x + unat y < 2 ^ 31 \<Longrightarrow> int_of_u64 (x + y) = int (unat x + unat y)"
  by (subst int_of_u64_small) (simp_all add: u64_unat_add)

lemma unat_u64_pred: "x \<noteq> 0 \<Longrightarrow> unat (x - 1 :: u64) = unat x - 1"
  by (simp add: unat_minus_one)

lemma get_nr_avail_count:
  assumes ok: "ring_ok ring"
  shows "get_nr_avail_ring_elements ring =
           int (ring_n ring - 1 - ring_used (ring_n ring) (rpos ring) (wpos ring))"
proof -
  have g: "ring_geometry ring" and r: "rpos ring < ring_n ring" "r_rp ring = slot ring (rpos ring)"
    and w: "wpos ring < ring_n ring" "r_wp ring = slot ring (wpos ring)"
    using ok by (auto simp: ring_ok_def)
  have n: "ring_n ring < 2 ^ 31" using g by (simp add: ring_geometry_def)
  show ?thesis
  proof (cases "wpos ring < rpos ring")
    case True
    let ?d = "(slot ring (rpos ring) - slot ring (wpos ring)) div r_el_size ring"
    have d: "unat ?d = rpos ring - wpos ring" using True r(1) by (intro slot_diff_div g) auto
    then have "?d \<noteq> 0" using True by auto
    then have "unat (?d - 1) = rpos ring - wpos ring - 1" using d by (simp add: unat_u64_pred)
    then show ?thesis
      using True r w n g by (simp add: get_nr_avail_ring_elements_def slot_less int_of_u64_small ring_used_def)
  next
    case False
    let ?a = "(slot ring (rpos ring) - slot ring 0) div r_el_size ring"
    let ?b = "(slot ring (ring_n ring) - slot ring (wpos ring)) div r_el_size ring"
    have a: "unat ?a = rpos ring" using r(1) slot_diff_div [OF g, of 0 "rpos ring"] by simp
    have b: "unat ?b = ring_n ring - wpos ring" using w(1) by (intro slot_diff_div g) auto
    then have "?b \<noteq> 0" using w by auto
    then have "unat (?b - 1) = ring_n ring - wpos ring - 1" using b by (simp add: unat_u64_pred)
    then have "int_of_u64 (?a + (?b - 1)) = int (rpos ring + (ring_n ring - wpos ring - 1))"
      using a r w n False by (subst u64_add_small) simp_all
    moreover have "r_base ring = slot ring 0" by (simp add: slot_def)
    ultimately show ?thesis
      using False r w g ring_end [OF g]
      by (simp add: get_nr_avail_ring_elements_def slot_less ring_used_def)
  qed
qed

lemma mhi_is_ring_full_count:
  assumes ok: "ring_ok ring"
  shows "mhi_is_ring_full ring \<longleftrightarrow>
           ring_used (ring_n ring) (rpos ring) (wpos ring) = ring_n ring - 1"
proof -
  have g: "ring_geometry ring" and r: "rpos ring < ring_n ring" "r_rp ring = slot ring (rpos ring)"
    and w: "wpos ring < ring_n ring" "r_wp ring = slot ring (wpos ring)"
    using ok by (auto simp: ring_ok_def)
  have "mhi_is_ring_full ring \<longleftrightarrow> Suc (wpos ring) mod ring_n ring = rpos ring"
    using g r w ring_next_slot [OF g w(1)] slot_inj [OF g] ring_n_pos [OF g]
    by (simp add: mhi_is_ring_full_def)
  also have "\<dots> \<longleftrightarrow> ring_used (ring_n ring) (rpos ring) (wpos ring) = ring_n ring - 1"
    using r(1) w(1) by (cases "Suc (wpos ring) = ring_n ring") (auto simp: ring_used_def)
  finally show ?thesis .
qed

lemma get_used_count:
  assumes g: "ring_geometry ring" and el: "r_el_size ring = sizeof_mhi_tre"
    and i: "i < ring_n ring" and j: "j < ring_n ring"
  shows "unat (get_used_ring_elements (slot ring i) (slot ring j) (ucast (r_elements ring))) =
           ring_used (ring_n ring) i j"
proof -
  have n: "ring_n ring < 2 ^ 31" using g by (simp add: ring_geometry_def)
  have cast: "unat (ucast y :: u32) = unat y" if "unat y < 2 ^ 31" for y :: u64
    using that by (simp add: unsigned_ucast_eq take_bit_nat_eq_self)
  show ?thesis
  proof (cases "i \<le> j")
    case True
    then show ?thesis
      using slot_less [OF g, of j i] slot_diff_div [OF g, of i j] i j n el
      by (simp add: get_used_ring_elements_def ring_used_def cast not_less flip: not_less)
  next
    case False
    then have d: "unat ((slot ring i - slot ring j) div sizeof_mhi_tre) = i - j"
      using slot_diff_div [OF g, of j i] i el by simp
    have "unat (ucast (r_elements ring) - ucast ((slot ring i - slot ring j) div sizeof_mhi_tre) :: u32) =
        ring_n ring - (i - j)"
      using d n i False by (subst unat_sub) (simp_all add: word_le_nat_alt cast ring_n_def)
    moreover have "\<not> slot ring i \<le> slot ring j"
      using False slot_less [OF g, of j i] i j by (simp add: not_le)
    ultimately show ?thesis
      using False by (simp add: get_used_ring_elements_def ring_used_def)
  qed
qed

lemma mhi_virtual_physical [simp]: "mhi_to_virtual ring (mhi_to_physical ring p) = p"
  by (simp add: mhi_to_virtual_def mhi_to_physical_def)

lemma mhi_recycle_is_both:
  "mhi_recycle_ev_ring_element ring =
     (mhi_del_ring_element (mhi_add_ring_element ring))
       \<lparr>r_ctxt_wp := mhi_to_physical ring (r_wp (mhi_add_ring_element ring))\<rparr>"
  by (simp add: mhi_recycle_ev_ring_element_def mhi_add_ring_element_def mhi_del_ring_element_def
      mhi_to_physical_def ring_next_def Let_def)

text \<open>
  C9. The counts of the ring operations. On a well-formed ring the number of available elements
  and the fullness test agree with the pointers: one element always stays unused. Adding an
  element to a ring that is not full takes exactly one of the available elements, removing one
  from a ring that is not empty gives it back, and both leave a well-formed ring. Adding an
  element to a full ring makes it look empty.
\<close>

theorem mhi_ring_counts:
  assumes "ring_ok ring"
  shows "get_nr_avail_ring_elements ring =
           int (ring_n ring) - 1 - int (ring_used (ring_n ring) (rpos ring) (wpos ring)) \<and>
         (mhi_is_ring_full ring \<longleftrightarrow> get_nr_avail_ring_elements ring = 0) \<and>
         (\<not> mhi_is_ring_full ring \<longrightarrow> ring_ok (mhi_add_ring_element ring) \<and>
           get_nr_avail_ring_elements (mhi_add_ring_element ring) = get_nr_avail_ring_elements ring - 1) \<and>
         (r_rp ring \<noteq> r_wp ring \<longrightarrow> ring_ok (mhi_del_ring_element ring) \<and>
           get_nr_avail_ring_elements (mhi_del_ring_element ring) = get_nr_avail_ring_elements ring + 1) \<and>
         (mhi_is_ring_full ring \<longrightarrow>
           r_rp (mhi_add_ring_element ring) = r_wp (mhi_add_ring_element ring))"
proof (intro conjI impI)
  have pos: "rpos ring < ring_n ring" "wpos ring < ring_n ring"
    and ptr: "r_rp ring = slot ring (rpos ring)" "r_wp ring = slot ring (wpos ring)"
    and g: "ring_geometry ring" using assms by (auto simp: ring_ok_def)
  let ?u = "ring_used (ring_n ring) (rpos ring) (wpos ring)"
  have u: "?u \<le> ring_n ring - 1" using mr.used_bound [OF assms] .
  note avail = get_nr_avail_count and full = mhi_is_ring_full_count [OF assms]
  show "get_nr_avail_ring_elements ring = int (ring_n ring) - 1 - int ?u"
    using avail [OF assms] u pos by simp
  show "mhi_is_ring_full ring \<longleftrightarrow> get_nr_avail_ring_elements ring = 0"
    using avail [OF assms] u full by auto
  show "r_rp (mhi_add_ring_element ring) = r_wp (mhi_add_ring_element ring)" if "mhi_is_ring_full ring"
    using that by (simp add: mhi_add_ring_element_def mhi_is_ring_full_def)
  {
    assume "\<not> mhi_is_ring_full ring"
    then have room: "?u < ring_n ring - 1" using u full by simp
    show ok': "ring_ok (mhi_add_ring_element ring)" using mr.adv_w [OF assms] by simp
    show "get_nr_avail_ring_elements (mhi_add_ring_element ring) = get_nr_avail_ring_elements ring - 1"
      using avail [OF assms] avail [OF ok'] mr.used_adv_w [OF assms room] mr.adv_w [OF assms] room
      by simp
  }
  {
    assume "r_rp ring \<noteq> r_wp ring"
    then have some: "?u \<noteq> 0" using ptr pos by (metis ring_used_0)
    show ok': "ring_ok (mhi_del_ring_element ring)" using mr.adv_r [OF assms] by simp
    show "get_nr_avail_ring_elements (mhi_del_ring_element ring) = get_nr_avail_ring_elements ring + 1"
      using avail [OF assms] avail [OF ok'] mr.used_adv_r [OF assms some] mr.adv_r [OF assms] some u
      by simp
  }
qed

text \<open>A ring of four 16-byte elements at address 0x1000, read position 1, write position 3.\<close>

definition example_ring :: mhi_ring where
  "example_ring = \<lparr>r_iommu_base = 0x8000, r_ctxt_wp = 0x8030, r_base = 0x1000, r_rp = 0x1010,
     r_wp = 0x1030, r_el_size = 16, r_len = 64, r_elements = 4, r_db_addr = 0x500\<rparr>"

lemma example_ring_ok: "ring_ok example_ring"
  by (simp add: example_ring_def ring_ok_def ring_geometry_def ring_n_def slot_def rpos_def wpos_def
      ring_index_def)

theorem mhi_ring_counts_witness:
  "ring_ok example_ring \<and> get_nr_avail_ring_elements example_ring = 1"
  using mhi_ring_counts [of example_ring] example_ring_ok
  by (simp add: example_ring_def ring_n_def rpos_def wpos_def ring_index_def ring_used_def)

end
