(* ===== verification/Mhi_Core.thy ===== *)
theory Mhi_Core
  imports Mhi_Ring
begin

text \<open>
  The state of an MHI controller and the operations every part of the core uses
  (\<^verbatim>\<open>core/mhi_internal.h\<close>, \<^verbatim>\<open>core/mhi.h\<close>, the register, doorbell and state functions of
  \<^verbatim>\<open>core/mhi_main.c\<close> and \<^verbatim>\<open>core/mhi_pm.c\<close>).

  The record \<open>mhi_controller\<close> has the fields of \<^verbatim>\<open>struct mhi_controller\<close> the modelled code uses
  and, behind them, its environment: the memory-mapped registers \<open>mmio\<close> as the device shows
  them, whether the link is down, the addresses the DMA API returns, the memory allocator, what
  other contexts do during the waits, and the list \<open>effects\<close> of the calls that leave the model,
  in order. \<open>pm_history\<close> is not in the source: it lists the assignments of \<open>pm_state\<close>, which are all
  made by \<open>set_pm_state\<close>. An enumeration that is read from a register is a \<open>u32\<close>, as in C. A structure reached
  through a pointer into a ring is in a map from addresses; an access outside it is \<^term>\<open>None\<close>.
  \<^verbatim>\<open>MHI_ASSERT\<close> only warns (no \<^verbatim>\<open>CONFIG_MHI_DEBUG\<close>), and no bus monitor is attached.
\<close>

section \<open>Enumerations\<close>

definition MHI_PM_DISABLE :: u32 where "MHI_PM_DISABLE = 0x1"
definition MHI_PM_POR :: u32 where "MHI_PM_POR = 0x2"
definition MHI_PM_M0 :: u32 where "MHI_PM_M0 = 0x4"
definition MHI_PM_M2 :: u32 where "MHI_PM_M2 = 0x8"
definition MHI_PM_M3_ENTER :: u32 where "MHI_PM_M3_ENTER = 0x10"
definition MHI_PM_M3 :: u32 where "MHI_PM_M3 = 0x20"
definition MHI_PM_M3_EXIT :: u32 where "MHI_PM_M3_EXIT = 0x40"
definition MHI_PM_FW_DL_ERR :: u32 where "MHI_PM_FW_DL_ERR = 0x80"
definition MHI_PM_SYS_ERR_DETECT :: u32 where "MHI_PM_SYS_ERR_DETECT = 0x100"
definition MHI_PM_SYS_ERR_PROCESS :: u32 where "MHI_PM_SYS_ERR_PROCESS = 0x200"
definition MHI_PM_SHUTDOWN_PROCESS :: u32 where "MHI_PM_SHUTDOWN_PROCESS = 0x400"
definition MHI_PM_LD_ERR_FATAL_DETECT :: u32 where "MHI_PM_LD_ERR_FATAL_DETECT = 0x800"

lemmas pm_state_defs = MHI_PM_DISABLE_def MHI_PM_POR_def MHI_PM_M0_def MHI_PM_M2_def
  MHI_PM_M3_ENTER_def MHI_PM_M3_def MHI_PM_M3_EXIT_def MHI_PM_FW_DL_ERR_def
  MHI_PM_SYS_ERR_DETECT_def MHI_PM_SYS_ERR_PROCESS_def MHI_PM_SHUTDOWN_PROCESS_def
  MHI_PM_LD_ERR_FATAL_DETECT_def

definition MHI_REG_ACCESS_VALID :: "u32 \<Rightarrow> bool" where
  "MHI_REG_ACCESS_VALID s \<longleftrightarrow>
     s AND (MHI_PM_POR OR MHI_PM_M0 OR MHI_PM_M2 OR MHI_PM_M3_ENTER OR MHI_PM_M3_EXIT OR
       MHI_PM_SYS_ERR_DETECT OR MHI_PM_SYS_ERR_PROCESS OR MHI_PM_SHUTDOWN_PROCESS OR
       MHI_PM_FW_DL_ERR) \<noteq> 0"

definition MHI_PM_IN_ERROR_STATE :: "u32 \<Rightarrow> bool" where
  "MHI_PM_IN_ERROR_STATE s \<longleftrightarrow> MHI_PM_FW_DL_ERR \<le> s"

definition MHI_PM_IN_FATAL_STATE :: "u32 \<Rightarrow> bool" where
  "MHI_PM_IN_FATAL_STATE s \<longleftrightarrow> s = MHI_PM_LD_ERR_FATAL_DETECT"

definition MHI_DB_ACCESS_VALID :: "u32 \<Rightarrow> bool" where
  "MHI_DB_ACCESS_VALID s \<longleftrightarrow> s AND MHI_PM_M0 \<noteq> 0"

definition MHI_EVENT_ACCESS_INVALID :: "u32 \<Rightarrow> bool" where
  "MHI_EVENT_ACCESS_INVALID s \<longleftrightarrow> s = MHI_PM_DISABLE \<or> MHI_PM_IN_ERROR_STATE s"

definition MHI_PM_IN_SUSPEND_STATE :: "u32 \<Rightarrow> bool" where
  "MHI_PM_IN_SUSPEND_STATE s \<longleftrightarrow> s AND (MHI_PM_M3_ENTER OR MHI_PM_M3) \<noteq> 0"

lemmas pm_predicate_defs = MHI_REG_ACCESS_VALID_def MHI_PM_IN_ERROR_STATE_def
  MHI_PM_IN_FATAL_STATE_def MHI_DB_ACCESS_VALID_def MHI_EVENT_ACCESS_INVALID_def
  MHI_PM_IN_SUSPEND_STATE_def

definition MHI_STATE_RESET :: u32 where "MHI_STATE_RESET = 0x0"
definition MHI_STATE_READY :: u32 where "MHI_STATE_READY = 0x1"
definition MHI_STATE_M0 :: u32 where "MHI_STATE_M0 = 0x2"
definition MHI_STATE_M1 :: u32 where "MHI_STATE_M1 = 0x3"
definition MHI_STATE_M2 :: u32 where "MHI_STATE_M2 = 0x4"
definition MHI_STATE_M3 :: u32 where "MHI_STATE_M3 = 0x5"
definition MHI_STATE_SYS_ERR :: u32 where "MHI_STATE_SYS_ERR = 0xFF"
definition MHI_STATE_MAX :: u32 where "MHI_STATE_MAX = 0x100"

lemmas dev_state_defs = MHI_STATE_RESET_def MHI_STATE_READY_def MHI_STATE_M0_def MHI_STATE_M1_def
  MHI_STATE_M2_def MHI_STATE_M3_def MHI_STATE_SYS_ERR_def MHI_STATE_MAX_def

definition MHI_EE_PBL :: u32 where "MHI_EE_PBL = 0x0"
definition MHI_EE_SBL :: u32 where "MHI_EE_SBL = 0x1"
definition MHI_EE_AMSS :: u32 where "MHI_EE_AMSS = 0x2"
definition MHI_EE_RDDM :: u32 where "MHI_EE_RDDM = 0x3"
definition MHI_EE_WFW :: u32 where "MHI_EE_WFW = 0x4"
definition MHI_EE_PTHRU :: u32 where "MHI_EE_PTHRU = 0x5"
definition MHI_EE_EDL :: u32 where "MHI_EE_EDL = 0x6"
definition MHI_EE_FP :: u32 where "MHI_EE_FP = 0x7"
definition MHI_EE_DISABLE_TRANSITION :: u32 where "MHI_EE_DISABLE_TRANSITION = 0x8"
definition MHI_EE_MAX :: u32 where "MHI_EE_MAX = 0x9"

lemmas ee_defs = MHI_EE_PBL_def MHI_EE_SBL_def MHI_EE_AMSS_def MHI_EE_RDDM_def MHI_EE_WFW_def
  MHI_EE_PTHRU_def MHI_EE_EDL_def MHI_EE_FP_def MHI_EE_DISABLE_TRANSITION_def MHI_EE_MAX_def

definition MHI_IN_PBL :: "u32 \<Rightarrow> bool" where
  "MHI_IN_PBL e \<longleftrightarrow> e = MHI_EE_PBL \<or> e = MHI_EE_PTHRU \<or> e = MHI_EE_EDL"

definition MHI_IN_MISSION_MODE :: "u32 \<Rightarrow> bool" where
  "MHI_IN_MISSION_MODE e \<longleftrightarrow> e = MHI_EE_AMSS \<or> e = MHI_EE_WFW"

datatype MHI_ST_TRANSITION =
    MHI_ST_TRANSITION_PBL | MHI_ST_TRANSITION_READY | MHI_ST_TRANSITION_SBL
  | MHI_ST_TRANSITION_MISSION_MODE | MHI_ST_TRANSITION_FP | MHI_ST_TRANSITION_MAX

datatype MHI_CB =
    MHI_CB_IDLE | MHI_CB_PENDING_DATA | MHI_CB_LPM_ENTER | MHI_CB_LPM_EXIT | MHI_CB_EE_RDDM
  | MHI_CB_EE_MISSION_MODE | MHI_CB_SYS_ERROR | MHI_CB_FATAL_ERROR

datatype MHI_CH_STATE =
    MHI_CH_STATE_DISABLED | MHI_CH_STATE_ENABLED | MHI_CH_STATE_RUNNING
  | MHI_CH_STATE_SUSPENDED | MHI_CH_STATE_STOP | MHI_CH_STATE_ERROR

datatype MHI_XFER_TYPE =
    MHI_XFER_BUFFER | MHI_XFER_SKB | MHI_XFER_SCLIST | MHI_XFER_NOP | MHI_XFER_DMA
  | MHI_XFER_RSC_DMA

datatype dma_data_direction = DMA_BIDIRECTIONAL | DMA_TO_DEVICE | DMA_FROM_DEVICE | DMA_NONE

text \<open>The \<open>process_db\<close> function pointer has two values.\<close>

datatype process_db_fn = mhi_db_brstmode | mhi_db_brstmode_disable

section \<open>Structures\<close>

record db_cfg =
  reset_req :: bool
  db_mode :: bool
  db_val :: u64
  process_db :: process_db_fn

record mhi_tre =
  tre_ptr :: u64
  dword0 :: u32
  dword1 :: u32

record mhi_buf_info =
  p_addr :: u64
  v_addr :: u64
  bi_wp :: u64
  bi_len :: u64
  cb_buf :: u64
  bi_used :: bool
  pre_mapped :: bool
  bi_dir :: dma_data_direction

record mhi_event =
  er_index :: u32
  ev_ring :: mhi_ring
  ev_db_cfg :: db_cfg
  used_elements :: u32
  hw_ring :: bool
  offload_ev :: bool
  ev_mem :: "u64 \<rightharpoonup> mhi_tre"
  er_ctxt_rp :: u64
  er_ctxt_rbase :: u64

record mhi_chan =
  chan :: u32
  buf_ring :: mhi_ring
  tre_ring :: mhi_ring
  buf_mem :: "u64 \<rightharpoonup> mhi_buf_info"
  tre_mem :: "u64 \<rightharpoonup> mhi_tre"
  chan_used_elements :: u32
  used_events :: "u32 list"
  intmod :: u32
  dir :: dma_data_direction
  ch_db_cfg :: db_cfg
  xfer_type :: MHI_XFER_TYPE
  ch_state :: MHI_CH_STATE
  ccs :: u32
  offload_ch :: bool
  pre_alloc :: bool
  has_dev :: bool

record mhi_cmd =
  cmd_ring :: mhi_ring
  cmd_mem :: "u64 \<rightharpoonup> mhi_tre"
  cmd_ctxt_rp :: u64
  cmd_ctxt_rbase :: u64

text \<open>Calls that leave the model, in the order they happen.\<close>

datatype mhi_effect =
    Write_reg u64 u32
  | Status_cb MHI_CB
  | Runtime_get | Runtime_put
  | Schedule_syserr_worker | Schedule_ready_worker | Schedule_st_worker
  | Wake_up_state_event
  | Complete u32
  | Unmap_single u64
  | Xfer_cb u32 u64 u64 int
  | Kfree u64
  | Notify u32 MHI_CB
  | Init_timesync | Destroy_timesync
  | Create_devices | Destroy_devices
  | Tasklet_kill | Free_irq | Deinit_dev

text \<open>What another context does to the controller while a thread waits.\<close>

datatype mhi_interrupt =
    Ctrl_M0 | Ctrl_M1 | Ctrl_M3 | Ctrl_SYS_ERR | Link_down | Set_reg u64 u32 | Set_ee u32

record mhi_controller =
  regs :: u64
  bhi :: u64
  bhie :: u64
  wake_db :: u64
  chan_ctxt_addr :: u64
  er_ctxt_addr :: u64
  cmd_ctxt_addr :: u64
  ctrl_seg_addr :: u64
  sizeof_ctrl_seg :: u64
  iova_start :: u64
  iova_stop :: u64
  pm_state :: u32
  dev_state :: u32
  ee :: u32
  M0_count :: u32
  M2_count :: u32
  M3_count :: u32
  dev_wake :: int
  pending_pkts :: int
  transition_list :: "MHI_ST_TRANSITION list"
  ready_scheduled :: bool
  mhi_event_array :: "mhi_event list"
  mhi_chan_array :: "mhi_chan list"
  primary_cmd :: mhi_cmd
  lpm_chans :: "nat list"
  pre_init :: bool
  msi_irq_base :: u32
  mmio :: "u64 \<Rightarrow> u32"
  link_status :: bool
  dma_maps :: "u64 list"
  mallocs :: "bool list"
  init_results :: "int list"
  waits :: "(mhi_interrupt list \<times> mhi_interrupt list) list"
  effects :: "mhi_effect list"
  pm_history :: "u32 list"

definition emit :: "mhi_effect \<Rightarrow> mhi_controller \<Rightarrow> mhi_controller" where
  "emit e c = c\<lparr>effects := effects c @ [e]\<rparr>"

section \<open>Registers\<close>

definition U32_MAX :: u32 where "U32_MAX = 0xFFFFFFFF"

text \<open>An error leaves the output parameter of the source alone; \<^term>\<open>Inl\<close> carries the errno.\<close>

definition mhi_read_reg :: "mhi_controller \<Rightarrow> u64 \<Rightarrow> u32 \<Rightarrow> int + u32" where
  "mhi_read_reg c base offset =
     (let tmp = mmio c (base + ucast offset)
      in if tmp = U32_MAX \<and> link_status c then Inl (- EIO) else Inr tmp)"

definition mhi_read_reg_field :: "mhi_controller \<Rightarrow> u64 \<Rightarrow> u32 \<Rightarrow> u32 \<Rightarrow> nat \<Rightarrow> int + u32" where
  "mhi_read_reg_field c base offset m shift =
     (case mhi_read_reg c base offset of
        Inl ret \<Rightarrow> Inl ret
      | Inr tmp \<Rightarrow> Inr (drop_bit shift (tmp AND m)))"

definition mhi_write_reg :: "mhi_controller \<Rightarrow> u64 \<Rightarrow> u32 \<Rightarrow> u32 \<Rightarrow> mhi_controller" where
  "mhi_write_reg c base offset v =
     emit (Write_reg (base + ucast offset) v) (c\<lparr>mmio := (mmio c)(base + ucast offset := v)\<rparr>)"

definition mhi_write_reg_field ::
  "mhi_controller \<Rightarrow> u64 \<Rightarrow> u32 \<Rightarrow> u32 \<Rightarrow> nat \<Rightarrow> u32 \<Rightarrow> mhi_controller" where
  "mhi_write_reg_field c base offset m shift v =
     (case mhi_read_reg c base offset of
        Inl ret \<Rightarrow> c
      | Inr tmp \<Rightarrow> mhi_write_reg c base offset ((tmp AND NOT m) OR push_bit shift v))"

definition mhi_write_db :: "mhi_controller \<Rightarrow> u64 \<Rightarrow> u64 \<Rightarrow> mhi_controller" where
  "mhi_write_db c db_addr w =
     mhi_write_reg (mhi_write_reg c db_addr 4 (ucast (drop_bit 32 w))) db_addr 0 (ucast w)"

definition BHI_EXECENV :: u32 where "BHI_EXECENV = 0x28"
definition MHICTRL :: u32 where "MHICTRL = 0x38"
definition MHISTATUS :: u32 where "MHISTATUS = 0x48"

definition mhi_get_exec_env :: "mhi_controller \<Rightarrow> u32" where
  "mhi_get_exec_env c =
     (case mhi_read_reg c (bhi c) BHI_EXECENV of Inl _ \<Rightarrow> MHI_EE_MAX | Inr exec \<Rightarrow> exec)"

definition mhi_get_mhi_state :: "mhi_controller \<Rightarrow> u32" where
  "mhi_get_mhi_state c =
     (case mhi_read_reg_field c (regs c) MHISTATUS 0x0000FF00 8 of
        Inl _ \<Rightarrow> MHI_STATE_MAX | Inr state \<Rightarrow> state)"

definition mhi_set_mhi_state :: "mhi_controller \<Rightarrow> u32 \<Rightarrow> mhi_controller" where
  "mhi_set_mhi_state c state =
     (if state = MHI_STATE_RESET then mhi_write_reg_field c (regs c) MHICTRL 0x2 1 1
      else mhi_write_reg_field c (regs c) MHICTRL 0x0000FF00 8 state)"

section \<open>Doorbells\<close>

definition run_process_db :: "mhi_controller \<Rightarrow> db_cfg \<Rightarrow> u64 \<Rightarrow> u64 \<Rightarrow> mhi_controller \<times> db_cfg" where
  "run_process_db c cfg db_addr w =
     (case process_db cfg of
        mhi_db_brstmode \<Rightarrow>
          if db_mode cfg
          then (mhi_write_db c db_addr w, cfg\<lparr>db_val := w, db_mode := False\<rparr>)
          else (c, cfg)
      | mhi_db_brstmode_disable \<Rightarrow> (mhi_write_db c db_addr w, cfg\<lparr>db_val := w\<rparr>))"

definition mhi_ring_er_db :: "mhi_controller \<Rightarrow> mhi_event \<Rightarrow> mhi_controller \<times> mhi_event" where
  "mhi_ring_er_db c ev =
     (let (c, cfg) = run_process_db c (ev_db_cfg ev) (r_db_addr (ev_ring ev)) (r_ctxt_wp (ev_ring ev))
      in (c, ev\<lparr>ev_db_cfg := cfg\<rparr>))"

definition mhi_ring_cmd_db :: "mhi_controller \<Rightarrow> mhi_cmd \<Rightarrow> mhi_controller \<times> mhi_cmd" where
  "mhi_ring_cmd_db c cmd =
     (let ring = cmd_ring cmd; db = r_iommu_base ring + (r_wp ring - r_base ring)
      in (mhi_write_db c (r_db_addr ring) db, cmd\<lparr>cmd_ring := ring\<lparr>r_ctxt_wp := db\<rparr>\<rparr>))"

definition mhi_ring_chan_db :: "mhi_controller \<Rightarrow> mhi_chan \<Rightarrow> mhi_controller \<times> mhi_chan" where
  "mhi_ring_chan_db c ch =
     (let ring = tre_ring ch; db = r_iommu_base ring + (r_wp ring - r_base ring);
          ch = ch\<lparr>tre_ring := ring\<lparr>r_ctxt_wp := db\<rparr>\<rparr>;
          (c, cfg) = run_process_db c (ch_db_cfg ch) (r_db_addr ring) db
      in (c, ch\<lparr>ch_db_cfg := cfg\<rparr>))"

section \<open>Device wake\<close>

text \<open>Both functions return before their counting code, which is dead.\<close>

definition mhi_assert_dev_wake :: "mhi_controller \<Rightarrow> mhi_controller" where
  "mhi_assert_dev_wake c =
     (if dev_state c = MHI_STATE_M2 then mhi_write_db c (wake_db c) 1 else c)"

definition mhi_deassert_dev_wake :: "mhi_controller \<Rightarrow> mhi_controller" where
  "mhi_deassert_dev_wake c = c"

section \<open>Power management states\<close>

record mhi_pm_transitions =
  from_state :: u32
  to_states :: u32

definition mhi_state_transitions :: "mhi_pm_transitions list" where
  "mhi_state_transitions =
     [\<lparr>from_state = MHI_PM_DISABLE, to_states = MHI_PM_POR\<rparr>,
      \<lparr>from_state = MHI_PM_POR,
       to_states = MHI_PM_POR OR MHI_PM_DISABLE OR MHI_PM_M0 OR MHI_PM_SYS_ERR_DETECT OR
         MHI_PM_SHUTDOWN_PROCESS OR MHI_PM_LD_ERR_FATAL_DETECT OR MHI_PM_FW_DL_ERR\<rparr>,
      \<lparr>from_state = MHI_PM_M0,
       to_states = MHI_PM_M2 OR MHI_PM_M3_ENTER OR MHI_PM_SYS_ERR_DETECT OR
         MHI_PM_SHUTDOWN_PROCESS OR MHI_PM_LD_ERR_FATAL_DETECT OR MHI_PM_FW_DL_ERR\<rparr>,
      \<lparr>from_state = MHI_PM_M2,
       to_states = MHI_PM_M0 OR MHI_PM_SYS_ERR_DETECT OR MHI_PM_SHUTDOWN_PROCESS OR
         MHI_PM_LD_ERR_FATAL_DETECT\<rparr>,
      \<lparr>from_state = MHI_PM_M3_ENTER,
       to_states = MHI_PM_M3 OR MHI_PM_SYS_ERR_DETECT OR MHI_PM_SHUTDOWN_PROCESS OR
         MHI_PM_LD_ERR_FATAL_DETECT\<rparr>,
      \<lparr>from_state = MHI_PM_M3,
       to_states = MHI_PM_M3_EXIT OR MHI_PM_SYS_ERR_DETECT OR MHI_PM_SHUTDOWN_PROCESS OR
         MHI_PM_LD_ERR_FATAL_DETECT\<rparr>,
      \<lparr>from_state = MHI_PM_M3_EXIT,
       to_states = MHI_PM_M0 OR MHI_PM_SYS_ERR_DETECT OR MHI_PM_SHUTDOWN_PROCESS OR
         MHI_PM_LD_ERR_FATAL_DETECT\<rparr>,
      \<lparr>from_state = MHI_PM_FW_DL_ERR,
       to_states = MHI_PM_FW_DL_ERR OR MHI_PM_SYS_ERR_DETECT OR MHI_PM_SHUTDOWN_PROCESS OR
         MHI_PM_LD_ERR_FATAL_DETECT\<rparr>,
      \<lparr>from_state = MHI_PM_SYS_ERR_DETECT,
       to_states = MHI_PM_SYS_ERR_PROCESS OR MHI_PM_SHUTDOWN_PROCESS OR
         MHI_PM_LD_ERR_FATAL_DETECT\<rparr>,
      \<lparr>from_state = MHI_PM_SYS_ERR_PROCESS,
       to_states = MHI_PM_POR OR MHI_PM_SHUTDOWN_PROCESS OR MHI_PM_LD_ERR_FATAL_DETECT\<rparr>,
      \<lparr>from_state = MHI_PM_SHUTDOWN_PROCESS,
       to_states = MHI_PM_DISABLE OR MHI_PM_LD_ERR_FATAL_DETECT\<rparr>,
      \<lparr>from_state = MHI_PM_LD_ERR_FATAL_DETECT,
       to_states = MHI_PM_LD_ERR_FATAL_DETECT OR MHI_PM_SHUTDOWN_PROCESS\<rparr>]"

text \<open>\<open>find_last_bit\<close> of the kernel on 32 bits: the index of the highest set bit, or 32.\<close>

definition find_last_bit :: "u32 \<Rightarrow> nat" where
  "find_last_bit w =
     (case filter (bit w) (rev [0..<32]) of [] \<Rightarrow> 32 | i # _ \<Rightarrow> i)"

definition set_pm_state :: "u32 \<Rightarrow> mhi_controller \<Rightarrow> mhi_controller" where
  [simp]: "set_pm_state s c = c\<lparr>pm_state := s, pm_history := pm_history c @ [s]\<rparr>"

definition mhi_tryset_pm_state :: "mhi_controller \<Rightarrow> u32 \<Rightarrow> u32 \<times> mhi_controller" where
  "mhi_tryset_pm_state c state =
     (let cur_state = pm_state c; index = find_last_bit cur_state
      in if length mhi_state_transitions \<le> index then (cur_state, c)
         else if from_state (mhi_state_transitions ! index) \<noteq> cur_state then (cur_state, c)
         else if to_states (mhi_state_transitions ! index) AND state = 0 then (cur_state, c)
         else (state, set_pm_state state c))"

end
