(* ===== verification/Mhi_Xfer.thy ===== *)
theory Mhi_Xfer
  imports Mhi_Core
begin

text \<open>
  Transfers on MHI channels (\<^verbatim>\<open>core/mhi_main.c\<close>). A channel has two rings in step: the transfer
  ring the device reads (\<open>tre_ring\<close>) and the host's bookkeeping (\<open>buf_ring\<close>). Queueing writes a
  descriptor into both at the write position; a completion event of the device names the last
  finished descriptor and hands every buffer up to it back to the client; resetting a channel
  hands back all of them. A function of the source that takes the controller and a channel
  takes and returns both.

  The theorems say that a channel is a bounded first-in first-out queue of buffers: each queued
  buffer comes back exactly once and in order, whether by completion or by reset, and what the
  device can do to break this.
\<close>

section \<open>Descriptors\<close>

definition MHI_TRE_GET_EV_CODE :: "mhi_tre \<Rightarrow> u32" where
  "MHI_TRE_GET_EV_CODE t = drop_bit 24 (dword0 t) AND 0xFF"

definition MHI_TRE_GET_EV_LEN :: "mhi_tre \<Rightarrow> u32" where
  "MHI_TRE_GET_EV_LEN t = dword0 t AND 0xFFFF"

definition MHI_TRE_GET_EV_CHID :: "mhi_tre \<Rightarrow> u32" where
  "MHI_TRE_GET_EV_CHID t = drop_bit 24 (dword1 t) AND 0xFF"

definition MHI_TRE_GET_EV_TYPE :: "mhi_tre \<Rightarrow> u32" where
  "MHI_TRE_GET_EV_TYPE t = drop_bit 16 (dword1 t) AND 0xFF"

definition MHI_TRE_DATA_DWORD1 :: "u32 \<Rightarrow> u32 \<Rightarrow> u32 \<Rightarrow> u32 \<Rightarrow> u32" where
  "MHI_TRE_DATA_DWORD1 bei ieot ieob chain =
     push_bit 16 2 OR push_bit 10 bei OR push_bit 9 ieot OR push_bit 8 ieob OR chain"

definition MHI_EV_CC_EOT :: u32 where "MHI_EV_CC_EOT = 0x2"
definition MHI_EV_CC_OVERFLOW :: u32 where "MHI_EV_CC_OVERFLOW = 0x3"
definition MHI_EV_CC_EOB :: u32 where "MHI_EV_CC_EOB = 0x4"
definition MHI_EV_CC_OOB :: u32 where "MHI_EV_CC_OOB = 0x5"
definition MHI_EV_CC_DB_MODE :: u32 where "MHI_EV_CC_DB_MODE = 0x6"

definition MHI_PKT_TYPE_TX_EVENT :: u32 where "MHI_PKT_TYPE_TX_EVENT = 0x22"
definition MHI_PKT_TYPE_RSC_TX_EVENT :: u32 where "MHI_PKT_TYPE_RSC_TX_EVENT = 0x28"
definition MHI_PKT_TYPE_STALE_EVENT :: u32 where "MHI_PKT_TYPE_STALE_EVENT = 0x49"

text \<open>The transfer flags are a plain enumeration, although the code tests them as bits.\<close>

definition MHI_EOB :: u32 where "MHI_EOB = 0"
definition MHI_EOT :: u32 where "MHI_EOT = 1"
definition MHI_CHAIN :: u32 where "MHI_CHAIN = 2"

section \<open>Queueing\<close>

definition DMA_MAPPING_ERROR :: u64 where "DMA_MAPPING_ERROR = 0xFFFFFFFFFFFFFFFF"

text \<open>\<open>mhi_map_single_no_bb\<close>: the DMA API returns the next address of its script.\<close>

definition mhi_map_single_no_bb ::
  "mhi_controller \<Rightarrow> mhi_buf_info \<Rightarrow> int \<times> mhi_controller \<times> mhi_buf_info" where
  "mhi_map_single_no_bb c bi =
     (let a = (case dma_maps c of [] \<Rightarrow> DMA_MAPPING_ERROR | a # _ \<Rightarrow> a);
          c = c\<lparr>dma_maps := tl (dma_maps c)\<rparr>; bi = bi\<lparr>p_addr := a\<rparr>
      in if a = DMA_MAPPING_ERROR then (- ENOMEM, c, bi) else (0, c, bi))"

definition flag :: "bool \<Rightarrow> u32" where "flag b = (if b then 1 else 0)"

definition mhi_gen_tre ::
  "mhi_controller \<Rightarrow> mhi_chan \<Rightarrow> u64 \<Rightarrow> u64 \<Rightarrow> u64 \<Rightarrow> u32 \<Rightarrow> (int \<times> mhi_controller \<times> mhi_chan) option" where
  "mhi_gen_tre c ch buf cb buf_len flags =
     do {
       bi \<leftarrow> buf_mem ch (r_wp (buf_ring ch));
       let bi = bi\<lparr>v_addr := buf, cb_buf := cb, bi_wp := r_wp (tre_ring ch), bi_dir := dir ch,
                  bi_len := buf_len\<rparr>;
       let (ret, c, bi) = mhi_map_single_no_bb c bi;
       let ch = ch\<lparr>buf_mem := (buf_mem ch)(r_wp (buf_ring ch) \<mapsto> bi)\<rparr>;
       if ret \<noteq> 0 then Some (ret, c, ch)
       else do {
         _ \<leftarrow> tre_mem ch (r_wp (tre_ring ch));
         let eob = flag (flags AND MHI_EOB \<noteq> 0);
         let eot = flag (flags AND MHI_EOT \<noteq> 0);
         let chain = flag (flags AND MHI_CHAIN \<noteq> 0);
         let bei = flag (intmod ch \<noteq> 0);
         let tre = \<lparr>tre_ptr = p_addr bi, dword0 = ucast (buf_len AND 0xFFFF),
                    dword1 = MHI_TRE_DATA_DWORD1 bei eot eob chain\<rparr>;
         Some (0, c, ch\<lparr>tre_mem := (tre_mem ch)(r_wp (tre_ring ch) \<mapsto> tre),
                      tre_ring := mhi_add_ring_element (tre_ring ch),
                      buf_ring := mhi_add_ring_element (buf_ring ch)\<rparr>)
       }
     }"

text \<open>Steps shared by the queueing functions: waking a suspended bus, asserting device wake for
  an uplink or a low-power state, counting uplink packets, ringing the doorbell in M0.\<close>

definition resume_if_suspended :: "mhi_controller \<Rightarrow> mhi_controller" where
  "resume_if_suspended c =
     (if MHI_PM_IN_SUSPEND_STATE (pm_state c) then emit Runtime_put (emit Runtime_get c) else c)"

definition assert_wake_for :: "mhi_controller \<Rightarrow> mhi_chan \<Rightarrow> mhi_controller" where
  "assert_wake_for c ch =
     (if dir ch = DMA_TO_DEVICE \<or> (dir ch = DMA_FROM_DEVICE \<and> pm_state c \<noteq> MHI_PM_M0)
      then mhi_assert_dev_wake c else c)"

definition count_packet :: "mhi_controller \<Rightarrow> mhi_chan \<Rightarrow> mhi_controller" where
  "count_packet c ch =
     (if dir ch = DMA_TO_DEVICE
      then let c = c\<lparr>pending_pkts := pending_pkts c + 1\<rparr>
           in if pending_pkts c = 1 then emit Runtime_get c else c
      else c)"

definition uncount_packet :: "mhi_controller \<Rightarrow> mhi_chan \<Rightarrow> mhi_controller" where
  "uncount_packet c ch =
     (if dir ch = DMA_TO_DEVICE
      then let c = c\<lparr>pending_pkts := pending_pkts c - 1\<rparr>
           in if pending_pkts c = 0 then emit Runtime_put c else c
      else c)"

definition ring_if_M0 :: "mhi_controller \<Rightarrow> mhi_chan \<Rightarrow> mhi_controller \<times> mhi_chan" where
  "ring_if_M0 c ch =
     (if MHI_DB_ACCESS_VALID (pm_state c) then mhi_ring_chan_db c ch else (c, ch))"

definition mhi_queue_buf ::
  "mhi_controller \<Rightarrow> mhi_chan \<Rightarrow> u64 \<Rightarrow> u64 \<Rightarrow> u32 \<Rightarrow> (int \<times> mhi_controller \<times> mhi_chan) option" where
  "mhi_queue_buf c ch buf len mflags =
     (if MHI_PM_IN_ERROR_STATE (pm_state c) then Some (- EIO, c, ch)
      else if mhi_is_ring_full (tre_ring ch) then Some (- ENOMEM, c, ch)
      else do {
        (ret, c, ch) \<leftarrow> mhi_gen_tre c ch buf buf len mflags;
        if ret \<noteq> 0 then Some (ret, c, ch)
        else do {
          let c = resume_if_suspended c;
          let c = assert_wake_for c ch;
          let c = count_packet c ch;
          let (c, ch) = ring_if_M0 c ch;
          Some (0, c, ch)
        }
      })"

text \<open>\<open>skb_data\<close> is the data pointer of the socket buffer \<open>skb\<close>.\<close>

definition mhi_queue_skb ::
  "mhi_controller \<Rightarrow> mhi_chan \<Rightarrow> u64 \<Rightarrow> u64 \<Rightarrow> u64 \<Rightarrow> (int \<times> mhi_controller \<times> mhi_chan) option" where
  "mhi_queue_skb c ch skb skb_data len =
     (if mhi_is_ring_full (tre_ring ch) then Some (- ENOMEM, c, ch)
      else if MHI_PM_IN_ERROR_STATE (pm_state c) then Some (- EIO, c, ch)
      else do {
        let c = resume_if_suspended c;
        let c = assert_wake_for c ch;
        bi \<leftarrow> buf_mem ch (r_wp (buf_ring ch));
        let bi = bi\<lparr>v_addr := skb_data, cb_buf := skb, bi_wp := r_wp (tre_ring ch),
                   bi_dir := dir ch, bi_len := len\<rparr>;
        let (ret, c, bi) = mhi_map_single_no_bb c bi;
        let ch = ch\<lparr>buf_mem := (buf_mem ch)(r_wp (buf_ring ch) \<mapsto> bi)\<rparr>;
        if ret \<noteq> 0 then Some (ret, c, ch)
        else do {
          _ \<leftarrow> tre_mem ch (r_wp (tre_ring ch));
          let tre = \<lparr>tre_ptr = p_addr bi, dword0 = ucast (len AND 0xFFFF),
                     dword1 = MHI_TRE_DATA_DWORD1 1 1 0 0\<rparr>;
          let ch = ch\<lparr>tre_mem := (tre_mem ch)(r_wp (tre_ring ch) \<mapsto> tre)\<rparr>;
          let c = count_packet c ch;
          let ch = ch\<lparr>tre_ring := mhi_add_ring_element (tre_ring ch),
                     buf_ring := mhi_add_ring_element (buf_ring ch)\<rparr>;
          let (c, ch) = ring_if_M0 c ch;
          Some (0, c, ch)
        }
      })"

text \<open>\<open>mhi_buf\<close> is the client's descriptor and \<open>dma_addr\<close> the address in it.\<close>

definition mhi_queue_dma ::
  "mhi_controller \<Rightarrow> mhi_chan \<Rightarrow> u64 \<Rightarrow> u64 \<Rightarrow> u64 \<Rightarrow> (int \<times> mhi_controller \<times> mhi_chan) option" where
  "mhi_queue_dma c ch mhi_buf dma_addr len =
     (if mhi_is_ring_full (tre_ring ch) then Some (- ENOMEM, c, ch)
      else if MHI_PM_IN_ERROR_STATE (pm_state c) then Some (- EIO, c, ch)
      else do {
        let c = resume_if_suspended c;
        let c = assert_wake_for c ch;
        bi \<leftarrow> buf_mem ch (r_wp (buf_ring ch));
        let bi = bi\<lparr>p_addr := dma_addr, pre_mapped := True, cb_buf := mhi_buf,
                   bi_wp := r_wp (tre_ring ch), bi_dir := dir ch, bi_len := len\<rparr>;
        _ \<leftarrow> tre_mem ch (r_wp (tre_ring ch));
        let rsc = (xfer_type ch = MHI_XFER_RSC_DMA);
        let bi = (if rsc then bi\<lparr>bi_used := True\<rparr> else bi);
        let tre = (if rsc
                   then \<lparr>tre_ptr = push_bit 48 len OR dma_addr,
                         dword0 = ucast (r_wp (buf_ring ch) - r_base (buf_ring ch)),
                         dword1 = push_bit 16 0x8\<rparr>
                   else \<lparr>tre_ptr = dma_addr, dword0 = ucast (len AND 0xFFFF),
                         dword1 = MHI_TRE_DATA_DWORD1 1 1 0 0\<rparr>);
        let ch = ch\<lparr>buf_mem := (buf_mem ch)(r_wp (buf_ring ch) \<mapsto> bi),
                   tre_mem := (tre_mem ch)(r_wp (tre_ring ch) \<mapsto> tre)\<rparr>;
        let c = count_packet c ch;
        let ch = ch\<lparr>tre_ring := mhi_add_ring_element (tre_ring ch),
                   buf_ring := mhi_add_ring_element (buf_ring ch)\<rparr>;
        let (c, ch) = ring_if_M0 c ch;
        Some (0, c, ch)
      })"

section \<open>Completions\<close>

text \<open>One round of the completion loop: the buffer at the read position goes back to the client,
  and a preallocated one is queued again.\<close>

definition complete_one ::
  "mhi_controller \<Rightarrow> mhi_chan \<Rightarrow> u64 \<Rightarrow> int \<Rightarrow> (mhi_controller \<times> mhi_chan) option" where
  "complete_one c ch xfer_len status =
     do {
       bi \<leftarrow> buf_mem ch (r_rp (buf_ring ch));
       let c = (if pre_mapped bi then c else emit (Unmap_single (p_addr bi)) c);
       let ch = ch\<lparr>buf_ring := mhi_del_ring_element (buf_ring ch),
                  tre_ring := mhi_del_ring_element (tre_ring ch)\<rparr>;
       let c = emit (Xfer_cb (chan ch) (cb_buf bi) xfer_len status) c;
       let c = uncount_packet c ch;
       let c = (if dir ch = DMA_TO_DEVICE then mhi_deassert_dev_wake c else c);
       if pre_alloc ch
       then do {
         (ret, c, ch) \<leftarrow> mhi_queue_buf c ch (cb_buf bi) (bi_len bi) MHI_EOT;
         Some (if ret \<noteq> 0 then emit (Kfree (cb_buf bi)) c else c, ch)
       }
       else Some (c, ch)
     }"

text \<open>The loop runs until the local read pointer is the one derived from the device's event; a
  pointer the local one never reaches is a loop without end.\<close>

partial_function (option) complete_loop ::
  "mhi_controller \<Rightarrow> mhi_chan \<Rightarrow> u64 \<Rightarrow> u64 \<Rightarrow> int \<Rightarrow> (mhi_controller \<times> mhi_chan) option" where
  "complete_loop c ch dev_rp xfer_len status =
     (if r_rp (tre_ring ch) = dev_rp then Some (c, ch)
      else do {
        (c, ch) \<leftarrow> complete_one c ch xfer_len status;
        complete_loop c ch dev_rp xfer_len status
      })"

definition count_event :: "mhi_chan \<Rightarrow> u32 \<Rightarrow> mhi_chan" where
  "count_event ch ev_code =
     ch\<lparr>used_events := (used_events ch)[unat ev_code := used_events ch ! unat ev_code + 1]\<rparr>"

definition parse_xfer_event ::
  "mhi_controller \<Rightarrow> mhi_tre \<Rightarrow> mhi_chan \<Rightarrow> (mhi_controller \<times> mhi_chan) option" where
  "parse_xfer_event c event ch =
     (let ev_code = MHI_TRE_GET_EV_CODE event;
          status = (if ev_code = MHI_EV_CC_OVERFLOW then - EOVERFLOW else 0)
      in if ch_state ch \<noteq> MHI_CH_STATE_ENABLED then Some (c, ch)
         else if ev_code = MHI_EV_CC_OVERFLOW \<or> ev_code = MHI_EV_CC_EOB \<or> ev_code = MHI_EV_CC_EOT
         then let ring = tre_ring ch;
                  ev_tre = mhi_to_virtual ring (tre_ptr event);
                  dev_rp = ev_tre + sizeof_mhi_tre;
                  dev_rp = (if r_base ring + r_len ring \<le> dev_rp then r_base ring else dev_rp)
              in complete_loop c (count_event ch ev_code) dev_rp (ucast (MHI_TRE_GET_EV_LEN event)) status
         else if ev_code = MHI_EV_CC_OOB \<or> ev_code = MHI_EV_CC_DB_MODE
         then let ch = count_event ch ev_code;
                  ch = ch\<lparr>ch_db_cfg := (ch_db_cfg ch)\<lparr>db_mode := True\<rparr>\<rparr>
              in Some (if r_wp (tre_ring ch) \<noteq> r_rp (tre_ring ch) \<and> MHI_DB_ACCESS_VALID (pm_state c)
                       then mhi_ring_chan_db c ch else (c, ch))
         else Some (c, ch))"

definition parse_rsc_event ::
  "mhi_controller \<Rightarrow> mhi_tre \<Rightarrow> mhi_chan \<Rightarrow> (mhi_controller \<times> mhi_chan) option" where
  "parse_rsc_event c event ch =
     (let ev_code = MHI_TRE_GET_EV_CODE event;
          cookie = ucast (ucast (tre_ptr event) :: u32) :: u64;
          p = r_base (buf_ring ch) + cookie
      in do {
        bi \<leftarrow> buf_mem ch p;
        let status = (if ev_code = MHI_EV_CC_OVERFLOW then - EOVERFLOW else 0);
        if ch_state ch \<noteq> MHI_CH_STATE_ENABLED then Some (c, ch)
        else do {
          let c = emit (Xfer_cb (chan ch) (cb_buf bi) (ucast (MHI_TRE_GET_EV_LEN event)) status) c;
          Some (c, ch\<lparr>tre_ring := mhi_del_ring_element (tre_ring ch),
                     buf_mem := (buf_mem ch)(p \<mapsto> bi\<lparr>bi_used := False\<rparr>)\<rparr>)
        }
      })"

section \<open>Event rings of data channels\<close>

definition parse_event ::
  "mhi_controller \<Rightarrow> mhi_tre \<Rightarrow> mhi_chan \<Rightarrow> u32 \<Rightarrow> (mhi_controller \<times> mhi_chan \<times> u32) option" where
  "parse_event c tre ch event_quota =
     (if MHI_TRE_GET_EV_TYPE tre = MHI_PKT_TYPE_TX_EVENT
      then do { (c, ch) \<leftarrow> parse_xfer_event c tre ch; Some (c, ch, event_quota - 1) }
      else if MHI_TRE_GET_EV_TYPE tre = MHI_PKT_TYPE_RSC_TX_EVENT
      then do { (c, ch) \<leftarrow> parse_rsc_event c tre ch; Some (c, ch, event_quota - 1) }
      else Some (c, ch, event_quota))"

partial_function (option) data_event_loop ::
  "u64 \<Rightarrow> u32 \<Rightarrow> u32 \<Rightarrow> u32 \<Rightarrow> mhi_controller \<Rightarrow> mhi_event \<Rightarrow> (u32 \<times> mhi_controller \<times> mhi_event) option"
  where
  "data_event_loop dev_rp event_quota chan_count count c ev =
     (let local_rp = r_rp (ev_ring ev)
      in if dev_rp = local_rp \<or> event_quota = 0 then Some (count, c, ev)
         else do {
           tre \<leftarrow> ev_mem ev local_rp;
           let i = unat (MHI_TRE_GET_EV_CHID tre);
           ch \<leftarrow> elem (mhi_chan_array c) i;
           let chan_local_rp = r_rp (tre_ring ch);
           (c, ch, event_quota) \<leftarrow> parse_event c tre ch event_quota;
           let chan_count = chan_count + get_used_ring_elements chan_local_rp (r_rp (tre_ring ch))
                              (ucast (r_elements (tre_ring ch)));
           let ev = ev\<lparr>ev_ring := mhi_recycle_ev_ring_element (ev_ring ev)\<rparr>;
           let last = (r_rp (ev_ring ev) = dev_rp \<or> event_quota = 0);
           let ch = (if last \<and> chan_used_elements ch < chan_count
                     then ch\<lparr>chan_used_elements := chan_count\<rparr> else ch);
           let chan_count = (if last then 0 else chan_count);
           let dev_rp = (if last then mhi_to_virtual (ev_ring ev) (er_ctxt_rp ev) else dev_rp);
           let c = c\<lparr>mhi_chan_array := (mhi_chan_array c)[i := ch]\<rparr>;
           data_event_loop dev_rp event_quota chan_count (count + 1) c ev
         })"

definition mhi_process_data_event_ring ::
  "mhi_controller \<Rightarrow> mhi_event \<Rightarrow> u32 \<Rightarrow> (int \<times> mhi_controller \<times> mhi_event) option" where
  "mhi_process_data_event_ring c ev event_quota =
     (if MHI_EVENT_ACCESS_INVALID (pm_state c) then Some (- EIO, c, ev)
      else do {
        let dev_rp = mhi_to_virtual (ev_ring ev) (er_ctxt_rp ev);
        (count, c, ev) \<leftarrow> data_event_loop dev_rp event_quota 0 0 c ev;
        let ev = (if used_elements ev < count then ev\<lparr>used_elements := count\<rparr> else ev);
        let (c, ev) = (if MHI_DB_ACCESS_VALID (pm_state c) then mhi_ring_er_db c ev else (c, ev));
        Some (sint count, c, ev)
      })"

section \<open>Resetting a channel\<close>

partial_function (option) mhi_reset_data_chan ::
  "mhi_controller \<Rightarrow> mhi_chan \<Rightarrow> (mhi_controller \<times> mhi_chan) option" where
  "mhi_reset_data_chan c ch =
     (if r_rp (tre_ring ch) = r_wp (tre_ring ch) then Some (c, ch)
      else do {
        bi \<leftarrow> buf_mem ch (r_rp (buf_ring ch));
        let c = uncount_packet c ch;
        let c = (if dir ch = DMA_TO_DEVICE then mhi_deassert_dev_wake c else c);
        let c = (if pre_mapped bi then c else emit (Unmap_single (p_addr bi)) c);
        let ch = ch\<lparr>buf_ring := mhi_del_ring_element (buf_ring ch),
                   tre_ring := mhi_del_ring_element (tre_ring ch)\<rparr>;
        let c = emit (if pre_alloc ch then Kfree (cb_buf bi)
                      else Xfer_cb (chan ch) (cb_buf bi) 0 (- ENOTCONN)) c;
        mhi_reset_data_chan c ch
      })"

partial_function (option) reset_rsc_loop ::
  "mhi_controller \<Rightarrow> mhi_chan \<Rightarrow> u64 \<Rightarrow> (mhi_controller \<times> mhi_chan) option" where
  "reset_rsc_loop c ch p =
     (let ring = buf_ring ch
      in if \<not> p < r_base ring + r_len ring then Some (c, ch)
         else do {
           bi \<leftarrow> buf_mem ch p;
           if \<not> bi_used bi then reset_rsc_loop c ch (p + r_el_size ring)
           else reset_rsc_loop (emit (Xfer_cb (chan ch) (cb_buf bi) 0 (- ENOTCONN)) c)
                  (ch\<lparr>buf_mem := (buf_mem ch)(p \<mapsto> bi\<lparr>bi_used := False\<rparr>)\<rparr>) (p + r_el_size ring)
         })"

definition mhi_reset_rsc_chan ::
  "mhi_controller \<Rightarrow> mhi_chan \<Rightarrow> (mhi_controller \<times> mhi_chan) option" where
  "mhi_reset_rsc_chan c ch = reset_rsc_loop c ch (r_base (buf_ring ch))"

partial_function (option) mark_stale_loop :: "mhi_event \<Rightarrow> u64 \<Rightarrow> u64 \<Rightarrow> u32 \<Rightarrow> mhi_event option" where
  "mark_stale_loop ev dev_rp local_rp ch =
     (if dev_rp = local_rp then Some ev
      else do {
        tre \<leftarrow> ev_mem ev local_rp;
        let ev = (if MHI_TRE_GET_EV_TYPE tre = MHI_PKT_TYPE_TX_EVENT \<and> ch = MHI_TRE_GET_EV_CHID tre
                  then ev\<lparr>ev_mem := (ev_mem ev)(local_rp \<mapsto>
                         tre\<lparr>dword1 := push_bit 24 ch OR push_bit 16 MHI_PKT_TYPE_STALE_EVENT\<rparr>)\<rparr>
                  else ev);
        let local_rp = local_rp + sizeof_mhi_tre;
        mark_stale_loop ev dev_rp
          (if local_rp = r_base (ev_ring ev) + r_len (ev_ring ev) then r_base (ev_ring ev) else local_rp) ch
      })"

definition mhi_mark_stale_events :: "mhi_event \<Rightarrow> u32 \<Rightarrow> mhi_event option" where
  "mhi_mark_stale_events ev ch =
     mark_stale_loop ev (mhi_to_virtual (ev_ring ev) (er_ctxt_rp ev)) (r_rp (ev_ring ev)) ch"

definition mhi_reset_chan ::
  "mhi_controller \<Rightarrow> mhi_chan \<Rightarrow> mhi_event \<Rightarrow> (mhi_controller \<times> mhi_chan \<times> mhi_event) option" where
  "mhi_reset_chan c ch ev =
     (if offload_ch ch then Some (c, ch, ev)
      else do {
        ev \<leftarrow> mhi_mark_stale_events ev (chan ch);
        (c, ch) \<leftarrow> (if xfer_type ch = MHI_XFER_RSC_DMA then mhi_reset_rsc_chan c ch
                    else mhi_reset_data_chan c ch);
        Some (c, ch, ev)
      })"

section \<open>A channel as a queue of buffers\<close>

definition buf_at :: "mhi_chan \<Rightarrow> nat \<Rightarrow> mhi_buf_info" where
  "buf_at ch i = the (buf_mem ch (slot (buf_ring ch) i))"

definition tre_at :: "mhi_chan \<Rightarrow> nat \<Rightarrow> mhi_tre" where
  "tre_at ch i = the (tre_mem ch (slot (tre_ring ch) i))"

definition ring_count :: "mhi_ring \<Rightarrow> nat" where
  "ring_count ring = ring_used (ring_n ring) (rpos ring) (wpos ring)"

text \<open>The descriptors between the read and the write position, oldest first.\<close>

definition pending :: "mhi_chan \<Rightarrow> mhi_buf_info list" where
  "pending ch = ring_slice (buf_at ch) (ring_n (buf_ring ch)) (rpos (buf_ring ch)) (ring_count (buf_ring ch))"

definition pending_tres :: "mhi_chan \<Rightarrow> mhi_tre list" where
  "pending_tres ch = ring_slice (tre_at ch) (ring_n (tre_ring ch)) (rpos (tre_ring ch)) (ring_count (tre_ring ch))"

text \<open>The invariant of a channel: two well-formed rings in step over allocated elements.\<close>

definition chan_ok :: "mhi_chan \<Rightarrow> bool" where
  "chan_ok ch \<longleftrightarrow>
     ring_ok (tre_ring ch) \<and> ring_ok (buf_ring ch) \<and>
     r_el_size (tre_ring ch) = sizeof_mhi_tre \<and>
     ring_n (tre_ring ch) = ring_n (buf_ring ch) \<and>
     rpos (tre_ring ch) = rpos (buf_ring ch) \<and> wpos (tre_ring ch) = wpos (buf_ring ch) \<and>
     (\<forall>i < ring_n (buf_ring ch). buf_mem ch (slot (buf_ring ch) i) \<noteq> None) \<and>
     (\<forall>i < ring_n (tre_ring ch). tre_mem ch (slot (tre_ring ch) i) \<noteq> None)"

lemma length_pending [simp]: "length (pending ch) = ring_count (buf_ring ch)"
  by (simp add: pending_def)

lemma pending_Nil_iff: "pending ch = [] \<longleftrightarrow> ring_count (buf_ring ch) = 0"
  by (metis length_0_conv length_pending)

lemma chan_ok_counts: "chan_ok ch \<Longrightarrow> ring_count (tre_ring ch) = ring_count (buf_ring ch)"
  by (simp add: chan_ok_def ring_count_def)

lemma chan_full: "chan_ok ch \<Longrightarrow>
    mhi_is_ring_full (tre_ring ch) \<longleftrightarrow> length (pending ch) = ring_n (buf_ring ch) - 1"
  by (simp add: mhi_is_ring_full_count chan_ok_def ring_count_def)

lemma slot_update_other:
  assumes "ring_ok ring" "i < ring_n ring" "i \<noteq> wpos ring"
  shows "slot ring i \<noteq> r_wp ring"
  using assms slot_inj [of ring i "wpos ring"] by (auto simp: ring_ok_def)

text \<open>Writing both descriptors at the write positions and advancing appends to the queue.\<close>

definition push_desc :: "mhi_chan \<Rightarrow> mhi_buf_info \<Rightarrow> mhi_tre \<Rightarrow> mhi_chan" where
  "push_desc ch bi tre =
     ch\<lparr>buf_mem := (buf_mem ch)(r_wp (buf_ring ch) \<mapsto> bi),
        tre_mem := (tre_mem ch)(r_wp (tre_ring ch) \<mapsto> tre),
        tre_ring := mhi_add_ring_element (tre_ring ch),
        buf_ring := mhi_add_ring_element (buf_ring ch)\<rparr>"

definition pop_desc :: "mhi_chan \<Rightarrow> mhi_chan" where
  "pop_desc ch =
     ch\<lparr>buf_ring := mhi_del_ring_element (buf_ring ch),
        tre_ring := mhi_del_ring_element (tre_ring ch)\<rparr>"

lemma chan_push:
  assumes ok: "chan_ok ch" and room: "length (pending ch) < ring_n (buf_ring ch) - 1"
  shows "chan_ok (push_desc ch bi tre)" and "pending (push_desc ch bi tre) = pending ch @ [bi]"
    and "pending_tres (push_desc ch bi tre) = pending_tres ch @ [tre]"
proof -
  let ?ch' = "push_desc ch bi tre"
  note ch'_def = push_desc_def
  have b: "ring_ok (buf_ring ch)" and t: "ring_ok (tre_ring ch)" using ok by (auto simp: chan_ok_def)
  have rb: "mr.used (buf_ring ch) < ring_n (buf_ring ch) - 1"
    using room by (simp add: ring_count_def)
  have rt: "mr.used (tre_ring ch) < ring_n (tre_ring ch) - 1"
    using rb ok by (simp add: chan_ok_def)
  have wb: "r_wp (buf_ring ch) = slot (buf_ring ch) (wpos (buf_ring ch))"
    and wt: "r_wp (tre_ring ch) = slot (tre_ring ch) (wpos (tre_ring ch))"
    using b t by (auto simp: ring_ok_def)
  have rings: "buf_ring ?ch' = mhi_add_ring_element (buf_ring ch)"
    "tre_ring ?ch' = mhi_add_ring_element (tre_ring ch)" by (simp_all add: ch'_def)
  have bo: "buf_at ?ch' i = buf_at ch i" if "i < ring_n (buf_ring ch)" "i \<noteq> wpos (buf_ring ch)" for i
    using slot_update_other [OF b that] by (simp add: buf_at_def ch'_def)
  have bw: "buf_at ?ch' (wpos (buf_ring ch)) = bi"
    using wb by (simp add: buf_at_def ch'_def)
  have to: "tre_at ?ch' i = tre_at ch i" if "i < ring_n (tre_ring ch)" "i \<noteq> wpos (tre_ring ch)" for i
    using slot_update_other [OF t that] by (simp add: tre_at_def ch'_def)
  have tw: "tre_at ?ch' (wpos (tre_ring ch)) = tre"
    using wt by (simp add: tre_at_def ch'_def)
  show "pending ?ch' = pending ch @ [bi]"
    using mr.entries_adv_w [OF b rb, of "buf_at ?ch'" "buf_at ch", OF bo bw]
    by (simp add: pending_def ring_count_def rings)
  show "pending_tres ?ch' = pending_tres ch @ [tre]"
    using mr.entries_adv_w [OF t rt, of "tre_at ?ch'" "tre_at ch", OF to tw]
    by (simp add: pending_tres_def ring_count_def rings)
  show "chan_ok ?ch'"
    using ok mr.adv_w [OF b] mr.adv_w [OF t] by (simp add: chan_ok_def ch'_def)
qed

text \<open>Advancing both read positions drops the oldest descriptor.\<close>

lemma chan_pop:
  assumes ok: "chan_ok ch" and some: "pending ch \<noteq> []"
  shows "chan_ok (pop_desc ch)" and "pending ch = hd (pending ch) # pending (pop_desc ch)"
    and "buf_mem ch (r_rp (buf_ring ch)) = Some (hd (pending ch))"
    and "ring_count (buf_ring (pop_desc ch)) = ring_count (buf_ring ch) - 1"
proof -
  let ?ch' = "pop_desc ch"
  note ch'_def = pop_desc_def
  have b: "ring_ok (buf_ring ch)" and t: "ring_ok (tre_ring ch)" using ok by (auto simp: chan_ok_def)
  have some': "mr.used (buf_ring ch) \<noteq> 0"
    using some by (metis length_0_conv length_pending ring_count_def)
  have same: "buf_at ?ch' = buf_at ch" by (rule ext) (simp add: buf_at_def ch'_def)
  have e: "pending ch = buf_at ch (rpos (buf_ring ch)) # pending ?ch'"
    using mr.entries_adv_r [OF b some', of "buf_at ch"]
    by (simp add: pending_def ring_count_def same) (simp add: ch'_def)
  then show "pending ch = hd (pending ch) # pending ?ch'" by simp
  show "buf_mem ch (r_rp (buf_ring ch)) = Some (hd (pending ch))"
    using e ok b by (auto simp: buf_at_def ring_ok_def chan_ok_def)
  show "chan_ok ?ch'"
    using ok mr.adv_r [OF b] mr.adv_r [OF t] by (simp add: chan_ok_def ch'_def)
  show "ring_count (buf_ring ?ch') = ring_count (buf_ring ch) - 1"
    using e by (metis diff_Suc_1 length_Cons length_pending)
qed

section \<open>What the client sees\<close>

text \<open>The callbacks to the client, in order, and the buffers they hand back.\<close>

fun is_callback :: "mhi_effect \<Rightarrow> bool" where
  "is_callback (Xfer_cb _ _ _ _) = True"
| "is_callback _ = False"

definition callbacks :: "mhi_controller \<Rightarrow> mhi_effect list" where
  "callbacks c = filter is_callback (effects c)"

fun callback_buf :: "mhi_effect \<Rightarrow> u64" where
  "callback_buf (Xfer_cb _ b _ _) = b"
| "callback_buf _ = 0"

definition returned :: "mhi_controller \<Rightarrow> u64 list" where
  "returned c = map callback_buf (callbacks c)"

lemma callbacks_emit [simp]:
  "callbacks (emit e c) = callbacks c @ (if is_callback e then [e] else [])"
  by (simp add: callbacks_def emit_def)

lemma callbacks_fields [simp]:
  "callbacks (c\<lparr>pending_pkts := n\<rparr>) = callbacks c" "callbacks (c\<lparr>dma_maps := ms\<rparr>) = callbacks c"
  "callbacks (c\<lparr>mmio := m\<rparr>) = callbacks c"
  by (simp_all add: callbacks_def)

lemma callbacks_mhi_write_db [simp]: "callbacks (mhi_write_db c a w) = callbacks c"
  by (simp add: mhi_write_db_def mhi_write_reg_def)

lemma callbacks_run_process_db [simp]: "callbacks (fst (run_process_db c cfg a w)) = callbacks c"
  by (simp add: run_process_db_def split: process_db_fn.split)

lemma callbacks_frame [simp]:
  "callbacks (resume_if_suspended c) = callbacks c"
  "callbacks (assert_wake_for c ch) = callbacks c"
  "callbacks (count_packet c ch) = callbacks c"
  "callbacks (uncount_packet c ch) = callbacks c"
  "callbacks (mhi_deassert_dev_wake c) = callbacks c"
  "callbacks (fst (mhi_ring_chan_db c ch)) = callbacks c"
  "callbacks (fst (ring_if_M0 c ch)) = callbacks c"
  by (simp_all add: resume_if_suspended_def assert_wake_for_def mhi_assert_dev_wake_def
      count_packet_def uncount_packet_def mhi_deassert_dev_wake_def ring_if_M0_def
      mhi_ring_chan_db_def Let_def split_beta)

lemma emit_fields [simp]:
  "pm_state (emit e c) = pm_state c" "dma_maps (emit e c) = dma_maps c"
  "pending_pkts (emit e c) = pending_pkts c" "dev_state (emit e c) = dev_state c"
  by (simp_all add: emit_def)

lemma pm_state_frame [simp]:
  "pm_state (mhi_write_db c a w) = pm_state c"
  "pm_state (resume_if_suspended c) = pm_state c"
  "pm_state (assert_wake_for c ch) = pm_state c"
  "pm_state (count_packet c ch) = pm_state c"
  "pm_state (uncount_packet c ch) = pm_state c"
  "pm_state (mhi_deassert_dev_wake c) = pm_state c"
  by (simp_all add: mhi_write_db_def mhi_write_reg_def resume_if_suspended_def assert_wake_for_def
      mhi_assert_dev_wake_def count_packet_def uncount_packet_def mhi_deassert_dev_wake_def Let_def)

lemma pending_pkts_frame [simp]:
  "pending_pkts (mhi_write_db c a w) = pending_pkts c"
  "pending_pkts (resume_if_suspended c) = pending_pkts c"
  "pending_pkts (assert_wake_for c ch) = pending_pkts c"
  "pending_pkts (mhi_deassert_dev_wake c) = pending_pkts c"
  "pending_pkts (fst (ring_if_M0 c ch)) = pending_pkts c"
  by (simp_all add: mhi_write_db_def mhi_write_reg_def resume_if_suspended_def assert_wake_for_def
      mhi_assert_dev_wake_def mhi_deassert_dev_wake_def ring_if_M0_def mhi_ring_chan_db_def
      run_process_db_def Let_def split_beta split: process_db_fn.split)

text \<open>A doorbell touches neither the queue nor the fields a transfer depends on.\<close>

lemma chan_db_frame [simp]:
  "chan_ok (snd (ring_if_M0 c ch)) = chan_ok ch"
  "pending (snd (ring_if_M0 c ch)) = pending ch"
  "pending_tres (snd (ring_if_M0 c ch)) = pending_tres ch"
  "dir (snd (ring_if_M0 c ch)) = dir ch" "ch_state (snd (ring_if_M0 c ch)) = ch_state ch"
  "pre_alloc (snd (ring_if_M0 c ch)) = pre_alloc ch" "chan (snd (ring_if_M0 c ch)) = chan ch"
  "ring_n (buf_ring (snd (ring_if_M0 c ch))) = ring_n (buf_ring ch)"
  by (auto simp: ring_if_M0_def mhi_ring_chan_db_def Let_def split_beta chan_ok_def pending_def
      pending_tres_def ring_count_def buf_at_def tre_at_def ring_slice_def)

lemma desc_frame [simp]:
  "dir (push_desc ch bi tre) = dir ch" "ch_state (push_desc ch bi tre) = ch_state ch"
  "pre_alloc (push_desc ch bi tre) = pre_alloc ch" "chan (push_desc ch bi tre) = chan ch"
  "ring_n (buf_ring (push_desc ch bi tre)) = ring_n (buf_ring ch)"
  "dir (pop_desc ch) = dir ch" "ch_state (pop_desc ch) = ch_state ch"
  "pre_alloc (pop_desc ch) = pre_alloc ch" "chan (pop_desc ch) = chan ch"
  "ring_n (buf_ring (pop_desc ch)) = ring_n (buf_ring ch)"
  by (simp_all add: push_desc_def pop_desc_def)

section \<open>Queueing appends\<close>

text \<open>The bookkeeping and the transfer descriptor of a queued buffer mapped at \<open>a\<close>.\<close>

definition queued_buf :: "mhi_chan \<Rightarrow> u64 \<Rightarrow> u64 \<Rightarrow> u64 \<Rightarrow> u64 \<Rightarrow> mhi_buf_info" where
  "queued_buf ch buf cb len a =
     (buf_at ch (wpos (buf_ring ch)))\<lparr>v_addr := buf, cb_buf := cb, bi_wp := r_wp (tre_ring ch),
        bi_dir := dir ch, bi_len := len, p_addr := a\<rparr>"

definition queued_tre :: "mhi_chan \<Rightarrow> u64 \<Rightarrow> u32 \<Rightarrow> u64 \<Rightarrow> mhi_tre" where
  "queued_tre ch len flags a =
     \<lparr>tre_ptr = a, dword0 = ucast (len AND 0xFFFF),
      dword1 = MHI_TRE_DATA_DWORD1 (flag (intmod ch \<noteq> 0)) (flag (flags AND MHI_EOT \<noteq> 0))
                 (flag (flags AND MHI_EOB \<noteq> 0)) (flag (flags AND MHI_CHAIN \<noteq> 0))\<rparr>"

lemma chan_wp_allocated:
  assumes "chan_ok ch"
  shows "buf_mem ch (r_wp (buf_ring ch)) = Some (buf_at ch (wpos (buf_ring ch)))"
    and "tre_mem ch (r_wp (tre_ring ch)) = Some (tre_at ch (wpos (tre_ring ch)))"
  using assms by (auto simp: chan_ok_def ring_ok_def buf_at_def tre_at_def)

lemma mhi_gen_tre_ok:
  assumes "chan_ok ch" and "dma_maps c = a # ms" and "a \<noteq> DMA_MAPPING_ERROR"
  shows "mhi_gen_tre c ch buf cb len flags =
           Some (0, c\<lparr>dma_maps := ms\<rparr>, push_desc ch (queued_buf ch buf cb len a) (queued_tre ch len flags a))"
  using chan_wp_allocated [OF assms(1)] assms(2,3)
  by (simp add: mhi_gen_tre_def mhi_map_single_no_bb_def push_desc_def queued_buf_def queued_tre_def Let_def)

text \<open>A failed mapping leaves its trace in the unused bookkeeping element only.\<close>

definition scribble :: "mhi_chan \<Rightarrow> mhi_buf_info \<Rightarrow> mhi_chan" where
  "scribble ch bi = ch\<lparr>buf_mem := (buf_mem ch)(r_wp (buf_ring ch) \<mapsto> bi)\<rparr>"

lemma chan_scribble:
  assumes ok: "chan_ok ch"
  shows "chan_ok (scribble ch bi)" and "pending (scribble ch bi) = pending ch"
    and "pending_tres (scribble ch bi) = pending_tres ch"
proof -
  have b: "ring_ok (buf_ring ch)" using ok by (simp add: chan_ok_def)
  then have p: "rpos (buf_ring ch) < ring_n (buf_ring ch)" "wpos (buf_ring ch) < ring_n (buf_ring ch)"
    by (auto simp: ring_ok_def)
  have same: "buf_ring (scribble ch bi) = buf_ring ch" by (simp add: scribble_def)
  show "pending (scribble ch bi) = pending ch"
    unfolding pending_def same
  proof (rule ring_slice_cong)
    fix i assume i: "i < ring_count (buf_ring ch)"
    let ?j = "(rpos (buf_ring ch) + i) mod ring_n (buf_ring ch)"
    have u: "ring_count (buf_ring ch) < ring_n (buf_ring ch)"
      using ring_used_less [OF p] by (simp add: ring_count_def)
    have "?j \<noteq> wpos (buf_ring ch)"
      using ring_position_apart [of i "ring_n (buf_ring ch)" "ring_count (buf_ring ch)" "rpos (buf_ring ch)"]
        ring_used_pos [OF p] i u by (auto simp: ring_count_def)
    then have "slot (buf_ring ch) ?j \<noteq> r_wp (buf_ring ch)"
      using p by (intro slot_update_other b) auto
    then show "buf_at (scribble ch bi) ?j = buf_at ch ?j"
      by (simp add: buf_at_def scribble_def)
  qed
  show "chan_ok (scribble ch bi)" using ok by (auto simp: chan_ok_def scribble_def)
  show "pending_tres (scribble ch bi) = pending_tres ch"
    by (simp add: pending_tres_def scribble_def tre_at_def ring_slice_def)
qed

lemma mhi_gen_tre_unmapped:
  assumes "chan_ok ch" and "dma_maps c = [] \<or> hd (dma_maps c) = DMA_MAPPING_ERROR"
  shows "\<exists>bi. mhi_gen_tre c ch buf cb len flags =
           Some (- ENOMEM, c\<lparr>dma_maps := tl (dma_maps c)\<rparr>, scribble ch bi)"
  using chan_wp_allocated [OF assms(1)] assms(2)
  by (cases "dma_maps c")
     (auto simp: mhi_gen_tre_def mhi_map_single_no_bb_def scribble_def Let_def)

lemma mhi_queue_buf_unmapped:
  assumes ok: "chan_ok ch" and "\<not> MHI_PM_IN_ERROR_STATE (pm_state c)" "\<not> mhi_is_ring_full (tre_ring ch)"
    and un: "dma_maps c = [] \<or> hd (dma_maps c) = DMA_MAPPING_ERROR"
  shows "\<exists>c' ch'. mhi_queue_buf c ch buf len flags = Some (- ENOMEM, c', ch') \<and> chan_ok ch' \<and>
     callbacks c' = callbacks c \<and> pending ch' = pending ch \<and> pending_tres ch' = pending_tres ch"
proof -
  obtain bi where "mhi_gen_tre c ch buf buf len flags =
      Some (- ENOMEM, c\<lparr>dma_maps := tl (dma_maps c)\<rparr>, scribble ch bi)"
    using mhi_gen_tre_unmapped [OF ok un] by blast
  then have "mhi_queue_buf c ch buf len flags =
      Some (- ENOMEM, c\<lparr>dma_maps := tl (dma_maps c)\<rparr>, scribble ch bi)"
    using assms by (simp add: mhi_queue_buf_def)
  then show ?thesis
    using chan_scribble [OF ok] by auto
qed

lemma chan_room:
  "chan_ok ch \<Longrightarrow> \<not> mhi_is_ring_full (tre_ring ch) \<Longrightarrow> length (pending ch) < ring_n (buf_ring ch) - 1"
  using chan_full [of ch] mr.used_bound [of "buf_ring ch"] by (simp add: chan_ok_def ring_count_def)

lemma mhi_queue_buf_queued:
  assumes ok: "chan_ok ch" and "\<not> MHI_PM_IN_ERROR_STATE (pm_state c)"
    and nf: "\<not> mhi_is_ring_full (tre_ring ch)" and maps: "dma_maps c = a # ms" "a \<noteq> DMA_MAPPING_ERROR"
  shows "\<exists>c' ch'. mhi_queue_buf c ch buf len flags = Some (0, c', ch') \<and> chan_ok ch' \<and>
     callbacks c' = callbacks c \<and> pending ch' = pending ch @ [queued_buf ch buf buf len a] \<and>
     pending_tres ch' = pending_tres ch @ [queued_tre ch len flags a] \<and>
     pending_pkts c' = pending_pkts c + (if dir ch = DMA_TO_DEVICE then 1 else 0)"
proof -
  let ?c = "count_packet (assert_wake_for (resume_if_suspended (c\<lparr>dma_maps := ms\<rparr>)) ch) ch"
  let ?ch = "push_desc ch (queued_buf ch buf buf len a) (queued_tre ch len flags a)"
  have same: "assert_wake_for d ?ch = assert_wake_for d ch" "count_packet d ?ch = count_packet d ch" for d
    by (simp_all add: assert_wake_for_def count_packet_def)
  have "mhi_queue_buf c ch buf len flags = Some (0, fst (ring_if_M0 ?c ?ch), snd (ring_if_M0 ?c ?ch))"
    using assms mhi_gen_tre_ok [OF ok maps]
    by (simp add: mhi_queue_buf_def same split_beta Let_def)
  moreover have "pending_pkts ?c = pending_pkts c + (if dir ch = DMA_TO_DEVICE then 1 else 0)"
    by (simp add: count_packet_def Let_def)
  ultimately show ?thesis
    using chan_push [OF ok chan_room [OF ok nf]]
    by (intro exI [of _ "fst (ring_if_M0 ?c ?ch)"] exI [of _ "snd (ring_if_M0 ?c ?ch)"]) simp
qed

text \<open>
  \<open>mhi_queue_buf\<close> on a channel in its invariant, every branch. In an error state it answers
  \<open>-EIO\<close>, with a full ring \<open>-ENOMEM\<close>, both without a change. Otherwise, when the DMA mapping
  fails, it answers \<open>-ENOMEM\<close> and the queues of descriptors are as before; when it succeeds, it
  answers 0, the buffer with its length is the new last pending descriptor and the transfer
  ring has exactly one more element, which carries the mapped address, the length and the flags.
  The invariant holds afterwards, no client is called, and an uplink packet is counted.
\<close>

theorem queue_buf_appends:
  assumes ok: "chan_ok ch"
  shows "if MHI_PM_IN_ERROR_STATE (pm_state c) then mhi_queue_buf c ch buf len flags = Some (- EIO, c, ch)
     else if length (pending ch) = ring_n (buf_ring ch) - 1
     then mhi_queue_buf c ch buf len flags = Some (- ENOMEM, c, ch)
     else \<exists>c' ch'. chan_ok ch' \<and> callbacks c' = callbacks c \<and>
       (if dma_maps c = [] \<or> hd (dma_maps c) = DMA_MAPPING_ERROR
        then mhi_queue_buf c ch buf len flags = Some (- ENOMEM, c', ch') \<and>
             pending ch' = pending ch \<and> pending_tres ch' = pending_tres ch
        else mhi_queue_buf c ch buf len flags = Some (0, c', ch') \<and>
             pending ch' = pending ch @ [queued_buf ch buf buf len (hd (dma_maps c))] \<and>
             pending_tres ch' = pending_tres ch @ [queued_tre ch len flags (hd (dma_maps c))] \<and>
             pending_pkts c' = pending_pkts c + (if dir ch = DMA_TO_DEVICE then 1 else 0))"
proof -
  consider "MHI_PM_IN_ERROR_STATE (pm_state c)"
    | "\<not> MHI_PM_IN_ERROR_STATE (pm_state c)" "mhi_is_ring_full (tre_ring ch)"
    | (unmapped) "\<not> MHI_PM_IN_ERROR_STATE (pm_state c)" "\<not> mhi_is_ring_full (tre_ring ch)"
        "dma_maps c = [] \<or> hd (dma_maps c) = DMA_MAPPING_ERROR"
    | (queued) a ms where "\<not> MHI_PM_IN_ERROR_STATE (pm_state c)" "\<not> mhi_is_ring_full (tre_ring ch)"
        "dma_maps c = a # ms" "a \<noteq> DMA_MAPPING_ERROR"
    by (cases "dma_maps c") auto
  then show ?thesis
  proof cases
    case unmapped
    then show ?thesis
      using mhi_queue_buf_unmapped [OF ok unmapped, of buf len flags] chan_full [OF ok] by auto
  next
    case queued
    then show ?thesis
      using mhi_queue_buf_queued [OF ok queued, of buf len flags] chan_full [OF ok] by auto
  qed (use chan_full [OF ok] in \<open>simp_all add: mhi_queue_buf_def\<close>)
qed

section \<open>Completions hand buffers back in order\<close>

definition callback_of :: "mhi_chan \<Rightarrow> u64 \<Rightarrow> int \<Rightarrow> mhi_buf_info \<Rightarrow> mhi_effect" where
  "callback_of ch xfer_len status bi = Xfer_cb (chan ch) (cb_buf bi) xfer_len status"

lemma complete_one_pops:
  assumes ok: "chan_ok ch" and some: "pending ch \<noteq> []" and client: "\<not> pre_alloc ch"
  obtains c' where "complete_one c ch xfer_len status = Some (c', pop_desc ch)"
    and "callbacks c' = callbacks c @ [callback_of ch xfer_len status (hd (pending ch))]"
    and "pending_pkts c' = pending_pkts c - (if dir ch = DMA_TO_DEVICE then 1 else 0)"
  using chan_pop(3) [OF ok some] client
  by (force simp: complete_one_def pop_desc_def callback_of_def uncount_packet_def Let_def
      mhi_deassert_dev_wake_def)

lemma tre_rp_slot:
  assumes "chan_ok ch"
  shows "r_rp (tre_ring ch) = slot (tre_ring ch) (rpos (buf_ring ch))"
    and "rpos (buf_ring ch) < ring_n (buf_ring ch)"
  using assms by (auto simp: chan_ok_def ring_ok_def)

lemma pop_desc_rpos:
  "chan_ok ch \<Longrightarrow> rpos (buf_ring (pop_desc ch)) = Suc (rpos (buf_ring ch)) mod ring_n (buf_ring ch)"
  using mr.adv_r [of "buf_ring ch"] by (simp add: pop_desc_def chan_ok_def)

lemma pop_desc_slot [simp]: "slot (tre_ring (pop_desc ch)) = slot (tre_ring ch)"
  by (simp add: pop_desc_def)

lemma complete_loop_returns:
  assumes "chan_ok ch" and "m \<le> length (pending ch)" and "\<not> pre_alloc ch"
    and "dev_rp = slot (tre_ring ch) ((rpos (buf_ring ch) + m) mod ring_n (buf_ring ch))"
  shows "\<exists>c' ch'. complete_loop c ch dev_rp xfer_len status = Some (c', ch') \<and> chan_ok ch' \<and>
     pending ch' = drop m (pending ch) \<and>
     callbacks c' = callbacks c @ map (callback_of ch xfer_len status) (take m (pending ch)) \<and>
     pending_pkts c' = pending_pkts c - (if dir ch = DMA_TO_DEVICE then int m else 0)"
  using assms
proof (induction m arbitrary: c ch)
  case 0
  then have "r_rp (tre_ring ch) = dev_rp" using tre_rp_slot [of ch] by simp
  then show ?case using 0 by (simp add: complete_loop.simps)
next
  case (Suc m)
  note ok = Suc.prems(1)
  let ?n = "ring_n (buf_ring ch)" and ?r = "rpos (buf_ring ch)"
  have some: "pending ch \<noteq> []" using Suc.prems(2) by (simp add: pending_Nil_iff)
  have g: "ring_geometry (tre_ring ch)" and n: "ring_n (tre_ring ch) = ?n"
    using ok by (auto simp: chan_ok_def ring_ok_def)
  have u: "length (pending ch) < ?n"
    using ring_used_less [of ?r ?n "wpos (buf_ring ch)"] ok by (simp add: chan_ok_def ring_ok_def ring_count_def)
  have ne: "r_rp (tre_ring ch) \<noteq> dev_rp"
  proof
    assume "r_rp (tre_ring ch) = dev_rp"
    then have "?r = (?r + Suc m) mod ?n"
      using tre_rp_slot [OF ok] Suc.prems(4) slot_inj [OF g, of ?r "(?r + Suc m) mod ?n"] n by simp
    then show False
      using ring_position_apart [of 0 ?n "Suc m" ?r] tre_rp_slot(2) [OF ok] u Suc.prems(2) by auto
  qed
  obtain c1 where c1: "complete_one c ch xfer_len status = Some (c1, pop_desc ch)"
    "callbacks c1 = callbacks c @ [callback_of ch xfer_len status (hd (pending ch))]"
    "pending_pkts c1 = pending_pkts c - (if dir ch = DMA_TO_DEVICE then 1 else 0)"
    using complete_one_pops [OF ok some Suc.prems(3)] by metis
  have p: "pending ch = hd (pending ch) # pending (pop_desc ch)" by (rule chan_pop(2) [OF ok some])
  have "\<exists>c' ch'. complete_loop c1 (pop_desc ch) dev_rp xfer_len status = Some (c', ch') \<and> chan_ok ch' \<and>
     pending ch' = drop m (pending (pop_desc ch)) \<and>
     callbacks c' = callbacks c1 @ map (callback_of (pop_desc ch) xfer_len status) (take m (pending (pop_desc ch))) \<and>
     pending_pkts c' = pending_pkts c1 - (if dir (pop_desc ch) = DMA_TO_DEVICE then int m else 0)"
  proof (rule Suc.IH)
    show "chan_ok (pop_desc ch)" by (rule chan_pop(1) [OF ok some])
    show "m \<le> length (pending (pop_desc ch))" using Suc.prems(2) p by (metis Suc_le_mono length_Cons)
    show "\<not> pre_alloc (pop_desc ch)" using Suc.prems(3) by simp
    show "dev_rp = slot (tre_ring (pop_desc ch))
        ((rpos (buf_ring (pop_desc ch)) + m) mod ring_n (buf_ring (pop_desc ch)))"
      using Suc.prems(4) by (simp add: pop_desc_rpos [OF ok] mod_simps)
  qed
  moreover have "callback_of (pop_desc ch) xfer_len status = callback_of ch xfer_len status"
    by (rule ext) (simp add: callback_of_def)
  moreover have "complete_loop c ch dev_rp xfer_len status = complete_loop c1 (pop_desc ch) dev_rp xfer_len status"
    using ne c1(1) by (simp add: complete_loop.simps [of c ch])
  moreover have "drop (Suc m) (pending ch) = drop m (pending (pop_desc ch))"
    "take (Suc m) (pending ch) = hd (pending ch) # take m (pending (pop_desc ch))"
    by (subst p, simp)+
  ultimately show ?case using c1(2,3) by auto
qed

text \<open>The event completes the \<open>k\<close>-th pending descriptor of the channel.\<close>

definition completes :: "mhi_chan \<Rightarrow> mhi_tre \<Rightarrow> nat \<Rightarrow> bool" where
  "completes ch event k \<longleftrightarrow>
     ch_state ch = MHI_CH_STATE_ENABLED \<and> \<not> pre_alloc ch \<and> k < length (pending ch) \<and>
     MHI_TRE_GET_EV_CODE event \<in> {MHI_EV_CC_OVERFLOW, MHI_EV_CC_EOB, MHI_EV_CC_EOT} \<and>
     tre_ptr event = mhi_to_physical (tre_ring ch)
       (slot (tre_ring ch) ((rpos (buf_ring ch) + k) mod ring_n (buf_ring ch)))"

lemma parse_xfer_event_completes:
  assumes ok: "chan_ok ch" and ev: "completes ch event k"
  shows "\<exists>c' ch'. parse_xfer_event c event ch = Some (c', ch') \<and> chan_ok ch' \<and>
     pending ch' = drop (k + 1) (pending ch) \<and>
     callbacks c' = callbacks c @ map (callback_of ch (ucast (MHI_TRE_GET_EV_LEN event))
         (if MHI_TRE_GET_EV_CODE event = MHI_EV_CC_OVERFLOW then - EOVERFLOW else 0)) (take (k + 1) (pending ch)) \<and>
     pending_pkts c' = pending_pkts c - (if dir ch = DMA_TO_DEVICE then int (k + 1) else 0)"
proof -
  have en: "ch_state ch = MHI_CH_STATE_ENABLED" and client: "\<not> pre_alloc ch"
    and code: "MHI_TRE_GET_EV_CODE event \<in> {MHI_EV_CC_OVERFLOW, MHI_EV_CC_EOB, MHI_EV_CC_EOT}"
    and k: "k < length (pending ch)"
    and ptr: "tre_ptr event = mhi_to_physical (tre_ring ch)
                (slot (tre_ring ch) ((rpos (buf_ring ch) + k) mod ring_n (buf_ring ch)))"
    using ev by (simp_all add: completes_def)
  let ?ring = "tre_ring ch" and ?n = "ring_n (buf_ring ch)"
  let ?i = "(rpos (buf_ring ch) + k) mod ?n" and ?ch = "count_event ch (MHI_TRE_GET_EV_CODE event)"
  let ?status = "if MHI_TRE_GET_EV_CODE event = MHI_EV_CC_OVERFLOW then - EOVERFLOW else 0"
  let ?next = "slot ?ring ((rpos (buf_ring ch) + (k + 1)) mod ?n)"
  have g: "ring_geometry ?ring" and n: "ring_n ?ring = ?n" and el: "r_el_size ?ring = sizeof_mhi_tre"
    using ok by (auto simp: chan_ok_def ring_ok_def)
  have "?i < ring_n ?ring" using ring_n_pos [OF g] n by simp
  then have "ring_next ?ring (slot ?ring ?i) = ?next"
    using ring_next_slot [OF g, of ?i] n by (simp add: mod_simps)
  then have "parse_xfer_event c event ch =
      complete_loop c ?ch ?next (ucast (MHI_TRE_GET_EV_LEN event)) ?status"
    using en code ptr el by (auto simp: parse_xfer_event_def ring_next_def Let_def)
  moreover have same: "chan_ok ?ch = chan_ok ch" "pending ?ch = pending ch" "dir ?ch = dir ch"
      "chan ?ch = chan ch" "pre_alloc ?ch = pre_alloc ch" "tre_ring ?ch = tre_ring ch" "buf_ring ?ch = buf_ring ch"
    by (simp_all add: count_event_def chan_ok_def pending_def buf_at_def ring_slice_def)
  moreover have "\<exists>c' ch'. complete_loop c ?ch ?next (ucast (MHI_TRE_GET_EV_LEN event)) ?status = Some (c', ch') \<and>
     chan_ok ch' \<and> pending ch' = drop (k + 1) (pending ?ch) \<and>
     callbacks c' = callbacks c @ map (callback_of ?ch (ucast (MHI_TRE_GET_EV_LEN event)) ?status) (take (k + 1) (pending ?ch)) \<and>
     pending_pkts c' = pending_pkts c - (if dir ?ch = DMA_TO_DEVICE then int (k + 1) else 0)"
    by (rule complete_loop_returns) (use same ok k client in simp_all)
  moreover have "callback_of ?ch = callback_of ch" by (intro ext) (simp add: callback_of_def same)
  ultimately show ?thesis by simp
qed

text \<open>
  Completions. An event of the device whose pointer is the physical address of the \<open>k\<close>-th
  pending transfer descriptor completes exactly the first \<open>k + 1\<close> pending buffers: the loop
  ends, their client callbacks run once each and in queueing order, with the length of the event
  and status 0 (\<open>-EOVERFLOW\<close> after an overflow), the remaining buffers stay pending, the channel
  invariant is kept and uplink packets are uncounted.
\<close>

theorem completion_returns_in_order:
  assumes "chan_ok ch" and "completes ch event k"
  shows "\<exists>c' ch'. parse_xfer_event c event ch = Some (c', ch') \<and> chan_ok ch' \<and>
     pending ch' = drop (k + 1) (pending ch) \<and>
     callbacks c' = callbacks c @ map (\<lambda>bi. Xfer_cb (chan ch) (cb_buf bi) (ucast (MHI_TRE_GET_EV_LEN event))
         (if MHI_TRE_GET_EV_CODE event = MHI_EV_CC_OVERFLOW then - EOVERFLOW else 0)) (take (k + 1) (pending ch)) \<and>
     pending_pkts c' = pending_pkts c - (if dir ch = DMA_TO_DEVICE then int (k + 1) else 0)"
  using parse_xfer_event_completes [OF assms, of c] unfolding callback_of_def [abs_def] .

section \<open>Resetting hands back the rest\<close>

definition reset_effect :: "mhi_chan \<Rightarrow> mhi_buf_info \<Rightarrow> mhi_effect" where
  "reset_effect ch bi = (if pre_alloc ch then Kfree (cb_buf bi) else Xfer_cb (chan ch) (cb_buf bi) 0 (- ENOTCONN))"

lemma chan_empty_iff:
  assumes "chan_ok ch"
  shows "r_rp (tre_ring ch) = r_wp (tre_ring ch) \<longleftrightarrow> pending ch = []"
proof -
  have g: "ring_geometry (tre_ring ch)" and r: "r_rp (tre_ring ch) = slot (tre_ring ch) (rpos (buf_ring ch))"
    "rpos (buf_ring ch) < ring_n (tre_ring ch)"
    and w: "r_wp (tre_ring ch) = slot (tre_ring ch) (wpos (buf_ring ch))"
    "wpos (buf_ring ch) < ring_n (tre_ring ch)" and n: "ring_n (tre_ring ch) = ring_n (buf_ring ch)"
    using assms by (auto simp: chan_ok_def ring_ok_def)
  show ?thesis
    using slot_inj [OF g r(2) w(2)] r w n ring_used_0 [of "rpos (buf_ring ch)" "ring_n (buf_ring ch)" "wpos (buf_ring ch)"]
    by (simp add: pending_Nil_iff ring_count_def)
qed

lemma mhi_reset_data_chan_drains:
  assumes "chan_ok ch"
  shows "\<exists>c' ch'. mhi_reset_data_chan c ch = Some (c', ch') \<and> chan_ok ch' \<and> pending ch' = [] \<and>
     callbacks c' = callbacks c @ (if pre_alloc ch then []
       else map (callback_of ch 0 (- ENOTCONN)) (pending ch)) \<and>
     pending_pkts c' = pending_pkts c - (if dir ch = DMA_TO_DEVICE then int (length (pending ch)) else 0)"
  using assms
proof (induction "length (pending ch)" arbitrary: c ch)
  case 0
  then have "pending ch = []" by (simp add: pending_Nil_iff)
  then show ?case
    using 0 chan_empty_iff [of ch] by (simp add: mhi_reset_data_chan.simps)
next
  case (Suc m)
  note ok = Suc.prems
  have some: "pending ch \<noteq> []" using Suc.hyps(2) by (simp add: pending_Nil_iff)
  have p: "pending ch = hd (pending ch) # pending (pop_desc ch)" by (rule chan_pop(2) [OF ok some])
  let ?bi = "hd (pending ch)"
  let ?c2 = "emit (reset_effect ch ?bi) (if pre_mapped ?bi then uncount_packet c ch
               else emit (Unmap_single (p_addr ?bi)) (uncount_packet c ch))"
  have step: "mhi_reset_data_chan c ch = mhi_reset_data_chan ?c2 (pop_desc ch)"
    using chan_pop(3) [OF ok some] some chan_empty_iff [OF ok]
    by (simp add: mhi_reset_data_chan.simps [of c ch] pop_desc_def reset_effect_def mhi_deassert_dev_wake_def
        Let_def)
  have cb: "callbacks ?c2 = callbacks c @ (if pre_alloc ch then [] else [callback_of ch 0 (- ENOTCONN) ?bi])"
    by (simp add: reset_effect_def callback_of_def)
  have pk: "pending_pkts ?c2 = pending_pkts c - (if dir ch = DMA_TO_DEVICE then 1 else 0)"
    by (simp add: uncount_packet_def Let_def)
  have m: "m = length (pending (pop_desc ch))" using Suc.hyps(2) p by (metis Suc_inject length_Cons)
  obtain c' ch' where ih: "mhi_reset_data_chan ?c2 (pop_desc ch) = Some (c', ch')" "chan_ok ch'" "pending ch' = []"
     "callbacks c' = callbacks ?c2 @ (if pre_alloc ch then []
       else map (callback_of ch 0 (- ENOTCONN)) (pending (pop_desc ch)))"
     "pending_pkts c' = pending_pkts ?c2 - (if dir ch = DMA_TO_DEVICE then int m else 0)"
    using Suc.hyps(1) [OF m chan_pop(1) [OF ok some], of ?c2] m
    by (auto simp: callback_of_def [abs_def] simp del: length_pending)
  have split: "map (callback_of ch 0 (- ENOTCONN)) (pending ch) =
      callback_of ch 0 (- ENOTCONN) ?bi # map (callback_of ch 0 (- ENOTCONN)) (pending (pop_desc ch))"
    by (subst p) simp
  have "callbacks c' = callbacks c @ (if pre_alloc ch then []
       else map (callback_of ch 0 (- ENOTCONN)) (pending ch))"
    unfolding ih(4) cb split by simp
  moreover have "pending_pkts c' = pending_pkts c - (if dir ch = DMA_TO_DEVICE then int (length (pending ch)) else 0)"
    unfolding ih(5) pk Suc.hyps(2) [symmetric] by simp
  ultimately show ?case using step ih(1-3) by (intro exI [of _ c'] exI [of _ ch'] conjI) simp_all
qed

text \<open>
  Resetting a data channel ends on every channel in its invariant and empties it: each
  pending buffer is handed back exactly once, oldest first, by its client callback with
  \<open>-ENOTCONN\<close> (freed instead when the core allocated it), and uplink packets are uncounted.
\<close>

theorem reset_returns_all:
  assumes "chan_ok ch"
  shows "\<exists>c' ch'. mhi_reset_data_chan c ch = Some (c', ch') \<and> chan_ok ch' \<and> pending ch' = [] \<and>
     callbacks c' = callbacks c @ (if pre_alloc ch then []
       else map (\<lambda>bi. Xfer_cb (chan ch) (cb_buf bi) 0 (- ENOTCONN)) (pending ch)) \<and>
     pending_pkts c' = pending_pkts c - (if dir ch = DMA_TO_DEVICE then int (length (pending ch)) else 0)"
  using mhi_reset_data_chan_drains [OF assms, of c] unfolding callback_of_def [abs_def] .

section \<open>Events the device must not send\<close>

lemma pop_desc_ok: "chan_ok ch \<Longrightarrow> chan_ok (pop_desc ch)"
  using mr.adv_r [of "buf_ring ch"] mr.adv_r [of "tre_ring ch"] by (auto simp: chan_ok_def pop_desc_def)

lemma complete_one_any:
  assumes "chan_ok ch" and "\<not> pre_alloc ch"
  shows "\<exists>c'. complete_one c ch xfer_len status = Some (c', pop_desc ch)"
proof -
  have "buf_mem ch (r_rp (buf_ring ch)) \<noteq> None"
    using assms(1) by (simp add: chan_ok_def ring_ok_def)
  then show ?thesis
    using assms(2) by (auto simp: complete_one_def pop_desc_def Let_def)
qed

definition unreachable_rp :: "mhi_chan \<Rightarrow> u64 \<Rightarrow> bool" where
  "unreachable_rp ch p \<longleftrightarrow> chan_ok ch \<and> \<not> pre_alloc ch \<and> (\<forall>i < ring_n (buf_ring ch). slot (tre_ring ch) i \<noteq> p)"

lemma complete_loop_stuck:
  assumes ret: "complete_loop c ch dev_rp xfer_len status = Some r"
  shows "\<not> unreachable_rp ch dev_rp"
proof (rule complete_loop.raw_induct [where P = "\<lambda>c ch dev_rp xfer_len status r. \<not> unreachable_rp ch dev_rp", OF _ ret])
  fix f :: "mhi_controller \<Rightarrow> mhi_chan \<Rightarrow> u64 \<Rightarrow> u64 \<Rightarrow> int \<Rightarrow> (mhi_controller \<times> mhi_chan) option"
    and c ch dev_rp xfer_len status and r :: "mhi_controller \<times> mhi_chan"
  assume IH: "\<And>c ch dev_rp xfer_len status r. f c ch dev_rp xfer_len status = Some r \<Longrightarrow> \<not> unreachable_rp ch dev_rp"
    and eq: "(if r_rp (tre_ring ch) = dev_rp then Some (c, ch)
      else do { (c, ch) \<leftarrow> complete_one c ch xfer_len status; f c ch dev_rp xfer_len status }) = Some r"
  show "\<not> unreachable_rp ch dev_rp"
  proof
    assume u: "unreachable_rp ch dev_rp"
    then have ok: "chan_ok ch" "\<not> pre_alloc ch" by (auto simp: unreachable_rp_def)
    have "r_rp (tre_ring ch) \<noteq> dev_rp" using u tre_rp_slot [OF ok(1)] by (auto simp: unreachable_rp_def)
    moreover obtain c' where "complete_one c ch xfer_len status = Some (c', pop_desc ch)"
      using complete_one_any [OF ok] by blast
    ultimately have "f c' (pop_desc ch) dev_rp xfer_len status = Some r" using eq by simp
    then have "\<not> unreachable_rp (pop_desc ch) dev_rp" by (rule IH)
    moreover have "unreachable_rp (pop_desc ch) dev_rp"
      using u pop_desc_ok [OF ok(1)] by (simp add: unreachable_rp_def)
    ultimately show False by simp
  qed
qed

text \<open>
  The completion loop trusts the pointer of the event. If it lies inside the transfer ring
  but not at the start of an element, the local read pointer never meets it: the tasklet never
  returns (and hands stale buffers to the client for ever).
\<close>

theorem misaligned_completion_never_returns:
  assumes ok: "chan_ok ch" and en: "ch_state ch = MHI_CH_STATE_ENABLED" and client: "\<not> pre_alloc ch"
    and code: "MHI_TRE_GET_EV_CODE event \<in> {MHI_EV_CC_OVERFLOW, MHI_EV_CC_EOB, MHI_EV_CC_EOT}"
    and ptr: "tre_ptr event = r_iommu_base (tre_ring ch) + of_nat off"
    and inside: "off + 16 < unat (r_len (tre_ring ch))" and misaligned: "\<not> 16 dvd off"
  shows "parse_xfer_event c event ch = None"
proof -
  let ?ring = "tre_ring ch" and ?p = "r_base (tre_ring ch) + of_nat off + 16"
  let ?ch = "count_event ch (MHI_TRE_GET_EV_CODE event)"
  have g: "ring_geometry ?ring" and n: "ring_n ?ring = ring_n (buf_ring ch)" and el: "r_el_size ?ring = 16"
    using ok by (auto simp: chan_ok_def ring_ok_def sizeof_mhi_tre_def)
  have fit: "unat (r_base ?ring) + unat (r_len ?ring) < 18446744073709551616"
    using g by (simp add: ring_geometry_def)
  have "?p = r_base ?ring + of_nat (off + 16)" by simp
  also have "unat \<dots> = unat (r_base ?ring) + (off + 16)"
    using fit inside by (subst u64_unat_add) (simp_all add: unat_of_nat take_bit_nat_eq_self del: of_nat_add of_nat_numeral)
  finally have p: "unat ?p = unat (r_base ?ring) + off + 16" by simp
  then have "?p < r_base ?ring + r_len ?ring"
    using fit inside by (simp add: word_less_nat_alt u64_unat_add)
  then have "parse_xfer_event c event ch = complete_loop c ?ch ?p (ucast (MHI_TRE_GET_EV_LEN event))
      (if MHI_TRE_GET_EV_CODE event = MHI_EV_CC_OVERFLOW then - EOVERFLOW else 0)"
    using en code ptr by (auto simp: parse_xfer_event_def mhi_to_virtual_def sizeof_mhi_tre_def Let_def ac_simps)
  moreover have "slot ?ring i \<noteq> ?p" if "i < ring_n ?ring" for i
  proof
    assume "slot ?ring i = ?p"
    then have "i * 16 = off + 16" using p unat_slot [OF g, of i] that el by simp
    then have "16 dvd off" by presburger
    then show False using misaligned by simp
  qed
  then have "unreachable_rp ?ch ?p"
    using ok client n by (simp add: unreachable_rp_def count_event_def chan_ok_def)
  ultimately show ?thesis
    using complete_loop_stuck by (metis not_None_eq)
qed

section \<open>Every buffer comes back once\<close>

text \<open>
  The life of a channel whose buffers belong to the client, with the list of the buffers the
  core accepted so far. The device completes pending descriptors only.
\<close>

inductive xfer_step ::
  "mhi_controller \<times> mhi_chan \<times> u64 list \<Rightarrow> mhi_controller \<times> mhi_chan \<times> u64 list \<Rightarrow> bool" where
  queue: "mhi_queue_buf c ch buf len flags = Some (ret, c', ch') \<Longrightarrow>
    xfer_step (c, ch, q) (c', ch', if ret = 0 then q @ [buf] else q)"
| complete: "completes ch event k \<Longrightarrow> parse_xfer_event c event ch = Some (c', ch') \<Longrightarrow>
    xfer_step (c, ch, q) (c', ch', q)"
| reset: "\<not> pre_alloc ch \<Longrightarrow> mhi_reset_data_chan c ch = Some (c', ch') \<Longrightarrow>
    xfer_step (c, ch, q) (c', ch', q)"

definition ledger :: "mhi_controller \<times> mhi_chan \<times> u64 list \<Rightarrow> bool" where
  "ledger s \<longleftrightarrow> (case s of (c, ch, q) \<Rightarrow> chan_ok ch \<and> q = returned c @ map cb_buf (pending ch))"

lemma callback_buf_of [simp]: "callback_buf (callback_of ch l st bi) = cb_buf bi"
  by (simp add: callback_of_def)

lemma ledger_queue:
  assumes ok: "chan_ok ch" and q: "mhi_queue_buf c ch buf len flags = Some (ret, c', ch')"
  shows "chan_ok ch' \<and> returned c' = returned c \<and>
     map cb_buf (pending ch') = map cb_buf (pending ch) @ (if ret = 0 then [buf] else [])"
proof -
  consider "MHI_PM_IN_ERROR_STATE (pm_state c) \<or> mhi_is_ring_full (tre_ring ch)"
    | (unmapped) "\<not> MHI_PM_IN_ERROR_STATE (pm_state c)" "\<not> mhi_is_ring_full (tre_ring ch)"
        "dma_maps c = [] \<or> hd (dma_maps c) = DMA_MAPPING_ERROR"
    | (queued) a ms where "\<not> MHI_PM_IN_ERROR_STATE (pm_state c)" "\<not> mhi_is_ring_full (tre_ring ch)"
        "dma_maps c = a # ms" "a \<noteq> DMA_MAPPING_ERROR"
    by (cases "dma_maps c") auto
  then show ?thesis
  proof cases
    case 1
    then show ?thesis using q ok by (auto simp: mhi_queue_buf_def split: if_splits)
  next
    case unmapped
    then show ?thesis
      using mhi_queue_buf_unmapped [OF ok unmapped, of buf len flags] q by (auto simp: returned_def)
  next
    case queued
    then show ?thesis
      using mhi_queue_buf_queued [OF ok queued, of buf len flags] q
      by (auto simp: returned_def queued_buf_def)
  qed
qed

lemma ledger_step: "xfer_step s t \<Longrightarrow> ledger s \<Longrightarrow> ledger t"
proof (induction rule: xfer_step.induct)
  case (queue c ch buf len flags ret c' ch' q)
  then show ?case using ledger_queue by (auto simp: ledger_def)
next
  case (complete ch event k c c' ch' q)
  then have ok: "chan_ok ch" by (simp add: ledger_def)
  have "map cb_buf (pending ch) = map cb_buf (take (k + 1) (pending ch)) @ map cb_buf (drop (k + 1) (pending ch))"
    by (metis append_take_drop_id map_append)
  then show ?case
    using parse_xfer_event_completes [OF ok complete(1), of c] complete(2,3)
    by (auto simp: ledger_def returned_def comp_def)
next
  case (reset ch c c' ch' q)
  then show ?case
    using mhi_reset_data_chan_drains [of ch c] by (auto simp: ledger_def returned_def)
qed

text \<open>
  C8. Over any sequence of queueing, completions of pending descriptors and resets, starting
  with an empty channel, the buffers handed back to the client followed by the ones still
  pending are exactly the buffers the core accepted, each once and in the order they were
  queued; the channel invariant holds throughout.
\<close>

theorem buffers_come_back_once:
  assumes "xfer_step\<^sup>*\<^sup>* (c0, ch0, []) (c, ch, q)"
    and "chan_ok ch0" and "pending ch0 = []" and "callbacks c0 = []"
  shows "chan_ok ch \<and> returned c @ map cb_buf (pending ch) = q"
proof -
  have "ledger (c, ch, q)"
    using assms(1)
  proof (induction rule: rtranclp_induct)
    case base
    then show ?case using assms(2-) by (simp add: ledger_def returned_def)
  next
    case (step s t)
    then show ?case using ledger_step by blast
  qed
  then show ?thesis by (simp add: ledger_def)
qed

section \<open>The queueing functions agree\<close>

text \<open>Waking the bus and the device does not look at the DMA mappings.\<close>

lemma wake_dma_maps [simp]:
  "resume_if_suspended (c\<lparr>dma_maps := ms\<rparr>) = (resume_if_suspended c)\<lparr>dma_maps := ms\<rparr>"
  "assert_wake_for (c\<lparr>dma_maps := ms\<rparr>) ch = (assert_wake_for c ch)\<lparr>dma_maps := ms\<rparr>"
  "dma_maps (assert_wake_for (resume_if_suspended c) ch) = dma_maps c"
  by (simp_all add: resume_if_suspended_def assert_wake_for_def mhi_assert_dev_wake_def emit_def
      mhi_write_db_def mhi_write_reg_def)

lemma queued_tre_skb: "intmod ch \<noteq> 0 \<Longrightarrow> queued_tre ch len MHI_EOT a =
    \<lparr>tre_ptr = a, dword0 = ucast (len AND 0xFFFF), dword1 = MHI_TRE_DATA_DWORD1 1 1 0 0\<rparr>"
  by (simp add: queued_tre_def flag_def MHI_EOT_def MHI_EOB_def MHI_CHAIN_def)

text \<open>
  \<open>mhi_queue_skb\<close> and \<open>mhi_queue_buf\<close> are two copies of one function: for a socket buffer
  whose data pointer is the buffer itself, on a channel with interrupt moderation and with the
  flag \<open>MHI_EOT\<close>, they return the same result and leave the same controller and channel, down to
  the order of the calls that leave the model, whenever the DMA mapping succeeds. (They differ
  in the errno when the ring is full in an error state.)
\<close>

theorem queue_skb_is_queue_buf:
  assumes "chan_ok ch" and "intmod ch \<noteq> 0" and "dma_maps c = a # ms" and "a \<noteq> DMA_MAPPING_ERROR"
    and "\<not> (MHI_PM_IN_ERROR_STATE (pm_state c) \<and> mhi_is_ring_full (tre_ring ch))"
  shows "mhi_queue_skb c ch buf buf len = mhi_queue_buf c ch buf len MHI_EOT"
proof -
  let ?d = "assert_wake_for (resume_if_suspended c) ch"
  let ?bi = "queued_buf ch buf buf len a"
  let ?tre = "\<lparr>tre_ptr = a, dword0 = ucast (len AND 0xFFFF), dword1 = MHI_TRE_DATA_DWORD1 1 1 0 0\<rparr>"
  have same: "assert_wake_for d (push_desc ch ?bi ?tre) = assert_wake_for d ch"
    "count_packet d (push_desc ch ?bi ?tre) = count_packet d ch"
    "count_packet d (ch\<lparr>buf_mem := m, tre_mem := t\<rparr>) = count_packet d ch" for d m t
    by (simp_all add: assert_wake_for_def count_packet_def)
  let ?r = "Some (0, ring_if_M0 (count_packet (?d\<lparr>dma_maps := ms\<rparr>) ch) (push_desc ch ?bi ?tre))"
  have "mhi_queue_buf c ch buf len MHI_EOT = ?r"
    if "\<not> MHI_PM_IN_ERROR_STATE (pm_state c)" "\<not> mhi_is_ring_full (tre_ring ch)"
    using that mhi_gen_tre_ok [OF assms(1,3,4)]
    by (simp add: mhi_queue_buf_def same split_beta Let_def queued_tre_skb [OF assms(2)])
  moreover have "mhi_queue_skb c ch buf buf len = ?r"
    if "\<not> MHI_PM_IN_ERROR_STATE (pm_state c)" "\<not> mhi_is_ring_full (tre_ring ch)"
    using that chan_wp_allocated [OF assms(1)] assms(3,4)
    by (simp add: mhi_queue_skb_def mhi_map_single_no_bb_def same split_beta Let_def)
       (simp add: push_desc_def queued_buf_def)
  ultimately show ?thesis
    using assms(5) by (auto simp: mhi_queue_buf_def mhi_queue_skb_def)
qed

text \<open>
  The end-of-block interrupt can never be requested: \<open>MHI_EOB\<close> is the enumeration value 0
  but is tested as a bit mask, so bit 8 of the second descriptor word is clear whatever flags the
  caller passes.
\<close>

theorem eob_never_requested:
  assumes "chan_ok ch" and "mhi_gen_tre c ch buf cb len flags = Some (0, c', ch')"
  shows "\<exists>tre. tre_mem ch' (r_wp (tre_ring ch)) = Some tre \<and> \<not> bit (dword1 tre) 8"
proof -
  obtain a ms where maps: "dma_maps c = a # ms" "a \<noteq> DMA_MAPPING_ERROR"
    using assms(2) mhi_gen_tre_unmapped [OF assms(1), of c buf cb len flags] by (cases "dma_maps c") fastforce+
  have "tre_mem ch' (r_wp (tre_ring ch)) = Some (queued_tre ch len flags a)"
    using assms(2) mhi_gen_tre_ok [OF assms(1) maps] by (auto simp: push_desc_def)
  moreover have "\<not> bit (flag b) 8" for b
    by (simp add: flag_def)
  ultimately show ?thesis
    by (auto simp: queued_tre_def MHI_TRE_DATA_DWORD1_def MHI_EOB_def flag_def bit_simps)
qed

section \<open>Examples\<close>

text \<open>An uplink channel 4 with four elements per ring; buffers 11 and 22 are pending when the
  write position is 2.\<close>

definition example_tre_ring :: "u64 \<Rightarrow> mhi_ring" where
  "example_tre_ring w = \<lparr>r_iommu_base = 0x8000, r_ctxt_wp = 0x8000, r_base = 0x1000, r_rp = 0x1000,
     r_wp = 0x1000 + 16 * w, r_el_size = 16, r_len = 64, r_elements = 4, r_db_addr = 0x500\<rparr>"

definition example_buf_ring :: "u64 \<Rightarrow> mhi_ring" where
  "example_buf_ring w = \<lparr>r_iommu_base = 0, r_ctxt_wp = 0, r_base = 0x9000, r_rp = 0x9000,
     r_wp = 0x9000 + 64 * w, r_el_size = 64, r_len = 256, r_elements = 4, r_db_addr = 0\<rparr>"

definition example_buf :: "u64 \<Rightarrow> mhi_buf_info" where
  "example_buf b = \<lparr>p_addr = 0, v_addr = 0, bi_wp = 0, bi_len = 100, cb_buf = b, bi_used = False,
     pre_mapped = False, bi_dir = DMA_TO_DEVICE\<rparr>"

definition example_tre :: mhi_tre where
  "example_tre = \<lparr>tre_ptr = 0, dword0 = 0, dword1 = 0\<rparr>"

definition example_chan :: "u64 \<Rightarrow> mhi_chan" where
  "example_chan w = \<lparr>chan = 4, buf_ring = example_buf_ring w, tre_ring = example_tre_ring w,
     buf_mem = [0x9000 \<mapsto> example_buf 11, 0x9040 \<mapsto> example_buf 22, 0x9080 \<mapsto> example_buf 0, 0x90C0 \<mapsto> example_buf 0],
     tre_mem = [0x1000 \<mapsto> example_tre, 0x1010 \<mapsto> example_tre, 0x1020 \<mapsto> example_tre, 0x1030 \<mapsto> example_tre],
     chan_used_elements = 0, used_events = replicate 7 0, intmod = 1, dir = DMA_TO_DEVICE,
     ch_db_cfg = \<lparr>reset_req = False, db_mode = True, db_val = 0, process_db = mhi_db_brstmode_disable\<rparr>,
     xfer_type = MHI_XFER_BUFFER, ch_state = MHI_CH_STATE_ENABLED, ccs = 0, offload_ch = False,
     pre_alloc = False, has_dev = True\<rparr>"

definition example_ctl :: mhi_controller where
  "example_ctl = \<lparr>regs = 0x100000, bhi = 0x100100, bhie = 0x100200,
     wake_db = 0x1003F8, chan_ctxt_addr = 0, er_ctxt_addr = 0, cmd_ctxt_addr = 0, ctrl_seg_addr = 0,
     sizeof_ctrl_seg = 0, iova_start = 0, iova_stop = 0, pm_state = MHI_PM_M0,
     dev_state = MHI_STATE_M0, ee = MHI_EE_AMSS, M0_count = 0, M2_count = 0, M3_count = 0, dev_wake = 0,
     pending_pkts = 2, transition_list = [], ready_scheduled = False, mhi_event_array = [], mhi_chan_array = [],
     primary_cmd = \<lparr>cmd_ring = example_tre_ring 0, cmd_mem = Map.empty, cmd_ctxt_rp = 0, cmd_ctxt_rbase = 0\<rparr>,
     lpm_chans = [], pre_init = False, msi_irq_base = 0, mmio = (\<lambda>_. 0), link_status = False,
     dma_maps = [0xA000, 0xB000], mallocs = [], init_results = [], waits = [], effects = [], pm_history = []\<rparr>"

lemma All_less_4: "(\<forall>i < 4. P i) \<longleftrightarrow> P 0 \<and> P (1 :: nat) \<and> P 2 \<and> P 3"
  by (auto simp: numeral_eq_Suc less_Suc_eq)

lemmas example_chan_simps = example_chan_def example_buf_ring_def example_tre_ring_def
  chan_ok_def ring_ok_def ring_geometry_def ring_n_def slot_def rpos_def wpos_def ring_index_def
  sizeof_mhi_tre_def pending_def ring_count_def ring_used_def ring_slice_def buf_at_def example_buf_def

lemma example_chan_ok: "chan_ok (example_chan 0)" "chan_ok (example_chan 2)"
  by (simp_all add: example_chan_simps All_less_4)

lemma example_pending: "pending (example_chan 0) = []"
  "pending (example_chan 2) = [example_buf 11, example_buf 22]"
  by (simp_all add: example_chan_simps upt_rec)

lemma example_ctl_simps [simp]:
  "pm_state example_ctl = MHI_PM_M0" "dma_maps example_ctl = [0xA000, 0xB000]" "effects example_ctl = []"
  "callbacks example_ctl = []" "pending_pkts example_ctl = 2" "dev_state example_ctl = MHI_STATE_M0"
  by (simp_all add: example_ctl_def callbacks_def)

lemma example_not_error [simp]: "\<not> MHI_PM_IN_ERROR_STATE MHI_PM_M0"
  by (simp add: MHI_PM_IN_ERROR_STATE_def pm_state_defs)

lemma example_chan_fields [simp]:
  "ring_n (buf_ring (example_chan w)) = 4" "dir (example_chan w) = DMA_TO_DEVICE" "chan (example_chan w) = 4"
  "intmod (example_chan w) = 1" "ch_state (example_chan w) = MHI_CH_STATE_ENABLED"
  "\<not> pre_alloc (example_chan w)" "ring_count (buf_ring (example_chan 2)) = 2"
  "rpos (buf_ring (example_chan w)) = 0" "r_iommu_base (tre_ring (example_chan w)) = 0x8000"
  "r_len (tre_ring (example_chan w)) = 64"
  "slot (tre_ring (example_chan w)) i = 0x1000 + of_nat i * 16" "r_base (tre_ring (example_chan w)) = 0x1000"
  by (simp_all add: example_chan_simps)

lemma example_not_full [simp]: "\<not> mhi_is_ring_full (tre_ring (example_chan 2))"
  using chan_full [OF example_chan_ok(2)] by simp

lemma example_cb_buf [simp]: "cb_buf (example_buf b) = b"
  by (simp add: example_buf_def)

text \<open>The device completes the second descriptor with 60 bytes.\<close>

definition example_event :: mhi_tre where
  "example_event = \<lparr>tre_ptr = 0x8010, dword0 = 0x0200003C, dword1 = 0x04220000\<rparr>"

lemma example_event_fields [simp]:
  "MHI_TRE_GET_EV_CODE example_event = MHI_EV_CC_EOT" "MHI_TRE_GET_EV_LEN example_event = 60"
  by (simp_all add: example_event_def MHI_TRE_GET_EV_CODE_def MHI_TRE_GET_EV_LEN_def MHI_EV_CC_EOT_def)

lemma example_completes: "completes (example_chan 2) example_event 1"
  by (simp add: completes_def MHI_EV_CC_EOT_def mhi_to_physical_def) (simp add: example_event_def)

theorem queue_buf_appends_witness:
  "chan_ok (example_chan 2) \<and>
   (\<exists>c' ch'. mhi_queue_buf example_ctl (example_chan 2) 33 100 MHI_EOT = Some (0, c', ch') \<and>
     map cb_buf (pending ch') = [11, 22, 33] \<and> pending_pkts c' = 3)"
  using queue_buf_appends [OF example_chan_ok(2), of example_ctl 33 100 MHI_EOT]
  by (auto simp: example_pending example_chan_ok DMA_MAPPING_ERROR_def queued_buf_def)

theorem completion_returns_in_order_witness:
  "chan_ok (example_chan 2) \<and> completes (example_chan 2) example_event 1 \<and>
   (\<exists>c' ch'. parse_xfer_event example_ctl example_event (example_chan 2) = Some (c', ch') \<and>
     callbacks c' = [Xfer_cb 4 11 60 0, Xfer_cb 4 22 60 0] \<and> pending ch' = [] \<and> pending_pkts c' = 0)"
  using completion_returns_in_order [OF example_chan_ok(2) example_completes, of example_ctl]
  by (auto simp: example_pending example_chan_ok example_completes [simplified] MHI_EV_CC_EOT_def MHI_EV_CC_OVERFLOW_def)

theorem reset_returns_all_witness:
  "chan_ok (example_chan 2) \<and>
   (\<exists>c' ch'. mhi_reset_data_chan example_ctl (example_chan 2) = Some (c', ch') \<and>
     callbacks c' = [Xfer_cb 4 11 0 (- ENOTCONN), Xfer_cb 4 22 0 (- ENOTCONN)] \<and> pending ch' = [])"
  using reset_returns_all [OF example_chan_ok(2), of example_ctl]
  by (auto simp: example_pending example_chan_ok)

theorem misaligned_completion_never_returns_witness:
  "parse_xfer_event example_ctl (example_event\<lparr>tre_ptr := 0x8008\<rparr>) (example_chan 2) = None"
proof (rule misaligned_completion_never_returns [of _ _ 8])
  show "MHI_TRE_GET_EV_CODE (example_event\<lparr>tre_ptr := 0x8008\<rparr>) \<in>
      {MHI_EV_CC_OVERFLOW, MHI_EV_CC_EOB, MHI_EV_CC_EOT}"
    using example_event_fields(1) by (simp add: MHI_TRE_GET_EV_CODE_def)
qed (simp_all add: example_chan_ok)

theorem buffers_come_back_once_witness:
  "\<exists>c' ch'. xfer_step\<^sup>*\<^sup>* (example_ctl, example_chan 0, []) (c', ch', [33]) \<and>
     returned c' @ map cb_buf (pending ch') = [33]"
proof -
  have nf: "\<not> mhi_is_ring_full (tre_ring (example_chan 0))"
    using chan_full [OF example_chan_ok(1)] example_pending(1) by (simp add: pending_Nil_iff)
  obtain c' ch' where q: "mhi_queue_buf example_ctl (example_chan 0) 33 100 MHI_EOT = Some (0, c', ch')"
    using mhi_queue_buf_queued [OF example_chan_ok(1) _ nf, of example_ctl "0xA000" "[0xB000]" 33 100 MHI_EOT]
    by (auto simp: DMA_MAPPING_ERROR_def)
  then have step: "xfer_step\<^sup>*\<^sup>* (example_ctl, example_chan 0, []) (c', ch', [33])"
    using xfer_step.queue [OF q, of "[]"] by (simp add: r_into_rtranclp)
  then show ?thesis
    using buffers_come_back_once [OF step] example_chan_ok(1) example_pending(1) by auto
qed

theorem queue_skb_is_queue_buf_witness:
  "mhi_queue_skb example_ctl (example_chan 2) 33 33 100 = mhi_queue_buf example_ctl (example_chan 2) 33 100 MHI_EOT"
  by (rule queue_skb_is_queue_buf [OF example_chan_ok(2), where a = "0xA000" and ms = "[0xB000]"])
     (simp_all add: DMA_MAPPING_ERROR_def)

theorem eob_never_requested_witness:
  "\<exists>c' ch' tre. mhi_gen_tre example_ctl (example_chan 2) 33 33 100 MHI_EOB = Some (0, c', ch') \<and>
     tre_mem ch' (r_wp (tre_ring (example_chan 2))) = Some tre \<and> \<not> bit (dword1 tre) 8"
proof -
  obtain c' ch' where g: "mhi_gen_tre example_ctl (example_chan 2) 33 33 100 MHI_EOB = Some (0, c', ch')"
    using mhi_gen_tre_ok [OF example_chan_ok(2), of example_ctl "0xA000" "[0xB000]" 33 33 100 MHI_EOB]
    by (auto simp: DMA_MAPPING_ERROR_def)
  then show ?thesis using eob_never_requested [OF example_chan_ok(2) g] by auto
qed

end
