(* ===== verification/Mhi_Pm.thy ===== *)
theory Mhi_Pm
  imports Mhi_Xfer
begin

text \<open>
  Power management of the MHI core (\<^verbatim>\<open>core/mhi_pm.c\<close>): the transitions of the state machine whose
  table is \<open>mhi_state_transitions\<close>, the workers, power up and down, suspend and resume.

  Concurrency. The interrupt handlers (\<open>mhi_interrupt\<close>) run between the critical sections of a
  thread. A wait of the source consumes one element of the script \<open>waits\<close>: the interrupts up to
  the moment the condition is looked at for the last time, and those between that moment and the
  next critical section; the wait succeeds if the condition holds at that moment. Locks only
  delimit the critical sections and have no state of their own.
\<close>

section \<open>Transitions driven by control events\<close>

text \<open>The loop over the event rings of \<open>mhi_pm_m0_transition\<close>.\<close>

fun ring_all_er_db :: "mhi_controller \<Rightarrow> mhi_event list \<Rightarrow> mhi_controller \<times> mhi_event list" where
  "ring_all_er_db c [] = (c, [])"
| "ring_all_er_db c (ev # evs) =
     (let (c, ev) = (if offload_ev ev then (c, ev) else mhi_ring_er_db c ev);
          (c, evs) = ring_all_er_db c evs
      in (c, ev # evs))"

fun ring_all_chan_db :: "mhi_controller \<Rightarrow> mhi_chan list \<Rightarrow> mhi_controller \<times> mhi_chan list" where
  "ring_all_chan_db c [] = (c, [])"
| "ring_all_chan_db c (ch # chs) =
     (let ch = (if reset_req (ch_db_cfg ch) then ch\<lparr>ch_db_cfg := (ch_db_cfg ch)\<lparr>db_mode := True\<rparr>\<rparr> else ch);
          (c, ch) = (if r_base (tre_ring ch) \<noteq> 0 \<and> r_wp (tre_ring ch) \<noteq> r_rp (tre_ring ch)
                     then mhi_ring_chan_db c ch else (c, ch));
          (c, chs) = ring_all_chan_db c chs
      in (c, ch # chs))"

definition mhi_pm_m0_transition :: "mhi_controller \<Rightarrow> int \<times> mhi_controller" where
  "mhi_pm_m0_transition c =
     (let c = c\<lparr>dev_state := MHI_STATE_M0\<rparr>;
          (cur_state, c) = mhi_tryset_pm_state c MHI_PM_M0
      in if cur_state \<noteq> MHI_PM_M0 then (- EIO, c)
         else
           let c = c\<lparr>M0_count := M0_count c + 1\<rparr>;
               c = mhi_assert_dev_wake c;
               c = (if MHI_IN_MISSION_MODE (ee c)
                    then let (c, evs) = ring_all_er_db c (mhi_event_array c);
                             c = c\<lparr>mhi_event_array := evs\<rparr>;
                             cmd = primary_cmd c;
                             (c, cmd) = (if r_rp (cmd_ring cmd) \<noteq> r_wp (cmd_ring cmd)
                                         then mhi_ring_cmd_db c cmd else (c, cmd))
                         in c\<lparr>primary_cmd := cmd\<rparr>
                    else c);
               (c, chs) = ring_all_chan_db c (mhi_chan_array c);
               c = c\<lparr>mhi_chan_array := chs\<rparr>;
               c = mhi_deassert_dev_wake c
           in (0, emit Wake_up_state_event c))"

definition mhi_pm_m1_transition :: "mhi_controller \<Rightarrow> mhi_controller" where
  "mhi_pm_m1_transition c =
     (let (state, c) = mhi_tryset_pm_state c MHI_PM_M2
      in if state = MHI_PM_M2
         then
           let c = mhi_set_mhi_state c MHI_STATE_M2;
               c = c\<lparr>dev_state := MHI_STATE_M2, M2_count := M2_count c + 1\<rparr>;
               c = emit Wake_up_state_event c
           in if dev_wake c \<noteq> 0 then mhi_deassert_dev_wake (mhi_assert_dev_wake c)
              else emit (Status_cb MHI_CB_IDLE) c
         else c)"

definition mhi_pm_m3_transition :: "mhi_controller \<Rightarrow> int \<times> mhi_controller" where
  "mhi_pm_m3_transition c =
     (let c = c\<lparr>dev_state := MHI_STATE_M3\<rparr>;
          (state, c) = mhi_tryset_pm_state c MHI_PM_M3
      in if state \<noteq> MHI_PM_M3 then (- EIO, c)
         else let c = emit Wake_up_state_event c
              in (0, c\<lparr>M3_count := M3_count c + 1\<rparr>))"

text \<open>The \<open>MHI_STATE_SYS_ERR\<close> case of \<open>mhi_process_ctrl_ev_ring\<close>.\<close>

definition ctrl_sys_err :: "mhi_controller \<Rightarrow> mhi_controller" where
  "ctrl_sys_err c =
     (let (new_state, c) = mhi_tryset_pm_state c MHI_PM_SYS_ERR_DETECT
      in if new_state = MHI_PM_SYS_ERR_DETECT then emit Schedule_syserr_worker c else c)"

text \<open>What other contexts do: the state change events of the control ring, a link-down detected by
  the controller driver (\<open>mhi_tryset_pm_state\<close> to the fatal state), a change of the registers or
  of the execution environment.\<close>

definition run_irq :: "mhi_interrupt \<Rightarrow> mhi_controller \<Rightarrow> mhi_controller" where
  "run_irq i c =
     (case i of
        Ctrl_M0 \<Rightarrow> snd (mhi_pm_m0_transition c)
      | Ctrl_M1 \<Rightarrow> mhi_pm_m1_transition c
      | Ctrl_M3 \<Rightarrow> snd (mhi_pm_m3_transition c)
      | Ctrl_SYS_ERR \<Rightarrow> ctrl_sys_err c
      | Link_down \<Rightarrow> snd (mhi_tryset_pm_state c MHI_PM_LD_ERR_FATAL_DETECT)
      | Set_reg a v \<Rightarrow> c\<lparr>mmio := (mmio c)(a := v)\<rparr>
      | Set_ee e \<Rightarrow> c\<lparr>ee := e\<rparr>)"

definition run_irqs :: "mhi_interrupt list \<Rightarrow> mhi_controller \<Rightarrow> mhi_controller" where
  "run_irqs is c = fold run_irq is c"

text \<open>A wait: the state when the condition is last looked at, and the state when the thread goes on.\<close>

definition wait_event :: "mhi_controller \<Rightarrow> mhi_controller \<times> mhi_controller" where
  "wait_event c =
     (let (before, after) = (case waits c of [] \<Rightarrow> ([], []) | w # _ \<Rightarrow> w);
          c1 = run_irqs before (c\<lparr>waits := tl (waits c)\<rparr>)
      in (c1, run_irqs after c1))"

section \<open>Programming the registers\<close>

fun set_chan_db :: "u64 \<Rightarrow> u32 \<Rightarrow> mhi_chan list \<Rightarrow> mhi_chan list" where
  "set_chan_db base v [] = []"
| "set_chan_db base v (ch # chs) =
     ch\<lparr>tre_ring := (tre_ring ch)\<lparr>r_db_addr := base + ucast v\<rparr>\<rparr> # set_chan_db base (v + 8) chs"

fun set_er_db :: "u64 \<Rightarrow> u32 \<Rightarrow> mhi_event list \<Rightarrow> mhi_event list" where
  "set_er_db base v [] = []"
| "set_er_db base v (ev # evs) =
     (if offload_ev ev then ev else ev\<lparr>ev_ring := (ev_ring ev)\<lparr>r_db_addr := base + ucast v\<rparr>\<rparr>)
       # set_er_db base (v + 8) evs"

text \<open>The table of registers and values; every mask is all ones and every shift 0.\<close>

definition reg_info :: "mhi_controller \<Rightarrow> (u32 \<times> u32) list" where
  "reg_info c =
     (let hi = (\<lambda>x. ucast (drop_bit 32 x) :: u32); lo = (\<lambda>x. ucast x :: u32);
          limit = ctrl_seg_addr c + sizeof_ctrl_seg c
      in [(0x5C, hi (chan_ctxt_addr c)), (0x58, lo (chan_ctxt_addr c)),
          (0x64, hi (er_ctxt_addr c)), (0x60, lo (er_ctxt_addr c)),
          (0x6C, hi (cmd_ctxt_addr c)), (0x68, lo (cmd_ctxt_addr c)),
          (0x84, hi (ctrl_seg_addr c)), (0x80, lo (ctrl_seg_addr c)),
          (0x9C, hi (iova_start c)), (0x98, lo (iova_start c)),
          (0x8C, hi limit), (0x88, lo limit),
          (0xA4, hi (iova_stop c)), (0xA0, lo (iova_stop c))])"

definition mhi_init_mmio :: "mhi_controller \<Rightarrow> int \<times> mhi_controller" where
  "mhi_init_mmio c =
     (case mhi_read_reg_field c (regs c) 0x18 U32_MAX 0 of
        Inl _ \<Rightarrow> (- EIO, c)
      | Inr v \<Rightarrow>
          let c = c\<lparr>wake_db := regs c + ucast v + 8 * 127,
                    mhi_chan_array := set_chan_db (regs c) v (mhi_chan_array c)\<rparr>
          in (case mhi_read_reg_field c (regs c) 0x20 U32_MAX 0 of
                Inl _ \<Rightarrow> (- EIO, c)
              | Inr v \<Rightarrow>
                  let c = c\<lparr>mhi_event_array := set_er_db (regs c) v (mhi_event_array c),
                            primary_cmd := (primary_cmd c)\<lparr>cmd_ring :=
                              (cmd_ring (primary_cmd c))\<lparr>r_db_addr := regs c + 0x70\<rparr>\<rparr>\<rparr>
                  in (0, fold (\<lambda>(off, v) c. mhi_write_reg_field c (regs c) off U32_MAX 0 v)
                           (reg_info c) c)))"

section \<open>Entering READY\<close>

text \<open>Handing all elements of an event ring to the device.\<close>

definition fill_ev_ring :: "mhi_event \<Rightarrow> mhi_event" where
  "fill_ev_ring ev =
     (let ring = ev_ring ev
      in ev\<lparr>ev_ring := ring\<lparr>r_wp := r_base ring + r_len ring - r_el_size ring,
                            r_ctxt_wp := r_iommu_base ring + r_len ring - r_el_size ring\<rparr>\<rparr>)"

fun add_sw_elements :: "mhi_controller \<Rightarrow> mhi_event list \<Rightarrow> mhi_controller \<times> mhi_event list" where
  "add_sw_elements c [] = (c, [])"
| "add_sw_elements c (ev # evs) =
     (let (c, ev) = (if offload_ev ev \<or> hw_ring ev then (c, ev) else mhi_ring_er_db c (fill_ev_ring ev));
          (c, evs) = add_sw_elements c evs
      in (c, ev # evs))"

text \<open>The two register fields the wait of \<open>mhi_ready_state_transition\<close> reads last: a failed read or
  a fatal state leaves the initial values (in reset, not ready).\<close>

definition read_ready :: "mhi_controller \<Rightarrow> u32 \<times> u32" where
  "read_ready c =
     (if MHI_PM_IN_FATAL_STATE (pm_state c) then (1, 0)
      else case mhi_read_reg_field c (regs c) MHICTRL 0x2 1 of
             Inl _ \<Rightarrow> (1, 0)
           | Inr reset \<Rightarrow>
               (case mhi_read_reg_field c (regs c) MHISTATUS 0x1 0 of
                  Inl _ \<Rightarrow> (reset, 0)
                | Inr ready \<Rightarrow> (reset, ready)))"

definition mhi_ready_state_transition :: "mhi_controller \<Rightarrow> int \<times> mhi_controller" where
  "mhi_ready_state_transition c =
     (let (c1, c) = wait_event c; (reset, ready) = read_ready c1
      in if MHI_PM_IN_FATAL_STATE (pm_state c) then (- EIO, c)
         else if reset \<noteq> 0 \<or> ready = 0 then (- ETIMEDOUT, c)
         else
           let (cur_state, c) = mhi_tryset_pm_state c MHI_PM_POR;
               c = c\<lparr>dev_state := MHI_STATE_READY\<rparr>
           in if cur_state \<noteq> MHI_PM_POR then (- EIO, c)
              else if \<not> MHI_REG_ACCESS_VALID (pm_state c) then (- EIO, c)
              else
                let (ret, c) = mhi_init_mmio c
                in if ret \<noteq> 0 then (- EIO, c)
                   else
                     let (c, evs) = add_sw_elements c (mhi_event_array c);
                         c = c\<lparr>mhi_event_array := evs\<rparr>
                     in (0, mhi_set_mhi_state c MHI_STATE_M0))"

section \<open>Keeping the device in M0\<close>

definition mhi_device_get_sync_cntrl :: "mhi_controller \<Rightarrow> int \<times> mhi_controller" where
  "mhi_device_get_sync_cntrl c =
     (let c = mhi_assert_dev_wake c;
          c = resume_if_suspended c;
          (c1, c) = wait_event c
      in if \<not> (pm_state c1 = MHI_PM_M0 \<or> MHI_PM_IN_ERROR_STATE (pm_state c1)) \<or>
            MHI_PM_IN_ERROR_STATE (pm_state c)
         then (- EIO, mhi_deassert_dev_wake c)
         else (0, c))"

text \<open>The three functions of a client device; the first component is its own \<open>dev_wake\<close> count.\<close>

definition mhi_device_get :: "int \<Rightarrow> mhi_controller \<Rightarrow> int \<times> mhi_controller" where
  "mhi_device_get w c = (w + 1, mhi_assert_dev_wake c)"

definition mhi_device_get_sync :: "int \<Rightarrow> mhi_controller \<Rightarrow> int \<times> int \<times> mhi_controller" where
  "mhi_device_get_sync w c =
     (let (ret, c) = mhi_device_get_sync_cntrl c in (ret, if ret = 0 then w + 1 else w, c))"

definition mhi_device_put :: "int \<Rightarrow> mhi_controller \<Rightarrow> int \<times> mhi_controller" where
  "mhi_device_put w c = (w - 1, mhi_deassert_dev_wake c)"

section \<open>Mission mode and the state worker\<close>

fun add_hw_elements :: "mhi_controller \<Rightarrow> mhi_event list \<Rightarrow> mhi_controller \<times> mhi_event list" where
  "add_hw_elements c [] = (c, [])"
| "add_hw_elements c (ev # evs) =
     (let (c, ev) = (if offload_ev ev \<or> \<not> hw_ring ev then (c, ev)
                     else let ev = fill_ev_ring ev
                          in if MHI_DB_ACCESS_VALID (pm_state c) then mhi_ring_er_db c ev else (c, ev));
          (c, evs) = add_hw_elements c evs
      in (c, ev # evs))"

definition mhi_pm_mission_mode_transition :: "mhi_controller \<Rightarrow> int \<times> mhi_controller" where
  "mhi_pm_mission_mode_transition c =
     (let c = emit (Status_cb MHI_CB_EE_MISSION_MODE) c;
          (ret, c) = mhi_device_get_sync_cntrl c
      in if ret \<noteq> 0 then (ret, c)
         else
           let c = (if MHI_REG_ACCESS_VALID (pm_state c) then c\<lparr>ee := mhi_get_exec_env c\<rparr> else c)
           in if \<not> MHI_IN_MISSION_MODE (ee c) then (- EIO, mhi_deassert_dev_wake c)
              else
                let c = emit Wake_up_state_event c
                in if MHI_PM_IN_ERROR_STATE (pm_state c) then (- EIO, mhi_deassert_dev_wake c)
                   else
                     let (c, evs) = add_hw_elements c (mhi_event_array c);
                         c = c\<lparr>mhi_event_array := evs\<rparr>;
                         c = emit Init_timesync c;
                         c = emit Create_devices c
                     in (0, mhi_deassert_dev_wake c))"

definition kmalloc_ok :: "mhi_controller \<Rightarrow> bool \<times> mhi_controller" where
  "kmalloc_ok c = (case mallocs c of [] \<Rightarrow> (True, c) | b # bs \<Rightarrow> (b, c\<lparr>mallocs := bs\<rparr>))"

definition mhi_queue_state_transition ::
  "mhi_controller \<Rightarrow> MHI_ST_TRANSITION \<Rightarrow> int \<times> mhi_controller" where
  "mhi_queue_state_transition c state =
     (let (ok, c) = kmalloc_ok c
      in if \<not> ok then (- ENOMEM, c)
         else (0, emit Schedule_st_worker (c\<lparr>transition_list := transition_list c @ [state]\<rparr>)))"

definition mhi_pm_ready_worker :: "mhi_controller \<Rightarrow> mhi_controller" where
  "mhi_pm_ready_worker c =
     (let c = c\<lparr>ready_scheduled := False\<rparr>
      in if dev_state c \<noteq> MHI_STATE_RESET then c
         else
           let e = (if MHI_REG_ACCESS_VALID (pm_state c) then mhi_get_exec_env c else MHI_EE_MAX)
           in if e = MHI_EE_PTHRU then emit Schedule_ready_worker (c\<lparr>ready_scheduled := True\<rparr>)
              else if e = MHI_EE_AMSS \<or> e = MHI_EE_SBL
              then snd (mhi_queue_state_transition c MHI_ST_TRANSITION_READY)
              else if e = MHI_EE_EDL
              then snd (mhi_queue_state_transition c MHI_ST_TRANSITION_PBL)
              else c)"

definition run_transition :: "MHI_ST_TRANSITION \<Rightarrow> mhi_controller \<Rightarrow> mhi_controller" where
  "run_transition st c =
     (case st of
        MHI_ST_TRANSITION_PBL \<Rightarrow>
          let c = (if MHI_REG_ACCESS_VALID (pm_state c) then c\<lparr>ee := mhi_get_exec_env c\<rparr> else c)
          in if MHI_IN_PBL (ee c) then emit Wake_up_state_event c else c
      | MHI_ST_TRANSITION_SBL \<Rightarrow>
          emit Create_devices (emit Wake_up_state_event (c\<lparr>ee := MHI_EE_SBL\<rparr>))
      | MHI_ST_TRANSITION_MISSION_MODE \<Rightarrow> snd (mhi_pm_mission_mode_transition c)
      | MHI_ST_TRANSITION_READY \<Rightarrow> snd (mhi_ready_state_transition c)
      | MHI_ST_TRANSITION_FP \<Rightarrow>
          emit Create_devices (emit Wake_up_state_event (c\<lparr>ee := MHI_EE_FP\<rparr>))
      | MHI_ST_TRANSITION_MAX \<Rightarrow> c)"

definition mhi_pm_st_worker :: "mhi_controller \<Rightarrow> mhi_controller" where
  "mhi_pm_st_worker c = fold run_transition (transition_list c) (c\<lparr>transition_list := []\<rparr>)"

section \<open>System errors and shutdown\<close>

definition NUM_MHI_EVT_RINGS :: u32 where "NUM_MHI_EVT_RINGS = 3"
definition NUM_MHI_HW_EVT_RINGS :: u32 where "NUM_MHI_HW_EVT_RINGS = 4"
definition MHICFG :: u32 where "MHICFG = 0x10"
definition BHI_INTVEC :: u32 where "BHI_INTVEC = 0x20"

definition reset_ev_ring :: "mhi_event \<Rightarrow> mhi_event" where
  "reset_ev_ring ev =
     (if offload_ev ev then ev
      else let ring = ev_ring ev
           in ev\<lparr>ev_ring := ring\<lparr>r_rp := r_base ring, r_wp := r_base ring, r_ctxt_wp := er_ctxt_rbase ev\<rparr>,
                 er_ctxt_rp := er_ctxt_rbase ev\<rparr>)"

definition reset_cmd_ring :: "mhi_cmd \<Rightarrow> mhi_cmd" where
  "reset_cmd_ring cmd =
     (let ring = cmd_ring cmd
      in cmd\<lparr>cmd_ring := ring\<lparr>r_rp := r_base ring, r_wp := r_base ring, r_ctxt_wp := cmd_ctxt_rbase cmd\<rparr>,
             cmd_ctxt_rp := cmd_ctxt_rbase cmd\<rparr>)"

text \<open>Triggering the reset of the device; the result says whether the transition goes on.\<close>

definition trigger_reset :: "mhi_controller \<Rightarrow> u32 \<Rightarrow> bool \<times> mhi_controller" where
  "trigger_reset c cur_state =
     (let c = mhi_set_mhi_state c MHI_STATE_RESET;
          (c1, c) = wait_event c;
          (ret, in_reset) = (case mhi_read_reg_field c1 (regs c1) MHICTRL 0x2 1 of
                               Inl _ \<Rightarrow> (True, U32_MAX)
                             | Inr v \<Rightarrow> (v = 0, v))
      in if (\<not> ret \<or> in_reset \<noteq> 0) \<and> cur_state = MHI_PM_SYS_ERR_PROCESS then (False, c)
         else
           let c = mhi_write_reg_field c (regs c) MHICFG 0xFF0000 16 NUM_MHI_EVT_RINGS;
               c = mhi_write_reg_field c (regs c) MHICFG 0xFF000000 24 NUM_MHI_HW_EVT_RINGS
           in (True, mhi_write_reg c (bhi c) BHI_INTVEC (msi_irq_base c)))"

text \<open>Everything after the reset: killing tasklets, removing the devices, flushing the workers,
  resetting the rings, and the last state change.\<close>

definition flush_workers :: "mhi_controller \<Rightarrow> mhi_controller" where
  "flush_workers c =
     (let c = emit Wake_up_state_event c;
          c = (if ready_scheduled c then mhi_pm_ready_worker c else c)
      in mhi_pm_st_worker c)"

definition finish_disable :: "mhi_controller \<Rightarrow> u32 \<Rightarrow> mhi_controller" where
  "finish_disable c cur_state =
     (let c = emit Tasklet_kill c;
          c = emit Destroy_devices c;
          c = flush_workers c;
          c = c\<lparr>primary_cmd := reset_cmd_ring (primary_cmd c),
                mhi_event_array := map reset_ev_ring (mhi_event_array c)\<rparr>;
          c = emit Destroy_timesync c
      in if cur_state = MHI_PM_SYS_ERR_PROCESS
         then if mhi_get_exec_env c = MHI_EE_EDL \<and> mhi_get_mhi_state c = MHI_STATE_RESET
              then snd (mhi_tryset_pm_state (c\<lparr>ee := MHI_EE_EDL\<rparr>) MHI_PM_POR)
              else snd (mhi_ready_state_transition c)
         else snd (mhi_tryset_pm_state c MHI_PM_DISABLE))"

text \<open>The request for the transition state, which stops all other accesses when it is granted.\<close>

definition disable_entry :: "mhi_controller \<Rightarrow> u32 \<Rightarrow> u32 \<times> mhi_controller" where
  "disable_entry c transition_state =
     (let (cur_state, c) = mhi_tryset_pm_state c transition_state;
          c = (if cur_state = transition_state
               then c\<lparr>ee := MHI_EE_DISABLE_TRANSITION, dev_state := MHI_STATE_RESET\<rparr> else c)
      in (cur_state, emit Wake_up_state_event c))"

definition mhi_pm_disable_transition :: "mhi_controller \<Rightarrow> u32 \<Rightarrow> mhi_controller" where
  "mhi_pm_disable_transition c transition_state =
     (let c = (if transition_state = MHI_PM_SYS_ERR_PROCESS then emit (Status_cb MHI_CB_SYS_ERROR) c else c);
          prev_state = pm_state c;
          (cur_state, c) = disable_entry c transition_state
      in if cur_state \<noteq> transition_state then c
         else if MHI_REG_ACCESS_VALID prev_state
         then let (go, c) = trigger_reset c cur_state
              in if go then finish_disable c cur_state else c
         else finish_disable c cur_state)"

definition mhi_pm_sys_err_worker :: "mhi_controller \<Rightarrow> mhi_controller" where
  "mhi_pm_sys_err_worker c = mhi_pm_disable_transition c MHI_PM_SYS_ERR_PROCESS"

definition mhi_debugfs_trigger_reset :: "mhi_controller \<Rightarrow> int \<times> mhi_controller" where
  "mhi_debugfs_trigger_reset c =
     (let c = emit Runtime_put (emit Runtime_get c);
          (c1, c) = wait_event c
      in if \<not> (dev_state c1 = MHI_STATE_M0 \<or> MHI_PM_IN_ERROR_STATE (pm_state c1)) \<or>
            MHI_PM_IN_ERROR_STATE (pm_state c)
         then (- EIO, c)
         else (0, ctrl_sys_err c))"

section \<open>Power up and down\<close>

definition pop_result :: "mhi_controller \<Rightarrow> int \<times> mhi_controller" where
  "pop_result c = (case init_results c of [] \<Rightarrow> (0, c) | r # rs \<Rightarrow> (r, c\<lparr>init_results := rs\<rparr>))"

text \<open>
  \<open>mhi_async_power_up\<close>. Setting up the device context and the interrupts is outside the model:
  their results come from a script. A failed read of \<open>MHICFG\<close> leaves \<open>regVal\<close> without a value
  that is used all the same, which is \<^term>\<open>None\<close>.
\<close>

definition power_up_ctxt :: "mhi_controller \<Rightarrow> int \<times> mhi_controller" where
  "power_up_ctxt c =
     (if pre_init c then (0, c)
      else let (ret, c) = pop_result c
           in if ret \<noteq> 0 then (ret, c)
              else let (ret, c) = pop_result (c\<lparr>dev_wake := 0, pending_pkts := 0\<rparr>)
                   in if ret \<noteq> 0 then (ret, emit Deinit_dev c) else (0, c))"

definition power_up_bhi :: "mhi_controller \<Rightarrow> int \<times> mhi_controller" where
  "power_up_bhi c =
     (case mhi_read_reg c (regs c) 0x28 of
        Inl ret \<Rightarrow> (ret, if pre_init c then c else emit Deinit_dev (emit Free_irq c))
      | Inr v \<Rightarrow>
          let c = c\<lparr>bhi := regs c + ucast v\<rparr>
          in (case mhi_read_reg c (regs c) 0x2C of
                Inl ret \<Rightarrow> (ret, if pre_init c then c else emit Deinit_dev (emit Free_irq c))
              | Inr v \<Rightarrow>
                  let c = c\<lparr>bhie := regs c + ucast v\<rparr>;
                      c = mhi_write_reg c (bhi c) BHI_INTVEC (msi_irq_base c);
                      c = (set_pm_state MHI_PM_POR c)\<lparr>ee := MHI_EE_MAX\<rparr>;
                      current_ee = mhi_get_exec_env c
                  in (0, if MHI_IN_PBL current_ee
                         then emit Schedule_ready_worker (c\<lparr>ready_scheduled := True\<rparr>)
                         else snd (mhi_queue_state_transition c MHI_ST_TRANSITION_READY))))"

definition mhi_async_power_up :: "mhi_controller \<Rightarrow> (int \<times> mhi_controller) option" where
  "mhi_async_power_up c =
     (let c = (if MHI_STATE_M0 \<le> mhi_get_mhi_state c
               then snd (wait_event (mhi_set_mhi_state c MHI_STATE_RESET)) else c)
      in case mhi_read_reg c (regs c) MHICFG of
           Inl _ \<Rightarrow> None
         | Inr regVal \<Rightarrow>
             let regVal = (regVal AND NOT 0xFF0000) OR push_bit 16 NUM_MHI_EVT_RINGS;
                 regVal = (regVal AND NOT 0xFF000000) OR push_bit 24 NUM_MHI_HW_EVT_RINGS;
                 c = mhi_write_reg c (regs c) MHICFG regVal;
                 c = (set_pm_state MHI_PM_DISABLE c)\<lparr>dev_state := MHI_STATE_RESET\<rparr>;
                 (ret, c) = power_up_ctxt c
             in if ret \<noteq> 0 then Some (ret, c) else Some (power_up_bhi c))"

definition mhi_sync_power_up :: "mhi_controller \<Rightarrow> (int \<times> mhi_controller) option" where
  "mhi_sync_power_up c =
     do {
       (ret, c) \<leftarrow> mhi_async_power_up c;
       if ret \<noteq> 0 then Some (ret, c)
       else let c = snd (wait_event c)
            in Some (if MHI_IN_MISSION_MODE (ee c) then 0 else - EIO, c)
     }"

definition mhi_power_down :: "mhi_controller \<Rightarrow> bool \<Rightarrow> mhi_controller" where
  "mhi_power_down c graceful =
     (let c = (if graceful then c else snd (mhi_tryset_pm_state c MHI_PM_LD_ERR_FATAL_DETECT));
          c = mhi_pm_disable_transition c MHI_PM_SHUTDOWN_PROCESS
      in if pre_init c then c else emit Deinit_dev (emit Free_irq c))"

section \<open>Suspend and resume\<close>

definition notify_lpm :: "MHI_CB \<Rightarrow> mhi_controller \<Rightarrow> mhi_controller" where
  "notify_lpm cb c =
     fold (\<lambda>i c. if i < length (mhi_chan_array c) \<and> has_dev (mhi_chan_array c ! i)
                 then emit (Notify (of_nat i) cb) c else c) (lpm_chans c) c"

definition mhi_pm_suspend :: "mhi_controller \<Rightarrow> int \<times> mhi_controller" where
  "mhi_pm_suspend c =
     (if pm_state c = MHI_PM_DISABLE then (- EINVAL, c)
      else if MHI_PM_IN_ERROR_STATE (pm_state c) then (- EIO, c)
      else if dev_wake c \<noteq> 0 then (- EBUSY, c)
      else
        let c = mhi_assert_dev_wake c;
            (c1, c) = wait_event c
        in if \<not> (dev_state c1 = MHI_STATE_M0 \<or> dev_state c1 = MHI_STATE_M1 \<or>
                 MHI_PM_IN_ERROR_STATE (pm_state c1)) \<or>
              MHI_PM_IN_ERROR_STATE (pm_state c)
           then (- EIO, mhi_deassert_dev_wake c)
           else if 1 < dev_wake c then (- EBUSY, mhi_deassert_dev_wake c)
           else
             let (new_state, c) = mhi_tryset_pm_state c MHI_PM_M3_ENTER
             in if new_state \<noteq> MHI_PM_M3_ENTER then (- EIO, mhi_deassert_dev_wake c)
                else
                  let c = mhi_set_mhi_state c MHI_STATE_M3;
                      c = mhi_deassert_dev_wake c;
                      (c1, c) = wait_event c
                  in if \<not> (dev_state c1 = MHI_STATE_M3 \<or> MHI_PM_IN_ERROR_STATE (pm_state c1)) \<or>
                        MHI_PM_IN_ERROR_STATE (pm_state c)
                     then (- EIO, c)
                     else (0, notify_lpm MHI_CB_LPM_ENTER c))"

text \<open>The threaded interrupt handler of the shared vector.\<close>

definition mhi_intvec_threaded_handlr :: "mhi_controller \<Rightarrow> mhi_controller" where
  "mhi_intvec_threaded_handlr c =
     (let valid = MHI_REG_ACCESS_VALID (pm_state c);
          state = (if valid then mhi_get_mhi_state c else MHI_STATE_MAX);
          e = (if valid then mhi_get_exec_env c else MHI_EE_MAX);
          (pmst, c) = (if state = MHI_STATE_SYS_ERR \<and> pm_state c \<noteq> MHI_PM_SYS_ERR_DETECT
                       then mhi_tryset_pm_state c MHI_PM_SYS_ERR_DETECT else (0, c));
          c = (if pmst = MHI_PM_SYS_ERR_DETECT
               then let c = emit Wake_up_state_event c
                    in if ee c \<noteq> e then emit Schedule_syserr_worker c
                       else if MHI_IN_PBL e then emit (Status_cb MHI_CB_FATAL_ERROR) c
                       else emit Schedule_syserr_worker c
               else c)
      in if pmst = MHI_PM_POR then emit Wake_up_state_event c else c)"

definition mhi_pm_resume :: "mhi_controller \<Rightarrow> int \<times> mhi_controller" where
  "mhi_pm_resume c =
     (if pm_state c = MHI_PM_DISABLE then (0, c)
      else if MHI_PM_IN_ERROR_STATE (pm_state c) then (- EIO, c)
      else
        let c = notify_lpm MHI_CB_LPM_EXIT c;
            (cur_state, c) = mhi_tryset_pm_state c MHI_PM_M3_EXIT
        in if cur_state \<noteq> MHI_PM_M3_EXIT then (- EIO, c)
           else
             let c = mhi_assert_dev_wake c;
                 c = mhi_set_mhi_state c MHI_STATE_M0;
                 (c1, c) = wait_event c;
                 c = mhi_deassert_dev_wake c
             in if \<not> (dev_state c1 = MHI_STATE_M0 \<or> MHI_PM_IN_ERROR_STATE (pm_state c1)) \<or>
                   MHI_PM_IN_ERROR_STATE (pm_state c)
                then (- EIO, mhi_intvec_threaded_handlr c)
                else (0, c))"

definition mhi_force_rddm_mode :: "mhi_controller \<Rightarrow> int \<times> mhi_controller" where
  "mhi_force_rddm_mode c =
     (let c = mhi_set_mhi_state c MHI_STATE_SYS_ERR;
          (c1, c) = wait_event c
      in (if ee c1 = MHI_EE_RDDM then 0 else - EIO, c))"

section \<open>What the environment functions leave alone\<close>

text \<open>The state word, the wake count, the script of the waits and the history of the state: the part of
  the controller the power management theorems are about.\<close>

definition pm_frame :: "mhi_controller \<Rightarrow> u32 \<times> int \<times> (mhi_interrupt list \<times> mhi_interrupt list) list \<times> u32 list" where
  "pm_frame c = (pm_state c, dev_wake c, waits c, pm_history c)"

lemma pm_frame_update [simp]:
  "pm_frame (c\<lparr>dev_state := s\<rparr>) = pm_frame c" "pm_frame (c\<lparr>ee := e\<rparr>) = pm_frame c"
  "pm_frame (c\<lparr>M0_count := n\<rparr>) = pm_frame c" "pm_frame (c\<lparr>M2_count := n\<rparr>) = pm_frame c"
  "pm_frame (c\<lparr>M3_count := n\<rparr>) = pm_frame c" "pm_frame (c\<lparr>mmio := m\<rparr>) = pm_frame c"
  "pm_frame (c\<lparr>effects := es\<rparr>) = pm_frame c" "pm_frame (c\<lparr>mhi_event_array := evs\<rparr>) = pm_frame c"
  "pm_frame (c\<lparr>mhi_chan_array := chs\<rparr>) = pm_frame c" "pm_frame (c\<lparr>primary_cmd := cmd\<rparr>) = pm_frame c"
  "pm_frame (c\<lparr>wake_db := a\<rparr>) = pm_frame c" "pm_frame (c\<lparr>transition_list := ts\<rparr>) = pm_frame c"
  "pm_frame (c\<lparr>mallocs := ms\<rparr>) = pm_frame c" "pm_frame (c\<lparr>ready_scheduled := b\<rparr>) = pm_frame c"
  by (simp_all add: pm_frame_def)

lemma pm_frame_emit [simp]: "pm_frame (emit e c) = pm_frame c"
  by (simp add: emit_def)

lemma pm_frame_registers [simp]:
  "pm_frame (mhi_write_reg c base off v) = pm_frame c"
  "pm_frame (mhi_write_reg_field c base off m sh v) = pm_frame c"
  "pm_frame (mhi_write_db c a w) = pm_frame c"
  "pm_frame (mhi_set_mhi_state c s) = pm_frame c"
  "pm_frame (mhi_assert_dev_wake c) = pm_frame c"
  "pm_frame (mhi_deassert_dev_wake c) = pm_frame c"
  "pm_frame (resume_if_suspended c) = pm_frame c"
  by (simp_all add: mhi_write_reg_def mhi_write_reg_field_def mhi_write_db_def mhi_set_mhi_state_def
      mhi_assert_dev_wake_def mhi_deassert_dev_wake_def resume_if_suspended_def split: sum.split)

lemma pm_frame_doorbells [simp]:
  "pm_frame (fst (run_process_db c cfg a w)) = pm_frame c"
  "pm_frame (fst (mhi_ring_er_db c ev)) = pm_frame c"
  "pm_frame (fst (mhi_ring_cmd_db c cmd)) = pm_frame c"
  "pm_frame (fst (mhi_ring_chan_db c ch)) = pm_frame c"
  by (simp_all add: run_process_db_def mhi_ring_er_db_def mhi_ring_cmd_db_def mhi_ring_chan_db_def
      split_beta Let_def split: process_db_fn.split)

lemma pm_frame_all_doorbells [simp]:
  "pm_frame (fst (ring_all_er_db c evs)) = pm_frame c"
  "pm_frame (fst (ring_all_chan_db c chs)) = pm_frame c"
  "pm_frame (fst (add_sw_elements c evs)) = pm_frame c"
  "pm_frame (fst (add_hw_elements c evs)) = pm_frame c"
  subgoal by (induction evs arbitrary: c) (simp_all add: split_beta Let_def)
  subgoal by (induction chs arbitrary: c) (simp_all add: split_beta Let_def)
  subgoal by (induction evs arbitrary: c) (simp_all add: split_beta Let_def)
  subgoal by (induction evs arbitrary: c) (simp_all add: split_beta Let_def)
  done

lemma pm_frame_fold:
  assumes "\<And>x c. pm_frame (f x c) = pm_frame c"
  shows "pm_frame (fold f xs c) = pm_frame c"
  by (induction xs arbitrary: c) (simp_all add: assms)

lemma pm_frame_init_mmio [simp]: "pm_frame (snd (mhi_init_mmio c)) = pm_frame c"
  by (simp add: mhi_init_mmio_def Let_def split_beta pm_frame_fold split: sum.split)

lemma pm_frame_notify_lpm [simp]: "pm_frame (notify_lpm cb c) = pm_frame c"
  by (simp add: notify_lpm_def pm_frame_fold)

lemma pm_frame_queue_state [simp]:
  "pm_frame (snd (kmalloc_ok c)) = pm_frame c"
  "pm_frame (snd (mhi_queue_state_transition c st)) = pm_frame c"
  "pm_frame (mhi_pm_ready_worker c) = pm_frame c"
  by (simp_all add: kmalloc_ok_def mhi_queue_state_transition_def mhi_pm_ready_worker_def Let_def
      split_beta split: list.split)

section \<open>The transition table\<close>

text \<open>The abstract state machine: the edges of the table.\<close>

definition pm_valid :: "u32 \<Rightarrow> bool" where
  "pm_valid s \<longleftrightarrow> s \<in> from_state ` set mhi_state_transitions"

definition pm_edge :: "u32 \<Rightarrow> u32 \<Rightarrow> bool" where
  "pm_edge s s' \<longleftrightarrow> pm_valid s' \<and>
     (\<exists>t \<in> set mhi_state_transitions. from_state t = s \<and> to_states t AND s' \<noteq> 0)"

lemma pm_valid_iff:
  "pm_valid s \<longleftrightarrow> s \<in> {MHI_PM_DISABLE, MHI_PM_POR, MHI_PM_M0, MHI_PM_M2, MHI_PM_M3_ENTER, MHI_PM_M3,
     MHI_PM_M3_EXIT, MHI_PM_FW_DL_ERR, MHI_PM_SYS_ERR_DETECT, MHI_PM_SYS_ERR_PROCESS,
     MHI_PM_SHUTDOWN_PROCESS, MHI_PM_LD_ERR_FATAL_DETECT}"
  by (simp add: pm_valid_def mhi_state_transitions_def)

lemma pm_valid_states [simp]:
  "pm_valid MHI_PM_DISABLE" "pm_valid MHI_PM_POR" "pm_valid MHI_PM_M0" "pm_valid MHI_PM_M2"
  "pm_valid MHI_PM_M3_ENTER" "pm_valid MHI_PM_M3" "pm_valid MHI_PM_M3_EXIT" "pm_valid MHI_PM_FW_DL_ERR"
  "pm_valid MHI_PM_SYS_ERR_DETECT" "pm_valid MHI_PM_SYS_ERR_PROCESS" "pm_valid MHI_PM_SHUTDOWN_PROCESS"
  "pm_valid MHI_PM_LD_ERR_FATAL_DETECT"
  by (simp_all add: pm_valid_iff)

text \<open>The table is indexed by the position of the only bit of the state.\<close>

lemma map_find_last_bit:
  "map (\<lambda>t. find_last_bit (from_state t)) mhi_state_transitions = [0..<length mhi_state_transitions]"
  by code_simp

lemma find_last_bit_table:
  assumes "i < length mhi_state_transitions"
  shows "find_last_bit (from_state (mhi_state_transitions ! i)) = i"
  using arg_cong [OF map_find_last_bit, of "\<lambda>xs. xs ! i"] assms by simp

lemma pm_edge_nth:
  assumes i: "i < length mhi_state_transitions" and s: "pm_valid s"
  shows "pm_edge (from_state (mhi_state_transitions ! i)) s \<longleftrightarrow> to_states (mhi_state_transitions ! i) AND s \<noteq> 0"
proof
  assume "pm_edge (from_state (mhi_state_transitions ! i)) s"
  then obtain j where j: "j < length mhi_state_transitions" "to_states (mhi_state_transitions ! j) AND s \<noteq> 0"
    "from_state (mhi_state_transitions ! j) = from_state (mhi_state_transitions ! i)"
    unfolding pm_edge_def by (metis in_set_conv_nth)
  have "j = i" using arg_cong [OF j(3), of find_last_bit] unfolding find_last_bit_table [OF j(1)] find_last_bit_table [OF i] .
  then show "to_states (mhi_state_transitions ! i) AND s \<noteq> 0" using j(2) by simp
next
  assume "to_states (mhi_state_transitions ! i) AND s \<noteq> 0"
  then show "pm_edge (from_state (mhi_state_transitions ! i)) s"
    unfolding pm_edge_def using s nth_mem [OF i] by blast
qed

lemma tryset_valid:
  assumes "pm_valid (pm_state c)" "pm_valid s"
  shows "mhi_tryset_pm_state c s = (if pm_edge (pm_state c) s then (s, set_pm_state s c) else (pm_state c, c))"
proof -
  obtain i where i: "i < length mhi_state_transitions" "pm_state c = from_state (mhi_state_transitions ! i)"
    using assms(1) unfolding pm_valid_def by (metis imageE in_set_conv_nth)
  show ?thesis
    using i find_last_bit_table [OF i(1)] pm_edge_nth [OF i(1) assms(2)]
    by (simp add: mhi_tryset_pm_state_def Let_def)
qed

lemma tryset_edge:
  assumes "pm_valid s"
  shows "mhi_tryset_pm_state c s = (s, set_pm_state s c) \<and> pm_edge (pm_state c) s \<or>
    mhi_tryset_pm_state c s = (pm_state c, c)"
proof (cases "pm_valid (pm_state c)")
  case True
  then show ?thesis using assms by (simp add: tryset_valid)
next
  case False
  then have "from_state (mhi_state_transitions ! i) \<noteq> pm_state c" if "i < length mhi_state_transitions" for i
    using that nth_mem by (force simp: pm_valid_def)
  then show ?thesis by (simp add: mhi_tryset_pm_state_def Let_def)
qed

lemma tryset_cases:
  assumes "pm_valid s" "P (pm_state c, c)"
    "pm_edge (pm_state c) s \<Longrightarrow> P (s, set_pm_state s c)"
  shows "P (mhi_tryset_pm_state c s)"
  using tryset_edge [OF assms(1), of c] assms(2,3) by metis

section \<open>Relations every activity respects\<close>

text \<open>
  What holds between the state before an operation and the state after it follows from four laws:
  the relation is transitive, ignores everything but \<open>pm_frame\<close>, and holds across a wait and
  across a request for one of the states the running system asks for. The second locale
  adds the requests of the disable transition.
\<close>

locale pm_activity =
  fixes R :: "mhi_controller \<Rightarrow> mhi_controller \<Rightarrow> bool"
  assumes R_trans: "R a b \<Longrightarrow> R b c \<Longrightarrow> R a c"
    and R_frame: "pm_frame c' = pm_frame c \<Longrightarrow> R c c'"
    and R_wait: "R c (snd (wait_event c))"
    and R_tryset: "s \<in> {MHI_PM_POR, MHI_PM_M3_ENTER, MHI_PM_M3_EXIT, MHI_PM_SYS_ERR_DETECT} \<Longrightarrow>
      R c (snd (mhi_tryset_pm_state c s))"
begin

lemma R_refl: "R c c"
  by (rule R_frame) simp

lemma R_then_frame: "R a b \<Longrightarrow> pm_frame c = pm_frame b \<Longrightarrow> R a c"
  using R_trans R_frame by blast

lemma R_from_frame: "R b c \<Longrightarrow> pm_frame b = pm_frame a \<Longrightarrow> R a c"
  using R_trans R_frame by metis

lemma R_fold: "(\<And>x c. R c (f x c)) \<Longrightarrow> R c (fold f xs c)"
  by (induction xs arbitrary: c) (auto simp: R_refl intro: R_trans)

lemma R_ready: "R c (snd (mhi_ready_state_transition c))"
proof -
  let ?w = "snd (wait_event c)"
  let ?t = "snd (mhi_tryset_pm_state ?w MHI_PM_POR)"
  have t: "R c ?t" by (rule R_trans [OF R_wait R_tryset]) simp
  show ?thesis
    by (auto simp: mhi_ready_state_transition_def Let_def split_beta R_wait intro: R_then_frame [OF t])
qed

lemma R_get_sync: "R c (snd (mhi_device_get_sync_cntrl c))"
proof -
  let ?a = "resume_if_suspended (mhi_assert_dev_wake c)"
  have "R c (snd (wait_event ?a))"
    by (rule R_from_frame [OF R_wait]) simp
  then show ?thesis
    by (auto simp: mhi_device_get_sync_cntrl_def Let_def split_beta intro: R_then_frame)
qed

lemma R_mission: "R c (snd (mhi_pm_mission_mode_transition c))"
proof -
  have "R c (snd (mhi_device_get_sync_cntrl (emit (Status_cb MHI_CB_EE_MISSION_MODE) c)))"
    by (rule R_from_frame [OF R_get_sync]) simp
  then show ?thesis
    by (auto simp: R_refl mhi_pm_mission_mode_transition_def Let_def split_beta intro: R_then_frame)
qed

lemma R_transition: "R c (run_transition st c)"
  by (cases st) (auto simp: R_refl run_transition_def Let_def R_mission R_ready intro: R_frame)

lemma R_st_worker: "R c (mhi_pm_st_worker c)"
  unfolding mhi_pm_st_worker_def
  by (rule R_from_frame [OF R_fold [OF R_transition]]) simp

lemma R_ready_worker: "R c (mhi_pm_ready_worker c)"
  by (rule R_frame) simp

lemma R_flush: "R c (flush_workers c)"
  unfolding flush_workers_def Let_def
  by (rule R_from_frame [OF R_st_worker]) simp

lemma R_sys_err_irq: "R c (ctrl_sys_err c)"
  using R_tryset [of MHI_PM_SYS_ERR_DETECT c]
  by (auto simp: R_refl ctrl_sys_err_def Let_def split_beta intro: R_then_frame)

lemma R_debugfs: "R c (snd (mhi_debugfs_trigger_reset c))"
proof -
  let ?w = "snd (wait_event (emit Runtime_put (emit Runtime_get c)))"
  have w: "R c ?w" by (rule R_from_frame [OF R_wait]) simp
  then show ?thesis
    using R_trans [OF w R_sys_err_irq]
    by (auto simp: R_refl mhi_debugfs_trigger_reset_def Let_def split_beta)
qed

lemma R_intvec: "R c (mhi_intvec_threaded_handlr c)"
proof -
  let ?t = "snd (mhi_tryset_pm_state c MHI_PM_SYS_ERR_DETECT)"
  have "pm_frame (mhi_intvec_threaded_handlr c) \<in> {pm_frame c, pm_frame ?t}"
    by (simp add: mhi_intvec_threaded_handlr_def Let_def split_beta)
  then show ?thesis
    using R_tryset [of MHI_PM_SYS_ERR_DETECT c] R_frame R_then_frame by auto
qed

lemma R_resume: "R c (snd (mhi_pm_resume c))"
proof -
  let ?t = "snd (mhi_tryset_pm_state (notify_lpm MHI_CB_LPM_EXIT c) MHI_PM_M3_EXIT)"
  let ?w = "snd (wait_event (mhi_set_mhi_state (mhi_assert_dev_wake ?t) MHI_STATE_M0))"
  have t: "R c ?t" by (rule R_from_frame [OF R_tryset]) simp_all
  have "R ?t ?w" by (rule R_from_frame [OF R_wait]) simp
  then have w: "R c ?w" by (rule R_trans [OF t])
  then have d: "R c (mhi_deassert_dev_wake ?w)" by (rule R_then_frame) simp
  show ?thesis
    using t d R_trans [OF d R_intvec]
    by (simp add: R_refl mhi_pm_resume_def Let_def split_beta)
qed

lemma R_suspend: "R c (snd (mhi_pm_suspend c))"
proof -
  let ?v = "snd (wait_event (mhi_assert_dev_wake c))"
  let ?t = "snd (mhi_tryset_pm_state ?v MHI_PM_M3_ENTER)"
  let ?w = "snd (wait_event (mhi_deassert_dev_wake (mhi_set_mhi_state ?t MHI_STATE_M3)))"
  have v: "R c ?v" by (rule R_from_frame [OF R_wait]) simp
  have t: "R c ?t" by (rule R_trans [OF v R_tryset]) simp
  have "R ?t ?w" by (rule R_from_frame [OF R_wait]) simp
  then have w: "R c ?w" by (rule R_trans [OF t])
  show ?thesis
    using v t w
    by (auto simp: R_refl mhi_pm_suspend_def Let_def split_beta intro: R_then_frame)
qed

lemma R_force_rddm: "R c (snd (mhi_force_rddm_mode c))"
  unfolding mhi_force_rddm_mode_def Let_def split_beta snd_conv
  by (rule R_from_frame [OF R_wait]) simp

lemma R_trigger_reset: "R c (snd (trigger_reset c s))"
proof -
  have "R c (snd (wait_event (mhi_set_mhi_state c MHI_STATE_RESET)))"
    by (rule R_from_frame [OF R_wait]) simp
  then show ?thesis
    by (auto simp: trigger_reset_def Let_def split_beta intro: R_then_frame)
qed

end

locale pm_shutdown = pm_activity +
  assumes R_tryset_down: "s \<in> {MHI_PM_SYS_ERR_PROCESS, MHI_PM_SHUTDOWN_PROCESS, MHI_PM_DISABLE,
    MHI_PM_LD_ERR_FATAL_DETECT} \<Longrightarrow> R c (snd (mhi_tryset_pm_state c s))"
begin

lemma R_finish: "R c (finish_disable c s)"
proof -
  let ?f = "flush_workers (emit Destroy_devices (emit Tasklet_kill c))"
  let ?g = "emit Destroy_timesync (?f\<lparr>primary_cmd := reset_cmd_ring (primary_cmd ?f),
              mhi_event_array := map reset_ev_ring (mhi_event_array ?f)\<rparr>)"
  have "R c ?f" by (rule R_from_frame [OF R_flush]) simp
  then have g: "R c ?g" by (rule R_then_frame) simp
  have e: "R c (?g\<lparr>ee := e\<rparr>)" for e using g by (rule R_then_frame) simp
  show ?thesis
    using R_trans [OF e R_tryset] R_trans [OF g R_ready] R_trans [OF g R_tryset_down]
    by (simp add: finish_disable_def Let_def)
qed

lemma R_entry:
  assumes "s \<in> {MHI_PM_SYS_ERR_PROCESS, MHI_PM_SHUTDOWN_PROCESS}"
  shows "R c (snd (disable_entry c s))"
  using R_tryset_down [of s c] assms
  by (auto simp: disable_entry_def Let_def split_beta elim!: R_then_frame)

lemma R_disable:
  assumes "s \<in> {MHI_PM_SYS_ERR_PROCESS, MHI_PM_SHUTDOWN_PROCESS}"
  shows "R c (mhi_pm_disable_transition c s)"
proof -
  let ?c = "if s = MHI_PM_SYS_ERR_PROCESS then emit (Status_cb MHI_CB_SYS_ERROR) c else c"
  have u: "R c (snd (disable_entry ?c s))"
    by (rule R_from_frame [OF R_entry [OF assms]]) simp
  have r: "R c (snd (trigger_reset (snd (disable_entry ?c s)) k))" for k using R_trans [OF u R_trigger_reset] .
  show ?thesis
    unfolding mhi_pm_disable_transition_def Let_def split_beta
    using u r R_trans [OF u R_finish] R_trans [OF r R_finish] by simp
qed

lemma R_sys_err_worker: "R c (mhi_pm_sys_err_worker c)"
  by (simp add: mhi_pm_sys_err_worker_def R_disable)

lemma R_power_down: "R c (mhi_power_down c g)"
proof -
  define c0 where "c0 = (if g then c else snd (mhi_tryset_pm_state c MHI_PM_LD_ERR_FATAL_DETECT))"
  have "R c c0" by (simp add: c0_def R_refl R_tryset_down)
  then have "R c (mhi_pm_disable_transition c0 MHI_PM_SHUTDOWN_PROCESS)"
    by (rule R_trans) (simp add: R_disable)
  then show ?thesis
    by (auto simp: R_refl mhi_power_down_def Let_def c0_def [symmetric] intro: R_then_frame)
qed

end

section \<open>Interrupts and waits\<close>

definition irq_target :: "mhi_interrupt \<Rightarrow> u32 option" where
  "irq_target i =
     (case i of Ctrl_M0 \<Rightarrow> Some MHI_PM_M0 | Ctrl_M1 \<Rightarrow> Some MHI_PM_M2 | Ctrl_M3 \<Rightarrow> Some MHI_PM_M3
      | Ctrl_SYS_ERR \<Rightarrow> Some MHI_PM_SYS_ERR_DETECT | Link_down \<Rightarrow> Some MHI_PM_LD_ERR_FATAL_DETECT | _ \<Rightarrow> None)"

lemma pm_frame_m0: "pm_frame (snd (mhi_pm_m0_transition c)) = pm_frame (snd (mhi_tryset_pm_state (c\<lparr>dev_state := MHI_STATE_M0\<rparr>) MHI_PM_M0))"
  by (simp add: mhi_pm_m0_transition_def Let_def split_beta)

lemma pm_frame_m1: "pm_frame (mhi_pm_m1_transition c) = pm_frame (snd (mhi_tryset_pm_state c MHI_PM_M2))"
  by (simp add: mhi_pm_m1_transition_def Let_def split_beta)

lemma pm_frame_m3: "pm_frame (snd (mhi_pm_m3_transition c)) = pm_frame (snd (mhi_tryset_pm_state (c\<lparr>dev_state := MHI_STATE_M3\<rparr>) MHI_PM_M3))"
  by (simp add: mhi_pm_m3_transition_def Let_def split_beta)

lemma pm_frame_sys_err: "pm_frame (ctrl_sys_err c) = pm_frame (snd (mhi_tryset_pm_state c MHI_PM_SYS_ERR_DETECT))"
  by (simp add: ctrl_sys_err_def Let_def split_beta)

lemma pm_frame_tryset:
  assumes "pm_valid s"
  shows "pm_frame (snd (mhi_tryset_pm_state c s)) = pm_frame c \<or>
    pm_edge (pm_state c) s \<and> pm_frame (snd (mhi_tryset_pm_state c s)) = (s, dev_wake c, waits c, pm_history c @ [s])"
  by (rule tryset_cases [OF assms]) (simp_all add: pm_frame_def)

lemma run_irq_frame:
  "pm_frame (run_irq i c) = pm_frame c \<or>
   (\<exists>s. irq_target i = Some s \<and> pm_edge (pm_state c) s \<and> pm_frame (run_irq i c) = (s, dev_wake c, waits c, pm_history c @ [s]))"
  using pm_frame_tryset [of MHI_PM_M0 "c\<lparr>dev_state := MHI_STATE_M0\<rparr>"] pm_frame_tryset [of MHI_PM_M2 c]
    pm_frame_tryset [of MHI_PM_M3 "c\<lparr>dev_state := MHI_STATE_M3\<rparr>"] pm_frame_tryset [of MHI_PM_SYS_ERR_DETECT c]
    pm_frame_tryset [of MHI_PM_LD_ERR_FATAL_DETECT c]
  by (cases i) (simp_all add: run_irq_def irq_target_def pm_frame_m0 pm_frame_m1 pm_frame_m3 pm_frame_sys_err)

lemma run_irqs_simps [simp]:
  "run_irqs [] c = c" "run_irqs (i # is) c = run_irqs is (run_irq i c)"
  by (simp_all add: run_irqs_def)

lemma run_irqs_keeps:
  assumes "\<And>i c. i \<in> set is \<Longrightarrow> P c \<Longrightarrow> P (run_irq i c)" and "P c"
  shows "P (run_irqs is c)"
  using assms by (induction "is" arbitrary: c) auto

lemma irq_target_valid: "irq_target i = Some s \<Longrightarrow> pm_valid s"
  by (auto simp: irq_target_def split: mhi_interrupt.splits)

lemma run_irq_cases:
  assumes "P (pm_state c)" "\<And>s. irq_target i = Some s \<Longrightarrow> pm_edge (pm_state c) s \<Longrightarrow> P s"
  shows "P (pm_state (run_irq i c))"
  using run_irq_frame [of i c] assms by (auto simp: pm_frame_def)

text \<open>Whatever is closed under the requests of threads and interrupts.\<close>

locale pm_requests =
  fixes R :: "u32 \<Rightarrow> u32 \<Rightarrow> bool"
  assumes Q_refl: "R s s" and Q_trans: "R s t \<Longrightarrow> R t u \<Longrightarrow> R s u"
    and Q_edge: "pm_edge s t \<Longrightarrow> t \<in> {MHI_PM_POR, MHI_PM_M0, MHI_PM_M2, MHI_PM_M3_ENTER, MHI_PM_M3, MHI_PM_M3_EXIT,
      MHI_PM_SYS_ERR_DETECT, MHI_PM_LD_ERR_FATAL_DETECT} \<Longrightarrow> R s t"
begin

lemma Q_irq: "R (pm_state c) (pm_state (run_irq i c))"
  by (rule run_irq_cases) (auto simp: Q_refl Q_edge irq_target_def split: mhi_interrupt.splits)

lemma Q_irqs: "R (pm_state c) (pm_state (run_irqs is c))"
  by (induction "is" arbitrary: c) (auto simp: Q_refl intro: Q_trans Q_irq)

lemma Q_wait: "R (pm_state c) (pm_state (snd (wait_event c)))"
proof -
  obtain b a where ba: "(case waits c of [] \<Rightarrow> ([], []) | w # _ \<Rightarrow> w) = (b, a)" by (cases "case waits c of [] \<Rightarrow> ([], []) | w # _ \<Rightarrow> w")
  show ?thesis
    using Q_trans [OF Q_irqs [of "c\<lparr>waits := tl (waits c)\<rparr>" b] Q_irqs [of _ a]]
    by (simp add: wait_event_def Let_def ba)
qed

lemma Q_tryset:
  assumes "s \<in> {MHI_PM_POR, MHI_PM_M3_ENTER, MHI_PM_M3_EXIT, MHI_PM_SYS_ERR_DETECT, MHI_PM_LD_ERR_FATAL_DETECT}"
  shows "R (pm_state c) (pm_state (snd (mhi_tryset_pm_state c s)))"
  by (rule tryset_cases) (use assms in \<open>auto simp: Q_refl Q_edge\<close>)

end

sublocale pm_requests \<subseteq> pm_activity "\<lambda>c c'. R (pm_state c) (pm_state c')"
proof
  show "R (pm_state a) (pm_state b) \<Longrightarrow> R (pm_state b) (pm_state c) \<Longrightarrow> R (pm_state a) (pm_state c)" for a b c
    by (rule Q_trans)
  show "pm_frame c' = pm_frame c \<Longrightarrow> R (pm_state c) (pm_state c')" for c c'
    by (simp add: pm_frame_def Q_refl)
  show "R (pm_state c) (pm_state (snd (wait_event c)))" for c by (rule Q_wait)
  show "s \<in> {MHI_PM_POR, MHI_PM_M3_ENTER, MHI_PM_M3_EXIT, MHI_PM_SYS_ERR_DETECT} \<Longrightarrow>
      R (pm_state c) (pm_state (snd (mhi_tryset_pm_state c s)))" for s c
    by (rule Q_tryset) auto
qed

section \<open>The relations of the power management\<close>

text \<open>
  The refinement: the assignments of \<open>pm_state\<close> between two states of the controller, each of which
  must be an edge from the state before it.
\<close>

primrec pm_path :: "u32 \<Rightarrow> u32 list \<Rightarrow> bool" where
  "pm_path s [] = True"
| "pm_path s (t # ts) = (pm_edge s t \<and> pm_path t ts)"

lemma pm_path_append: "pm_path s (ts @ us) \<longleftrightarrow> pm_path s ts \<and> pm_path (last (s # ts)) us"
  by (induction ts arbitrary: s) auto

definition along :: "mhi_controller \<Rightarrow> mhi_controller \<Rightarrow> bool" where
  "along c c' \<longleftrightarrow> (\<exists>ts. pm_history c' = pm_history c @ ts \<and> pm_path (pm_state c) ts \<and> pm_state c' = last (pm_state c # ts))"

lemma alongI:
  "pm_history c' = pm_history c @ ts \<Longrightarrow> pm_path (pm_state c) ts \<Longrightarrow> pm_state c' = last (pm_state c # ts) \<Longrightarrow> along c c'"
  by (auto simp: along_def)

lemma along_frame: "pm_frame c' = pm_frame c \<Longrightarrow> along c c'"
  by (rule alongI [of _ _ "[]"]) (simp_all add: pm_frame_def)

lemma along_trans:
  assumes "along a b" "along b c"
  shows "along a c"
proof -
  obtain ts us where ts: "pm_history b = pm_history a @ ts" "pm_path (pm_state a) ts" "pm_state b = last (pm_state a # ts)"
    and us: "pm_history c = pm_history b @ us" "pm_path (pm_state b) us" "pm_state c = last (pm_state b # us)"
    using assms unfolding along_def by blast
  show ?thesis
    using ts us by (intro alongI [of _ _ "ts @ us"]) (auto simp: pm_path_append last_append)
qed

lemma along_irq: "along c (run_irq i c)"
  using run_irq_frame [of i c]
proof
  assume "\<exists>s. irq_target i = Some s \<and> pm_edge (pm_state c) s \<and>
    pm_frame (run_irq i c) = (s, dev_wake c, waits c, pm_history c @ [s])"
  then obtain s where "pm_edge (pm_state c) s" "pm_frame (run_irq i c) = (s, dev_wake c, waits c, pm_history c @ [s])"
    by blast
  then show ?thesis by (intro alongI [of _ _ "[s]"]) (simp_all add: pm_frame_def)
qed (rule along_frame)

lemma along_irqs: "along c (run_irqs is c)"
  by (induction "is" arbitrary: c) (auto intro: along_frame along_trans along_irq)

lemma along_tryset: "pm_valid s \<Longrightarrow> along c (snd (mhi_tryset_pm_state c s))"
  by (rule tryset_cases) (auto intro: along_frame alongI [of _ _ "[s]"])

lemma along_wait: "along c (snd (wait_event c))"
proof -
  obtain b a where ba: "(case waits c of [] \<Rightarrow> ([], []) | w # _ \<Rightarrow> w) = (b, a)" by (cases "case waits c of [] \<Rightarrow> ([], []) | w # _ \<Rightarrow> w")
  have "along c (c\<lparr>waits := tl (waits c)\<rparr>)" by (rule alongI [of _ _ "[]"]) simp_all
  then show ?thesis
    using along_trans [OF _ along_trans [OF along_irqs along_irqs]] by (simp add: wait_event_def Let_def ba)
qed

interpretation along: pm_shutdown along
proof
  show "along c (snd (mhi_tryset_pm_state c s))"
    if "s \<in> {MHI_PM_POR, MHI_PM_M3_ENTER, MHI_PM_M3_EXIT, MHI_PM_SYS_ERR_DETECT}" for s c
    using that by (intro along_tryset) auto
  show "along c (snd (mhi_tryset_pm_state c s))"
    if "s \<in> {MHI_PM_SYS_ERR_PROCESS, MHI_PM_SHUTDOWN_PROCESS, MHI_PM_DISABLE, MHI_PM_LD_ERR_FATAL_DETECT}" for s c
    using that by (intro along_tryset) auto
qed (auto intro: along_trans along_frame along_wait)

text \<open>The edges, evaluated once.\<close>

lemma pm_edges:
  "pm_edge s t \<longleftrightarrow> pm_valid t \<and>
    (s = MHI_PM_DISABLE \<and> t = MHI_PM_POR \<or>
     s = MHI_PM_POR \<and> t \<in> {MHI_PM_POR, MHI_PM_DISABLE, MHI_PM_M0, MHI_PM_SYS_ERR_DETECT, MHI_PM_SHUTDOWN_PROCESS,
       MHI_PM_LD_ERR_FATAL_DETECT, MHI_PM_FW_DL_ERR} \<or>
     s = MHI_PM_M0 \<and> t \<in> {MHI_PM_M2, MHI_PM_M3_ENTER, MHI_PM_SYS_ERR_DETECT, MHI_PM_SHUTDOWN_PROCESS,
       MHI_PM_LD_ERR_FATAL_DETECT, MHI_PM_FW_DL_ERR} \<or>
     s \<in> {MHI_PM_M2, MHI_PM_M3_EXIT} \<and>
       t \<in> {MHI_PM_M0, MHI_PM_SYS_ERR_DETECT, MHI_PM_SHUTDOWN_PROCESS, MHI_PM_LD_ERR_FATAL_DETECT} \<or>
     s = MHI_PM_M3_ENTER \<and>
       t \<in> {MHI_PM_M3, MHI_PM_SYS_ERR_DETECT, MHI_PM_SHUTDOWN_PROCESS, MHI_PM_LD_ERR_FATAL_DETECT} \<or>
     s = MHI_PM_M3 \<and>
       t \<in> {MHI_PM_M3_EXIT, MHI_PM_SYS_ERR_DETECT, MHI_PM_SHUTDOWN_PROCESS, MHI_PM_LD_ERR_FATAL_DETECT} \<or>
     s = MHI_PM_FW_DL_ERR \<and>
       t \<in> {MHI_PM_FW_DL_ERR, MHI_PM_SYS_ERR_DETECT, MHI_PM_SHUTDOWN_PROCESS, MHI_PM_LD_ERR_FATAL_DETECT} \<or>
     s = MHI_PM_SYS_ERR_DETECT \<and>
       t \<in> {MHI_PM_SYS_ERR_PROCESS, MHI_PM_SHUTDOWN_PROCESS, MHI_PM_LD_ERR_FATAL_DETECT} \<or>
     s = MHI_PM_SYS_ERR_PROCESS \<and> t \<in> {MHI_PM_POR, MHI_PM_SHUTDOWN_PROCESS, MHI_PM_LD_ERR_FATAL_DETECT} \<or>
     s = MHI_PM_SHUTDOWN_PROCESS \<and> t \<in> {MHI_PM_DISABLE, MHI_PM_LD_ERR_FATAL_DETECT} \<or>
     s = MHI_PM_LD_ERR_FATAL_DETECT \<and> t \<in> {MHI_PM_LD_ERR_FATAL_DETECT, MHI_PM_SHUTDOWN_PROCESS})"
proof (cases "pm_valid t")
  case True
  then have "t \<in> {MHI_PM_DISABLE, MHI_PM_POR, MHI_PM_M0, MHI_PM_M2, MHI_PM_M3_ENTER, MHI_PM_M3,
     MHI_PM_M3_EXIT, MHI_PM_FW_DL_ERR, MHI_PM_SYS_ERR_DETECT, MHI_PM_SYS_ERR_PROCESS,
     MHI_PM_SHUTDOWN_PROCESS, MHI_PM_LD_ERR_FATAL_DETECT}" by (simp only: pm_valid_iff)
  then show ?thesis using True
    by (elim insertE emptyE) (auto simp: pm_edge_def mhi_state_transitions_def pm_state_defs)
qed (simp add: pm_edge_def)

lemma pm_states_distinct:
  "distinct [MHI_PM_DISABLE, MHI_PM_POR, MHI_PM_M0, MHI_PM_M2, MHI_PM_M3_ENTER, MHI_PM_M3, MHI_PM_M3_EXIT,
     MHI_PM_FW_DL_ERR, MHI_PM_SYS_ERR_DETECT, MHI_PM_SYS_ERR_PROCESS, MHI_PM_SHUTDOWN_PROCESS,
     MHI_PM_LD_ERR_FATAL_DETECT]"
  by (simp add: pm_state_defs)

lemma pm_error_iff:
  assumes "pm_valid s"
  shows "MHI_PM_IN_ERROR_STATE s \<longleftrightarrow> s \<in> {MHI_PM_FW_DL_ERR, MHI_PM_SYS_ERR_DETECT, MHI_PM_SYS_ERR_PROCESS,
    MHI_PM_SHUTDOWN_PROCESS, MHI_PM_LD_ERR_FATAL_DETECT}"
  using assms unfolding pm_valid_iff MHI_PM_IN_ERROR_STATE_def
  by (elim insertE emptyE) (simp_all add: pm_state_defs word_le_nat_alt)

lemma pm_states_distinct_rev:
  "distinct [MHI_PM_LD_ERR_FATAL_DETECT, MHI_PM_SHUTDOWN_PROCESS, MHI_PM_SYS_ERR_PROCESS, MHI_PM_SYS_ERR_DETECT,
     MHI_PM_FW_DL_ERR, MHI_PM_M3_EXIT, MHI_PM_M3, MHI_PM_M3_ENTER, MHI_PM_M2, MHI_PM_M0, MHI_PM_POR,
     MHI_PM_DISABLE]"
  by (simp add: pm_state_defs)

lemmas pm_neq [simp] = pm_states_distinct [simplified] pm_states_distinct_rev [simplified]

lemma pm_edge_from_last [simp]:
  "pm_edge MHI_PM_SHUTDOWN_PROCESS t \<longleftrightarrow> t = MHI_PM_DISABLE \<or> t = MHI_PM_LD_ERR_FATAL_DETECT"
  "pm_edge MHI_PM_LD_ERR_FATAL_DETECT t \<longleftrightarrow> t = MHI_PM_LD_ERR_FATAL_DETECT \<or> t = MHI_PM_SHUTDOWN_PROCESS"
  by (simp_all add: pm_edges) auto

text \<open>While the link goes down nothing but the disable transition leaves the two last states.\<close>

interpretation down: pm_requests "\<lambda>s t. s \<in> {MHI_PM_SHUTDOWN_PROCESS, MHI_PM_LD_ERR_FATAL_DETECT} \<longrightarrow>
  t \<in> {MHI_PM_SHUTDOWN_PROCESS, MHI_PM_LD_ERR_FATAL_DETECT}"
  by unfold_locales auto

interpretation wake: pm_shutdown "\<lambda>c c'. dev_wake c' = dev_wake c"
proof
  have irq: "dev_wake (run_irq i c) = dev_wake c" for i c
    using run_irq_frame [of i c] by (auto simp: pm_frame_def)
  have irqs: "dev_wake (run_irqs is c) = dev_wake c" for "is" c
    by (induction "is" arbitrary: c) (auto simp: irq)
  show "dev_wake (snd (wait_event c)) = dev_wake c" for c
    by (simp add: wait_event_def Let_def split_beta irqs)
  show "dev_wake (snd (mhi_tryset_pm_state c s)) = dev_wake c"
    if "s \<in> {MHI_PM_POR, MHI_PM_M3_ENTER, MHI_PM_M3_EXIT, MHI_PM_SYS_ERR_DETECT}" for s c
    by (simp add: mhi_tryset_pm_state_def Let_def)
  show "dev_wake (snd (mhi_tryset_pm_state c s)) = dev_wake c"
    if "s \<in> {MHI_PM_SYS_ERR_PROCESS, MHI_PM_SHUTDOWN_PROCESS, MHI_PM_DISABLE, MHI_PM_LD_ERR_FATAL_DETECT}" for s c
    by (simp add: mhi_tryset_pm_state_def Let_def)
qed (auto simp: pm_frame_def)

text \<open>Without a lost link the shutdown state stays.\<close>

definition link_stays :: "mhi_controller \<Rightarrow> bool" where
  "link_stays c \<longleftrightarrow> (\<forall>(b, a) \<in> set (waits c). Link_down \<notin> set b \<and> Link_down \<notin> set a)"

definition shutting_down :: "mhi_controller \<Rightarrow> bool" where
  "shutting_down c \<longleftrightarrow> pm_state c = MHI_PM_SHUTDOWN_PROCESS \<and> link_stays c"

lemma shutting_down_frame:
  assumes "pm_frame c' = pm_frame c"
  shows "shutting_down c' \<longleftrightarrow> shutting_down c"
  using assms unfolding pm_frame_def shutting_down_def link_stays_def prod.inject by (elim conjE) metis

lemma shutting_down_irqs:
  assumes "shutting_down c" "Link_down \<notin> set is"
  shows "shutting_down (run_irqs is c)"
proof (rule run_irqs_keeps [of _ shutting_down, OF _ assms(1)])
  fix i d assume i: "i \<in> set is" and d: "shutting_down d"
  have "irq_target i \<noteq> Some MHI_PM_LD_ERR_FATAL_DETECT" "irq_target i \<noteq> Some MHI_PM_DISABLE"
    using i assms(2) by (auto simp: irq_target_def split: mhi_interrupt.splits)
  moreover have "pm_edge (pm_state d) s \<Longrightarrow> s = MHI_PM_DISABLE \<or> s = MHI_PM_LD_ERR_FATAL_DETECT" for s
    using d by (simp add: shutting_down_def)
  ultimately have "pm_frame (run_irq i d) = pm_frame d"
    using run_irq_frame [of i d] by metis
  then show "shutting_down (run_irq i d)"
    using d shutting_down_frame by blast
qed

interpretation quiet: pm_activity "\<lambda>c c'. shutting_down c \<longrightarrow> shutting_down c'"
proof
  show "shutting_down c \<longrightarrow> shutting_down c'" if "pm_frame c' = pm_frame c" for c c'
    using that shutting_down_frame by blast
  show "shutting_down c \<longrightarrow> shutting_down (snd (wait_event c))" for c
  proof
    assume c: "shutting_down c"
    obtain b a where ba: "(case waits c of [] \<Rightarrow> ([], []) | w # _ \<Rightarrow> w) = (b, a)"
      by (cases "case waits c of [] \<Rightarrow> ([], []) | w # _ \<Rightarrow> w")
    have "Link_down \<notin> set b \<and> Link_down \<notin> set a \<and> shutting_down (c\<lparr>waits := tl (waits c)\<rparr>)"
      using c ba by (cases "waits c") (auto simp: shutting_down_def link_stays_def)
    then show "shutting_down (snd (wait_event c))"
      by (simp add: wait_event_def Let_def ba shutting_down_irqs)
  qed
  show "shutting_down c \<longrightarrow> shutting_down (snd (mhi_tryset_pm_state c s))"
    if s: "s \<in> {MHI_PM_POR, MHI_PM_M3_ENTER, MHI_PM_M3_EXIT, MHI_PM_SYS_ERR_DETECT}" for c s
  proof (rule tryset_cases)
    assume "pm_edge (pm_state c) s"
    then show "shutting_down c \<longrightarrow> shutting_down (snd (s, set_pm_state s c))"
      using s by (auto simp: shutting_down_def)
  qed (use s in auto)
qed auto

section \<open>The running controller\<close>

text \<open>
  Every operation of the power management as a step: an interrupt, a worker, a call of a client or
  of the controller driver, and the environment choosing how the next waits, allocations and
  initialisations go.
\<close>

inductive pm_step :: "mhi_controller \<Rightarrow> mhi_controller \<Rightarrow> bool" where
  irq: "pm_step c (run_irq i c)"
| intvec: "pm_step c (mhi_intvec_threaded_handlr c)"
| st_worker: "pm_step c (mhi_pm_st_worker c)"
| ready_worker: "pm_step c (mhi_pm_ready_worker c)"
| sys_err_worker: "pm_step c (mhi_pm_sys_err_worker c)"
| suspend: "pm_step c (snd (mhi_pm_suspend c))"
| resume: "pm_step c (snd (mhi_pm_resume c))"
| get_sync: "pm_step c (snd (mhi_device_get_sync_cntrl c))"
| device_get: "pm_step c (snd (mhi_device_get w c))"
| device_get_sync: "pm_step c (snd (snd (mhi_device_get_sync w c)))"
| device_put: "pm_step c (snd (mhi_device_put w c))"
| debugfs_reset: "pm_step c (snd (mhi_debugfs_trigger_reset c))"
| force_rddm: "pm_step c (snd (mhi_force_rddm_mode c))"
| power_down: "pm_step c (mhi_power_down c graceful)"
| async_power_up: "mhi_async_power_up c = Some (ret, c') \<Longrightarrow> pm_step c c'"
| sync_power_up: "mhi_sync_power_up c = Some (ret, c') \<Longrightarrow> pm_step c c'"
| environment: "pm_step c (c\<lparr>waits := ws, mallocs := ms, init_results := rs, link_status := b\<rparr>)"

inductive pm_reachable :: "mhi_controller \<Rightarrow> bool" where
  probed: "pm_state c = MHI_PM_DISABLE \<Longrightarrow> dev_wake c = 0 \<Longrightarrow> pm_reachable c"
| step: "pm_reachable c \<Longrightarrow> pm_step c c' \<Longrightarrow> pm_reachable c'"

lemma pm_path_valid: "pm_path s ts \<Longrightarrow> pm_valid s \<Longrightarrow> pm_valid (last (s # ts))"
  by (induction ts arbitrary: s) (auto simp: pm_edge_def)

lemma along_valid: "along c c' \<Longrightarrow> pm_valid (pm_state c) \<Longrightarrow> pm_valid (pm_state c')"
  unfolding along_def using pm_path_valid by metis

lemma power_up_ctxt_frame:
  "pm_state (snd (power_up_ctxt c)) = pm_state c" "pm_history (snd (power_up_ctxt c)) = pm_history c"
  "dev_wake (snd (power_up_ctxt c)) \<in> {0, dev_wake c}"
  by (auto simp: power_up_ctxt_def pop_result_def emit_def Let_def split_beta split: list.split)

lemma power_up_bhi_frame:
  "(pm_state (snd (power_up_bhi c)), pm_history (snd (power_up_bhi c))) \<in>
     {(pm_state c, pm_history c), (MHI_PM_POR, pm_history c @ [MHI_PM_POR])} \<and> dev_wake (snd (power_up_bhi c)) = dev_wake c"
proof -
  have emit: "pm_state (emit e d) = pm_state d" "dev_wake (emit e d) = dev_wake d" "pm_history (emit e d) = pm_history d" for e d
    by (simp_all add: emit_def)
  have queue: "pm_state (snd (mhi_queue_state_transition d st)) = pm_state d"
    "dev_wake (snd (mhi_queue_state_transition d st)) = dev_wake d"
    "pm_history (snd (mhi_queue_state_transition d st)) = pm_history d" for d st
    using pm_frame_queue_state(2) [of d st] by (simp_all add: pm_frame_def)
  have wr: "dev_wake (mhi_write_reg d a b v) = dev_wake d" "pm_history (mhi_write_reg d a b v) = pm_history d" for d a b v
    using pm_frame_registers(1) [of d a b v] by (simp_all add: pm_frame_def)
  show ?thesis
    by (simp add: power_up_bhi_def Let_def split_beta emit queue wr split: sum.split)
qed

text \<open>Power up forces the state to \<open>MHI_PM_DISABLE\<close>; from there on it follows the table again.\<close>

definition restarts :: "mhi_controller \<Rightarrow> mhi_controller \<Rightarrow> bool" where
  "restarts c c' \<longleftrightarrow> (\<exists>us vs. pm_history c' = pm_history c @ us @ MHI_PM_DISABLE # vs \<and> pm_path (pm_state c) us \<and>
     pm_path MHI_PM_DISABLE vs \<and> pm_state c' = last (MHI_PM_DISABLE # vs))"

lemma restartsI:
  assumes "along c d" "pm_state v = MHI_PM_DISABLE" "pm_history v = pm_history d @ [MHI_PM_DISABLE]" "along v c'"
  shows "restarts c c'"
proof -
  obtain us where us: "pm_history d = pm_history c @ us" "pm_path (pm_state c) us" using assms(1) by (auto simp: along_def)
  obtain vs where vs: "pm_history c' = pm_history v @ vs" "pm_path (pm_state v) vs" "pm_state c' = last (pm_state v # vs)"
    using assms(4) unfolding along_def by blast
  show ?thesis
    unfolding restarts_def using us vs assms(2,3) by (intro exI [of _ us] exI [of _ vs]) simp
qed

lemma restarts_along:
  assumes "restarts c d" "along d c'"
  shows "restarts c c'"
proof -
  obtain us vs where u: "pm_history d = pm_history c @ us @ MHI_PM_DISABLE # vs" "pm_path (pm_state c) us"
    "pm_path MHI_PM_DISABLE vs" "pm_state d = last (MHI_PM_DISABLE # vs)" using assms(1) unfolding restarts_def by blast
  obtain ws where w: "pm_history c' = pm_history d @ ws" "pm_path (pm_state d) ws" "pm_state c' = last (pm_state d # ws)"
    using assms(2) unfolding along_def by blast
  have "last (MHI_PM_DISABLE # vs @ ws) = pm_state c'" using u(4) w(3) by (cases ws) simp_all
  then show ?thesis
    unfolding restarts_def using u w by (intro exI [of _ us] exI [of _ "vs @ ws"]) (simp add: pm_path_append)
qed

lemma power_up_frame:
  assumes "mhi_async_power_up c = Some (ret, c')"
  shows "restarts c c' \<and> dev_wake c' \<in> {0, dev_wake c}"
proof -
  define d where "d = (if MHI_STATE_M0 \<le> mhi_get_mhi_state c
      then snd (wait_event (mhi_set_mhi_state c MHI_STATE_RESET)) else c)"
  have "dev_wake (mhi_set_mhi_state c MHI_STATE_RESET) = dev_wake c"
    by (rule wake.R_frame) simp
  then have d: "dev_wake d = dev_wake c" by (simp add: d_def wake.R_wait)
  have "along c (mhi_set_mhi_state c MHI_STATE_RESET)" by (rule along_frame) simp
  then have a: "along c d" using along_trans along_wait by (auto simp: d_def intro: along_frame)
  obtain v where v: "(if fst (power_up_ctxt v) \<noteq> 0 then power_up_ctxt v
      else power_up_bhi (snd (power_up_ctxt v))) = (ret, c')" "pm_state v = MHI_PM_DISABLE"
      "pm_history v = pm_history d @ [MHI_PM_DISABLE]" "dev_wake v = dev_wake d"
  proof -
    obtain r where r: "mhi_read_reg d (regs d) MHICFG = Inr r"
      using assms by (auto simp: mhi_async_power_up_def d_def [symmetric] Let_def split: sum.splits)
    define w where "w = mhi_write_reg d (regs d) MHICFG
      ((((r AND NOT 0xFF0000) OR push_bit 16 NUM_MHI_EVT_RINGS) AND NOT 0xFF000000) OR push_bit 24 NUM_MHI_HW_EVT_RINGS)"
    have "pm_frame w = pm_frame d" by (simp add: w_def)
    then have w: "pm_history w = pm_history d" "dev_wake w = dev_wake d" by (simp_all add: pm_frame_def)
    have "(if fst (power_up_ctxt ((set_pm_state MHI_PM_DISABLE w)\<lparr>dev_state := MHI_STATE_RESET\<rparr>)) \<noteq> 0
       then power_up_ctxt ((set_pm_state MHI_PM_DISABLE w)\<lparr>dev_state := MHI_STATE_RESET\<rparr>)
       else power_up_bhi (snd (power_up_ctxt ((set_pm_state MHI_PM_DISABLE w)\<lparr>dev_state := MHI_STATE_RESET\<rparr>)))) = (ret, c')"
      using assms r
      by (simp add: mhi_async_power_up_def d_def [symmetric] w_def Let_def split_beta split: if_splits)
    from that [OF this] w show thesis by simp
  qed
  let ?p = "snd (power_up_ctxt v)"
  have e: "pm_edge MHI_PM_DISABLE MHI_PM_POR" by (simp add: pm_edges)
  have "along v c'"
  proof (cases "fst (power_up_ctxt v) = 0 \<and> pm_history (snd (power_up_bhi ?p)) = pm_history ?p @ [MHI_PM_POR]")
    case True
    then show ?thesis
      using v(1,2) e power_up_ctxt_frame [of v] power_up_bhi_frame [of ?p]
      by (intro alongI [of _ _ "[MHI_PM_POR]"]) auto
  next
    case False
    then show ?thesis
      using v(1) power_up_ctxt_frame [of v] power_up_bhi_frame [of ?p]
      by (intro alongI [of _ _ "[]"]) (auto split: if_splits)
  qed
  then show ?thesis
    using restartsI [OF a v(2,3)] v(1,4) d power_up_ctxt_frame(3) [of v] power_up_bhi_frame [of ?p] by (auto split: if_splits)
qed

lemma sync_power_up_frame:
  assumes "mhi_sync_power_up c = Some (ret, c')"
  shows "restarts c c' \<and> dev_wake c' \<in> {0, dev_wake c}"
proof -
  obtain r c1 where c1: "mhi_async_power_up c = Some (r, c1)" "c' = c1 \<or> c' = snd (wait_event c1)"
    using assms by (auto simp: mhi_sync_power_up_def Let_def Option.bind_eq_Some_conv split: if_splits)
  then show ?thesis
    using power_up_frame [OF c1(1)] restarts_along [OF _ along_wait] wake.R_wait [of c1] by auto
qed

lemma pm_step_along:
  "pm_step c c' \<Longrightarrow> along c c' \<or> restarts c c' \<and> (\<exists>ret. mhi_async_power_up c = Some (ret, c') \<or> mhi_sync_power_up c = Some (ret, c'))"
proof (induction rule: pm_step.induct)
  case (irq c i) show ?case by (intro disjI1 along_irq)
next
  case (intvec c) show ?case by (intro disjI1 along.R_intvec)
next
  case (st_worker c) show ?case by (intro disjI1 along.R_st_worker)
next
  case (ready_worker c) show ?case by (intro disjI1 along.R_ready_worker)
next
  case (sys_err_worker c) show ?case by (intro disjI1 along.R_sys_err_worker)
next
  case (suspend c) show ?case by (intro disjI1 along.R_suspend)
next
  case (resume c) show ?case by (intro disjI1 along.R_resume)
next
  case (get_sync c) show ?case by (intro disjI1 along.R_get_sync)
next
  case (debugfs_reset c) show ?case by (intro disjI1 along.R_debugfs)
next
  case (force_rddm c) show ?case by (intro disjI1 along.R_force_rddm)
next
  case (power_down c g) show ?case by (intro disjI1 along.R_power_down)
next
  case (device_get c w) show ?case by (simp add: mhi_device_get_def along_frame)
next
  case (device_get_sync c w) show ?case
    using along.R_get_sync [of c] by (simp add: mhi_device_get_sync_def split_beta)
next
  case (device_put c w) show ?case by (simp add: mhi_device_put_def along_frame)
next
  case (async_power_up c ret c') then show ?case using power_up_frame by blast
next
  case (sync_power_up c ret c') then show ?case using sync_power_up_frame by blast
next
  case (environment c ws ms rs b) show ?case by (intro disjI1 alongI [of _ _ "[]"]) simp_all
qed

lemma pm_step_dev_wake: "pm_step c c' \<Longrightarrow> dev_wake c' \<in> {0, dev_wake c}"
proof (induction rule: pm_step.induct)
  case (irq c i) show ?case using run_irq_frame [of i c] by (auto simp: pm_frame_def)
next
  case (device_get c w) show ?case using wake.R_frame [of "mhi_assert_dev_wake c" c] by (simp add: mhi_device_get_def)
next
  case (device_get_sync c w) show ?case by (simp add: mhi_device_get_sync_def split_beta wake.R_get_sync)
next
  case (async_power_up c ret c') then show ?case using power_up_frame by blast
next
  case (sync_power_up c ret c') then show ?case using sync_power_up_frame by blast
qed (simp_all add: wake.R_intvec wake.R_st_worker wake.R_ready_worker wake.R_sys_err_worker wake.R_suspend
    wake.R_resume wake.R_get_sync wake.R_debugfs wake.R_force_rddm wake.R_power_down mhi_device_put_def
    mhi_deassert_dev_wake_def)

lemma restarts_valid: "restarts c c' \<Longrightarrow> pm_valid (pm_state c')"
  unfolding restarts_def using pm_path_valid pm_valid_states(1) by metis

lemma reachable_pm:
  assumes "pm_reachable c"
  shows "pm_valid (pm_state c) \<and> dev_wake c = 0"
  using assms
proof (induction rule: pm_reachable.induct)
  case (step c c')
  then show ?case using pm_step_along [OF step(2)] along_valid restarts_valid pm_step_dev_wake [OF step(2)] by auto
qed simp

section \<open>Powering down\<close>

lemma pm_edge_to_shutdown:
  assumes "pm_valid s"
  shows "pm_edge s MHI_PM_SHUTDOWN_PROCESS \<longleftrightarrow> s \<noteq> MHI_PM_DISABLE \<and> s \<noteq> MHI_PM_SHUTDOWN_PROCESS"
  using assms unfolding pm_valid_iff by (elim insertE emptyE) (simp_all add: pm_edges)

lemma finish_shutdown:
  assumes "pm_state c \<in> {MHI_PM_SHUTDOWN_PROCESS, MHI_PM_LD_ERR_FATAL_DETECT}"
  shows "pm_state (finish_disable c MHI_PM_SHUTDOWN_PROCESS) \<in> {MHI_PM_DISABLE, MHI_PM_LD_ERR_FATAL_DETECT}"
    and "shutting_down c \<Longrightarrow> pm_state (finish_disable c MHI_PM_SHUTDOWN_PROCESS) = MHI_PM_DISABLE"
    and "\<exists>evs. mhi_event_array (finish_disable c MHI_PM_SHUTDOWN_PROCESS) = map reset_ev_ring evs"
proof -
  let ?f = "flush_workers (emit Destroy_devices (emit Tasklet_kill c))"
  let ?g = "emit Destroy_timesync (?f\<lparr>primary_cmd := reset_cmd_ring (primary_cmd ?f),
              mhi_event_array := map reset_ev_ring (mhi_event_array ?f)\<rparr>)"
  have fin: "finish_disable c MHI_PM_SHUTDOWN_PROCESS = snd (mhi_tryset_pm_state ?g MHI_PM_DISABLE)"
    by (simp add: finish_disable_def Let_def)
  have g: "pm_state ?g = pm_state ?f" "mhi_event_array ?g = map reset_ev_ring (mhi_event_array ?f)"
    by (simp_all add: emit_def)
  have "pm_state ?f \<in> {MHI_PM_SHUTDOWN_PROCESS, MHI_PM_LD_ERR_FATAL_DETECT}"
    using down.R_from_frame [OF down.R_flush, of "emit Destroy_devices (emit Tasklet_kill c)" c] assms by auto
  then show "pm_state (finish_disable c MHI_PM_SHUTDOWN_PROCESS) \<in> {MHI_PM_DISABLE, MHI_PM_LD_ERR_FATAL_DETECT}"
    unfolding fin using g(1) by (auto simp: tryset_valid)
  show "pm_state (finish_disable c MHI_PM_SHUTDOWN_PROCESS) = MHI_PM_DISABLE" if "shutting_down c"
  proof -
    have "shutting_down ?f"
      using quiet.R_from_frame [OF quiet.R_flush, of "emit Destroy_devices (emit Tasklet_kill c)" c] that by simp
    then show ?thesis unfolding fin using g(1) by (simp add: shutting_down_def tryset_valid)
  qed
  show "\<exists>evs. mhi_event_array (finish_disable c MHI_PM_SHUTDOWN_PROCESS) = map reset_ev_ring evs"
    unfolding fin by (rule exI [of _ "mhi_event_array ?f"]) (simp add: mhi_tryset_pm_state_def Let_def g(2))
qed

lemma trigger_reset_shutdown: "fst (trigger_reset c MHI_PM_SHUTDOWN_PROCESS)"
  by (simp add: trigger_reset_def Let_def split_beta)

lemma shutdown_entry:
  assumes "pm_edge (pm_state c) MHI_PM_SHUTDOWN_PROCESS"
  obtains d where "mhi_pm_disable_transition c MHI_PM_SHUTDOWN_PROCESS = finish_disable d MHI_PM_SHUTDOWN_PROCESS"
    "pm_state d \<in> {MHI_PM_SHUTDOWN_PROCESS, MHI_PM_LD_ERR_FATAL_DETECT}"
    "link_stays c \<Longrightarrow> shutting_down d"
proof -
  define u where "u = snd (disable_entry c MHI_PM_SHUTDOWN_PROCESS)"
  define r where "r = snd (trigger_reset u MHI_PM_SHUTDOWN_PROCESS)"
  define d where "d = (if MHI_REG_ACCESS_VALID (pm_state c) then r else u)"
  have v: "pm_valid (pm_state c)" using assms unfolding pm_edge_def pm_valid_def by (metis imageI)
  have "mhi_tryset_pm_state c MHI_PM_SHUTDOWN_PROCESS = (MHI_PM_SHUTDOWN_PROCESS, set_pm_state MHI_PM_SHUTDOWN_PROCESS c)"
    using assms v by (simp add: tryset_valid)
  then have entry: "fst (disable_entry c MHI_PM_SHUTDOWN_PROCESS) = MHI_PM_SHUTDOWN_PROCESS"
      and uw: "pm_state u = MHI_PM_SHUTDOWN_PROCESS" "waits u = waits c"
    by (simp_all add: u_def disable_entry_def emit_def)
  have eq: "mhi_pm_disable_transition c MHI_PM_SHUTDOWN_PROCESS = finish_disable d MHI_PM_SHUTDOWN_PROCESS"
    by (simp add: mhi_pm_disable_transition_def Let_def split_beta entry u_def [symmetric] d_def r_def
        trigger_reset_shutdown)
  have in_d: "pm_state d \<in> {MHI_PM_SHUTDOWN_PROCESS, MHI_PM_LD_ERR_FATAL_DETECT}"
    using down.R_trigger_reset [of u] uw(1) by (simp add: d_def r_def)
  have "shutting_down d" if "link_stays c"
  proof -
    have "shutting_down u" using that uw by (simp add: shutting_down_def link_stays_def)
    then show ?thesis using quiet.R_trigger_reset [of u] by (simp add: d_def r_def)
  qed
  with eq in_d show thesis by (rule that)
qed

section \<open>Suspend and resume\<close>

text \<open>Registers changing under the driver do not touch its state.\<close>

definition register_noise :: "mhi_interrupt list \<Rightarrow> bool" where
  "register_noise is \<longleftrightarrow> (\<forall>i \<in> set is. \<exists>a v. i = Set_reg a v)"

text \<open>The buffers the clients still wait for, per channel.\<close>

definition chan_pendings :: "mhi_controller \<Rightarrow> mhi_buf_info list list" where
  "chan_pendings c = map pending (mhi_chan_array c)"

definition driver_view ::
  "mhi_controller \<Rightarrow> u32 \<times> u32 \<times> int \<times> (mhi_interrupt list \<times> mhi_interrupt list) list \<times> mhi_buf_info list list" where
  "driver_view c = (pm_state c, dev_state c, dev_wake c, waits c, chan_pendings c)"

lemma driver_view_update [simp]:
  "driver_view (c\<lparr>mmio := m\<rparr>) = driver_view c" "driver_view (c\<lparr>effects := es\<rparr>) = driver_view c"
  "driver_view (c\<lparr>M0_count := n\<rparr>) = driver_view c" "driver_view (c\<lparr>M3_count := n\<rparr>) = driver_view c"
  "driver_view (c\<lparr>mhi_event_array := evs\<rparr>) = driver_view c" "driver_view (c\<lparr>primary_cmd := cmd\<rparr>) = driver_view c"
  by (simp_all add: driver_view_def chan_pendings_def)

lemma driver_view_emit [simp]: "driver_view (emit e c) = driver_view c"
  by (simp add: emit_def)

lemma driver_view_registers [simp]:
  "driver_view (mhi_write_reg c base off v) = driver_view c"
  "driver_view (mhi_write_reg_field c base off m sh v) = driver_view c"
  "driver_view (mhi_write_db c a w) = driver_view c"
  "driver_view (mhi_set_mhi_state c s) = driver_view c"
  "driver_view (mhi_assert_dev_wake c) = driver_view c"
  "driver_view (mhi_deassert_dev_wake c) = driver_view c"
  by (simp_all add: mhi_write_reg_def mhi_write_reg_field_def mhi_write_db_def mhi_set_mhi_state_def
      mhi_assert_dev_wake_def mhi_deassert_dev_wake_def split: sum.split)

lemma driver_view_doorbells [simp]:
  "driver_view (fst (run_process_db c cfg a w)) = driver_view c"
  "driver_view (fst (mhi_ring_er_db c ev)) = driver_view c"
  "driver_view (fst (mhi_ring_cmd_db c cmd)) = driver_view c"
  "driver_view (fst (mhi_ring_chan_db c ch)) = driver_view c"
  by (simp_all add: run_process_db_def mhi_ring_er_db_def mhi_ring_cmd_db_def mhi_ring_chan_db_def
      split_beta Let_def split: process_db_fn.split)

lemma driver_view_er_db [simp]: "driver_view (fst (ring_all_er_db c evs)) = driver_view c"
  by (induction evs arbitrary: c) (simp_all add: split_beta Let_def)

lemma driver_view_chan_db [simp]: "driver_view (fst (ring_all_chan_db c chs)) = driver_view c"
  by (induction chs arbitrary: c) (simp_all add: split_beta Let_def)

lemma driver_view_notify [simp]: "driver_view (notify_lpm cb c) = driver_view c"
proof -
  have "driver_view (fold f xs c) = driver_view c" if "\<And>x c. driver_view (f x c) = driver_view c" for f and xs :: "nat list" and c
    by (induction xs arbitrary: c) (simp_all add: that)
  then show ?thesis by (simp add: notify_lpm_def)
qed

text \<open>Ringing the doorbells of all channels does not touch their buffers.\<close>

lemma pending_db:
  "pending (ch\<lparr>ch_db_cfg := cfg\<rparr>) = pending ch" "pending (ch\<lparr>tre_ring := r\<rparr>) = pending ch"
  by (simp_all add: pending_def buf_at_def [abs_def])

lemma pending_ring_chan_db: "pending (snd (mhi_ring_chan_db c ch)) = pending ch"
  by (simp add: mhi_ring_chan_db_def Let_def split_beta pending_db)

lemma ring_all_chan_db_pending: "map pending (snd (ring_all_chan_db c chs)) = map pending chs"
  by (induction chs arbitrary: c) (simp_all add: split_beta Let_def pending_ring_chan_db pending_db)

lemma run_irqs_append: "run_irqs (xs @ ys) c = run_irqs ys (run_irqs xs c)"
  by (simp add: run_irqs_def)

lemma noise_keeps: "register_noise is \<Longrightarrow> driver_view (run_irqs is c) = driver_view c"
  by (induction "is" arbitrary: c) (auto simp: register_noise_def run_irq_def)

lemma M3_arrives:
  assumes "driver_view c = (MHI_PM_M3_ENTER, s, w, ws, ps)"
  shows "driver_view (run_irq Ctrl_M3 c) = (MHI_PM_M3, MHI_STATE_M3, w, ws, ps)"
proof -
  have "pm_edge MHI_PM_M3_ENTER MHI_PM_M3" by (simp add: pm_edges)
  then show ?thesis
    using assms
    by (simp add: run_irq_def mhi_pm_m3_transition_def Let_def split_beta tryset_valid driver_view_def
        chan_pendings_def emit_def)
qed

lemma M0_arrives:
  assumes "driver_view c = (MHI_PM_M3_EXIT, s, w, ws, ps)"
  shows "driver_view (run_irq Ctrl_M0 c) = (MHI_PM_M0, MHI_STATE_M0, w, ws, ps)"
proof -
  have e: "pm_edge MHI_PM_M3_EXIT MHI_PM_M0" by (simp add: pm_edges)
  define d where "d = mhi_assert_dev_wake ((set_pm_state MHI_PM_M0 (c\<lparr>dev_state := MHI_STATE_M0\<rparr>))\<lparr>M0_count := M0_count c + 1\<rparr>)"
  define f where "f = (if MHI_IN_MISSION_MODE (ee d)
     then let (c, evs) = ring_all_er_db d (mhi_event_array d);
              c = c\<lparr>mhi_event_array := evs\<rparr>;
              cmd = primary_cmd c;
              (c, cmd) = (if r_rp (cmd_ring cmd) \<noteq> r_wp (cmd_ring cmd) then mhi_ring_cmd_db c cmd else (c, cmd))
          in c\<lparr>primary_cmd := cmd\<rparr>
     else d)"
  have d: "driver_view d = (MHI_PM_M0, MHI_STATE_M0, w, ws, ps)"
    using assms unfolding d_def driver_view_registers by (simp add: driver_view_def chan_pendings_def)
  then have f: "driver_view f = (MHI_PM_M0, MHI_STATE_M0, w, ws, ps)"
    by (simp add: f_def Let_def split_beta)
  have "pm_state c = MHI_PM_M3_EXIT" using assms by (simp add: driver_view_def)
  then have "snd (mhi_pm_m0_transition c) = emit Wake_up_state_event (mhi_deassert_dev_wake
      ((fst (ring_all_chan_db f (mhi_chan_array f)))\<lparr>mhi_chan_array := snd (ring_all_chan_db f (mhi_chan_array f))\<rparr>))"
    using e by (simp add: mhi_pm_m0_transition_def Let_def split_beta tryset_valid d_def f_def)
  moreover have "driver_view (g\<lparr>mhi_chan_array := snd (ring_all_chan_db f (mhi_chan_array f))\<rparr>) = driver_view f"
    if "driver_view g = driver_view f" for g
    using that by (simp add: driver_view_def chan_pendings_def ring_all_chan_db_pending)
  ultimately show ?thesis
    using f by (simp add: run_irq_def)
qed

lemma wait_event_view:
  assumes "driver_view c = (p, s, w, (b, a) # ws, ps)"
  obtains c0 where "wait_event c = (run_irqs b c0, run_irqs a (run_irqs b c0))" "driver_view c0 = (p, s, w, ws, ps)"
  using assms by (auto simp: wait_event_def Let_def driver_view_def chan_pendings_def intro!: that)

text \<open>A wait during which the registers change, one event of the device arrives, and nothing else.\<close>

lemma wait_for_event:
  assumes "driver_view c = (p, s, w, (b1 @ i # b2, a) # ws, ps)"
    and noise: "register_noise b1" "register_noise b2" "register_noise a"
    and event: "\<And>c. driver_view c = (p, s, w, ws, ps) \<Longrightarrow> driver_view (run_irq i c) = v"
  shows "driver_view (fst (wait_event c)) = v" "driver_view (snd (wait_event c)) = v"
proof -
  obtain c0 where c0: "wait_event c = (run_irqs (b1 @ i # b2) c0, run_irqs a (run_irqs (b1 @ i # b2) c0))"
    "driver_view c0 = (p, s, w, ws, ps)"
    using wait_event_view [OF assms(1)] .
  have "driver_view (run_irq i (run_irqs b1 c0)) = v"
    by (rule event) (simp add: noise_keeps noise c0(2))
  then show "driver_view (fst (wait_event c)) = v" "driver_view (snd (wait_event c)) = v"
    by (simp_all add: c0(1) run_irqs_append noise_keeps noise)
qed

lemma wait_in_peace:
  assumes "driver_view c = (p, s, w, (b, a) # ws, ps)" "register_noise b" "register_noise a"
  shows "driver_view (fst (wait_event c)) = (p, s, w, ws, ps)" "driver_view (snd (wait_event c)) = (p, s, w, ws, ps)"
proof -
  obtain c0 where "wait_event c = (run_irqs b c0, run_irqs a (run_irqs b c0))" "driver_view c0 = (p, s, w, ws, ps)"
    using wait_event_view [OF assms(1)] .
  then show "driver_view (fst (wait_event c)) = (p, s, w, ws, ps)" "driver_view (snd (wait_event c)) = (p, s, w, ws, ps)"
    by (simp_all add: noise_keeps assms)
qed

lemma not_error [simp]:
  "\<not> MHI_PM_IN_ERROR_STATE MHI_PM_M3" "\<not> MHI_PM_IN_ERROR_STATE MHI_PM_M3_ENTER"
  "\<not> MHI_PM_IN_ERROR_STATE MHI_PM_M3_EXIT"
  by (simp_all add: pm_error_iff)

lemma driver_view_tryset:
  assumes "driver_view c = (p, s, w, ws, ps)" "pm_edge p t" "pm_valid p"
  shows "mhi_tryset_pm_state c t = (t, set_pm_state t c)" "driver_view (set_pm_state t c) = (t, s, w, ws, ps)"
  using assms by (auto simp: tryset_valid driver_view_def chan_pendings_def pm_edge_def)

lemma suspend_M3:
  assumes "driver_view c = (MHI_PM_M0, MHI_STATE_M0, 0, (b1, a1) # (b2 @ Ctrl_M3 # b3, a2) # ws, ps)"
    and "register_noise b1" "register_noise a1" "register_noise b2" "register_noise b3" "register_noise a2"
  shows "fst (mhi_pm_suspend c) = 0"
    "driver_view (snd (mhi_pm_suspend c)) = (MHI_PM_M3, MHI_STATE_M3, 0, ws, ps)"
proof -
  have c: "pm_state c = MHI_PM_M0" "dev_wake c = 0" using assms(1) by (simp_all add: driver_view_def)
  define v where "v = wait_event (mhi_assert_dev_wake c)"
  have v: "driver_view (fst v) = (MHI_PM_M0, MHI_STATE_M0, 0, (b2 @ Ctrl_M3 # b3, a2) # ws, ps)"
    "driver_view (snd v) = (MHI_PM_M0, MHI_STATE_M0, 0, (b2 @ Ctrl_M3 # b3, a2) # ws, ps)"
    unfolding v_def using wait_in_peace [OF _ assms(2,3)] assms(1) by simp_all
  have e: "pm_edge MHI_PM_M0 MHI_PM_M3_ENTER" by (simp add: pm_edges)
  note t = driver_view_tryset [OF v(2) e, simplified]
  define w where "w = wait_event (mhi_deassert_dev_wake (mhi_set_mhi_state (set_pm_state MHI_PM_M3_ENTER (snd v)) MHI_STATE_M3))"
  have w: "driver_view (fst w) = (MHI_PM_M3, MHI_STATE_M3, 0, ws, ps)"
    "driver_view (snd w) = (MHI_PM_M3, MHI_STATE_M3, 0, ws, ps)"
    unfolding w_def using wait_for_event [OF _ assms(4-6) M3_arrives] t(2) by simp_all
  have "mhi_pm_suspend c = (0, notify_lpm MHI_CB_LPM_ENTER (snd w))"
    using v w t(1) c
    by (simp add: mhi_pm_suspend_def v_def [symmetric] w_def [symmetric, unfolded set_pm_state_def] Let_def split_beta driver_view_def)
  then show "fst (mhi_pm_suspend c) = 0"
    "driver_view (snd (mhi_pm_suspend c)) = (MHI_PM_M3, MHI_STATE_M3, 0, ws, ps)"
    using w by simp_all
qed

lemma resume_M0:
  assumes "driver_view c = (MHI_PM_M3, MHI_STATE_M3, 0, (b1 @ Ctrl_M0 # b2, a) # ws, ps)"
    and "register_noise b1" "register_noise b2" "register_noise a"
  shows "fst (mhi_pm_resume c) = 0"
    "driver_view (snd (mhi_pm_resume c)) = (MHI_PM_M0, MHI_STATE_M0, 0, ws, ps)"
proof -
  have c: "pm_state c = MHI_PM_M3" using assms(1) by (simp add: driver_view_def)
  have e: "pm_edge MHI_PM_M3 MHI_PM_M3_EXIT" by (simp add: pm_edges)
  define n where "n = notify_lpm MHI_CB_LPM_EXIT c"
  have "driver_view n = driver_view c" by (simp add: n_def)
  note t = driver_view_tryset [OF this [unfolded assms(1)] e, simplified]
  define w where "w = wait_event (mhi_set_mhi_state (mhi_assert_dev_wake (set_pm_state MHI_PM_M3_EXIT n)) MHI_STATE_M0)"
  have w: "driver_view (fst w) = (MHI_PM_M0, MHI_STATE_M0, 0, ws, ps)"
    "driver_view (snd w) = (MHI_PM_M0, MHI_STATE_M0, 0, ws, ps)"
    unfolding w_def using wait_for_event [OF _ assms(2-4) M0_arrives] t(2) by simp_all
  have "mhi_pm_resume c = (0, mhi_deassert_dev_wake (snd w))"
    using w t(1) c
    by (simp add: mhi_pm_resume_def n_def [symmetric] w_def [symmetric, unfolded set_pm_state_def] Let_def split_beta driver_view_def
        mhi_deassert_dev_wake_def)
  then show "fst (mhi_pm_resume c) = 0"
    "driver_view (snd (mhi_pm_resume c)) = (MHI_PM_M0, MHI_STATE_M0, 0, ws, ps)"
    using w by simp_all
qed

section \<open>Properties\<close>

text \<open>The state function follows the table: a requested state is entered exactly when the table has
  the edge, and otherwise the controller is as it was and the caller sees the old state.\<close>

theorem tryset_follows_table:
  assumes "pm_valid (pm_state c)" "pm_valid state"
  shows "mhi_tryset_pm_state c state =
    (if pm_edge (pm_state c) state then (state, set_pm_state state c) else (pm_state c, c))"
  using tryset_valid [OF assms] .

text \<open>C10. The detailed power management refines the abstract machine of the table: whatever interrupt,
  worker, call of a client, suspend, resume, power down or power up runs, with whatever interrupts
  during its waits, every single assignment of \<open>pm_state\<close> it makes is an edge of the table from the
  state before it. The one exception is the forced \<open>MHI_PM_DISABLE\<close> of a power up, from where the table
  is followed again.\<close>

theorem pm_refines_table:
  assumes "pm_step c c'"
  shows "\<exists>ts. pm_history c' = pm_history c @ ts \<and> pm_state c' = last (pm_state c # ts) \<and>
    (pm_path (pm_state c) ts \<or>
     (\<exists>us vs. ts = us @ MHI_PM_DISABLE # vs \<and> pm_path (pm_state c) us \<and> pm_path MHI_PM_DISABLE vs \<and>
        (\<exists>ret. mhi_async_power_up c = Some (ret, c') \<or> mhi_sync_power_up c = Some (ret, c'))))"
  using pm_step_along [OF assms]
proof
  assume "along c c'"
  then show ?thesis unfolding along_def by blast
next
  assume r: "restarts c c' \<and> (\<exists>ret. mhi_async_power_up c = Some (ret, c') \<or> mhi_sync_power_up c = Some (ret, c'))"
  then obtain us vs where "pm_history c' = pm_history c @ us @ MHI_PM_DISABLE # vs" "pm_path (pm_state c) us"
    "pm_path MHI_PM_DISABLE vs" "pm_state c' = last (MHI_PM_DISABLE # vs)" unfolding restarts_def by blast
  with r show ?thesis
    by (intro exI [of _ "us @ MHI_PM_DISABLE # vs"] conjI disjI2 exI [of _ us] exI [of _ vs]) auto
qed


text \<open>An error is sticky: whatever interrupts follow it, the state stays an error state until a
  worker or a power cycle handles it, and meanwhile no transfer, suspend or resume is accepted.\<close>

theorem error_is_sticky:
  assumes "pm_valid (pm_state c)" "MHI_PM_IN_ERROR_STATE (pm_state c)"
  shows "MHI_PM_IN_ERROR_STATE (pm_state (run_irqs is c)) \<and>
    mhi_queue_buf (run_irqs is c) ch buf len flags = Some (- EIO, run_irqs is c, ch) \<and>
    fst (mhi_pm_suspend (run_irqs is c)) = - EIO \<and> fst (mhi_pm_resume (run_irqs is c)) = - EIO"
proof -
  have step: "pm_valid t \<and> MHI_PM_IN_ERROR_STATE t"
    if "pm_valid s" "MHI_PM_IN_ERROR_STATE s" "pm_edge s t" "irq_target i = Some t" for s t i
  proof -
    have t: "pm_valid t" using that(3) by (simp add: pm_edge_def)
    have "s \<in> {MHI_PM_FW_DL_ERR, MHI_PM_SYS_ERR_DETECT, MHI_PM_SYS_ERR_PROCESS, MHI_PM_SHUTDOWN_PROCESS,
      MHI_PM_LD_ERR_FATAL_DETECT}" using that(1,2) pm_error_iff by blast
    moreover have "t \<noteq> MHI_PM_POR" "t \<noteq> MHI_PM_DISABLE"
      using that(4) by (auto simp: irq_target_def split: mhi_interrupt.splits)
    ultimately show ?thesis
      using that(3) t by (elim insertE emptyE) (auto simp: pm_edges pm_error_iff)
  qed
  have "pm_valid (pm_state (run_irqs is c)) \<and> MHI_PM_IN_ERROR_STATE (pm_state (run_irqs is c))"
  proof (rule run_irqs_keeps [where P = "\<lambda>c. pm_valid (pm_state c) \<and> MHI_PM_IN_ERROR_STATE (pm_state c)"])
    fix i and d :: mhi_controller assume "pm_valid (pm_state d) \<and> MHI_PM_IN_ERROR_STATE (pm_state d)"
    then show "pm_valid (pm_state (run_irq i d)) \<and> MHI_PM_IN_ERROR_STATE (pm_state (run_irq i d))"
      using step [of "pm_state d"] by - (rule run_irq_cases, assumption, blast)
  qed (use assms in simp)
  moreover have "\<not> MHI_PM_IN_ERROR_STATE MHI_PM_DISABLE" by (simp add: pm_error_iff)
  ultimately show ?thesis by (auto simp: mhi_queue_buf_def mhi_pm_suspend_def mhi_pm_resume_def)
qed

text \<open>C32. A power down ends with the controller disabled and every event ring empty, whatever the
  device does meanwhile; only a link lost during the shutdown leaves it in the fatal state.\<close>

theorem power_down_disables:
  assumes "pm_valid (pm_state c)" "pm_state c \<noteq> MHI_PM_DISABLE" "pm_state c \<noteq> MHI_PM_SHUTDOWN_PROCESS"
  shows "pm_state (mhi_power_down c graceful) \<in> {MHI_PM_DISABLE, MHI_PM_LD_ERR_FATAL_DETECT} \<and>
    (link_stays c \<longrightarrow> pm_state (mhi_power_down c graceful) = MHI_PM_DISABLE) \<and>
    (\<forall>ev \<in> set (mhi_event_array (mhi_power_down c graceful)). \<not> offload_ev ev \<longrightarrow>
       r_rp (ev_ring ev) = r_base (ev_ring ev) \<and> r_wp (ev_ring ev) = r_base (ev_ring ev))"
proof -
  define d where "d = (if graceful then c else snd (mhi_tryset_pm_state c MHI_PM_LD_ERR_FATAL_DETECT))"
  have d: "pm_valid (pm_state d)" "pm_state d \<noteq> MHI_PM_DISABLE" "pm_state d \<noteq> MHI_PM_SHUTDOWN_PROCESS" "waits d = waits c"
    using assms by (simp_all add: d_def tryset_valid)
  then have "pm_edge (pm_state d) MHI_PM_SHUTDOWN_PROCESS" by (simp add: pm_edge_to_shutdown)
  then obtain f where f: "mhi_pm_disable_transition d MHI_PM_SHUTDOWN_PROCESS = finish_disable f MHI_PM_SHUTDOWN_PROCESS"
    "pm_state f \<in> {MHI_PM_SHUTDOWN_PROCESS, MHI_PM_LD_ERR_FATAL_DETECT}" "link_stays d \<Longrightarrow> shutting_down f"
    using shutdown_entry by blast
  have p: "pm_state (mhi_power_down c graceful) = pm_state (finish_disable f MHI_PM_SHUTDOWN_PROCESS)"
    "mhi_event_array (mhi_power_down c graceful) = mhi_event_array (finish_disable f MHI_PM_SHUTDOWN_PROCESS)"
    by (simp_all add: mhi_power_down_def Let_def d_def [symmetric] f(1) emit_def)
  have "link_stays d \<longleftrightarrow> link_stays c" using d(4) by (simp add: link_stays_def)
  then show ?thesis
    unfolding p using f(3) finish_shutdown(1,2) [OF f(2)] finish_shutdown(3) [OF f(2)]
    by (auto simp: reset_ev_ring_def Let_def)
qed

text \<open>C11. Suspend and resume are a round trip: when the device answers the request for M3 and later the
  request for M0, with any changes of the registers around the two events, both calls succeed, the
  controller is back in M0, and the buffers queued on every channel are still queued.\<close>

theorem suspend_resume_round_trip:
  assumes "pm_state c = MHI_PM_M0" "dev_state c = MHI_STATE_M0" "dev_wake c = 0"
    and "waits c = (b1, a1) # (b2 @ Ctrl_M3 # b3, a2) # (b4 @ Ctrl_M0 # b5, a3) # ws"
    and "list_all register_noise [b1, a1, b2, b3, a2, b4, b5, a3]"
  shows "\<exists>c1 c2. mhi_pm_suspend c = (0, c1) \<and> pm_state c1 = MHI_PM_M3 \<and>
    mhi_pm_resume c1 = (0, c2) \<and> pm_state c2 = MHI_PM_M0 \<and> dev_state c2 = MHI_STATE_M0 \<and>
    chan_pendings c2 = chan_pendings c"
proof -
  let ?c1 = "snd (mhi_pm_suspend c)"
  have v: "driver_view c = (MHI_PM_M0, MHI_STATE_M0, 0,
      (b1, a1) # (b2 @ Ctrl_M3 # b3, a2) # (b4 @ Ctrl_M0 # b5, a3) # ws, chan_pendings c)"
    using assms by (simp add: driver_view_def)
  have n: "register_noise b1" "register_noise a1" "register_noise b2" "register_noise b3" "register_noise a2"
    "register_noise b4" "register_noise b5" "register_noise a3"
    using assms(5) by simp_all
  note s = suspend_M3 [OF v n(1-5)]
  note r = resume_M0 [OF s(2) n(6-8)]
  show ?thesis
    by (rule exI [of _ ?c1], rule exI [of _ "snd (mhi_pm_resume ?c1)"])
      (use s r in \<open>simp add: prod_eq_iff driver_view_def\<close>)
qed

section \<open>Witnesses\<close>

lemma example_ctl_pm [simp]: "dev_wake example_ctl = 0" "waits example_ctl = []" "mhi_event_array example_ctl = []"
  by (simp_all add: example_ctl_def)

theorem tryset_follows_table_witness:
  "pm_valid (pm_state example_ctl) \<and> pm_valid MHI_PM_M3_ENTER \<and> pm_valid MHI_PM_M3 \<and>
   fst (mhi_tryset_pm_state example_ctl MHI_PM_M3_ENTER) = MHI_PM_M3_ENTER \<and>
   mhi_tryset_pm_state example_ctl MHI_PM_M3 = (MHI_PM_M0, example_ctl)"
  using tryset_follows_table [of example_ctl MHI_PM_M3_ENTER] tryset_follows_table [of example_ctl MHI_PM_M3]
  by (simp add: pm_edges)

theorem pm_refines_table_witness:
  "pm_history (run_irq Ctrl_M1 example_ctl) = [MHI_PM_M2] \<and> pm_path MHI_PM_M0 [MHI_PM_M2] \<and>
   (\<exists>ts. pm_history (run_irq Ctrl_M1 example_ctl) = pm_history example_ctl @ ts \<and>
      pm_state (run_irq Ctrl_M1 example_ctl) = last (pm_state example_ctl # ts))"
proof -
  have "pm_edge MHI_PM_M0 MHI_PM_M2" by (simp add: pm_edges)
  moreover from this have "pm_frame (run_irq Ctrl_M1 example_ctl) = (MHI_PM_M2, 0, [], [MHI_PM_M2])"
    by (simp add: run_irq_def pm_frame_m1 tryset_valid) (simp add: pm_frame_def example_ctl_def)
  moreover have "\<exists>ts. pm_history (run_irq Ctrl_M1 example_ctl) = pm_history example_ctl @ ts \<and>
      pm_state (run_irq Ctrl_M1 example_ctl) = last (pm_state example_ctl # ts)"
    using pm_refines_table [OF pm_step.irq [of example_ctl Ctrl_M1]] by blast
  ultimately show ?thesis by (simp add: pm_frame_def)
qed

lemma example_reachable: "pm_reachable (example_ctl\<lparr>pm_state := MHI_PM_DISABLE\<rparr>)"
  by (rule pm_reachable.probed) simp_all


theorem error_is_sticky_witness:
  "MHI_PM_IN_ERROR_STATE (pm_state (example_ctl\<lparr>pm_state := MHI_PM_SYS_ERR_DETECT\<rparr>)) \<and>
   MHI_PM_IN_ERROR_STATE (pm_state (run_irqs [Ctrl_M0, Ctrl_M3] (example_ctl\<lparr>pm_state := MHI_PM_SYS_ERR_DETECT\<rparr>)))"
  using error_is_sticky [of "example_ctl\<lparr>pm_state := MHI_PM_SYS_ERR_DETECT\<rparr>" "[Ctrl_M0, Ctrl_M3]"]
  by (simp add: pm_error_iff)

theorem power_down_disables_witness:
  "link_stays example_ctl \<and> pm_state (mhi_power_down example_ctl True) = MHI_PM_DISABLE"
  using power_down_disables [of example_ctl True] by (simp add: link_stays_def)

text \<open>A controller in M0 with two buffers queued on its only channel, whose device answers both requests.\<close>

definition example_suspend :: mhi_controller where
  "example_suspend = example_ctl\<lparr>mhi_chan_array := [example_chan 2],
     waits := [([], []), ([Set_reg 0x100048 0x500, Ctrl_M3], []), ([Ctrl_M0], [Set_reg 0x100048 0x200])]\<rparr>"

theorem suspend_resume_round_trip_witness:
  "list_all register_noise [[], [], [Set_reg 0x100048 0x500], [], [], [], [], [Set_reg 0x100048 0x200]] \<and>
   (\<exists>c1 c2. mhi_pm_suspend example_suspend = (0, c1) \<and> mhi_pm_resume c1 = (0, c2) \<and>
      chan_pendings c2 = [[example_buf 11, example_buf 22]])"
proof -
  have n: "list_all register_noise [[], [], [Set_reg 0x100048 0x500], [], [], [], [], [Set_reg 0x100048 0x200]]"
    by (simp add: register_noise_def)
  have p: "chan_pendings example_suspend = [[example_buf 11, example_buf 22]]"
    by (simp add: example_suspend_def chan_pendings_def example_pending)
  show ?thesis
    using suspend_resume_round_trip [OF _ _ _ _ n, of example_suspend "[]"] n p
    by (auto simp: example_suspend_def)
qed

end
