(* ===== verification/Sipc_Smsg.thy ===== *)
theory Sipc_Smsg
  imports Wwan_Prelude
begin

text \<open>
  The short messages of the Spreadtrum IPC (\<^verbatim>\<open>drivers/quectel-sprd-pcie/src/sipc/smsg.c\<close>): a ring of
  eight-byte messages in each direction in 4 KB of shared memory, and on top of it channels with a
  cache of received messages each, which are opened and closed by messages of both sides.

  A \<open>smsg_state\<close> is one link: its \<open>smsg_ipc\<close>, the bytes of the shared ring memory, and the scripts of
  its environment: what happens while a receiver sleeps (\<open>msg_waits\<close>: actions, whether a signal
  arrives, how much time is left), while a busy-wait loop runs (\<open>msg_spins\<close>), the results of taking
  a mutex, of the power manager and of allocations. Pointers into the ring memory are offsets.

  How several contexts use the same channel object at the same time is the subject of
  \<open>Sipc_Channel\<close>.
\<close>

section \<open>Constants and data\<close>

definition SMSG_TYPE_OPEN :: u8 where "SMSG_TYPE_OPEN = 1"
definition SMSG_TYPE_CLOSE :: u8 where "SMSG_TYPE_CLOSE = 2"
definition SMSG_TYPE_EVENT :: u8 where "SMSG_TYPE_EVENT = 4"
definition SMSG_TYPE_CMD :: u8 where "SMSG_TYPE_CMD = 5"
definition SMSG_TYPE_DONE :: u8 where "SMSG_TYPE_DONE = 6"
definition SMSG_TYPE_DIE :: u8 where "SMSG_TYPE_DIE = 12"
definition SMSG_TYPE_NR :: u8 where "SMSG_TYPE_NR = 17"

lemmas smsg_type_defs = SMSG_TYPE_OPEN_def SMSG_TYPE_CLOSE_def SMSG_TYPE_EVENT_def SMSG_TYPE_CMD_def
  SMSG_TYPE_DONE_def SMSG_TYPE_DIE_def SMSG_TYPE_NR_def

definition SMSG_OPEN_MAGIC :: u16 where "SMSG_OPEN_MAGIC = 0xBEEE"
definition SMSG_CLOSE_MAGIC :: u16 where "SMSG_CLOSE_MAGIC = 0xEDDD"

definition SMSG_CH_CTRL :: u8 where "SMSG_CH_CTRL = 0"
definition INVALID_CHANEL_INDEX :: u8 where "INVALID_CHANEL_INDEX = 255"
definition SIPC_ID_NR :: nat where "SIPC_ID_NR = 9"

record smsg =
  msg_channel :: u8
  msg_type :: u8
  msg_flag :: u16
  msg_value :: u32

definition smsg_set :: "u8 \<Rightarrow> u8 \<Rightarrow> u16 \<Rightarrow> u32 \<Rightarrow> smsg" where
  "smsg_set ch ty fl v = \<lparr>msg_channel = ch, msg_type = ty, msg_flag = fl, msg_value = v\<rparr>"

text \<open>The configured channels in the order of the table, and the index of a channel in it.\<close>

definition sipc_cfg :: "u8 list" where
  "sipc_cfg = [0, 1, 22, 100, 23, 4, 5, 21, 6, 7, 8, 9, 18, 19, 20, 24, 25, 26, 27, 28, 29, 30, 31, 10, 11, 12, 13,
     130, 14, 15, 16, 17, 131, 2, 3, 151, 41, 120, 40]"

definition SMSG_VALID_CH_NR :: nat where "SMSG_VALID_CH_NR = length sipc_cfg"

fun find_channel :: "u8 \<Rightarrow> u8 list \<Rightarrow> nat" where
  "find_channel c [] = 0"
| "find_channel c (d # ds) = (if d = c then 0 else Suc (find_channel c ds))"

definition channel2index :: "u8 \<Rightarrow> u8" where
  "channel2index c =
     (let j = find_channel c sipc_cfg in if j = SMSG_VALID_CH_NR then INVALID_CHANEL_INDEX else of_nat j)"

definition CHAN_STATE_UNUSED :: u8 where "CHAN_STATE_UNUSED = 0"
definition CHAN_STATE_CLIENT_OPENED :: u8 where "CHAN_STATE_CLIENT_OPENED = 1"
definition CHAN_STATE_HOST_OPENED :: u8 where "CHAN_STATE_HOST_OPENED = 2"
definition CHAN_STATE_OPENED :: u8 where "CHAN_STATE_OPENED = 3"
definition CHAN_STATE_FREE :: u8 where "CHAN_STATE_FREE = 4"

lemmas chan_state_defs = CHAN_STATE_UNUSED_def CHAN_STATE_CLIENT_OPENED_def CHAN_STATE_HOST_OPENED_def
  CHAN_STATE_OPENED_def CHAN_STATE_FREE_def

definition SMSG_CACHE_NR :: nat where "SMSG_CACHE_NR = 256"

definition SMSG_TXBUF_ADDR :: nat where "SMSG_TXBUF_ADDR = 0"
definition SMSG_TXBUF_SIZE :: nat where "SMSG_TXBUF_SIZE = 0x400"
definition SMSG_RXBUF_ADDR :: nat where "SMSG_RXBUF_ADDR = SMSG_TXBUF_SIZE"
definition SMSG_RXBUF_SIZE :: nat where "SMSG_RXBUF_SIZE = 0x400"
definition SMSG_RINGHDR :: nat where "SMSG_RINGHDR = SMSG_TXBUF_SIZE + SMSG_RXBUF_SIZE"
definition SMSG_TXBUF_RDPTR :: nat where "SMSG_TXBUF_RDPTR = SMSG_RINGHDR + 0"
definition SMSG_TXBUF_WRPTR :: nat where "SMSG_TXBUF_WRPTR = SMSG_RINGHDR + 4"
definition SMSG_RXBUF_RDPTR :: nat where "SMSG_RXBUF_RDPTR = SMSG_RINGHDR + 8"
definition SMSG_RXBUF_WRPTR :: nat where "SMSG_RXBUF_WRPTR = SMSG_RINGHDR + 12"
definition SZ_4K :: nat where "SZ_4K = 0x1000"

lemmas smsg_layout_defs = SMSG_TXBUF_ADDR_def SMSG_TXBUF_SIZE_def SMSG_RXBUF_ADDR_def SMSG_RXBUF_SIZE_def
  SMSG_RINGHDR_def SMSG_TXBUF_RDPTR_def SMSG_TXBUF_WRPTR_def SMSG_RXBUF_RDPTR_def SMSG_RXBUF_WRPTR_def SZ_4K_def

datatype sipc_base = SIPC_BASE_MBOX | SIPC_BASE_PCIE | SIPC_BASE_IPI
datatype smem_kind = SMEM_LOCAL | SMEM_PCIE

text \<open>The pointers of a channel are accessed as 32-bit words.\<close>

record smsg_channel =
  ch_wrptr :: u32
  ch_rdptr :: u32
  caches :: "smsg list"

text \<open>Address, number of messages and pointers of one of the two rings.\<close>

record smsg_buf =
  buf_addr :: nat
  buf_size :: u32
  buf_rdptr :: nat
  buf_wrptr :: nat

record smsg_ipc =
  ipc_client :: bool
  ipc_type :: sipc_base
  smem_type :: smem_kind
  smem_base :: u32
  dst_smem_base :: u32
  ring_base :: u32
  txbuf :: smsg_buf
  rxbuf :: smsg_buf
  channels :: "smsg_channel option list"
  busy :: "int list"
  states :: "u8 list"

datatype smsg_effect =
    Txirq_trigger smsg
  | Wake_receivers nat
  | Request_wakelock_period nat | Release_wakelock nat
  | Pms_release
  | Free_channel nat
  | Register_irq | Rxirq_clear | Unmap_ring | Free_ring | Unregister_irq

text \<open>What other contexts do: the peer sends a message, an interrupt arrives, another thread begins to
  close a channel, and another thread leaves a channel it had entered.\<close>

datatype smsg_action = Peer_sends smsg | Irq | Close_begins u8 | Leaves nat

record smsg_state =
  ipc :: smsg_ipc
  ring_mem :: "u8 list"
  debug_enable :: bool
  g_wakeup_flag :: u8
  msg_waits :: "(smsg_action list \<times> bool \<times> nat) list"
  msg_spins :: "smsg_action list list"
  msg_locks :: "bool list"
  msg_resources :: "int list"
  kzallocs :: "bool list"
  msg_effects :: "smsg_effect list"

section \<open>Fields of the link\<close>

definition msg_emit :: "smsg_effect \<Rightarrow> smsg_state \<Rightarrow> smsg_state" where
  "msg_emit e s = s\<lparr>msg_effects := msg_effects s @ [e]\<rparr>"

definition upd_ipc :: "(smsg_ipc \<Rightarrow> smsg_ipc) \<Rightarrow> smsg_state \<Rightarrow> smsg_state" where
  "upd_ipc f s = s\<lparr>ipc := f (ipc s)\<rparr>"

definition set_channel :: "nat \<Rightarrow> smsg_channel option \<Rightarrow> smsg_state \<Rightarrow> smsg_state option" where
  "set_channel i c s =
     (if i < length (channels (ipc s)) then Some (upd_ipc (\<lambda>p. p\<lparr>channels := (channels p)[i := c]\<rparr>) s) else None)"

definition set_chan_state :: "nat \<Rightarrow> u8 \<Rightarrow> smsg_state \<Rightarrow> smsg_state option" where
  "set_chan_state i st s =
     (if i < length (states (ipc s)) then Some (upd_ipc (\<lambda>p. p\<lparr>states := (states p)[i := st]\<rparr>) s) else None)"

definition atomic_set :: "nat \<Rightarrow> int \<Rightarrow> smsg_state \<Rightarrow> smsg_state option" where
  "atomic_set i v s =
     (if i < length (busy (ipc s)) then Some (upd_ipc (\<lambda>p. p\<lparr>busy := (busy p)[i := v]\<rparr>) s) else None)"

definition atomic_add :: "int \<Rightarrow> nat \<Rightarrow> smsg_state \<Rightarrow> smsg_state option" where
  "atomic_add d i s = do { v \<leftarrow> elem (busy (ipc s)) i; atomic_set i (v + d) s }"

definition request_resource :: "smsg_state \<Rightarrow> int \<times> smsg_state" where
  "request_resource s = (case msg_resources s of [] \<Rightarrow> (0, s) | v # vs \<Rightarrow> (v, s\<lparr>msg_resources := vs\<rparr>))"

definition lock_result :: "smsg_state \<Rightarrow> bool \<times> smsg_state" where
  "lock_result s = (case msg_locks s of [] \<Rightarrow> (True, s) | v # vs \<Rightarrow> (v, s\<lparr>msg_locks := vs\<rparr>))"

section \<open>The ring in shared memory\<close>

definition smsg_bl_cpoy_msg :: "u8 list \<Rightarrow> nat \<Rightarrow> smsg \<Rightarrow> u8 list option" where
  "smsg_bl_cpoy_msg b p m =
     do {
       b \<leftarrow> put8 b p (msg_channel m);
       b \<leftarrow> put8 b (p + 1) (msg_type m);
       b \<leftarrow> put16 b (p + 2) (msg_flag m);
       put32 b (p + 4) (msg_value m)
     }"

text \<open>The four loads of \<open>sipc_process_all_msg\<close>.\<close>

definition load_msg :: "u8 list \<Rightarrow> nat \<Rightarrow> smsg option" where
  "load_msg b p =
     do {
       c \<leftarrow> rd8 b p;
       t \<leftarrow> rd8 b (p + 1);
       f \<leftarrow> rd16 b (p + 2);
       v \<leftarrow> rd32 b (p + 4);
       Some (smsg_set c t f v)
     }"

text \<open>The store of \<open>smsg_send\<close> and \<open>smsg_senddie\<close>: \<^verbatim>\<open>-EBUSY\<close> when the ring is full. The difference of the pointers
  is compared as an unsigned number, since the size is unsigned.\<close>

definition ring_put :: "smsg_buf \<Rightarrow> u8 list \<Rightarrow> smsg \<Rightarrow> (int \<times> u8 list) option" where
  "ring_put r b m =
     do {
       wr \<leftarrow> rd32 b (buf_wrptr r);
       rd \<leftarrow> rd32 b (buf_rdptr r);
       if buf_size r \<le> wr - rd then Some (- EBUSY, b)
       else do {
         b \<leftarrow> smsg_bl_cpoy_msg b (unat (wr AND (buf_size r - 1)) * 8 + buf_addr r) m;
         b \<leftarrow> put32 b (buf_wrptr r) (wr + 1);
         Some (0, b)
       }
     }"

section \<open>Receiving\<close>

text \<open>The message goes into the cache of its channel. The number of the channel is not checked: the
  accesses to \<open>busy\<close>, \<open>channels\<close> and \<open>states\<close> are out of bounds for a channel that is not
  configured. A \<^verbatim>\<open>DIE\<close> message stops the system when \<open>debug_enable\<close> is set.\<close>

definition cache_put :: "smsg_channel \<Rightarrow> smsg \<Rightarrow> smsg_channel" where
  "cache_put c m =
     (if int SMSG_CACHE_NR \<le> sint (ch_wrptr c - ch_rdptr c) then c
      else c\<lparr>caches := (caches c)[unat (ch_wrptr c AND (of_nat SMSG_CACHE_NR - 1)) := m], ch_wrptr := ch_wrptr c + 1\<rparr>)"

definition smsg_msg_process :: "smsg_state \<Rightarrow> smsg \<Rightarrow> bool \<Rightarrow> smsg_state option" where
  "smsg_msg_process s m wake_lock =
     (let s = s\<lparr>g_wakeup_flag := 0\<rparr>; i = unat (channel2index (msg_channel m))
      in if msg_type m = SMSG_TYPE_DIE \<and> debug_enable s then None
         else do {
           s \<leftarrow> atomic_add 1 i s;
           s \<leftarrow> (if SMSG_TYPE_NR \<le> msg_type m then Some s
                  else do {
                    c \<leftarrow> elem (channels (ipc s)) i;
                    case c of
                      None \<Rightarrow> do {
                        st \<leftarrow> elem (states (ipc s)) i;
                        if st = CHAN_STATE_UNUSED \<and> msg_type m = SMSG_TYPE_OPEN \<and> msg_flag m = SMSG_OPEN_MAGIC
                        then set_chan_state i CHAN_STATE_CLIENT_OPENED s else Some s
                      }
                    | Some c \<Rightarrow> do {
                        s \<leftarrow> set_channel i (Some (cache_put c m)) s;
                        let s = msg_emit (Wake_receivers i) s;
                        Some (if wake_lock then msg_emit (Request_wakelock_period i) s else s)
                      }
                  });
           atomic_add (- 1) i s
         })"

text \<open>The loop over the messages in the ring.\<close>

partial_function (option) process_loop :: "smsg_state \<Rightarrow> smsg_state option" where
  "process_loop s =
     do {
       let r = rxbuf (ipc s);
       wr \<leftarrow> rd32 (ring_mem s) (buf_wrptr r);
       rd \<leftarrow> rd32 (ring_mem s) (buf_rdptr r);
       if wr = rd then Some s
       else do {
         m \<leftarrow> load_msg (ring_mem s) (unat (rd AND (buf_size r - 1)) * 8 + buf_addr r);
         s \<leftarrow> smsg_msg_process s m True;
         rd \<leftarrow> rd32 (ring_mem s) (buf_rdptr r);
         b \<leftarrow> put32 (ring_mem s) (buf_rdptr r) (rd + 1);
         process_loop (s\<lparr>ring_mem := b\<rparr>)
       }
     }"

text \<open>The result of the request is not used. Local memory needs no resource.\<close>

definition sipc_process_all_msg :: "smsg_state \<Rightarrow> smsg_state option" where
  "sipc_process_all_msg s =
     do {
       let s = (if smem_type (ipc s) = SMEM_LOCAL then s else snd (request_resource s));
       s \<leftarrow> process_loop s;
       Some (if smem_type (ipc s) = SMEM_LOCAL then s else msg_emit Pms_release s)
     }"

definition smsg_irq_handler :: "bool \<Rightarrow> smsg_state \<Rightarrow> smsg_state option" where
  "smsg_irq_handler status s = sipc_process_all_msg (if status then msg_emit Rxirq_clear s else s)"

section \<open>Sending\<close>

definition smsg_send :: "smsg_state \<Rightarrow> smsg \<Rightarrow> int \<Rightarrow> (int \<times> smsg_state) option" where
  "smsg_send s m timeout =
     (if channel2index (msg_channel m) = INVALID_CHANEL_INDEX then Some (- EINVAL, s)
      else
        let i = unat (channel2index (msg_channel m))
        in do {
          c \<leftarrow> elem (channels (ipc s)) i;
          if c = None then Some (- ENODEV, s)
          else do {
            st \<leftarrow> elem (states (ipc s)) i;
            if st \<noteq> CHAN_STATE_OPENED \<and> msg_type m \<noteq> SMSG_TYPE_OPEN \<and> msg_type m \<noteq> SMSG_TYPE_CLOSE
            then Some (- EINVAL, s)
            else
              let (rval, s) = request_resource s
              in if rval < 0 then Some (rval, s)
                 else if ring_base (ipc s) \<noteq> 0
                 then do {
                   (r, b) \<leftarrow> ring_put (txbuf (ipc s)) (ring_mem s) m;
                   Some (if r \<noteq> 0 then r else rval, msg_emit Pms_release (msg_emit (Txirq_trigger m) (s\<lparr>ring_mem := b\<rparr>)))
                 }
                 else if ipc_type (ipc s) \<noteq> SIPC_BASE_MBOX then Some (- EINVAL, msg_emit Pms_release s)
                 else Some (rval, msg_emit Pms_release (msg_emit (Txirq_trigger m) s))
          }
        })"

definition smsg_senddie :: "smsg_state \<Rightarrow> (int \<times> smsg_state) option" where
  "smsg_senddie s =
     (let m = smsg_set SMSG_CH_CTRL SMSG_TYPE_DIE 0 0
      in if ring_base (ipc s) = 0 then Some (0, s)
         else
           let (rval, s) = request_resource s
           in if rval < 0 then Some (rval, s)
              else do {
                (r, b) \<leftarrow> ring_put (txbuf (ipc s)) (ring_mem s) m;
                Some (if r \<noteq> 0 then r else rval, msg_emit Pms_release (msg_emit (Txirq_trigger m) (s\<lparr>ring_mem := b\<rparr>)))
              })"

section \<open>Other contexts\<close>

text \<open>The start of \<open>smsg_ch_close\<close>, up to its first busy-wait loop. The result of the send is not used.\<close>

definition close_begin :: "u8 \<Rightarrow> int \<Rightarrow> smsg_state \<Rightarrow> smsg_state option" where
  "close_begin channel timeout s =
     (let i = unat (channel2index channel)
      in do {
        (_, s) \<leftarrow> smsg_send s (smsg_set channel SMSG_TYPE_CLOSE SMSG_CLOSE_MAGIC 0) timeout;
        s \<leftarrow> set_chan_state i CHAN_STATE_FREE s;
        Some (msg_emit (Wake_receivers i) s)
      })"

text \<open>The peer sends into the ring this side receives from; when it is full its message is lost.\<close>

definition do_action :: "smsg_action \<Rightarrow> smsg_state \<Rightarrow> smsg_state option" where
  "do_action a s =
     (case a of
        Peer_sends m \<Rightarrow> do { (_, b) \<leftarrow> ring_put (rxbuf (ipc s)) (ring_mem s) m; Some (s\<lparr>ring_mem := b\<rparr>) }
      | Irq \<Rightarrow> smsg_irq_handler True s
      | Close_begins channel \<Rightarrow> close_begin channel (- 1) s
      | Leaves i \<Rightarrow> atomic_add (- 1) i s)"

fun do_actions :: "smsg_action list \<Rightarrow> smsg_state \<Rightarrow> smsg_state option" where
  "do_actions [] s = Some s"
| "do_actions (a # as) s = do { s \<leftarrow> do_action a s; do_actions as s }"

section \<open>Taking messages from a channel\<close>

text \<open>The condition of the sleeping receivers, and the two kinds of sleep on it. The condition is tested
  first; otherwise the actions of the script happen, and then the condition holds, a signal
  arrives, or the time is over. A sleep with a timeout returns the time that is left, which is
  at least 1.\<close>

definition recv_ready :: "smsg_state \<Rightarrow> nat \<Rightarrow> bool option" where
  "recv_ready s i =
     do {
       c \<leftarrow> elem (channels (ipc s)) i;
       c \<leftarrow> c;
       st \<leftarrow> elem (states (ipc s)) i;
       Some (ch_wrptr c \<noteq> ch_rdptr c \<or> st = CHAN_STATE_FREE)
     }"

definition recv_sleep :: "smsg_state \<Rightarrow> nat \<Rightarrow> int \<Rightarrow> (int \<times> smsg_state) option" where
  "recv_sleep s i timeout =
     do {
       ready \<leftarrow> recv_ready s i;
       if ready then Some (if timeout < 0 then 0 else timeout, s)
       else
         let (acts, signal, left) = (case msg_waits s of [] \<Rightarrow> ([], False, 0) | w # _ \<Rightarrow> w)
         in do {
           s \<leftarrow> do_actions acts (s\<lparr>msg_waits := tl (msg_waits s)\<rparr>);
           ready \<leftarrow> recv_ready s i;
           if ready then Some (if timeout < 0 then 0 else max 1 (min (int left) timeout), s)
           else if signal then Some (- ERESTARTSYS, s)
           else if timeout < 0 then None
           else Some (0, s)
         }
     }"

text \<open>The end of \<open>smsg_recv\<close>. Unlocking a mutex that is not held has no defined result.\<close>

definition recv_leave :: "bool \<Rightarrow> nat \<Rightarrow> smsg_state \<Rightarrow> smsg_state option" where
  "recv_leave held i s = (if held then atomic_add (- 1) i s else None)"

definition take_cached :: "smsg_state \<Rightarrow> nat \<Rightarrow> (smsg \<times> smsg_state) option" where
  "take_cached s i =
     do {
       c \<leftarrow> elem (channels (ipc s)) i;
       c \<leftarrow> c;
       m \<leftarrow> elem (caches c) (unat (ch_rdptr c AND (of_nat SMSG_CACHE_NR - 1)));
       s \<leftarrow> set_channel i (Some (c\<lparr>ch_rdptr := ch_rdptr c + 1\<rparr>)) s;
       Some (m, s)
     }"

definition smsg_recv :: "smsg_state \<Rightarrow> u8 \<Rightarrow> int \<Rightarrow> (int \<times> smsg option \<times> smsg_state) option" where
  "smsg_recv s channel timeout =
     (if channel2index channel = INVALID_CHANEL_INDEX then Some (- EINVAL, None, s)
      else
        let i = unat (channel2index channel)
        in do {
          s \<leftarrow> atomic_add 1 i s;
          c \<leftarrow> elem (channels (ipc s)) i;
          case c of
            None \<Rightarrow> do { s \<leftarrow> atomic_add (- 1) i s; Some (- ENODEV, None, s) }
          | Some c \<Rightarrow>
              let (held, s) = lock_result s
              in if timeout = 0 \<and> \<not> held
                 then do { s \<leftarrow> atomic_add (- 1) i s; Some (- EBUSY, None, s) }
                 else if timeout = 0 \<and> ch_wrptr c = ch_rdptr c
                 then do { s \<leftarrow> recv_leave held i s; Some (- ENODATA, None, s) }
                 else do {
                   (rval, s) \<leftarrow> (if timeout = 0 then Some (0, s) else recv_sleep s i timeout);
                   st \<leftarrow> elem (states (ipc s)) i;
                   let rval = (if timeout > 0 \<and> rval = 0 then - ETIME
                               else if timeout \<noteq> 0 \<and> 0 \<le> rval \<and> st = CHAN_STATE_FREE then - EIO else rval);
                   if rval < 0 then do { s \<leftarrow> recv_leave held i s; Some (rval, None, s) }
                   else do {
                     (m, s) \<leftarrow> take_cached s i;
                     s \<leftarrow> recv_leave held i s;
                     Some (rval, Some m, s)
                   }
                 }
        })"

section \<open>Opening and closing\<close>

definition smsg_ch_wake_unlock :: "smsg_state \<Rightarrow> u8 \<Rightarrow> (int \<times> smsg_state) option" where
  "smsg_ch_wake_unlock s channel =
     (if channel2index channel = INVALID_CHANEL_INDEX then Some (- EINVAL, s)
      else
        let i = unat (channel2index channel)
        in do {
          c \<leftarrow> elem (channels (ipc s)) i;
          Some (if c = None then (- ENODEV, s) else (0, msg_emit (Release_wakelock i) s))
        })"

text \<open>\<open>while (atomic_read(busy)) ;\<close>: others act, and unless the count is 0 then the loop never ends.\<close>

definition spin :: "nat \<Rightarrow> smsg_state \<Rightarrow> smsg_state option" where
  "spin i s =
     do {
       v \<leftarrow> elem (busy (ipc s)) i;
       if v = 0 then Some s
       else do {
         s \<leftarrow> do_actions (case msg_spins s of [] \<Rightarrow> [] | as # _ \<Rightarrow> as) (s\<lparr>msg_spins := tl (msg_spins s)\<rparr>);
         v \<leftarrow> elem (busy (ipc s)) i;
         if v = 0 then Some s else None
       }
     }"

definition new_channel :: smsg_channel where
  "new_channel = \<lparr>ch_wrptr = 0, ch_rdptr = 0, caches = replicate SMSG_CACHE_NR (smsg_set 0 0 0 0)\<rparr>"

definition open_failed :: "nat \<Rightarrow> int \<Rightarrow> smsg_state \<Rightarrow> (int \<times> smsg_state) option" where
  "open_failed i rval s =
     do {
       s \<leftarrow> set_chan_state i CHAN_STATE_UNUSED s;
       s \<leftarrow> set_channel i None s;
       s \<leftarrow> atomic_add (- 1) i s;
       s \<leftarrow> spin i s;
       Some (rval, msg_emit (Free_channel i) s)
     }"

definition open_done :: "nat \<Rightarrow> smsg_state \<Rightarrow> (int \<times> smsg_state) option" where
  "open_done i s =
     do {
       s \<leftarrow> set_chan_state i CHAN_STATE_OPENED s;
       s \<leftarrow> atomic_add (- 1) i s;
       Some (0, s)
     }"

text \<open>The loop that waits for the open message of the peer.\<close>

partial_function (option) open_wait :: "smsg_state \<Rightarrow> nat \<Rightarrow> u8 \<Rightarrow> int \<Rightarrow> (int \<times> smsg_state) option" where
  "open_wait s i channel timeout =
     do {
       (rval, m, s) \<leftarrow> smsg_recv s channel timeout;
       if rval \<noteq> 0 then open_failed i rval s
       else do {
         m \<leftarrow> m;
         if msg_type m = SMSG_TYPE_OPEN \<and> msg_flag m = SMSG_OPEN_MAGIC then open_done i s
         else open_wait s i channel timeout
       }
     }"

definition smsg_ch_open :: "smsg_state \<Rightarrow> u8 \<Rightarrow> int \<Rightarrow> (int \<times> smsg_state) option" where
  "smsg_ch_open s channel timeout =
     (if channel2index channel = INVALID_CHANEL_INDEX then Some (- EINVAL, s)
      else
        let i = unat (channel2index channel);
            (ok, s) = (case kzallocs s of [] \<Rightarrow> (True, s) | v # vs \<Rightarrow> (v, s\<lparr>kzallocs := vs\<rparr>))
        in if \<not> ok then Some (- ENOMEM, s)
           else do {
             s \<leftarrow> atomic_set i 1 s;
             s \<leftarrow> set_channel i (Some new_channel) s;
             (rval, s) \<leftarrow> smsg_send s (smsg_set channel SMSG_TYPE_OPEN SMSG_OPEN_MAGIC 0) timeout;
             if rval \<noteq> 0 then open_failed i rval s
             else do {
               st \<leftarrow> elem (states (ipc s)) i;
               if st = CHAN_STATE_CLIENT_OPENED then open_done i s
               else do {
                 s \<leftarrow> set_chan_state i CHAN_STATE_HOST_OPENED s;
                 open_wait s i channel timeout
               }
             }
           })"

definition smsg_ch_close :: "smsg_state \<Rightarrow> u8 \<Rightarrow> int \<Rightarrow> (int \<times> smsg_state) option" where
  "smsg_ch_close s channel timeout =
     (if channel2index channel = INVALID_CHANEL_INDEX then Some (- EINVAL, s)
      else
        let i = unat (channel2index channel)
        in do {
          c \<leftarrow> elem (channels (ipc s)) i;
          if c = None then Some (0, s)
          else do {
            s \<leftarrow> close_begin channel timeout s;
            s \<leftarrow> spin i s;
            c \<leftarrow> elem (channels (ipc s)) i;
            s \<leftarrow> (case c of
                     None \<Rightarrow> Some s
                   | Some _ \<Rightarrow> do {
                       s \<leftarrow> set_channel i None s;
                       s \<leftarrow> spin i s;
                       Some (msg_emit (Free_channel i) s)
                     });
            s \<leftarrow> set_chan_state i CHAN_STATE_UNUSED s;
            Some (0, s)
          }
        })"

section \<open>Setting up a link\<close>

text \<open>Results of \<^verbatim>\<open>smem_init\<close>, \<^verbatim>\<open>smem_alloc\<close> (0 when it fails) and \<^verbatim>\<open>shmem_ram_vmap_nocache\<close> (what the mapped memory
  holds, or nothing).\<close>

record smem_env =
  smem_init_result :: int
  ring_alloc :: u32
  ring_vmap :: "u8 list option"

definition host_txbuf :: smsg_buf where
  "host_txbuf = \<lparr>buf_addr = SMSG_TXBUF_ADDR, buf_size = of_nat (SMSG_TXBUF_SIZE div 8),
     buf_rdptr = SMSG_TXBUF_RDPTR, buf_wrptr = SMSG_TXBUF_WRPTR\<rparr>"

definition host_rxbuf :: smsg_buf where
  "host_rxbuf = \<lparr>buf_addr = SMSG_RXBUF_ADDR, buf_size = of_nat (SMSG_RXBUF_SIZE div 8),
     buf_rdptr = SMSG_RXBUF_RDPTR, buf_wrptr = SMSG_RXBUF_WRPTR\<rparr>"

text \<open>On a client the sending ring is the receiving ring of the host. An interrupt that was missed
  during boot is handled at once on an IPI link.\<close>

definition smsg_ipc_init_smsg_irq_callback :: "bool \<Rightarrow> smsg_state \<Rightarrow> smsg_state option" where
  "smsg_ipc_init_smsg_irq_callback status s =
     (case ipc_type (ipc s) of
        SIPC_BASE_PCIE \<Rightarrow> Some (msg_emit Register_irq s)
      | SIPC_BASE_IPI \<Rightarrow> map_option (msg_emit Register_irq) (smsg_irq_handler status s)
      | SIPC_BASE_MBOX \<Rightarrow> Some s)"

definition smsg_ipc_smem_init :: "smem_env \<Rightarrow> bool \<Rightarrow> smsg_state \<Rightarrow> (int \<times> smsg_state) option" where
  "smsg_ipc_smem_init env status s =
     (if smem_init_result env \<noteq> 0 then Some (smem_init_result env, s)
      else
        let s = (if ipc_type (ipc s) \<noteq> SIPC_BASE_MBOX then upd_ipc (\<lambda>p. p\<lparr>ring_base := ring_alloc env\<rparr>) s else s)
        in if ring_base (ipc s) = 0
           then map_option (Pair 0) (smsg_ipc_init_smsg_irq_callback status s)
           else case ring_vmap env of
             None \<Rightarrow> Some (- ENOMEM, upd_ipc (\<lambda>p. p\<lparr>ring_base := 0\<rparr>) (msg_emit Free_ring s))
           | Some content \<Rightarrow>
               let s = (if ipc_client (ipc s)
                        then upd_ipc (\<lambda>p. p\<lparr>txbuf := host_rxbuf, rxbuf := host_txbuf\<rparr>) (s\<lparr>ring_mem := content\<rparr>)
                        else upd_ipc (\<lambda>p. p\<lparr>txbuf := host_txbuf, rxbuf := host_rxbuf\<rparr>) (s\<lparr>ring_mem := replicate SZ_4K 0\<rparr>))
               in map_option (Pair 0) (smsg_ipc_init_smsg_irq_callback status s))"

text \<open>Memory behind PCIe is set up when the endpoint is ready. The result of the set-up is not used.\<close>

definition smsg_ipc_create :: "smem_env \<Rightarrow> bool \<Rightarrow> smsg_state \<Rightarrow> smsg_state option" where
  "smsg_ipc_create env status s =
     (if smem_type (ipc s) \<noteq> SMEM_PCIE then map_option snd (smsg_ipc_smem_init env status s) else Some s)"

definition smsg_ipc_destroy :: "smsg_state \<Rightarrow> smsg_state" where
  "smsg_ipc_destroy s = msg_emit Unregister_irq (msg_emit Free_ring (msg_emit Unmap_ring s))"

section \<open>The content of a ring\<close>

definition smsg_bytes :: "smsg \<Rightarrow> u8 list" where
  "smsg_bytes m = [msg_channel m] @ [msg_type m] @ le16 (msg_flag m) @ le32 (msg_value m)"

lemma length_smsg_bytes [simp]: "length (smsg_bytes m) = 8"
  by (simp add: smsg_bytes_def)

lemma smsg_bl_cpoy_msg_puts: "smsg_bl_cpoy_msg b p m = puts b p (smsg_bytes m)"
  by (simp add: smsg_bl_cpoy_msg_def smsg_bytes_def mem_simps puts_puts)

lemma load_smsg_bytes: "load_msg (pre @ smsg_bytes m @ suf) (length pre) = Some m"
proof -
  let ?f = "le16 (msg_flag m)" and ?v = "le32 (msg_value m)"
  have "rd8 (pre @ smsg_bytes m @ suf) (length pre) = Some (msg_channel m)"
    by (simp add: smsg_bytes_def rd8_append)
  moreover have "rd8 (pre @ smsg_bytes m @ suf) (length pre + 1) = Some (msg_type m)"
    using rd8_append [of "length pre + 1" "pre @ [msg_channel m]"] by (simp add: smsg_bytes_def)
  moreover have "rd16 (pre @ smsg_bytes m @ suf) (length pre + 2) = Some (msg_flag m)"
    using rd16_append [of "length pre + 2" "pre @ [msg_channel m, msg_type m]"] by (simp add: smsg_bytes_def)
  moreover have "rd32 (pre @ smsg_bytes m @ suf) (length pre + 4) = Some (msg_value m)"
    using rd32_append [of "length pre + 4" "pre @ [msg_channel m, msg_type m] @ ?f"] by (simp add: smsg_bytes_def)
  ultimately show ?thesis by (simp add: load_msg_def smsg_set_def)
qed

interpretation smsg_codec: fixed_codec smsg_bytes load_msg 8
  by unfold_locales (simp_all add: load_smsg_bytes)

text \<open>Reads depend on the bytes they cover only.\<close>

lemma rd32_cong:
  assumes "length b' = length b" "\<And>j. i \<le> j \<Longrightarrow> j < i + 4 \<Longrightarrow> b' ! j = b ! j"
  shows "rd32 b' i = rd32 b i"
  using assms by (simp add: rd32_def)

lemma load_msg_cong:
  assumes "length b' = length b" "\<And>j. p \<le> j \<Longrightarrow> j < p + 8 \<Longrightarrow> b' ! j = b ! j"
  shows "load_msg b' p = load_msg b p"
proof -
  have "rd8 b' p = rd8 b p" "rd8 b' (p + 1) = rd8 b (p + 1)" "rd16 b' (p + 2) = rd16 b (p + 2)"
    using assms by (simp_all add: rd8_def rd16_def)
  moreover have "rd32 b' (p + 4) = rd32 b (p + 4)" using assms by (intro rd32_cong) simp_all
  ultimately show ?thesis by (simp add: load_msg_def)
qed

lemma load_msg_ok: "p + 8 \<le> length b \<Longrightarrow> \<exists>m. load_msg b p = Some m"
  by (simp add: load_msg_def rd8_def rd16_def rd32_def)

definition buf_rd :: "smsg_buf \<Rightarrow> u8 list \<Rightarrow> u32" where
  "buf_rd r b = the (rd32 b (buf_rdptr r))"

definition buf_wr :: "smsg_buf \<Rightarrow> u8 list \<Rightarrow> u32" where
  "buf_wr r b = the (rd32 b (buf_wrptr r))"

definition slot_msg :: "smsg_buf \<Rightarrow> u8 list \<Rightarrow> nat \<Rightarrow> smsg" where
  "slot_msg r b k = the (load_msg b (k * 8 + buf_addr r))"

text \<open>The messages sent and not yet processed, oldest first.\<close>

definition pending :: "u8 list \<Rightarrow> smsg_buf \<Rightarrow> smsg list" where
  "pending b r = wrap_content (slot_msg r b) 128 (buf_rd r b) (buf_wr r b)"

definition apart :: "nat \<times> nat \<Rightarrow> nat \<times> nat \<Rightarrow> bool" where
  "apart x y \<longleftrightarrow> fst x + snd x \<le> fst y \<or> fst y + snd y \<le> fst x"

definition buf_regions :: "smsg_buf \<Rightarrow> (nat \<times> nat) list" where
  "buf_regions r = [(buf_addr r, 1024), (buf_rdptr r, 4), (buf_wrptr r, 4)]"

definition buf_ok :: "u8 list \<Rightarrow> smsg_buf \<Rightarrow> bool" where
  "buf_ok b r \<longleftrightarrow>
     buf_size r = 128 \<and> (\<forall>(p, n) \<in> set (buf_regions r). p + n \<le> length b) \<and>
     apart (buf_addr r, 1024) (buf_rdptr r, 4) \<and> apart (buf_addr r, 1024) (buf_wrptr r, 4) \<and>
     apart (buf_rdptr r, 4) (buf_wrptr r, 4) \<and> unat (buf_wr r b - buf_rd r b) \<le> 128"

definition disjoint_bufs :: "smsg_buf \<Rightarrow> smsg_buf \<Rightarrow> bool" where
  "disjoint_bufs r q \<longleftrightarrow> (\<forall>x \<in> set (buf_regions r). \<forall>y \<in> set (buf_regions q). apart x y)"

text \<open>Everything a ring needs lies in its regions.\<close>

definition same_bytes :: "u8 list \<Rightarrow> u8 list \<Rightarrow> nat \<times> nat \<Rightarrow> bool" where
  "same_bytes b b' x \<longleftrightarrow> (\<forall>j. fst x \<le> j \<and> j < fst x + snd x \<longrightarrow> b' ! j = b ! j)"

lemma pending_frame:
  assumes "length b' = length b" "\<forall>x \<in> set (buf_regions q). same_bytes b b' x" "buf_ok b q"
  shows "pending b' q = pending b q \<and> buf_ok b' q"
proof -
  have same: "\<And>j. buf_addr q \<le> j \<Longrightarrow> j < buf_addr q + 1024 \<Longrightarrow> b' ! j = b ! j"
    "\<And>j. buf_rdptr q \<le> j \<Longrightarrow> j < buf_rdptr q + 4 \<Longrightarrow> b' ! j = b ! j"
    "\<And>j. buf_wrptr q \<le> j \<Longrightarrow> j < buf_wrptr q + 4 \<Longrightarrow> b' ! j = b ! j"
    using assms(2) by (simp_all add: buf_regions_def same_bytes_def)
  have ptrs: "buf_rd q b' = buf_rd q b" "buf_wr q b' = buf_wr q b"
    unfolding buf_rd_def buf_wr_def
    using rd32_cong [OF assms(1) same(2)] rd32_cong [OF assms(1) same(3)] by simp_all
  moreover have "slot_msg q b' k = slot_msg q b k" if "k < 128" for k
    unfolding slot_msg_def using that load_msg_cong [OF assms(1) same(1), of "k * 8 + buf_addr q"] by simp
  ultimately show ?thesis
    using assms(1,3) wrap_content_cong [of 128 "slot_msg q b'" "slot_msg q b"] by (simp add: pending_def buf_ok_def)
qed

lemma puts_same_bytes:
  assumes "puts b i vs = Some b'" "apart (i, length vs) x" "fst x + snd x \<le> length b"
  shows "same_bytes b b' x"
  using assms puts_nth_other [OF assms(1)] by (auto simp: same_bytes_def apart_def)

lemma same_bytes_trans: "same_bytes b c x \<Longrightarrow> same_bytes c d x \<Longrightarrow> same_bytes b d x"
  by (simp add: same_bytes_def)

lemma and_127: "unat (w AND 127 :: u32) = unat w mod 128"
proof -
  have "(127 :: u32) = mask 7" by (simp add: mask_eq_exp_minus_1)
  then have "w AND 127 = take_bit 7 w" by (simp add: take_bit_eq_mask)
  then show ?thesis by (simp add: unat_mod take_bit_eq_mod)
qed

lemma buf_okD:
  assumes "buf_ok b r"
  shows "rd32 b (buf_rdptr r) = Some (buf_rd r b)" "rd32 b (buf_wrptr r) = Some (buf_wr r b)" "buf_size r = 128"
    "buf_addr r + 1024 \<le> length b" "buf_rdptr r + 4 \<le> length b" "buf_wrptr r + 4 \<le> length b"
    "unat (buf_wr r b - buf_rd r b) \<le> 128" "apart (buf_addr r, 1024) (buf_rdptr r, 4)"
    "apart (buf_addr r, 1024) (buf_wrptr r, 4)" "apart (buf_rdptr r, 4) (buf_wrptr r, 4)"
  using assms unfolding buf_ok_def by (simp_all add: buf_regions_def buf_rd_def buf_wr_def)
    (simp_all add: rd32_def)

lemma slot_region:
  "k < 128 \<Longrightarrow> apart (buf_addr r, 1024) x \<Longrightarrow> apart (k * 8 + buf_addr r, 8) x"
  by (auto simp: apart_def)

lemma apart_sym: "apart x y \<longleftrightarrow> apart y x"
  by (auto simp: apart_def)

lemma disjoint_bufsD:
  assumes "disjoint_bufs r q" "x \<in> set (buf_regions q)"
  shows "apart (buf_addr r, 1024) x" "apart (buf_rdptr r, 4) x" "apart (buf_wrptr r, 4) x"
  using assms by (simp_all add: disjoint_bufs_def buf_regions_def [of r])

text \<open>A message put into a ring that is not full is the last one pending; another ring is not touched.\<close>

lemma ring_put_full: "buf_ok b r \<Longrightarrow> length (pending b r) = 128 \<Longrightarrow> ring_put r b m = Some (- EBUSY, b)"
  by (simp add: ring_put_def buf_okD pending_def word_le_nat_alt)

lemma ring_put_ok:
  assumes "buf_ok b r" "length (pending b r) < 128"
  obtains b' where "ring_put r b m = Some (0, b')" "buf_ok b' r" "pending b' r = pending b r @ [m]" "length b' = length b"
    "\<forall>q. disjoint_bufs r q \<longrightarrow> buf_ok b q \<longrightarrow> pending b' q = pending b q \<and> buf_ok b' q"
proof -
  note ok = buf_okD [OF assms(1)]
  define wr rd where "wr = buf_wr r b" and "rd = buf_rd r b"
  define k where "k = unat wr mod 128"
  have k: "k < 128" by (simp add: k_def)
  have room: "unat (wr - rd) < 128" using assms(2) by (simp add: pending_def wr_def rd_def)
  let ?p = "k * 8 + buf_addr r"
  have slot: "apart (?p, 8) x" if "apart (buf_addr r, 1024) x" for x using slot_region [OF k that] .
  obtain b1 where b1: "puts b ?p (smsg_bytes m) = Some b1" using puts_ok [of ?p "smsg_bytes m" b] ok(4) k by auto
  have l1: "length b1 = length b" using b1 by (rule length_puts)
  obtain b' where b': "puts b1 (buf_wrptr r) (le32 (wr + 1)) = Some b'"
    using puts_ok [of "buf_wrptr r" "le32 (wr + 1)" b1] ok(6) l1 by auto
  have l': "length b' = length b" using length_puts [OF b'] l1 by simp
  have same: "same_bytes b b' x" if "apart (?p, 8) x" "apart (buf_wrptr r, 4) x" "fst x + snd x \<le> length b" for x
    using that same_bytes_trans [OF puts_same_bytes [OF b1] puts_same_bytes [OF b']] l1 by simp
  have rd': "buf_rd r b' = rd"
    using same [OF slot [OF ok(8)]] ok(10) ok(5) rd32_cong [OF l'] apart_sym
    by (simp add: buf_rd_def rd_def same_bytes_def)
  have wr': "buf_wr r b' = wr + 1" using c32.rd_after_put [OF b'] by (simp add: buf_wr_def)
  have here: "slot_msg r b' k = m"
  proof -
    have "same_bytes b1 b' (?p, 8)"
      using puts_same_bytes [OF b', of "(?p, 8)"] slot [OF ok(9)] apart_sym ok(4) l1 k by simp
    then have "load_msg b' ?p = load_msg b1 ?p" using l1 l' by (intro load_msg_cong) (simp_all add: same_bytes_def)
    then show ?thesis using smsg_codec.rd_after_put [OF b1] by (simp add: slot_msg_def)
  qed
  have others: "slot_msg r b' j = slot_msg r b j" if "j < 128" "j \<noteq> k" for j
  proof -
    have "apart (?p, 8) (j * 8 + buf_addr r, 8)" using that(2) by (auto simp: apart_def)
    moreover have "apart (buf_wrptr r, 4) (j * 8 + buf_addr r, 8)" using slot_region [OF that(1) ok(9)] apart_sym by blast
    ultimately have "same_bytes b b' (j * 8 + buf_addr r, 8)" using that(1) ok(4) by (intro same) simp_all
    then have "load_msg b' (j * 8 + buf_addr r) = load_msg b (j * 8 + buf_addr r)"
      using l' by (intro load_msg_cong) (simp_all add: same_bytes_def)
    then show ?thesis by (simp add: slot_msg_def)
  qed
  have pend: "pending b' r = pending b r @ [m]"
    unfolding pending_def rd' wr' wr_def [symmetric] rd_def [symmetric]
    using room here others by (intro wrap_push) (simp_all add: k_def)
  have ok': "buf_ok b' r"
    using assms(1) l' room wrap_used_Suc [of wr rd 128] unfolding buf_ok_def rd' wr' by simp
  have "ring_put r b m = Some (0, b')"
    using room b1 b' ok by (simp add: ring_put_def smsg_bl_cpoy_msg_puts and_127 k_def wr_def rd_def word_le_nat_alt mem_simps)
  moreover have "pending b' q = pending b q \<and> buf_ok b' q" if "disjoint_bufs r q" "buf_ok b q" for q
  proof (rule pending_frame [OF l' _ that(2)], rule ballI)
    fix x assume x: "x \<in> set (buf_regions q)"
    have "fst x + snd x \<le> length b" using that(2) x by (auto simp: buf_ok_def)
    then show "same_bytes b b' x" using disjoint_bufsD [OF that(1) x] slot by (intro same)
  qed
  ultimately show thesis using that ok' pend l' by blast
qed

text \<open>Taking the oldest message, as \<open>sipc_process_all_msg\<close> does it.\<close>

definition ring_take :: "smsg_buf \<Rightarrow> u8 list \<Rightarrow> (smsg \<times> u8 list) option" where
  "ring_take r b =
     do {
       wr \<leftarrow> rd32 b (buf_wrptr r);
       rd \<leftarrow> rd32 b (buf_rdptr r);
       if wr = rd then None
       else do {
         m \<leftarrow> load_msg b (unat (rd AND (buf_size r - 1)) * 8 + buf_addr r);
         b \<leftarrow> put32 b (buf_rdptr r) (rd + 1);
         Some (m, b)
       }
     }"

lemma ring_take_ok:
  assumes "buf_ok b r" "pending b r = m # ms"
  obtains b' where "load_msg b (unat (buf_rd r b AND (buf_size r - 1)) * 8 + buf_addr r) = Some m" "buf_wr r b \<noteq> buf_rd r b"
    "put32 b (buf_rdptr r) (buf_rd r b + 1) = Some b'" "buf_ok b' r" "pending b' r = ms" "length b' = length b"
    "\<forall>q. disjoint_bufs r q \<longrightarrow> buf_ok b q \<longrightarrow> pending b' q = pending b q \<and> buf_ok b' q"
proof -
  note ok = buf_okD [OF assms(1)]
  define wr rd where "wr = buf_wr r b" and "rd = buf_rd r b"
  define k where "k = unat rd mod 128"
  have k: "k < 128" by (simp add: k_def)
  have ne: "wr \<noteq> rd" using assms(2) wrap_content_empty_iff [of "slot_msg r b" 128 rd wr] by (auto simp: pending_def wr_def rd_def)
  have split: "slot_msg r b k # wrap_content (slot_msg r b) 128 (rd + 1) wr = m # ms"
    using wrap_pop [of 128 wr rd "slot_msg r b"] ne assms(2) by (simp add: pending_def wr_def rd_def k_def)
  obtain b' where b': "puts b (buf_rdptr r) (le32 (rd + 1)) = Some b'"
    using puts_ok [of "buf_rdptr r" "le32 (rd + 1)" b] ok(5) by auto
  have l': "length b' = length b" using b' by (rule length_puts)
  have same: "same_bytes b b' x" if "apart (buf_rdptr r, 4) x" "fst x + snd x \<le> length b" for x
    using that puts_same_bytes [OF b'] by simp
  have rd': "buf_rd r b' = rd + 1" using c32.rd_after_put [OF b'] by (simp add: buf_rd_def)
  have wr': "buf_wr r b' = wr"
    using same [OF ok(10)] ok(6) rd32_cong [OF l'] by (simp add: buf_wr_def wr_def same_bytes_def)
  have slots: "slot_msg r b' j = slot_msg r b j" if "j < 128" for j
  proof -
    have "same_bytes b b' (j * 8 + buf_addr r, 8)"
      using slot_region [OF that ok(8)] apart_sym that ok(4) by (intro same) auto
    then show ?thesis
      using load_msg_cong [OF l'] by (simp add: slot_msg_def same_bytes_def)
  qed
  have pend: "pending b' r = ms"
    unfolding pending_def rd' wr' using split wrap_content_cong [of 128 "slot_msg r b'" "slot_msg r b"] slots by simp
  have "length (pending b r) \<le> 128" using ok(7) by (simp add: pending_def)
  then have "length (pending b' r) \<le> 128" unfolding pend assms(2) by simp
  then have "unat (buf_wr r b' - buf_rd r b') \<le> 128" by (simp add: pending_def)
  then have ok': "buf_ok b' r" using assms(1) l' unfolding buf_ok_def by simp
  have "load_msg b (k * 8 + buf_addr r) = Some m"
    using load_msg_ok [of "k * 8 + buf_addr r" b] ok(4) k split by (auto simp: slot_msg_def)
  moreover have "pending b' q = pending b q \<and> buf_ok b' q" if "disjoint_bufs r q" "buf_ok b q" for q
  proof (rule pending_frame [OF l' _ that(2)], rule ballI)
    fix x assume x: "x \<in> set (buf_regions q)"
    have "fst x + snd x \<le> length b" using that(2) x by (auto simp: buf_ok_def)
    then show "same_bytes b b' x" using disjoint_bufsD [OF that(1) x] by (intro same)
  qed
  ultimately show thesis
    using that ok' pend l' b' ne ok(3) by (simp add: and_127 k_def rd_def wr_def put32_def)
qed

section \<open>Distributing messages to channels\<close>

definition chan_ok :: "smsg_channel \<Rightarrow> bool" where
  "chan_ok c \<longleftrightarrow> length (caches c) = 256 \<and> unat (ch_wrptr c - ch_rdptr c) \<le> 256"

definition chan_msgs :: "smsg_channel \<Rightarrow> smsg list" where
  "chan_msgs c = wrap_content (\<lambda>k. caches c ! k) 256 (ch_rdptr c) (ch_wrptr c)"

lemma and_255: "unat (w AND 255 :: u32) = unat w mod 256"
proof -
  have "(255 :: u32) = mask 8" by (simp add: mask_eq_exp_minus_1)
  then have "w AND 255 = take_bit 8 w" by (simp add: take_bit_eq_mask)
  then show ?thesis by (simp add: unat_mod take_bit_eq_mod)
qed

lemma cache_put_spec:
  assumes "chan_ok c"
  shows "chan_ok (cache_put c m) \<and> chan_msgs (cache_put c m) = take 256 (chan_msgs c @ [m])"
proof (cases "unat (ch_wrptr c - ch_rdptr c) = 256")
  case True
  then have "cache_put c m = c" by (simp add: cache_put_def SMSG_CACHE_NR_def sint_small)
  then show ?thesis using True assms by (simp add: chan_msgs_def)
next
  case False
  then have room: "unat (ch_wrptr c - ch_rdptr c) < 256" using assms by (simp add: chan_ok_def)
  define k where "k = unat (ch_wrptr c) mod 256"
  have put: "cache_put c m = c\<lparr>caches := (caches c)[k := m], ch_wrptr := ch_wrptr c + 1\<rparr>"
  proof -
    have "sint (ch_wrptr c - ch_rdptr c) = int (unat (ch_wrptr c - ch_rdptr c))" by (rule sint_small) (use room in simp)
    then have "\<not> int 256 \<le> sint (ch_wrptr c - ch_rdptr c)" using room by linarith
    then show ?thesis by (simp add: cache_put_def SMSG_CACHE_NR_def and_255 k_def)
  qed
  have "k < 256" by (simp add: k_def)
  then have "chan_msgs (cache_put c m) = chan_msgs c @ [m]"
    unfolding chan_msgs_def put using assms room by (simp, intro wrap_push) (simp_all add: k_def chan_ok_def)
  then show ?thesis
    using room assms wrap_used_Suc [OF room] put by (simp add: chan_ok_def chan_msgs_def)
qed

lemma cache_pop:
  assumes "chan_ok c" "chan_msgs c = m # ms"
  shows "ch_wrptr c \<noteq> ch_rdptr c" "elem (caches c) (unat (ch_rdptr c AND (of_nat SMSG_CACHE_NR - 1))) = Some m"
    "chan_ok (c\<lparr>ch_rdptr := ch_rdptr c + 1\<rparr>)" "chan_msgs (c\<lparr>ch_rdptr := ch_rdptr c + 1\<rparr>) = ms"
proof -
  have ne: "ch_wrptr c \<noteq> ch_rdptr c" using assms(2) wrap_content_empty_iff unfolding chan_msgs_def by (metis list.distinct(1))
  then show "ch_wrptr c \<noteq> ch_rdptr c" .
  have eq: "caches c ! (unat (ch_rdptr c) mod 256) # wrap_content (\<lambda>k. caches c ! k) 256 (ch_rdptr c + 1) (ch_wrptr c) = m # ms"
    using wrap_pop [of 256 "ch_wrptr c" "ch_rdptr c" "\<lambda>k. caches c ! k"] ne assms(2) by (simp add: chan_msgs_def)
  then show "elem (caches c) (unat (ch_rdptr c AND (of_nat SMSG_CACHE_NR - 1))) = Some m"
    using assms(1) by (simp add: SMSG_CACHE_NR_def and_255 elem_def chan_ok_def)
  show ms: "chan_msgs (c\<lparr>ch_rdptr := ch_rdptr c + 1\<rparr>) = ms" using eq by (simp add: chan_msgs_def)
  have "length (chan_msgs (c\<lparr>ch_rdptr := ch_rdptr c + 1\<rparr>)) \<le> length (chan_msgs c)" unfolding ms assms(2) by simp
  then show "chan_ok (c\<lparr>ch_rdptr := ch_rdptr c + 1\<rparr>)" using assms(1) by (simp add: chan_ok_def chan_msgs_def)
qed

text \<open>What a received message does to the link, and what a channel holds.\<close>

definition index_of :: "smsg \<Rightarrow> nat" where
  "index_of m = unat (channel2index (msg_channel m))"

definition deliver :: "smsg \<Rightarrow> smsg_ipc \<Rightarrow> smsg_ipc" where
  "deliver m p =
     (let i = index_of m
      in if SMSG_TYPE_NR \<le> msg_type m then p
         else case channels p ! i of
           None \<Rightarrow> if states p ! i = CHAN_STATE_UNUSED \<and> msg_type m = SMSG_TYPE_OPEN \<and> msg_flag m = SMSG_OPEN_MAGIC
                    then p\<lparr>states := (states p)[i := CHAN_STATE_CLIENT_OPENED]\<rparr> else p
         | Some c \<Rightarrow> p\<lparr>channels := (channels p)[i := Some (cache_put c m)]\<rparr>)"

definition inbox :: "smsg_ipc \<Rightarrow> nat \<Rightarrow> smsg list" where
  "inbox p i = (case channels p ! i of None \<Rightarrow> [] | Some c \<Rightarrow> chan_msgs c)"

definition ipc_ok :: "smsg_ipc \<Rightarrow> bool" where
  "ipc_ok p \<longleftrightarrow>
     length (channels p) = SMSG_VALID_CH_NR \<and> length (busy p) = SMSG_VALID_CH_NR \<and> length (states p) = SMSG_VALID_CH_NR \<and>
     (\<forall>i c. i < SMSG_VALID_CH_NR \<longrightarrow> channels p ! i = Some c \<longrightarrow> chan_ok c) \<and> ring_base p \<noteq> 0"

definition configured :: "u8 \<Rightarrow> bool" where
  "configured c \<longleftrightarrow> c \<in> set sipc_cfg"

lemma find_channel_less: "c \<in> set ds \<Longrightarrow> find_channel c ds < length ds \<and> ds ! find_channel c ds = c"
  by (induction ds) auto

lemma find_channel_not: "c \<notin> set ds \<Longrightarrow> find_channel c ds = length ds"
  by (induction ds) auto

lemma valid_nr: "SMSG_VALID_CH_NR = 39"
  by (simp add: SMSG_VALID_CH_NR_def sipc_cfg_def)

lemma channel2index_configured:
  assumes "configured c"
  shows "channel2index c \<noteq> INVALID_CHANEL_INDEX" "unat (channel2index c) < SMSG_VALID_CH_NR" "sipc_cfg ! unat (channel2index c) = c"
proof -
  have f: "find_channel c sipc_cfg < 39" "sipc_cfg ! find_channel c sipc_cfg = c"
    using find_channel_less [of c sipc_cfg] assms valid_nr by (simp_all add: configured_def SMSG_VALID_CH_NR_def)
  have e: "channel2index c = of_nat (find_channel c sipc_cfg)" using f(1) by (simp add: channel2index_def valid_nr)
  have u: "unat (of_nat (find_channel c sipc_cfg) :: u8) = find_channel c sipc_cfg"
    using f(1) by (simp add: unat_of_nat take_bit_nat_eq_self)
  show "unat (channel2index c) < SMSG_VALID_CH_NR" "sipc_cfg ! unat (channel2index c) = c"
    unfolding e u using f by (simp_all add: valid_nr)
  show "channel2index c \<noteq> INVALID_CHANEL_INDEX"
  proof
    assume "channel2index c = INVALID_CHANEL_INDEX"
    then have "unat (of_nat (find_channel c sipc_cfg) :: u8) = unat (255 :: u8)" unfolding e by (simp add: INVALID_CHANEL_INDEX_def)
    then show False unfolding u using f(1) by simp
  qed
qed

lemma channel2index_invalid: "\<not> configured c \<Longrightarrow> channel2index c = INVALID_CHANEL_INDEX"
  using find_channel_not [of c sipc_cfg] by (simp add: configured_def channel2index_def SMSG_VALID_CH_NR_def)

text \<open>The scripts and settings an operation leaves alone.\<close>

definition scripts :: "smsg_state \<Rightarrow> bool \<times> (smsg_action list \<times> bool \<times> nat) list \<times> smsg_action list list \<times> bool list \<times> int list \<times> bool list" where
  "scripts s = (debug_enable s, msg_waits s, msg_spins s, msg_locks s, msg_resources s, kzallocs s)"

lemma msg_emit_simps [simp]: "ipc (msg_emit e s) = ipc s" "ring_mem (msg_emit e s) = ring_mem s" "scripts (msg_emit e s) = scripts s"
  by (simp_all add: msg_emit_def scripts_def)

lemma upd_ipc_simps [simp]: "ipc (upd_ipc f s) = f (ipc s)" "ring_mem (upd_ipc f s) = ring_mem s" "scripts (upd_ipc f s) = scripts s"
  by (simp_all add: upd_ipc_def scripts_def)

lemma scripts_upd [simp]: "scripts (s\<lparr>ring_mem := b\<rparr>) = scripts s" "scripts (s\<lparr>g_wakeup_flag := w\<rparr>) = scripts s"
  by (simp_all add: scripts_def)

lemma atomic_add_some:
  "i < length (busy (ipc s)) \<Longrightarrow> atomic_add d i s = Some (upd_ipc (\<lambda>p. p\<lparr>busy := (busy p)[i := busy (ipc s) ! i + d]\<rparr>) s)"
  by (simp add: atomic_add_def atomic_set_def elem_def)

lemma msg_process_delivers:
  assumes "ipc_ok (ipc s)" "configured (msg_channel m)" "msg_type m \<noteq> SMSG_TYPE_DIE \<or> \<not> debug_enable s"
  obtains s' where "smsg_msg_process s m w = Some s'" "ipc s' = deliver m (ipc s)" "ring_mem s' = ring_mem s" "scripts s' = scripts s"
proof -
  let ?i = "index_of m" and ?p = "ipc s"
  have i: "?i < length (busy ?p)" "?i < length (channels ?p)" "?i < length (states ?p)"
    using assms(1) channel2index_configured(2) [OF assms(2)] by (simp_all add: ipc_ok_def index_of_def)
  have b: "(busy ?p)[?i := busy ?p ! ?i] = busy ?p" by simp
  have "\<exists>s'. smsg_msg_process s m w = Some s' \<and> ipc s' = deliver m ?p \<and> ring_mem s' = ring_mem s \<and> scripts s' = scripts s"
    using assms(3) i
    by (cases "channels ?p ! ?i")
      (auto simp: smsg_msg_process_def Let_def atomic_add_some elem_def deliver_def set_channel_def set_chan_state_def
        index_of_def [symmetric])
  then show thesis using that by blast
qed

lemma deliver_simps [simp]:
  "length (channels (deliver m p)) = length (channels p)" "busy (deliver m p) = busy p"
  "length (states (deliver m p)) = length (states p)" "rxbuf (deliver m p) = rxbuf p" "txbuf (deliver m p) = txbuf p"
  "ring_base (deliver m p) = ring_base p" "smem_type (deliver m p) = smem_type p"
  by (simp_all add: deliver_def Let_def split: option.split)

lemma deliver_ok:
  assumes "ipc_ok p" "configured (msg_channel m)"
  shows "ipc_ok (deliver m p)"
  using assms channel2index_configured(2) [OF assms(2)] cache_put_spec
  by (auto simp: ipc_ok_def deliver_def Let_def nth_list_update index_of_def split: option.splits)

text \<open>An open channel gets a message of its own, unless its cache is full or the type is unknown.\<close>

definition for_channel :: "nat \<Rightarrow> smsg \<Rightarrow> bool" where
  "for_channel i m \<longleftrightarrow> index_of m = i \<and> msg_type m < SMSG_TYPE_NR"

lemma deliver_inbox:
  assumes "ipc_ok p" "i < SMSG_VALID_CH_NR"
  shows "(channels (deliver m p) ! i = None) = (channels p ! i = None)"
    "channels p ! i \<noteq> None \<Longrightarrow> inbox (deliver m p) i = take 256 (inbox p i @ filter (for_channel i) [m])"
proof -
  have i: "i < length (channels p)" using assms by (simp add: ipc_ok_def)
  then show "(channels (deliver m p) ! i = None) = (channels p ! i = None)"
    by (cases "index_of m = i") (auto simp: deliver_def Let_def split: option.split)
  assume "channels p ! i \<noteq> None"
  then obtain c where c: "channels p ! i = Some c" by blast
  have ok: "chan_ok c" using assms c by (simp add: ipc_ok_def)
  then have "take 256 (chan_msgs c) = chan_msgs c" by (simp add: chan_ok_def chan_msgs_def)
  then show "inbox (deliver m p) i = take 256 (inbox p i @ filter (for_channel i) [m])"
    using c i cache_put_spec [OF ok, of m]
    by (cases "index_of m = i") (auto simp: inbox_def deliver_def Let_def for_channel_def not_le split: option.split)
qed

lemma take_append_take: "take n (take n xs @ ys) = take n (xs @ ys)"
  by (simp add: min_def)

lemma fold_deliver:
  assumes "ipc_ok p" "\<forall>m \<in> set ms. configured (msg_channel m)"
  shows "ipc_ok (fold deliver ms p) \<and> busy (fold deliver ms p) = busy p \<and> rxbuf (fold deliver ms p) = rxbuf p \<and>
    txbuf (fold deliver ms p) = txbuf p \<and> smem_type (fold deliver ms p) = smem_type p"
  using assms by (induction ms arbitrary: p) (simp_all add: deliver_ok)

lemma fold_deliver_inbox:
  assumes "ipc_ok p" "\<forall>m \<in> set ms. configured (msg_channel m)" "i < SMSG_VALID_CH_NR" "channels p ! i \<noteq> None"
  shows "channels (fold deliver ms p) ! i \<noteq> None \<and> inbox (fold deliver ms p) i = take 256 (inbox p i @ filter (for_channel i) ms)"
  using assms
proof (induction ms arbitrary: p)
  case Nil
  then obtain c where "channels p ! i = Some c" "chan_ok c" by (auto simp: ipc_ok_def)
  then show ?case by (simp add: inbox_def chan_ok_def chan_msgs_def)
next
  case (Cons m ms)
  have p: "ipc_ok (deliver m p)" "channels (deliver m p) ! i \<noteq> None"
    using Cons.prems deliver_ok deliver_inbox(1) by auto
  have "\<forall>m \<in> set ms. configured (msg_channel m)" using Cons.prems(2) by simp
  from Cons.IH [OF p(1) this Cons.prems(3) p(2)] show ?case
    unfolding deliver_inbox(2) [OF Cons.prems(1,3,4), of m] take_append_take by (simp del: take_append)
qed

text \<open>A whole link: the channels, and the two rings in the shared memory.\<close>

definition link_ok :: "smsg_state \<Rightarrow> bool" where
  "link_ok s \<longleftrightarrow>
     ipc_ok (ipc s) \<and> buf_ok (ring_mem s) (rxbuf (ipc s)) \<and> buf_ok (ring_mem s) (txbuf (ipc s)) \<and>
     disjoint_bufs (rxbuf (ipc s)) (txbuf (ipc s)) \<and> disjoint_bufs (txbuf (ipc s)) (rxbuf (ipc s))"

definition rx_pending :: "smsg_state \<Rightarrow> smsg list" where
  "rx_pending s = pending (ring_mem s) (rxbuf (ipc s))"

definition tx_pending :: "smsg_state \<Rightarrow> smsg list" where
  "tx_pending s = pending (ring_mem s) (txbuf (ipc s))"

definition acceptable :: "bool \<Rightarrow> smsg \<Rightarrow> bool" where
  "acceptable debug m \<longleftrightarrow> configured (msg_channel m) \<and> (msg_type m \<noteq> SMSG_TYPE_DIE \<or> \<not> debug)"

lemma process_loop_delivers:
  assumes "link_ok s" "\<forall>m \<in> set (rx_pending s). acceptable (debug_enable s) m"
  shows "\<exists>s'. process_loop s = Some s' \<and> ipc s' = fold deliver (rx_pending s) (ipc s) \<and> rx_pending s' = [] \<and>
    tx_pending s' = tx_pending s \<and> link_ok s' \<and> scripts s' = scripts s \<and> length (ring_mem s') = length (ring_mem s)"
  using assms
proof (induction "rx_pending s" arbitrary: s)
  case Nil
  let ?r = "rxbuf (ipc s)"
  have ok: "buf_ok (ring_mem s) ?r" using Nil.prems(1) by (simp add: link_ok_def)
  have "buf_wr ?r (ring_mem s) = buf_rd ?r (ring_mem s)"
    using Nil.hyps wrap_content_empty_iff unfolding rx_pending_def pending_def by metis
  then have "process_loop s = Some s"
    using buf_okD(1,2) [OF ok] by (simp add: process_loop.simps [of s])
  then show ?case using Nil by simp
next
  case (Cons m ms)
  let ?r = "rxbuf (ipc s)" and ?t = "txbuf (ipc s)" and ?b = "ring_mem s"
  have l: "ipc_ok (ipc s)" "buf_ok ?b ?r" "buf_ok ?b ?t" "disjoint_bufs ?r ?t" "disjoint_bufs ?t ?r"
    using Cons.prems(1) by (simp_all add: link_ok_def)
  have acc: "configured (msg_channel m)" "msg_type m \<noteq> SMSG_TYPE_DIE \<or> \<not> debug_enable s"
    using Cons.prems(2) by (simp_all add: acceptable_def flip: Cons.hyps(2))
  have p: "pending ?b ?r = m # ms" using Cons.hyps(2) by (simp add: rx_pending_def)
  obtain b' where b': "load_msg ?b (unat (buf_rd ?r ?b AND (buf_size ?r - 1)) * 8 + buf_addr ?r) = Some m" "buf_wr ?r ?b \<noteq> buf_rd ?r ?b"
    "put32 ?b (buf_rdptr ?r) (buf_rd ?r ?b + 1) = Some b'" "buf_ok b' ?r" "pending b' ?r = ms" "length b' = length ?b"
    "\<forall>q. disjoint_bufs ?r q \<longrightarrow> buf_ok ?b q \<longrightarrow> pending b' q = pending ?b q \<and> buf_ok b' q"
    using ring_take_ok [OF l(2) p] .
  have t: "pending b' ?t = pending ?b ?t" "buf_ok b' ?t" using b'(7) l(3,4) by blast+
  obtain s1 where s1: "smsg_msg_process s m True = Some s1" "ipc s1 = deliver m (ipc s)" "ring_mem s1 = ?b" "scripts s1 = scripts s"
    using msg_process_delivers [OF l(1) acc, of True] by blast
  let ?s = "s1\<lparr>ring_mem := b'\<rparr>"
  have step: "process_loop s = process_loop ?s"
    using b'(1-3) s1(1,3) buf_okD(1,2) [OF l(2)] by (simp add: process_loop.simps [of s])
  have rx: "rx_pending ?s = ms" using s1(2) b'(5) by (simp add: rx_pending_def)
  have tx: "tx_pending ?s = tx_pending s" using s1(2) t(1) by (simp add: tx_pending_def)
  have lk: "link_ok ?s" using s1(2) b'(4) t(2) l deliver_ok [OF l(1) acc(1)] by (simp add: link_ok_def)
  have dbg: "debug_enable ?s = debug_enable s" using s1(4) by (simp add: scripts_def)
  have "\<forall>m \<in> set (rx_pending ?s). acceptable (debug_enable ?s) m"
    unfolding rx dbg using Cons.prems(2) by (simp flip: Cons.hyps(2))
  from Cons.hyps(1) [OF rx [symmetric] lk this] show ?case
    unfolding step tx rx using s1(2,4) b'(6) Cons.hyps(2) by (auto simp flip: Cons.hyps(2))
qed

lemma request_resource_quiet: "msg_resources s = [] \<Longrightarrow> request_resource s = (0, s)"
  by (simp add: request_resource_def)

lemma irq_delivers:
  assumes "link_ok s" "\<forall>m \<in> set (rx_pending s). acceptable (debug_enable s) m" "msg_resources s = []"
  obtains s' where "smsg_irq_handler status s = Some s'" "ipc s' = fold deliver (rx_pending s) (ipc s)" "rx_pending s' = []"
    "tx_pending s' = tx_pending s" "link_ok s'" "scripts s' = scripts s"
proof -
  let ?s = "if status then msg_emit Rxirq_clear s else s"
  have e: "ipc ?s = ipc s" "ring_mem ?s = ring_mem s" "scripts ?s = scripts s" by simp_all
  have eq: "rx_pending ?s = rx_pending s" "tx_pending ?s = tx_pending s" "link_ok ?s = link_ok s"
    using e by (simp_all add: rx_pending_def tx_pending_def link_ok_def)
  have env: "debug_enable ?s = debug_enable s" "msg_resources ?s = []" using e(3) assms(3) by (simp_all add: scripts_def)
  obtain t where t: "process_loop ?s = Some t" "ipc t = fold deliver (rx_pending s) (ipc s)" "rx_pending t = []"
    "tx_pending t = tx_pending s" "link_ok t" "scripts t = scripts s"
    using process_loop_delivers [of ?s] assms(1,2) unfolding eq env e by blast
  have same: "rx_pending (msg_emit Pms_release t) = rx_pending t" "tx_pending (msg_emit Pms_release t) = tx_pending t"
    "link_ok (msg_emit Pms_release t) = link_ok t"
    by (simp_all add: rx_pending_def tx_pending_def link_ok_def)
  show thesis
    using t env(2) that [of t] that [of "msg_emit Pms_release t"] request_resource_quiet [OF env(2)]
    by (cases "smem_type (ipc s) = SMEM_LOCAL"; cases "smem_type (ipc t) = SMEM_LOCAL")
      (simp_all add: smsg_irq_handler_def sipc_process_all_msg_def same e)
qed

section \<open>Sending and receiving on a link\<close>

lemma link_okD:
  assumes "link_ok s"
  shows "ipc_ok (ipc s)" "buf_ok (ring_mem s) (rxbuf (ipc s))" "buf_ok (ring_mem s) (txbuf (ipc s))"
    "disjoint_bufs (rxbuf (ipc s)) (txbuf (ipc s))" "disjoint_bufs (txbuf (ipc s)) (rxbuf (ipc s))"
  using assms by (simp_all add: link_ok_def)

lemma link_emit [simp]:
  "rx_pending (msg_emit e s) = rx_pending s" "tx_pending (msg_emit e s) = tx_pending s" "link_ok (msg_emit e s) = link_ok s"
  by (simp_all add: rx_pending_def tx_pending_def link_ok_def)

definition may_send :: "smsg_state \<Rightarrow> smsg \<Rightarrow> bool" where
  "may_send s m \<longleftrightarrow>
     configured (msg_channel m) \<and> channels (ipc s) ! index_of m \<noteq> None \<and>
     (states (ipc s) ! index_of m = CHAN_STATE_OPENED \<or> msg_type m = SMSG_TYPE_OPEN \<or> msg_type m = SMSG_TYPE_CLOSE)"

lemma index_of_less: "ipc_ok p \<Longrightarrow> configured (msg_channel m) \<Longrightarrow>
    index_of m < length (channels p) \<and> index_of m < length (states p) \<and> index_of m < length (busy p)"
  using channel2index_configured(2) by (simp add: ipc_ok_def index_of_def)

lemma send_appends:
  assumes "link_ok s" "msg_resources s = []" "may_send s m" "length (tx_pending s) < 128"
  obtains s' where "smsg_send s m timeout = Some (0, s')" "ipc s' = ipc s" "tx_pending s' = tx_pending s @ [m]"
    "rx_pending s' = rx_pending s" "link_ok s'" "scripts s' = scripts s" "length (ring_mem s') = length (ring_mem s)"
proof -
  note l = link_okD [OF assms(1)]
  have c: "configured (msg_channel m)" using assms(3) by (simp add: may_send_def)
  have room: "length (pending (ring_mem s) (txbuf (ipc s))) < 128" using assms(4) by (simp add: tx_pending_def)
  obtain b' where b': "ring_put (txbuf (ipc s)) (ring_mem s) m = Some (0, b')" "buf_ok b' (txbuf (ipc s))"
    "pending b' (txbuf (ipc s)) = pending (ring_mem s) (txbuf (ipc s)) @ [m]" "length b' = length (ring_mem s)"
    "\<forall>q. disjoint_bufs (txbuf (ipc s)) q \<longrightarrow> buf_ok (ring_mem s) q \<longrightarrow> pending b' q = pending (ring_mem s) q \<and> buf_ok b' q"
    using ring_put_ok [OF l(3) room] .
  have rx: "pending b' (rxbuf (ipc s)) = pending (ring_mem s) (rxbuf (ipc s))" "buf_ok b' (rxbuf (ipc s))"
    using b'(5) l(2,5) by blast+
  let ?s = "msg_emit Pms_release (msg_emit (Txirq_trigger m) (s\<lparr>ring_mem := b'\<rparr>))"
  have "smsg_send s m timeout = Some (0, ?s)"
    using channel2index_configured(1) [OF c] index_of_less [OF l(1) c] assms(2,3) b'(1) l(1)
    by (auto simp: smsg_send_def index_of_def Let_def elem_def may_send_def request_resource_quiet ipc_ok_def)
  then show thesis
    by (rule that) (use b' rx l in \<open>simp_all add: rx_pending_def tx_pending_def link_ok_def\<close>)
qed

lemma peer_sends:
  assumes "link_ok s" "length (rx_pending s) < 128"
  obtains s' where "do_action (Peer_sends m) s = Some s'" "ipc s' = ipc s" "rx_pending s' = rx_pending s @ [m]"
    "tx_pending s' = tx_pending s" "link_ok s'" "scripts s' = scripts s"
proof -
  note l = link_okD [OF assms(1)]
  have room: "length (pending (ring_mem s) (rxbuf (ipc s))) < 128" using assms(2) by (simp add: rx_pending_def)
  obtain b' where b': "ring_put (rxbuf (ipc s)) (ring_mem s) m = Some (0, b')" "buf_ok b' (rxbuf (ipc s))"
    "pending b' (rxbuf (ipc s)) = pending (ring_mem s) (rxbuf (ipc s)) @ [m]" "length b' = length (ring_mem s)"
    "\<forall>q. disjoint_bufs (rxbuf (ipc s)) q \<longrightarrow> buf_ok (ring_mem s) q \<longrightarrow> pending b' q = pending (ring_mem s) q \<and> buf_ok b' q"
    using ring_put_ok [OF l(2) room] .
  have tx: "pending b' (txbuf (ipc s)) = pending (ring_mem s) (txbuf (ipc s))" "buf_ok b' (txbuf (ipc s))"
    using b'(5) l(3,4) by blast+
  show thesis
    by (rule that [of "s\<lparr>ring_mem := b'\<rparr>"])
      (use b' tx l in \<open>simp_all add: do_action_def rx_pending_def tx_pending_def link_ok_def\<close>)
qed

text \<open>A receiver that sleeps while the peer sends one message for it.\<close>

lemma link_upd_busy [simp]:
  "rx_pending (upd_ipc (\<lambda>p. p\<lparr>busy := f p\<rparr>) s) = rx_pending s" "tx_pending (upd_ipc (\<lambda>p. p\<lparr>busy := f p\<rparr>) s) = tx_pending s"
  by (simp_all add: rx_pending_def tx_pending_def)

lemma ipc_ok_busy: "ipc_ok p \<Longrightarrow> ipc_ok (p\<lparr>busy := (busy p)[i := v]\<rparr>)"
  by (simp add: ipc_ok_def)

lemma sleep_gets_message:
  assumes "link_ok s" "rx_pending s = []" "msg_resources s = []" "channels (ipc s) ! i = Some c" "chan_msgs c = []"
    and "configured (msg_channel m)" "index_of m = i" "msg_type m < SMSG_TYPE_NR" "msg_type m \<noteq> SMSG_TYPE_DIE"
    and "states (ipc s) ! i \<noteq> CHAN_STATE_FREE" "msg_waits s = ([Peer_sends m, Irq], signal, left) # ws" "timeout \<noteq> 0"
  obtains s' c' where "recv_sleep s i timeout = Some (if timeout < 0 then 0 else max 1 (min (int left) timeout), s')"
    "ipc s' = (ipc s)\<lparr>channels := (channels (ipc s))[i := Some c']\<rparr>" "chan_ok c'" "chan_msgs c' = [m]" "rx_pending s' = []"
    "tx_pending s' = tx_pending s" "link_ok s'" "scripts s' = scripts (s\<lparr>msg_waits := ws\<rparr>)"
proof -
  have i: "i < length (channels (ipc s))" "i < length (states (ipc s))"
    using index_of_less [OF link_okD(1) [OF assms(1)] assms(6)] assms(7) by simp_all
  have c: "chan_ok c" "ch_wrptr c = ch_rdptr c"
    using link_okD(1) [OF assms(1)] i(1) assms(4,5) wrap_content_empty_iff by (auto simp: ipc_ok_def chan_msgs_def)
  let ?t = "s\<lparr>msg_waits := ws\<rparr>"
  have t: "link_ok ?t" "rx_pending ?t = []" "tx_pending ?t = tx_pending s" "ipc ?t = ipc s"
    using assms(1,2) by (simp_all add: link_ok_def rx_pending_def tx_pending_def)
  obtain u where u: "do_action (Peer_sends m) ?t = Some u" "ipc u = ipc s" "rx_pending u = [m]" "tx_pending u = tx_pending s"
    "link_ok u" "scripts u = scripts ?t"
    using peer_sends [OF t(1), of m] t by auto
  have "\<forall>m \<in> set (rx_pending u). acceptable (debug_enable u) m" "msg_resources u = []"
    using u(3,6) assms(3,6,9) by (simp_all add: acceptable_def scripts_def)
  then obtain s' where s': "smsg_irq_handler True u = Some s'" "ipc s' = deliver m (ipc s)" "rx_pending s' = []"
    "tx_pending s' = tx_pending s" "link_ok s'" "scripts s' = scripts ?t"
    using irq_delivers [OF u(5), of True] u(2,3,4,6) by (metis fold_simps)
  have d: "ipc s' = (ipc s)\<lparr>channels := (channels (ipc s))[i := Some (cache_put c m)]\<rparr>"
    using s'(2) assms(4,7,8) by (simp add: deliver_def not_le)
  have cp: "chan_ok (cache_put c m)" "chan_msgs (cache_put c m) = [m]" using cache_put_spec [OF c(1), of m] assms(5) by simp_all
  have "recv_ready s i = Some False"
    using i assms(4,10) c(2) by (simp add: recv_ready_def elem_def)
  moreover have "recv_ready s' i = Some True"
    using i cp cache_pop(1) [OF cp(1,2)] by (simp add: recv_ready_def elem_def d)
  ultimately have "recv_sleep s i timeout = Some (if timeout < 0 then 0 else max 1 (min (int left) timeout), s')"
    using u(1) s'(1) assms(11) by (simp add: recv_sleep_def do_action_def)
  then show thesis
    by (rule that) (use d cp s' in simp_all)
qed

lemma take_cached_ok:
  assumes "ipc_ok (ipc s)" "i < SMSG_VALID_CH_NR" "channels (ipc s) ! i = Some c" "chan_msgs c = m # ms"
  shows "take_cached s i = Some (m, upd_ipc (\<lambda>p. p\<lparr>channels := (channels p)[i := Some (c\<lparr>ch_rdptr := ch_rdptr c + 1\<rparr>)]\<rparr>) s)"
  using assms cache_pop(2) [of c m ms] by (simp add: take_cached_def elem_def ipc_ok_def set_channel_def)

text \<open>\<open>smsg_recv\<close> on a channel with a message, and on one that gets it during the sleep.\<close>

lemma lock_result_quiet: "msg_locks s = [] \<Longrightarrow> lock_result s = (True, s)"
  by (simp add: lock_result_def)

lemma list_update_restore: "xs[i := v + 1, i := (v :: int)] = xs[i := v]"
  by simp

definition set_chan :: "nat \<Rightarrow> smsg_channel \<Rightarrow> smsg_ipc \<Rightarrow> smsg_ipc" where
  "set_chan i c p = p\<lparr>channels := (channels p)[i := Some c]\<rparr>"

lemma set_chan_simps [simp]:
  "busy (set_chan i c p) = busy p" "states (set_chan i c p) = states p" "rxbuf (set_chan i c p) = rxbuf p"
  "txbuf (set_chan i c p) = txbuf p" "set_chan i c (set_chan i d p) = set_chan i c p"
  "channels (set_chan i c p) = (channels p)[i := Some c]" "set_chan i c (p\<lparr>busy := b\<rparr>) = (set_chan i c p)\<lparr>busy := b\<rparr>"
  by (simp_all add: set_chan_def)

lemma set_chan_ok: "ipc_ok p \<Longrightarrow> chan_ok c \<Longrightarrow> ipc_ok (set_chan i c p)"
  by (auto simp: ipc_ok_def set_chan_def nth_list_update split: if_splits) (metis nth_list_update_neq option.inject nth_list_update_eq)

lemma link_ok_upd:
  assumes "link_ok s" "ipc_ok (f (ipc s))" "rxbuf (f (ipc s)) = rxbuf (ipc s)" "txbuf (f (ipc s)) = txbuf (ipc s)"
  shows "link_ok (upd_ipc f s)" "rx_pending (upd_ipc f s) = rx_pending s" "tx_pending (upd_ipc f s) = tx_pending s"
  using assms by (simp_all add: link_ok_def rx_pending_def tx_pending_def)

lemma recv_takes:
  assumes "link_ok s" "configured channel" "unat (channel2index channel) = i" "msg_locks s = []"
    and "channels (ipc s) ! i = Some c" "chan_msgs c = m # ms" "states (ipc s) ! i \<noteq> CHAN_STATE_FREE"
  obtains s' where "smsg_recv s channel timeout = Some (max 0 timeout, Some m, s')"
    "ipc s' = set_chan i (c\<lparr>ch_rdptr := ch_rdptr c + 1\<rparr>) (ipc s)" "ring_mem s' = ring_mem s" "link_ok s'" "scripts s' = scripts s"
proof -
  let ?d = "c\<lparr>ch_rdptr := ch_rdptr c + 1\<rparr>"
  have ok: "ipc_ok (ipc s)" using assms(1) by (rule link_okD)
  have i: "i < SMSG_VALID_CH_NR" "i < length (busy (ipc s))" "i < length (channels (ipc s))" "i < length (states (ipc s))"
    using channel2index_configured(2) [OF assms(2)] assms(3) ok by (simp_all add: ipc_ok_def)
  have cok: "chan_ok c" using ok i assms(5) by (simp add: ipc_ok_def)
  note pop = cache_pop [OF cok assms(6)]
  define s1 where "s1 = upd_ipc (\<lambda>p. p\<lparr>busy := (busy p)[i := busy (ipc s) ! i + 1]\<rparr>) s"
  define s2 where "s2 = upd_ipc (\<lambda>p. p\<lparr>channels := (channels p)[i := Some ?d]\<rparr>) s1"
  define s3 where "s3 = upd_ipc (\<lambda>p. p\<lparr>busy := (busy p)[i := busy (ipc s2) ! i + - 1]\<rparr>) s2"
  have s1: "atomic_add 1 i s = Some s1" "ipc_ok (ipc s1)" "channels (ipc s1) ! i = Some c" "states (ipc s1) = states (ipc s)" "scripts s1 = scripts s"
    "length (channels (ipc s1)) = length (channels (ipc s))"
    using i ok assms(5) by (simp_all add: s1_def atomic_add_some ipc_ok_def)
  have l1: "lock_result s1 = (True, s1)" using s1(5) assms(4) by (simp add: lock_result_def scripts_def)
  have s2: "take_cached s1 i = Some (m, s2)" using take_cached_ok [OF s1(2) i(1) s1(3) assms(6)] by (simp add: s2_def)
  have s3: "recv_leave True i s2 = Some s3" using i(2) by (simp add: recv_leave_def s3_def s2_def s1_def atomic_add_some)
  have "recv_sleep s1 i timeout = Some (max 0 timeout, s1)" if "timeout \<noteq> 0"
    using that i s1(3,4) pop(1) by (auto simp: recv_sleep_def recv_ready_def elem_def s1_def)
  then have r: "smsg_recv s channel timeout = Some (max 0 timeout, Some m, s3)"
    using channel2index_configured(1) [OF assms(2)] assms(3,7) s1 l1 s2 s3 pop(1) i
    by (auto simp: smsg_recv_def Let_def elem_def s1_def [symmetric] max_def)
  have p3: "ipc s3 = set_chan i ?d (ipc s)"
    using i(2) by (simp add: s3_def s2_def s1_def set_chan_def)
  have "link_ok s3"
    using assms(1) set_chan_ok [OF ok pop(3), of i] by (simp add: link_ok_def p3) (simp add: s3_def s2_def s1_def)
  then show thesis using that [OF r p3] by (simp add: s3_def s2_def s1_def)
qed

lemma recv_sleeps:
  assumes "link_ok s" "rx_pending s = []" "msg_resources s = []" "msg_locks s = []" "channels (ipc s) ! i = Some c" "chan_msgs c = []"
    and "configured (msg_channel m)" "index_of m = i" "msg_type m < SMSG_TYPE_NR" "msg_type m \<noteq> SMSG_TYPE_DIE"
    and "states (ipc s) ! i \<noteq> CHAN_STATE_FREE" "msg_waits s = ([Peer_sends m, Irq], signal, left) # ws" "timeout \<noteq> 0"
  obtains s' d where "smsg_recv s (msg_channel m) timeout = Some (if timeout < 0 then 0 else max 1 (min (int left) timeout), Some m, s')"
    "ipc s' = set_chan i d (ipc s)" "chan_ok d" "chan_msgs d = []" "rx_pending s' = []" "tx_pending s' = tx_pending s" "link_ok s'"
    "scripts s' = scripts (s\<lparr>msg_waits := ws\<rparr>)"
proof -
  have ok: "ipc_ok (ipc s)" using assms(1) by (rule link_okD)
  have i: "i < SMSG_VALID_CH_NR" "i < length (busy (ipc s))" "i < length (channels (ipc s))" "i < length (states (ipc s))"
    using channel2index_configured(2) [OF assms(7)] assms(8) ok by (simp_all add: ipc_ok_def index_of_def)
  define s1 where "s1 = upd_ipc (\<lambda>p. p\<lparr>busy := (busy p)[i := busy (ipc s) ! i + 1]\<rparr>) s"
  have s1: "atomic_add 1 i s = Some s1" "channels (ipc s1) ! i = Some c" "states (ipc s1) ! i \<noteq> CHAN_STATE_FREE" "scripts s1 = scripts s"
    "rx_pending s1 = []" "tx_pending s1 = tx_pending s"
    using i assms(2,5,11) by (simp_all add: s1_def atomic_add_some)
  have lk1: "link_ok s1" unfolding s1_def using assms(1) ipc_ok_busy [OF ok] by (intro link_ok_upd) simp_all
  have e1: "msg_resources s1 = []" "msg_waits s1 = ([Peer_sends m, Irq], signal, left) # ws" "lock_result s1 = (True, s1)"
    using s1(4) assms(3,4,12) by (simp_all add: scripts_def lock_result_def)
  obtain s2 c2 where s2: "recv_sleep s1 i timeout = Some (if timeout < 0 then 0 else max 1 (min (int left) timeout), s2)"
    "ipc s2 = (ipc s1)\<lparr>channels := (channels (ipc s1))[i := Some c2]\<rparr>" "chan_ok c2" "chan_msgs c2 = [m]" "rx_pending s2 = []"
    "tx_pending s2 = tx_pending s1" "link_ok s2" "scripts s2 = scripts (s1\<lparr>msg_waits := ws\<rparr>)"
    using sleep_gets_message [OF lk1 s1(5) e1(1) s1(2) assms(6-10) s1(3) e1(2) assms(13)] .
  let ?d = "c2\<lparr>ch_rdptr := ch_rdptr c2 + 1\<rparr>"
  note pop = cache_pop [OF s2(3,4)]
  define s3 where "s3 = upd_ipc (\<lambda>p. p\<lparr>channels := (channels p)[i := Some ?d]\<rparr>) s2"
  define s4 where "s4 = upd_ipc (\<lambda>p. p\<lparr>busy := (busy p)[i := busy (ipc s3) ! i + - 1]\<rparr>) s3"
  have "channels (ipc s2) ! i = Some c2" using i(3) by (simp add: s2(2) s1_def)
  then have s3: "take_cached s2 i = Some (m, s3)" using take_cached_ok [OF link_okD(1) [OF s2(7)] i(1) _ s2(4)] by (simp add: s3_def)
  have len: "length (busy (ipc s2)) = length (busy (ipc s))" "states (ipc s2) = states (ipc s)" by (simp_all add: s2(2) s1_def)
  have s4: "recv_leave True i s3 = Some s4" using i(2) len by (simp add: recv_leave_def s4_def s3_def atomic_add_some)
  have r: "smsg_recv s (msg_channel m) timeout = Some (if timeout < 0 then 0 else max 1 (min (int left) timeout), Some m, s4)"
    using channel2index_configured(1) [OF assms(7)] assms(8,11,13) s1(1,2) e1(3) s2(1) s3 s4 len i
    by (auto simp: smsg_recv_def Let_def elem_def s1_def index_of_def)
  have p4: "ipc s4 = set_chan i ?d (ipc s)"
    using i(2) by (simp add: s4_def s3_def s2(2) s1_def set_chan_def)
  have mem: "ring_mem s4 = ring_mem s2" "scripts s4 = scripts s2" by (simp_all add: s4_def s3_def)
  have bufs: "rxbuf (ipc s2) = rxbuf (ipc s)" "txbuf (ipc s2) = txbuf (ipc s)" by (simp_all add: s2(2) s1_def)
  have "link_ok s4" using s2(7) set_chan_ok [OF ok pop(3), of i] bufs by (simp add: link_ok_def p4 mem)
  moreover have "rx_pending s4 = []" "tx_pending s4 = tx_pending s"
    using s2(5,6) s1(6) bufs by (simp_all add: rx_pending_def tx_pending_def p4 mem)
  moreover have "scripts s4 = scripts (s\<lparr>msg_waits := ws\<rparr>)" using mem(2) s2(8) s1(4) by (simp add: scripts_def)
  ultimately show thesis using that [OF r p4 pop(3,4)] by simp
qed

section \<open>Opening a channel\<close>

definition open_msg :: "u8 \<Rightarrow> smsg" where
  "open_msg channel = smsg_set channel SMSG_TYPE_OPEN SMSG_OPEN_MAGIC 0"

lemma open_msg_simps [simp]: "msg_channel (open_msg c) = c" "msg_type (open_msg c) = SMSG_TYPE_OPEN" "msg_flag (open_msg c) = SMSG_OPEN_MAGIC"
  "index_of (open_msg c) = unat (channel2index c)"
  by (simp_all add: open_msg_def smsg_set_def index_of_def)

lemma new_channel_ok: "chan_ok new_channel" "chan_msgs new_channel = []"
  by (simp_all add: chan_ok_def chan_msgs_def new_channel_def SMSG_CACHE_NR_def wrap_content_def)

text \<open>Nothing is scripted to fail, the rings have room, nobody uses the channel.\<close>

definition quiet_link :: "smsg_state \<Rightarrow> nat \<Rightarrow> bool" where
  "quiet_link s i \<longleftrightarrow>
     link_ok s \<and> msg_resources s = [] \<and> msg_locks s = [] \<and> kzallocs s = [] \<and> rx_pending s = [] \<and>
     length (tx_pending s) < 128 \<and> channels (ipc s) ! i = None \<and> busy (ipc s) ! i = 0"

text \<open>The state in which \<open>smsg_ch_open\<close> has sent its message.\<close>

definition open_sent :: "smsg_state \<Rightarrow> nat \<Rightarrow> u8 \<Rightarrow> smsg_state \<Rightarrow> bool" where
  "open_sent s i channel s' \<longleftrightarrow>
     ipc s' = set_chan i new_channel (ipc s)\<lparr>busy := (busy (ipc s))[i := 1]\<rparr> \<and> link_ok s' \<and> scripts s' = scripts s \<and>
     rx_pending s' = [] \<and> tx_pending s' = tx_pending s @ [open_msg channel]"

lemma open_sends:
  assumes "quiet_link s i" "configured channel" "i = unat (channel2index channel)"
  obtains s1 where "open_sent s i channel s1"
    "smsg_ch_open s channel timeout =
       (if states (ipc s) ! i = CHAN_STATE_CLIENT_OPENED then open_done i s1
        else open_wait (upd_ipc (\<lambda>p. p\<lparr>states := (states p)[i := CHAN_STATE_HOST_OPENED]\<rparr>) s1) i channel timeout)"
proof -
  let ?p = "ipc s"
  have q: "link_ok s" "msg_resources s = []" "kzallocs s = []" "rx_pending s = []" "length (tx_pending s) < 128" "ipc_ok ?p"
    using assms(1) by (simp_all add: quiet_link_def link_okD)
  have i: "i < length (busy ?p)" "i < length (channels ?p)" "i < length (states ?p)"
    using channel2index_configured(2) [OF assms(2)] assms(3) q(6) by (simp_all add: ipc_ok_def)
  define s0 where "s0 = upd_ipc (\<lambda>p. set_chan i new_channel p\<lparr>busy := (busy p)[i := 1]\<rparr>) s"
  have s0: "atomic_set i 1 s = Some (upd_ipc (\<lambda>p. p\<lparr>busy := (busy p)[i := 1]\<rparr>) s)"
    "set_channel i (Some new_channel) (upd_ipc (\<lambda>p. p\<lparr>busy := (busy p)[i := 1]\<rparr>) s) = Some s0"
    using i by (simp_all add: atomic_set_def set_channel_def s0_def upd_ipc_def set_chan_def)
  have l0: "link_ok s0" "rx_pending s0 = rx_pending s" "tx_pending s0 = tx_pending s" "scripts s0 = scripts s"
    using link_ok_upd [OF q(1), of "\<lambda>p. set_chan i new_channel p\<lparr>busy := (busy p)[i := 1]\<rparr>"]
      ipc_ok_busy [OF set_chan_ok [OF q(6) new_channel_ok(1), of i], of i 1] by (simp_all add: s0_def)
  have "may_send s0 (open_msg channel)" "msg_resources s0 = []"
    using assms(2,3) i q(2) l0(4) by (simp_all add: may_send_def s0_def scripts_def)
  then obtain s1 where s1: "smsg_send s0 (open_msg channel) timeout = Some (0, s1)" "ipc s1 = ipc s0"
    "tx_pending s1 = tx_pending s0 @ [open_msg channel]" "rx_pending s1 = rx_pending s0" "link_ok s1" "scripts s1 = scripts s0"
    using send_appends [OF l0(1)] q(5) l0(3) by metis
  have "open_sent s i channel s1" using s1 l0 q(4) by (simp add: open_sent_def s0_def)
  moreover have "states (ipc s1) = states ?p" "length (states (ipc s1)) = length (states ?p)" by (simp_all add: s1(2) s0_def)
  ultimately show thesis
    using that [of s1] channel2index_configured(1) [OF assms(2)] s0 s1(1) q(3) i assms(3)
    by (simp add: smsg_ch_open_def Let_def elem_def set_chan_state_def open_msg_def)
qed

lemma open_done_ok:
  assumes "link_ok s" "i < SMSG_VALID_CH_NR"
  shows "\<exists>s'. open_done i s = Some (0, s') \<and>
    ipc s' = (ipc s)\<lparr>states := (states (ipc s))[i := CHAN_STATE_OPENED], busy := (busy (ipc s))[i := busy (ipc s) ! i - 1]\<rparr> \<and>
    link_ok s' \<and> rx_pending s' = rx_pending s \<and> tx_pending s' = tx_pending s"
  using assms link_okD(1) [OF assms(1)]
  by (simp add: open_done_def set_chan_state_def atomic_add_some ipc_ok_def link_ok_def rx_pending_def tx_pending_def)

lemma open_failed_ok:
  assumes "link_ok s" "i < SMSG_VALID_CH_NR" "busy (ipc s) ! i = 1"
  shows "\<exists>s'. open_failed i rval s = Some (rval, s') \<and> channels (ipc s') ! i = None \<and> states (ipc s') ! i = CHAN_STATE_UNUSED \<and>
    busy (ipc s') ! i = 0 \<and> tx_pending s' = tx_pending s"
  using assms link_okD(1) [OF assms(1)]
  by (simp add: open_failed_def set_chan_state_def set_channel_def atomic_add_some ipc_ok_def spin_def elem_def tx_pending_def)

text \<open>The wait for the peer, when it answers during the sleep.\<close>

lemma open_wait_answer:
  assumes "open_sent s i channel s1" "configured channel" "i = unat (channel2index channel)" "quiet_link s i"
    and "msg_waits s = ([Peer_sends (open_msg channel), Irq], signal, left) # ws" "timeout \<noteq> 0"
  defines "rval \<equiv> (if timeout < 0 then 0 else max 1 (min (int left) timeout))"
  obtains s2 d where "open_wait (upd_ipc (\<lambda>p. p\<lparr>states := (states p)[i := CHAN_STATE_HOST_OPENED]\<rparr>) s1) i channel timeout =
      (if rval = 0 then open_done i s2 else open_failed i rval s2)"
    "link_ok s2" "busy (ipc s2) ! i = 1" "channels (ipc s2) ! i = Some d" "chan_ok d" "chan_msgs d = []" "rx_pending s2 = []"
    "tx_pending s2 = tx_pending s @ [open_msg channel]" "i < SMSG_VALID_CH_NR"
proof -
  let ?h = "upd_ipc (\<lambda>p. p\<lparr>states := (states p)[i := CHAN_STATE_HOST_OPENED]\<rparr>) s1"
  have o: "ipc s1 = set_chan i new_channel (ipc s)\<lparr>busy := (busy (ipc s))[i := 1]\<rparr>" "link_ok s1" "scripts s1 = scripts s" "rx_pending s1 = []"
    "tx_pending s1 = tx_pending s @ [open_msg channel]"
    using assms(1) by (simp_all add: open_sent_def)
  have q: "link_ok s" "msg_resources s = []" "msg_locks s = []" using assms(4) by (simp_all add: quiet_link_def)
  have i: "i < SMSG_VALID_CH_NR" "i < length (busy (ipc s))" "i < length (channels (ipc s))" "i < length (states (ipc s))"
    using channel2index_configured(2) [OF assms(2)] assms(3) link_okD(1) [OF q(1)] by (simp_all add: ipc_ok_def)
  have h: "link_ok ?h" "rx_pending ?h = []" "tx_pending ?h = tx_pending s @ [open_msg channel]"
    using o link_okD(1) [OF o(2)] by (simp_all add: link_ok_def ipc_ok_def rx_pending_def tx_pending_def)
  have e: "msg_resources ?h = []" "msg_locks ?h = []" "msg_waits ?h = ([Peer_sends (open_msg channel), Irq], signal, left) # ws"
    using o(3) q assms(5) by (simp_all add: scripts_def upd_ipc_def)
  have ch: "channels (ipc ?h) ! i = Some new_channel" "states (ipc ?h) ! i \<noteq> CHAN_STATE_FREE" "busy (ipc ?h) ! i = 1"
    using i by (simp_all add: o(1) chan_state_defs)
  have open_type: "msg_type (open_msg channel) < SMSG_TYPE_NR" "msg_type (open_msg channel) \<noteq> SMSG_TYPE_DIE"
    by (simp_all add: smsg_type_defs)
  have idx: "index_of (open_msg channel) = i" "configured (msg_channel (open_msg channel))" using assms(2,3) by simp_all
  obtain s2 d where s2: "smsg_recv ?h (msg_channel (open_msg channel)) timeout = Some (rval, Some (open_msg channel), s2)"
    "ipc s2 = set_chan i d (ipc ?h)" "chan_ok d" "chan_msgs d = []" "rx_pending s2 = []" "tx_pending s2 = tx_pending ?h" "link_ok s2"
    using recv_sleeps [OF h(1,2) e(1,2) ch(1) new_channel_ok(2) idx(2,1) open_type ch(2) e(3) assms(6), folded rval_def] .
  have "open_wait ?h i channel timeout = (if rval = 0 then open_done i s2 else open_failed i rval s2)"
    using s2(1) by (simp add: open_wait.simps [of ?h])
  then show thesis
    by (rule that) (use s2 h ch(3) i in \<open>simp_all add: o(1)\<close>)
qed

section \<open>The layout of the two rings\<close>

lemma host_bufs_disjoint: "disjoint_bufs host_txbuf host_rxbuf" "disjoint_bufs host_rxbuf host_txbuf"
  by (simp_all add: disjoint_bufs_def buf_regions_def host_txbuf_def host_rxbuf_def smsg_layout_defs apart_def)

lemma rd32_zeros: "i + 4 \<le> n \<Longrightarrow> rd32 (replicate n 0) i = Some 0"
  by (simp add: rd32_def of_le32_def)

lemma fresh_ring:
  "buf_ok (replicate SZ_4K 0) host_txbuf" "pending (replicate SZ_4K 0) host_txbuf = []"
  "buf_ok (replicate SZ_4K 0) host_rxbuf" "pending (replicate SZ_4K 0) host_rxbuf = []"
  by (simp_all add: buf_ok_def buf_regions_def host_txbuf_def host_rxbuf_def smsg_layout_defs apart_def
      buf_rd_def buf_wr_def rd32_zeros pending_def wrap_content_def)

text \<open>A channel table with nothing in it.\<close>

definition fresh_ipc :: "smsg_ipc \<Rightarrow> bool" where
  "fresh_ipc p \<longleftrightarrow>
     channels p = replicate SMSG_VALID_CH_NR None \<and> busy p = replicate SMSG_VALID_CH_NR 0 \<and>
     states p = replicate SMSG_VALID_CH_NR CHAN_STATE_UNUSED"

lemma fresh_ipc_ok: "fresh_ipc p \<Longrightarrow> ring_base p \<noteq> 0 \<Longrightarrow> ipc_ok p"
  by (simp add: fresh_ipc_def ipc_ok_def)

lemma host_smem_init:
  assumes "fresh_ipc (ipc s)" "ipc_type (ipc s) = SIPC_BASE_PCIE" "\<not> ipc_client (ipc s)"
    and "smem_init_result e = 0" "ring_alloc e \<noteq> 0" "ring_vmap e = Some content"
  shows "\<exists>s'. smsg_ipc_smem_init e status s = Some (0, s') \<and> link_ok s' \<and> rx_pending s' = [] \<and> tx_pending s' = [] \<and>
    ring_mem s' = replicate SZ_4K 0 \<and> txbuf (ipc s') = host_txbuf \<and> rxbuf (ipc s') = host_rxbuf \<and> fresh_ipc (ipc s')"
  using assms fresh_ring host_bufs_disjoint
  by (simp add: smsg_ipc_smem_init_def Let_def smsg_ipc_init_smsg_irq_callback_def link_ok_def rx_pending_def tx_pending_def
      fresh_ipc_def ipc_ok_def)

lemma client_smem_init:
  assumes "fresh_ipc (ipc s)" "ipc_type (ipc s) = SIPC_BASE_PCIE" "ipc_client (ipc s)"
    and "smem_init_result e = 0" "ring_alloc e \<noteq> 0" "ring_vmap e = Some (replicate SZ_4K 0)"
  shows "\<exists>s'. smsg_ipc_smem_init e status s = Some (0, s') \<and> link_ok s' \<and> rx_pending s' = [] \<and> tx_pending s' = [] \<and>
    ring_mem s' = replicate SZ_4K 0 \<and> txbuf (ipc s') = host_rxbuf \<and> rxbuf (ipc s') = host_txbuf \<and> fresh_ipc (ipc s')"
  using assms fresh_ring host_bufs_disjoint
  by (simp add: smsg_ipc_smem_init_def Let_def smsg_ipc_init_smsg_irq_callback_def link_ok_def rx_pending_def tx_pending_def
      fresh_ipc_def ipc_ok_def)

section \<open>Message streams\<close>

text \<open>
  One side of a link, as its shared memory and its \<open>smsg_ipc\<close>, and what happens to it: the peer sends a
  message with \<^verbatim>\<open>smsg_send\<close>, this side sends one, takes an interrupt, or a client takes a message from a
  channel with \<^verbatim>\<open>smsg_recv\<close>. The labels are the messages of successful sends and the messages
  \<^verbatim>\<open>smsg_recv\<close> returns, with the index of their channel; an interrupt and a message for the peer
  transfer nothing to a client. The caches have room for what an interrupt finds.
\<close>

inductive link_io :: "u8 list \<times> smsg_ipc \<Rightarrow> (nat, smsg) transfer \<Rightarrow> u8 list \<times> smsg_ipc \<Rightarrow> bool" where
  peer_message: "ipc_ok (ipc s) \<Longrightarrow> msg_resources s = [] \<Longrightarrow> txbuf (ipc s) = rxbuf p \<Longrightarrow> rxbuf (ipc s) = txbuf p \<Longrightarrow>
    may_send s m \<Longrightarrow> msg_type m < SMSG_TYPE_NR \<Longrightarrow> msg_type m \<noteq> SMSG_TYPE_DIE \<Longrightarrow>
    smsg_send s m timeout = Some (0, s') \<Longrightarrow> link_io (ring_mem s, p) (Wrote (index_of m) [m]) (ring_mem s', p)"
| own_message: "msg_resources s = [] \<Longrightarrow> may_send s m \<Longrightarrow> smsg_send s m timeout = Some (0, s') \<Longrightarrow>
    link_io (ring_mem s, ipc s) (Got (index_of m) []) (ring_mem s', ipc s')"
| interrupt: "msg_resources s = [] \<Longrightarrow>
    \<forall>i < SMSG_VALID_CH_NR. channels (ipc s) ! i \<noteq> None \<longrightarrow>
      length (inbox (ipc s) i) + length (filter (for_channel i) (rx_pending s)) \<le> SMSG_CACHE_NR \<Longrightarrow>
    smsg_irq_handler status s = Some s' \<Longrightarrow> link_io (ring_mem s, ipc s) (Got i []) (ring_mem s', ipc s')"
| receives: "msg_locks s = [] \<Longrightarrow> configured channel \<Longrightarrow> i = unat (channel2index channel) \<Longrightarrow>
    channels (ipc s) ! i \<noteq> None \<Longrightarrow> inbox (ipc s) i \<noteq> [] \<Longrightarrow> states (ipc s) ! i \<noteq> CHAN_STATE_FREE \<Longrightarrow>
    smsg_recv s channel timeout = Some (rval, Some m, s') \<Longrightarrow> link_io (ring_mem s, ipc s) (Got i [m]) (ring_mem s', ipc s')"

definition bufs_ok :: "u8 list \<Rightarrow> bool" where
  "bufs_ok b \<longleftrightarrow> buf_ok b host_txbuf \<and> buf_ok b host_rxbuf"

text \<open>The link is well formed, channel \<open>i\<close> is open, and the ring holds messages the handler accepts.\<close>

definition link_inv :: "nat \<Rightarrow> u8 list \<times> smsg_ipc \<Rightarrow> bool" where
  "link_inv i = (\<lambda>(b, p). bufs_ok b \<and> ipc_ok p \<and> {txbuf p, rxbuf p} = {host_txbuf, host_rxbuf} \<and>
     i < SMSG_VALID_CH_NR \<and> channels p ! i \<noteq> None \<and> (\<forall>m \<in> set (pending b (rxbuf p)). acceptable True m))"

text \<open>What is on its way to channel \<open>i\<close>: its cache, and what the ring holds for it.\<close>

definition on_the_way :: "u8 list \<times> smsg_ipc \<Rightarrow> nat \<Rightarrow> smsg list" where
  "on_the_way = (\<lambda>(b, p) i. inbox p i @ filter (for_channel i) (pending b (rxbuf p)))"

lemma bufs_distinct: "host_txbuf \<noteq> host_rxbuf"
  by (simp add: host_txbuf_def host_rxbuf_def smsg_layout_defs)

lemma bufs_link:
  assumes "ipc_ok (ipc s)" "{txbuf (ipc s), rxbuf (ipc s)} = {host_txbuf, host_rxbuf}" "bufs_ok (ring_mem s)"
  shows "link_ok s" "txbuf (ipc s) \<noteq> rxbuf (ipc s)"
  using assms host_bufs_disjoint bufs_distinct by (auto simp: link_ok_def bufs_ok_def doubleton_eq_iff)

lemma link_bufs:
  assumes "link_ok s" "{txbuf (ipc s), rxbuf (ipc s)} = {host_txbuf, host_rxbuf}"
  shows "bufs_ok (ring_mem s)"
  using assms by (auto simp: link_ok_def bufs_ok_def doubleton_eq_iff)

lemma send_succeeds:
  assumes "link_ok s" "msg_resources s = []" "may_send s m" "smsg_send s m timeout = Some (0, s')"
  shows "ipc s' = ipc s \<and> tx_pending s' = tx_pending s @ [m] \<and> rx_pending s' = rx_pending s \<and> link_ok s'"
proof -
  have "length (tx_pending s) \<noteq> 128"
  proof
    assume "length (tx_pending s) = 128"
    then have "ring_put (txbuf (ipc s)) (ring_mem s) m = Some (- EBUSY, ring_mem s)"
      using ring_put_full [OF link_okD(3) [OF assms(1)]] by (simp add: tx_pending_def)
    then show False
      using assms(2-4) link_okD(1) [OF assms(1)] channel2index_configured(1) index_of_less [OF link_okD(1) [OF assms(1)], of m]
      by (auto simp: smsg_send_def may_send_def Let_def index_of_def elem_def request_resource_quiet ipc_ok_def split: if_splits)
  qed
  moreover have "length (tx_pending s) \<le> 128"
    using buf_okD(7) [OF link_okD(3) [OF assms(1)]] by (simp add: tx_pending_def pending_def)
  ultimately have "length (tx_pending s) < 128" by simp
  from send_appends [OF assms(1-3) this, of timeout] obtain t where
    "smsg_send s m timeout = Some (0, t)" "ipc t = ipc s" "tx_pending t = tx_pending s @ [m]" "rx_pending t = rx_pending s" "link_ok t" .
  then show ?thesis using assms(4) by simp
qed

lemma link_inv_iff:
  "link_inv i (ring_mem s, ipc s) \<longleftrightarrow> link_ok s \<and> {txbuf (ipc s), rxbuf (ipc s)} = {host_txbuf, host_rxbuf} \<and>
     i < SMSG_VALID_CH_NR \<and> channels (ipc s) ! i \<noteq> None \<and> (\<forall>m \<in> set (rx_pending s). acceptable True m)"
  unfolding link_inv_def rx_pending_def using bufs_link [of s] link_bufs [of s] link_okD(1) [of s] by auto

lemma on_the_way_iff: "on_the_way (ring_mem s, ipc s) i = inbox (ipc s) i @ filter (for_channel i) (rx_pending s)"
  by (simp add: on_the_way_def rx_pending_def)

text \<open>What each kind of step does to the messages on their way to channel \<open>i\<close>.\<close>

definition link_law :: "nat \<Rightarrow> u8 list \<times> smsg_ipc \<Rightarrow> (nat, smsg) transfer \<Rightarrow> u8 list \<times> smsg_ipc \<Rightarrow> bool" where
  "link_law i m e m' \<longleftrightarrow> link_inv i m' \<and> on_the_way m i @ written i [e] = delivered i [e] @ on_the_way m' i"

lemma law_peer_sends:
  assumes inv: "link_inv i (ring_mem s, p)" and s: "ipc_ok (ipc s)" "msg_resources s = []" "txbuf (ipc s) = rxbuf p" "rxbuf (ipc s) = txbuf p"
    and m: "may_send s m" "msg_type m < SMSG_TYPE_NR" "msg_type m \<noteq> SMSG_TYPE_DIE" "smsg_send s m timeout = Some (0, s')"
  shows "link_law i (ring_mem s, p) (Wrote (index_of m) [m]) (ring_mem s', p)"
proof -
  have bufs: "{txbuf (ipc s), rxbuf (ipc s)} = {host_txbuf, host_rxbuf}" "bufs_ok (ring_mem s)"
    using inv s(3,4) by (auto simp: link_inv_def)
  have l: "link_ok s" using bufs_link [OF s(1) bufs] by simp
  note t = send_succeeds [OF l s(2) m(1,4)]
  have p: "pending (ring_mem s') (rxbuf p) = pending (ring_mem s) (rxbuf p) @ [m]" "bufs_ok (ring_mem s')"
  proof -
    have e: "ipc s' = ipc s" "tx_pending s' = tx_pending s @ [m]" "link_ok s'" using t by simp_all
    show "pending (ring_mem s') (rxbuf p) = pending (ring_mem s) (rxbuf p) @ [m]"
      using e(2) s(3) by (simp add: tx_pending_def e(1))
    show "bufs_ok (ring_mem s')" using link_bufs [OF e(3)] bufs by (simp add: e(1))
  qed
  have "acceptable True m" using m(1,3) by (simp add: acceptable_def may_send_def)
  then show ?thesis
    using inv p m(2) by (auto simp: link_law_def link_inv_def on_the_way_def for_channel_def)
qed

lemma law_own_sends:
  assumes inv: "link_inv i (ring_mem s, ipc s)" and "msg_resources s = []" "may_send s m" "smsg_send s m timeout = Some (0, s')"
  shows "link_law i (ring_mem s, ipc s) (Got (index_of m) []) (ring_mem s', ipc s')"
  using send_succeeds [of s m timeout s'] assms unfolding link_law_def link_inv_iff on_the_way_iff by simp

lemma law_interrupt:
  assumes inv: "link_inv i (ring_mem s, ipc s)" and s: "msg_resources s = []"
    and room: "length (inbox (ipc s) i) + length (filter (for_channel i) (rx_pending s)) \<le> SMSG_CACHE_NR"
    and irq: "smsg_irq_handler status s = Some s'"
  shows "link_law i (ring_mem s, ipc s) (Got j []) (ring_mem s', ipc s')"
proof -
  have l: "link_ok s" and bufs: "{txbuf (ipc s), rxbuf (ipc s)} = {host_txbuf, host_rxbuf}"
    and i: "i < SMSG_VALID_CH_NR" "channels (ipc s) ! i \<noteq> None" and acc: "\<forall>m \<in> set (rx_pending s). acceptable True m"
    using inv by (simp_all add: link_inv_iff)
  have acc': "\<forall>m \<in> set (rx_pending s). acceptable (debug_enable s) m" and conf: "\<forall>m \<in> set (rx_pending s). configured (msg_channel m)"
    using acc by (auto simp: acceptable_def)
  obtain t where t: "smsg_irq_handler status s = Some t" "ipc t = fold deliver (rx_pending s) (ipc s)" "rx_pending t = []" "link_ok t"
    using irq_delivers [OF l acc' s] by metis
  have eq: "t = s'" using t(1) irq by simp
  note fd = fold_deliver [OF link_okD(1) [OF l] conf] and fi = fold_deliver_inbox [OF link_okD(1) [OF l] conf i]
  have "inbox (ipc s') i = inbox (ipc s) i @ filter (for_channel i) (rx_pending s)"
    using fi t(2) room by (simp add: eq SMSG_CACHE_NR_def)
  then show ?thesis
    using t fd fi bufs i unfolding eq link_law_def link_inv_iff on_the_way_iff by simp
qed

lemma law_receives:
  assumes inv: "link_inv i (ring_mem s, ipc s)" and s: "msg_locks s = []" "configured channel" "j = unat (channel2index channel)"
    and c: "channels (ipc s) ! j \<noteq> None" "inbox (ipc s) j \<noteq> []" "states (ipc s) ! j \<noteq> CHAN_STATE_FREE"
    and r: "smsg_recv s channel timeout = Some (rval, Some m, s')"
  shows "link_law i (ring_mem s, ipc s) (Got j [m]) (ring_mem s', ipc s')"
proof -
  have l: "link_ok s" using inv by (simp add: link_inv_iff)
  obtain ch x xs where ch: "channels (ipc s) ! j = Some ch" "chan_msgs ch = x # xs"
    using c(1,2) by (auto simp: inbox_def neq_Nil_conv)
  obtain t where t: "smsg_recv s channel timeout = Some (max 0 timeout, Some x, t)"
    "ipc t = set_chan j (ch\<lparr>ch_rdptr := ch_rdptr ch + 1\<rparr>) (ipc s)" "ring_mem t = ring_mem s" "link_ok t"
    using recv_takes [OF l s(2) s(3) [symmetric] s(1) ch c(3)] by metis
  have eq: "t = s'" "x = m" using t(1) r by simp_all
  have j: "j < length (channels (ipc s))" "i < length (channels (ipc s))"
    using channel2index_configured(2) [OF s(2)] s(3) link_okD(1) [OF l] inv by (simp_all add: ipc_ok_def link_inv_iff)
  have "chan_ok ch" using link_okD(1) [OF l] j(1) ch(1) by (simp add: ipc_ok_def)
  note pop = cache_pop [OF this ch(2)]
  have "inbox (ipc s) i = (if i = j then [m] else []) @ inbox (ipc s') i"
    using t(2) j ch pop(4) by (auto simp: inbox_def eq)
  moreover have "rx_pending s' = rx_pending s" using t(2,3) by (simp add: eq rx_pending_def)
  ultimately show ?thesis
    using inv t(2,4) j unfolding eq link_law_def link_inv_iff on_the_way_iff by (auto simp: nth_list_update)
qed

lemma link_io_law: "link_io m e m' \<Longrightarrow> link_inv i m \<Longrightarrow> link_law i m e m'"
proof (induction rule: link_io.induct)
  case (peer_message s p m timeout s') then show ?case by (intro law_peer_sends)
next
  case (own_message s m timeout s') then show ?case by (intro law_own_sends)
next
  case (interrupt s status s' j) then show ?case by (intro law_interrupt) (simp_all add: link_inv_iff)
next
  case (receives s channel j timeout rval m s') then show ?case by (intro law_receives)
qed

interpretation channel_stream: fifo_streams link_io "link_inv i" on_the_way "{i}" for i
proof
  fix m e m' assume "link_inv i m" "link_io m e m'"
  then show "link_inv i m'" using link_io_law [of m e m' i] by (simp add: link_law_def)
next
  fix m r ms m' q assume "link_inv i m" "link_io m (Wrote r ms) m'" "q \<in> {i}"
  then show "on_the_way m' q = on_the_way m q @ (if q = r then ms else [])"
    using link_io_law [of m "Wrote r ms" m' i] by (auto simp: link_law_def)
next
  fix m r ms m' q assume "link_inv i m" "link_io m (Got r ms) m'" "q \<in> {i}"
  then show "on_the_way m q = (if q = r then ms else []) @ on_the_way m' q"
    using link_io_law [of m "Got r ms" m' i] by (auto simp: link_law_def)
qed

section \<open>Closing a channel\<close>

definition close_msg :: "u8 \<Rightarrow> smsg" where
  "close_msg channel = smsg_set channel SMSG_TYPE_CLOSE SMSG_CLOSE_MAGIC 0"

lemma close_msg_simps [simp]: "msg_channel (close_msg c) = c" "msg_type (close_msg c) = SMSG_TYPE_CLOSE"
  "index_of (close_msg c) = unat (channel2index c)"
  by (simp_all add: close_msg_def smsg_set_def index_of_def)

lemma leaves_runs: "i < length (busy (ipc s)) \<Longrightarrow>
    do_actions (replicate n (Leaves i)) s = Some (upd_ipc (\<lambda>p. p\<lparr>busy := (busy p)[i := busy (ipc s) ! i - int n]\<rparr>) s)"
  by (induction n arbitrary: s) (simp_all add: do_action_def atomic_add_some upd_ipc_def diff_diff_eq)

lemma spin_free: "i < length (busy (ipc s)) \<Longrightarrow> busy (ipc s) ! i = 0 \<Longrightarrow> spin i s = Some s"
  by (simp add: spin_def elem_def)

text \<open>The receivers of a channel leave while the closer waits for them.\<close>

lemma close_waits:
  assumes "link_ok s" "msg_resources s = []" "configured channel" "i = unat (channel2index channel)" "length (tx_pending s) < 128"
    and "channels (ipc s) ! i = Some c" "busy (ipc s) ! i = int n" "msg_spins s = replicate n (Leaves i) # rest"
  shows "\<exists>s'. smsg_ch_close s channel timeout = Some (0, s') \<and> channels (ipc s') ! i = None \<and>
    states (ipc s') ! i = CHAN_STATE_UNUSED \<and> busy (ipc s') ! i = 0 \<and> tx_pending s' = tx_pending s @ [close_msg channel]"
proof -
  have ok: "ipc_ok (ipc s)" using assms(1) by (rule link_okD)
  have i: "i < length (busy (ipc s))" "i < length (channels (ipc s))" "i < length (states (ipc s))"
    using channel2index_configured(2) [OF assms(3)] assms(4) ok by (simp_all add: ipc_ok_def)
  have "may_send s (close_msg channel)" using assms(3,4,6) by (simp add: may_send_def)
  then obtain s1 where s1: "smsg_send s (close_msg channel) timeout = Some (0, s1)" "ipc s1 = ipc s"
    "tx_pending s1 = tx_pending s @ [close_msg channel]" "scripts s1 = scripts s"
    using send_appends [OF assms(1,2) _ assms(5), of "close_msg channel" timeout] by metis
  define s2 where "s2 = msg_emit (Wake_receivers i) (upd_ipc (\<lambda>p. p\<lparr>states := (states p)[i := CHAN_STATE_FREE]\<rparr>) s1)"
  have s2: "close_begin channel timeout s = Some s2" "ipc s2 = (ipc s)\<lparr>states := (states (ipc s))[i := CHAN_STATE_FREE]\<rparr>"
    "scripts s2 = scripts s" "tx_pending s2 = tx_pending s @ [close_msg channel]"
    using s1 i assms(4)
    by (simp_all add: close_begin_def s2_def set_chan_state_def close_msg_def tx_pending_def Let_def)
  define s3 where "s3 = (if n = 0 then s2 else upd_ipc (\<lambda>p. p\<lparr>busy := (busy p)[i := 0]\<rparr>) (s2\<lparr>msg_spins := rest\<rparr>))"
  have same: "(busy (ipc s))[i := 0] = busy (ipc s)" if "n = 0" using that assms(7) list_update_id [of "busy (ipc s)" i] by simp
  have "msg_spins s2 = replicate n (Leaves i) # rest" using s2(3) assms(8) by (simp add: scripts_def)
  then have s3: "spin i s2 = Some s3" "ipc s3 = (ipc s)\<lparr>states := (states (ipc s))[i := CHAN_STATE_FREE], busy := (busy (ipc s))[i := 0]\<rparr>"
    "tx_pending s3 = tx_pending s @ [close_msg channel]"
    using assms(7) i s2(2,4) leaves_runs [of i "s2\<lparr>msg_spins := rest\<rparr>" n]
    by (auto simp: spin_def elem_def s3_def tx_pending_def same)
  show ?thesis
    using channel2index_configured(1) [OF assms(3)] assms(4,6) i s2(1) s3
    by (simp add: smsg_ch_close_def Let_def elem_def set_channel_def spin_free set_chan_state_def tx_pending_def)
qed

section \<open>Properties\<close>

text \<open>An interrupt distributes what the peer sent. Every message in the ring goes to the cache of its
  channel, in order; an open channel keeps the first 256 of what it had and what came, the rest
  is dropped; the ring is empty afterwards and the other direction untouched.\<close>

theorem irq_distributes:
  assumes "link_ok s" "\<forall>m \<in> set (rx_pending s). acceptable (debug_enable s) m" "msg_resources s = []"
  shows "\<exists>s'. smsg_irq_handler status s = Some s' \<and> link_ok s' \<and> rx_pending s' = [] \<and> tx_pending s' = tx_pending s \<and>
    busy (ipc s') = busy (ipc s) \<and>
    (\<forall>i < SMSG_VALID_CH_NR. channels (ipc s) ! i \<noteq> None \<longrightarrow>
       inbox (ipc s') i = take SMSG_CACHE_NR (inbox (ipc s) i @ filter (for_channel i) (rx_pending s)))"
proof -
  have conf: "\<forall>m \<in> set (rx_pending s). configured (msg_channel m)" using assms(2) by (simp add: acceptable_def)
  note ok = link_okD(1) [OF assms(1)]
  obtain s' where s': "smsg_irq_handler status s = Some s'" "ipc s' = fold deliver (rx_pending s) (ipc s)" "rx_pending s' = []"
    "tx_pending s' = tx_pending s" "link_ok s'"
    using irq_delivers [OF assms] by metis
  have "\<forall>i < SMSG_VALID_CH_NR. channels (ipc s) ! i \<noteq> None \<longrightarrow>
      inbox (ipc s') i = take SMSG_CACHE_NR (inbox (ipc s) i @ filter (for_channel i) (rx_pending s))"
    unfolding s'(2) SMSG_CACHE_NR_def using fold_deliver_inbox [OF ok conf] by blast
  moreover have "busy (ipc s') = busy (ipc s)" unfolding s'(2) using fold_deliver [OF ok conf] by blast
  ultimately show ?thesis using s' by blast
qed

text \<open>C27. The messages of a channel arrive in order, each once. Whatever the order in which the peer
  sends, this side sends, takes its interrupts and its clients call \<^verbatim>\<open>smsg_recv\<close>, what \<^verbatim>\<open>smsg_recv\<close> returned on
  an open channel, followed by its cache and by what the ring holds for it, is what the peer sent to
  it with success; the ring holds at most 128 messages and the cache 256. The interrupts find room in
  the caches: a full cache drops messages.\<close>

theorem messages_in_order:
  assumes "link_inv i (b, p)" "inbox p i = []" "pending b (rxbuf p) = []" "chained link_io (b, p) es (b', p')"
  shows "written i es = delivered i es @ inbox p' i @ filter (for_channel i) (pending b' (rxbuf p')) \<and>
    length (pending b' (rxbuf p')) \<le> 128 \<and> length (inbox p' i) \<le> SMSG_CACHE_NR"
proof -
  have inv: "link_inv i (b', p')" using channel_stream.inv_chain [OF assms(1,4)] .
  then obtain c where c: "channels p' ! i = Some c" "chan_ok c" by (auto simp: link_inv_def ipc_ok_def)
  have "rxbuf p' \<in> {host_txbuf, host_rxbuf}" "bufs_ok b'" using inv by (auto simp: link_inv_def)
  then have "length (pending b' (rxbuf p')) \<le> 128" using buf_okD(7) by (auto simp: bufs_ok_def pending_def)
  moreover have "length (inbox p' i) \<le> SMSG_CACHE_NR" using c by (simp add: inbox_def chan_ok_def chan_msgs_def SMSG_CACHE_NR_def)
  ultimately show ?thesis
    using channel_stream.stream_law [OF assms(1,4), of i] assms(2,3) by (simp add: on_the_way_def)
qed

text \<open>Opening a channel without a time limit succeeds in both orders: when the peer opened first, and
  when its open message comes while the caller waits. The channel is then open, empty and unused,
  and exactly one open message was sent.\<close>

theorem channel_opens:
  assumes "quiet_link s i" "configured channel" "i = unat (channel2index channel)" "timeout < 0"
    and "states (ipc s) ! i = CHAN_STATE_CLIENT_OPENED \<or> msg_waits s = ([Peer_sends (open_msg channel), Irq], signal, left) # ws"
  shows "\<exists>s'. smsg_ch_open s channel timeout = Some (0, s') \<and> link_ok s' \<and> states (ipc s') ! i = CHAN_STATE_OPENED \<and>
    channels (ipc s') ! i \<noteq> None \<and> inbox (ipc s') i = [] \<and> busy (ipc s') ! i = 0 \<and>
    rx_pending s' = [] \<and> tx_pending s' = tx_pending s @ [open_msg channel]"
proof -
  obtain s1 where s1: "open_sent s i channel s1" "smsg_ch_open s channel timeout =
      (if states (ipc s) ! i = CHAN_STATE_CLIENT_OPENED then open_done i s1
       else open_wait (upd_ipc (\<lambda>p. p\<lparr>states := (states p)[i := CHAN_STATE_HOST_OPENED]\<rparr>) s1) i channel timeout)"
    using open_sends [OF assms(1-3)] .
  have "link_ok s" using assms(1) by (simp add: quiet_link_def)
  then have i: "i < SMSG_VALID_CH_NR" "i < length (channels (ipc s))" "i < length (busy (ipc s))"
    using channel2index_configured(2) [OF assms(2)] assms(3) link_okD(1) by (auto simp: ipc_ok_def)
  have "\<exists>t d. smsg_ch_open s channel timeout = open_done i t \<and> link_ok t \<and> busy (ipc t) ! i = 1 \<and> channels (ipc t) ! i = Some d \<and>
      chan_msgs d = [] \<and> rx_pending t = [] \<and> tx_pending t = tx_pending s @ [open_msg channel]"
  proof (cases "states (ipc s) ! i = CHAN_STATE_CLIENT_OPENED")
    case True
    then show ?thesis using s1 i new_channel_ok(2) by (auto simp: open_sent_def)
  next
    case False
    then have w: "msg_waits s = ([Peer_sends (open_msg channel), Irq], signal, left) # ws" "timeout \<noteq> 0" using assms(4,5) by simp_all
    obtain t d where "open_wait (upd_ipc (\<lambda>p. p\<lparr>states := (states p)[i := CHAN_STATE_HOST_OPENED]\<rparr>) s1) i channel timeout =
        (if (if timeout < 0 then 0 else max 1 (min (int left) timeout)) = 0 then open_done i t
         else open_failed i (if timeout < 0 then 0 else max 1 (min (int left) timeout)) t)"
      "link_ok t" "busy (ipc t) ! i = 1" "channels (ipc t) ! i = Some d" "chan_ok d" "chan_msgs d = []" "rx_pending t = []"
      "tx_pending t = tx_pending s @ [open_msg channel]" "i < SMSG_VALID_CH_NR"
      using open_wait_answer [OF s1(1) assms(2,3,1) w] .
    then show ?thesis using s1(2) False assms(4) by auto
  qed
  then obtain t d where t: "smsg_ch_open s channel timeout = open_done i t" "link_ok t" "busy (ipc t) ! i = 1"
    "channels (ipc t) ! i = Some d" "chan_msgs d = []" "rx_pending t = []" "tx_pending t = tx_pending s @ [open_msg channel]"
    by blast
  have "i < length (busy (ipc t))" "i < length (states (ipc t))" using link_okD(1) [OF t(2)] i(1) by (simp_all add: ipc_ok_def)
  then show ?thesis
    using open_done_ok [OF t(2) i(1)] t by (auto simp: inbox_def)
qed

text \<open>Opening with a time limit fails although the peer answers in time: \<open>smsg_recv\<close> returns the time that
  is left, which \<open>smsg_ch_open\<close> takes for an error. The open message stays sent.\<close>

theorem timed_open_fails:
  assumes "quiet_link s i" "configured channel" "i = unat (channel2index channel)" "0 < timeout"
    and "states (ipc s) ! i = CHAN_STATE_UNUSED" "msg_waits s = ([Peer_sends (open_msg channel), Irq], signal, left) # ws"
  shows "\<exists>s' rval. smsg_ch_open s channel timeout = Some (rval, s') \<and> 0 < rval \<and> channels (ipc s') ! i = None \<and>
    states (ipc s') ! i = CHAN_STATE_UNUSED \<and> tx_pending s' = tx_pending s @ [open_msg channel]"
proof -
  define rval where "rval = max 1 (min (int left) timeout)"
  have rv: "0 < rval" "rval \<noteq> 0" "(if timeout < 0 then 0 else rval) = rval" using assms(4) by (simp_all add: rval_def)
  have st: "states (ipc s) ! i \<noteq> CHAN_STATE_CLIENT_OPENED" using assms(5) by (simp add: chan_state_defs)
  obtain s1 where s1: "open_sent s i channel s1" "smsg_ch_open s channel timeout =
      (if states (ipc s) ! i = CHAN_STATE_CLIENT_OPENED then open_done i s1
       else open_wait (upd_ipc (\<lambda>p. p\<lparr>states := (states p)[i := CHAN_STATE_HOST_OPENED]\<rparr>) s1) i channel timeout)"
    using open_sends [OF assms(1-3)] .
  have ne: "timeout \<noteq> 0" using assms(4) by simp
  obtain t d where t: "open_wait (upd_ipc (\<lambda>p. p\<lparr>states := (states p)[i := CHAN_STATE_HOST_OPENED]\<rparr>) s1) i channel timeout =
      (if (if timeout < 0 then 0 else max 1 (min (int left) timeout)) = 0 then open_done i t
       else open_failed i (if timeout < 0 then 0 else max 1 (min (int left) timeout)) t)"
    "link_ok t" "busy (ipc t) ! i = 1" "channels (ipc t) ! i = Some d" "chan_ok d" "chan_msgs d = []" "rx_pending t = []"
    "tx_pending t = tx_pending s @ [open_msg channel]" "i < SMSG_VALID_CH_NR"
    using open_wait_answer [OF s1(1) assms(2,3,1,6) ne] .
  show ?thesis
    using open_failed_ok [OF t(2,9,3), of rval] t(1,8) s1(2) st rv by (auto simp flip: rval_def)
qed

section \<open>Witnesses\<close>

text \<open>A host with an empty ring; channel 4 has index 5.\<close>

definition ex_link :: smsg_state where
  "ex_link = \<lparr>ipc = \<lparr>ipc_client = False, ipc_type = SIPC_BASE_PCIE, smem_type = SMEM_LOCAL, smem_base = 0, dst_smem_base = 0,
       ring_base = 0x1000, txbuf = host_txbuf, rxbuf = host_rxbuf, channels = replicate SMSG_VALID_CH_NR None,
       busy = replicate SMSG_VALID_CH_NR 0, states = replicate SMSG_VALID_CH_NR CHAN_STATE_UNUSED\<rparr>,
     ring_mem = replicate SZ_4K 0, debug_enable = False, g_wakeup_flag = 0,
     msg_waits = [([Peer_sends (open_msg 4), Irq], False, 3)], msg_spins = [], msg_locks = [], msg_resources = [],
     kzallocs = [], msg_effects = []\<rparr>"

lemma channel_4: "configured 4" "unat (channel2index 4) = 5"
  by (simp_all add: configured_def sipc_cfg_def channel2index_def SMSG_VALID_CH_NR_def Let_def)

lemma ex_link_ok: "link_ok ex_link" "rx_pending ex_link = []" "tx_pending ex_link = []" "quiet_link ex_link 5"
proof -
  show l: "link_ok ex_link" "rx_pending ex_link = []" "tx_pending ex_link = []"
    using fresh_ring host_bufs_disjoint fresh_ipc_ok [of "ipc ex_link"]
    by (simp_all add: link_ok_def rx_pending_def tx_pending_def fresh_ipc_def ex_link_def)
  show "quiet_link ex_link 5" using l by (simp add: quiet_link_def) (simp add: ex_link_def valid_nr)
qed

theorem channel_opens_witness:
  "quiet_link ex_link 5 \<and> (\<exists>s'. smsg_ch_open ex_link 4 (- 1) = Some (0, s') \<and> states (ipc s') ! 5 = CHAN_STATE_OPENED)"
  using channel_opens [OF ex_link_ok(4) channel_4(1) channel_4(2) [symmetric], of "- 1" False 3 "[]"] ex_link_ok(4)
  by (auto simp: ex_link_def)

theorem timed_open_fails_witness:
  "quiet_link ex_link 5 \<and> (\<exists>s' rval. smsg_ch_open ex_link 4 1000 = Some (rval, s') \<and> 0 < rval \<and> channels (ipc s') ! 5 = None)"
  using timed_open_fails [OF ex_link_ok(4) channel_4(1) channel_4(2) [symmetric], of 1000 False 3 "[]"] ex_link_ok(4)
  by (auto simp: ex_link_def valid_nr)

theorem irq_distributes_witness:
  "\<exists>s s'. link_ok s \<and> rx_pending s = [open_msg 4] \<and> smsg_irq_handler True s = Some s' \<and> rx_pending s' = []"
proof -
  obtain s where s: "do_action (Peer_sends (open_msg 4)) ex_link = Some s" "ipc s = ipc ex_link"
    "rx_pending s = rx_pending ex_link @ [open_msg 4]" "tx_pending s = tx_pending ex_link" "link_ok s" "scripts s = scripts ex_link"
    using peer_sends [OF ex_link_ok(1), of "open_msg 4"] ex_link_ok(2) by auto
  have "\<forall>m \<in> set (rx_pending s). acceptable (debug_enable s) m" "msg_resources s = []"
    using s(3,6) ex_link_ok(2) channel_4(1) by (simp_all add: acceptable_def scripts_def smsg_type_defs) (simp add: ex_link_def)
  from irq_distributes [OF s(5) this, of True] show ?thesis using s(3,5) ex_link_ok(2) by auto
qed

text \<open>The peer sends one message on channel 4, the interrupt comes, a client takes the message.\<close>

theorem messages_in_order_witness:
  "\<exists>p b' p'. link_inv 5 (replicate SZ_4K 0, p) \<and>
     chained link_io (replicate SZ_4K 0, p) [Wrote 5 [open_msg 4], Got 5 [], Got 5 [open_msg 4]] (b', p') \<and>
     [open_msg 4] = [open_msg 4] @ inbox p' 5 @ filter (for_channel 5) (pending b' (rxbuf p'))"
proof -
  let ?m = "open_msg 4" and ?b = "replicate SZ_4K 0"
  define s where "s = upd_ipc (set_chan 5 new_channel) ex_link"
  define q where "q = upd_ipc (\<lambda>p. p\<lparr>txbuf := host_rxbuf, rxbuf := host_txbuf\<rparr>) s"
  have s: "link_ok s" "tx_pending s = []" "rx_pending s = []" "ring_mem s = ?b" "txbuf (ipc s) = host_txbuf" "rxbuf (ipc s) = host_rxbuf"
    "channels (ipc s) ! 5 = Some new_channel" "states (ipc s) ! 5 = CHAN_STATE_UNUSED"
    using link_ok_upd [OF ex_link_ok(1), of "set_chan 5 new_channel"] set_chan_ok [OF link_okD(1) [OF ex_link_ok(1)] new_channel_ok(1)]
      ex_link_ok(2,3) by (simp_all add: s_def) (simp_all add: ex_link_def valid_nr)
  have q: "link_ok q" "tx_pending q = []" "msg_resources q = []" "ring_mem q = ?b" "ipc_ok (ipc q)" "may_send q ?m"
    using s(1-6) channel_4 host_bufs_disjoint
    by (simp_all add: q_def link_ok_def tx_pending_def rx_pending_def ipc_ok_def may_send_def valid_nr)
      (simp_all add: s_def ex_link_def upd_ipc_def valid_nr)
  have ty: "msg_type ?m < SMSG_TYPE_NR" "msg_type ?m \<noteq> SMSG_TYPE_DIE" "index_of ?m = 5"
    using channel_4 by (simp_all add: smsg_type_defs)
  obtain q1 where q1: "smsg_send q ?m 0 = Some (0, q1)" "tx_pending q1 = [?m]" "ipc q1 = ipc q" "link_ok q1"
    using send_appends [OF q(1,3,6)] q(2) by (metis append_Nil length_0_conv zero_less_numeral)
  have inv: "link_inv 5 (?b, ipc s)" using s by (simp add: link_inv_iff flip: s(4)) (simp add: valid_nr)
  have step1: "link_io (?b, ipc s) (Wrote 5 [?m]) (ring_mem q1, ipc s)"
    using link_io.peer_message [OF q(5,3) _ _ q(6) ty(1,2) q1(1), of "ipc s"] s(5,6) q(4) ty(3) by (simp add: q_def)
  define t where "t = s\<lparr>ring_mem := ring_mem q1\<rparr>"
  have t: "ipc t = ipc s" "ring_mem t = ring_mem q1" "rx_pending t = [?m]" "msg_resources t = []" "msg_locks t = []"
    using q1(2,3) s(6) by (simp_all add: t_def rx_pending_def tx_pending_def q_def) (simp_all add: s_def ex_link_def upd_ipc_def)
  have "link_inv 5 (ring_mem t, ipc t)"
    using link_io_law [OF step1 inv] t by (simp add: link_law_def)
  then have lt: "link_ok t" by (simp add: link_inv_iff)
  have acc: "\<forall>m \<in> set (rx_pending t). acceptable (debug_enable t) m" using t(3) channel_4(1) ty(2) by (simp add: acceptable_def)
  obtain u where u: "smsg_irq_handler True t = Some u" "ipc u = deliver ?m (ipc s)" "rx_pending u = []" "link_ok u" "scripts u = scripts t"
    using irq_delivers [OF lt acc t(4), of True] t(1,3) by (metis fold_simps)
  have room: "\<forall>i < SMSG_VALID_CH_NR. channels (ipc t) ! i \<noteq> None \<longrightarrow>
      length (inbox (ipc t) i) + length (filter (for_channel i) (rx_pending t)) \<le> SMSG_CACHE_NR"
  proof (intro allI impI)
    fix i assume "i < SMSG_VALID_CH_NR"
    then have "inbox (ipc t) i = []" using new_channel_ok(2) t(1)
      by (cases "i = 5") (simp_all add: inbox_def s_def ex_link_def upd_ipc_def valid_nr)
    then show "length (inbox (ipc t) i) + length (filter (for_channel i) (rx_pending t)) \<le> SMSG_CACHE_NR"
      using t(3) by (simp add: SMSG_CACHE_NR_def)
  qed
  have step2: "link_io (ring_mem q1, ipc s) (Got 5 []) (ring_mem u, ipc u)"
    using link_io.interrupt [OF t(4) room u(1), of 5] t(1,2) by simp
  have cp: "chan_ok (cache_put new_channel ?m)" "chan_msgs (cache_put new_channel ?m) = [?m]"
    using cache_put_spec [OF new_channel_ok(1), of ?m] new_channel_ok(2) by simp_all
  have len: "5 < length (channels (ipc s))" using link_okD(1) [OF s(1)] by (simp add: ipc_ok_def valid_nr)
  have d: "ipc u = (ipc s)\<lparr>channels := (channels (ipc s))[5 := Some (cache_put new_channel ?m)]\<rparr>"
    using u(2) s(7) ty by (simp add: deliver_def not_le)
  have ch: "channels (ipc u) ! 5 = Some (cache_put new_channel ?m)" "states (ipc u) ! 5 \<noteq> CHAN_STATE_FREE" "msg_locks u = []"
    using d len s(8) u(5) t(5) by (simp_all add: chan_state_defs scripts_def)
  obtain v where v: "smsg_recv u 4 0 = Some (0, Some ?m, v)"
    using recv_takes [OF u(4) channel_4(1,2) ch(3,1) cp(2) ch(2), of 0] by auto
  have "inbox (ipc u) 5 \<noteq> []" using ch(1) cp(2) by (simp add: inbox_def)
  then have step3: "link_io (ring_mem u, ipc u) (Got 5 [?m]) (ring_mem v, ipc v)"
    using link_io.receives [OF ch(3) channel_4(1) channel_4(2) [symmetric] _ _ ch(2) v] ch(1) by simp
  have c: "chained link_io (?b, ipc s) [Wrote 5 [?m], Got 5 [], Got 5 [?m]] (ring_mem v, ipc v)"
    using step1 step2 step3 by auto
  have "inbox (ipc s) 5 = []" "pending ?b (rxbuf (ipc s)) = []"
    using s(3,4,7) new_channel_ok(2) by (simp_all add: inbox_def rx_pending_def)
  from messages_in_order [OF inv this c] inv c show ?thesis by (intro exI [of _ "ipc s"] exI [of _ "ring_mem v"] exI [of _ "ipc v"]) simp
qed

end
