(* ===== verification/Sipc_Sbuf.thy ===== *)
theory Sipc_Sbuf
  imports Sipc_Smsg
begin

text \<open>
  The byte pipes of the Spreadtrum IPC (\<^verbatim>\<open>drivers/quectel-sprd-pcie/src/sipc/sbuf.c\<close>, \<^verbatim>\<open>sbuf.h\<close>): rings
  of bytes in memory shared with the modem, a pair per pipe, and the character device on top of
  them (\<^verbatim>\<open>spipe.c\<close>).

  The shared memory \<open>sbuf_smem\<close> has the header words and the data area behind them; a pointer to a
  header word is the index of the header and the name of the word, a pointer into the data area
  is an offset. The two sides (host and client) map the same memory: they have managers of their
  own whose pointers lead to the same words, with sending and receiving exchanged.

  \<open>sbuf_state\<close> is one manager with its mapping and its environment: what the peer and the other
  contexts do during a sleep (\<open>sleeps\<close>) and between two rounds of a copy loop (\<open>races\<close>), the results
  of taking a mutex (\<open>locks\<close>), of the power manager (\<open>resources\<close>) and of the copies from and to user
  space (\<open>faults\<close>, the number of bytes left out). Both macros \<open>BL_READL\<close> and \<open>BL_WRITEL\<close> are
  plain accesses on a little-endian host.
\<close>

section \<open>Constants and data\<close>

definition SMSG_CMD_SBUF_INIT :: u16 where "SMSG_CMD_SBUF_INIT = 1"
definition SMSG_DONE_SBUF_INIT :: u16 where "SMSG_DONE_SBUF_INIT = 2"
definition SMSG_EVENT_SBUF_WRPTR :: u16 where "SMSG_EVENT_SBUF_WRPTR = 1"
definition SMSG_EVENT_SBUF_RDPTR :: u16 where "SMSG_EVENT_SBUF_RDPTR = 2"

definition SBUF_NOTIFY_READY :: u32 where "SBUF_NOTIFY_READY = 0"
definition SBUF_NOTIFY_READ :: u32 where "SBUF_NOTIFY_READ = 1"
definition SBUF_NOTIFY_WRITE :: u32 where "SBUF_NOTIFY_WRITE = 2"

definition SBUF_STATE_IDLE :: u32 where "SBUF_STATE_IDLE = 0"
definition SBUF_STATE_READY :: u32 where "SBUF_STATE_READY = 1"

definition POLL_READ :: u32 where "POLL_READ = 0x1 OR 0x40"
definition POLL_WRITE :: u32 where "POLL_WRITE = 0x4 OR 0x100"

record sbuf_ring_header =
  txbuf_addr :: u32
  txbuf_size :: u32
  txbuf_rdptr :: u32
  txbuf_wrptr :: u32
  rxbuf_addr :: u32
  rxbuf_size :: u32
  rxbuf_rdptr :: u32
  rxbuf_wrptr :: u32

datatype header_word = Txbuf_rdptr | Txbuf_wrptr | Rxbuf_rdptr | Rxbuf_wrptr

type_synonym header_ptr = "nat \<times> header_word"

record sbuf_ring_header_op =
  rx_rd_p :: header_ptr
  rx_wt_p :: header_ptr
  tx_rd_p :: header_ptr
  tx_wt_p :: header_ptr
  rx_size :: u32
  tx_size :: u32

record sbuf_smem =
  smem_ringnr :: u32
  headers :: "sbuf_ring_header list"
  area :: "u8 list"

record sbuf_ring =
  header_op :: sbuf_ring_header_op
  txbuf_virt :: nat
  rxbuf_virt :: nat
  need_wake_lock :: bool
  poll_mask :: u32
  handler :: bool

record sbuf_mgr =
  sb_dst :: u8
  sb_channel :: u8
  force_send :: bool
  sb_state :: u32
  smem_addr :: u32
  smem_size :: u32
  dst_smem_addr :: u32
  ringnr :: u32
  rings :: "sbuf_ring list"
  sb_thread :: bool

datatype sipc_effect =
    Smsg_send u8 smsg
  | Wake_txwait nat | Wake_rxwait nat
  | Call_handler nat u32
  | Request_wakelock nat | Release_wakelock_later nat
  | Release_resource
  | Ch_wake_unlock | Ch_close
  | Free_sbuf

text \<open>What other contexts do: the peer writes a header word or a data byte, a message arrives at the
  thread of the channel, the channel goes down.\<close>

datatype sbuf_action = Set_word header_ptr u32 | Set_byte nat u8 | Receive smsg | Down

record sbuf_state =
  mgr :: sbuf_mgr
  mem :: sbuf_smem
  smem_local :: bool
  client :: bool
  sleeps :: "(sbuf_action list \<times> bool) list"
  races :: "sbuf_action list list"
  locks :: "bool list"
  resources :: "int list"
  faults :: "nat list"
  sb_effects :: "sipc_effect list"

section \<open>Access to the shared memory\<close>

definition BL_READL :: "sbuf_smem \<Rightarrow> header_ptr \<Rightarrow> u32 option" where
  "BL_READL m p =
     do {
       h \<leftarrow> elem (headers m) (fst p);
       Some (case snd p of Txbuf_rdptr \<Rightarrow> txbuf_rdptr h | Txbuf_wrptr \<Rightarrow> txbuf_wrptr h
             | Rxbuf_rdptr \<Rightarrow> rxbuf_rdptr h | Rxbuf_wrptr \<Rightarrow> rxbuf_wrptr h)
     }"

definition BL_WRITEL :: "sbuf_smem \<Rightarrow> header_ptr \<Rightarrow> u32 \<Rightarrow> sbuf_smem option" where
  "BL_WRITEL m p v =
     do {
       h \<leftarrow> elem (headers m) (fst p);
       let h = (case snd p of Txbuf_rdptr \<Rightarrow> h\<lparr>txbuf_rdptr := v\<rparr> | Txbuf_wrptr \<Rightarrow> h\<lparr>txbuf_wrptr := v\<rparr>
                | Rxbuf_rdptr \<Rightarrow> h\<lparr>rxbuf_rdptr := v\<rparr> | Rxbuf_wrptr \<Rightarrow> h\<lparr>rxbuf_wrptr := v\<rparr>);
       Some (m\<lparr>headers := (headers m)[fst p := h]\<rparr>)
     }"

text \<open>On a big-endian host (\<^verbatim>\<open>CONFIG_SIPC_BIG_TO_LITTLE\<close>) the macros exchange bytes; the argument is the word in
  memory and the value to store.\<close>

definition BL_READL_swapped :: "u32 \<Rightarrow> u32" where
  "BL_READL_swapped t = push_bit 24 (t AND 0x000000ff) + push_bit 8 (t AND 0x0000ff00) +
     drop_bit 8 (t AND 0x00ff0000) + drop_bit 24 (t AND 0xff000000)"

definition BL_WRITEL_swapped :: "u32 \<Rightarrow> u32" where
  "BL_WRITEL_swapped b = push_bit 24 (b AND 0x000000ff) + drop_bit 8 (b AND 0xff00) +
     drop_bit 8 (b AND 0x00ff0000) + drop_bit 24 (b AND 0xff000000)"

definition sb_emit :: "sipc_effect \<Rightarrow> sbuf_state \<Rightarrow> sbuf_state" where
  "sb_emit e s = s\<lparr>sb_effects := sb_effects s @ [e]\<rparr>"

definition upd_ring :: "sbuf_state \<Rightarrow> nat \<Rightarrow> (sbuf_ring \<Rightarrow> sbuf_ring) \<Rightarrow> sbuf_state" where
  "upd_ring s i f = s\<lparr>mgr := (mgr s)\<lparr>rings := (rings (mgr s))[i := f (rings (mgr s) ! i)]\<rparr>\<rparr>"

definition ring_of :: "sbuf_state \<Rightarrow> nat \<Rightarrow> sbuf_ring option" where
  "ring_of s i = elem (rings (mgr s)) i"

text \<open>Resources of the power manager: nothing to do for local memory.\<close>

definition sipc_smem_request_resource :: "sbuf_state \<Rightarrow> int \<times> sbuf_state" where
  "sipc_smem_request_resource s =
     (if smem_local s then (0, s)
      else case resources s of [] \<Rightarrow> (0, s) | r # rs \<Rightarrow> (r, s\<lparr>resources := rs\<rparr>))"

definition sipc_smem_release_resource :: "sbuf_state \<Rightarrow> sbuf_state" where
  "sipc_smem_release_resource s = (if smem_local s then s else sb_emit Release_resource s)"

definition set_poll :: "sbuf_state \<Rightarrow> nat \<Rightarrow> u32 \<Rightarrow> bool \<Rightarrow> sbuf_state" where
  "set_poll s i bits on =
     upd_ring s i (\<lambda>r. r\<lparr>poll_mask := (if on then poll_mask r OR bits else poll_mask r AND NOT bits)\<rparr>)"

text \<open>How full a ring is: the pointers run freely and their difference is taken modulo \<^verbatim>\<open>2^32\<close>. The
  comparisons of the source convert the signed difference back to an unsigned number.\<close>

definition tx_used :: "sbuf_state \<Rightarrow> sbuf_ring \<Rightarrow> u32 option" where
  "tx_used s r =
     do { wt \<leftarrow> BL_READL (mem s) (tx_wt_p (header_op r));
          rd \<leftarrow> BL_READL (mem s) (tx_rd_p (header_op r));
          Some (wt - rd) }"

definition rx_used :: "sbuf_state \<Rightarrow> sbuf_ring \<Rightarrow> u32 option" where
  "rx_used s r =
     do { wt \<leftarrow> BL_READL (mem s) (rx_wt_p (header_op r));
          rd \<leftarrow> BL_READL (mem s) (rx_rd_p (header_op r));
          Some (wt - rd) }"

definition sbuf_has_data :: "sbuf_state \<Rightarrow> nat \<Rightarrow> bool \<Rightarrow> bool option" where
  "sbuf_has_data s i tx =
     do {
       r \<leftarrow> ring_of s i;
       if smem_local s
       then (if tx then do { u \<leftarrow> tx_used s r; Some (u < tx_size (header_op r)) }
             else do { u \<leftarrow> rx_used s r; Some (u \<noteq> 0) })
       else Some (poll_mask r AND (if tx then POLL_WRITE else POLL_READ) \<noteq> 0)
     }"

section \<open>The thread of a channel\<close>

fun skip_rings :: "sbuf_state \<Rightarrow> nat list \<Rightarrow> sbuf_state option" where
  "skip_rings s [] = Some s"
| "skip_rings s (i # is) =
     do {
       r \<leftarrow> ring_of s i;
       v \<leftarrow> BL_READL (mem s) (rx_wt_p (header_op r));
       m \<leftarrow> BL_WRITEL (mem s) (rx_rd_p (header_op r)) v;
       skip_rings (upd_ring (s\<lparr>mem := m\<rparr>) i (\<lambda>r. r\<lparr>poll_mask := POLL_WRITE\<rparr>)) is
     }"

definition sbuf_skip_old_data :: "sbuf_state \<Rightarrow> sbuf_state option" where
  "sbuf_skip_old_data s =
     (let (rval, s) = sipc_smem_request_resource s
      in if rval < 0 then Some s
         else do {
           s \<leftarrow> skip_rings s [0..<unat (ringnr (mgr s))];
           Some (sipc_smem_release_resource s)
         })"

definition send :: "u8 \<Rightarrow> u16 \<Rightarrow> u32 \<Rightarrow> sbuf_state \<Rightarrow> sbuf_state" where
  "send ty fl v s = sb_emit (Smsg_send (sb_dst (mgr s)) (smsg_set (sb_channel (mgr s)) ty fl v)) s"

definition set_state :: "u32 \<Rightarrow> sbuf_state \<Rightarrow> sbuf_state" where
  "set_state st s = s\<lparr>mgr := (mgr s)\<lparr>sb_state := st\<rparr>\<rparr>"

fun notify_ready :: "sbuf_state \<Rightarrow> nat list \<Rightarrow> sbuf_state option" where
  "notify_ready s [] = Some s"
| "notify_ready s (i # is) =
     do {
       r \<leftarrow> ring_of s i;
       notify_ready (if handler r then sb_emit (Call_handler i SBUF_NOTIFY_READY) s else s) is
     }"

definition sbuf_event :: "sbuf_state \<Rightarrow> smsg \<Rightarrow> sbuf_state option" where
  "sbuf_event s m =
     (let i = unat (msg_value m)
      in do {
        r \<leftarrow> ring_of s i;
        Some (if msg_flag m = SMSG_EVENT_SBUF_RDPTR
              then let s = (if need_wake_lock r then sb_emit (Request_wakelock i) s else s);
                       s = sb_emit (Wake_txwait i) (set_poll s i POLL_WRITE True)
                   in if handler r then sb_emit (Call_handler i SBUF_NOTIFY_WRITE) s else s
              else if msg_flag m = SMSG_EVENT_SBUF_WRPTR
              then let s = set_poll s i POLL_READ True;
                       s = (if need_wake_lock r then sb_emit (Request_wakelock i) s else s);
                       s = sb_emit (Wake_rxwait i) s
                   in if handler r then sb_emit (Call_handler i SBUF_NOTIFY_READ) s else s
              else s)
      })"

text \<open>One message in the loop of \<open>sbuf_thread\<close>.\<close>

definition sbuf_thread_msg :: "sbuf_state \<Rightarrow> smsg \<Rightarrow> sbuf_state option" where
  "sbuf_thread_msg s m =
     do {
       s \<leftarrow> (if msg_type m = SMSG_TYPE_OPEN
              then if client s then Some s
                   else do {
                     s \<leftarrow> (if sb_state (mgr s) = SBUF_STATE_READY
                            then map_option (set_state SBUF_STATE_IDLE) (sbuf_skip_old_data s) else Some s);
                     Some (send SMSG_TYPE_OPEN SMSG_OPEN_MAGIC 0 s)
                   }
              else if msg_type m = SMSG_TYPE_CLOSE
              then do {
                s \<leftarrow> sbuf_skip_old_data s;
                Some (set_state SBUF_STATE_IDLE (send SMSG_TYPE_CLOSE SMSG_CLOSE_MAGIC 0 s))
              }
              else if msg_type m = SMSG_TYPE_CMD
              then if client s then Some s
                   else if sb_state (mgr s) = SBUF_STATE_IDLE \<and> msg_flag m = SMSG_CMD_SBUF_INIT
                   then let s = send SMSG_TYPE_DONE SMSG_DONE_SBUF_INIT (dst_smem_addr (mgr s)) s;
                            s = set_state SBUF_STATE_READY s
                        in notify_ready s [0..<unat (ringnr (mgr s))]
                   else Some s
              else if msg_type m = SMSG_TYPE_EVENT then sbuf_event s m
              else Some s);
       Some (sb_emit Ch_wake_unlock s)
     }"

definition sbuf_down :: "sbuf_state \<Rightarrow> sbuf_state" where
  "sbuf_down s =
     fold (\<lambda>i s. sb_emit (Wake_rxwait i) (sb_emit (Wake_txwait i) s)) [0..<length (rings (mgr s))]
       (set_state SBUF_STATE_IDLE s)"

section \<open>Other contexts\<close>

definition run_action :: "sbuf_action \<Rightarrow> sbuf_state \<Rightarrow> sbuf_state option" where
  "run_action a s =
     (case a of
        Set_word p v \<Rightarrow> map_option (\<lambda>m. s\<lparr>mem := m\<rparr>) (BL_WRITEL (mem s) p v)
      | Set_byte off b \<Rightarrow> Some (s\<lparr>mem := (mem s)\<lparr>area := (area (mem s))[off := b]\<rparr>\<rparr>)
      | Receive m \<Rightarrow> sbuf_thread_msg s m
      | Down \<Rightarrow> Some (sbuf_down s))"

fun run_actions :: "sbuf_action list \<Rightarrow> sbuf_state \<Rightarrow> sbuf_state option" where
  "run_actions [] s = Some s"
| "run_actions (a # as) s = do { s \<leftarrow> run_action a s; run_actions as s }"

text \<open>
  A sleep on \<open>txwait\<close> or \<open>rxwait\<close> until there is room or data or the channel is idle: the actions
  of the script happen, and then either the condition holds, or a signal arrives, or the time is
  over. With a negative timeout and no signal the sleep never ends.
\<close>

definition sbuf_sleep :: "sbuf_state \<Rightarrow> nat \<Rightarrow> bool \<Rightarrow> int \<Rightarrow> (int \<times> sbuf_state) option" where
  "sbuf_sleep s i tx timeout =
     (let (acts, signal) = (case sleeps s of [] \<Rightarrow> ([], False) | w # _ \<Rightarrow> w)
      in do {
        s \<leftarrow> run_actions acts (s\<lparr>sleeps := tl (sleeps s)\<rparr>);
        data \<leftarrow> sbuf_has_data s i tx;
        let idle = (sb_state (mgr s) = SBUF_STATE_IDLE);
        if data \<or> idle then Some (if idle then - EIO else 0, s)
        else if signal then Some (- ERESTARTSYS, s)
        else if timeout < 0 then None
        else Some (- ETIME, s)
      })"

definition take_lock :: "sbuf_state \<Rightarrow> bool \<times> sbuf_state" where
  "take_lock s = (case locks s of [] \<Rightarrow> (True, s) | b # bs \<Rightarrow> (b, s\<lparr>locks := bs\<rparr>))"

text \<open>Unlocking a mutex the thread does not hold has no defined result.\<close>

definition mutex_unlock :: "bool \<Rightarrow> sbuf_state \<Rightarrow> sbuf_state option" where
  "mutex_unlock held s = (if held then Some s else None)"

definition next_race :: "sbuf_state \<Rightarrow> sbuf_state option" where
  "next_race s =
     (case races s of [] \<Rightarrow> Some s | as # rest \<Rightarrow> run_actions as (s\<lparr>races := rest\<rparr>))"

text \<open>A copy of \<open>n\<close> bytes from or to the caller's buffer: the number of bytes left out, which is 0
  for a kernel buffer.\<close>

definition copy_fault :: "bool \<Rightarrow> nat \<Rightarrow> sbuf_state \<Rightarrow> nat \<times> sbuf_state" where
  "copy_fault user n s =
     (if \<not> user then (0, s)
      else case faults s of [] \<Rightarrow> (0, s) | k # ks \<Rightarrow> (min k n, s\<lparr>faults := ks\<rparr>))"

section \<open>Writing\<close>

datatype iteration = Stop | Fault | Moved nat

text \<open>Storing the first \<open>n\<close> bytes of the caller's buffer at an offset of the data area.\<close>

definition copy_in :: "bool \<Rightarrow> sbuf_state \<Rightarrow> nat \<Rightarrow> u8 list \<Rightarrow> nat \<Rightarrow> (bool \<times> sbuf_state) option" where
  "copy_in user s pos buf n =
     do {
       let (missing, s) = copy_fault user n s;
       bytes \<leftarrow> rdn buf 0 (n - missing);
       a \<leftarrow> puts (area (mem s)) pos bytes;
       Some (missing = 0, s\<lparr>mem := (mem s)\<lparr>area := a\<rparr>\<rparr>)
     }"

text \<open>One round of the copy loop: its condition, the copy with the wrap at the end of the ring, the
  new write pointer and the event for the peer.\<close>

definition write_round :: "bool \<Rightarrow> sbuf_state \<Rightarrow> nat \<Rightarrow> u8 list \<Rightarrow> int \<Rightarrow> (iteration \<times> sbuf_state) option" where
  "write_round user s i buf left =
     do {
       s \<leftarrow> next_race s;
       r \<leftarrow> ring_of s i;
       used \<leftarrow> tx_used s r;
       let size = tx_size (header_op r);
       if left = 0 \<or> size \<le> used \<or> sb_state (mgr s) \<noteq> SBUF_STATE_READY then Some (Stop, s)
       else do {
         wt \<leftarrow> BL_READL (mem s) (tx_wt_p (header_op r));
         let txpos = txbuf_virt r + unat (wt mod size);
         let txsize = min (sint (size - used)) left;
         if txsize < 0 then None
         else do {
           let txsize = nat txsize;
           let tail = int (txpos + txsize) - int (txbuf_virt r + unat size);
           (ok, s) \<leftarrow> (if tail > 0
                       then do {
                         (ok, s) \<leftarrow> copy_in user s txpos buf (txsize - nat tail);
                         if ok then copy_in user s (txbuf_virt r) (drop (txsize - nat tail) buf) (nat tail)
                         else Some (False, s)
                       }
                       else copy_in user s txpos buf txsize);
           if \<not> ok then Some (Fault, s)
           else do {
             m \<leftarrow> BL_WRITEL (mem s) (tx_wt_p (header_op r)) (wt + of_nat txsize);
             let s = s\<lparr>mem := m\<rparr>;
             used \<leftarrow> tx_used s r;
             Some (Moved txsize,
                   if force_send (mgr s) \<or> used = of_nat txsize
                   then send SMSG_TYPE_EVENT SMSG_EVENT_SBUF_WRPTR (of_nat i) s else s)
           }
         }
       }
     }"

function write_loop ::
  "bool \<Rightarrow> sbuf_state \<Rightarrow> nat \<Rightarrow> u8 list \<Rightarrow> int \<Rightarrow> int \<Rightarrow> (int \<times> int \<times> sbuf_state) option" where
  "write_loop user s i buf left rval =
     (case write_round user s i buf left of
        None \<Rightarrow> None
      | Some (Stop, s) \<Rightarrow> Some (rval, left, s)
      | Some (Fault, s) \<Rightarrow> Some (- EFAULT, left, s)
      | Some (Moved n, s) \<Rightarrow>
          if 0 < n \<and> int n \<le> left then write_loop user s i (drop n buf) (left - int n) rval else None)"
  by pat_completeness auto
termination
  by (relation "measure (\<lambda>(_, _, _, _, left, _). nat left)") auto

definition update_write_mask :: "sbuf_state \<Rightarrow> nat \<Rightarrow> (bool \<times> sbuf_state) option" where
  "update_write_mask s i =
     do {
       r \<leftarrow> ring_of s i;
       used \<leftarrow> tx_used s r;
       let full = (tx_size (header_op r) \<le> used);
       Some (full, set_poll s i POLL_WRITE (\<not> full))
     }"

definition end_access :: "bool \<Rightarrow> sbuf_state \<Rightarrow> nat \<Rightarrow> sbuf_state option" where
  "end_access held s i =
     do {
       r \<leftarrow> ring_of s i;
       let s = sipc_smem_release_resource s;
       mutex_unlock held (if need_wake_lock r then sb_emit (Release_wakelock_later i) s else s)
     }"

text \<open>\<open>user\<close> says whether \<open>buf\<close> is a user space address; \<open>len - left\<close> is computed in 32 bits and
  returned as an \<^verbatim>\<open>int\<close>.\<close>

definition sbuf_write_ring ::
  "bool \<Rightarrow> sbuf_state \<Rightarrow> u32 \<Rightarrow> u8 list \<Rightarrow> u32 \<Rightarrow> int \<Rightarrow> (int \<times> sbuf_state) option" where
  "sbuf_write_ring user s bufid buf len timeout =
     (let i = unat bufid
      in if sb_state (mgr s) \<noteq> SBUF_STATE_READY then Some (- ENODEV, s)
         else
           let (held, s) = take_lock s
           in if timeout = 0 \<and> \<not> held then Some (- EBUSY, s)
              else
                let (rval, s) = sipc_smem_request_resource s
                in if rval < 0 then do { s \<leftarrow> mutex_unlock held s; Some (rval, s) }
                   else do {
                     (full, s) \<leftarrow> update_write_mask s i;
                     let s = sipc_smem_release_resource s;
                     (rval, s) \<leftarrow> (if \<not> full then Some (rval, s)
                                  else if timeout = 0 then Some (- EBUSY, s)
                                  else sbuf_sleep s i True timeout);
                     if rval < 0 then do { s \<leftarrow> mutex_unlock held s; Some (rval, s) }
                     else
                       let (rval, s) = sipc_smem_request_resource s
                       in if rval < 0 then do { s \<leftarrow> mutex_unlock held s; Some (rval, s) }
                          else do {
                            (rval, left, s) \<leftarrow> write_loop user s i buf (sint len) rval;
                            (_, s) \<leftarrow> update_write_mask s i;
                            s \<leftarrow> end_access held s i;
                            Some (if left = sint len then rval else sint len - left, s)
                          }
                   })"

section \<open>Reading\<close>

text \<open>Copying \<open>n\<close> bytes of the data area out; what a fault leaves out is not delivered.\<close>

definition copy_out :: "bool \<Rightarrow> sbuf_state \<Rightarrow> nat \<Rightarrow> nat \<Rightarrow> (bool \<times> u8 list \<times> sbuf_state) option" where
  "copy_out user s pos n =
     do {
       let (missing, s) = copy_fault user n s;
       bytes \<leftarrow> rdn (area (mem s)) pos (n - missing);
       Some (missing = 0, bytes, s)
     }"

text \<open>One round of the copy loop. A pointer difference larger than the ring is only logged.\<close>

definition read_round :: "bool \<Rightarrow> sbuf_state \<Rightarrow> nat \<Rightarrow> int \<Rightarrow> (iteration \<times> u8 list \<times> sbuf_state) option" where
  "read_round user s i left =
     do {
       s \<leftarrow> next_race s;
       r \<leftarrow> ring_of s i;
       used \<leftarrow> rx_used s r;
       let size = rx_size (header_op r);
       if left = 0 \<or> used = 0 \<or> sb_state (mgr s) \<noteq> SBUF_STATE_READY then Some (Stop, [], s)
       else if size = 0 then None
       else do {
         rd \<leftarrow> BL_READL (mem s) (rx_rd_p (header_op r));
         let rxpos = rxbuf_virt r + unat (rd mod size);
         let rxsize = min (sint used) left;
         if rxsize < 0 then None
         else do {
           let rxsize = nat rxsize;
           let tail = int (rxpos + rxsize) - int (rxbuf_virt r + unat size);
           (ok, bytes, s) \<leftarrow> (if tail > 0
                       then do {
                         (ok, xs, s) \<leftarrow> copy_out user s rxpos (rxsize - nat tail);
                         if ok then do {
                           (ok, ys, s) \<leftarrow> copy_out user s (rxbuf_virt r) (nat tail);
                           Some (ok, xs @ ys, s)
                         }
                         else Some (False, xs, s)
                       }
                       else copy_out user s rxpos rxsize);
           if \<not> ok then Some (Fault, bytes, s)
           else do {
             m \<leftarrow> BL_WRITEL (mem s) (rx_rd_p (header_op r)) (rd + of_nat rxsize);
             let s = s\<lparr>mem := m\<rparr>;
             used \<leftarrow> rx_used s r;
             Some (Moved rxsize, bytes,
                   if used = size - of_nat rxsize
                   then send SMSG_TYPE_EVENT SMSG_EVENT_SBUF_RDPTR (of_nat i) s else s)
           }
         }
       }
     }"

text \<open>The bytes delivered so far are accumulated in \<open>out\<close>; those of a round with a fault are in the
  caller's buffer but not counted.\<close>

function read_loop ::
  "bool \<Rightarrow> sbuf_state \<Rightarrow> nat \<Rightarrow> int \<Rightarrow> int \<Rightarrow> u8 list \<Rightarrow> (int \<times> int \<times> u8 list \<times> sbuf_state) option" where
  "read_loop user s i left rval out =
     (case read_round user s i left of
        None \<Rightarrow> None
      | Some (Stop, _, s) \<Rightarrow> Some (rval, left, out, s)
      | Some (Fault, _, s) \<Rightarrow> Some (- EFAULT, left, out, s)
      | Some (Moved n, bytes, s) \<Rightarrow>
          if 0 < n \<and> int n \<le> left then read_loop user s i (left - int n) rval (out @ bytes) else None)"
  by pat_completeness auto
termination
  by (relation "measure (\<lambda>(_, _, _, left, _, _). nat left)") auto

definition update_read_mask :: "sbuf_state \<Rightarrow> nat \<Rightarrow> (bool \<times> sbuf_state) option" where
  "update_read_mask s i =
     do {
       r \<leftarrow> ring_of s i;
       used \<leftarrow> rx_used s r;
       Some (used = 0, set_poll s i POLL_READ (used \<noteq> 0))
     }"

definition sbuf_read_ring ::
  "bool \<Rightarrow> sbuf_state \<Rightarrow> u32 \<Rightarrow> u32 \<Rightarrow> int \<Rightarrow> (int \<times> u8 list \<times> sbuf_state) option" where
  "sbuf_read_ring user s bufid len timeout =
     (let i = unat bufid
      in if sb_state (mgr s) \<noteq> SBUF_STATE_READY then Some (- ENODEV, [], s)
         else
           let (held, s) = take_lock s
           in if timeout = 0 \<and> \<not> held then Some (- EBUSY, [], s)
              else
                let (rval, s) = sipc_smem_request_resource s
                in if rval < 0 then do { s \<leftarrow> mutex_unlock held s; Some (rval, [], s) }
                   else do {
                     (no_data, s) \<leftarrow> update_read_mask s i;
                     let s = sipc_smem_release_resource s;
                     (rval, s) \<leftarrow> (if \<not> no_data then Some (rval, s)
                                  else if timeout = 0 then Some (- ENODATA, s)
                                  else sbuf_sleep s i False timeout);
                     if rval < 0 then do { s \<leftarrow> mutex_unlock held s; Some (rval, [], s) }
                     else
                       let (rval, s) = sipc_smem_request_resource s
                       in if rval < 0 then do { s \<leftarrow> mutex_unlock held s; Some (rval, [], s) }
                          else do {
                            (rval, left, out, s) \<leftarrow> read_loop user s i (sint len) rval [];
                            (_, s) \<leftarrow> update_read_mask s i;
                            s \<leftarrow> end_access held s i;
                            Some (if left = sint len then rval else sint len - left, out, s)
                          }
                   })"

section \<open>Setting up and tearing down\<close>

text \<open>The results of the calls of \<open>sbuf_create\<close> and of the two initialisations that leave the model:
  \<^verbatim>\<open>smem_alloc\<close> (0 when it fails), \<^verbatim>\<open>shmem_ram_vmap_nocache\<close> (a client calls it twice), the allocations, the power manager and
  \<^verbatim>\<open>kthread_create\<close>.\<close>

record create_env =
  alloc_addr :: u32
  vmap_ok :: bool
  remap_ok :: bool
  kzalloc_ok :: bool
  kcalloc_ok :: bool
  request_result :: int
  thread_result :: int

definition sbuf_comm_init :: "sbuf_mgr \<Rightarrow> sbuf_mgr" where
  "sbuf_comm_init b = b\<lparr>rings := map (\<lambda>r. r\<lparr>poll_mask := POLL_WRITE, need_wake_lock := True\<rparr>) (rings b)\<rparr>"

definition host_header :: "sbuf_mgr \<Rightarrow> u32 \<Rightarrow> u32 \<Rightarrow> u32 \<Rightarrow> nat \<Rightarrow> sbuf_ring_header" where
  "host_header b hsize txbufsize rxbufsize i =
     (let addr = dst_smem_addr b + hsize + (txbufsize + rxbufsize) * of_nat i
      in \<lparr>txbuf_addr = addr, txbuf_size = txbufsize, txbuf_rdptr = 0, txbuf_wrptr = 0,
          rxbuf_addr = addr + txbufsize, rxbuf_size = rxbufsize, rxbuf_rdptr = 0, rxbuf_wrptr = 0\<rparr>)"

definition host_ring :: "u32 \<Rightarrow> u32 \<Rightarrow> nat \<Rightarrow> sbuf_ring" where
  "host_ring txbufsize rxbufsize i =
     (let virt = unat ((txbufsize + rxbufsize) * of_nat i)
      in \<lparr>header_op = \<lparr>rx_rd_p = (i, Rxbuf_rdptr), rx_wt_p = (i, Rxbuf_wrptr), tx_rd_p = (i, Txbuf_rdptr),
            tx_wt_p = (i, Txbuf_wrptr), rx_size = rxbufsize, tx_size = txbufsize\<rparr>,
          txbuf_virt = virt, rxbuf_virt = virt + unat txbufsize, need_wake_lock = False, poll_mask = 0,
          handler = False\<rparr>)"

definition header_size :: "u32 \<Rightarrow> u32" where
  "header_size bufnum = 4 + 32 * bufnum"

text \<open>The mapped memory must reach beyond the headers that are stored into it.\<close>

definition sbuf_host_init ::
  "create_env \<Rightarrow> smsg_ipc \<Rightarrow> sbuf_mgr \<Rightarrow> u32 \<Rightarrow> u32 \<Rightarrow> u32 \<Rightarrow> u8 list \<Rightarrow> (int + sbuf_mgr \<times> sbuf_smem) option" where
  "sbuf_host_init env sipc b bufnum txbufsize rxbufsize content =
     (let hsize = header_size bufnum;
          b = b\<lparr>ringnr := bufnum, smem_size := hsize + (txbufsize + rxbufsize) * bufnum, smem_addr := alloc_addr env\<rparr>;
          n = unat bufnum
      in if smem_addr b = 0 then Some (Inl (- ENOMEM))
         else
           let b = b\<lparr>dst_smem_addr := smem_addr b - smem_base sipc + dst_smem_base sipc\<rparr>
           in if \<not> vmap_ok env then Some (Inl (- EFAULT))
              else if \<not> kcalloc_ok env then Some (Inl (- ENOMEM))
              else if request_result env < 0 then Some (Inl (request_result env))
              else if unat (smem_size b) < 4 + 32 * n then None
              else
                let m = \<lparr>smem_ringnr = bufnum, headers = map (host_header b hsize txbufsize rxbufsize) [0..<n],
                         area = take (unat (smem_size b) - (4 + 32 * n)) content\<rparr>
                in Some (Inr (sbuf_comm_init (b\<lparr>rings := map (host_ring txbufsize rxbufsize) [0..<n]\<rparr>), m)))"

definition client_ring :: "u32 \<Rightarrow> u32 \<Rightarrow> sbuf_ring_header \<Rightarrow> nat \<Rightarrow> sbuf_ring" where
  "client_ring txbufsize rxbufsize h i =
     (let virt = unat ((txbufsize + rxbufsize) * of_nat i)
      in \<lparr>header_op = \<lparr>rx_rd_p = (i, Txbuf_rdptr), rx_wt_p = (i, Txbuf_wrptr), tx_rd_p = (i, Rxbuf_rdptr),
            tx_wt_p = (i, Rxbuf_wrptr), rx_size = txbuf_size h, tx_size = rxbuf_size h\<rparr>,
          txbuf_virt = virt + unat rxbufsize, rxbuf_virt = virt, need_wake_lock = False, poll_mask = 0,
          handler = False\<rparr>)"

definition sbuf_client_init :: "create_env \<Rightarrow> sbuf_smem \<Rightarrow> sbuf_mgr \<Rightarrow> (int + sbuf_mgr) option" where
  "sbuf_client_init env m b =
     (if \<not> vmap_ok env then Some (Inl (- EFAULT))
      else do {
        h0 \<leftarrow> elem (headers m) 0;
        let bufnum = smem_ringnr m;
        let txbufsize = rxbuf_size h0;
        let rxbufsize = txbuf_size h0;
        let b = b\<lparr>ringnr := bufnum, smem_size := header_size bufnum + (txbufsize + rxbufsize) * bufnum\<rparr>;
        if alloc_addr env = 0 then Some (Inl (- ENOMEM))
        else if \<not> remap_ok env then Some (Inl (- EFAULT))
        else if \<not> kcalloc_ok env then Some (Inl (- ENOMEM))
        else if request_result env < 0 then Some (Inl (request_result env))
        else if length (headers m) < unat bufnum then None
        else Some (Inr (sbuf_comm_init (b\<lparr>rings :=
               map (\<lambda>i. client_ring txbufsize rxbufsize (headers m ! i) i) [0..<unat bufnum]\<rparr>)))
      })"

text \<open>The start of \<open>sbuf_thread\<close> on a client: the request for the memory, the messages up to the answer,
  and the mapping of what the host set up.\<close>

definition sbuf_thread_client :: "create_env \<Rightarrow> sbuf_state \<Rightarrow> smsg list \<Rightarrow> sbuf_state option" where
  "sbuf_thread_client env s msgs =
     (let s = send SMSG_TYPE_CMD SMSG_CMD_SBUF_INIT 0 s
      in case dropWhile (\<lambda>m. msg_type m \<noteq> SMSG_TYPE_DONE \<or> msg_flag m \<noteq> SMSG_DONE_SBUF_INIT) msgs of
           [] \<Rightarrow> None
         | d # _ \<Rightarrow>
             let s = s\<lparr>mgr := (mgr s)\<lparr>smem_addr := msg_value d\<rparr>\<rparr>
             in do {
               r \<leftarrow> sbuf_client_init env (mem s) (mgr s);
               Some (case r of
                       Inl _ \<Rightarrow> s\<lparr>mgr := (mgr s)\<lparr>sb_thread := False\<rparr>\<rparr>
                     | Inr b \<Rightarrow> set_state SBUF_STATE_READY (s\<lparr>mgr := b\<rparr>))
             })"

record sipc_sys =
  smsg_ipcs :: "u8 \<Rightarrow> smsg_ipc option"
  sbufs :: "u8 \<times> u8 \<Rightarrow> sbuf_state option"

definition new_mgr :: "u8 \<Rightarrow> u8 \<Rightarrow> bool \<Rightarrow> sbuf_mgr" where
  "new_mgr dst channel force =
     \<lparr>sb_dst = dst, sb_channel = channel, force_send = force, sb_state = SBUF_STATE_IDLE, smem_addr = 0,
      smem_size = 0, dst_smem_addr = 0, ringnr = 0, rings = [], sb_thread = True\<rparr>"

definition new_state :: "smsg_ipc \<Rightarrow> sbuf_mgr \<Rightarrow> sbuf_smem \<Rightarrow> sbuf_state" where
  "new_state sipc b m =
     \<lparr>mgr = b, mem = m, smem_local = (smem_type sipc = SMEM_LOCAL), client = ipc_client sipc, sleeps = [], races = [],
      locks = [], resources = [], faults = [], sb_effects = []\<rparr>"

text \<open>\<open>content\<close> is what the allocated memory holds; a client maps its memory later.\<close>

definition sbuf_create ::
  "create_env \<Rightarrow> u8 list \<Rightarrow> sipc_sys \<Rightarrow> u8 \<Rightarrow> u8 \<Rightarrow> u32 \<Rightarrow> u32 \<Rightarrow> u32 \<Rightarrow> (int \<times> sipc_sys) option" where
  "sbuf_create env content sys dst channel bufnum txbufsize rxbufsize =
     (if SIPC_ID_NR \<le> unat dst then None
      else
        let ch_index = channel2index channel
        in if ch_index = INVALID_CHANEL_INDEX then Some (- EINVAL, sys)
           else case smsg_ipcs sys dst of
             None \<Rightarrow> Some (- EINVAL, sys)
           | Some sipc \<Rightarrow>
               if \<not> kzalloc_ok env then Some (- ENOMEM, sys)
               else
                 let b = new_mgr dst channel (ipc_type sipc = SIPC_BASE_PCIE \<and> (smem_type sipc = SMEM_LOCAL))
                 in do {
                   r \<leftarrow> (if ipc_client sipc then Some (Inr (b, \<lparr>smem_ringnr = 0, headers = [], area = []\<rparr>))
                          else sbuf_host_init env sipc b bufnum txbufsize rxbufsize content);
                   Some (case r of
                           Inl ret \<Rightarrow> (ret, sys)
                         | Inr (b, m) \<Rightarrow>
                             if thread_result env \<noteq> 0 then (thread_result env, sys)
                             else (0, sys\<lparr>sbufs := (sbufs sys)((dst, ch_index) := Some (new_state sipc b m))\<rparr>))
                 })"

section \<open>Calls by channel\<close>

definition find_sbuf :: "sipc_sys \<Rightarrow> u8 \<Rightarrow> u8 \<Rightarrow> (int + sbuf_state) option" where
  "find_sbuf sys dst channel =
     (let ch_index = channel2index channel
      in if ch_index = INVALID_CHANEL_INDEX then Some (Inl (- EINVAL))
         else if SIPC_ID_NR \<le> unat dst then None
         else Some (case sbufs sys (dst, ch_index) of None \<Rightarrow> Inl (- ENODEV) | Some s \<Rightarrow> Inr s))"

definition put_sbuf :: "sipc_sys \<Rightarrow> u8 \<Rightarrow> u8 \<Rightarrow> sbuf_state \<Rightarrow> sipc_sys" where
  "put_sbuf sys dst channel s = sys\<lparr>sbufs := (sbufs sys)((dst, channel2index channel) := Some s)\<rparr>"

definition sbuf_write ::
  "bool \<Rightarrow> sipc_sys \<Rightarrow> u8 \<Rightarrow> u8 \<Rightarrow> u32 \<Rightarrow> u8 list \<Rightarrow> u32 \<Rightarrow> int \<Rightarrow> (int \<times> sipc_sys) option" where
  "sbuf_write user sys dst channel bufid buf len timeout =
     do {
       f \<leftarrow> find_sbuf sys dst channel;
       case f of
         Inl e \<Rightarrow> Some (e, sys)
       | Inr s \<Rightarrow> do {
           (ret, s) \<leftarrow> sbuf_write_ring user s bufid buf len timeout;
           Some (ret, put_sbuf sys dst channel s)
         }
     }"

definition sbuf_read ::
  "bool \<Rightarrow> sipc_sys \<Rightarrow> u8 \<Rightarrow> u8 \<Rightarrow> u32 \<Rightarrow> u32 \<Rightarrow> int \<Rightarrow> (int \<times> u8 list \<times> sipc_sys) option" where
  "sbuf_read user sys dst channel bufid len timeout =
     do {
       f \<leftarrow> find_sbuf sys dst channel;
       case f of
         Inl e \<Rightarrow> Some (e, [], sys)
       | Inr s \<Rightarrow> do {
           (ret, out, s) \<leftarrow> sbuf_read_ring user s bufid len timeout;
           Some (ret, out, put_sbuf sys dst channel s)
         }
     }"

definition sbuf_poll_wait :: "sipc_sys \<Rightarrow> u8 \<Rightarrow> u8 \<Rightarrow> u32 \<Rightarrow> u32 option" where
  "sbuf_poll_wait sys dst channel bufid =
     do {
       f \<leftarrow> find_sbuf sys dst channel;
       case f of
         Inl _ \<Rightarrow> Some 0
       | Inr s \<Rightarrow>
           if sb_state (mgr s) \<noteq> SBUF_STATE_READY then Some 0
           else do {
             w \<leftarrow> sbuf_has_data s (unat bufid) True;
             r \<leftarrow> sbuf_has_data s (unat bufid) False;
             Some ((if w then POLL_WRITE else 0) OR (if r then POLL_READ else 0))
           }
     }"

definition sbuf_status :: "sipc_sys \<Rightarrow> u8 \<Rightarrow> u8 \<Rightarrow> int option" where
  "sbuf_status sys dst channel =
     do {
       f \<leftarrow> find_sbuf sys dst channel;
       Some (case f of
               Inl e \<Rightarrow> e
             | Inr s \<Rightarrow> if sb_state (mgr s) \<noteq> SBUF_STATE_READY then - ENODEV else 0)
     }"

definition sbuf_register_notifier :: "sipc_sys \<Rightarrow> u8 \<Rightarrow> u8 \<Rightarrow> u32 \<Rightarrow> (int \<times> sipc_sys) option" where
  "sbuf_register_notifier sys dst channel bufid =
     do {
       f \<leftarrow> find_sbuf sys dst channel;
       case f of
         Inl e \<Rightarrow> Some (e, sys)
       | Inr s \<Rightarrow> do {
           _ \<leftarrow> ring_of s (unat bufid);
           let s = upd_ring s (unat bufid) (\<lambda>r. r\<lparr>handler := True\<rparr>);
           let s = (if sb_state (mgr s) = SBUF_STATE_READY
                    then sb_emit (Call_handler (unat bufid) SBUF_NOTIFY_READ) s else s);
           Some (0, put_sbuf sys dst channel s)
         }
     }"

definition sbuf_set_no_need_wake_lock :: "sipc_sys \<Rightarrow> u8 \<Rightarrow> u8 \<Rightarrow> u32 \<Rightarrow> sipc_sys option" where
  "sbuf_set_no_need_wake_lock sys dst channel bufnum =
     do {
       f \<leftarrow> find_sbuf sys dst channel;
       case f of
         Inl e \<Rightarrow> Some sys
       | Inr s \<Rightarrow>
           if ringnr (mgr s) \<le> bufnum then Some sys
           else do {
             _ \<leftarrow> ring_of s (unat bufnum);
             Some (put_sbuf sys dst channel (upd_ring s (unat bufnum) (\<lambda>r. r\<lparr>need_wake_lock := False\<rparr>)))
           }
     }"

text \<open>Destroying a channel wakes everybody and frees the manager.\<close>

definition sbuf_destroy :: "sipc_sys \<Rightarrow> u8 \<Rightarrow> u8 \<Rightarrow> (sipc_effect list \<times> sipc_sys) option" where
  "sbuf_destroy sys dst channel =
     do {
       f \<leftarrow> find_sbuf sys dst channel;
       Some (case f of
               Inl e \<Rightarrow> ([], sys)
             | Inr s \<Rightarrow>
                 let s = sb_emit Ch_close (set_state SBUF_STATE_IDLE s);
                     s = sb_emit Free_sbuf (sbuf_down s)
                 in (sb_effects s, sys\<lparr>sbufs := (sbufs sys)((dst, channel2index channel) := None)\<rparr>))
     }"

section \<open>The character device\<close>

record spipe_sbuf =
  sp_dst :: u8
  sp_channel :: u8
  sp_bufid :: u32

definition spipe_open :: "bool \<Rightarrow> sipc_sys \<Rightarrow> u8 \<Rightarrow> u8 \<Rightarrow> u32 \<Rightarrow> u32 \<Rightarrow> (int + spipe_sbuf) option" where
  "spipe_open kmalloc_ok sys dst channel first_minor minor =
     do {
       st \<leftarrow> sbuf_status sys dst channel;
       Some (if st \<noteq> 0 then Inl (- ENODEV)
             else if \<not> kmalloc_ok then Inl (- ENOMEM)
             else Inr \<lparr>sp_dst = dst, sp_channel = channel, sp_bufid = minor - first_minor\<rparr>)
     }"

definition spipe_read :: "bool \<Rightarrow> sipc_sys \<Rightarrow> spipe_sbuf \<Rightarrow> u32 \<Rightarrow> (int \<times> u8 list \<times> sipc_sys) option" where
  "spipe_read nonblock sys f count =
     sbuf_read True sys (sp_dst f) (sp_channel f) (sp_bufid f) count (if nonblock then 0 else - 1)"

definition spipe_write :: "bool \<Rightarrow> sipc_sys \<Rightarrow> spipe_sbuf \<Rightarrow> u8 list \<Rightarrow> u32 \<Rightarrow> (int \<times> sipc_sys) option" where
  "spipe_write nonblock sys f buf count =
     sbuf_write True sys (sp_dst f) (sp_channel f) (sp_bufid f) buf count (if nonblock then 0 else - 1)"

definition spipe_poll :: "sipc_sys \<Rightarrow> spipe_sbuf \<Rightarrow> u32 option" where
  "spipe_poll sys f = sbuf_poll_wait sys (sp_dst f) (sp_channel f) (sp_bufid f)"

section \<open>Pipes\<close>

text \<open>One direction of a ring: where its pointers are, where its bytes are.\<close>

record pipe =
  p_rd :: header_ptr
  p_wt :: header_ptr
  p_base :: nat
  p_size :: u32

definition tx_pipe :: "sbuf_ring \<Rightarrow> pipe" where
  "tx_pipe r = \<lparr>p_rd = tx_rd_p (header_op r), p_wt = tx_wt_p (header_op r), p_base = txbuf_virt r,
     p_size = tx_size (header_op r)\<rparr>"

definition rx_pipe :: "sbuf_ring \<Rightarrow> pipe" where
  "rx_pipe r = \<lparr>p_rd = rx_rd_p (header_op r), p_wt = rx_wt_p (header_op r), p_base = rxbuf_virt r,
     p_size = rx_size (header_op r)\<rparr>"

definition hword :: "sbuf_smem \<Rightarrow> header_ptr \<Rightarrow> u32" where
  "hword m p = the (BL_READL m p)"

definition pipe_used :: "sbuf_smem \<Rightarrow> pipe \<Rightarrow> nat" where
  "pipe_used m p = unat (hword m (p_wt p) - hword m (p_rd p))"

text \<open>The invariant of a pipe. The size divides \<^verbatim>\<open>2^32\<close>, so that the position survives the wrap of
  the pointers.\<close>

definition pipe_ok :: "sbuf_smem \<Rightarrow> pipe \<Rightarrow> bool" where
  "pipe_ok m p \<longleftrightarrow>
     0 < unat (p_size p) \<and> unat (p_size p) dvd 2 ^ 32 \<and> unat (p_size p) < 2 ^ 31 \<and>
     p_base p + unat (p_size p) \<le> length (area m) \<and>
     fst (p_rd p) < length (headers m) \<and> fst (p_wt p) < length (headers m) \<and> p_rd p \<noteq> p_wt p \<and>
     pipe_used m p \<le> unat (p_size p)"

text \<open>The abstraction: the bytes written and not yet read, oldest first.\<close>

definition fifo :: "sbuf_smem \<Rightarrow> pipe \<Rightarrow> u8 list" where
  "fifo m p = ring_slice (\<lambda>q. area m ! (p_base p + q)) (unat (p_size p)) (unat (hword m (p_rd p))) (pipe_used m p)"

lemma length_fifo [simp]: "length (fifo m p) = pipe_used m p"
  by (simp add: fifo_def)

lemma BL_READL_hword: "fst p < length (headers m) \<Longrightarrow> BL_READL m p = Some (hword m p)"
  by (simp add: hword_def BL_READL_def elem_def)

lemma BL_WRITEL_spec:
  assumes "fst p < length (headers m)"
  obtains m' where "BL_WRITEL m p v = Some m'" "area m' = area m" "length (headers m') = length (headers m)"
    "hword m' p = v" "\<And>q. q \<noteq> p \<Longrightarrow> hword m' q = hword m q" "smem_ringnr m' = smem_ringnr m"
proof -
  define h where "h = headers m ! fst p"
  define h' where "h' = (case snd p of Txbuf_rdptr \<Rightarrow> h\<lparr>txbuf_rdptr := v\<rparr> | Txbuf_wrptr \<Rightarrow> h\<lparr>txbuf_wrptr := v\<rparr>
                | Rxbuf_rdptr \<Rightarrow> h\<lparr>rxbuf_rdptr := v\<rparr> | Rxbuf_wrptr \<Rightarrow> h\<lparr>rxbuf_wrptr := v\<rparr>)"
  show ?thesis
  proof (rule that [of "m\<lparr>headers := (headers m)[fst p := h']\<rparr>"])
    show "BL_WRITEL m p v = Some (m\<lparr>headers := (headers m)[fst p := h']\<rparr>)"
      unfolding h'_def h_def using assms by (simp add: BL_WRITEL_def elem_def)
    show "hword (m\<lparr>headers := (headers m)[fst p := h']\<rparr>) p = v"
      using assms by (cases "snd p") (simp_all add: hword_def BL_READL_def elem_def h'_def)
    fix q assume "q \<noteq> p"
    then show "hword (m\<lparr>headers := (headers m)[fst p := h']\<rparr>) q = hword m q"
      using assms
      by (cases "fst q = fst p"; cases "snd p"; cases "snd q")
        (auto simp: hword_def BL_READL_def elem_def h'_def h_def prod_eq_iff)
  qed simp_all
qed

lemma pipe_position:
  assumes "pipe_ok m p"
  shows "unat (hword m (p_wt p)) mod unat (p_size p) = (unat (hword m (p_rd p)) + pipe_used m p) mod unat (p_size p)"
proof -
  let ?w = "hword m (p_wt p)" and ?r = "hword m (p_rd p)" and ?n = "unat (p_size p)"
  have "unat ?w = unat (?r + (?w - ?r))" by simp
  also have "\<dots> = (unat ?r + unat (?w - ?r)) mod 2 ^ 32" by (simp only: unat_word_ariths) simp
  finally have "unat ?w mod ?n = (unat ?r + unat (?w - ?r)) mod 2 ^ 32 mod ?n" by simp
  also have "\<dots> = (unat ?r + unat (?w - ?r)) mod ?n"
    using assms by (intro mod_mod_cancel) (simp add: pipe_ok_def)
  finally show ?thesis by (simp add: pipe_used_def)
qed

lemma unat_add_u32: "unat a + k < 2 ^ 32 \<Longrightarrow> unat (a + of_nat k :: u32) = unat a + k"
  by (simp add: unat_word_ariths unat_of_nat mod_simps)

text \<open>What a write and a read do to a pipe and leave alone elsewhere.\<close>

definition pushed :: "pipe \<Rightarrow> u8 list \<Rightarrow> sbuf_smem \<Rightarrow> sbuf_smem \<Rightarrow> bool" where
  "pushed p bytes m m' \<longleftrightarrow>
     pipe_ok m' p \<and> fifo m' p = fifo m p @ bytes \<and> hword m' (p_wt p) = hword m (p_wt p) + of_nat (length bytes) \<and>
     (\<forall>q. q \<noteq> p_wt p \<longrightarrow> hword m' q = hword m q) \<and> length (headers m') = length (headers m) \<and>
     length (area m') = length (area m) \<and>
     (\<forall>a. a < length (area m) \<longrightarrow> \<not> (p_base p \<le> a \<and> a < p_base p + unat (p_size p)) \<longrightarrow> area m' ! a = area m ! a)"

lemma pushed_words:
  assumes "pushed p xs m m'"
  shows "hword m' (p_wt p) = hword m (p_wt p) + of_nat (length xs)" "hword m' (p_rd p) = hword m (p_rd p)"
  using assms unfolding pushed_def pipe_ok_def by blast+

definition popped :: "pipe \<Rightarrow> u8 list \<Rightarrow> sbuf_smem \<Rightarrow> sbuf_smem \<Rightarrow> bool" where
  "popped p bytes m m' \<longleftrightarrow>
     pipe_ok m' p \<and> fifo m p = bytes @ fifo m' p \<and> area m' = area m \<and>
     hword m' (p_rd p) = hword m (p_rd p) + of_nat (length bytes) \<and>
     (\<forall>q. q \<noteq> p_rd p \<longrightarrow> hword m' q = hword m q) \<and> length (headers m') = length (headers m)"

lemma push_pipe:
  assumes ok: "pipe_ok m p" and room: "pipe_used m p + length xs \<le> unat (p_size p)"
    and pos: "pos = unat (hword m (p_wt p)) mod unat (p_size p)"
  obtains a m' where "circ_store (area m) (p_base p) (unat (p_size p)) pos xs = Some a"
    "BL_WRITEL (m\<lparr>area := a\<rparr>) (p_wt p) (hword m (p_wt p) + of_nat (length xs)) = Some m'" "pushed p xs m m'"
proof -
  let ?n = "unat (p_size p)" and ?w = "hword m (p_wt p)" and ?r = "hword m (p_rd p)"
  have n: "0 < ?n" "?n < 2 ^ 31" "p_base p + ?n \<le> length (area m)" "p_rd p \<noteq> p_wt p"
    "fst (p_wt p) < length (headers m)" "fst (p_rd p) < length (headers m)" "?n dvd 2 ^ 32"
    using ok by (simp_all add: pipe_ok_def)
  have pos': "pos = (unat ?r + pipe_used m p) mod ?n" using pipe_position [OF ok] pos by simp
  obtain a where a: "circ_store (area m) (p_base p) ?n pos xs = Some a" "length a = length (area m)"
    and new: "\<And>j. j < length xs \<Longrightarrow> a ! (p_base p + (pos + j) mod ?n) = xs ! j"
    and old: "\<And>q. q < length (area m) \<Longrightarrow> (\<And>j. j < length xs \<Longrightarrow> q \<noteq> p_base p + (pos + j) mod ?n) \<Longrightarrow> a ! q = area m ! q"
    using circ_store_spec [of pos ?n xs "p_base p" "area m"] n room pos by auto
  obtain m' where m': "BL_WRITEL (m\<lparr>area := a\<rparr>) (p_wt p) (?w + of_nat (length xs)) = Some m'" "area m' = a"
    "length (headers m') = length (headers m)" "hword m' (p_wt p) = ?w + of_nat (length xs)"
    "\<And>q. q \<noteq> p_wt p \<Longrightarrow> hword m' q = hword m q"
    using BL_WRITEL_spec [of "p_wt p" "m\<lparr>area := a\<rparr>" "?w + of_nat (length xs)"] n(5)
    by (auto simp: hword_def BL_READL_def)
  have used: "pipe_used m' p = pipe_used m p + length xs"
    using unat_add_u32 [of "?w - ?r" "length xs"] room n(2,4) m'(4,5)
    by (simp add: pipe_used_def algebra_simps)
  have keep: "a ! (p_base p + (unat ?r + i) mod ?n) = area m ! (p_base p + (unat ?r + i) mod ?n)" if "i < pipe_used m p" for i
  proof (rule old)
    show "p_base p + (unat ?r + i) mod ?n < length (area m)"
      using n(1,3) mod_less_divisor [OF n(1), of "unat ?r + i"] by linarith
    fix j assume j: "j < length xs"
    show "p_base p + (unat ?r + i) mod ?n \<noteq> p_base p + (pos + j) mod ?n"
      using ring_position_apart [of i ?n "pipe_used m p + j" "unat ?r"] that j room pos'
      by (auto simp: mod_simps add.assoc)
  qed
  have "fifo m' p = fifo m p @ xs"
  proof -
    have "ring_slice (\<lambda>q. a ! (p_base p + q)) ?n (unat ?r) (pipe_used m p) = fifo m p"
      using keep by (auto simp: fifo_def intro!: ring_slice_cong)
    moreover have "ring_slice (\<lambda>q. a ! (p_base p + q)) ?n ((unat ?r + pipe_used m p) mod ?n) (length xs) = xs"
      using new pos' by (intro nth_equalityI) (simp_all add: ring_slice_def)
    ultimately show ?thesis
      using n(4) m'(5) by (simp add: fifo_def [of m'] used m'(2) ring_slice_append)
  qed
  moreover have "a ! q = area m ! q" if "q < length (area m)" "\<not> (p_base p \<le> q \<and> q < p_base p + ?n)" for q
    using old [OF that(1)] that(2) mod_less_divisor [OF n(1)] by (metis le_add1 nat_add_left_cancel_less)
  ultimately have "pushed p xs m m'"
    using n used room a(2) m' by (auto simp: pushed_def pipe_ok_def)
  then show ?thesis using that a(1) m'(1) by blast
qed

lemma pop_pipe:
  assumes ok: "pipe_ok m p" and k: "k \<le> pipe_used m p"
    and pos: "pos = unat (hword m (p_rd p)) mod unat (p_size p)"
  obtains m' where "circ_load (area m) (p_base p) (unat (p_size p)) pos k = Some (take k (fifo m p))"
    "BL_WRITEL m (p_rd p) (hword m (p_rd p) + of_nat k) = Some m'" "popped p (take k (fifo m p)) m m'"
proof -
  let ?n = "unat (p_size p)" and ?w = "hword m (p_wt p)" and ?r = "hword m (p_rd p)" and ?get = "\<lambda>q. area m ! (p_base p + q)"
  have n: "0 < ?n" "?n < 2 ^ 31" "p_base p + ?n \<le> length (area m)" "p_rd p \<noteq> p_wt p"
    "fst (p_wt p) < length (headers m)" "fst (p_rd p) < length (headers m)" "?n dvd 2 ^ 32" "pipe_used m p \<le> ?n"
    using ok by (simp_all add: pipe_ok_def)
  obtain m' where m': "BL_WRITEL m (p_rd p) (?r + of_nat k) = Some m'" "area m' = area m"
    "length (headers m') = length (headers m)" "hword m' (p_rd p) = ?r + of_nat k"
    "\<And>q. q \<noteq> p_rd p \<Longrightarrow> hword m' q = hword m q"
    using BL_WRITEL_spec [OF n(6)] by metis
  have used: "pipe_used m' p = pipe_used m p - k"
  proof -
    have le: "of_nat k \<le> ?w - ?r" using k n by (simp add: pipe_used_def word_le_nat_alt)
    have "unat (?w - ?r - of_nat k) = unat (?w - ?r) - k"
      using unat_sub [OF le] k n by (simp add: pipe_used_def)
    then show ?thesis using m'(4,5) n(4) by (simp add: pipe_used_def diff_diff_eq)
  qed
  have split: "fifo m p = ring_slice ?get ?n (unat ?r) k @ ring_slice ?get ?n ((unat ?r + k) mod ?n) (pipe_used m p - k)"
    using ring_slice_append [of ?get ?n "unat ?r" k "pipe_used m p - k"] k by (simp add: fifo_def)
  have start: "ring_slice ?get ?n (s mod ?n) c = ring_slice ?get ?n s c" for s c
    by (simp add: ring_slice_def mod_simps)
  have "unat (?r + of_nat k) mod ?n = (unat ?r + k) mod ?n"
  proof -
    have "unat (?r + of_nat k) = (unat ?r + k) mod 2 ^ 32" by (simp add: unat_word_ariths unat_of_nat mod_simps)
    then show ?thesis using n(7) by (simp add: mod_mod_cancel)
  qed
  then have "fifo m' p = ring_slice ?get ?n ((unat ?r + k) mod ?n) (pipe_used m p - k)"
    by (metis fifo_def m'(2,4) start used)
  then have fifo: "fifo m p = ring_slice ?get ?n (unat ?r) k @ fifo m' p" using split by simp
  then have take: "take k (fifo m p) = ring_slice ?get ?n (unat ?r) k" by simp
  have "circ_load (area m) (p_base p) ?n pos k = Some (take k (fifo m p))"
    using circ_load_spec [of pos ?n k "p_base p" "area m"] pos n k start [of "unat ?r" k] by (simp add: take)
  moreover have "popped p (take k (fifo m p)) m m'"
    using n used m' k fifo take by (auto simp: popped_def pipe_ok_def)
  ultimately show ?thesis using that m'(1) by blast
qed

section \<open>The copy loops\<close>

declare write_loop.simps [simp del] read_loop.simps [simp del]

lemma copy_in_ok:
  assumes "\<not> user \<or> faults s = []" "n \<le> length buf"
  shows "copy_in user s pos buf n =
    map_option (\<lambda>a. (True, s\<lparr>mem := (mem s)\<lparr>area := a\<rparr>\<rparr>)) (puts (area (mem s)) pos (take n buf))"
  using assms
  by (cases "puts (area (mem s)) pos (take n buf)") (auto simp: copy_in_def copy_fault_def rdn_def)

lemma copy_in_ring:
  assumes "\<not> user \<or> faults s = []" "k \<le> length buf" "pos < n" "k \<le> n"
  shows "(if n < pos + k
      then do {
        (ok, s) \<leftarrow> copy_in user s (base + pos) buf (n - pos);
        if ok then copy_in user s base (drop (n - pos) buf) (pos + k - n) else Some (False, s) }
      else copy_in user s (base + pos) buf k) =
    map_option (\<lambda>a. (True, s\<lparr>mem := (mem s)\<lparr>area := a\<rparr>\<rparr>)) (circ_store (area (mem s)) base n pos (take k buf))"
proof (cases "n < pos + k")
  case True
  have "take (pos + k - n) (drop (n - pos) buf) = drop (n - pos) (take k buf)" "take (n - pos) buf = take (n - pos) (take k buf)"
    using True assms(3) by (simp_all add: drop_take add.commute)
  then show ?thesis
    using True assms
    by (cases "puts (area (mem s)) (base + pos) (take (n - pos) buf)")
      (auto simp: copy_in_ok circ_store_def map_conv_bind_option)
next
  case False
  then show ?thesis using assms by (simp add: copy_in_ok circ_store_def)
qed

lemma tx_used_pipe: "pipe_ok (mem s) (tx_pipe r) \<Longrightarrow>
    tx_used s r = Some (hword (mem s) (p_wt (tx_pipe r)) - hword (mem s) (p_rd (tx_pipe r)))"
  by (simp add: tx_used_def pipe_ok_def tx_pipe_def BL_READL_hword)

lemma rx_used_pipe: "pipe_ok (mem s) (rx_pipe r) \<Longrightarrow>
    rx_used s r = Some (hword (mem s) (p_wt (rx_pipe r)) - hword (mem s) (p_rd (rx_pipe r)))"
  by (simp add: rx_used_def pipe_ok_def rx_pipe_def BL_READL_hword)

lemma nat_shift_diff: "nat (int (a + b) - int (a + c)) = b - c"
  by arith

text \<open>How much a round moves.\<close>

definition tx_room :: "sbuf_state \<Rightarrow> sbuf_ring \<Rightarrow> nat" where
  "tx_room s r = unat (tx_size (header_op r)) - pipe_used (mem s) (tx_pipe r)"

definition after_write :: "sbuf_state \<Rightarrow> nat \<Rightarrow> bool \<Rightarrow> sbuf_smem \<Rightarrow> sbuf_state" where
  "after_write s i was_empty m' =
     (if force_send (mgr s) \<or> was_empty
      then send SMSG_TYPE_EVENT SMSG_EVENT_SBUF_WRPTR (of_nat i) (s\<lparr>mem := m'\<rparr>) else s\<lparr>mem := m'\<rparr>)"

lemma write_round_stop:
  assumes "races s = []" "ring_of s i = Some r" "pipe_ok (mem s) (tx_pipe r)" "left = 0 \<or> tx_room s r = 0"
  shows "write_round user s i buf left = Some (Stop, s)"
proof -
  have "tx_room s r = 0 \<Longrightarrow> tx_size (header_op r) \<le> hword (mem s) (p_wt (tx_pipe r)) - hword (mem s) (p_rd (tx_pipe r))"
    by (simp add: tx_room_def pipe_used_def word_le_nat_alt)
  then show ?thesis
    using assms by (auto simp: write_round_def next_race_def tx_used_pipe Let_def)
qed

lemma write_round_moves:
  assumes s: "races s = []" "ring_of s i = Some r" "pipe_ok (mem s) (tx_pipe r)" "sb_state (mgr s) = SBUF_STATE_READY"
    and room: "0 < tx_room s r" and left: "0 < left" "nat left \<le> length buf"
    and nofault: "\<not> user \<or> faults s = []"
  defines "k \<equiv> min (tx_room s r) (nat left)"
  obtains m' where "pushed (tx_pipe r) (take k buf) (mem s) m'"
    "write_round user s i buf left = Some (Moved k, after_write s i (pipe_used (mem s) (tx_pipe r) = 0) m')"
proof -
  let ?p = "tx_pipe r" and ?m = "mem s"
  define size where "size = tx_size (header_op r)"
  define wt where "wt = hword ?m (p_wt ?p)"
  define used where "used = wt - hword ?m (p_rd ?p)"
  have p: "p_size ?p = size" "p_base ?p = txbuf_virt r" "p_wt ?p = tx_wt_p (header_op r)"
    by (simp_all add: tx_pipe_def size_def)
  have used: "unat used = pipe_used ?m ?p" by (simp add: used_def wt_def pipe_used_def)
  have ok: "0 < unat size" "unat size < 2 ^ 31" "pipe_used ?m ?p \<le> unat size" "fst (p_wt ?p) < length (headers ?m)"
    using s(3) by (simp_all add: pipe_ok_def p)
  have less: "used < size" using room used by (simp add: tx_room_def size_def word_less_nat_alt)
  have "unat (size - used) = tx_room s r"
    using less used by (simp add: tx_room_def size_def [symmetric] unat_sub word_less_nat_alt word_le_nat_alt)
  moreover have "tx_room s r < 2 ^ 31" using ok(2) by (simp add: tx_room_def size_def [symmetric])
  ultimately have "sint (size - used) = int (tx_room s r)" by (simp add: sint_small)
  then have txsize: "min (sint (size - used)) left = int k"
    using left(1) by (simp add: k_def of_nat_min)
  have k: "0 < k" "k \<le> length buf" "pipe_used ?m ?p + k \<le> unat size" "k \<le> unat size"
    using room left by (simp_all add: k_def tx_room_def size_def [symmetric])
  define pos where "pos = unat wt mod unat size"
  have pos: "unat (wt mod size) = pos" "pos < unat size" using ok by (simp_all add: pos_def unat_mod)
  obtain a m' where am: "circ_store (area ?m) (txbuf_virt r) (unat size) pos (take k buf) = Some a"
    "BL_WRITEL (?m\<lparr>area := a\<rparr>) (tx_wt_p (header_op r)) (wt + of_nat k) = Some m'" "pushed ?p (take k buf) ?m m'"
    using push_pipe [OF s(3), of "take k buf" pos] k by (auto simp: p pos_def wt_def)
  have used': "tx_used (s\<lparr>mem := m'\<rparr>) r = Some (used + of_nat k)"
  proof -
    have "pipe_ok m' ?p" using am(3) by (simp add: pushed_def)
    then have "tx_used (s\<lparr>mem := m'\<rparr>) r = Some (hword m' (p_wt ?p) - hword m' (p_rd ?p))"
      using tx_used_pipe [of "s\<lparr>mem := m'\<rparr>" r] by simp
    moreover have "hword m' (p_wt ?p) = wt + of_nat k" "hword m' (p_rd ?p) = hword ?m (p_rd ?p)"
      using pushed_words [OF am(3)] k by (simp_all add: wt_def)
    ultimately show ?thesis by (simp add: used_def algebra_simps)
  qed
  have emp: "used + of_nat k = of_nat k \<longleftrightarrow> pipe_used ?m ?p = 0"
    using used unat_eq_0 [of used] by simp
  have copy: "(if 0 < int (txbuf_virt r + pos + k) - int (txbuf_virt r + unat size)
      then do {
        (ok, s) \<leftarrow> copy_in user s (txbuf_virt r + pos) buf (k - nat (int (txbuf_virt r + pos + k) - int (txbuf_virt r + unat size)));
        if ok then copy_in user s (txbuf_virt r) (drop (k - nat (int (txbuf_virt r + pos + k) - int (txbuf_virt r + unat size))) buf)
               (nat (int (txbuf_virt r + pos + k) - int (txbuf_virt r + unat size)))
        else Some (False, s) }
      else copy_in user s (txbuf_virt r + pos) buf k) = Some (True, s\<lparr>mem := ?m\<lparr>area := a\<rparr>\<rparr>)"
  proof -
    have t: "nat (int (txbuf_virt r + pos + k) - int (txbuf_virt r + unat size)) = pos + k - unat size"
      using nat_shift_diff [of "txbuf_virt r" "pos + k" "unat size"] by (simp only: add.assoc)
    have d: "unat size < pos + k \<Longrightarrow> k - (pos + k - unat size) = unat size - pos" using pos(2) k(4) by simp
    have g: "0 < int (txbuf_virt r + pos + k) - int (txbuf_virt r + unat size) \<longleftrightarrow> unat size < pos + k"
      unfolding diff_gt_0_iff_gt of_nat_less_iff by simp
    note ring = copy_in_ring [OF nofault k(2) pos(2) k(4), of "txbuf_virt r"]
    show ?thesis
    proof (cases "unat size < pos + k")
      case True
      show ?thesis using ring am(1) True unfolding t g d [OF True] by simp
    next
      case False
      show ?thesis using ring am(1) False unfolding t g by simp
    qed
  qed
  have read: "BL_READL ?m (tx_wt_p (header_op r)) = Some wt"
    using BL_READL_hword [OF ok(4)] by (simp add: p(3) wt_def)
  have "\<not> (left = 0 \<or> size \<le> used \<or> sb_state (mgr s) \<noteq> SBUF_STATE_READY)" "\<not> int k < 0"
    using s(4) less left by simp_all
  then have "write_round user s i buf left = Some (Moved k, after_write s i (pipe_used ?m ?p = 0) m')"
    unfolding write_round_def next_race_def s(1,2) list.case Option.bind.simps tx_used_pipe [OF s(3)] Let_def
      wt_def [symmetric] used_def [symmetric] size_def [symmetric] read txsize pos(1) if_False nat_int copy
    using am(2) used' emp by (simp add: after_write_def)
  with am(3) show thesis by (rule that)
qed

lemma copy_out_ok:
  assumes "\<not> user \<or> faults s = []"
  shows "copy_out user s pos n = map_option (\<lambda>bytes. (True, bytes, s)) (rdn (area (mem s)) pos n)"
  using assms by (cases "rdn (area (mem s)) pos n") (auto simp: copy_out_def copy_fault_def)

lemma copy_out_ring:
  assumes "\<not> user \<or> faults s = []" "pos < n" "k \<le> n"
  shows "(if n < pos + k
      then do {
        (ok, xs, s) \<leftarrow> copy_out user s (base + pos) (n - pos);
        if ok then do { (ok, ys, s) \<leftarrow> copy_out user s base (pos + k - n); Some (ok, xs @ ys, s) }
        else Some (False, xs, s) }
      else copy_out user s (base + pos) k) =
    map_option (\<lambda>bytes. (True, bytes, s)) (circ_load (area (mem s)) base n pos k)"
proof (cases "n < pos + k")
  case True
  moreover have "k - (n - pos) = pos + k - n" using True assms(2) by simp
  ultimately show ?thesis
    using assms
    by (cases "rdn (area (mem s)) (base + pos) (n - pos)"; cases "rdn (area (mem s)) base (pos + k - n)")
      (simp_all add: copy_out_ok circ_load_def)
next
  case False
  then show ?thesis using assms by (simp add: copy_out_ok circ_load_def)
qed

definition after_read :: "sbuf_state \<Rightarrow> nat \<Rightarrow> bool \<Rightarrow> sbuf_smem \<Rightarrow> sbuf_state" where
  "after_read s i was_full m' =
     (if was_full then send SMSG_TYPE_EVENT SMSG_EVENT_SBUF_RDPTR (of_nat i) (s\<lparr>mem := m'\<rparr>) else s\<lparr>mem := m'\<rparr>)"

lemma popped_words:
  assumes "popped p xs m m'"
  shows "hword m' (p_rd p) = hword m (p_rd p) + of_nat (length xs)" "hword m' (p_wt p) = hword m (p_wt p)"
  using assms unfolding popped_def pipe_ok_def by metis+

lemma read_round_stop:
  assumes "races s = []" "ring_of s i = Some r" "pipe_ok (mem s) (rx_pipe r)"
    "left = 0 \<or> pipe_used (mem s) (rx_pipe r) = 0"
  shows "read_round user s i left = Some (Stop, [], s)"
proof -
  have "pipe_used (mem s) (rx_pipe r) = 0 \<Longrightarrow> hword (mem s) (p_wt (rx_pipe r)) - hword (mem s) (p_rd (rx_pipe r)) = 0"
    by (simp add: pipe_used_def unat_eq_0)
  then show ?thesis
    using assms by (auto simp: read_round_def next_race_def rx_used_pipe Let_def)
qed

lemma read_round_moves:
  assumes s: "races s = []" "ring_of s i = Some r" "pipe_ok (mem s) (rx_pipe r)" "sb_state (mgr s) = SBUF_STATE_READY"
    and data: "0 < pipe_used (mem s) (rx_pipe r)" and left: "0 < left"
    and nofault: "\<not> user \<or> faults s = []"
  defines "k \<equiv> min (pipe_used (mem s) (rx_pipe r)) (nat left)"
  obtains m' where "popped (rx_pipe r) (take k (fifo (mem s) (rx_pipe r))) (mem s) m'"
    "read_round user s i left = Some (Moved k, take k (fifo (mem s) (rx_pipe r)),
       after_read s i (pipe_used (mem s) (rx_pipe r) = unat (rx_size (header_op r))) m')"
proof -
  let ?p = "rx_pipe r" and ?m = "mem s"
  define size where "size = rx_size (header_op r)"
  define rd where "rd = hword ?m (p_rd ?p)"
  define used where "used = hword ?m (p_wt ?p) - rd"
  have p: "p_size ?p = size" "p_base ?p = rxbuf_virt r" "p_rd ?p = rx_rd_p (header_op r)"
    by (simp_all add: rx_pipe_def size_def)
  have used: "unat used = pipe_used ?m ?p" by (simp add: used_def rd_def pipe_used_def)
  have ok: "0 < unat size" "unat size < 2 ^ 31" "pipe_used ?m ?p \<le> unat size" "fst (p_rd ?p) < length (headers ?m)"
    using s(3) by (simp_all add: pipe_ok_def p)
  have "sint used = int (pipe_used ?m ?p)" using ok used by (simp add: sint_small)
  then have rxsize: "min (sint used) left = int k"
    using left by (simp add: k_def of_nat_min)
  have k: "0 < k" "k \<le> pipe_used ?m ?p" "k \<le> unat size"
    using data left ok(3) by (simp_all add: k_def)
  define pos where "pos = unat rd mod unat size"
  have pos: "unat (rd mod size) = pos" "pos < unat size" using ok by (simp_all add: pos_def unat_mod)
  obtain m' where m': "circ_load (area ?m) (rxbuf_virt r) (unat size) pos k = Some (take k (fifo ?m ?p))"
    "BL_WRITEL ?m (rx_rd_p (header_op r)) (rd + of_nat k) = Some m'" "popped ?p (take k (fifo ?m ?p)) ?m m'"
    using pop_pipe [OF s(3) k(2), of pos] by (auto simp: p pos_def rd_def)
  have used': "rx_used (s\<lparr>mem := m'\<rparr>) r = Some (used - of_nat k)"
  proof -
    have "pipe_ok m' ?p" using m'(3) by (simp add: popped_def)
    then have "rx_used (s\<lparr>mem := m'\<rparr>) r = Some (hword m' (p_wt ?p) - hword m' (p_rd ?p))"
      using rx_used_pipe [of "s\<lparr>mem := m'\<rparr>" r] by simp
    then show ?thesis using popped_words [OF m'(3)] k(2) by (simp add: used_def rd_def diff_diff_eq)
  qed
  have full: "used - of_nat k = size - of_nat k \<longleftrightarrow> pipe_used ?m ?p = unat size"
    using used word_unat_eq_iff [of used size] diff_add_cancel by metis
  have copy: "(if 0 < int (rxbuf_virt r + pos + k) - int (rxbuf_virt r + unat size)
      then do {
        (ok, xs, s) \<leftarrow> copy_out user s (rxbuf_virt r + pos) (k - nat (int (rxbuf_virt r + pos + k) - int (rxbuf_virt r + unat size)));
        if ok then do {
          (ok, ys, s) \<leftarrow> copy_out user s (rxbuf_virt r) (nat (int (rxbuf_virt r + pos + k) - int (rxbuf_virt r + unat size)));
          Some (ok, xs @ ys, s) }
        else Some (False, xs, s) }
      else copy_out user s (rxbuf_virt r + pos) k) = Some (True, take k (fifo ?m ?p), s)"
  proof -
    have t: "nat (int (rxbuf_virt r + pos + k) - int (rxbuf_virt r + unat size)) = pos + k - unat size"
      using nat_shift_diff [of "rxbuf_virt r" "pos + k" "unat size"] by (simp only: add.assoc)
    have d: "unat size < pos + k \<Longrightarrow> k - (pos + k - unat size) = unat size - pos" using pos(2) k(3) by simp
    have g: "0 < int (rxbuf_virt r + pos + k) - int (rxbuf_virt r + unat size) \<longleftrightarrow> unat size < pos + k"
      unfolding diff_gt_0_iff_gt of_nat_less_iff by simp
    note ring = copy_out_ring [OF nofault pos(2) k(3), of "rxbuf_virt r"]
    show ?thesis
    proof (cases "unat size < pos + k")
      case True
      show ?thesis using ring m'(1) True unfolding t g d [OF True] by simp
    next
      case False
      show ?thesis using ring m'(1) False unfolding t g by simp
    qed
  qed
  have read: "BL_READL ?m (rx_rd_p (header_op r)) = Some rd"
    using BL_READL_hword [OF ok(4)] by (simp add: p(3) rd_def)
  have "used \<noteq> 0" "size \<noteq> 0" using data used ok(1) by auto
  then have "\<not> (left = 0 \<or> used = 0 \<or> sb_state (mgr s) \<noteq> SBUF_STATE_READY)" "\<not> size = 0" "\<not> int k < 0"
    using s(4) left by simp_all
  then have "read_round user s i left = Some (Moved k, take k (fifo ?m ?p), after_read s i (pipe_used ?m ?p = unat size) m')"
    unfolding read_round_def next_race_def s(1,2) list.case Option.bind.simps rx_used_pipe [OF s(3)] Let_def
      rd_def [symmetric] used_def [symmetric] size_def [symmetric] read rxsize pos(1) if_False nat_int copy
    using m'(2) used' full by (simp add: after_read_def)
  with m'(3) show thesis by (rule that [unfolded size_def [symmetric]])
qed

section \<open>Writing and reading a ring\<close>

text \<open>What the operations leave alone: the state of the channel, the geometry of the rings, the scripts.\<close>

definition shape :: "sbuf_state \<Rightarrow> u32 \<times> bool \<times> (pipe \<times> pipe) list" where
  "shape s = (sb_state (mgr s), force_send (mgr s), map (\<lambda>r. (tx_pipe r, rx_pipe r)) (rings (mgr s)))"

definition quiet :: "sbuf_state \<Rightarrow> bool" where
  "quiet s \<longleftrightarrow> races s = [] \<and> locks s = [] \<and> resources s = [] \<and> faults s = []"

definition sends :: "sbuf_state \<Rightarrow> sipc_effect list" where
  "sends s = filter (\<lambda>e. case e of Smsg_send _ _ \<Rightarrow> True | _ \<Rightarrow> False) (sb_effects s)"

lemma sb_emit_simps [simp]:
  "mgr (sb_emit e s) = mgr s" "mem (sb_emit e s) = mem s" "quiet (sb_emit e s) = quiet s"
  "smem_local (sb_emit e s) = smem_local s" "shape (sb_emit e s) = shape s" "ring_of (sb_emit e s) i = ring_of s i"
  by (simp_all add: sb_emit_def quiet_def shape_def ring_of_def)

lemma send_simps [simp]:
  "mgr (send ty fl v s) = mgr s" "mem (send ty fl v s) = mem s" "quiet (send ty fl v s) = quiet s"
  "shape (send ty fl v s) = shape s" "ring_of (send ty fl v s) i = ring_of s i"
  by (simp_all add: send_def)

lemma mem_update_simps [simp]:
  "quiet (s\<lparr>mem := m\<rparr>) = quiet s" "shape (s\<lparr>mem := m\<rparr>) = shape s" "ring_of (s\<lparr>mem := m\<rparr>) i = ring_of s i"
  "sends (s\<lparr>mem := m\<rparr>) = sends s"
  by (simp_all add: quiet_def shape_def ring_of_def sends_def)

lemma sends_emit:
  "sends (send ty fl v s) = sends s @ [Smsg_send (sb_dst (mgr s)) (smsg_set (sb_channel (mgr s)) ty fl v)]"
  "sends (sb_emit (Release_wakelock_later i) s) = sends s" "sends (sb_emit Release_resource s) = sends s"
  by (simp_all add: sends_def send_def sb_emit_def)

lemma pipes_of_poll: "tx_pipe (r\<lparr>poll_mask := v\<rparr>) = tx_pipe r" "rx_pipe (r\<lparr>poll_mask := v\<rparr>) = rx_pipe r"
  by (simp_all add: tx_pipe_def rx_pipe_def)

lemma shape_set_poll [simp]: "shape (set_poll s i bits on) = shape s"
proof -
  have "map f (rs[i := g (rs ! i)]) = map f rs" if "f (g (rs ! i)) = f (rs ! i)" for f :: "sbuf_ring \<Rightarrow> pipe \<times> pipe" and g rs
    using that by (metis list_update_id map_update)
  then show ?thesis
    by (simp add: set_poll_def upd_ring_def shape_def pipes_of_poll)
qed

lemma set_poll_simps [simp]:
  "mem (set_poll s i bits on) = mem s" "quiet (set_poll s i bits on) = quiet s"
  "sends (set_poll s i bits on) = sends s" "sb_state (mgr (set_poll s i bits on)) = sb_state (mgr s)"
  "smem_local (set_poll s i bits on) = smem_local s"
  "force_send (mgr (set_poll s i bits on)) = force_send (mgr s)"
  "sb_dst (mgr (set_poll s i bits on)) = sb_dst (mgr s)" "sb_channel (mgr (set_poll s i bits on)) = sb_channel (mgr s)"
  by (simp_all add: set_poll_def upd_ring_def quiet_def sends_def)

lemma ring_of_set_poll:
  "ring_of s i = Some r \<Longrightarrow> \<exists>r'. ring_of (set_poll s i bits on) i = Some r' \<and> tx_pipe r' = tx_pipe r \<and> rx_pipe r' = rx_pipe r \<and>
    need_wake_lock r' = need_wake_lock r"
  by (auto simp: set_poll_def upd_ring_def ring_of_def elem_def pipes_of_poll split: if_splits)

lemma release_simps [simp]:
  "mem (sipc_smem_release_resource s) = mem s" "quiet (sipc_smem_release_resource s) = quiet s"
  "shape (sipc_smem_release_resource s) = shape s" "sends (sipc_smem_release_resource s) = sends s"
  "mgr (sipc_smem_release_resource s) = mgr s" "ring_of (sipc_smem_release_resource s) i = ring_of s i"
  by (simp_all add: sipc_smem_release_resource_def sends_emit)

lemma quiet_request [simp]: "quiet s \<Longrightarrow> sipc_smem_request_resource s = (0, s)" "quiet s \<Longrightarrow> take_lock s = (True, s)"
  by (auto simp: quiet_def sipc_smem_request_resource_def take_lock_def)

lemma after_write_simps [simp]:
  "mem (after_write s i b m') = m'" "quiet (after_write s i b m') = quiet s" "shape (after_write s i b m') = shape s"
  "ring_of (after_write s i b m') j = ring_of s j" "mgr (after_write s i b m') = mgr s"
  "sends (after_write s i b m') = sends s @ (if force_send (mgr s) \<or> b
     then [Smsg_send (sb_dst (mgr s)) (smsg_set (sb_channel (mgr s)) SMSG_TYPE_EVENT SMSG_EVENT_SBUF_WRPTR (of_nat i))] else [])"
  by (simp_all add: after_write_def sends_emit)

lemma after_read_simps [simp]:
  "mem (after_read s i b m') = m'" "quiet (after_read s i b m') = quiet s" "shape (after_read s i b m') = shape s"
  "ring_of (after_read s i b m') j = ring_of s j" "mgr (after_read s i b m') = mgr s"
  "sends (after_read s i b m') = sends s @ (if b
     then [Smsg_send (sb_dst (mgr s)) (smsg_set (sb_channel (mgr s)) SMSG_TYPE_EVENT SMSG_EVENT_SBUF_RDPTR (of_nat i))] else [])"
  by (simp_all add: after_read_def sends_emit)

lemma write_loop_quiet:
  assumes s: "quiet s" "ring_of s i = Some r" "pipe_ok (mem s) (tx_pipe r)" "sb_state (mgr s) = SBUF_STATE_READY"
    and room: "0 < tx_room s r" and left: "0 < left" "nat left \<le> length buf"
  defines "k \<equiv> min (tx_room s r) (nat left)"
  obtains m' where "pushed (tx_pipe r) (take k buf) (mem s) m'"
    "write_loop user s i buf left rval = Some (rval, left - int k, after_write s i (pipe_used (mem s) (tx_pipe r) = 0) m')"
proof -
  have q: "races s = []" "\<not> user \<or> faults s = []" using s(1) by (simp_all add: quiet_def)
  obtain m' where m': "pushed (tx_pipe r) (take k buf) (mem s) m'"
    "write_round user s i buf left = Some (Moved k, after_write s i (pipe_used (mem s) (tx_pipe r) = 0) m')"
    using write_round_moves [OF q(1) s(2-4) room left q(2)] unfolding k_def by metis
  let ?s = "after_write s i (pipe_used (mem s) (tx_pipe r) = 0) m'"
  have k: "0 < k" "int k \<le> left" "k \<le> length buf" "k \<le> tx_room s r" using room left by (simp_all add: k_def nat_le_iff)
  have "length (fifo m' (tx_pipe r)) = length (fifo (mem s) (tx_pipe r) @ take k buf)"
    using m'(1) by (simp only: pushed_def)
  then have used: "pipe_used m' (tx_pipe r) = pipe_used (mem s) (tx_pipe r) + k" using k(3) by simp
  have "left - int k = 0 \<or> tx_room ?s r = 0"
    using used left k by (auto simp: tx_room_def k_def min_def split: if_splits)
  moreover have "races ?s = []" using q(1) by (simp add: after_write_def send_def sb_emit_def)
  moreover have "pipe_ok (mem ?s) (tx_pipe r)" using m'(1) by (simp add: pushed_def)
  ultimately have "write_round user ?s i (drop k buf) (left - int k) = Some (Stop, ?s)"
    using write_round_stop [of ?s i r] s(2) by simp
  then have "write_loop user ?s i (drop k buf) (left - int k) rval = Some (rval, left - int k, ?s)"
    by (simp add: write_loop.simps [of user ?s])
  then have "write_loop user s i buf left rval = Some (rval, left - int k, ?s)"
    using m'(2) k by (simp add: write_loop.simps [of user s])
  then show thesis using that m'(1) by blast
qed

lemma read_loop_quiet:
  assumes s: "quiet s" "ring_of s i = Some r" "pipe_ok (mem s) (rx_pipe r)" "sb_state (mgr s) = SBUF_STATE_READY"
    and data: "0 < pipe_used (mem s) (rx_pipe r)" and left: "0 < left"
  defines "k \<equiv> min (pipe_used (mem s) (rx_pipe r)) (nat left)"
  obtains m' where "popped (rx_pipe r) (take k (fifo (mem s) (rx_pipe r))) (mem s) m'"
    "read_loop user s i left rval out = Some (rval, left - int k, out @ take k (fifo (mem s) (rx_pipe r)),
       after_read s i (pipe_used (mem s) (rx_pipe r) = unat (rx_size (header_op r))) m')"
proof -
  have q: "races s = []" "\<not> user \<or> faults s = []" using s(1) by (simp_all add: quiet_def)
  let ?xs = "take k (fifo (mem s) (rx_pipe r))" and ?full = "pipe_used (mem s) (rx_pipe r) = unat (rx_size (header_op r))"
  obtain m' where m': "popped (rx_pipe r) ?xs (mem s) m'"
    "read_round user s i left = Some (Moved k, ?xs, after_read s i ?full m')"
    using read_round_moves [OF q(1) s(2-4) data left q(2)] unfolding k_def by metis
  let ?s = "after_read s i ?full m'"
  have k: "0 < k" "int k \<le> left" "k \<le> pipe_used (mem s) (rx_pipe r)" using data left by (simp_all add: k_def nat_le_iff)
  have "length (fifo (mem s) (rx_pipe r)) = length (?xs @ fifo m' (rx_pipe r))"
    using m'(1) by (simp only: popped_def)
  then have "pipe_used (mem s) (rx_pipe r) = k + pipe_used m' (rx_pipe r)" using k(3) by simp
  then have "left - int k = 0 \<or> pipe_used (mem ?s) (rx_pipe r) = 0"
    using left by (auto simp: k_def min_def split: if_splits)
  moreover have "races ?s = []" using q(1) by (simp add: after_read_def send_def sb_emit_def)
  moreover have "pipe_ok (mem ?s) (rx_pipe r)" using m'(1) by (simp add: popped_def)
  ultimately have "read_round user ?s i (left - int k) = Some (Stop, [], ?s)"
    using read_round_stop [of ?s i r] s(2) by simp
  then have "read_loop user ?s i (left - int k) rval (out @ ?xs) = Some (rval, left - int k, out @ ?xs, ?s)"
    by (simp add: read_loop.simps [of user ?s])
  then have "read_loop user s i left rval out = Some (rval, left - int k, out @ ?xs, ?s)"
    using m'(2) k by (simp add: read_loop.simps [of user s])
  then show thesis using that m'(1) by blast
qed

lemma pushed_Nil: "pipe_ok m p \<Longrightarrow> pushed p [] m m"
  by (simp add: pushed_def)

lemma popped_Nil: "pipe_ok m p \<Longrightarrow> popped p [] m m"
  by (simp add: popped_def)

lemma write_mask_quiet:
  assumes "quiet s" "ring_of s i = Some r" "pipe_ok (mem s) (tx_pipe r)"
  obtains s' r' where "update_write_mask s i = Some (tx_room s r = 0, s')" "quiet s'" "mem s' = mem s" "shape s' = shape s"
    "sends s' = sends s" "ring_of s' i = Some r'" "tx_pipe r' = tx_pipe r" "rx_pipe r' = rx_pipe r"
    "need_wake_lock r' = need_wake_lock r"
    "sb_state (mgr s') = sb_state (mgr s)" "force_send (mgr s') = force_send (mgr s)"
    "sb_dst (mgr s') = sb_dst (mgr s)" "sb_channel (mgr s') = sb_channel (mgr s)"
proof -
  have "tx_size (header_op r) \<le> hword (mem s) (p_wt (tx_pipe r)) - hword (mem s) (p_rd (tx_pipe r)) \<longleftrightarrow> tx_room s r = 0"
    using assms(3) by (simp add: tx_room_def pipe_used_def word_le_nat_alt)
  then have u: "update_write_mask s i = Some (tx_room s r = 0, set_poll s i POLL_WRITE (tx_room s r \<noteq> 0))"
    using assms by (simp add: update_write_mask_def tx_used_pipe Let_def)
  obtain r' where r': "ring_of (set_poll s i POLL_WRITE (tx_room s r \<noteq> 0)) i = Some r'" "tx_pipe r' = tx_pipe r"
    "rx_pipe r' = rx_pipe r" "need_wake_lock r' = need_wake_lock r"
    using ring_of_set_poll [OF assms(2)] by blast
  show thesis by (rule that [OF u _ _ _ _ r'(1)]) (simp_all add: assms(1) r')
qed

lemma read_mask_quiet:
  assumes "quiet s" "ring_of s i = Some r" "pipe_ok (mem s) (rx_pipe r)"
  obtains s' r' where "update_read_mask s i = Some (pipe_used (mem s) (rx_pipe r) = 0, s')" "quiet s'" "mem s' = mem s"
    "shape s' = shape s" "sends s' = sends s" "ring_of s' i = Some r'" "tx_pipe r' = tx_pipe r" "rx_pipe r' = rx_pipe r"
    "need_wake_lock r' = need_wake_lock r"
    "sb_state (mgr s') = sb_state (mgr s)" "sb_dst (mgr s') = sb_dst (mgr s)" "sb_channel (mgr s') = sb_channel (mgr s)"
proof -
  have "hword (mem s) (p_wt (rx_pipe r)) - hword (mem s) (p_rd (rx_pipe r)) = 0 \<longleftrightarrow> pipe_used (mem s) (rx_pipe r) = 0"
    by (simp only: pipe_used_def unat_eq_0)
  then have u: "update_read_mask s i = Some (pipe_used (mem s) (rx_pipe r) = 0, set_poll s i POLL_READ (pipe_used (mem s) (rx_pipe r) \<noteq> 0))"
    using assms by (simp add: update_read_mask_def rx_used_pipe)
  obtain r' where r': "ring_of (set_poll s i POLL_READ (pipe_used (mem s) (rx_pipe r) \<noteq> 0)) i = Some r'" "tx_pipe r' = tx_pipe r"
    "rx_pipe r' = rx_pipe r" "need_wake_lock r' = need_wake_lock r"
    using ring_of_set_poll [OF assms(2)] by blast
  show thesis by (rule that [OF u _ _ _ _ r'(1)]) (simp_all add: assms(1) r')
qed

lemma end_access_quiet:
  assumes "quiet s" "ring_of s i = Some r"
  obtains s' where "end_access True s i = Some s'" "quiet s'" "mem s' = mem s" "shape s' = shape s" "sends s' = sends s"
proof -
  let ?s = "if need_wake_lock r then sb_emit (Release_wakelock_later i) (sipc_smem_release_resource s)
      else sipc_smem_release_resource s"
  have "end_access True s i = Some ?s"
    using assms by (simp add: end_access_def mutex_unlock_def Let_def)
  then show thesis by (rule that) (simp_all add: assms sends_emit)
qed

text \<open>The part of \<open>sbuf_write\<close> after the wait.\<close>

definition write_end :: "bool \<Rightarrow> sbuf_state \<Rightarrow> nat \<Rightarrow> u8 list \<Rightarrow> u32 \<Rightarrow> (int \<times> sbuf_state) option" where
  "write_end user s i buf len =
     do {
       (rval, left, s) \<leftarrow> write_loop user s i buf (sint len) 0;
       (_, s) \<leftarrow> update_write_mask s i;
       s \<leftarrow> end_access True s i;
       Some (if left = sint len then rval else sint len - left, s)
     }"

definition write_event :: "sbuf_state \<Rightarrow> u32 \<Rightarrow> sipc_effect" where
  "write_event s bufid =
     Smsg_send (sb_dst (mgr s)) (smsg_set (sb_channel (mgr s)) SMSG_TYPE_EVENT SMSG_EVENT_SBUF_WRPTR bufid)"

lemma write_end_quiet:
  assumes s: "quiet s" "ring_of s (unat bufid) = Some r" "pipe_ok (mem s) (tx_pipe r)" "sb_state (mgr s) = SBUF_STATE_READY"
    and len: "unat len < 2 ^ 31" "unat len \<le> length buf" and room: "0 < tx_room s r"
  defines "k \<equiv> min (tx_room s r) (unat len)"
  shows "\<exists>s'. write_end user s (unat bufid) buf len = Some (int k, s') \<and>
    pushed (tx_pipe r) (take k buf) (mem s) (mem s') \<and> shape s' = shape s \<and> quiet s' \<and>
    sends s' = sends s @ (if 0 < k \<and> (force_send (mgr s) \<or> pipe_used (mem s) (tx_pipe r) = 0) then [write_event s bufid] else [])"
proof -
  let ?i = "unat bufid" and ?p = "tx_pipe r"
  have left: "sint len = int (unat len)" using len(1) by (rule sint_small)
  obtain s3 where s3: "write_loop user s ?i buf (sint len) 0 = Some (0, sint len - int k, s3)"
    "pushed ?p (take k buf) (mem s) (mem s3)" "quiet s3" "shape s3 = shape s" "ring_of s3 ?i = Some r"
    "sends s3 = sends s @ (if 0 < k \<and> (force_send (mgr s) \<or> pipe_used (mem s) ?p = 0) then [write_event s bufid] else [])"
  proof (cases "unat len = 0")
    case True
    then have "write_round user s ?i buf (sint len) = Some (Stop, s)"
      using write_round_stop [of s ?i r "sint len"] s left by (simp add: quiet_def)
    then have "write_loop user s ?i buf (sint len) 0 = Some (0, sint len, s)" by (simp add: write_loop.simps)
    then show thesis using that [of s] True s pushed_Nil [OF s(3)] by (simp add: k_def)
  next
    case False
    have "0 < sint len" unfolding left of_nat_0_less_iff using False by simp
    moreover have nl: "nat (sint len) = unat len" unfolding left nat_int ..
    ultimately obtain m' where m': "pushed ?p (take k buf) (mem s) m'"
      "write_loop user s ?i buf (sint len) 0 = Some (0, sint len - int k, after_write s ?i (pipe_used (mem s) ?p = 0) m')"
      using write_loop_quiet [of s ?i r "sint len" buf user 0] s room len(2) unfolding nl k_def by metis
    show thesis
      by (rule that [OF m'(2)]) (use m'(1) s False room in \<open>simp_all add: k_def write_event_def\<close>)
  qed
  have ok3: "pipe_ok (mem s3) (tx_pipe r)" using s3(2) by (simp add: pushed_def)
  obtain b s4 r4 where s4: "update_write_mask s3 ?i = Some (b, s4)" "quiet s4" "mem s4 = mem s3" "shape s4 = shape s3" "sends s4 = sends s3"
    "ring_of s4 ?i = Some r4"
    using write_mask_quiet [OF s3(3,5) ok3] by metis
  obtain s5 where s5: "end_access True s4 ?i = Some s5" "quiet s5" "mem s5 = mem s4" "shape s5 = shape s4" "sends s5 = sends s4"
    using end_access_quiet [OF s4(2,6)] .
  have "write_end user s ?i buf len = Some (int k, s5)"
    using s3(1) s4(1) s5(1) by (simp add: write_end_def)
  then show ?thesis
    using s3 s4 s5 by (intro exI [of _ s5]) simp
qed

lemma write_ring_quiet:
  assumes s: "quiet s" "ring_of s (unat bufid) = Some r" "pipe_ok (mem s) (tx_pipe r)" "sb_state (mgr s) = SBUF_STATE_READY"
    and len: "unat len < 2 ^ 31" "unat len \<le> length buf" and room: "0 < tx_room s r"
  defines "k \<equiv> min (tx_room s r) (unat len)"
  shows "\<exists>s'. sbuf_write_ring user s bufid buf len timeout = Some (int k, s') \<and>
    pushed (tx_pipe r) (take k buf) (mem s) (mem s') \<and> shape s' = shape s \<and> quiet s' \<and>
    sends s' = sends s @ (if 0 < k \<and> (force_send (mgr s) \<or> pipe_used (mem s) (tx_pipe r) = 0) then [write_event s bufid] else [])"
proof -
  let ?i = "unat bufid" and ?p = "tx_pipe r"
  have size: "tx_size (header_op r0) = p_size (tx_pipe r0)" for r0 by (simp add: tx_pipe_def)
  have full: "(tx_room s r = 0) = False" using room by simp
  obtain s1 r1 where s1: "update_write_mask s ?i = Some (False, s1)" "quiet s1" "mem s1 = mem s" "shape s1 = shape s"
    "sends s1 = sends s" "ring_of s1 ?i = Some r1" "tx_pipe r1 = ?p" "sb_state (mgr s1) = sb_state (mgr s)"
    "force_send (mgr s1) = force_send (mgr s)" "sb_dst (mgr s1) = sb_dst (mgr s)" "sb_channel (mgr s1) = sb_channel (mgr s)"
    using write_mask_quiet [OF s(1-3), unfolded full] by blast
  define s2 where "s2 = sipc_smem_release_resource s1"
  have s2: "quiet s2" "mem s2 = mem s" "shape s2 = shape s" "sends s2 = sends s" "ring_of s2 ?i = Some r1"
    "sb_state (mgr s2) = SBUF_STATE_READY" "force_send (mgr s2) = force_send (mgr s)" "write_event s2 bufid = write_event s bufid"
    "tx_room s2 r1 = tx_room s r"
    using s1 s(4) by (simp_all add: s2_def tx_room_def size write_event_def)
  have "sbuf_write_ring user s bufid buf len timeout = write_end user s2 ?i buf len"
    using s s1(1) s2(1) by (simp add: sbuf_write_ring_def write_end_def s2_def [symmetric] Let_def)
  moreover have ok2: "pipe_ok (mem s2) (tx_pipe r1)" "0 < tx_room s2 r1" using s(3) s1(7) s2(2,9) room by simp_all
  ultimately show ?thesis
    using write_end_quiet [OF s2(1,5) ok2(1) s2(6) len ok2(2), of user] unfolding s2(2,3,4,7,8,9) s1(7) k_def by simp
qed

lemma read_ring_quiet:
  assumes s: "quiet s" "ring_of s (unat bufid) = Some r" "pipe_ok (mem s) (rx_pipe r)" "sb_state (mgr s) = SBUF_STATE_READY"
    and len: "unat len < 2 ^ 31" and data: "0 < pipe_used (mem s) (rx_pipe r)"
  defines "k \<equiv> min (pipe_used (mem s) (rx_pipe r)) (unat len)"
  shows "\<exists>s'. sbuf_read_ring user s bufid len timeout = Some (int k, take k (fifo (mem s) (rx_pipe r)), s') \<and>
    popped (rx_pipe r) (take k (fifo (mem s) (rx_pipe r))) (mem s) (mem s') \<and> shape s' = shape s \<and> quiet s' \<and>
    sends s' = sends s @ (if 0 < k \<and> pipe_used (mem s) (rx_pipe r) = unat (p_size (rx_pipe r))
      then [Smsg_send (sb_dst (mgr s)) (smsg_set (sb_channel (mgr s)) SMSG_TYPE_EVENT SMSG_EVENT_SBUF_RDPTR bufid)] else [])"
proof -
  let ?i = "unat bufid" and ?p = "rx_pipe r" and ?xs = "take k (fifo (mem s) (rx_pipe r))"
  have size: "rx_size (header_op r0) = p_size (rx_pipe r0)" for r0 by (simp add: rx_pipe_def)
  have some: "(pipe_used (mem s) ?p = 0) = False" using data by simp
  obtain s1 r1 where s1: "update_read_mask s ?i = Some (False, s1)" "quiet s1" "mem s1 = mem s" "shape s1 = shape s"
    "sends s1 = sends s" "ring_of s1 ?i = Some r1" "rx_pipe r1 = ?p" "sb_state (mgr s1) = sb_state (mgr s)"
    "sb_dst (mgr s1) = sb_dst (mgr s)" "sb_channel (mgr s1) = sb_channel (mgr s)"
    using read_mask_quiet [OF s(1-3), unfolded some] by blast
  define s2 where "s2 = sipc_smem_release_resource s1"
  have s2: "quiet s2" "mem s2 = mem s" "shape s2 = shape s" "sends s2 = sends s" "ring_of s2 ?i = Some r1"
    "sb_state (mgr s2) = SBUF_STATE_READY" "sb_dst (mgr s2) = sb_dst (mgr s)" "sb_channel (mgr s2) = sb_channel (mgr s)"
    using s1 s(4) by (simp_all add: s2_def)
  have left: "sint len = int (unat len)" using len(1) by (rule sint_small)
  obtain s3 where s3: "read_loop user s2 ?i (sint len) 0 [] = Some (0, sint len - int k, ?xs, s3)"
    "popped ?p ?xs (mem s) (mem s3)" "quiet s3" "shape s3 = shape s" "ring_of s3 ?i = Some r1"
    "sends s3 = sends s @ (if 0 < k \<and> pipe_used (mem s) ?p = unat (p_size ?p)
      then [Smsg_send (sb_dst (mgr s)) (smsg_set (sb_channel (mgr s)) SMSG_TYPE_EVENT SMSG_EVENT_SBUF_RDPTR bufid)] else [])"
  proof (cases "unat len = 0")
    case True
    then have "read_round user s2 ?i (sint len) = Some (Stop, [], s2)"
      using read_round_stop [of s2 ?i r1 "sint len"] s2 s1(7) s(3) left by (simp add: quiet_def)
    then have "read_loop user s2 ?i (sint len) 0 [] = Some (0, sint len, [], s2)" by (simp add: read_loop.simps)
    then show thesis using that [of s2] True s2 popped_Nil [OF s(3)] by (simp add: k_def)
  next
    case False
    have "0 < sint len" unfolding left of_nat_0_less_iff using False by simp
    moreover have nl: "nat (sint len) = unat len" unfolding left nat_int ..
    ultimately obtain m' where m': "popped ?p ?xs (mem s) m'"
      "read_loop user s2 ?i (sint len) 0 [] = Some (0, sint len - int k, [] @ ?xs,
         after_read s2 ?i (pipe_used (mem s) ?p = unat (p_size ?p)) m')"
      using read_loop_quiet [of s2 ?i r1 "sint len" user 0 "[]"] s2 s1(7) s(3) data unfolding nl k_def size by metis
    show thesis
      by (rule that [OF m'(2) [unfolded append_Nil]]) (use m'(1) s2 False data in \<open>simp_all add: k_def\<close>)
  qed
  have ok3: "pipe_ok (mem s3) (rx_pipe r1)" using s3(2) s1(7) by (simp add: popped_def)
  obtain b s4 r4 where s4: "update_read_mask s3 ?i = Some (b, s4)" "quiet s4" "mem s4 = mem s3" "shape s4 = shape s3" "sends s4 = sends s3"
    "ring_of s4 ?i = Some r4"
    using read_mask_quiet [OF s3(3,5) ok3] by metis
  obtain s5 where s5: "end_access True s4 ?i = Some s5" "quiet s5" "mem s5 = mem s4" "shape s5 = shape s4" "sends s5 = sends s4"
    using end_access_quiet [OF s4(2,6)] .
  have "sbuf_read_ring user s bufid len timeout = Some (int k, ?xs, s5)"
    using s s1(1) s2(1) s3(1) s4(1) s5(1)
    by (simp add: sbuf_read_ring_def s2_def [symmetric])
  then show ?thesis
    using s3 s4 s5 by (intro exI [of _ s5]) simp
qed

section \<open>A writer that waits\<close>

text \<open>While the writer sleeps the peer takes \<open>n\<close> bytes and tells it so.\<close>

definition peer_reads :: "sbuf_state \<Rightarrow> sbuf_ring \<Rightarrow> u32 \<Rightarrow> nat \<Rightarrow> sbuf_action list" where
  "peer_reads s r bufid n =
     [Set_word (tx_rd_p (header_op r)) (hword (mem s) (tx_rd_p (header_op r)) + of_nat n),
      Receive (smsg_set (sb_channel (mgr s)) SMSG_TYPE_EVENT SMSG_EVENT_SBUF_RDPTR bufid)]"

lemma poll_write_nonzero [simp]: "POLL_WRITE \<noteq> 0"
  by (simp add: POLL_WRITE_def)

lemma poll_write_bit: "(v OR POLL_WRITE) AND POLL_WRITE = POLL_WRITE"
  by (simp add: bit_eq_iff bit_simps)

lemma rdptr_event:
  assumes "ring_of s (unat bufid) = Some r" "quiet s"
  obtains s' r' where "sbuf_thread_msg s (smsg_set ch SMSG_TYPE_EVENT SMSG_EVENT_SBUF_RDPTR bufid) = Some s'"
    "ring_of s' (unat bufid) = Some r'" "tx_pipe r' = tx_pipe r" "rx_pipe r' = rx_pipe r" "poll_mask r' AND POLL_WRITE \<noteq> 0"
    "quiet s'" "mem s' = mem s" "shape s' = shape s" "sends s' = sends s" "sb_state (mgr s') = sb_state (mgr s)"
    "sb_dst (mgr s') = sb_dst (mgr s)" "sb_channel (mgr s') = sb_channel (mgr s)"
proof -
  let ?i = "unat bufid"
  define a where "a = (if need_wake_lock r then sb_emit (Request_wakelock ?i) s else s)"
  define b where "b = sb_emit (Wake_txwait ?i) (set_poll a ?i POLL_WRITE True)"
  define c where "c = (if handler r then sb_emit (Call_handler ?i SBUF_NOTIFY_WRITE) b else b)"
  define s' where "s' = sb_emit Ch_wake_unlock c"
  have sa: "sends (sb_emit (Request_wakelock ?i) t) = sends t" "sends (sb_emit (Wake_txwait ?i) t) = sends t"
    "sends (sb_emit (Call_handler ?i SBUF_NOTIFY_WRITE) t) = sends t" "sends (sb_emit Ch_wake_unlock t) = sends t" for t
    by (simp_all add: sends_def sb_emit_def)
  have "sbuf_thread_msg s (smsg_set ch SMSG_TYPE_EVENT SMSG_EVENT_SBUF_RDPTR bufid) = Some s'"
    using assms(1)
    by (simp add: sbuf_thread_msg_def sbuf_event_def smsg_set_def smsg_type_defs Let_def s'_def c_def b_def a_def)
  moreover have "ring_of a ?i = Some r" using assms(1) by (simp add: a_def)
  then have "ring_of s' ?i = Some (r\<lparr>poll_mask := poll_mask r OR POLL_WRITE\<rparr>)"
    by (auto simp: s'_def c_def b_def ring_of_def set_poll_def upd_ring_def elem_def split: if_splits)
  ultimately show thesis
    by (rule that) (simp_all add: pipes_of_poll poll_write_bit s'_def c_def b_def a_def assms(2) sa)
qed

lemma quiet_sleeps [simp]: "quiet (s\<lparr>sleeps := xs\<rparr>) = quiet s" "ring_of (s\<lparr>sleeps := xs\<rparr>) i = ring_of s i"
  "shape (s\<lparr>sleeps := xs\<rparr>) = shape s" "sends (s\<lparr>sleeps := xs\<rparr>) = sends s"
  by (simp_all add: quiet_def ring_of_def shape_def sends_def)

lemma sleep_until_read:
  assumes s: "quiet s" "ring_of s (unat bufid) = Some r" "pipe_ok (mem s) (tx_pipe r)" "sb_state (mgr s) = SBUF_STATE_READY"
    and n: "0 < n" "n \<le> pipe_used (mem s) (tx_pipe r)" and sleep: "sleeps s = (peer_reads s r bufid n, False) # ws"
  obtains s' r' where "sbuf_sleep s (unat bufid) True timeout = Some (0, s')"
    "popped (tx_pipe r) (take n (fifo (mem s) (tx_pipe r))) (mem s) (mem s')" "ring_of s' (unat bufid) = Some r'" "tx_pipe r' = tx_pipe r"
    "quiet s'" "shape s' = shape s" "sends s' = sends s" "sb_state (mgr s') = SBUF_STATE_READY" "write_event s' bufid = write_event s bufid"
proof -
  let ?p = "tx_pipe r" and ?i = "unat bufid"
  have p: "p_rd ?p = tx_rd_p (header_op r)" "p_size ?p = tx_size (header_op r)" by (simp_all add: tx_pipe_def)
  obtain m' where m': "BL_WRITEL (mem s) (p_rd ?p) (hword (mem s) (p_rd ?p) + of_nat n) = Some m'"
    "popped ?p (take n (fifo (mem s) ?p)) (mem s) m'"
    using pop_pipe [OF s(3) n(2)] by blast
  let ?t = "s\<lparr>sleeps := ws, mem := m'\<rparr>"
  have t: "ring_of ?t ?i = Some r" "quiet ?t" "mem ?t = m'" "shape ?t = shape s" "sends ?t = sends s"
    "sb_state (mgr ?t) = SBUF_STATE_READY" "sb_dst (mgr ?t) = sb_dst (mgr s)" "sb_channel (mgr ?t) = sb_channel (mgr s)"
    using s by simp_all
  obtain s' r' where s': "sbuf_thread_msg ?t (smsg_set (sb_channel (mgr s)) SMSG_TYPE_EVENT SMSG_EVENT_SBUF_RDPTR bufid) = Some s'"
    "ring_of s' ?i = Some r'" "tx_pipe r' = ?p" "poll_mask r' AND POLL_WRITE \<noteq> 0"
    "quiet s'" "mem s' = m'" "shape s' = shape s" "sends s' = sends s" "sb_state (mgr s') = SBUF_STATE_READY"
    "sb_dst (mgr s') = sb_dst (mgr s)" "sb_channel (mgr s') = sb_channel (mgr s)"
    using rdptr_event [OF t(1,2), of "sb_channel (mgr s)"] unfolding t(3-8) by blast
  have ok': "pipe_ok m' ?p" using m'(2) by (simp add: popped_def)
  have "length (fifo (mem s) ?p) = length (take n (fifo (mem s) ?p) @ fifo m' ?p)" using m'(2) by (simp only: popped_def)
  then have "pipe_used m' ?p < unat (p_size ?p)" using n s(3) by (simp add: pipe_ok_def)
  then have "sbuf_has_data s' ?i True = Some True"
    using s'(2,3,4,6) tx_used_pipe [of s' r'] ok'
    by (auto simp: sbuf_has_data_def pipe_used_def word_less_nat_alt p tx_pipe_def)
  moreover have "run_actions (peer_reads s r bufid n) (s\<lparr>sleeps := ws\<rparr>) = Some s'"
    using m'(1) s'(1) by (simp add: peer_reads_def run_action_def p)
  moreover have "SBUF_STATE_READY \<noteq> SBUF_STATE_IDLE" by (simp add: SBUF_STATE_READY_def SBUF_STATE_IDLE_def)
  ultimately have "sbuf_sleep s ?i True timeout = Some (0, s')"
    using sleep s'(9) by (simp add: sbuf_sleep_def)
  moreover have "write_event s' bufid = write_event s bufid" using s'(10,11) by (simp add: write_event_def)
  ultimately show thesis
    using that [of s' r'] m'(2) s'(2,3,5-9) by simp
qed

section \<open>Pipes that do not interfere\<close>

definition disjoint_pipes :: "pipe \<Rightarrow> pipe \<Rightarrow> bool" where
  "disjoint_pipes p q \<longleftrightarrow>
     {p_rd p, p_wt p} \<inter> {p_rd q, p_wt q} = {} \<and>
     (p_base p + unat (p_size p) \<le> p_base q \<or> p_base q + unat (p_size q) \<le> p_base p)"

lemma fifo_frame:
  assumes "pipe_ok m q" "hword m' (p_rd q) = hword m (p_rd q)" "hword m' (p_wt q) = hword m (p_wt q)"
    and "\<And>a. p_base q \<le> a \<Longrightarrow> a < p_base q + unat (p_size q) \<Longrightarrow> area m' ! a = area m ! a"
    and "length (area m') = length (area m)" "length (headers m') = length (headers m)"
  shows "fifo m' q = fifo m q \<and> pipe_ok m' q"
proof -
  have "pipe_used m' q = pipe_used m q" using assms by (simp add: pipe_used_def)
  moreover have "0 < unat (p_size q)" using assms(1) by (simp add: pipe_ok_def)
  ultimately show ?thesis
    using assms by (auto simp: fifo_def pipe_ok_def intro!: ring_slice_cong)
qed

lemma pushed_other:
  assumes "pushed p xs m m'" "pipe_ok m q" "disjoint_pipes p q"
  shows "fifo m' q = fifo m q \<and> pipe_ok m' q"
proof (rule fifo_frame [OF assms(2)])
  have w: "p_rd q \<noteq> p_wt p" "p_wt q \<noteq> p_wt p" using assms(3) by (auto simp: disjoint_pipes_def)
  then show "hword m' (p_rd q) = hword m (p_rd q)" "hword m' (p_wt q) = hword m (p_wt q)"
    using assms(1) unfolding pushed_def by blast+
  show "length (area m') = length (area m)" "length (headers m') = length (headers m)"
    using assms(1) unfolding pushed_def by blast+
  fix a assume a: "p_base q \<le> a" "a < p_base q + unat (p_size q)"
  then have "a < length (area m)" using assms(2) by (simp add: pipe_ok_def)
  moreover have "\<not> (p_base p \<le> a \<and> a < p_base p + unat (p_size p))"
    using a assms(3) by (auto simp: disjoint_pipes_def)
  ultimately show "area m' ! a = area m ! a" using assms(1) unfolding pushed_def by blast
qed

lemma popped_other:
  assumes "popped p xs m m'" "pipe_ok m q" "disjoint_pipes p q"
  shows "fifo m' q = fifo m q \<and> pipe_ok m' q"
proof (rule fifo_frame [OF assms(2)])
  have w: "p_rd q \<noteq> p_rd p" "p_wt q \<noteq> p_rd p" using assms(3) by (auto simp: disjoint_pipes_def)
  then show "hword m' (p_rd q) = hword m (p_rd q)" "hword m' (p_wt q) = hword m (p_wt q)"
    using assms(1) unfolding popped_def by blast+
qed (use assms(1) in \<open>auto simp: popped_def\<close>)

section \<open>Streams\<close>

text \<open>
  The transfers of the pipes \<open>P\<close>: a round of the copy loop of \<open>sbuf_write\<close> or \<open>sbuf_read\<close>, by either side,
  any thread and any ring, on the current memory.
\<close>

inductive sbuf_io :: "pipe set \<Rightarrow> sbuf_smem \<Rightarrow> (pipe, u8) transfer \<Rightarrow> sbuf_smem \<Rightarrow> bool" for P where
  writes: "ring_of s i = Some r \<Longrightarrow> tx_pipe r \<in> P \<Longrightarrow> races s = [] \<Longrightarrow> \<not> user \<or> faults s = [] \<Longrightarrow>
    0 \<le> left \<Longrightarrow> nat left \<le> length buf \<Longrightarrow> write_round user s i buf left = Some (Moved k, s') \<Longrightarrow>
    sbuf_io P (mem s) (Wrote (tx_pipe r) (take k buf)) (mem s')"
| reads: "ring_of s i = Some r \<Longrightarrow> rx_pipe r \<in> P \<Longrightarrow> races s = [] \<Longrightarrow> \<not> user \<or> faults s = [] \<Longrightarrow>
    0 \<le> left \<Longrightarrow> read_round user s i left = Some (Moved k, bytes, s') \<Longrightarrow>
    sbuf_io P (mem s) (Got (rx_pipe r) bytes) (mem s')"

inductive_cases sbuf_io_wrote: "sbuf_io P m (Wrote p xs) m'"
inductive_cases sbuf_io_got: "sbuf_io P m (Got p xs) m'"

definition pipes_ok :: "pipe set \<Rightarrow> sbuf_smem \<Rightarrow> bool" where
  "pipes_ok P m \<longleftrightarrow> (\<forall>p \<in> P. pipe_ok m p) \<and> (\<forall>p \<in> P. \<forall>q \<in> P. p \<noteq> q \<longrightarrow> disjoint_pipes p q)"

lemma write_round_not_ready:
  "races s = [] \<Longrightarrow> ring_of s i = Some r \<Longrightarrow> pipe_ok (mem s) (tx_pipe r) \<Longrightarrow> sb_state (mgr s) \<noteq> SBUF_STATE_READY \<Longrightarrow>
    write_round user s i buf left = Some (Stop, s)"
  by (simp add: write_round_def next_race_def tx_used_pipe Let_def)

lemma read_round_not_ready:
  "races s = [] \<Longrightarrow> ring_of s i = Some r \<Longrightarrow> pipe_ok (mem s) (rx_pipe r) \<Longrightarrow> sb_state (mgr s) \<noteq> SBUF_STATE_READY \<Longrightarrow>
    read_round user s i left = Some (Stop, [], s)"
  by (simp add: read_round_def next_race_def rx_used_pipe Let_def)

lemma sbuf_io_pushed:
  assumes "sbuf_io P m (Wrote p xs) m'" "pipes_ok P m"
  shows "p \<in> P \<and> pushed p xs m m'"
proof -
  obtain s i r user left buf k s' where w: "m = mem s" "p = tx_pipe r" "xs = take k buf" "m' = mem s'" "ring_of s i = Some r" "tx_pipe r \<in> P" "races s = []"
    "\<not> user \<or> faults s = []" "0 \<le> left" "nat left \<le> length buf" "write_round user s i buf left = Some (Moved k, s')"
    using assms(1) by (rule sbuf_io_wrote) blast
  have ok: "pipe_ok (mem s) (tx_pipe r)" using assms(2) w(1,6) by (simp add: pipes_ok_def)
  have ready: "sb_state (mgr s) = SBUF_STATE_READY" using write_round_not_ready [OF w(7,5) ok] w(11) by fastforce
  have "left \<noteq> 0" "0 < tx_room s r" using write_round_stop [OF w(7,5) ok, of left user buf] w(11) by fastforce+
  then obtain m1 where "pushed (tx_pipe r) (take (min (tx_room s r) (nat left)) buf) (mem s) m1"
    "write_round user s i buf left = Some (Moved (min (tx_room s r) (nat left)), after_write s i (pipe_used (mem s) (tx_pipe r) = 0) m1)"
    using write_round_moves [OF w(7,5) ok ready _ _ w(10,8)] w(9) by (metis order_le_imp_less_or_eq)
  then show ?thesis using w by auto
qed

lemma sbuf_io_popped:
  assumes "sbuf_io P m (Got p xs) m'" "pipes_ok P m"
  shows "p \<in> P \<and> popped p xs m m'"
proof -
  obtain s i r user left k s' where w: "m = mem s" "p = rx_pipe r" "m' = mem s'" "ring_of s i = Some r" "rx_pipe r \<in> P" "races s = []"
    "\<not> user \<or> faults s = []" "0 \<le> left" "read_round user s i left = Some (Moved k, xs, s')"
    using assms(1) by (rule sbuf_io_got) blast
  have ok: "pipe_ok (mem s) (rx_pipe r)" using assms(2) w(1,5) by (simp add: pipes_ok_def)
  have ready: "sb_state (mgr s) = SBUF_STATE_READY" using read_round_not_ready [OF w(6,4) ok] w(9) by fastforce
  have "left \<noteq> 0" "0 < pipe_used (mem s) (rx_pipe r)" using read_round_stop [OF w(6,4) ok, of left user] w(9) by fastforce+
  then obtain m1 where "popped (rx_pipe r) (take (min (pipe_used (mem s) (rx_pipe r)) (nat left)) (fifo (mem s) (rx_pipe r))) (mem s) m1"
    "read_round user s i left = Some (Moved (min (pipe_used (mem s) (rx_pipe r)) (nat left)),
       take (min (pipe_used (mem s) (rx_pipe r)) (nat left)) (fifo (mem s) (rx_pipe r)),
       after_read s i (pipe_used (mem s) (rx_pipe r) = unat (rx_size (header_op r))) m1)"
    using read_round_moves [OF w(6,4) ok ready _ _ w(7)] w(8) by (metis order_le_imp_less_or_eq)
  then show ?thesis using w by auto
qed

interpretation pipes: fifo_streams "sbuf_io P" "pipes_ok P" fifo P for P
proof
  fix m m' and e :: "(pipe, u8) transfer" assume ok: "pipes_ok P m" and e: "sbuf_io P m e m'"
  show "pipes_ok P m'"
  proof (cases e)
    case (Wrote p xs)
    then have p: "p \<in> P" "pushed p xs m m'" using sbuf_io_pushed e ok by auto
    then show ?thesis
      using ok pushed_other [OF p(2)] unfolding pipes_ok_def by (metis pushed_def)
  next
    case (Got p xs)
    then have p: "p \<in> P" "popped p xs m m'" using sbuf_io_popped e ok by auto
    then show ?thesis
      using ok popped_other [OF p(2)] unfolding pipes_ok_def by (metis popped_def)
  qed
next
  fix m m' p xs q assume ok: "pipes_ok P m" and e: "sbuf_io P m (Wrote p xs) m'" and q: "q \<in> P"
  have p: "p \<in> P" "pushed p xs m m'" using sbuf_io_pushed [OF e ok] by auto
  show "fifo m' q = fifo m q @ (if q = p then xs else [])"
    using p pushed_other [OF p(2), of q] ok q unfolding pipes_ok_def by (auto simp: pushed_def)
next
  fix m m' p xs q assume ok: "pipes_ok P m" and e: "sbuf_io P m (Got p xs) m'" and q: "q \<in> P"
  have p: "p \<in> P" "popped p xs m m'" using sbuf_io_popped [OF e ok] by auto
  show "fifo m q = (if q = p then xs else []) @ fifo m' q"
    using p popped_other [OF p(2), of q] ok q unfolding pipes_ok_def by (auto simp: popped_def)
qed

section \<open>The layout of host and client\<close>

definition good_size :: "u32 \<Rightarrow> bool" where
  "good_size sz \<longleftrightarrow> 0 < unat sz \<and> unat sz dvd 2 ^ 32 \<and> unat sz < 2 ^ 31"

definition slot_at :: "u32 \<Rightarrow> u32 \<Rightarrow> nat \<Rightarrow> nat" where
  "slot_at tx rx i = (unat tx + unat rx) * i"

definition host_tx :: "u32 \<Rightarrow> u32 \<Rightarrow> nat \<Rightarrow> pipe" where
  "host_tx tx rx i = \<lparr>p_rd = (i, Txbuf_rdptr), p_wt = (i, Txbuf_wrptr), p_base = slot_at tx rx i, p_size = tx\<rparr>"

definition host_rx :: "u32 \<Rightarrow> u32 \<Rightarrow> nat \<Rightarrow> pipe" where
  "host_rx tx rx i =
     \<lparr>p_rd = (i, Rxbuf_rdptr), p_wt = (i, Rxbuf_wrptr), p_base = slot_at tx rx i + unat tx, p_size = rx\<rparr>"

text \<open>The sizes fit in 32 bits.\<close>

definition layout_fits :: "u32 \<Rightarrow> u32 \<Rightarrow> u32 \<Rightarrow> bool" where
  "layout_fits bufnum tx rx \<longleftrightarrow> 4 + 32 * unat bufnum + (unat tx + unat rx) * unat bufnum < 2 ^ 32"

lemma layout_unat:
  assumes "layout_fits bufnum tx rx" "i \<le> unat bufnum" "0 < unat bufnum"
  shows "unat ((tx + rx) * of_nat i) = slot_at tx rx i"
proof -
  define w where "w = unat tx + unat rx"
  have wn: "w * unat bufnum < 2 ^ 32" "unat bufnum < 2 ^ 32"
    using assms(1) unfolding layout_fits_def w_def [symmetric] by linarith+
  have "w * 1 \<le> w * unat bufnum" using assms(3) by (intro mult_le_mono2) simp
  then have s: "unat tx + unat rx < 2 ^ 32" using wn(1) unfolding w_def [symmetric] mult_1_right by linarith
  have "w * i \<le> w * unat bufnum" using assms(2) by simp
  then have p: "(unat tx + unat rx) * i < 2 ^ 32" using wn(1) unfolding w_def [symmetric] by linarith
  have "i < 2 ^ 32" using wn(2) assms(2) by linarith
  then show ?thesis using s p by (simp add: unat_word_ariths unat_of_nat slot_at_def)
qed

lemma layout_smem_size:
  assumes "layout_fits bufnum tx rx" "0 < unat bufnum"
  shows "unat (header_size bufnum + (tx + rx) * bufnum) = 4 + 32 * unat bufnum + (unat tx + unat rx) * unat bufnum"
proof -
  have a: "unat ((tx + rx) * bufnum) = (unat tx + unat rx) * unat bufnum"
    using layout_unat [OF assms(1) order_refl assms(2)] by (simp add: slot_at_def)
  have "32 * unat bufnum < 2 ^ 32" using assms(1) by (simp add: layout_fits_def)
  then have h: "unat (header_size bufnum) = 4 + 32 * unat bufnum"
    using assms(1) by (simp add: header_size_def unat_word_ariths layout_fits_def)
  show ?thesis
    using assms(1) unfolding unat_word_ariths(1) [of "header_size bufnum"] a h by (simp add: layout_fits_def)
qed

lemma host_ring_pipes:
  assumes "layout_fits bufnum tx rx" "i < unat bufnum"
  shows "tx_pipe (host_ring tx rx i) = host_tx tx rx i" "rx_pipe (host_ring tx rx i) = host_rx tx rx i"
  using layout_unat [OF assms(1), of i] assms(2)
  by (simp_all add: tx_pipe_def rx_pipe_def host_ring_def host_tx_def host_rx_def Let_def)

lemma client_ring_pipes:
  assumes "layout_fits bufnum tx rx" "i < unat bufnum" "txbuf_size h = tx" "rxbuf_size h = rx"
  shows "rx_pipe (client_ring rx tx h i) = host_tx tx rx i" "tx_pipe (client_ring rx tx h i) = host_rx tx rx i"
  using layout_unat [OF assms(1), of i] assms(2-4)
  by (simp_all add: tx_pipe_def rx_pipe_def client_ring_def host_tx_def host_rx_def Let_def add.commute)

lemma slots_apart:
  assumes "i \<noteq> j"
  shows "slot_at tx rx i + (unat tx + unat rx) \<le> slot_at tx rx j \<or> slot_at tx rx j + (unat tx + unat rx) \<le> slot_at tx rx i"
proof -
  have "Suc i \<le> j \<or> Suc j \<le> i" using assms by linarith
  then have "slot_at tx rx (Suc i) \<le> slot_at tx rx j \<or> slot_at tx rx (Suc j) \<le> slot_at tx rx i"
    unfolding slot_at_def by (metis mult_le_mono2)
  then show ?thesis by (simp add: slot_at_def algebra_simps)
qed

lemma host_pipes_disjoint:
  assumes "i \<noteq> j"
  shows "disjoint_pipes (host_tx tx rx i) (host_tx tx rx j)" "disjoint_pipes (host_rx tx rx i) (host_rx tx rx j)"
    "disjoint_pipes (host_tx tx rx i) (host_rx tx rx j)" "disjoint_pipes (host_rx tx rx i) (host_tx tx rx j)"
  using slots_apart [OF assms, of tx rx] assms
  by (auto simp: disjoint_pipes_def host_tx_def host_rx_def)

lemma host_pair_disjoint:
  "disjoint_pipes (host_tx tx rx i) (host_rx tx rx i)" "disjoint_pipes (host_rx tx rx i) (host_tx tx rx i)"
  by (auto simp: disjoint_pipes_def host_tx_def host_rx_def)

definition host_pipes :: "u32 \<Rightarrow> u32 \<Rightarrow> u32 \<Rightarrow> pipe set" where
  "host_pipes bufnum tx rx = (\<Union>i \<in> {..<unat bufnum}. {host_tx tx rx i, host_rx tx rx i})"

lemma host_init_result:
  assumes "sbuf_host_init env sipc b bufnum tx rx content = Some (Inr (b', m))"
  shows "rings b' = map (\<lambda>i. (host_ring tx rx i)\<lparr>poll_mask := POLL_WRITE, need_wake_lock := True\<rparr>) [0..<unat bufnum]"
    and "\<exists>b0. headers m = map (host_header b0 (header_size bufnum) tx rx) [0..<unat bufnum]"
    and "area m = take (unat (header_size bufnum + (tx + rx) * bufnum) - (4 + 32 * unat bufnum)) content"
    and "smem_ringnr m = bufnum"
  using assms by (auto simp: sbuf_host_init_def Let_def sbuf_comm_init_def split: if_splits)

lemma pipes_of_comm: "tx_pipe (r\<lparr>poll_mask := v, need_wake_lock := w\<rparr>) = tx_pipe r" "rx_pipe (r\<lparr>poll_mask := v, need_wake_lock := w\<rparr>) = rx_pipe r"
  by (simp_all add: tx_pipe_def rx_pipe_def)

lemma host_init_pipes:
  assumes init: "sbuf_host_init env sipc b bufnum tx rx content = Some (Inr (b', m))"
    and fits: "layout_fits bufnum tx rx" "good_size tx" "good_size rx" "(unat tx + unat rx) * unat bufnum \<le> length content"
  shows "pipes_ok (host_pipes bufnum tx rx) m" "p \<in> host_pipes bufnum tx rx \<Longrightarrow> fifo m p = []"
proof -
  note res = host_init_result [OF init]
  obtain b0 where hd: "headers m = map (host_header b0 (header_size bufnum) tx rx) [0..<unat bufnum]" using res(2) by blast
  have one: "pipe_ok m q \<and> pipe_used m q = 0" if "i < unat bufnum" "q = host_tx tx rx i \<or> q = host_rx tx rx i" for i q
  proof -
    have len: "length (area m) = (unat tx + unat rx) * unat bufnum"
      using res(3) layout_smem_size [OF fits(1)] fits(4) that(1) by simp
    have "(unat tx + unat rx) * Suc i \<le> (unat tx + unat rx) * unat bufnum" using that(1) by (intro mult_le_mono2) simp
    then have end_: "slot_at tx rx i + (unat tx + unat rx) \<le> length (area m)" using len by (simp add: slot_at_def algebra_simps)
    have "hword m (i, w) = 0" for w
      using that(1) hd by (cases w) (simp_all add: hword_def BL_READL_def elem_def host_header_def Let_def)
    then have "pipe_used m q = 0" using that(2) by (auto simp: pipe_used_def host_tx_def host_rx_def)
    then show ?thesis
      using that fits(2,3) end_ hd by (auto simp: pipe_ok_def host_tx_def host_rx_def good_size_def)
  qed
  have "disjoint_pipes p q" if "i < unat bufnum" "j < unat bufnum" "p \<in> {host_tx tx rx i, host_rx tx rx i}"
    "q \<in> {host_tx tx rx j, host_rx tx rx j}" "p \<noteq> q" for i j p q
    using that host_pipes_disjoint [of i j tx rx] host_pair_disjoint [of tx rx i] by (cases "i = j") auto
  then show "pipes_ok (host_pipes bufnum tx rx) m"
    using one unfolding pipes_ok_def host_pipes_def by blast
  show "fifo m p = []" if "p \<in> host_pipes bufnum tx rx"
  proof -
    have "length (fifo m p) = 0" using that one by (auto simp: host_pipes_def)
    then show ?thesis by (simp only: length_0_conv)
  qed
qed

lemma client_init_pipes:
  assumes init: "sbuf_host_init env sipc b bufnum tx rx content = Some (Inr (b', m))"
    and client: "sbuf_client_init env' m c = Some (Inr c')" and fits: "layout_fits bufnum tx rx"
  shows "map tx_pipe (rings c') = map rx_pipe (rings b')" "map rx_pipe (rings c') = map tx_pipe (rings b')"
proof -
  note res = host_init_result [OF init]
  obtain b0 where hd: "headers m = map (host_header b0 (header_size bufnum) tx rx) [0..<unat bufnum]" using res(2) by blast
  have n: "0 < unat bufnum"
    using client hd by (auto simp: sbuf_client_init_def elem_def split: if_splits)
  have h: "txbuf_size (headers m ! i) = tx" "rxbuf_size (headers m ! i) = rx" if "i < unat bufnum" for i
    using that hd by (simp_all add: host_header_def Let_def)
  have "rings c' = map (\<lambda>i. (client_ring rx tx (headers m ! i) i)\<lparr>poll_mask := POLL_WRITE, need_wake_lock := True\<rparr>) [0..<unat bufnum]"
    using client h [OF n] n hd res(4)
    by (auto simp: sbuf_client_init_def elem_def sbuf_comm_init_def Let_def split: if_splits)
  then show "map tx_pipe (rings c') = map rx_pipe (rings b')" "map rx_pipe (rings c') = map tx_pipe (rings b')"
    using client_ring_pipes [OF fits] host_ring_pipes [OF fits] h
    by (simp_all add: res(1) pipes_of_comm)
qed

section \<open>A size that does not divide the pointer range\<close>

text \<open>One side of a channel with a single ring, and the memory of the \<^verbatim>\<open>snv_nr\<close> pipe of \<^verbatim>\<open>spipe.c\<close> (sizes
  \<^verbatim>\<open>0x40400\<close> and \<^verbatim>\<open>0x1000\<close>) just before its pointers wrap.\<close>

definition side :: "sbuf_ring \<Rightarrow> sbuf_smem \<Rightarrow> sbuf_state" where
  "side r m =
     \<lparr>mgr = (new_mgr 1 40 False)\<lparr>sb_state := SBUF_STATE_READY, ringnr := 1, rings := [r]\<rparr>, mem = m,
      smem_local = True, client = False, sleeps = [], races = [], locks = [], resources = [], faults = [],
      sb_effects = []\<rparr>"

definition snv_header :: sbuf_ring_header where
  "snv_header = \<lparr>txbuf_addr = 0, txbuf_size = 0x40400, txbuf_rdptr = 0xFFFFFFFF, txbuf_wrptr = 0xFFFFFFFF,
     rxbuf_addr = 0, rxbuf_size = 0x1000, rxbuf_rdptr = 0, rxbuf_wrptr = 0\<rparr>"

definition snv_mem :: "u8 list \<Rightarrow> sbuf_smem" where
  "snv_mem a = \<lparr>smem_ringnr = 1, headers = [snv_header], area = a\<rparr>"

text \<open>\<open>snv_mem_after a rd wt\<close> is that memory with data \<open>a\<close> and other pointers.\<close>

definition snv_mem_after :: "u8 list \<Rightarrow> u32 \<Rightarrow> u32 \<Rightarrow> sbuf_smem" where
  "snv_mem_after a rd wt = (snv_mem a)\<lparr>headers := [snv_header\<lparr>txbuf_rdptr := rd, txbuf_wrptr := wt\<rparr>]\<rparr>"

lemma side_fields [simp]:
  "races (side r m) = []" "ring_of (side r m) 0 = Some r" "mem (side r m) = m" "sb_state (mgr (side r m)) = SBUF_STATE_READY"
  "faults (side r m) = []" "force_send (mgr (side r m)) = False"
  by (simp_all add: side_def ring_of_def elem_def new_mgr_def)

lemma snv_words [simp]:
  "BL_READL (snv_mem_after a rd wt) (0, Txbuf_rdptr) = Some rd" "BL_READL (snv_mem_after a rd wt) (0, Txbuf_wrptr) = Some wt"
  "BL_WRITEL (snv_mem_after a rd wt) (0, Txbuf_rdptr) v = Some (snv_mem_after a v wt)"
  "BL_WRITEL (snv_mem_after a rd wt) (0, Txbuf_wrptr) v = Some (snv_mem_after a rd v)"
  "area (snv_mem_after a rd wt) = a" "(snv_mem_after a rd wt)\<lparr>area := b\<rparr> = snv_mem_after b rd wt"
  by (simp_all add: BL_READL_def BL_WRITEL_def elem_def snv_mem_after_def snv_mem_def)

lemma snv_host_ring [simp]:
  "tx_wt_p (header_op (host_ring 0x40400 0x1000 0)) = (0, Txbuf_wrptr)" "tx_rd_p (header_op (host_ring 0x40400 0x1000 0)) = (0, Txbuf_rdptr)"
  "tx_size (header_op (host_ring 0x40400 0x1000 0)) = 0x40400" "txbuf_virt (host_ring 0x40400 0x1000 0) = 0"
  by (simp_all add: host_ring_def Let_def)

lemma snv_client_ring [simp]:
  "rx_wt_p (header_op (client_ring 0x1000 0x40400 snv_header 0)) = (0, Txbuf_wrptr)"
  "rx_rd_p (header_op (client_ring 0x1000 0x40400 snv_header 0)) = (0, Txbuf_rdptr)"
  "rx_size (header_op (client_ring 0x1000 0x40400 snv_header 0)) = 0x40400" "rxbuf_virt (client_ring 0x1000 0x40400 snv_header 0) = 0"
  by (simp_all add: client_ring_def Let_def snv_header_def)

lemma u32_wraps: "(4294967297 :: u32) = 1" "(4294967296 :: u32) = 0"
  by simp_all

lemma snv_pos: "unat ((0xFFFFFFFF :: u32) mod 0x40400) = 65535" "(0x40400 :: u32) \<noteq> 0"
  by (simp_all add: unat_mod)

lemma snv_write:
  assumes "length a = 0x41400"
  shows "\<exists>s1. write_round False (side (host_ring 0x40400 0x1000 0) (snv_mem_after a 0xFFFFFFFF 0xFFFFFFFF)) 0 [x, y] 2 = Some (Moved 2, s1) \<and>
    mem s1 = snv_mem_after (take 65535 a @ [x, y] @ drop 65537 a) 0xFFFFFFFF 1"
proof -
  have "puts a 65535 [x, y] = Some (take 65535 a @ [x, y] @ drop 65537 a)" using assms by (simp add: puts_def)
  then show ?thesis
    by (simp add: write_round_def next_race_def tx_used_def snv_pos copy_in_def copy_fault_def rdn_def u32_wraps)
qed

lemma snv_read:
  assumes "p < length b" "unat (rd mod 0x40400) = p" "p < 0x40400" "wt - rd \<noteq> 0" "0 < sint (wt - rd)"
  shows "\<exists>s'. read_round False (side (client_ring 0x1000 0x40400 snv_header 0) (snv_mem_after b rd wt)) 0 1 = Some (Moved 1, [b ! p], s') \<and>
    mem s' = snv_mem_after b (rd + 1) wt"
proof -
  have "rdn b p 1 = Some [b ! p]" using assms(1) by (simp add: rdn_def take_Suc hd_drop_conv_nth)
  moreover have "min (sint (wt - rd)) 1 = 1" using assms(5) by simp
  ultimately show ?thesis
    using assms(2-4)
    by (simp add: read_round_def next_race_def rx_used_def copy_out_def copy_fault_def Let_def)
qed

text \<open>The exchanging macros do not fit together: a stored word is read back with two bytes at wrong
  places.\<close>

lemma BL_WRITEL_swapped_wrong: "BL_READL_swapped (BL_WRITEL_swapped 0x00000100) = 0x01000000"
  by (simp add: BL_READL_swapped_def BL_WRITEL_swapped_def)

section \<open>Properties\<close>

text \<open>C26. The pipes of a channel are byte streams. Start from empty pipes that do not overlap, and let both
  sides, any number of rings and threads run rounds of the copy loops of \<open>sbuf_write\<close> and
  \<open>sbuf_read\<close> in any order, with the pointers wrapping at \<^verbatim>\<open>2^32\<close>: what has been written to a pipe is what
  has been delivered from it followed by what is still in it, and never more than its size is in it.\<close>

theorem pipes_deliver:
  assumes "pipes_ok P m" "\<forall>p \<in> P. fifo m p = []" "chained (sbuf_io P) m es m'" "p \<in> P"
  shows "written p es = delivered p es @ fifo m' p \<and> length (fifo m' p) \<le> unat (p_size p)"
proof -
  have "pipes_ok P m'" using pipes.inv_chain [OF assms(1,3)] .
  then have "pipe_ok m' p" using assms(4) by (simp add: pipes_ok_def)
  then show ?thesis
    using pipes.stream_law [OF assms(1,3,4)] assms(2,4) by (simp add: pipe_ok_def)
qed

text \<open>C29. Host and client agree. After \<open>sbuf_host_init\<close> with sizes that divide \<^verbatim>\<open>2^32\<close> and fit, the sending
  and receiving pipes of all rings are well formed, empty and pairwise disjoint; and the client that
  maps the same memory sends into what the host receives from and the reverse, ring by ring.\<close>

theorem host_client_agree:
  assumes "sbuf_host_init env sipc b bufnum tx rx content = Some (Inr (b', m))"
    and "layout_fits bufnum tx rx" "good_size tx" "good_size rx" "(unat tx + unat rx) * unat bufnum \<le> length content"
    and "sbuf_client_init env' m c = Some (Inr c')"
  shows "pipes_ok (tx_pipe ` set (rings b') \<union> rx_pipe ` set (rings b')) m \<and>
    (\<forall>p \<in> tx_pipe ` set (rings b') \<union> rx_pipe ` set (rings b'). fifo m p = []) \<and>
    map tx_pipe (rings c') = map rx_pipe (rings b') \<and> map rx_pipe (rings c') = map tx_pipe (rings b')"
proof -
  have "tx_pipe ` set (rings b') \<union> rx_pipe ` set (rings b') = host_pipes bufnum tx rx"
    using host_ring_pipes [OF assms(2)]
    by (auto simp: host_init_result(1) [OF assms(1)] host_pipes_def pipes_of_comm image_image)
  then show ?thesis
    using host_init_pipes [OF assms(1-5)] client_init_pipes [OF assms(1,6,2)] by simp
qed

text \<open>\<open>sbuf_write\<close> on a ring with room, undisturbed: it appends the longest prefix of the buffer that
  fits, returns its length, touches nothing but its own pipe, and sends the peer a write event
  exactly when something was written into an empty pipe or the channel always sends.\<close>

theorem write_appends:
  assumes "quiet s" "ring_of s (unat bufid) = Some r" "pipe_ok (mem s) (tx_pipe r)" "sb_state (mgr s) = SBUF_STATE_READY"
    and "unat len < 2 ^ 31" "unat len \<le> length buf" "0 < tx_room s r"
  shows "\<exists>s'. sbuf_write_ring user s bufid buf len timeout = Some (int (min (tx_room s r) (unat len)), s') \<and>
    pushed (tx_pipe r) (take (min (tx_room s r) (unat len)) buf) (mem s) (mem s') \<and> shape s' = shape s \<and> quiet s' \<and>
    sends s' = sends s @ (if 0 < len \<and> (force_send (mgr s) \<or> fifo (mem s) (tx_pipe r) = []) then [write_event s bufid] else [])"
proof -
  have "0 < min (tx_room s r) (unat len) \<longleftrightarrow> 0 < len" using assms(7) by (simp add: word_less_nat_alt)
  moreover have "pipe_used (mem s) (tx_pipe r) = 0 \<longleftrightarrow> fifo (mem s) (tx_pipe r) = []"
    by (metis length_0_conv length_fifo)
  ultimately show ?thesis using write_ring_quiet [OF assms, of user timeout] by simp
qed

text \<open>\<open>sbuf_read\<close> on a ring with data, undisturbed: it delivers the oldest bytes, as many as fit the
  caller's buffer, returns their number, touches nothing but its own read pointer, and sends the peer
  a read event exactly when it took something from a full pipe.\<close>

theorem read_takes:
  assumes "quiet s" "ring_of s (unat bufid) = Some r" "pipe_ok (mem s) (rx_pipe r)" "sb_state (mgr s) = SBUF_STATE_READY"
    and "unat len < 2 ^ 31" "fifo (mem s) (rx_pipe r) \<noteq> []"
  shows "\<exists>s' bytes. bytes = take (unat len) (fifo (mem s) (rx_pipe r)) \<and>
    sbuf_read_ring user s bufid len timeout = Some (int (length bytes), bytes, s') \<and>
    popped (rx_pipe r) bytes (mem s) (mem s') \<and> shape s' = shape s \<and> quiet s' \<and>
    sends s' = sends s @ (if 0 < len \<and> length (fifo (mem s) (rx_pipe r)) = unat (p_size (rx_pipe r))
      then [Smsg_send (sb_dst (mgr s)) (smsg_set (sb_channel (mgr s)) SMSG_TYPE_EVENT SMSG_EVENT_SBUF_RDPTR bufid)] else [])"
proof -
  let ?u = "pipe_used (mem s) (rx_pipe r)"
  have u: "0 < ?u" using assms(6) by (metis length_fifo length_greater_0_conv)
  have t: "take (min ?u (unat len)) (fifo (mem s) (rx_pipe r)) = take (unat len) (fifo (mem s) (rx_pipe r))"
    by (metis length_fifo min.commute take_all_iff nle_le take_take min_def)
  have "0 < min ?u (unat len) \<longleftrightarrow> 0 < len" using u by (simp add: word_less_nat_alt)
  then show ?thesis
    using read_ring_quiet [OF assms(1-5) u, of user timeout] t by simp
qed

text \<open>C30. A writer blocked on a full pipe wakes up. With a timeout other than 0, when the peer takes bytes
  and sends its read event while the writer sleeps, the write goes on and appends as many bytes as
  the peer made room for.\<close>

theorem blocked_write_resumes:
  assumes "quiet s" "ring_of s (unat bufid) = Some r" "pipe_ok (mem s) (tx_pipe r)" "sb_state (mgr s) = SBUF_STATE_READY"
    and "tx_room s r = 0" "timeout \<noteq> 0" "0 < n" "n \<le> unat (p_size (tx_pipe r))"
    and "sleeps s = (peer_reads s r bufid n, False) # ws" "unat len < 2 ^ 31" "unat len \<le> length buf"
  shows "\<exists>s'. sbuf_write_ring user s bufid buf len timeout = Some (int (min n (unat len)), s') \<and>
    fifo (mem s') (tx_pipe r) = drop n (fifo (mem s) (tx_pipe r)) @ take n (take (unat len) buf)"
proof -
  let ?i = "unat bufid" and ?p = "tx_pipe r"
  have size: "tx_size (header_op r0) = p_size (tx_pipe r0)" "tx_rd_p (header_op r0) = p_rd (tx_pipe r0)" for r0
    by (simp_all add: tx_pipe_def)
  have used: "pipe_used (mem s) ?p = unat (p_size ?p)" using assms(3,5) by (simp add: tx_room_def pipe_ok_def size)
  have full: "(tx_room s r = 0) = True" using assms(5) by simp
  define s1 where "s1 = set_poll s ?i POLL_WRITE False"
  define s2 where "s2 = sipc_smem_release_resource s1"
  have mask: "update_write_mask s ?i = Some (True, s1)"
    using assms(2,3) used by (simp add: update_write_mask_def tx_used_pipe Let_def s1_def pipe_used_def size word_le_nat_alt)
  obtain r1 where r1: "ring_of s1 ?i = Some r1" "tx_pipe r1 = ?p" using ring_of_set_poll [OF assms(2)] by (auto simp: s1_def)
  have s2: "quiet s2" "mem s2 = mem s" "ring_of s2 ?i = Some r1" "sb_state (mgr s2) = SBUF_STATE_READY"
    "sleeps s2 = (peer_reads s2 r1 bufid n, False) # ws"
    using assms(1,4,9) r1
    by (simp_all add: s2_def s1_def peer_reads_def size)
      (simp add: sipc_smem_release_resource_def sb_emit_def set_poll_def upd_ring_def)
  have pre: "pipe_ok (mem s2) (tx_pipe r1)" "n \<le> pipe_used (mem s2) (tx_pipe r1)"
    using s2(2) r1(2) assms(3,8) used by simp_all
  obtain s3 r3 where s3: "sbuf_sleep s2 ?i True timeout = Some (0, s3)"
    "popped ?p (take n (fifo (mem s) ?p)) (mem s) (mem s3)" "ring_of s3 ?i = Some r3" "tx_pipe r3 = ?p" "quiet s3"
    "sb_state (mgr s3) = SBUF_STATE_READY"
    using sleep_until_read [OF s2(1,3) pre(1) s2(4) assms(7) pre(2) s2(5), of timeout] unfolding s2(2) r1(2) by blast
  have ok3: "pipe_ok (mem s3) (tx_pipe r3)" using s3(2,4) by (simp add: popped_def)
  have "take n (fifo (mem s) ?p) @ fifo (mem s3) ?p = fifo (mem s) ?p" using s3(2) by (simp only: popped_def)
  also have "fifo (mem s) ?p = take n (fifo (mem s) ?p) @ drop n (fifo (mem s) ?p)" by simp
  finally have fifo3: "fifo (mem s3) ?p = drop n (fifo (mem s) ?p)" by (simp only: same_append_eq)
  then have "pipe_used (mem s3) ?p = unat (p_size ?p) - n" using used by (metis length_drop length_fifo)
  then have room: "tx_room s3 r3 = n" using assms(8) by (simp add: tx_room_def size s3(4))
  have resumed: "sbuf_write_ring user s bufid buf len timeout = write_end user s3 ?i buf len"
    using assms(1,4,6) mask s3(1,5) by (simp add: sbuf_write_ring_def write_end_def s2_def [symmetric] Let_def)
  obtain s4 where "write_end user s3 ?i buf len = Some (int (min n (unat len)), s4)"
    "pushed ?p (take (min n (unat len)) buf) (mem s3) (mem s4)"
    using write_end_quiet [OF s3(5,3) ok3 s3(6) assms(10,11), of user] assms(7) unfolding room s3(4) by blast
  then show ?thesis
    unfolding resumed using fifo3 by (auto simp: pushed_def)
qed

text \<open>The sizes must divide \<^verbatim>\<open>2^32\<close>. The \<^verbatim>\<open>snv_nr\<close> pipe has size \<^verbatim>\<open>0x40400\<close>: when its pointers wrap, two
  bytes written together and read one by one come out as the first byte and whatever was at the
  start of the ring; the second byte is lost.\<close>

theorem snv_pipe_corrupts:
  assumes "length a = 0x41400"
  shows "\<exists>s1 s2 s3.
    write_round False (side (host_ring 0x40400 0x1000 0) (snv_mem a)) 0 [x, y] 2 = Some (Moved 2, s1) \<and>
    read_round False (side (client_ring 0x1000 0x40400 snv_header 0) (mem s1)) 0 1 = Some (Moved 1, [x], s2) \<and>
    read_round False (side (client_ring 0x1000 0x40400 snv_header 0) (mem s2)) 0 1 = Some (Moved 1, [a ! 0], s3)"
proof -
  let ?b = "take 65535 a @ [x, y] @ drop 65537 a"
  have b: "length ?b = 0x41400" "?b ! 65535 = x" "?b ! 0 = a ! 0" using assms by (simp_all add: nth_append)
  have m: "snv_mem a = snv_mem_after a 0xFFFFFFFF 0xFFFFFFFF" by (simp add: snv_mem_def snv_mem_after_def snv_header_def)
  obtain s1 where s1: "write_round False (side (host_ring 0x40400 0x1000 0) (snv_mem a)) 0 [x, y] 2 = Some (Moved 2, s1)"
    "mem s1 = snv_mem_after ?b 0xFFFFFFFF 1"
    using snv_write [OF assms] unfolding m by blast
  obtain s2 where s2: "read_round False (side (client_ring 0x1000 0x40400 snv_header 0) (mem s1)) 0 1 = Some (Moved 1, [x], s2)"
    "mem s2 = snv_mem_after ?b 0 1"
    using snv_read [of 65535 ?b "0xFFFFFFFF" 1] b(1,2) assms by (auto simp: s1(2) snv_pos u32_wraps)
  obtain s3 where "read_round False (side (client_ring 0x1000 0x40400 snv_header 0) (mem s2)) 0 1 = Some (Moved 1, [a ! 0], s3)"
    using snv_read [of 0 ?b 0 1] b by (auto simp: s2(2))
  with s1 s2 show ?thesis by blast
qed

section \<open>Witnesses\<close>

text \<open>A channel with one ring, eight bytes to the client and four to the host.\<close>

definition ok_env :: create_env where
  "ok_env = \<lparr>alloc_addr = 0x1000, vmap_ok = True, remap_ok = True, kzalloc_ok = True, kcalloc_ok = True, request_result = 0, thread_result = 0\<rparr>"

definition ex_ipc :: smsg_ipc where
  "ex_ipc = \<lparr>ipc_client = False, ipc_type = SIPC_BASE_PCIE, smem_type = SMEM_LOCAL, smem_base = 0, dst_smem_base = 0, ring_base = 0,
     txbuf = host_txbuf, rxbuf = host_rxbuf, channels = [], busy = [], states = []\<rparr>"

definition ex_mgr :: sbuf_mgr where "ex_mgr = new_mgr 1 4 False"

lemma ex_fits: "layout_fits 1 8 4" "good_size 8" "good_size 4"
  by (simp_all add: layout_fits_def good_size_def)

lemma ex_host_init: "\<exists>b' m. sbuf_host_init ok_env ex_ipc ex_mgr 1 8 4 (replicate 12 0) = Some (Inr (b', m))"
  by (simp add: sbuf_host_init_def ok_env_def ex_ipc_def ex_mgr_def new_mgr_def header_size_def)

lemma ex_client_init:
  assumes "sbuf_host_init ok_env ex_ipc ex_mgr 1 8 4 (replicate 12 0) = Some (Inr (b', m))"
  shows "\<exists>c'. sbuf_client_init ok_env m ex_mgr = Some (Inr c')"
  using host_init_result(2,4) [OF assms] by (auto simp: sbuf_client_init_def elem_def ok_env_def Let_def)

theorem host_client_agree_witness:
  "\<exists>b' m c'. sbuf_host_init ok_env ex_ipc ex_mgr 1 8 4 (replicate 12 0) = Some (Inr (b', m)) \<and>
     sbuf_client_init ok_env m ex_mgr = Some (Inr c') \<and> map tx_pipe (rings c') = map rx_pipe (rings b')"
proof -
  obtain b' m where h: "sbuf_host_init ok_env ex_ipc ex_mgr 1 8 4 (replicate 12 0) = Some (Inr (b', m))"
    using ex_host_init by blast
  obtain c' where c: "sbuf_client_init ok_env m ex_mgr = Some (Inr c')" using ex_client_init [OF h] by blast
  have "map tx_pipe (rings c') = map rx_pipe (rings b')"
    using host_client_agree [OF h ex_fits _ c] by simp
  then show ?thesis using h c by blast
qed

definition ex_mem :: "u32 \<Rightarrow> u32 \<Rightarrow> u8 list \<Rightarrow> sbuf_smem" where
  "ex_mem rd wt a = \<lparr>smem_ringnr = 1, headers = [\<lparr>txbuf_addr = 0, txbuf_size = 8, txbuf_rdptr = rd, txbuf_wrptr = wt,
     rxbuf_addr = 8, rxbuf_size = 4, rxbuf_rdptr = 0, rxbuf_wrptr = 0\<rparr>], area = a\<rparr>"

definition ex_header :: sbuf_ring_header where
  "ex_header = \<lparr>txbuf_addr = 0, txbuf_size = 8, txbuf_rdptr = 0, txbuf_wrptr = 0, rxbuf_addr = 8, rxbuf_size = 4,
     rxbuf_rdptr = 0, rxbuf_wrptr = 0\<rparr>"

lemma ex_pipes: "tx_pipe (host_ring 8 4 0) = host_tx 8 4 0" "rx_pipe (client_ring 4 8 ex_header 0) = host_tx 8 4 0"
  using host_ring_pipes(1) [OF ex_fits(1), of 0] client_ring_pipes(1) [OF ex_fits(1), of 0 ex_header]
  by (simp_all add: ex_header_def)

lemma ex_hwords [simp]:
  "hword (ex_mem rd wt a) (0, Txbuf_rdptr) = rd" "hword (ex_mem rd wt a) (0, Txbuf_wrptr) = wt"
  by (simp_all add: hword_def BL_READL_def elem_def ex_mem_def)

lemma ex_ok: "unat (wt - rd) \<le> 8 \<Longrightarrow> 8 \<le> length a \<Longrightarrow> pipe_ok (ex_mem rd wt a) (host_tx 8 4 0)"
  by (simp add: pipe_ok_def host_tx_def pipe_used_def slot_at_def ex_mem_def [of rd wt a] ex_hwords [unfolded ex_mem_def])

lemma ex_quiet: "quiet (side r m)" by (simp add: quiet_def side_def)

text \<open>Three bytes written where the pointers wrap.\<close>

theorem write_appends_witness:
  "pipe_ok (ex_mem 0xFFFFFFFF 0xFFFFFFFF (replicate 12 0)) (host_tx 8 4 0) \<and>
   (\<exists>s'. sbuf_write_ring True (side (host_ring 8 4 0) (ex_mem 0xFFFFFFFF 0xFFFFFFFF (replicate 12 0))) 0 [1, 2, 3] 3 0 = Some (3, s') \<and>
      fifo (mem s') (host_tx 8 4 0) = [1, 2, 3])"
proof -
  let ?m = "ex_mem 0xFFFFFFFF 0xFFFFFFFF (replicate 12 0)"
  have ok: "pipe_ok ?m (host_tx 8 4 0)" by (rule ex_ok) simp_all
  have used: "pipe_used ?m (host_tx 8 4 0) = 0" by (simp add: pipe_used_def host_tx_def)
  then have f: "fifo ?m (host_tx 8 4 0) = []" by (metis length_0_conv length_fifo)
  have room: "tx_room (side (host_ring 8 4 0) ?m) (host_ring 8 4 0) = 8"
    using used by (simp add: tx_room_def ex_pipes) (simp add: host_ring_def)
  show ?thesis
    using write_appends [OF ex_quiet, of "host_ring 8 4 0" ?m 0 "host_ring 8 4 0" 3 "[1, 2, 3]" True 0] ok f room
    by (auto simp: ex_pipes pushed_def)
qed

text \<open>A full ring: the writer of two bytes sleeps, the peer takes three, the write goes on.\<close>

definition full_side :: sbuf_state where
  "full_side = (let s = side (host_ring 8 4 0) (ex_mem 0 8 [10, 11, 12, 13, 14, 15, 16, 17]) in
     s\<lparr>sleeps := [(peer_reads s (host_ring 8 4 0) 0 3, False)]\<rparr>)"

theorem blocked_write_resumes_witness:
  "tx_room full_side (host_ring 8 4 0) = 0 \<and>
   (\<exists>s'. sbuf_write_ring True full_side 0 [1, 2] 2 1000 = Some (2, s') \<and>
      fifo (mem s') (host_tx 8 4 0) = [13, 14, 15, 16, 17, 1, 2])"
proof -
  let ?m = "ex_mem 0 8 [10, 11, 12, 13, 14, 15, 16, 17]" and ?r = "host_ring 8 4 0"
  have s: "mem full_side = ?m" "ring_of full_side (unat (0 :: u32)) = Some ?r" "sb_state (mgr full_side) = SBUF_STATE_READY" "quiet full_side"
    "sleeps full_side = (peer_reads full_side ?r 0 3, False) # []"
    by (simp_all add: full_side_def Let_def ex_quiet) (simp_all add: side_def peer_reads_def)
  have ok: "pipe_ok ?m (host_tx 8 4 0)" by (rule ex_ok) simp_all
  have used: "pipe_used ?m (host_tx 8 4 0) = 8" by (simp add: pipe_used_def host_tx_def)
  have f: "fifo ?m (host_tx 8 4 0) = [10, 11, 12, 13, 14, 15, 16, 17]"
    unfolding fifo_def used by (simp add: ring_slice_def host_tx_def slot_at_def upt_rec) (simp add: ex_mem_def)
  have size: "unat (p_size (tx_pipe ?r)) = 8" by (simp add: ex_pipes host_tx_def)
  have room: "tx_room full_side ?r = 0"
    using used by (simp add: tx_room_def ex_pipes s) (simp add: host_ring_def)
  show ?thesis
    using blocked_write_resumes [OF s(4,2) _ s(3) room _ _ _ s(5), of 1000 2 "[1, 2]" True] ok f room
    by (auto simp: ex_pipes s size [unfolded ex_pipes])
qed

theorem read_takes_witness:
  "pipe_ok (ex_mem 0xFFFFFFFE 1 [10, 11, 12, 13, 14, 15, 16, 17]) (host_tx 8 4 0) \<and>
   (\<exists>s'. sbuf_read_ring True (side (client_ring 4 8 ex_header 0) (ex_mem 0xFFFFFFFE 1 [10, 11, 12, 13, 14, 15, 16, 17])) 0 2 0 =
      Some (2, [16, 17], s') \<and> fifo (mem s') (host_tx 8 4 0) = [10])"
proof -
  let ?m = "ex_mem 0xFFFFFFFE 1 [10, 11, 12, 13, 14, 15, 16, 17]"
  have ok: "pipe_ok ?m (host_tx 8 4 0)" by (rule ex_ok) simp_all
  have f: "fifo ?m (host_tx 8 4 0) = [16, 17, 10]"
    by (simp add: fifo_def pipe_used_def ring_slice_def host_tx_def slot_at_def upt_rec) (simp add: ex_mem_def)
  show ?thesis
    using read_takes [OF ex_quiet, of "client_ring 4 8 ex_header 0" ?m 0 "client_ring 4 8 ex_header 0" 2 True 0] ok f
    by (auto simp: ex_pipes popped_def)
qed

theorem snv_pipe_corrupts_witness:
  "length (replicate 0x41400 (7 :: u8)) = 0x41400 \<and>
   (\<exists>s1 s2 s3.
      write_round False (side (host_ring 0x40400 0x1000 0) (snv_mem (replicate 0x41400 7))) 0 [1, 2] 2 = Some (Moved 2, s1) \<and>
      read_round False (side (client_ring 0x1000 0x40400 snv_header 0) (mem s1)) 0 1 = Some (Moved 1, [1], s2) \<and>
      read_round False (side (client_ring 0x1000 0x40400 snv_header 0) (mem s2)) 0 1 = Some (Moved 1, [7], s3))"
  using snv_pipe_corrupts [of "replicate 0x41400 7" 1 2] by simp

theorem pipes_deliver_witness:
  "pipes_ok {host_tx 8 4 0} (ex_mem 0 0 (replicate 12 0)) \<and>
   (\<exists>m'. chained (sbuf_io {host_tx 8 4 0}) (ex_mem 0 0 (replicate 12 0)) [Wrote (host_tx 8 4 0) [1, 2]] m' \<and>
      fifo m' (host_tx 8 4 0) = [1, 2])"
proof -
  let ?m = "ex_mem 0 0 (replicate 12 0)" and ?p = "host_tx 8 4 0" and ?s = "side (host_ring 8 4 0) (ex_mem 0 0 (replicate 12 0))"
  have ok: "pipe_ok ?m ?p" by (rule ex_ok) simp_all
  have used: "pipe_used ?m ?p = 0" by (simp add: pipe_used_def host_tx_def)
  then have f: "fifo ?m ?p = []" by (metis length_0_conv length_fifo)
  have room: "tx_room ?s (host_ring 8 4 0) = 8"
    using used by (simp add: tx_room_def ex_pipes) (simp add: host_ring_def)
  obtain m' where w: "write_round False ?s 0 [1, 2] 2 = Some (Moved 2, after_write ?s 0 (pipe_used ?m ?p = 0) m')"
    using write_round_moves [of ?s 0 "host_ring 8 4 0" 2 "[1, 2]" False] ok room by (auto simp: ex_pipes)
  have "sbuf_io {?p} ?m (Wrote ?p [1, 2]) m'"
    using sbuf_io.writes [of ?s 0 "host_ring 8 4 0" "{?p}" False 2 "[1, 2]" 2, OF _ _ _ _ _ _ w] by (simp add: ex_pipes)
  then have c: "chained (sbuf_io {?p}) ?m [Wrote ?p [1, 2]] m'" by simp
  have p: "pipes_ok {?p} ?m" using ok by (simp add: pipes_ok_def)
  have "written ?p [Wrote ?p [1, 2]] = delivered ?p [Wrote ?p [1, 2]] @ fifo m' ?p"
    using pipes_deliver [OF p _ c, of ?p] f by simp
  then show ?thesis using p c by auto
qed

end
