(* ===== verification/Sipc_Channel.thy ===== *)
theory Sipc_Channel
  imports Main "HOL-Library.Multiset"
begin

text \<open>
  The life of a channel object of \<^verbatim>\<open>drivers/quectel-sprd-pcie/src/sipc/smsg.c\<close>. One entry of \<open>channels\<close> with its count \<open>busy\<close>, as receivers (\<open>smsg_recv\<close>), interrupts
  (\<open>smsg_msg_process\<close>), senders (\<open>smsg_send\<close>, and \<open>smsg_ch_wake_unlock\<close>), an opener (\<open>smsg_ch_open\<close>) and
  a closer (\<open>smsg_ch_close\<close>) use them at the same time on several processors. Each step is one atomic access. Channel objects are numbers.

  A user enters by the increment, reads the pointer, uses the object if there is one, and leaves by
  the decrement; it counts in \<open>busy\<close> from the first to the last step. The opener allocates, stores 1
  into the count, publishes the object, and either succeeds and decrements, or takes the pointer
  back, decrements, waits for the count to be 0 and frees. The closer reads the pointer, wakes the
  waiting receivers through it, waits, takes the pointer back, waits again and frees. A sender reads
  the pointer and uses the object without entering: it does not count. Opening a channel that is open
  replaces its object, and the old one is never freed.
\<close>

section \<open>The interleaving\<close>

datatype user_pc = Entered | Using nat | Leaving

datatype opener_pc = O_idle | O_alloc nat | O_set nat | O_open nat | O_cleared nat | O_dropped nat

datatype closer_pc = C_idle | C_got nat | C_wait nat | C_clear nat | C_wait_again nat

record chan_conc =
  cbusy :: int
  chan_ptr :: "nat option"
  freed :: "nat set"
  fresh :: nat
  opener :: opener_pc
  closer :: closer_pc
  users :: "user_pc multiset"
  senders :: "nat multiset"

text \<open>\<open>careful\<close>: nobody is inside when the opener stores 1 into the count. \<open>overlap\<close>: opening and closing
  may run at the same time.\<close>

inductive chan_step :: "bool \<Rightarrow> bool \<Rightarrow> chan_conc \<Rightarrow> chan_conc \<Rightarrow> bool" for careful overlap where
  enter: "chan_step careful overlap s (s\<lparr>cbusy := cbusy s + 1, users := users s + {#Entered#}\<rparr>)"
| look: "users s = us + {#Entered#} \<Longrightarrow>
    chan_step careful overlap s (s\<lparr>users := us + {#case chan_ptr s of None \<Rightarrow> Leaving | Some x \<Rightarrow> Using x#}\<rparr>)"
| done_using: "users s = us + {#Using x#} \<Longrightarrow> chan_step careful overlap s (s\<lparr>users := us + {#Leaving#}\<rparr>)"
| leave: "users s = us + {#Leaving#} \<Longrightarrow> chan_step careful overlap s (s\<lparr>cbusy := cbusy s - 1, users := us\<rparr>)"
| send_reads: "chan_ptr s = Some x \<Longrightarrow> chan_step careful overlap s (s\<lparr>senders := senders s + {#x#}\<rparr>)"
| send_ends: "senders s = xs + {#x#} \<Longrightarrow> chan_step careful overlap s (s\<lparr>senders := xs\<rparr>)"
| alloc: "opener s = O_idle \<Longrightarrow> overlap \<or> closer s = C_idle \<Longrightarrow>
    chan_step careful overlap s (s\<lparr>opener := O_alloc (fresh s), fresh := fresh s + 1\<rparr>)"
| set_count: "opener s = O_alloc x \<Longrightarrow> \<not> careful \<or> users s = {#} \<Longrightarrow>
    chan_step careful overlap s (s\<lparr>cbusy := 1, opener := O_set x\<rparr>)"
| publish: "opener s = O_set x \<Longrightarrow> chan_step careful overlap s (s\<lparr>chan_ptr := Some x, opener := O_open x\<rparr>)"
| opened: "opener s = O_open x \<Longrightarrow> chan_step careful overlap s (s\<lparr>cbusy := cbusy s - 1, opener := O_idle\<rparr>)"
| open_fails: "opener s = O_open x \<Longrightarrow> chan_step careful overlap s (s\<lparr>chan_ptr := None, opener := O_cleared x\<rparr>)"
| open_drops: "opener s = O_cleared x \<Longrightarrow> chan_step careful overlap s (s\<lparr>cbusy := cbusy s - 1, opener := O_dropped x\<rparr>)"
| open_frees: "opener s = O_dropped x \<Longrightarrow> cbusy s = 0 \<Longrightarrow>
    chan_step careful overlap s (s\<lparr>freed := insert x (freed s), opener := O_idle\<rparr>)"
| close_reads: "closer s = C_idle \<Longrightarrow> chan_ptr s = Some x \<Longrightarrow> overlap \<or> opener s = O_idle \<Longrightarrow>
    chan_step careful overlap s (s\<lparr>closer := C_got x\<rparr>)"
| close_wakes: "closer s = C_got x \<Longrightarrow> chan_step careful overlap s (s\<lparr>closer := C_wait x\<rparr>)"
| close_waited: "closer s = C_wait x \<Longrightarrow> cbusy s = 0 \<Longrightarrow> chan_step careful overlap s (s\<lparr>closer := C_clear x\<rparr>)"
| close_gone: "closer s = C_clear x \<Longrightarrow> chan_ptr s = None \<Longrightarrow> chan_step careful overlap s (s\<lparr>closer := C_idle\<rparr>)"
| close_clears: "closer s = C_clear x \<Longrightarrow> chan_ptr s \<noteq> None \<Longrightarrow>
    chan_step careful overlap s (s\<lparr>chan_ptr := None, closer := C_wait_again x\<rparr>)"
| close_frees: "closer s = C_wait_again x \<Longrightarrow> cbusy s = 0 \<Longrightarrow>
    chan_step careful overlap s (s\<lparr>freed := insert x (freed s), closer := C_idle\<rparr>)"

definition chan_init :: chan_conc where
  "chan_init = \<lparr>cbusy = 0, chan_ptr = None, freed = {}, fresh = 0, opener = O_idle, closer = C_idle, users = {#}, senders = {#}\<rparr>"

definition chan_reach :: "bool \<Rightarrow> bool \<Rightarrow> chan_conc \<Rightarrow> bool" where
  "chan_reach careful overlap s \<longleftrightarrow> (chan_step careful overlap)\<^sup>*\<^sup>* chan_init s"

section \<open>The invariant\<close>

text \<open>Who is about to touch an object under the protection of the count: a user of it, the closer that
  wakes its waiters, and whoever frees it.\<close>

definition uses :: "chan_conc \<Rightarrow> nat \<Rightarrow> bool" where
  "uses s x \<longleftrightarrow> Using x \<in># users s \<or> closer s = C_got x \<or> closer s = C_wait_again x \<or> opener s = O_dropped x"

text \<open>The opener counts as one user from the store into the count to its decrement.\<close>

definition opener_holds :: "opener_pc \<Rightarrow> int" where
  "opener_holds p = (case p of O_set x \<Rightarrow> 1 | O_open x \<Rightarrow> 1 | O_cleared x \<Rightarrow> 1 | _ \<Rightarrow> 0)"

definition object_of :: "opener_pc \<Rightarrow> nat option" where
  "object_of p = (case p of O_idle \<Rightarrow> None | O_alloc x \<Rightarrow> Some x | O_set x \<Rightarrow> Some x | O_open x \<Rightarrow> Some x
     | O_cleared x \<Rightarrow> Some x | O_dropped x \<Rightarrow> Some x)"

definition chan_inv :: "chan_conc \<Rightarrow> bool" where
  "chan_inv s \<longleftrightarrow>
     cbusy s = int (size (users s)) + opener_holds (opener s) \<and>
     (\<forall>x. chan_ptr s = Some x \<or> Using x \<in># users s \<or> object_of (opener s) = Some x \<longrightarrow> x \<notin> freed s \<and> x < fresh s) \<and>
     freed s \<subseteq> {..<fresh s} \<and>
     (opener s \<noteq> O_idle \<longrightarrow> closer s = C_idle) \<and>
     (case opener s of O_open x \<Rightarrow> chan_ptr s = Some x | O_cleared x \<Rightarrow> chan_ptr s = None | O_dropped x \<Rightarrow> chan_ptr s = None
      | _ \<Rightarrow> True) \<and>
     (case closer s of C_idle \<Rightarrow> True | C_wait_again x \<Rightarrow> chan_ptr s = None \<and> x \<notin> freed s \<and> x < fresh s
      | C_got x \<Rightarrow> chan_ptr s = Some x | C_wait x \<Rightarrow> chan_ptr s = Some x | C_clear x \<Rightarrow> chan_ptr s = Some x)"

lemma chan_inv_step: "chan_step True False s s' \<Longrightarrow> chan_inv s \<Longrightarrow> chan_inv s'"
proof (induction rule: chan_step.induct)
qed (auto simp: chan_inv_def opener_holds_def object_of_def split: opener_pc.splits closer_pc.splits option.splits)

lemma chan_inv_reach:
  assumes "chan_reach True False s"
  shows "chan_inv s"
  using assms [unfolded chan_reach_def]
proof (induction rule: rtranclp_induct)
  case base
  show ?case by (simp add: chan_inv_def chan_init_def opener_holds_def object_of_def)
next
  case (step t u)
  then show ?case by (simp add: chan_inv_step)
qed

lemma chan_inv_uses: "chan_inv s \<Longrightarrow> uses s x \<Longrightarrow> x \<notin> freed s"
  by (auto simp: chan_inv_def uses_def object_of_def)

lemma chan_reach_init: "chan_reach careful overlap chan_init"
  by (simp add: chan_reach_def)

lemma chan_reach_step: "chan_reach careful overlap s \<Longrightarrow> chan_step careful overlap s s' \<Longrightarrow> chan_reach careful overlap s'"
  by (simp add: chan_reach_def)

section \<open>Three races\<close>

text \<open>A state after the opener has published its first object.\<close>

definition conc :: "int \<Rightarrow> nat option \<Rightarrow> nat set \<Rightarrow> opener_pc \<Rightarrow> closer_pc \<Rightarrow> user_pc multiset \<Rightarrow> chan_conc" where
  "conc b p f ob cb us = \<lparr>cbusy = b, chan_ptr = p, freed = f, fresh = 1, opener = ob, closer = cb, users = us, senders = {#}\<rparr>"

lemma careless_open: "chan_reach False False (conc (- 1) (Some 0) {} O_idle C_idle {#})"
proof -
  have "chan_reach False False (chan_init\<lparr>cbusy := 1, users := {#Entered#}\<rparr>)"
    using chan_reach_step [OF chan_reach_init chan_step.enter] by (simp add: chan_init_def)
  from chan_reach_step [OF this chan_step.alloc] have "chan_reach False False (conc 1 None {} (O_alloc 0) C_idle {#Entered#})"
    by (simp add: chan_init_def conc_def)
  from chan_reach_step [OF this chan_step.set_count] have "chan_reach False False (conc 1 None {} (O_set 0) C_idle {#Entered#})"
    by (simp add: conc_def)
  from chan_reach_step [OF this chan_step.look [of _ "{#}"]] have "chan_reach False False (conc 1 None {} (O_set 0) C_idle {#Leaving#})"
    by (simp add: conc_def)
  from chan_reach_step [OF this chan_step.leave [of _ "{#}"]] have "chan_reach False False (conc 0 None {} (O_set 0) C_idle {#})"
    by (simp add: conc_def)
  from chan_reach_step [OF this chan_step.publish] have "chan_reach False False (conc 0 (Some 0) {} (O_open 0) C_idle {#})"
    by (simp add: conc_def)
  from chan_reach_step [OF this chan_step.opened] show ?thesis by (simp add: conc_def)
qed

lemma careless_close: "\<exists>s. chan_reach False False s \<and> Using 0 \<in># users s \<and> 0 \<in> freed s"
proof -
  from chan_reach_step [OF careless_open chan_step.close_reads]
  have "chan_reach False False (conc (- 1) (Some 0) {} O_idle (C_got 0) {#})" by (simp add: conc_def)
  from chan_reach_step [OF this chan_step.close_wakes] have "chan_reach False False (conc (- 1) (Some 0) {} O_idle (C_wait 0) {#})"
    by (simp add: conc_def)
  from chan_reach_step [OF this chan_step.enter] have "chan_reach False False (conc 0 (Some 0) {} O_idle (C_wait 0) {#Entered#})"
    by (simp add: conc_def)
  from chan_reach_step [OF this chan_step.look [of _ "{#}"]] have "chan_reach False False (conc 0 (Some 0) {} O_idle (C_wait 0) {#Using 0#})"
    by (simp add: conc_def)
  from chan_reach_step [OF this chan_step.close_waited] have "chan_reach False False (conc 0 (Some 0) {} O_idle (C_clear 0) {#Using 0#})"
    by (simp add: conc_def)
  from chan_reach_step [OF this chan_step.close_clears] have "chan_reach False False (conc 0 None {} O_idle (C_wait_again 0) {#Using 0#})"
    by (simp add: conc_def)
  from chan_reach_step [OF this chan_step.close_frees] have "chan_reach False False (conc 0 None {0} O_idle C_idle {#Using 0#})"
    by (simp add: conc_def)
  then show ?thesis by (auto simp: conc_def)
qed

lemma overlapping_close: "\<exists>s. chan_reach True True s \<and> closer s = C_got 0 \<and> 0 \<in> freed s"
proof -
  from chan_reach_step [OF chan_reach_init chan_step.alloc] have "chan_reach True True (conc 0 None {} (O_alloc 0) C_idle {#})"
    by (simp add: chan_init_def conc_def)
  from chan_reach_step [OF this chan_step.set_count] have "chan_reach True True (conc 1 None {} (O_set 0) C_idle {#})"
    by (simp add: conc_def)
  from chan_reach_step [OF this chan_step.publish] have "chan_reach True True (conc 1 (Some 0) {} (O_open 0) C_idle {#})"
    by (simp add: conc_def)
  from chan_reach_step [OF this chan_step.close_reads] have "chan_reach True True (conc 1 (Some 0) {} (O_open 0) (C_got 0) {#})"
    by (simp add: conc_def)
  from chan_reach_step [OF this chan_step.open_fails] have "chan_reach True True (conc 1 None {} (O_cleared 0) (C_got 0) {#})"
    by (simp add: conc_def)
  from chan_reach_step [OF this chan_step.open_drops] have "chan_reach True True (conc 0 None {} (O_dropped 0) (C_got 0) {#})"
    by (simp add: conc_def)
  from chan_reach_step [OF this chan_step.open_frees] have "chan_reach True True (conc 0 None {0} O_idle (C_got 0) {#})"
    by (simp add: conc_def)
  then show ?thesis by (auto simp: conc_def)
qed

lemma uncounted_sender: "\<exists>s. chan_reach True False s \<and> 0 \<in># senders s \<and> 0 \<in> freed s"
proof -
  from chan_reach_step [OF chan_reach_init chan_step.alloc] have "chan_reach True False (conc 0 None {} (O_alloc 0) C_idle {#})"
    by (simp add: chan_init_def conc_def)
  from chan_reach_step [OF this chan_step.set_count] have "chan_reach True False (conc 1 None {} (O_set 0) C_idle {#})"
    by (simp add: conc_def)
  from chan_reach_step [OF this chan_step.publish] have "chan_reach True False (conc 1 (Some 0) {} (O_open 0) C_idle {#})"
    by (simp add: conc_def)
  from chan_reach_step [OF this chan_step.opened] have "chan_reach True False (conc 0 (Some 0) {} O_idle C_idle {#})"
    by (simp add: conc_def)
  from chan_reach_step [OF this chan_step.send_reads]
  have "chan_reach True False ((conc 0 (Some 0) {} O_idle C_idle {#})\<lparr>senders := {#0#}\<rparr>)" by (simp add: conc_def)
  from chan_reach_step [OF this chan_step.close_reads]
  have "chan_reach True False ((conc 0 (Some 0) {} O_idle (C_got 0) {#})\<lparr>senders := {#0#}\<rparr>)" by (simp add: conc_def)
  from chan_reach_step [OF this chan_step.close_wakes]
  have "chan_reach True False ((conc 0 (Some 0) {} O_idle (C_wait 0) {#})\<lparr>senders := {#0#}\<rparr>)" by (simp add: conc_def)
  from chan_reach_step [OF this chan_step.close_waited]
  have "chan_reach True False ((conc 0 (Some 0) {} O_idle (C_clear 0) {#})\<lparr>senders := {#0#}\<rparr>)" by (simp add: conc_def)
  from chan_reach_step [OF this chan_step.close_clears]
  have "chan_reach True False ((conc 0 None {} O_idle (C_wait_again 0) {#})\<lparr>senders := {#0#}\<rparr>)" by (simp add: conc_def)
  from chan_reach_step [OF this chan_step.close_frees]
  have "chan_reach True False ((conc 0 None {0} O_idle C_idle {#})\<lparr>senders := {#0#}\<rparr>)" by (simp add: conc_def)
  then show ?thesis by (auto simp: conc_def)
qed

section \<open>Properties\<close>

text \<open>C28. A channel object is never freed while somebody who counts in \<open>busy\<close> uses it, nor freed twice, provided that nobody is
  inside when the opener stores into the count and that opening and closing do not overlap. The
  count is then the number of users inside and the opener, so the waits of the closer end as soon
  as they have left.\<close>

theorem channel_not_freed_in_use:
  assumes "chan_reach True False s" "uses s x"
  shows "x \<notin> freed s \<and> cbusy s = int (size (users s)) + opener_holds (opener s)"
  using chan_inv_reach [OF assms(1)] chan_inv_uses [OF _ assms(2)] by (simp add: chan_inv_def)

text \<open>Both provisos are needed. Without the first, the store of 1 into the count loses a user that is
  inside, the count is one too low from then on, and the closer frees the object under a
  receiver. Without the second, an opener that fails frees the object while the closer is about
  to wake its waiters. And the count does not protect senders: the object can be freed between
  \<^verbatim>\<open>ch = ipc->channels[ch_index]\<close> and the release of \<open>ch->tx_pms\<close>.\<close>

theorem channel_races:
  "(\<exists>s. chan_reach False False s \<and> Using 0 \<in># users s \<and> 0 \<in> freed s) \<and>
   (\<exists>s. chan_reach True True s \<and> closer s = C_got 0 \<and> 0 \<in> freed s) \<and>
   (\<exists>s. chan_reach True False s \<and> 0 \<in># senders s \<and> 0 \<in> freed s)"
  using careless_close overlapping_close uncounted_sender by simp

text \<open>A receiver that has just entered and found the object.\<close>

theorem channel_not_freed_in_use_witness:
  "\<exists>s. chan_reach True False s \<and> uses s 0 \<and> 0 \<notin> freed s \<and> cbusy s = 2"
proof -
  from chan_reach_step [OF chan_reach_init chan_step.alloc] have "chan_reach True False (conc 0 None {} (O_alloc 0) C_idle {#})"
    by (simp add: chan_init_def conc_def)
  from chan_reach_step [OF this chan_step.set_count] have "chan_reach True False (conc 1 None {} (O_set 0) C_idle {#})"
    by (simp add: conc_def)
  from chan_reach_step [OF this chan_step.publish] have "chan_reach True False (conc 1 (Some 0) {} (O_open 0) C_idle {#})"
    by (simp add: conc_def)
  from chan_reach_step [OF this chan_step.enter] have "chan_reach True False (conc 2 (Some 0) {} (O_open 0) C_idle {#Entered#})"
    by (simp add: conc_def)
  from chan_reach_step [OF this chan_step.look [of _ "{#}"]]
  have r: "chan_reach True False (conc 2 (Some 0) {} (O_open 0) C_idle {#Using 0#})" by (simp add: conc_def)
  moreover have u: "uses (conc 2 (Some 0) {} (O_open 0) C_idle {#Using 0#}) 0" by (simp add: uses_def conc_def)
  ultimately show ?thesis using channel_not_freed_in_use [OF r u] by (auto simp: conc_def opener_holds_def)
qed

end
