(* ===== verification/Sipc_Stack.thy ===== *)
theory Sipc_Stack
  imports Sipc_Sbuf Sipc_Channel
begin

text \<open>
  The byte pipes of \<open>Sipc_Sbuf\<close> on top of the messages of \<open>Sipc_Smsg\<close>: what \<open>sbuf_write\<close> hands to \<open>smsg_send\<close> on one
  side is what the thread of the channel gets from \<open>smsg_recv\<close> on the other side.
\<close>

section \<open>The write event\<close>

lemma poll_read_bit: "(v OR POLL_READ) AND POLL_READ = POLL_READ"
  by (simp add: bit_eq_iff bit_simps)

lemma sends_other [simp]:
  "sends (sb_emit (Request_wakelock i) t) = sends t" "sends (sb_emit (Wake_rxwait i) t) = sends t"
  "sends (sb_emit (Call_handler i e) t) = sends t" "sends (sb_emit Ch_wake_unlock t) = sends t"
  by (simp_all add: sends_def sb_emit_def)

lemma wrptr_event:
  assumes "ring_of s (unat bufid) = Some r" "quiet s"
  obtains s' r' where "sbuf_thread_msg s (smsg_set ch SMSG_TYPE_EVENT SMSG_EVENT_SBUF_WRPTR bufid) = Some s'"
    "ring_of s' (unat bufid) = Some r'" "rx_pipe r' = rx_pipe r" "poll_mask r' AND POLL_READ = POLL_READ"
    "quiet s'" "mem s' = mem s" "sb_state (mgr s') = sb_state (mgr s)" "Wake_rxwait (unat bufid) \<in> set (sb_effects s')"
proof -
  let ?i = "unat bufid"
  define a where "a = set_poll s ?i POLL_READ True"
  define b where "b = sb_emit (Wake_rxwait ?i) (if need_wake_lock r then sb_emit (Request_wakelock ?i) a else a)"
  define c where "c = (if handler r then sb_emit (Call_handler ?i SBUF_NOTIFY_READ) b else b)"
  define s' where "s' = sb_emit Ch_wake_unlock c"
  have "sbuf_thread_msg s (smsg_set ch SMSG_TYPE_EVENT SMSG_EVENT_SBUF_WRPTR bufid) = Some s'"
    using assms(1)
    by (simp add: sbuf_thread_msg_def sbuf_event_def smsg_set_def smsg_type_defs Let_def s'_def c_def b_def a_def
        SMSG_EVENT_SBUF_WRPTR_def SMSG_EVENT_SBUF_RDPTR_def)
  moreover have "ring_of s' ?i = Some (r\<lparr>poll_mask := poll_mask r OR POLL_READ\<rparr>)"
    using assms(1)
    by (auto simp: s'_def c_def b_def a_def ring_of_def set_poll_def upd_ring_def elem_def split: if_splits)
  moreover have "Wake_rxwait ?i \<in> set (sb_effects s')" by (simp add: s'_def c_def b_def sb_emit_def)
  moreover have "quiet s'" "mem s' = mem s" "sb_state (mgr s') = sb_state (mgr s)"
    using assms(2) by (simp_all add: s'_def c_def b_def a_def)
  ultimately show thesis
    using that [of s' "r\<lparr>poll_mask := poll_mask r OR POLL_READ\<rparr>"] by (simp add: pipes_of_poll poll_read_bit)
qed

section \<open>From the writer to the reader\<close>

text \<open>Both sides of a channel: the byte pipes with their shared memory, and the message links with theirs.
  The channel is open, nothing is on its way.\<close>

definition joined :: "sbuf_state \<Rightarrow> sbuf_state \<Rightarrow> smsg_state \<Rightarrow> smsg_state \<Rightarrow> bool" where
  "joined sw sr lw lr \<longleftrightarrow>
     quiet sw \<and> quiet sr \<and> sb_state (mgr sw) = SBUF_STATE_READY \<and> sb_state (mgr sr) = SBUF_STATE_READY \<and> mem sr = mem sw \<and>
     link_ok lw \<and> link_ok lr \<and> msg_resources lw = [] \<and> msg_resources lr = [] \<and> msg_locks lr = [] \<and>
     ring_mem lr = ring_mem lw \<and> rxbuf (ipc lr) = txbuf (ipc lw) \<and> txbuf (ipc lr) = rxbuf (ipc lw) \<and> tx_pending lw = []"

definition channel_open :: "u8 \<Rightarrow> smsg_state \<Rightarrow> bool" where
  "channel_open channel s \<longleftrightarrow>
     (let i = unat (channel2index channel)
      in configured channel \<and> states (ipc s) ! i = CHAN_STATE_OPENED \<and> channels (ipc s) ! i \<noteq> None \<and> inbox (ipc s) i = [])"

lemma message_crosses:
  assumes "link_ok lw" "link_ok lr" "msg_resources lw = []" "msg_resources lr = []" "msg_locks lr = []" "ring_mem lr = ring_mem lw"
    and "rxbuf (ipc lr) = txbuf (ipc lw)" "txbuf (ipc lr) = rxbuf (ipc lw)" "tx_pending lw = []"
    and "channel_open (msg_channel m) lw" "channel_open (msg_channel m) lr" "msg_type m < SMSG_TYPE_NR" "msg_type m \<noteq> SMSG_TYPE_DIE"
  shows "\<exists>lw' lr' lr''. smsg_send lw m (- 1) = Some (0, lw') \<and>
    smsg_irq_handler True (lr\<lparr>ring_mem := ring_mem lw'\<rparr>) = Some lr' \<and>
    smsg_recv lr' (msg_channel m) (- 1) = Some (0, Some m, lr'') \<and> inbox (ipc lr'') (index_of m) = [] \<and> rx_pending lr'' = []"
proof -
  let ?i = "index_of m"
  have c: "configured (msg_channel m)" "states (ipc lw) ! ?i = CHAN_STATE_OPENED" "channels (ipc lw) ! ?i \<noteq> None"
    "states (ipc lr) ! ?i = CHAN_STATE_OPENED" "channels (ipc lr) ! ?i \<noteq> None" "inbox (ipc lr) ?i = []"
    using assms(10,11) by (simp_all add: channel_open_def index_of_def Let_def)
  have i: "?i < SMSG_VALID_CH_NR" using channel2index_configured(2) [OF c(1)] by (simp add: index_of_def)
  have "may_send lw m" using c by (simp add: may_send_def)
  then obtain lw' where lw': "smsg_send lw m (- 1) = Some (0, lw')" "ipc lw' = ipc lw" "tx_pending lw' = [m]"
    "rx_pending lw' = rx_pending lw" "link_ok lw'"
    using send_appends [OF assms(1,3), of m "- 1"] assms(9) by (metis append_Nil list.size(3) zero_less_numeral)
  define l where "l = lr\<lparr>ring_mem := ring_mem lw'\<rparr>"
  have l: "link_ok l" "rx_pending l = [m]" "ipc l = ipc lr" "msg_resources l = []" "debug_enable l = debug_enable lr"
    using assms(2,4,7,8) lw'(2,3,5)
    by (simp_all add: l_def link_ok_def rx_pending_def tx_pending_def)
  have acc: "\<forall>m \<in> set (rx_pending l). acceptable (debug_enable l) m" using l(2) c(1) assms(13) by (simp add: acceptable_def)
  obtain lr' where lr': "smsg_irq_handler True l = Some lr'" "ipc lr' = fold deliver (rx_pending l) (ipc l)" "rx_pending lr' = []"
    "tx_pending lr' = tx_pending l" "link_ok lr'" "scripts lr' = scripts l"
    using irq_delivers [OF l(1) acc l(4)] .
  have p: "ipc lr' = deliver m (ipc lr)" using lr'(2) l(2,3) by simp
  obtain ch where ch: "channels (ipc lr') ! ?i = Some ch"
    using deliver_inbox(1) [OF link_okD(1) [OF assms(2)] i, of m] c(5) p by auto
  have "inbox (ipc lr') ?i = [m]"
    using deliver_inbox(2) [OF link_okD(1) [OF assms(2)] i c(5), of m] c(6) assms(12) p by (simp add: for_channel_def)
  then have msgs: "chan_msgs ch = [m]" using ch by (simp add: inbox_def)
  have st: "states (ipc lr') ! ?i \<noteq> CHAN_STATE_FREE"
    using c(4,5) assms(12) by (auto simp: p deliver_def Let_def chan_state_defs not_le split: option.split)
  have lk: "msg_locks lr' = []" using lr'(6) assms(5) by (simp add: scripts_def l_def)
  obtain lr'' where lr'': "smsg_recv lr' (msg_channel m) (- 1) = Some (max 0 (- 1), Some m, lr'')"
    "ipc lr'' = set_chan ?i (ch\<lparr>ch_rdptr := ch_rdptr ch + 1\<rparr>) (ipc lr')" "ring_mem lr'' = ring_mem lr'" "link_ok lr''" "scripts lr'' = scripts lr'"
    using recv_takes [OF lr'(5) c(1) index_of_def [symmetric] lk ch msgs st, of "- 1"] .
  have "chan_ok ch" using link_okD(1) [OF lr'(5)] i ch by (simp add: ipc_ok_def)
  then have "inbox (ipc lr'') ?i = []"
    using cache_pop(4) [of ch m "[]"] msgs i link_okD(1) [OF lr'(5)] by (simp add: lr''(2) inbox_def ipc_ok_def)
  moreover have "rx_pending lr'' = []" using lr'(3) by (simp add: rx_pending_def lr''(2,3))
  ultimately show ?thesis using lw'(1) lr'(1) lr''(1) unfolding l_def by auto
qed

section \<open>Properties\<close>

text \<open>C12. From \<open>sbuf_write\<close> to \<open>sbuf_read\<close>. A write into an empty pipe of an open channel hands one write event to
  \<open>smsg_send\<close>; the message crosses the shared ring, the interrupt of the other side puts it into the
  cache of the channel, its thread gets it from \<open>smsg_recv\<close>, marks the pipe readable and wakes the
  readers, and a read there returns what was written.\<close>

theorem write_reaches_reader:
  assumes "joined sw sr lw lr" "ring_of sw (unat bufid) = Some rw" "ring_of sr (unat bufid) = Some rr" "rx_pipe rr = tx_pipe rw"
    and "pipe_ok (mem sw) (tx_pipe rw)" "fifo (mem sw) (tx_pipe rw) = []" "0 < len" "unat len \<le> unat (p_size (tx_pipe rw))"
    and "unat len \<le> length buf" "channel_open (sb_channel (mgr sw)) lw" "channel_open (sb_channel (mgr sw)) lr"
  shows "\<exists>sw' m lw' lr' lr'' sr' sr''.
    sbuf_write_ring user sw bufid buf len timeout = Some (int (unat len), sw') \<and>
    sends sw' = sends sw @ [Smsg_send (sb_dst (mgr sw)) m] \<and>
    smsg_send lw m (- 1) = Some (0, lw') \<and>
    smsg_irq_handler True (lr\<lparr>ring_mem := ring_mem lw'\<rparr>) = Some lr' \<and>
    smsg_recv lr' (sb_channel (mgr sw)) (- 1) = Some (0, Some m, lr'') \<and>
    sbuf_thread_msg (sr\<lparr>mem := mem sw'\<rparr>) m = Some sr' \<and> Wake_rxwait (unat bufid) \<in> set (sb_effects sr') \<and>
    sbuf_read_ring user' sr' bufid len timeout' = Some (int (unat len), take (unat len) buf, sr'')"
proof -
  note j = assms(1) [unfolded joined_def]
  let ?p = "tx_pipe rw" and ?ch = "sb_channel (mgr sw)"
  define m where "m = smsg_set ?ch SMSG_TYPE_EVENT SMSG_EVENT_SBUF_WRPTR bufid"
  have size: "tx_size (header_op rw) = p_size ?p" by (simp add: tx_pipe_def)
  have used: "pipe_used (mem sw) ?p = 0" using assms(6) by (metis length_0_conv length_fifo)
  have len: "unat len < 2 ^ 31" "0 < unat len" using assms(5,7,8) by (simp_all add: pipe_ok_def word_less_nat_alt)
  have room: "tx_room sw rw = unat (p_size ?p)" by (simp add: tx_room_def size used)
  have k: "min (tx_room sw rw) (unat len) = unat len" "0 < tx_room sw rw" using room assms(8) len(2) by simp_all
  obtain sw' where sw': "sbuf_write_ring user sw bufid buf len timeout = Some (int (unat len), sw')"
    "pushed ?p (take (unat len) buf) (mem sw) (mem sw')"
    "sends sw' = sends sw @ (if 0 < unat len \<and> (force_send (mgr sw) \<or> pipe_used (mem sw) ?p = 0) then [write_event sw bufid] else [])"
    using write_ring_quiet [OF _ assms(2,5) _ len(1) assms(9) k(2), of user timeout] j unfolding k(1) by blast
  have ev: "sends sw' = sends sw @ [Smsg_send (sb_dst (mgr sw)) m]" using sw'(3) used len(2) by (simp add: write_event_def m_def)
  have ms: "msg_channel m = ?ch" "msg_type m < SMSG_TYPE_NR" "msg_type m \<noteq> SMSG_TYPE_DIE"
    by (simp_all add: m_def smsg_set_def smsg_type_defs)
  obtain lw' lr' lr'' where cross: "smsg_send lw m (- 1) = Some (0, lw')" "smsg_irq_handler True (lr\<lparr>ring_mem := ring_mem lw'\<rparr>) = Some lr'"
    "smsg_recv lr' ?ch (- 1) = Some (0, Some m, lr'')"
    using message_crosses [of lw lr m] j assms(10,11) ms by metis
  let ?s = "sr\<lparr>mem := mem sw'\<rparr>"
  have s: "ring_of ?s (unat bufid) = Some rr" "quiet ?s" using assms(3) j by (simp_all add: ring_of_def quiet_def)
  obtain sr' r' where ev': "sbuf_thread_msg ?s m = Some sr'" "ring_of sr' (unat bufid) = Some r'" "rx_pipe r' = rx_pipe rr"
    "poll_mask r' AND POLL_READ = POLL_READ" "quiet sr'" "mem sr' = mem ?s" "sb_state (mgr sr') = sb_state (mgr ?s)"
    "Wake_rxwait (unat bufid) \<in> set (sb_effects sr')"
    using wrptr_event [OF s, of ?ch, folded m_def] .
  then have sr': "sbuf_thread_msg ?s m = Some sr'" "ring_of sr' (unat bufid) = Some r'" "rx_pipe r' = ?p"
    "quiet sr'" "mem sr' = mem sw'" "sb_state (mgr sr') = SBUF_STATE_READY" "Wake_rxwait (unat bufid) \<in> set (sb_effects sr')"
    using j assms(4) by simp_all
  have f: "fifo (mem sr') (rx_pipe r') = take (unat len) buf" "pipe_ok (mem sr') (rx_pipe r')"
    using sw'(2) assms(6) sr'(3,5) by (simp_all add: pushed_def)
  have u: "pipe_used (mem sr') (rx_pipe r') = unat len" using f(1) assms(9) by (metis length_fifo length_take min.absorb2)
  obtain sr'' where "sbuf_read_ring user' sr' bufid len timeout' = Some (int (unat len), take (unat len) buf, sr'')"
    using read_ring_quiet [OF sr'(4,2) f(2) sr'(6) len(1), of user' timeout'] u len(2) f(1) by auto
  then show ?thesis using sw'(1) ev cross sr'(1,7) by blast
qed

section \<open>Witness\<close>

text \<open>Host and client with channel 40 (index 38) open and a pipe of eight bytes.\<close>

definition host_link :: smsg_state where
  "host_link = upd_ipc (\<lambda>p. set_chan 38 new_channel p\<lparr>states := (states p)[38 := CHAN_STATE_OPENED]\<rparr>) ex_link"

definition client_link :: smsg_state where
  "client_link = upd_ipc (\<lambda>p. p\<lparr>txbuf := host_rxbuf, rxbuf := host_txbuf\<rparr>) host_link"

lemma channel_40: "configured 40" "unat (channel2index 40) = 38"
  by (simp_all add: configured_def sipc_cfg_def channel2index_def SMSG_VALID_CH_NR_def Let_def)

lemma ex_ipc_open: "ipc_ok (set_chan 38 new_channel (ipc ex_link)\<lparr>states := (states (ipc ex_link))[38 := CHAN_STATE_OPENED]\<rparr>)"
  using set_chan_ok [OF link_okD(1) [OF ex_link_ok(1)] new_channel_ok(1), of 38] by (simp add: ipc_ok_def)

lemma ex_links:
  "link_ok host_link" "link_ok client_link" "tx_pending host_link = []" "channel_open 40 host_link" "channel_open 40 client_link"
proof -
  show "link_ok host_link" "tx_pending host_link = []"
    using ex_link_ok(1,3) ex_ipc_open by (simp_all add: host_link_def link_ok_def tx_pending_def)
  show "link_ok client_link"
    using ex_link_ok(1) ex_ipc_open by (simp add: client_link_def host_link_def link_ok_def ipc_ok_def) (simp add: ex_link_def)
  show "channel_open 40 host_link" "channel_open 40 client_link"
    using channel_40 new_channel_ok(2)
    by (simp_all add: channel_open_def client_link_def host_link_def ex_link_def inbox_def valid_nr upd_ipc_def)
qed

theorem write_reaches_reader_witness:
  "\<exists>sw' m lr'' sr' sr''.
     sbuf_write_ring True (side (host_ring 8 4 0) (ex_mem 0 0 (replicate 12 0))) 0 [1, 2, 3] 3 0 = Some (3, sw') \<and>
     sbuf_thread_msg (side (client_ring 4 8 ex_header 0) (mem sw')) m = Some sr' \<and>
     sbuf_read_ring True sr' 0 3 0 = Some (3, [1, 2, 3], sr'')"
proof -
  let ?m = "ex_mem 0 0 (replicate 12 0)" and ?w = "host_ring 8 4 0" and ?r = "client_ring 4 8 ex_header 0"
  have ok: "pipe_ok ?m (host_tx 8 4 0)" by (rule ex_ok) simp_all
  have "pipe_used ?m (host_tx 8 4 0) = 0" by (simp add: pipe_used_def host_tx_def)
  then have f: "fifo ?m (host_tx 8 4 0) = []" by (metis length_0_conv length_fifo)
  have mem: "mem (side ?w ?m) = ?m" "(side ?r ?m)\<lparr>mem := x\<rparr> = side ?r x" "sb_channel (mgr (side ?w ?m)) = 40" for x
    by (simp_all add: side_def new_mgr_def)
  have "joined (side ?w ?m) (side ?r ?m) host_link client_link"
    using ex_quiet ex_links(1-3) by (simp add: joined_def)
      (simp add: side_def new_mgr_def client_link_def host_link_def ex_link_def upd_ipc_def)
  from write_reaches_reader [OF this, of 0 ?w ?r 3 "[1, 2, 3]" True 0 True 0] show ?thesis
    using ok f ex_links(4,5) unfolding mem by (simp add: ex_pipes) (auto simp: host_tx_def)
qed

end
