(* ===== verification/Qmap_Tx.thy ===== *)
theory Qmap_Tx
  imports Wwan_Prelude
begin

text \<open>
  The uplink of the QMAP network devices: \<^verbatim>\<open>drivers/quectel-qmi-wwan/src/qmi_wwan_q.c\<close> and
  \<^verbatim>\<open>drivers/quectel-gobinet/src/GobiUSBNet.c\<close>. A packet of a multiplexed device gets a QMAP
  header and joins the aggregate of its device, which goes to the real device when it is full,
  old or urgent, or when the timer fires.

  The two drivers have the same aggregation over different buffers: \<^verbatim>\<open>qmi_wwan_q\<close> keeps the
  header apart from the packet, GobiNet pushes it in front. Configuration: \<^verbatim>\<open>QUECTEL_UL_DATA_AGG\<close>
  and \<^verbatim>\<open>QUECTEL_BRIDGE_MODE\<close> set, \<^verbatim>\<open>CONFIG_BRIDGE_LAN\<close> and \<^verbatim>\<open>CONFIG_QCA_NSS_PACKET_FILTER\<close> not.
\<close>

section \<open>Socket buffers\<close>

text \<open>
  A linear \<^verbatim>\<open>struct sk_buff\<close>: the bytes from \<open>data\<close> to \<open>tail\<close>, the bytes from \<open>tail\<close> to \<open>end\<close>
  (their old contents), the room before \<open>data\<close>, the protocol in host order and the offset of the
  network header from \<open>data\<close>.
\<close>

record sk_buff =
  skb_data :: "u8 list"
  skb_tail :: "u8 list"
  skb_headroom :: nat
  skb_protocol :: u16
  skb_network :: nat

abbreviation skb_len :: "sk_buff \<Rightarrow> nat" where "skb_len b \<equiv> length (skb_data b)"

text \<open>\<^verbatim>\<open>skb_put\<close> beyond the end is \<^verbatim>\<open>skb_over_panic\<close>, \<^verbatim>\<open>skb_push\<close> before the head \<^verbatim>\<open>skb_under_panic\<close>.\<close>

definition skb_put :: "nat \<Rightarrow> sk_buff \<Rightarrow> sk_buff option" where
  "skb_put n b =
     (if n \<le> length (skb_tail b)
      then Some (b\<lparr>skb_data := skb_data b @ take n (skb_tail b), skb_tail := drop n (skb_tail b)\<rparr>)
      else None)"

text \<open>\<^verbatim>\<open>memcpy(skb_put(b, n), bytes, n)\<close>.\<close>

definition skb_put_data :: "u8 list \<Rightarrow> sk_buff \<Rightarrow> sk_buff option" where
  "skb_put_data vs b =
     (if length vs \<le> length (skb_tail b)
      then Some (b\<lparr>skb_data := skb_data b @ vs, skb_tail := drop (length vs) (skb_tail b)\<rparr>)
      else None)"

text \<open>\<^verbatim>\<open>skb_push\<close> of bytes that are all stored at once.\<close>

definition skb_push_data :: "u8 list \<Rightarrow> sk_buff \<Rightarrow> sk_buff option" where
  "skb_push_data vs b =
     (if length vs \<le> skb_headroom b
      then Some (b\<lparr>skb_data := vs @ skb_data b, skb_headroom := skb_headroom b - length vs,
                  skb_network := skb_network b + length vs\<rparr>)
      else None)"

text \<open>\<^verbatim>\<open>skb_pull\<close> returns \<^verbatim>\<open>NULL\<close> and leaves the buffer alone when it is too short.\<close>

definition skb_pull :: "nat \<Rightarrow> sk_buff \<Rightarrow> sk_buff option" where
  "skb_pull n b =
     (if n \<le> skb_len b
      then Some (b\<lparr>skb_data := drop n (skb_data b), skb_headroom := skb_headroom b + n,
                  skb_network := skb_network b - n\<rparr>)
      else None)"

section \<open>The kernel\<close>

record timespec64 =
  tv_sec :: int
  tv_nsec :: int

text \<open>
  What the drivers call and do not decide: whether the n-th allocation succeeds, the room an
  allocation of a size really has, the n-th reading of the clock, the result of the n-th
  \<^verbatim>\<open>dev_queue_xmit\<close>, and the memory after a buffer, from its end on. The two module parameters are
  here too.
\<close>

record kernel =
  alloc_ok :: "nat \<Rightarrow> bool"
  alloc_room :: "nat \<Rightarrow> u8 list"
  ktime :: "nat \<Rightarrow> timespec64"
  xmit_ret :: "nat \<Rightarrow> int"
  beyond :: "nat \<Rightarrow> u8"
  agg_time_limit :: int
  agg_bypass_time :: int

text \<open>\<^verbatim>\<open>alloc_skb(size)\<close> gives at least the room asked for.\<close>

definition alloc_spec :: "kernel \<Rightarrow> bool" where
  "alloc_spec K \<longleftrightarrow> (\<forall>n. n \<le> length (alloc_room K n))"

definition new_skb :: "kernel \<Rightarrow> nat \<Rightarrow> sk_buff" where
  "new_skb K n = \<lparr>skb_data = [], skb_tail = alloc_room K n, skb_headroom = 0, skb_protocol = 0,
     skb_network = 0\<rparr>"

text \<open>
  A byte read at an offset from \<open>data\<close>. C does not check the offset: a read past the data finds the
  unused room of the buffer, a read past the buffer finds whatever memory follows it (there is some,
  \<^verbatim>\<open>skb_shared_info\<close> stands right behind the room). So a read is never a fault here, and that code
  reads only inside a frame is a statement of its own: what it returns does not depend on the room of
  the buffer and on the memory behind it.
\<close>

definition peek :: "kernel \<Rightarrow> sk_buff \<Rightarrow> nat \<Rightarrow> u8" where
  "peek K b i =
     (if i < length (skb_data b @ skb_tail b) then (skb_data b @ skb_tail b) ! i
      else beyond K (i - length (skb_data b @ skb_tail b)))"

definition be16 :: "u16 \<Rightarrow> u8 list" where
  "be16 v = [ucast (drop_bit 8 v), ucast v]"

definition peek16 :: "kernel \<Rightarrow> sk_buff \<Rightarrow> nat \<Rightarrow> u16" where
  "peek16 K b i = of_le16 (peek K b (i + 1)) (peek K b i)"

definition timespec64_sub :: "timespec64 \<Rightarrow> timespec64 \<Rightarrow> timespec64" where
  "timespec64_sub a b =
     (let ns = tv_nsec a - tv_nsec b
      in \<lparr>tv_sec = tv_sec a - tv_sec b + ns div 1000000000, tv_nsec = ns mod 1000000000\<rparr>)"

definition ETH_HLEN :: nat where [simp]: "ETH_HLEN = 14"
definition ETH_P_IP :: u16 where [simp]: "ETH_P_IP = 0x0800"
definition ETH_P_ARP :: u16 where [simp]: "ETH_P_ARP = 0x0806"
definition ETH_P_IPV6 :: u16 where [simp]: "ETH_P_IPV6 = 0x86DD"
definition ETH_P_MAP :: u16 where [simp]: "ETH_P_MAP = 0xDA1A"

section \<open>State\<close>

text \<open>\<^verbatim>\<open>struct tx_agg_ctx\<close>.\<close>

record tx_agg_ctx =
  ul_data_aggregation_max_datagrams :: u32
  ul_data_aggregation_max_size :: u32
  dl_minimum_padding :: u32

text \<open>
  A multiplexed network device: the fields of \<^verbatim>\<open>struct net_device\<close> the drivers use and its
  \<^verbatim>\<open>struct qmap_priv\<close>. \<open>ether\<close> is \<^verbatim>\<open>type == ARPHRD_ETHER\<close>.
\<close>

record qmap_net =
  ether :: bool
  mtu :: u32
  dev_addr :: "u8 list"
  stopped :: bool
  tx_packets :: nat
  tx_bytes :: nat
  tx_errors :: nat
  mux_id :: u8
  qmap_version :: u8
  agg_skb :: "sk_buff option"
  agg_count :: u32
  agg_time :: timespec64
  agg_hrtimer :: bool
  agg_wq :: bool
  bridge_mode :: u32
  bridge_ipv4 :: u32
  bridge_mac :: "u8 list"

text \<open>
  With it what an uplink call reaches: the frames given to \<^verbatim>\<open>dev_queue_xmit\<close> of the real device,
  oldest first, whether that device's queue is stopped, the ARP replies given to the host (sender
  address, target address, hardware address) and how often the kernel was asked.
\<close>

record qmap_tx = qmap_net +
  sent :: "u8 list list"
  real_stopped :: bool
  arp_replies :: "(u8 list \<times> u8 list \<times> u8 list) list"
  allocs :: nat
  ticks :: nat

section \<open>QMAP headers\<close>

text \<open>
  The bytes of \<^verbatim>\<open>struct qmap_hdr\<close>, and of \<^verbatim>\<open>struct rmnet_map_header\<close> (\<open>pad_len\<close> in bits 0 to 5,
  \<open>next_hdr\<close> bit 6, \<open>cd_bit\<close> bit 7) with the \<^verbatim>\<open>rmnet_map_v5_csum_header\<close> after it (\<open>header_type\<close>
  in bits 1 to 7).
\<close>

definition qmap_hdr :: "nat \<Rightarrow> u8 \<Rightarrow> u16 \<Rightarrow> u8 list" where
  "qmap_hdr pad mux pkt_len = [of_nat pad, mux] @ be16 pkt_len"

definition rmnet_map_header_v5 :: "nat \<Rightarrow> u8 \<Rightarrow> u16 \<Rightarrow> u8 list" where
  "rmnet_map_header_v5 pad mux pkt_len =
     [0x40 OR (of_nat pad AND 0x3F), mux] @ be16 pkt_len @ [0x02 * 2, 0, 0, 0]"

text \<open>The padding both encoders add for a length: none when the tail has no room for it.\<close>

definition pad_for :: "nat \<Rightarrow> sk_buff \<Rightarrow> nat" where
  "pad_for len b =
     (let pad = len mod 4
      in if pad = 0 then 0 else if length (skb_tail b) < 4 - pad then 0 else 4 - pad)"

text \<open>
  \<open>hdr_data\<close> says whether the caller keeps the header apart (it is then returned beside the
  buffer) or it is pushed. A packet shorter than \<open>ip_offset\<close> wraps \<open>skb->len - ip_offset\<close>.
\<close>

definition add_qhdr :: "sk_buff \<Rightarrow> u8 \<Rightarrow> bool \<Rightarrow> nat \<Rightarrow> (sk_buff \<times> u8 list) option" where
  "add_qhdr b mux hdr_data ip_offset = do {
     let pad = pad_for (skb_len b) b;
     b \<leftarrow> skb_put pad b;
     if hdr_data then Some (b, qmap_hdr pad mux (of_nat (skb_len b) - of_nat ip_offset))
     else do {
       b' \<leftarrow> skb_push_data (qmap_hdr pad mux (of_nat (skb_len b))) b;
       Some (b', []) } }"

definition add_qhdr_v5 :: "sk_buff \<Rightarrow> u8 \<Rightarrow> bool \<Rightarrow> nat \<Rightarrow> (sk_buff \<times> u8 list) option" where
  "add_qhdr_v5 b mux hdr_data ip_offset = do {
     let pad = pad_for (unat (of_nat (skb_len b) - of_nat ip_offset :: u32)) b;
     b \<leftarrow> skb_put pad b;
     if hdr_data
     then Some (b, rmnet_map_header_v5 pad mux (of_nat (skb_len b) - of_nat ip_offset))
     else do {
       b' \<leftarrow> skb_push_data (rmnet_map_header_v5 pad mux (of_nat (skb_len b))) b;
       Some (b', []) } }"

text \<open>The GobiNet encoders always push.\<close>

definition gobi_add_qhdr :: "sk_buff \<Rightarrow> u8 \<Rightarrow> sk_buff option" where
  "gobi_add_qhdr b mux = do {
     let pad = pad_for (skb_len b) b;
     b \<leftarrow> skb_put pad b;
     skb_push_data (qmap_hdr pad mux (of_nat (skb_len b))) b }"

definition gobi_add_qhdr_v5 :: "sk_buff \<Rightarrow> u8 \<Rightarrow> sk_buff option" where
  "gobi_add_qhdr_v5 b mux = do {
     let map_datalen = skb_len b;
     let padding = pad_for map_datalen b;
     b \<leftarrow> skb_put padding b;
     skb_push_data (rmnet_map_header_v5 padding mux (of_nat map_datalen + of_nat padding)) b }"

section \<open>Aggregation\<close>

text \<open>Packets that should not wait: TCP segments with the push flag, ICMP and ICMPv6.\<close>

definition rmnet_usb_tx_agg_skip :: "kernel \<Rightarrow> sk_buff \<Rightarrow> nat \<Rightarrow> bool" where
  "rmnet_usb_tx_agg_skip K b offset =
     (if skb_protocol b = ETH_P_IP then
        (let protocol = peek K b (offset + 9)
         in if protocol = 6 then bit (peek K b (offset + 20 + 13)) 3
            else protocol = 1)
      else if skb_protocol b = ETH_P_IPV6 then
        (let nexthdr = peek K b (offset + 6)
         in if nexthdr = 6 then bit (peek K b (offset + 40 + 13)) 3
            else if nexthdr = 58 then True
            else if nexthdr = 44 then peek K b (offset + 40) = 58
            else False)
      else False)"

text \<open>\<^verbatim>\<open>dev_queue_xmit\<close> of the real device, with the error count of the caller.\<close>

definition xmit_frame :: "kernel \<Rightarrow> sk_buff option \<Rightarrow> qmap_tx \<Rightarrow> qmap_tx" where
  "xmit_frame K f s =
     (case f of None \<Rightarrow> s
      | Some b \<Rightarrow>
          s\<lparr>sent := sent s @ [skb_data b],
            tx_errors := (if xmit_ret K (length (sent s)) \<noteq> 0 then tx_errors s + 1
                          else tx_errors s)\<rparr>)"

text \<open>The work item: the critical section takes the aggregate, then it is sent.\<close>

definition agg_work_take :: "kernel \<Rightarrow> qmap_tx \<Rightarrow> qmap_tx \<times> sk_buff option" where
  "agg_work_take K s =
     (case agg_skb s of
        Some a \<Rightarrow> (s\<lparr>agg_skb := None, agg_count := 0, agg_time := ktime K (ticks s),
                    ticks := ticks s + 1\<rparr>, Some (a\<lparr>skb_protocol := ETH_P_MAP\<rparr>))
      | None \<Rightarrow> (s, None))"

definition rmnet_usb_tx_agg_work :: "kernel \<Rightarrow> qmap_tx \<Rightarrow> qmap_tx" where
  "rmnet_usb_tx_agg_work K s = (let (s', f) = agg_work_take K s in xmit_frame K f s')"

text \<open>
  One allocation: the size, and the buffer or nothing.
\<close>

definition alloc_skb :: "kernel \<Rightarrow> nat \<Rightarrow> qmap_tx \<Rightarrow> qmap_tx \<times> sk_buff option" where
  "alloc_skb K n s =
     (s\<lparr>allocs := allocs s + 1\<rparr>, if alloc_ok K (allocs s) then Some (new_skb K n) else None)"

text \<open>
  The two copies of a packet into an aggregate: the header, then the packet from \<open>ip_offset\<close> on.
  A packet shorter than that asks for almost 4 GiB.
\<close>

definition put_packet :: "u8 list \<Rightarrow> nat \<Rightarrow> sk_buff \<Rightarrow> sk_buff \<Rightarrow> sk_buff option" where
  "put_packet hdr ip_offset b a = do {
     a \<leftarrow> skb_put_data hdr a;
     if ip_offset \<le> skb_len b then skb_put_data (drop ip_offset (skb_data b)) a else None }"

text \<open>Whether the last packet is urgent; the offset counts the headers of the packet.\<close>

definition agg_urgent :: "kernel \<Rightarrow> bool \<Rightarrow> u8 \<Rightarrow> sk_buff \<Rightarrow> bool" where
  "agg_urgent K xmit_more first b =
     (if xmit_more then False
      else rmnet_usb_tx_agg_skip K b (if bit first 6 then 4 + 4 else 4))"

definition late :: "timespec64 \<Rightarrow> int \<Rightarrow> bool" where
  "late diff limit \<longleftrightarrow> tv_sec diff > 0 \<or> tv_nsec diff > limit"

text \<open>
  The critical section of \<^verbatim>\<open>rmnet_usb_tx_agg\<close>, from the \<open>new_packet\<close> label to the unlock: the
  packet if it is still to be handled, and the frame to send.
\<close>

definition agg_pass :: "kernel \<Rightarrow> tx_agg_ctx \<Rightarrow> bool \<Rightarrow> sk_buff \<Rightarrow> u8 list \<Rightarrow> nat \<Rightarrow> qmap_tx \<Rightarrow>
    (qmap_tx \<times> sk_buff option \<times> sk_buff option) option" where
  "agg_pass K ctx xmit_more b hdr ip_offset s = do {
     let now = ktime K (ticks s);
     let s = s\<lparr>ticks := ticks s + 1\<rparr>;
     let diff = timespec64_sub now (agg_time s);
     case agg_skb s of
       Some a \<Rightarrow>
         if of_nat (skb_len a) + of_nat (skb_len b) + of_nat (length hdr)
              < ul_data_aggregation_max_size ctx
         then do {
           a \<leftarrow> put_packet hdr ip_offset b a;
           let s = s\<lparr>agg_skb := Some a, agg_count := agg_count s + 1\<rparr>;
           let ready2send =
             (if late diff (agg_time_limit K) then True
              else if agg_count s = ul_data_aggregation_max_datagrams ctx then True
              else agg_urgent K xmit_more (hdr ! 0) b);
           if ready2send
           then Some (s\<lparr>agg_skb := None, agg_count := 0, agg_time := now\<rparr>, None, Some a)
           else Some (s, None, None) }
         else Some (s\<lparr>agg_skb := None, agg_count := 0, agg_time := now\<rparr>, Some b, Some a)
     | None \<Rightarrow> do {
         let ready2send =
           (if late diff (agg_bypass_time K) then True
            else agg_urgent K xmit_more (hdr ! 0) b);
         (s, ready2send) \<leftarrow>
           (if ready2send then Some (s, True)
            else (case alloc_skb K (unat (ul_data_aggregation_max_size ctx)) s of
                    (s, Some a) \<Rightarrow> do {
                      a \<leftarrow> put_packet hdr ip_offset b a;
                      Some (s\<lparr>agg_skb := Some a, agg_count := agg_count s + 1\<rparr>, False) }
                  | (s, None) \<Rightarrow> Some (s, True)));
         if ready2send
         then (case alloc_skb K (skb_len b + length hdr) s of
                 (s, Some a) \<Rightarrow> do {
                   a \<leftarrow> put_packet hdr ip_offset b a;
                   Some (s\<lparr>agg_time := now\<rparr>, None, Some a) }
               | (s, None) \<Rightarrow> Some (s\<lparr>agg_time := now\<rparr>, None, None))
         else Some (s, None, None) } }"

lemma agg_pass_again:
  "agg_pass K ctx m b hdr off s = Some (s', Some b', f) \<Longrightarrow>
     agg_skb s \<noteq> None \<and> agg_skb s' = None \<and> b' = b"
  by (auto simp: agg_pass_def Let_def alloc_skb_def
      split: option.splits if_splits Option.bind_splits prod.splits)

lemma agg_skb_xmit_frame [simp]: "agg_skb (xmit_frame K f s) = agg_skb s"
  by (simp add: xmit_frame_def split: option.split)

text \<open>The passes until the packet is handled.\<close>

function agg_loop :: "kernel \<Rightarrow> tx_agg_ctx \<Rightarrow> bool \<Rightarrow> sk_buff \<Rightarrow> u8 list \<Rightarrow> nat \<Rightarrow> qmap_tx \<Rightarrow>
    qmap_tx option" where
  "agg_loop K ctx xmit_more b hdr ip_offset s =
     (case agg_pass K ctx xmit_more b hdr ip_offset s of
        None \<Rightarrow> None
      | Some (s', None, f) \<Rightarrow> Some (xmit_frame K f s')
      | Some (s', Some b', f) \<Rightarrow> agg_loop K ctx xmit_more b' hdr ip_offset (xmit_frame K f s'))"
  by pat_completeness auto

termination
  by (relation "measure (\<lambda>(K, ctx, m, b, hdr, off, s). if agg_skb s = None then 0 else 1)")
    (auto dest: agg_pass_again)

declare agg_loop.simps [simp del]

definition hrtimer_arm :: "qmap_tx \<Rightarrow> qmap_tx" where
  "hrtimer_arm s = (if agg_skb s \<noteq> None then s\<lparr>agg_hrtimer := True\<rparr> else s)"

definition rmnet_usb_tx_agg :: "kernel \<Rightarrow> tx_agg_ctx \<Rightarrow> bool \<Rightarrow> sk_buff \<Rightarrow> u8 list \<Rightarrow> nat \<Rightarrow>
    qmap_tx \<Rightarrow> qmap_tx option" where
  "rmnet_usb_tx_agg K ctx xmit_more b hdr ip_offset s = do {
     let s = s\<lparr>tx_packets := tx_packets s + 1, tx_bytes := tx_bytes s + skb_len b\<rparr>;
     if ul_data_aggregation_max_datagrams ctx = 1
     then (case alloc_skb K (skb_len b + length hdr) s of
             (s, Some a) \<Rightarrow> do {
               a \<leftarrow> put_packet hdr ip_offset b a;
               Some (xmit_frame K (Some a) s) }
           | (s, None) \<Rightarrow> Some s)
     else map_option hrtimer_arm (agg_loop K ctx xmit_more b hdr ip_offset s) }"

text \<open>The timer callback schedules the work item; running it clears the mark.\<close>

definition rmnet_usb_tx_agg_timer_cb :: "qmap_tx \<Rightarrow> qmap_tx" where
  "rmnet_usb_tx_agg_timer_cb s = s\<lparr>agg_hrtimer := False, agg_wq := True\<rparr>"

section \<open>Bridge mode\<close>

text \<open>
  An ARP request for an address near the modem's is answered with the modem's hardware address.
  \<^verbatim>\<open>arp_create\<close> allocates; its arguments are kept.
\<close>

definition peekn :: "kernel \<Rightarrow> sk_buff \<Rightarrow> nat \<Rightarrow> nat \<Rightarrow> u8 list" where
  "peekn K b i n = map (peek K b) [i..<i + n]"

definition ipv4_bytes :: "u32 \<Rightarrow> u8 list" where
  "ipv4_bytes v = [ucast (drop_bit 24 v), ucast (drop_bit 16 v), ucast (drop_bit 8 v), ucast v]"

definition bridge_arp_reply :: "kernel \<Rightarrow> sk_buff \<Rightarrow> u32 \<Rightarrow> qmap_tx \<Rightarrow> qmap_tx \<times> bool" where
  "bridge_arp_reply K b ipv4 s =
     (let p = skb_network b
      in if peek16 K b p = 1 \<and> peek16 K b (p + 2) = ETH_P_IP \<and> peek16 K b (p + 6) = 1
            \<and> peek K b (p + 4) = 6 \<and> peek K b (p + 5) = 4
         then (let sha = peekn K b (p + 8) 6; sip = peekn K b (p + 14) 4;
                   tip = peekn K b (p + 24) 4; ip = ipv4_bytes ipv4
               in (if tip ! 0 = ip ! 0 \<and> tip ! 1 = ip ! 1
                      \<and> tip ! 2 AND 0xFC = ip ! 2 AND 0xFC \<and> tip ! 3 \<noteq> ip ! 3
                   then (let (s, a) = alloc_skb K 42 s
                         in if a = None then s
                            else s\<lparr>arp_replies := arp_replies s @ [(sip, tip, sha)]\<rparr>)
                   else s, True))
         else (s, False))"

text \<open>
  The packet passes only when its source is the learned host; the host is learned from a UDP
  broadcast from the unspecified address (DHCP).
\<close>

definition bridge_mode_tx_fixup :: "kernel \<Rightarrow> sk_buff \<Rightarrow> qmap_tx \<Rightarrow> qmap_tx \<times> sk_buff option" where
  "bridge_mode_tx_fixup K b s =
     (if peek16 K b 12 = ETH_P_ARP
      then (if bridge_ipv4 s \<noteq> 0 then fst (bridge_arp_reply K b (bridge_ipv4 s) s) else s, None)
      else
        let iph = skb_network b;
            s = (if peek16 K b 12 = ETH_P_IP \<and> peek K b (iph + 9) = 17
                    \<and> peekn K b (iph + 12) 4 = [0, 0, 0, 0]
                    \<and> peekn K b (iph + 16) 4 = [0xFF, 0xFF, 0xFF, 0xFF]
                 then s\<lparr>bridge_mac := peekn K b 6 6\<rparr> else s)
        in (s, if peekn K b 6 6 \<noteq> bridge_mac s then None else Some b))"

section \<open>Transmission\<close>

datatype netdev_tx = NETDEV_TX_OK | NETDEV_TX_BUSY

definition rmnet_vnd_start_xmit :: "kernel \<Rightarrow> tx_agg_ctx \<Rightarrow> bool \<Rightarrow> sk_buff \<Rightarrow> qmap_tx \<Rightarrow>
    (netdev_tx \<times> qmap_tx) option" where
  "rmnet_vnd_start_xmit K ctx xmit_more b s =
     (if real_stopped s then Some (NETDEV_TX_BUSY, s\<lparr>stopped := True\<rparr>)
      else
        let (s, go) = (if ether s \<and> bridge_mode s \<noteq> 0 then bridge_mode_tx_fixup K b s
                       else (s, Some b));
            ip_offset = (if ether s then ETH_HLEN else 0)
        in if go = None then Some (NETDEV_TX_OK, s)
           else if qmap_version s = 5 then do {
             (b, hdr) \<leftarrow> add_qhdr b (mux_id s) True ip_offset;
             s \<leftarrow> rmnet_usb_tx_agg K ctx xmit_more b hdr ip_offset s;
             Some (NETDEV_TX_OK, s) }
           else if qmap_version s = 9 then do {
             (b, hdr) \<leftarrow> add_qhdr_v5 b (mux_id s) True ip_offset;
             s \<leftarrow> rmnet_usb_tx_agg K ctx xmit_more b hdr ip_offset s;
             Some (NETDEV_TX_OK, s) }
           else Some (NETDEV_TX_OK, s))"

section \<open>The GobiNet copy\<close>

text \<open>
  The header is part of the packet; a packet that is sent alone is sent itself, without an
  allocation. The limits are the device's own.
\<close>

definition gobi_agg_pass :: "kernel \<Rightarrow> tx_agg_ctx \<Rightarrow> bool \<Rightarrow> sk_buff \<Rightarrow> qmap_tx \<Rightarrow>
    (qmap_tx \<times> sk_buff option \<times> sk_buff option) option" where
  "gobi_agg_pass K ctx xmit_more b s = do {
     let now = ktime K (ticks s);
     let s = s\<lparr>ticks := ticks s + 1\<rparr>;
     let diff = timespec64_sub now (agg_time s);
     case agg_skb s of
       Some a \<Rightarrow>
         if of_nat (skb_len a) + of_nat (skb_len b) < ul_data_aggregation_max_size ctx
         then do {
           a \<leftarrow> skb_put_data (skb_data b) a;
           let s = s\<lparr>agg_skb := Some a, agg_count := agg_count s + 1\<rparr>;
           let ready2send =
             (if late diff (agg_time_limit K) then True
              else if agg_count s = ul_data_aggregation_max_datagrams ctx then True
              else agg_urgent K xmit_more (skb_data b ! 0) b);
           if ready2send
           then Some (s\<lparr>agg_skb := None, agg_count := 0, agg_time := now\<rparr>, None, Some a)
           else Some (s, None, None) }
         else Some (s\<lparr>agg_skb := None, agg_count := 0, agg_time := now\<rparr>, Some b, Some a)
     | None \<Rightarrow> do {
         let ready2send =
           (if late diff (agg_bypass_time K) then True
            else agg_urgent K xmit_more (skb_data b ! 0) b);
         (s, ready2send) \<leftarrow>
           (if ready2send then Some (s, True)
            else (case alloc_skb K (unat (ul_data_aggregation_max_size ctx)) s of
                    (s, Some a) \<Rightarrow> do {
                      a \<leftarrow> skb_put_data (skb_data b) a;
                      Some (s\<lparr>agg_skb := Some a, agg_count := agg_count s + 1\<rparr>, False) }
                  | (s, None) \<Rightarrow> Some (s, True)));
         if ready2send then Some (s\<lparr>agg_time := now\<rparr>, None, Some b)
         else Some (s, None, None) } }"

lemma gobi_agg_pass_again:
  "gobi_agg_pass K ctx m b s = Some (s', Some b', f) \<Longrightarrow>
     agg_skb s \<noteq> None \<and> agg_skb s' = None \<and> b' = b"
  by (auto simp: gobi_agg_pass_def Let_def alloc_skb_def
      split: option.splits if_splits Option.bind_splits prod.splits)

function gobi_agg_loop :: "kernel \<Rightarrow> tx_agg_ctx \<Rightarrow> bool \<Rightarrow> sk_buff \<Rightarrow> qmap_tx \<Rightarrow>
    qmap_tx option" where
  "gobi_agg_loop K ctx xmit_more b s =
     (case gobi_agg_pass K ctx xmit_more b s of
        None \<Rightarrow> None
      | Some (s', None, f) \<Rightarrow> Some (xmit_frame K f s')
      | Some (s', Some b', f) \<Rightarrow> gobi_agg_loop K ctx xmit_more b' (xmit_frame K f s'))"
  by pat_completeness auto

termination
  by (relation "measure (\<lambda>(K, ctx, m, b, s). if agg_skb s = None then 0 else 1)")
    (auto dest: gobi_agg_pass_again)

declare gobi_agg_loop.simps [simp del]

definition gobi_tx_agg :: "kernel \<Rightarrow> tx_agg_ctx \<Rightarrow> bool \<Rightarrow> sk_buff \<Rightarrow> qmap_tx \<Rightarrow>
    qmap_tx option" where
  "gobi_tx_agg K ctx xmit_more b s =
     (let s = s\<lparr>tx_packets := tx_packets s + 1, tx_bytes := tx_bytes s + skb_len b\<rparr>
      in if ul_data_aggregation_max_datagrams ctx = 1 then Some (xmit_frame K (Some b) s)
         else map_option hrtimer_arm (gobi_agg_loop K ctx xmit_more b s))"

text \<open>The Ethernet header is dropped from IP packets that have more than their IP header.\<close>

definition ether_to_ip_fixup :: "kernel \<Rightarrow> sk_buff \<Rightarrow> sk_buff option" where
  "ether_to_ip_fixup K b =
     (let h_proto = peek16 K b 12
      in if h_proto = ETH_P_IP then (if skb_len b \<le> 14 + 20 then None else skb_pull ETH_HLEN b)
         else if h_proto = ETH_P_IPV6
         then (if skb_len b \<le> 14 + 40 then None else skb_pull ETH_HLEN b)
         else None)"

definition qmap_start_xmit :: "kernel \<Rightarrow> tx_agg_ctx \<Rightarrow> bool \<Rightarrow> sk_buff \<Rightarrow> qmap_tx \<Rightarrow>
    (netdev_tx \<times> qmap_tx) option" where
  "qmap_start_xmit K ctx xmit_more b s =
     (if real_stopped s then Some (NETDEV_TX_BUSY, s\<lparr>stopped := True\<rparr>)
      else
        let (s, go) = (if ether s then
                         (let (s, go) = (if bridge_mode s \<noteq> 0 then bridge_mode_tx_fixup K b s
                                         else (s, Some b))
                          in (s, Option.bind go (ether_to_ip_fixup K)))
                       else (s, Some b))
        in case go of
             None \<Rightarrow> Some (NETDEV_TX_OK, s)
           | Some b \<Rightarrow>
               if qmap_version s = 5 then do {
                 b \<leftarrow> gobi_add_qhdr b (mux_id s);
                 s \<leftarrow> gobi_tx_agg K ctx xmit_more b s;
                 Some (NETDEV_TX_OK, s) }
               else if qmap_version s = 9 then do {
                 b \<leftarrow> gobi_add_qhdr_v5 b (mux_id s);
                 s \<leftarrow> gobi_tx_agg K ctx xmit_more b s;
                 Some (NETDEV_TX_OK, s) }
               else Some (NETDEV_TX_OK, s))"

end
