(* ===== verification/Qmap_Uplink.thy ===== *)
theory Qmap_Uplink
  imports Qmap_Tx "HOL-Library.Sublist" "HOL-Library.Multiset"
begin

text \<open>
  What the uplinks of \<^verbatim>\<open>Qmap_Tx\<close> do: an abstract aggregator that both drivers refine, an interface
  (\<open>uplink\<close>) whose one lemma gives the order of the packets for both devices, and the transmitter
  and the work item as two threads.
\<close>

section \<open>What an aggregator may do\<close>

text \<open>
  The abstract aggregator: the pending bytes with their number of packets, or nothing. One pass
  over a packet \<open>e\<close> (its QMAP bytes) joins it, flushes, or sends it alone; only a failed
  allocation drops it. The last two arguments are the frame sent and whether the packet is still
  to be handled.
\<close>

inductive pass_step :: "nat \<Rightarrow> nat \<Rightarrow> bool \<Rightarrow> u8 list \<Rightarrow> (u8 list \<times> nat) option \<Rightarrow>
    (u8 list \<times> nat) option \<Rightarrow> u8 list option \<Rightarrow> bool \<Rightarrow> bool"
  for max_size max_datagrams :: nat and lossless :: bool and e :: "u8 list" where
  Join: "length d + length e < max_size \<Longrightarrow> n + 1 < max_datagrams \<Longrightarrow>
    pass_step max_size max_datagrams lossless e (Some (d, n)) (Some (d @ e, n + 1)) None False"
| JoinFlush: "length d + length e < max_size \<Longrightarrow> n + 1 \<le> max_datagrams \<Longrightarrow>
    pass_step max_size max_datagrams lossless e (Some (d, n)) None (Some (d @ e)) False"
| Full: "pass_step max_size max_datagrams lossless e (Some (d, n)) None (Some d) True"
| New: "length e \<le> max_size \<Longrightarrow> 1 < max_datagrams \<Longrightarrow>
    pass_step max_size max_datagrams lossless e None (Some (e, 1)) None False"
| Alone: "pass_step max_size max_datagrams lossless e None None (Some e) False"
| Drop: "\<not> lossless \<Longrightarrow> pass_step max_size max_datagrams lossless e None None None False"

inductive_cases pass_step_SomeE: "pass_step M D L e (Some p) p' f again"
inductive_cases pass_step_NoneE: "pass_step M D L e None p' f again"

text \<open>A whole call: one pass, or a flush and one more.\<close>

definition frames :: "u8 list option \<Rightarrow> u8 list list" where
  "frames f = (case f of None \<Rightarrow> [] | Some d \<Rightarrow> [d])"

lemma frames_simps [simp]: "frames None = []" "frames (Some d) = [d]"
  by (simp_all add: frames_def)

inductive tx_step :: "nat \<Rightarrow> nat \<Rightarrow> bool \<Rightarrow> u8 list \<Rightarrow> (u8 list \<times> nat) option \<Rightarrow>
    (u8 list \<times> nat) option \<Rightarrow> u8 list list \<Rightarrow> bool"
  for max_size max_datagrams :: nat and lossless :: bool and e :: "u8 list" where
  Once: "pass_step max_size max_datagrams lossless e p p' f False \<Longrightarrow>
    tx_step max_size max_datagrams lossless e p p' (frames f)"
| Twice: "pass_step max_size max_datagrams lossless e p None f True \<Longrightarrow>
    pass_step max_size max_datagrams lossless e None p' f' False \<Longrightarrow>
    tx_step max_size max_datagrams lossless e p p' (frames f @ frames f')"

section \<open>Both drivers refine it\<close>

definition tx_pending :: "qmap_tx \<Rightarrow> (u8 list \<times> nat) option" where
  "tx_pending s = map_option (\<lambda>a. (skb_data a, unat (agg_count s))) (agg_skb s)"

text \<open>What no uplink call changes: the link type, the ids, the bridge and the real queue.\<close>

definition dev_cfg :: "qmap_tx \<Rightarrow> bool \<times> u8 \<times> u8 \<times> u32 \<times> bool" where
  "dev_cfg s = (ether s, qmap_version s, mux_id s, bridge_mode s, real_stopped s)"

definition ctx_ok :: "tx_agg_ctx \<Rightarrow> bool" where
  "ctx_ok ctx \<longleftrightarrow> 0 < ul_data_aggregation_max_datagrams ctx
     \<and> unat (ul_data_aggregation_max_size ctx) < 2147483648"

definition tx_ok :: "tx_agg_ctx \<Rightarrow> qmap_tx \<Rightarrow> bool" where
  "tx_ok ctx s \<longleftrightarrow>
     (case agg_skb s of
        None \<Rightarrow> agg_count s = 0
      | Some a \<Rightarrow> skb_len a \<le> unat (ul_data_aggregation_max_size ctx)
          \<and> unat (ul_data_aggregation_max_size ctx) \<le> skb_len a + length (skb_tail a)
          \<and> 0 < agg_count s \<and> agg_count s < ul_data_aggregation_max_datagrams ctx)"

text \<open>A packet fits: alone it is not longer than an aggregate.\<close>

definition fits :: "tx_agg_ctx \<Rightarrow> nat \<Rightarrow> bool" where
  "fits ctx n \<longleftrightarrow> ul_data_aggregation_max_datagrams ctx = 1
     \<or> n \<le> unat (ul_data_aggregation_max_size ctx)"

lemma put_packet_eq:
  assumes "off \<le> skb_len b" "length hdr + (skb_len b - off) \<le> length (skb_tail a)"
  shows "put_packet hdr off b a =
    Some (a\<lparr>skb_data := skb_data a @ hdr @ drop off (skb_data b),
            skb_tail := drop (length hdr + (skb_len b - off)) (skb_tail a)\<rparr>)"
  using assms by (auto simp: put_packet_def skb_put_data_def add.commute)

lemma u32_size_check:
  assumes "a \<le> unat M" "b \<le> unat M" "unat (M :: u32) < 2147483648" "of_nat a + of_nat b < M"
  shows "a + b < unat M"
proof -
  have "a + b < 4294967296" using assms by linarith
  then have "unat (of_nat a + of_nat b :: u32) = a + b"
    by (metis of_nat_add unat_u32_of_nat)
  then show ?thesis using assms(4) by (simp add: word_less_nat_alt)
qed

lemma u32_count:
  assumes "c < (D :: u32)"
  shows "unat (c + 1) = unat c + 1"
    and "c + 1 \<noteq> D \<Longrightarrow> unat c + 1 < unat D"
    and "unat c + 1 \<le> unat D"
proof -
  have le: "unat c < unat D" "unat D < 4294967296"
    using assms unsigned_less [of D] by (simp_all add: word_less_nat_alt)
  then show *: "unat (c + 1) = unat c + 1" by (simp add: unat_word_ariths)
  show "unat c + 1 \<le> unat D" using le by simp
  show "c + 1 \<noteq> D \<Longrightarrow> unat c + 1 < unat D" using le * by (metis Suc_eq_plus1 Suc_lessI word_unat_eq_iff)
qed

text \<open>The two critical sections as passes of the abstract aggregator.\<close>

definition pass_refines :: "kernel \<Rightarrow> tx_agg_ctx \<Rightarrow> u8 list \<Rightarrow> sk_buff \<Rightarrow> qmap_tx \<Rightarrow>
    (qmap_tx \<times> sk_buff option \<times> sk_buff option) option \<Rightarrow> bool" where
  "pass_refines K ctx e b s r \<longleftrightarrow> (\<exists>s' b' f. r = Some (s', b', f)
     \<and> pass_step (unat (ul_data_aggregation_max_size ctx))
         (unat (ul_data_aggregation_max_datagrams ctx)) (\<forall>n. alloc_ok K n) e
         (tx_pending s) (tx_pending s') (map_option skb_data f) (b' \<noteq> None)
     \<and> tx_ok ctx s' \<and> (b' = None \<or> b' = Some b) \<and> sent s' = sent s \<and> dev_cfg s' = dev_cfg s)"

lemma ctx_ok_datagrams:
  assumes "ctx_ok ctx" "ul_data_aggregation_max_datagrams ctx \<noteq> 1"
  shows "1 < unat (ul_data_aggregation_max_datagrams ctx)"
    "1 < ul_data_aggregation_max_datagrams ctx"
proof -
  have "0 < unat (ul_data_aggregation_max_datagrams ctx)"
    using assms by (simp add: ctx_ok_def word_less_nat_alt)
  moreover have "unat (ul_data_aggregation_max_datagrams ctx) \<noteq> 1"
    using assms(2) by (metis unat_1 word_unat_eq_iff)
  ultimately show "1 < unat (ul_data_aggregation_max_datagrams ctx)" by linarith
  then show "1 < ul_data_aggregation_max_datagrams ctx" by (simp add: word_less_nat_alt)
qed

lemma pass_refines_Some:
  "pass_refines K ctx e b s (Some (s', b', f)) \<longleftrightarrow>
     pass_step (unat (ul_data_aggregation_max_size ctx))
         (unat (ul_data_aggregation_max_datagrams ctx)) (\<forall>n. alloc_ok K n) e
         (tx_pending s) (tx_pending s') (map_option skb_data f) (b' \<noteq> None)
     \<and> tx_ok ctx s' \<and> (b' = None \<or> b' = Some b) \<and> sent s' = sent s \<and> dev_cfg s' = dev_cfg s"
  by (simp add: pass_refines_def)

lemmas pass_simps = pass_refines_Some pass_step.simps tx_pending_def tx_ok_def dev_cfg_def

lemma put_packet_new:
  assumes "alloc_spec K" "off \<le> skb_len b" "skb_len b + length hdr \<le> n"
  shows "put_packet hdr off b (new_skb K n) =
    Some ((new_skb K n)\<lparr>skb_data := hdr @ drop off (skb_data b),
      skb_tail := drop (length hdr + (skb_len b - off)) (alloc_room K n)\<rparr>)"
proof -
  have "n \<le> length (alloc_room K n)" using assms(1) by (simp add: alloc_spec_def)
  then have "length hdr + (skb_len b - off) \<le> length (skb_tail (new_skb K n))"
    using assms(3) by (simp add: new_skb_def)
  then show ?thesis using assms(2) by (simp add: put_packet_eq) (simp add: new_skb_def)
qed

lemma agg_pass_empty_refines:
  assumes C: "ctx_ok ctx" "ul_data_aggregation_max_datagrams ctx \<noteq> 1" and I: "tx_ok ctx s"
    and A: "alloc_spec K" and off: "off \<le> skb_len b"
    and F: "skb_len b + length hdr \<le> unat (ul_data_aggregation_max_size ctx)"
    and N: "agg_skb s = None"
  shows "pass_refines K ctx (hdr @ drop off (skb_data b)) b s (agg_pass K ctx m b hdr off s)"
proof -
  have len: "unat (ul_data_aggregation_max_size ctx)
      \<le> length (alloc_room K (unat (ul_data_aggregation_max_size ctx)))"
    using A by (simp add: alloc_spec_def)
  have cnt: "agg_count s = 0" using I N by (simp add: tx_ok_def)
  note put = put_packet_new [OF A off F] put_packet_new [OF A off order_refl]
  show ?thesis
    using N F len ctx_ok_datagrams [OF C] cnt
    by (auto simp: agg_pass_def Let_def alloc_skb_def put pass_simps)
qed

lemma agg_pass_pending_refines:
  assumes C: "ctx_ok ctx" and I: "tx_ok ctx s" and off: "off \<le> skb_len b"
    and F: "skb_len b + length hdr \<le> unat (ul_data_aggregation_max_size ctx)"
    and S: "agg_skb s = Some a"
  shows "pass_refines K ctx (hdr @ drop off (skb_data b)) b s (agg_pass K ctx m b hdr off s)"
proof (cases "of_nat (skb_len a) + of_nat (skb_len b) + of_nat (length hdr)
    < ul_data_aggregation_max_size ctx")
  case True
  have cnt: "agg_count s < ul_data_aggregation_max_datagrams ctx" using I S by (simp add: tx_ok_def)
  have sz: "skb_len a + (skb_len b + length hdr) < unat (ul_data_aggregation_max_size ctx)"
    using True I S F C
    by (intro u32_size_check) (simp_all add: tx_ok_def ctx_ok_def add.assoc)
  have room: "length hdr + (skb_len b - off) \<le> length (skb_tail a)"
    using sz I S by (auto simp: tx_ok_def)
  show ?thesis
    using True S I sz off u32_count [OF cnt]
    by (auto simp: agg_pass_def Let_def put_packet_eq [OF off room] pass_simps word_less_nat_alt)
next
  case False
  then show ?thesis
    using S by (simp add: agg_pass_def Let_def pass_simps)
qed

lemma agg_pass_refines:
  assumes "ctx_ok ctx" "ul_data_aggregation_max_datagrams ctx \<noteq> 1" "tx_ok ctx s" "alloc_spec K"
    "off \<le> skb_len b" "skb_len b + length hdr \<le> unat (ul_data_aggregation_max_size ctx)"
  shows "pass_refines K ctx (hdr @ drop off (skb_data b)) b s (agg_pass K ctx m b hdr off s)"
  using assms by (cases "agg_skb s") (simp_all add: agg_pass_empty_refines agg_pass_pending_refines)

lemma skb_put_data_new:
  assumes "alloc_spec K" "length vs \<le> n"
  shows "skb_put_data vs (new_skb K n) =
    Some ((new_skb K n)\<lparr>skb_data := vs, skb_tail := drop (length vs) (alloc_room K n)\<rparr>)"
proof -
  have "n \<le> length (alloc_room K n)" using assms(1) by (simp add: alloc_spec_def)
  then show ?thesis using assms(2) by (simp add: skb_put_data_def new_skb_def)
qed

lemma gobi_agg_pass_refines:
  assumes C: "ctx_ok ctx" "ul_data_aggregation_max_datagrams ctx \<noteq> 1" and I: "tx_ok ctx s"
    and A: "alloc_spec K" and F: "skb_len b \<le> unat (ul_data_aggregation_max_size ctx)"
  shows "pass_refines K ctx (skb_data b) b s (gobi_agg_pass K ctx m b s)"
proof (cases "agg_skb s")
  case None
  have len: "unat (ul_data_aggregation_max_size ctx)
      \<le> length (alloc_room K (unat (ul_data_aggregation_max_size ctx)))"
    using A by (simp add: alloc_spec_def)
  have cnt: "agg_count s = 0" using I None by (simp add: tx_ok_def)
  show ?thesis
    using None F len ctx_ok_datagrams [OF C] cnt
    by (auto simp: gobi_agg_pass_def Let_def alloc_skb_def skb_put_data_new [OF A F] pass_simps)
next
  case (Some a)
  show ?thesis
  proof (cases "of_nat (skb_len a) + of_nat (skb_len b) < ul_data_aggregation_max_size ctx")
    case True
    have cnt: "agg_count s < ul_data_aggregation_max_datagrams ctx"
      using I Some by (simp add: tx_ok_def)
    have sz: "skb_len a + skb_len b < unat (ul_data_aggregation_max_size ctx)"
      using True I Some F C by (intro u32_size_check) (simp_all add: tx_ok_def ctx_ok_def)
    have room: "skb_len b \<le> length (skb_tail a)" using sz I Some by (auto simp: tx_ok_def)
    show ?thesis
      using True Some I sz room u32_count [OF cnt]
      by (auto simp: gobi_agg_pass_def Let_def skb_put_data_def pass_simps word_less_nat_alt)
  next
    case False
    then show ?thesis using Some by (simp add: gobi_agg_pass_def Let_def pass_simps)
  qed
qed

text \<open>Whole calls.\<close>

definition call_refines :: "kernel \<Rightarrow> tx_agg_ctx \<Rightarrow> u8 list \<Rightarrow> qmap_tx \<Rightarrow> qmap_tx option \<Rightarrow> bool" where
  "call_refines K ctx e s r \<longleftrightarrow> (\<exists>s' fs. r = Some s'
     \<and> tx_step (unat (ul_data_aggregation_max_size ctx))
         (unat (ul_data_aggregation_max_datagrams ctx)) (\<forall>n. alloc_ok K n) e
         (tx_pending s) (tx_pending s') fs
     \<and> tx_ok ctx s' \<and> sent s' = sent s @ fs \<and> dev_cfg s' = dev_cfg s)"

lemma xmit_frame_simps [simp]:
  "sent (xmit_frame K f s) = sent s @ frames (map_option skb_data f)"
  "tx_pending (xmit_frame K f s) = tx_pending s"
  "tx_ok ctx (xmit_frame K f s) = tx_ok ctx s"
  "dev_cfg (xmit_frame K f s) = dev_cfg s"
  by (simp_all add: xmit_frame_def dev_cfg_def tx_pending_def tx_ok_def split: option.split)

text \<open>The loop of either driver: after a flush the pending state is empty, so one pass is left.\<close>

lemma loop_refines:
  assumes step: "\<And>s. tx_ok ctx s \<Longrightarrow> pass_refines K ctx e b s (pass s)"
    and unfold: "\<And>s. loop s = (case pass s of None \<Rightarrow> None
      | Some (s', None, f) \<Rightarrow> Some (xmit_frame K f s')
      | Some (s', Some b', f) \<Rightarrow> loop (xmit_frame K f s'))"
    and I: "tx_ok ctx s"
  shows "call_refines K ctx e s (loop s)"
proof -
  obtain s1 b1 f1 where p1: "pass s = Some (s1, b1, f1)"
    and r1: "pass_refines K ctx e b s (Some (s1, b1, f1))"
    using step [OF I] by (auto simp: pass_refines_def)
  show ?thesis
  proof (cases b1)
    case None
    then show ?thesis
      using p1 r1 unfold [of s]
      by (auto simp: call_refines_def pass_refines_Some intro: tx_step.Once)
  next
    case (Some b')
    let ?t = "xmit_frame K f1 s1"
    have t: "tx_ok ctx ?t" "tx_pending ?t = None"
      using r1 Some by (auto simp: pass_refines_Some pass_step.simps)
    obtain s2 b2 f2 where p2: "pass ?t = Some (s2, b2, f2)"
      and r2: "pass_refines K ctx e b ?t (Some (s2, b2, f2))"
      using step [OF t(1)] by (auto simp: pass_refines_def)
    then have "b2 = None" using t(2) by (auto simp: pass_refines_Some pass_step.simps)
    then show ?thesis
      using p1 r1 p2 r2 Some t(2) unfold [of s] unfold [of ?t]
      by (auto simp: call_refines_def pass_refines_Some intro: tx_step.Twice)
  qed
qed

lemma tx_ok_count_stats [simp]:
  "tx_ok ctx (s\<lparr>tx_packets := p, tx_bytes := n\<rparr>) = tx_ok ctx s"
  "tx_ok ctx (s\<lparr>allocs := a\<rparr>) = tx_ok ctx s"
  "tx_pending (s\<lparr>tx_packets := p, tx_bytes := n\<rparr>) = tx_pending s"
  "tx_pending (s\<lparr>allocs := a\<rparr>) = tx_pending s"
  "dev_cfg (s\<lparr>tx_packets := p, tx_bytes := n\<rparr>) = dev_cfg s"
  "dev_cfg (s\<lparr>allocs := a\<rparr>) = dev_cfg s"
  by (simp_all add: dev_cfg_def tx_ok_def tx_pending_def split: option.split)

lemma tx_ok_single:
  assumes "tx_ok ctx s" "ul_data_aggregation_max_datagrams ctx = 1"
  shows "tx_pending s = None"
  using assms by (auto simp: tx_ok_def tx_pending_def word_less_nat_alt split: option.splits)

lemma hrtimer_arm_simps [simp]:
  "sent (hrtimer_arm s) = sent s" "tx_pending (hrtimer_arm s) = tx_pending s"
  "tx_ok ctx (hrtimer_arm s) = tx_ok ctx s" "dev_cfg (hrtimer_arm s) = dev_cfg s"
  by (simp_all add: dev_cfg_def hrtimer_arm_def tx_pending_def tx_ok_def split: option.split)

lemma call_refines_arm:
  "call_refines K ctx e s r \<Longrightarrow> call_refines K ctx e s (map_option hrtimer_arm r)"
  by (force simp: call_refines_def)

lemma call_refines_stats:
  "call_refines K ctx e (s\<lparr>tx_packets := p, tx_bytes := n\<rparr>) r = call_refines K ctx e s r"
  by (simp add: call_refines_def)

lemma call_refines_alone:
  assumes "tx_ok ctx s" "tx_pending s = None"
  shows "call_refines K ctx (skb_data b) s (Some (xmit_frame K (Some b) s))"
proof -
  have "pass_step M D L (skb_data b) None None (Some (skb_data b)) False" for M D L
    by (rule pass_step.Alone)
  from tx_step.Once [OF this] show ?thesis
    using assms by (simp add: call_refines_def)
qed

lemma call_refines_drop:
  assumes "tx_ok ctx s" "tx_pending s = None" "\<not> alloc_ok K n"
  shows "call_refines K ctx e s (Some s)"
proof -
  have "pass_step M D (\<forall>n. alloc_ok K n) e None None None False" for M D
    using assms(3) by (intro pass_step.Drop) blast
  from tx_step.Once [OF this] show ?thesis
    using assms by (simp add: call_refines_def)
qed

lemma call_refines_allocs:
  "call_refines K ctx e (s\<lparr>allocs := a\<rparr>) r = call_refines K ctx e s r"
  by (simp add: call_refines_def)

theorem rmnet_usb_tx_agg_refines:
  assumes "ctx_ok ctx" "tx_ok ctx s" "alloc_spec K" "off \<le> skb_len b"
    "fits ctx (skb_len b + length hdr)"
  shows "call_refines K ctx (hdr @ drop off (skb_data b)) s
    (rmnet_usb_tx_agg K ctx m b hdr off s)"
proof (cases "ul_data_aggregation_max_datagrams ctx = 1")
  case True
  let ?s = "s\<lparr>tx_packets := tx_packets s + 1, tx_bytes := tx_bytes s + skb_len b\<rparr>"
  let ?t = "?s\<lparr>allocs := allocs s + 1\<rparr>"
  have t: "tx_ok ctx ?t" "tx_pending ?t = None" using assms(2) tx_ok_single [OF _ True] by simp_all
  note put = put_packet_new [OF assms(3,4) order_refl]
  show ?thesis
  proof (cases "alloc_ok K (allocs s)")
    case al: True
    show ?thesis
      using True al call_refines_alone [OF t, of K "(new_skb K (skb_len b + length hdr))
        \<lparr>skb_data := hdr @ drop off (skb_data b), skb_tail := drop (length hdr + (skb_len b - off))
           (alloc_room K (skb_len b + length hdr))\<rparr>"]
      by (simp add: rmnet_usb_tx_agg_def alloc_skb_def put call_refines_allocs call_refines_stats)
  next
    case False
    then show ?thesis
      using True call_refines_drop [OF t, of K "allocs s"]
      by (simp add: rmnet_usb_tx_agg_def alloc_skb_def call_refines_allocs call_refines_stats)
  qed
next
  case False
  then have F: "skb_len b + length hdr \<le> unat (ul_data_aggregation_max_size ctx)"
    using assms(5) by (simp add: fits_def)
  have "call_refines K ctx (hdr @ drop off (skb_data b)) s (agg_loop K ctx m b hdr off s)"
    if "tx_ok ctx s" for s
  proof (rule loop_refines [OF _ _ that])
    show "pass_refines K ctx (hdr @ drop off (skb_data b)) b s (agg_pass K ctx m b hdr off s)"
      if "tx_ok ctx s" for s
      by (rule agg_pass_refines) (use assms False F that in simp_all)
  next
    show "agg_loop K ctx m b hdr off s = (case agg_pass K ctx m b hdr off s of None \<Rightarrow> None
      | Some (s', None, f) \<Rightarrow> Some (xmit_frame K f s')
      | Some (s', Some b', f) \<Rightarrow> agg_loop K ctx m b hdr off (xmit_frame K f s'))" for s
      by (subst agg_loop.simps) (auto split: option.splits dest: agg_pass_again)
  qed
  from this [of "s\<lparr>tx_packets := tx_packets s + 1, tx_bytes := tx_bytes s + skb_len b\<rparr>"]
  show ?thesis
    using False assms(2)
    by (simp add: rmnet_usb_tx_agg_def call_refines_arm call_refines_stats)
qed

theorem gobi_tx_agg_refines:
  assumes "ctx_ok ctx" "tx_ok ctx s" "alloc_spec K" "fits ctx (skb_len b)"
  shows "call_refines K ctx (skb_data b) s (gobi_tx_agg K ctx m b s)"
proof (cases "ul_data_aggregation_max_datagrams ctx = 1")
  case True
  let ?s = "s\<lparr>tx_packets := tx_packets s + 1, tx_bytes := tx_bytes s + skb_len b\<rparr>"
  have t: "tx_ok ctx ?s" "tx_pending ?s = None" using assms(2) tx_ok_single [OF _ True] by simp_all
  show ?thesis
    using True call_refines_alone [OF t, of K b] by (simp add: gobi_tx_agg_def call_refines_stats)
next
  case False
  then have F: "skb_len b \<le> unat (ul_data_aggregation_max_size ctx)"
    using assms(4) by (simp add: fits_def)
  have "call_refines K ctx (skb_data b) s (gobi_agg_loop K ctx m b s)"
    if "tx_ok ctx s" for s
  proof (rule loop_refines [OF _ _ that])
    show "pass_refines K ctx (skb_data b) b s (gobi_agg_pass K ctx m b s)"
      if "tx_ok ctx s" for s
      by (rule gobi_agg_pass_refines) (use assms False F that in simp_all)
  next
    show "gobi_agg_loop K ctx m b s = (case gobi_agg_pass K ctx m b s of None \<Rightarrow> None
      | Some (s', None, f) \<Rightarrow> Some (xmit_frame K f s')
      | Some (s', Some b', f) \<Rightarrow> gobi_agg_loop K ctx m b (xmit_frame K f s'))" for s
      by (subst gobi_agg_loop.simps) (auto split: option.splits dest: gobi_agg_pass_again)
  qed
  from this [of "s\<lparr>tx_packets := tx_packets s + 1, tx_bytes := tx_bytes s + skb_len b\<rparr>"]
  show ?thesis
    using False assms(2)
    by (simp add: gobi_tx_agg_def call_refines_arm call_refines_stats)
qed

section \<open>Packets in frames\<close>

text \<open>The QMAP bytes of a packet with its padding.\<close>

definition qmap_frame :: "u8 \<Rightarrow> u8 \<Rightarrow> u8 list \<Rightarrow> u8 list \<Rightarrow> u8 list" where
  "qmap_frame ver mux pkt pad =
     (if ver = 9 then rmnet_map_header_v5 (length pad) mux (of_nat (length pkt + length pad))
      else qmap_hdr (length pad) mux (of_nat (length pkt + length pad))) @ pkt @ pad"

definition pack :: "('p \<Rightarrow> u8 list) \<Rightarrow> 'p list \<Rightarrow> u8 list" where
  "pack enc g = concat (map enc g)"

lemma pack_simps [simp]: "pack enc [] = []" "pack enc (p # g) = enc p @ pack enc g"
    "pack enc (g @ h) = pack enc g @ pack enc h"
  by (simp_all add: pack_def)

text \<open>The packets of one frame: at most the agreed number, and in the agreed size if several.\<close>

definition group_ok :: "tx_agg_ctx \<Rightarrow> ('p \<Rightarrow> u8 list) \<Rightarrow> 'p list \<Rightarrow> bool" where
  "group_ok ctx enc g \<longleftrightarrow> length g \<le> unat (ul_data_aggregation_max_datagrams ctx)
     \<and> (1 < length g \<longrightarrow> length (pack enc g) < unat (ul_data_aggregation_max_size ctx))"

definition carries :: "tx_agg_ctx \<Rightarrow> ('p \<Rightarrow> u8 list) \<Rightarrow> qmap_tx \<Rightarrow> 'p list list \<Rightarrow> 'p list \<Rightarrow> bool" where
  "carries ctx enc s gs g \<longleftrightarrow> tx_ok ctx s \<and> sent s = map (pack enc) gs
     \<and> tx_pending s = (if g = [] then None else Some (pack enc g, length g))
     \<and> (\<forall>h \<in> set gs. group_ok ctx enc h) \<and> group_ok ctx enc g"

lemma pass_step_groups:
  assumes "pass_step (unat (ul_data_aggregation_max_size ctx))
      (unat (ul_data_aggregation_max_datagrams ctx)) L (enc p)
      (if g = [] then None else Some (pack enc g, length g)) p' f again"
    and G: "group_ok ctx enc g" and D: "ctx_ok ctx"
  shows "\<exists>gs' g'. frames f = map (pack enc) gs'
    \<and> p' = (if g' = [] then None else Some (pack enc g', length g'))
    \<and> (\<forall>h \<in> set gs'. group_ok ctx enc h) \<and> group_ok ctx enc g'
    \<and> concat gs' @ g' = (if again then g else g @ [p])
    \<or> \<not> L \<and> \<not> again \<and> g = [] \<and> p' = None \<and> f = None"
proof (cases "g = []")
  case True
  have D1: "1 \<le> unat (ul_data_aggregation_max_datagrams ctx)"
    using D by (simp add: ctx_ok_def word_less_nat_alt)
  from True assms(1) have "pass_step (unat (ul_data_aggregation_max_size ctx))
      (unat (ul_data_aggregation_max_datagrams ctx)) L (enc p) None p' f again" by simp
  then show ?thesis
  proof (cases rule: pass_step.cases)
    case New
    then show ?thesis using True by (intro disjI1 exI [of _ "[]"] exI [of _ "[p]"]) (simp add: group_ok_def)
  next
    case Alone
    then show ?thesis using True D1
      by (intro disjI1 exI [of _ "[[p]]"] exI [of _ "[]"]) (simp add: group_ok_def)
  next
    case Drop
    then show ?thesis using True by simp
  qed
next
  case False
  with assms(1) have "pass_step (unat (ul_data_aggregation_max_size ctx))
      (unat (ul_data_aggregation_max_datagrams ctx)) L (enc p) (Some (pack enc g, length g)) p' f again"
    by simp
  then show ?thesis
  proof (cases rule: pass_step.cases)
    case Join
    then show ?thesis using False
      by (intro disjI1 exI [of _ "[]"] exI [of _ "g @ [p]"]) (simp add: group_ok_def)
  next
    case JoinFlush
    then show ?thesis using False
      by (intro disjI1 exI [of _ "[g @ [p]]"] exI [of _ "[]"]) (simp add: group_ok_def)
  next
    case Full
    then show ?thesis using False G
      by (intro disjI1 exI [of _ "[g]"] exI [of _ "[]"]) (simp add: group_ok_def)
  qed
qed

lemma call_carries:
  assumes C: "carries ctx enc s gs g" and R: "call_refines K ctx (enc p) s r" and D: "ctx_ok ctx"
  shows "\<exists>s' gs' g'. r = Some s' \<and> carries ctx enc s' gs' g' \<and> dev_cfg s' = dev_cfg s
    \<and> (concat gs' @ g' = concat gs @ g @ [p]
       \<or> \<not> (\<forall>n. alloc_ok K n) \<and> concat gs' @ g' = concat gs @ g)"
proof -
  let ?M = "unat (ul_data_aggregation_max_size ctx)"
  let ?D = "unat (ul_data_aggregation_max_datagrams ctx)"
  let ?P = "\<lambda>g. if g = [] then None else Some (pack enc g, length g)"
  from R obtain s' fs where r: "r = Some s'" "tx_ok ctx s'" "sent s' = sent s @ fs"
      "dev_cfg s' = dev_cfg s"
    and st: "tx_step ?M ?D (\<forall>n. alloc_ok K n) (enc p) (tx_pending s) (tx_pending s') fs"
    by (auto simp: call_refines_def)
  have P: "tx_pending s = ?P g" "group_ok ctx enc g" "\<forall>h \<in> set gs. group_ok ctx enc h"
    "sent s = map (pack enc) gs"
    using C by (simp_all add: carries_def)
  have "\<exists>gs1 g1. fs = map (pack enc) gs1 \<and> tx_pending s' = ?P g1
      \<and> (\<forall>h \<in> set gs1. group_ok ctx enc h) \<and> group_ok ctx enc g1
      \<and> (concat gs1 @ g1 = g @ [p] \<or> \<not> (\<forall>n. alloc_ok K n) \<and> concat gs1 @ g1 = g)"
    using st
  proof cases
    case (Once f)
    from pass_step_groups [OF Once(2) [unfolded P(1)] P(2) D] show ?thesis
      using Once(1) P(2)
      apply (elim disjE exE conjE)
      subgoal by auto
      subgoal by (intro exI [of _ "[]"] exI [of _ "[]"]) auto
      done
  next
    case (Twice f f')
    obtain gs1 where 1: "frames f = map (pack enc) gs1" "\<forall>h \<in> set gs1. group_ok ctx enc h"
      "concat gs1 = g"
      using pass_step_groups [OF Twice(2) [unfolded P(1)] P(2) D]
      by (auto split: if_splits)
    have "group_ok ctx enc []" by (simp add: group_ok_def)
    with Twice(3) have 2: "pass_step ?M ?D (\<forall>n. alloc_ok K n) (enc p) (?P []) (tx_pending s') f' False"
      by simp
    from pass_step_groups [OF 2 \<open>group_ok ctx enc []\<close> D] show ?thesis
      using 1 Twice(1) \<open>group_ok ctx enc []\<close>
      apply (elim disjE exE conjE)
      subgoal for gs2 g2 by (intro exI [of _ "gs1 @ gs2"] exI [of _ g2]) auto
      subgoal by (intro exI [of _ gs1] exI [of _ "[]"]) auto
      done
  qed
  then obtain gs1 g1 where 3: "fs = map (pack enc) gs1" "tx_pending s' = ?P g1"
      "\<forall>h \<in> set gs1. group_ok ctx enc h" "group_ok ctx enc g1"
      "concat gs1 @ g1 = g @ [p] \<or> \<not> (\<forall>n. alloc_ok K n) \<and> concat gs1 @ g1 = g"
    by blast
  have "carries ctx enc s' (gs @ gs1) g1"
    using r P 3 by (auto simp: carries_def)
  then show ?thesis using r 3(5) by (intro exI [of _ s'] exI [of _ "gs @ gs1"] exI [of _ g1]) auto
qed

section \<open>The uplink as an interface\<close>

text \<open>
  An uplink is run by sending packets and by its work item. A contract for it: a send keeps the
  packets in order, behind those in earlier frames and those pending, and drops the packet only
  where allocations can fail; the work item moves the pending packets into a frame.
\<close>

datatype 'p tx_op = Send 'p | Work

primrec tx_run :: "('p \<Rightarrow> 's \<Rightarrow> 's option) \<Rightarrow> ('s \<Rightarrow> 's) \<Rightarrow> 'p tx_op list \<Rightarrow> 's \<Rightarrow> 's option" where
  "tx_run xmit work [] s = Some s"
| "tx_run xmit work (x # xs) s =
     (case x of Send p \<Rightarrow> Option.bind (xmit p s) (tx_run xmit work xs)
      | Work \<Rightarrow> tx_run xmit work xs (work s))"

primrec sends :: "'p tx_op list \<Rightarrow> 'p list" where
  "sends [] = []"
| "sends (x # xs) = (case x of Send p \<Rightarrow> [p] | Work \<Rightarrow> []) @ sends xs"

locale uplink =
  fixes holds :: "'s \<Rightarrow> 'p list list \<Rightarrow> 'p list \<Rightarrow> bool"
    and xmit :: "'p \<Rightarrow> 's \<Rightarrow> 's option" and work :: "'s \<Rightarrow> 's"
    and ok :: "'p \<Rightarrow> bool" and lossless :: bool
  assumes xmit_law: "holds s gs g \<Longrightarrow> ok p \<Longrightarrow>
      \<exists>s' gs' g'. xmit p s = Some s' \<and> holds s' gs' g'
        \<and> (concat gs' @ g' = concat gs @ g @ [p]
           \<or> \<not> lossless \<and> concat gs' @ g' = concat gs @ g)"
    and work_law: "holds s gs g \<Longrightarrow> \<exists>gs'. holds (work s) gs' [] \<and> concat gs' = concat gs @ g"
begin

lemma run_keeps_order:
  assumes "holds s gs g" "\<forall>p \<in> set (sends xs). ok p"
  shows "\<exists>s' gs' g' ps. tx_run xmit work xs s = Some s' \<and> holds s' gs' g'
    \<and> concat gs' @ g' = concat gs @ g @ ps \<and> subseq ps (sends xs)
    \<and> (lossless \<longrightarrow> ps = sends xs)"
  using assms
proof (induction xs arbitrary: s gs g)
  case Nil
  then show ?case by (intro exI [of _ s] exI [of _ gs] exI [of _ g] exI [of _ "[]"]) simp
next
  case (Cons x xs)
  show ?case
  proof (cases x)
    case (Send p)
    from Cons.prems Send obtain s1 gs1 g1 where 1: "xmit p s = Some s1" "holds s1 gs1 g1"
      and c: "concat gs1 @ g1 = concat gs @ g @ [p]
        \<or> \<not> lossless \<and> concat gs1 @ g1 = concat gs @ g"
      using xmit_law [of s gs g p] by auto
    obtain s' gs' g' ps where 2: "tx_run xmit work xs s1 = Some s'" "holds s' gs' g'"
      "concat gs' @ g' = concat gs1 @ g1 @ ps" "subseq ps (sends xs)" "lossless \<longrightarrow> ps = sends xs"
      using Cons.IH [OF 1(2)] Cons.prems Send by auto
    from c show ?thesis
    proof
      assume "concat gs1 @ g1 = concat gs @ g @ [p]"
      then have "concat gs' @ g' = concat gs @ g @ p # ps" using 2(3) by (simp flip: append_assoc)
      then show ?thesis
        using 1 2 Send by (intro exI [of _ s'] exI [of _ gs'] exI [of _ g'] exI [of _ "p # ps"]) simp
    next
      assume "\<not> lossless \<and> concat gs1 @ g1 = concat gs @ g"
      then show ?thesis
        using 1 2 Send by (intro exI [of _ s'] exI [of _ gs'] exI [of _ g'] exI [of _ ps])
          (simp flip: append_assoc, auto)
    qed
  next
    case Work
    obtain gs1 where 1: "holds (work s) gs1 []" "concat gs1 = concat gs @ g"
      using work_law [OF Cons.prems(1)] by blast
    show ?thesis using Cons.IH [OF 1(1)] Cons.prems(2) 1(2) Work by simp
  qed
qed

lemma run_then_work:
  assumes "holds s [] []" "\<forall>p \<in> set (sends xs). ok p" "lossless"
  shows "\<exists>s' gs. tx_run xmit work (xs @ [Work]) s = Some s' \<and> holds s' gs []
    \<and> concat gs = sends xs"
proof -
  have run_app: "tx_run xmit work (xs @ ys) t = Option.bind (tx_run xmit work xs t) (tx_run xmit work ys)"
    for ys t
    by (induction xs arbitrary: t) (auto split: tx_op.split bind_split)
  show ?thesis
    using run_keeps_order [OF assms(1,2)] assms(3) work_law by (fastforce simp: run_app)
qed

end

lemma work_carries:
  assumes "carries ctx enc s gs g"
  shows "\<exists>gs'. carries ctx enc (rmnet_usb_tx_agg_work K s) gs' [] \<and> concat gs' = concat gs @ g
    \<and> dev_cfg (rmnet_usb_tx_agg_work K s) = dev_cfg s"
proof (cases "agg_skb s")
  case None
  then show ?thesis
    using assms by (intro exI [of _ gs])
      (auto simp: carries_def rmnet_usb_tx_agg_work_def agg_work_take_def xmit_frame_def
        tx_pending_def split: if_splits)
next
  case (Some a)
  then show ?thesis
    using assms by (intro exI [of _ "gs @ [g]"])
      (auto simp: carries_def rmnet_usb_tx_agg_work_def agg_work_take_def xmit_frame_def
        tx_pending_def group_ok_def dev_cfg_def tx_ok_def split: if_splits)
qed

section \<open>The devices are uplinks\<close>

text \<open>
  The packet a device sends for a buffer, and the buffers it takes: \<open>eth\<close> devices drop the
  Ethernet header. The first copy pads to the length with that header, the second without it.
\<close>

definition ip_off :: "bool \<Rightarrow> nat" where "ip_off eth = (if eth then ETH_HLEN else 0)"

definition q_enc :: "bool \<Rightarrow> u8 \<Rightarrow> u8 \<Rightarrow> bool \<times> sk_buff \<Rightarrow> u8 list" where
  "q_enc eth ver mux = (\<lambda>(xm, b).
     let pad = pad_for (if ver = 9 then skb_len b - ip_off eth else skb_len b) b
     in qmap_frame ver mux (drop (ip_off eth) (skb_data b)) (take pad (skb_tail b)))"

definition q_takes :: "tx_agg_ctx \<Rightarrow> bool \<Rightarrow> bool \<times> sk_buff \<Rightarrow> bool" where
  "q_takes ctx eth = (\<lambda>(xm, b). ip_off eth \<le> skb_len b \<and> skb_len b < 65536
     \<and> fits ctx (skb_len b + 11))"

definition q_holds :: "kernel \<Rightarrow> tx_agg_ctx \<Rightarrow> bool \<Rightarrow> u8 \<Rightarrow> u8 \<Rightarrow> qmap_tx \<Rightarrow>
    (bool \<times> sk_buff) list list \<Rightarrow> (bool \<times> sk_buff) list \<Rightarrow> bool" where
  "q_holds K ctx eth ver mux s gs g \<longleftrightarrow> carries ctx (q_enc eth ver mux) s gs g
     \<and> dev_cfg s = (eth, ver, mux, 0, False) \<and> ver \<in> {5, 9} \<and> ctx_ok ctx \<and> alloc_spec K"

definition q_send :: "kernel \<Rightarrow> tx_agg_ctx \<Rightarrow> bool \<times> sk_buff \<Rightarrow> qmap_tx \<Rightarrow> qmap_tx option" where
  "q_send K ctx = (\<lambda>(xm, b) s. map_option snd (rmnet_vnd_start_xmit K ctx xm b s))"

lemma pad_for_le: "pad_for n b \<le> length (skb_tail b)" "pad_for n b < 4"
  by (simp_all add: pad_for_def Let_def)

lemma length_hdrs [simp]:
  "length (qmap_hdr p m n) = 4" "length (rmnet_map_header_v5 p m n) = 8"
  by (simp_all add: qmap_hdr_def rmnet_map_header_v5_def be16_def)

lemma skb_put_pad: "skb_put (pad_for n b) b = Some (b\<lparr>skb_data := skb_data b @ take (pad_for n b) (skb_tail b),
    skb_tail := drop (pad_for n b) (skb_tail b)\<rparr>)"
  by (simp add: skb_put_def pad_for_le)

lemma fits_mono: "fits ctx n \<Longrightarrow> m \<le> n \<Longrightarrow> fits ctx m"
  by (auto simp: fits_def)

lemma add_qhdr_frame:
  assumes "off \<le> skb_len b" "ver \<noteq> 9"
  shows "\<exists>b' hdr. add_qhdr b mux True off = Some (b', hdr) \<and> length hdr = 4
    \<and> hdr @ drop off (skb_data b')
      = qmap_frame ver mux (drop off (skb_data b)) (take (pad_for (skb_len b) b) (skb_tail b))
    \<and> skb_len b' = skb_len b + pad_for (skb_len b) b"
  using assms pad_for_le [of "skb_len b" b]
  by (simp add: add_qhdr_def skb_put_pad qmap_frame_def Let_def of_nat_diff min_absorb2)

lemma add_qhdr_v5_frame:
  assumes "off \<le> skb_len b" "skb_len b < 65536"
  shows "\<exists>b' hdr. add_qhdr_v5 b mux True off = Some (b', hdr) \<and> length hdr = 8
    \<and> hdr @ drop off (skb_data b')
      = qmap_frame 9 mux (drop off (skb_data b)) (take (pad_for (skb_len b - off) b) (skb_tail b))
    \<and> skb_len b' = skb_len b + pad_for (skb_len b - off) b"
proof -
  have "unat (of_nat (skb_len b) - of_nat off :: u32) = skb_len b - off"
    using assms by (simp flip: of_nat_diff)
  then show ?thesis
    using assms pad_for_le [of "skb_len b - off" b]
    by (simp add: add_qhdr_v5_def skb_put_pad qmap_frame_def Let_def of_nat_diff min_absorb2)
qed

lemma q_header_frame:
  assumes "ip_off eth \<le> skb_len b" "skb_len b < 65536"
  shows "\<exists>b' hdr. (if ver = 9 then add_qhdr_v5 else add_qhdr) b mux True (ip_off eth) = Some (b', hdr)
    \<and> length hdr \<le> 8 \<and> hdr @ drop (ip_off eth) (skb_data b') = q_enc eth ver mux (xm, b)
    \<and> skb_len b \<le> skb_len b' \<and> skb_len b' \<le> skb_len b + 3"
proof (cases "ver = 9")
  case True
  then show ?thesis
    using add_qhdr_v5_frame [OF assms, of mux] pad_for_le(2) [of "skb_len b - ip_off eth" b]
    by (force simp: q_enc_def Let_def)
next
  case False
  then show ?thesis
    using add_qhdr_frame [OF assms(1) False, of mux] pad_for_le(2) [of "skb_len b" b]
    by (force simp: q_enc_def Let_def)
qed

lemma strip_status [simp]:
  "map_option snd (Option.bind r (\<lambda>s. Some (NETDEV_TX_OK, s))) = r"
  by (cases r) simp_all

lemma q_send_eq:
  assumes "dev_cfg s = (eth, ver, mux, 0, False)" "ver = 5 \<or> ver = 9"
    "(if ver = 9 then add_qhdr_v5 else add_qhdr) b mux True (ip_off eth) = Some (b', hdr)"
  shows "q_send K ctx (xm, b) s = rmnet_usb_tx_agg K ctx xm b' hdr (ip_off eth) s"
  using assms
  by (auto simp: q_send_def rmnet_vnd_start_xmit_def dev_cfg_def Let_def ip_off_def)

lemma q_send_holds:
  assumes H: "q_holds K ctx eth ver mux s gs g" and T: "q_takes ctx eth p"
  shows "\<exists>s' gs' g'. q_send K ctx p s = Some s' \<and> q_holds K ctx eth ver mux s' gs' g'
    \<and> (concat gs' @ g' = concat gs @ g @ [p]
       \<or> \<not> (\<forall>n. alloc_ok K n) \<and> concat gs' @ g' = concat gs @ g)"
proof -
  obtain xm b where p: "p = (xm, b)" by (cases p)
  from H have h: "carries ctx (q_enc eth ver mux) s gs g" "ctx_ok ctx" "alloc_spec K" "tx_ok ctx s"
    and cfg: "dev_cfg s = (eth, ver, mux, 0, False)" and v: "ver = 5 \<or> ver = 9"
    by (auto simp: q_holds_def carries_def)
  from T p have t: "ip_off eth \<le> skb_len b" "skb_len b < 65536" "fits ctx (skb_len b + 11)"
    by (auto simp: q_takes_def)
  obtain b' hdr where a: "(if ver = 9 then add_qhdr_v5 else add_qhdr) b mux True (ip_off eth)
      = Some (b', hdr)" "length hdr \<le> 8" "hdr @ drop (ip_off eth) (skb_data b') = q_enc eth ver mux p"
    "skb_len b \<le> skb_len b'" "skb_len b' \<le> skb_len b + 3"
    using q_header_frame [OF t(1,2), of ver mux xm] p by blast
  have l: "ip_off eth \<le> skb_len b'" "fits ctx (skb_len b' + length hdr)"
    using t a by (auto intro: fits_mono)
  have "call_refines K ctx (q_enc eth ver mux p) s (q_send K ctx p s)"
    using rmnet_usb_tx_agg_refines [OF h(2,4,3) l, of xm] a(3) q_send_eq [OF cfg v a(1)] p by simp
  from call_carries [OF h(1) this h(2)] show ?thesis
    using H by (force simp: q_holds_def)
qed

interpretation qmi: uplink "q_holds K ctx eth ver mux" "q_send K ctx" "rmnet_usb_tx_agg_work K"
    "q_takes ctx eth" "\<forall>n. alloc_ok K n" for K ctx eth ver mux
proof
  show "\<exists>s' gs' g'. q_send K ctx p s = Some s' \<and> q_holds K ctx eth ver mux s' gs' g'
    \<and> (concat gs' @ g' = concat gs @ g @ [p]
       \<or> \<not> (\<forall>n. alloc_ok K n) \<and> concat gs' @ g' = concat gs @ g)"
    if "q_holds K ctx eth ver mux s gs g" "q_takes ctx eth p" for s gs g p
    using q_send_holds [OF that] .
  show "\<exists>gs'. q_holds K ctx eth ver mux (rmnet_usb_tx_agg_work K s) gs' [] \<and> concat gs' = concat gs @ g"
    if "q_holds K ctx eth ver mux s gs g" for s gs g
    using work_carries [of ctx "q_enc eth ver mux" s gs g K] that by (force simp: q_holds_def)
qed

text \<open>The GobiNet device.\<close>

definition g_enc :: "bool \<Rightarrow> u8 \<Rightarrow> u8 \<Rightarrow> bool \<times> sk_buff \<Rightarrow> u8 list" where
  "g_enc eth ver mux = (\<lambda>(xm, b).
     let pkt = drop (ip_off eth) (skb_data b)
     in qmap_frame ver mux pkt (take (pad_for (length pkt) b) (skb_tail b)))"

definition g_takes :: "kernel \<Rightarrow> tx_agg_ctx \<Rightarrow> bool \<Rightarrow> bool \<times> sk_buff \<Rightarrow> bool" where
  "g_takes K ctx eth = (\<lambda>(xm, b). skb_len b < 65536 \<and> fits ctx (skb_len b + 11)
     \<and> (if eth then ether_to_ip_fixup K b \<noteq> None else 8 \<le> skb_headroom b))"

definition g_holds :: "kernel \<Rightarrow> tx_agg_ctx \<Rightarrow> bool \<Rightarrow> u8 \<Rightarrow> u8 \<Rightarrow> qmap_tx \<Rightarrow>
    (bool \<times> sk_buff) list list \<Rightarrow> (bool \<times> sk_buff) list \<Rightarrow> bool" where
  "g_holds K ctx eth ver mux s gs g \<longleftrightarrow> carries ctx (g_enc eth ver mux) s gs g
     \<and> dev_cfg s = (eth, ver, mux, 0, False) \<and> ver \<in> {5, 9} \<and> ctx_ok ctx \<and> alloc_spec K"

definition g_send :: "kernel \<Rightarrow> tx_agg_ctx \<Rightarrow> bool \<times> sk_buff \<Rightarrow> qmap_tx \<Rightarrow> qmap_tx option" where
  "g_send K ctx = (\<lambda>(xm, b) s. map_option snd (qmap_start_xmit K ctx xm b s))"

lemma ether_to_ip_fixup_fields:
  assumes "ether_to_ip_fixup K b = Some b'"
  shows "skb_data b' = drop 14 (skb_data b)" "skb_tail b' = skb_tail b"
    "skb_headroom b' = skb_headroom b + 14"
  using assms by (auto simp: ether_to_ip_fixup_def Let_def skb_pull_def split: if_splits)

lemma gobi_header_frame:
  assumes "skb_len b < 65536" "8 \<le> skb_headroom b"
  shows "\<exists>b'. (if ver = 9 then gobi_add_qhdr_v5 else gobi_add_qhdr) b mux = Some b'
    \<and> skb_data b' = qmap_frame ver mux (skb_data b) (take (pad_for (skb_len b) b) (skb_tail b))
    \<and> skb_len b' \<le> skb_len b + 11"
  using assms pad_for_le [of "skb_len b" b]
  by (auto simp: gobi_add_qhdr_def gobi_add_qhdr_v5_def skb_put_pad skb_push_data_def qmap_frame_def
      Let_def min_absorb2)

lemma g_send_eq:
  assumes "dev_cfg s = (eth, ver, mux, 0, False)" "ver = 5 \<or> ver = 9"
    "(if eth then ether_to_ip_fixup K b else Some b) = Some b1"
    "(if ver = 9 then gobi_add_qhdr_v5 else gobi_add_qhdr) b1 mux = Some b'"
  shows "g_send K ctx (xm, b) s = gobi_tx_agg K ctx xm b' s"
  using assms
  by (auto simp: g_send_def qmap_start_xmit_def dev_cfg_def Let_def split: if_splits)

lemma g_send_holds:
  assumes H: "g_holds K ctx eth ver mux s gs g" and T: "g_takes K ctx eth p"
  shows "\<exists>s' gs' g'. g_send K ctx p s = Some s' \<and> g_holds K ctx eth ver mux s' gs' g'
    \<and> (concat gs' @ g' = concat gs @ g @ [p]
       \<or> \<not> (\<forall>n. alloc_ok K n) \<and> concat gs' @ g' = concat gs @ g)"
proof -
  obtain xm b where p: "p = (xm, b)" by (cases p)
  from H have h: "carries ctx (g_enc eth ver mux) s gs g" "ctx_ok ctx" "alloc_spec K" "tx_ok ctx s"
    and cfg: "dev_cfg s = (eth, ver, mux, 0, False)" and v: "ver = 5 \<or> ver = 9"
    by (auto simp: g_holds_def carries_def)
  from T p have t: "skb_len b < 65536" "fits ctx (skb_len b + 11)" by (auto simp: g_takes_def)
  obtain b1 where b1: "(if eth then ether_to_ip_fixup K b else Some b) = Some b1"
    using T p by (auto simp: g_takes_def split: if_splits)
  have b2: "skb_data b1 = drop (ip_off eth) (skb_data b)" "skb_tail b1 = skb_tail b"
    "8 \<le> skb_headroom b1"
    using T p b1 by (auto simp: g_takes_def ip_off_def ether_to_ip_fixup_fields split: if_splits)
  have l1: "skb_len b1 \<le> skb_len b" "skb_len b1 < 65536" using b2(1) t(1) by simp_all
  obtain b' where a: "(if ver = 9 then gobi_add_qhdr_v5 else gobi_add_qhdr) b1 mux = Some b'"
    "skb_data b' = qmap_frame ver mux (skb_data b1) (take (pad_for (skb_len b1) b1) (skb_tail b1))"
    "skb_len b' \<le> skb_len b1 + 11"
    using gobi_header_frame [OF l1(2) b2(3), of ver mux] by blast
  have d: "skb_data b' = g_enc eth ver mux p"
    using a(2) b2(1,2) p by (simp add: g_enc_def Let_def pad_for_def)
  have f: "fits ctx (skb_len b')" using t(2) a(3) l1(1) by (auto intro: fits_mono)
  have "call_refines K ctx (g_enc eth ver mux p) s (g_send K ctx p s)"
    using gobi_tx_agg_refines [OF h(2,4,3) f, of xm] d g_send_eq [OF cfg v b1 a(1)] p by simp
  from call_carries [OF h(1) this h(2)] show ?thesis
    using H by (force simp: g_holds_def)
qed

interpretation gobi: uplink "g_holds K ctx eth ver mux" "g_send K ctx" "rmnet_usb_tx_agg_work K"
    "g_takes K ctx eth" "\<forall>n. alloc_ok K n" for K ctx eth ver mux
proof
  show "\<exists>s' gs' g'. g_send K ctx p s = Some s' \<and> g_holds K ctx eth ver mux s' gs' g'
    \<and> (concat gs' @ g' = concat gs @ g @ [p]
       \<or> \<not> (\<forall>n. alloc_ok K n) \<and> concat gs' @ g' = concat gs @ g)"
    if "g_holds K ctx eth ver mux s gs g" "g_takes K ctx eth p" for s gs g p
    using g_send_holds [OF that] .
  show "\<exists>gs'. g_holds K ctx eth ver mux (rmnet_usb_tx_agg_work K s) gs' [] \<and> concat gs' = concat gs @ g"
    if "g_holds K ctx eth ver mux s gs g" for s gs g
    using work_carries [of ctx "g_enc eth ver mux" s gs g K] that by (force simp: g_holds_def)
qed

section \<open>The transmitter and the work item together\<close>

text \<open>
  \<^verbatim>\<open>agg_lock\<close> protects the critical sections only: both threads give their frame to
  \<^verbatim>\<open>dev_queue_xmit\<close> after the unlock. A packet is its \<open>xmit_more\<close> flag, buffer, header and
  \<open>ip_offset\<close>. The transmitter is idle, has a frame to send (with the packet it then comes back
  to), or is about to lock again; the work item has a frame to send or not.
\<close>

type_synonym agg_packet = "bool \<times> sk_buff \<times> u8 list \<times> nat"

datatype tx_pc = Idle | Held "sk_buff option" "agg_packet option" | Retry agg_packet

inductive agg_step :: "kernel \<Rightarrow> tx_agg_ctx \<Rightarrow> qmap_tx \<times> tx_pc \<times> sk_buff option \<Rightarrow>
    agg_packet list \<Rightarrow> qmap_tx \<times> tx_pc \<times> sk_buff option \<Rightarrow> bool"
  for K ctx where
  Lock: "agg_pass K ctx m b hdr off s = Some (s', b', f) \<Longrightarrow>
    agg_step K ctx (s, Idle, w) [(m, b, hdr, off)]
      (s', Held f (map_option (\<lambda>b. (m, b, hdr, off)) b'), w)"
| Xmit: "agg_step K ctx (s, Held f None, w) [] (xmit_frame K f s, Idle, w)"
| XmitMore: "agg_step K ctx (s, Held f (Some p), w) [] (xmit_frame K f s, Retry p, w)"
| Relock: "agg_pass K ctx m b hdr off s = Some (s', b', f) \<Longrightarrow>
    agg_step K ctx (s, Retry (m, b, hdr, off), w) []
      (s', Held f (map_option (\<lambda>b. (m, b, hdr, off)) b'), w)"
| Take: "agg_work_take K s = (s', w) \<Longrightarrow> agg_step K ctx (s, t, None) [] (s', t, w)"
| Send: "agg_step K ctx (s, t, Some f) [] (xmit_frame K (Some f) s, t, None)"

inductive agg_run :: "kernel \<Rightarrow> tx_agg_ctx \<Rightarrow> qmap_tx \<times> tx_pc \<times> sk_buff option \<Rightarrow>
    agg_packet list \<Rightarrow> qmap_tx \<times> tx_pc \<times> sk_buff option \<Rightarrow> bool"
  for K ctx c where
  Start: "agg_run K ctx c [] c"
| Step: "agg_run K ctx c ps c' \<Longrightarrow> agg_step K ctx c' qs c'' \<Longrightarrow> agg_run K ctx c (ps @ qs) c''"

definition packet_enc :: "agg_packet \<Rightarrow> u8 list" where
  "packet_enc p = (case p of (m, b, hdr, off) \<Rightarrow> hdr @ drop off (skb_data b))"

definition packet_fits :: "tx_agg_ctx \<Rightarrow> agg_packet \<Rightarrow> bool" where
  "packet_fits ctx p = (case p of (m, b, hdr, off) \<Rightarrow> off \<le> skb_len b
     \<and> skb_len b + length hdr \<le> unat (ul_data_aggregation_max_size ctx))"

definition held_frame :: "tx_agg_ctx \<Rightarrow> sk_buff option \<Rightarrow> agg_packet list \<Rightarrow> bool" where
  "held_frame ctx f g = (case f of None \<Rightarrow> g = []
     | Some b \<Rightarrow> skb_data b = pack packet_enc g \<and> group_ok ctx packet_enc g)"

primrec pc_holds :: "tx_agg_ctx \<Rightarrow> tx_pc \<Rightarrow> agg_packet list \<Rightarrow> agg_packet list \<Rightarrow> bool" where
  "pc_holds ctx Idle g r = (g = [] \<and> r = [])"
| "pc_holds ctx (Held f p) g r = (held_frame ctx f g \<and> r = (case p of None \<Rightarrow> [] | Some p \<Rightarrow> [p]))"
| "pc_holds ctx (Retry p) g r = (g = [] \<and> r = [p])"

text \<open>The packets taken so far are those sent, pending, and held by either thread.\<close>

definition conserved :: "tx_agg_ctx \<Rightarrow> qmap_tx \<times> tx_pc \<times> sk_buff option \<Rightarrow> agg_packet list \<Rightarrow> bool" where
  "conserved ctx c ps \<longleftrightarrow> (case c of (s, t, w) \<Rightarrow> \<exists>gs g gt r gw.
     carries ctx packet_enc s gs g \<and> pc_holds ctx t gt r \<and> held_frame ctx w gw
     \<and> (\<forall>p \<in> set r. packet_fits ctx p)
     \<and> mset (concat gs) + mset g + mset gt + mset r + mset gw = mset ps)"

lemma pass_conserves:
  assumes C: "carries ctx packet_enc s gs g" and ctx: "ctx_ok ctx"
      "ul_data_aggregation_max_datagrams ctx \<noteq> 1" and A: "alloc_spec K" "\<forall>n. alloc_ok K n"
    and F: "packet_fits ctx (m, b, hdr, off)"
    and P: "agg_pass K ctx m b hdr off s = Some (s', b', f)"
  shows "\<exists>g' gt. carries ctx packet_enc s' gs g'
    \<and> pc_holds ctx (Held f (map_option (\<lambda>b. (m, b, hdr, off)) b')) gt
        (case b' of None \<Rightarrow> [] | Some _ \<Rightarrow> [(m, b, hdr, off)])
    \<and> gt @ g' = g @ (case b' of None \<Rightarrow> [(m, b, hdr, off)] | Some _ \<Rightarrow> [])"
proof -
  let ?p = "(m, b, hdr, off)"
  have I: "tx_ok ctx s" using C by (simp add: carries_def)
  have off: "off \<le> skb_len b" "skb_len b + length hdr \<le> unat (ul_data_aggregation_max_size ctx)"
    using F by (simp_all add: packet_fits_def)
  have r: "pass_refines K ctx (packet_enc ?p) b s (Some (s', b', f))"
    using agg_pass_refines [OF ctx I A(1) off, of m] P by (simp add: packet_enc_def)
  have b': "b' = None \<or> b' = Some b" and s': "tx_ok ctx s'" "sent s' = sent s"
    using r by (simp_all add: pass_refines_Some)
  have G: "group_ok ctx packet_enc g" using C by (simp add: carries_def)
  have st: "pass_step (unat (ul_data_aggregation_max_size ctx))
      (unat (ul_data_aggregation_max_datagrams ctx)) True (packet_enc ?p)
      (if g = [] then None else Some (pack packet_enc g, length g))
      (tx_pending s') (map_option skb_data f) (b' \<noteq> None)"
    using r C A(2) by (simp add: pass_refines_Some carries_def)
  obtain gs' g' where g: "frames (map_option skb_data f) = map (pack packet_enc) gs'"
    "tx_pending s' = (if g' = [] then None else Some (pack packet_enc g', length g'))"
    "\<forall>h \<in> set gs'. group_ok ctx packet_enc h" "group_ok ctx packet_enc g'"
    "concat gs' @ g' = (if b' \<noteq> None then g else g @ [?p])"
    using pass_step_groups [OF st G ctx(1)] by blast
  have h: "held_frame ctx f (concat gs')"
    using g(1,3) by (cases f) (auto simp: held_frame_def map_eq_Cons_conv frames_def)
  have c: "carries ctx packet_enc s' gs g'"
    using C s' g(2,4) by (simp add: carries_def)
  show ?thesis
    using h c g(5) b' by (intro exI [of _ g'] exI [of _ "concat gs'"]) (auto split: option.splits)
qed

lemma frame_sent:
  assumes "carries ctx packet_enc s gs g" "held_frame ctx f gf"
  shows "\<exists>gs'. carries ctx packet_enc (xmit_frame K f s) gs' g \<and> concat gs' = concat gs @ gf"
proof (cases f)
  case None
  then show ?thesis using assms by (auto simp: held_frame_def xmit_frame_def)
next
  case (Some b)
  then show ?thesis
    using assms by (intro exI [of _ "gs @ [gf]"]) (auto simp: held_frame_def carries_def)
qed

lemma take_conserves:
  assumes C: "carries ctx packet_enc s gs g" and T: "agg_work_take K s = (s', w)"
  shows "carries ctx packet_enc s' gs [] \<and> held_frame ctx w g"
proof (cases "agg_skb s")
  case None
  then show ?thesis
    using assms by (auto simp: agg_work_take_def carries_def tx_pending_def held_frame_def split: if_splits)
next
  case (Some a)
  then show ?thesis
    using assms by (auto simp: agg_work_take_def carries_def tx_pending_def held_frame_def tx_ok_def
        group_ok_def split: if_splits)
qed

lemma conservedI:
  assumes "carries ctx packet_enc s gs g" "pc_holds ctx t gt r" "held_frame ctx w gw"
    "\<forall>p \<in> set r. packet_fits ctx p"
    "mset (concat gs) + mset g + mset gt + mset r + mset gw = mset ps"
  shows "conserved ctx (s, t, w) ps"
  unfolding conserved_def split using assms by blast

lemma locked_conserves:
  assumes C: "carries ctx packet_enc s gs g" and W: "held_frame ctx w gw"
    and ctx: "ctx_ok ctx" "ul_data_aggregation_max_datagrams ctx \<noteq> 1"
    and A: "alloc_spec K" "\<forall>n. alloc_ok K n" and F: "packet_fits ctx (m, b, hdr, off)"
    and P: "agg_pass K ctx m b hdr off s = Some (s', b', f)"
    and M: "mset (concat gs) + mset g + mset gw + {#(m, b, hdr, off)#} = mset ps"
  shows "conserved ctx (s', Held f (map_option (\<lambda>b. (m, b, hdr, off)) b'), w) ps"
proof -
  obtain g' gt where o: "carries ctx packet_enc s' gs g'"
    "pc_holds ctx (Held f (map_option (\<lambda>b. (m, b, hdr, off)) b')) gt
        (case b' of None \<Rightarrow> [] | Some _ \<Rightarrow> [(m, b, hdr, off)])"
    "gt @ g' = g @ (case b' of None \<Rightarrow> [(m, b, hdr, off)] | Some _ \<Rightarrow> [])"
    using pass_conserves [OF C ctx A F P] by blast
  have m: "mset gt + mset g' = mset g + mset (case b' of None \<Rightarrow> [(m, b, hdr, off)] | Some _ \<Rightarrow> [])"
    using o(3) by (metis mset_append)
  show ?thesis
  proof (rule conservedI [OF o(1,2) W])
    show "\<forall>p \<in> set (case b' of None \<Rightarrow> [] | Some _ \<Rightarrow> [(m, b, hdr, off)]). packet_fits ctx p"
      using F by (simp split: option.split)
    show "mset (concat gs) + mset g' + mset gt
        + mset (case b' of None \<Rightarrow> [] | Some _ \<Rightarrow> [(m, b, hdr, off)]) + mset gw = mset ps"
      unfolding M [symmetric] using m by (cases b') (simp_all add: ac_simps)
  qed
qed

lemma agg_step_conserves:
  assumes "agg_step K ctx c qs c'" "conserved ctx c ps" "\<forall>p \<in> set qs. packet_fits ctx p"
    and ctx: "ctx_ok ctx" "ul_data_aggregation_max_datagrams ctx \<noteq> 1"
    and A: "alloc_spec K" "\<forall>n. alloc_ok K n"
  shows "conserved ctx c' (ps @ qs)"
proof -
  obtain s t w where c: "c = (s, t, w)" by (cases c)
  obtain gs g gt r gw where i: "carries ctx packet_enc s gs g" "pc_holds ctx t gt r"
    "held_frame ctx w gw" "\<forall>p \<in> set r. packet_fits ctx p"
    and M: "mset (concat gs) + mset g + mset gt + mset r + mset gw = mset ps"
    using assms(2) unfolding c conserved_def split by blast
  from assms(1)[unfolded c] show ?thesis
  proof cases
    case (Lock m b hdr off s' b' f)
    then show ?thesis
      using i M assms(3) by (auto intro!: locked_conserves [OF i(1,3) ctx A])
  next
    case (Xmit f)
    then obtain gs' where "carries ctx packet_enc (xmit_frame K f s) gs' g" "concat gs' = concat gs @ gt"
      using frame_sent [OF i(1), of f gt K] i(2) by auto
    then show ?thesis using Xmit i M by (auto intro!: conservedI [where r = "[]" and gt = "[]"] simp: ac_simps)
  next
    case (XmitMore f p)
    then obtain gs' where "carries ctx packet_enc (xmit_frame K f s) gs' g" "concat gs' = concat gs @ gt"
      using frame_sent [OF i(1), of f gt K] i(2) by auto
    then show ?thesis
      using XmitMore i M by (auto intro!: conservedI [where r = "[p]" and gt = "[]"] simp: ac_simps)
  next
    case (Relock m b hdr off s' b' f)
    then show ?thesis
      using i M by (auto intro!: locked_conserves [OF i(1,3) ctx A] simp: ac_simps)
  next
    case (Take s' w')
    then have "carries ctx packet_enc s' gs []" "held_frame ctx w' g" "gw = []"
      using take_conserves [OF i(1)] i(3) by (auto simp: held_frame_def)
    then show ?thesis using Take i(2,4) M by (auto intro!: conservedI simp: ac_simps)
  next
    case (Send f)
    then obtain gs' where "carries ctx packet_enc (xmit_frame K (Some f) s) gs' g"
      "concat gs' = concat gs @ gw"
      using frame_sent [OF i(1), of "Some f" gw K] i(3) by auto
    moreover have "held_frame ctx None []" by (simp add: held_frame_def)
    ultimately show ?thesis
      using Send i(2,4) M by (auto intro!: conservedI [where gw = "[]"] simp: ac_simps)
  qed
qed

lemma agg_run_conserves:
  assumes run: "agg_run K ctx (s, Idle, None) ps c" and start: "agg_skb s = None" "agg_count s = 0" "sent s = []"
    and fit: "\<forall>p \<in> set ps. packet_fits ctx p"
    and ctx: "ctx_ok ctx" "ul_data_aggregation_max_datagrams ctx \<noteq> 1"
    and A: "alloc_spec K" "\<forall>n. alloc_ok K n"
  shows "conserved ctx c ps"
  using run fit
proof induction
  case Start
  have "carries ctx packet_enc s [] []"
    using start by (simp add: carries_def tx_ok_def tx_pending_def group_ok_def)
  then show ?case by (rule conservedI) (simp_all add: held_frame_def)
next
  case (Step ps c' qs c'')
  then show ?case using agg_step_conserves [OF Step.hyps(2) _ _ ctx A] by simp
qed

lemma length_qmap_frame:
  "length (qmap_frame ver mux pkt pad) = (if ver = 9 then 8 else 4) + length pkt + length pad"
  by (simp add: qmap_frame_def)

definition packet_of :: "bool \<Rightarrow> bool \<times> sk_buff \<Rightarrow> u8 list" where
  "packet_of eth p = drop (ip_off eth) (skb_data (snd p))"

lemma enc_frames:
  "\<exists>pad. q_enc eth ver mux p = qmap_frame ver mux (packet_of eth p) pad \<and> length pad < 4"
  "\<exists>pad. g_enc eth ver mux p = qmap_frame ver mux (packet_of eth p) pad \<and> length pad < 4"
  using pad_for_le
  by (auto simp: q_enc_def g_enc_def packet_of_def Let_def split: prod.split
      intro!: exI min.strict_coboundedI2)

lemma q_enc_length: "length (q_enc eth ver mux p) \<le> skb_len (snd p) + 11"
proof -
  obtain pad where e: "q_enc eth ver mux p = qmap_frame ver mux (packet_of eth p) pad" "length pad < 4"
    using enc_frames(1) by blast
  show ?thesis using e(2) unfolding e(1) length_qmap_frame packet_of_def length_drop by (cases "ver = 9") simp_all
qed

lemma subseq_set: "subseq xs ys \<Longrightarrow> set xs \<subseteq> set ys"
  by (auto elim: list_emb_set)

section \<open>Witness data\<close>

text \<open>A kernel whose allocations succeed and whose clock jumps after two readings.\<close>

definition demo_kernel :: kernel where
  "demo_kernel = \<lparr>alloc_ok = \<lambda>_. True, alloc_room = \<lambda>n. replicate n 0,
     ktime = \<lambda>n. if n < 2 then \<lparr>tv_sec = 0, tv_nsec = 0\<rparr> else \<lparr>tv_sec = 20, tv_nsec = 0\<rparr>,
     xmit_ret = \<lambda>_. 0, beyond = \<lambda>_. 0, agg_time_limit = 1000000, agg_bypass_time = 10000000\<rparr>"

definition demo_ctx :: tx_agg_ctx where
  "demo_ctx = \<lparr>ul_data_aggregation_max_datagrams = 10, ul_data_aggregation_max_size = 4096,
     dl_minimum_padding = 0\<rparr>"

definition demo_tx :: qmap_tx where
  "demo_tx = \<lparr>ether = False, mtu = 1500, dev_addr = replicate 6 2, stopped = False, tx_packets = 0,
     tx_bytes = 0, tx_errors = 0, mux_id = 0x81, qmap_version = 5, agg_skb = None, agg_count = 0,
     agg_time = \<lparr>tv_sec = 0, tv_nsec = 0\<rparr>, agg_hrtimer = False, agg_wq = False, bridge_mode = 0,
     bridge_ipv4 = 0, bridge_mac = replicate 6 0, sent = [], real_stopped = False,
     arp_replies = [], allocs = 0, ticks = 0\<rparr>"

text \<open>An IPv4 packet of a header and two bytes; two bytes of room for padding.\<close>

definition demo_skb :: sk_buff where
  "demo_skb = \<lparr>skb_data = 0x45 # replicate 21 7, skb_tail = [0, 0], skb_headroom = 16,
     skb_protocol = 0x0800, skb_network = 0\<rparr>"

lemmas demo_defs = demo_kernel_def demo_ctx_def demo_tx_def demo_skb_def

lemma demo_kernel_facts [simp]: "alloc_spec demo_kernel" "alloc_ok demo_kernel n"
  by (simp_all add: demo_kernel_def alloc_spec_def)

lemma demo_ctx_ok [simp]: "ctx_ok demo_ctx" "ul_data_aggregation_max_datagrams demo_ctx \<noteq> 1"
  by (simp_all add: ctx_ok_def demo_ctx_def)

lemma demo_holds: "q_holds demo_kernel demo_ctx False 5 0x81 demo_tx [] []"
    "g_holds demo_kernel demo_ctx False 5 0x81 demo_tx [] []"
  by (simp_all add: q_holds_def g_holds_def carries_def tx_ok_def tx_pending_def group_ok_def
      dev_cfg_def demo_tx_def)

lemma demo_takes: "q_takes demo_ctx False (xm, demo_skb)" "g_takes demo_kernel demo_ctx False (xm, demo_skb)"
  by (simp_all add: q_takes_def g_takes_def fits_def ip_off_def demo_defs)

section \<open>Properties\<close>

text \<open>
  C15. Frames within the limits of the modem. Whatever packets that fit are sent through a
  multiplexed device of \<^verbatim>\<open>qmi_wwan_q\<close>, in any mix with runs of the work item and whichever
  allocations fail, no buffer overflows, every frame given to the real device is a sequence of
  whole QMAP packets no longer than the agreed size and with no more packets than agreed, and the
  packets sent and pending are, in order, a subsequence of those handed over.
\<close>

theorem frames_within_limits:
  assumes H: "q_holds K ctx eth ver mux s [] []" and T: "\<forall>p \<in> set (sends xs). q_takes ctx eth p"
    and D: "ul_data_aggregation_max_datagrams ctx \<noteq> 1"
  shows "\<exists>s' gs g ps. tx_run (q_send K ctx) (rmnet_usb_tx_agg_work K) xs s = Some s'
    \<and> sent s' = map (pack (q_enc eth ver mux)) gs
    \<and> (\<forall>f \<in> set (sent s'). length f \<le> unat (ul_data_aggregation_max_size ctx))
    \<and> (\<forall>h \<in> set gs. length h \<le> unat (ul_data_aggregation_max_datagrams ctx))
    \<and> concat gs @ g = ps \<and> subseq ps (sends xs)"
proof -
  obtain s' gs g ps where r: "tx_run (q_send K ctx) (rmnet_usb_tx_agg_work K) xs s = Some s'"
    "q_holds K ctx eth ver mux s' gs g" "concat gs @ g = ps" "subseq ps (sends xs)"
    using qmi.run_keeps_order [OF H T] by auto
  have c: "sent s' = map (pack (q_enc eth ver mux)) gs" "\<forall>h \<in> set gs. group_ok ctx (q_enc eth ver mux) h"
    using r(2) by (simp_all add: q_holds_def carries_def)
  have "length (pack (q_enc eth ver mux) h) \<le> unat (ul_data_aggregation_max_size ctx)"
    if "h \<in> set gs" for h
  proof (cases "1 < length h")
    case True
    then show ?thesis using c(2) that by (auto simp: group_ok_def)
  next
    case False
    then consider "h = []" | p where "h = [p]" by (cases h) auto
    then show ?thesis
    proof cases
      case 2
      then have "p \<in> set (concat gs @ g)" using that by force
      then have "p \<in> set (sends xs)" using r(3) subseq_set [OF r(4)] by auto
      then have "q_takes ctx eth p" using T by blast
      then show ?thesis
        using 2 D q_enc_length [of eth ver mux p]
        by (cases p) (auto simp: q_takes_def fits_def)
    qed simp
  qed
  then show ?thesis using r c by (auto simp: group_ok_def)
qed

theorem frames_within_limits_witness:
  "\<exists>s' gs g ps. tx_run (q_send demo_kernel demo_ctx) (rmnet_usb_tx_agg_work demo_kernel)
      [Send (True, demo_skb), Send (True, demo_skb), Work] demo_tx = Some s'
    \<and> sent s' = map (pack (q_enc False 5 0x81)) gs
    \<and> (\<forall>f \<in> set (sent s'). length f \<le> unat (ul_data_aggregation_max_size demo_ctx))
    \<and> (\<forall>h \<in> set gs. length h \<le> unat (ul_data_aggregation_max_datagrams demo_ctx))
    \<and> concat gs @ g = ps
    \<and> subseq ps (sends [Send (True, demo_skb), Send (True, demo_skb), Work])"
  by (rule frames_within_limits [OF demo_holds(1)]) (simp_all add: demo_takes)

text \<open>
  C16. The two threads lose nothing. In every interleaving of a transmitter and the work item, both
  of which send their frame after releasing the lock, from a fresh device to a moment when both
  are idle and nothing is pending: the frames sent are made of exactly the packets taken, each as
  often as it was taken.
\<close>

theorem interleavings_conserve:
  assumes "agg_run K ctx (s, Idle, None) ps (s', Idle, None)"
    and "agg_skb s = None" "agg_count s = 0" "sent s = []" "agg_skb s' = None"
    and "\<forall>p \<in> set ps. packet_fits ctx p" "ctx_ok ctx" "ul_data_aggregation_max_datagrams ctx \<noteq> 1"
    and "alloc_spec K" "\<forall>n. alloc_ok K n"
  shows "\<exists>gs. sent s' = map (pack packet_enc) gs \<and> mset (concat gs) = mset ps"
proof -
  have "conserved ctx (s', Idle, None) ps"
    using assms agg_run_conserves [OF assms(1-4)] by blast
  then show ?thesis
    using assms(5) by (force simp: conserved_def held_frame_def carries_def tx_pending_def
        split: if_splits)
qed

lemma work_overtaken:
  assumes "agg_pass K ctx m1 b1 h1 off s = Some (s1, None, None)" "agg_skb s1 = Some a"
    "agg_pass K ctx m2 b2 h2 off (fst (agg_work_take K s1)) = Some (s2, None, Some f)"
  shows "\<exists>s3. agg_run K ctx (s, Idle, None) [(m1, b1, h1, off), (m2, b2, h2, off)] (s3, Idle, None)
    \<and> sent s3 = sent s2 @ [skb_data f, skb_data a] \<and> agg_skb s3 = agg_skb s2"
proof -
  let ?p1 = "(m1, b1, h1, off)" and ?p2 = "(m2, b2, h2, off)"
  let ?w = "snd (agg_work_take K s1)"
  have w: "?w = Some (a\<lparr>skb_protocol := ETH_P_MAP\<rparr>)" using assms(2) by (simp add: agg_work_take_def)
  note step = agg_run.Step [of K ctx "(s, Idle, None)"]
  have 1: "agg_run K ctx (s, Idle, None) ([] @ [?p1]) (s1, Held None None, None)"
    by (rule step [OF agg_run.Start]) (use agg_step.Lock [OF assms(1), of None] in simp)
  have 2: "agg_run K ctx (s, Idle, None) (([] @ [?p1]) @ []) (s1, Idle, None)"
    by (rule step [OF 1]) (use agg_step.Xmit [of K ctx s1 None None] in \<open>simp add: xmit_frame_def\<close>)
  have 3: "agg_run K ctx (s, Idle, None) ((([] @ [?p1]) @ []) @ []) (fst (agg_work_take K s1), Idle, ?w)"
    by (rule step [OF 2]) (rule agg_step.Take, simp)
  have 4: "agg_run K ctx (s, Idle, None) (((([] @ [?p1]) @ []) @ []) @ [?p2]) (s2, Held (Some f) None, ?w)"
    by (rule step [OF 3]) (use agg_step.Lock [OF assms(3), of ?w] in simp)
  have 5: "agg_run K ctx (s, Idle, None) ((((([] @ [?p1]) @ []) @ []) @ [?p2]) @ [])
      (xmit_frame K (Some f) s2, Idle, ?w)"
    by (rule step [OF 4]) (rule agg_step.Xmit)
  have 6: "agg_run K ctx (s, Idle, None) (((((([] @ [?p1]) @ []) @ []) @ [?p2]) @ []) @ [])
      (xmit_frame K (Some (a\<lparr>skb_protocol := ETH_P_MAP\<rparr>)) (xmit_frame K (Some f) s2), Idle, None)"
    by (rule step [OF 5]) (simp only: w agg_step.Send)
  show ?thesis using 6 by (intro exI conjI) (simp, simp, simp)
qed

lemma overtaking_run:
  assumes s: "agg_skb s = None" and A: "alloc_spec K" "\<forall>n. alloc_ok K n"
    and p1: "packet_fits ctx (True, b1, h1, off)"
      "\<not> late (timespec64_sub (ktime K (ticks s)) (agg_time s)) (agg_bypass_time K)"
    and p2: "packet_fits ctx (m, b2, h2, off)"
      "late (timespec64_sub (ktime K (ticks s + 2)) (ktime K (ticks s + 1))) (agg_bypass_time K)"
  shows "\<exists>s'. agg_run K ctx (s, Idle, None) [(True, b1, h1, off), (m, b2, h2, off)] (s', Idle, None)
    \<and> sent s' = sent s @ [packet_enc (m, b2, h2, off), packet_enc (True, b1, h1, off)]
    \<and> agg_skb s' = None"
proof -
  let ?M = "unat (ul_data_aggregation_max_size ctx)"
  let ?a = "(new_skb K ?M)\<lparr>skb_data := h1 @ drop off (skb_data b1),
      skb_tail := drop (length h1 + (skb_len b1 - off)) (alloc_room K ?M)\<rparr>"
  let ?f = "(new_skb K (skb_len b2 + length h2))\<lparr>skb_data := h2 @ drop off (skb_data b2),
      skb_tail := drop (length h2 + (skb_len b2 - off)) (alloc_room K (skb_len b2 + length h2))\<rparr>"
  have o: "off \<le> skb_len b1" "skb_len b1 + length h1 \<le> ?M" "off \<le> skb_len b2"
    using p1 p2 by (simp_all add: packet_fits_def)
  note put1 = put_packet_new [OF A(1) o(1,2)] and put2 = put_packet_new [OF A(1) o(3) order_refl]
  obtain s1 where 1: "agg_pass K ctx True b1 h1 off s = Some (s1, None, None)" "agg_skb s1 = Some ?a"
    "sent s1 = sent s" "ticks s1 = ticks s + 1"
    using s A(2) p1(2) put1 by (simp add: agg_pass_def agg_urgent_def alloc_skb_def)
  obtain s2 where 2: "agg_pass K ctx m b2 h2 off (fst (agg_work_take K s1)) = Some (s2, None, Some ?f)"
    "sent s2 = sent s" "agg_skb s2 = None"
    using 1 A(2) p2(2) put2 by (simp add: agg_pass_def alloc_skb_def agg_work_take_def)
  from work_overtaken [OF 1(1,2) 2(1)] show ?thesis
    using 2(2,3) by (auto simp: packet_enc_def)
qed

text \<open>
  C31. The two threads can change the order. A packet joins the aggregate, the work item takes the
  aggregate and releases the lock, a later packet is sent alone because the device was quiet, and
  only then the work item sends: the later packet is in front.
\<close>

theorem agg_work_reorders:
  assumes s: "agg_skb s = None" and A: "alloc_spec K" "\<forall>n. alloc_ok K n"
    and p1: "packet_fits ctx (True, b1, h1, off)"
      "\<not> late (timespec64_sub (ktime K (ticks s)) (agg_time s)) (agg_bypass_time K)"
    and p2: "packet_fits ctx (m, b2, h2, off)"
      "late (timespec64_sub (ktime K (ticks s + 2)) (ktime K (ticks s + 1))) (agg_bypass_time K)"
  shows "\<exists>s'. agg_run K ctx (s, Idle, None) [(True, b1, h1, off), (m, b2, h2, off)] (s', Idle, None)
    \<and> sent s' = sent s @ [packet_enc (m, b2, h2, off), packet_enc (True, b1, h1, off)]"
  using overtaking_run [OF assms] by blast

theorem agg_work_reorders_witness:
  "\<exists>s'. agg_run demo_kernel demo_ctx (demo_tx, Idle, None)
      [(True, demo_skb, [1, 0x81, 0, 22], 0), (False, demo_skb, [2, 0x81, 0, 22], 0)] (s', Idle, None)
    \<and> sent s' = sent demo_tx @ [packet_enc (False, demo_skb, [2, 0x81, 0, 22], 0),
        packet_enc (True, demo_skb, [1, 0x81, 0, 22], 0)]"
  by (rule agg_work_reorders)
    (simp_all add: packet_fits_def late_def timespec64_sub_def demo_defs alloc_spec_def)

theorem interleavings_conserve_witness:
  "\<exists>s' gs. agg_run demo_kernel demo_ctx (demo_tx, Idle, None)
      [(True, demo_skb, [1, 0x81, 0, 22], 0), (False, demo_skb, [2, 0x81, 0, 22], 0)] (s', Idle, None)
    \<and> sent s' = map (pack packet_enc) gs
    \<and> mset (concat gs) = mset [(True, demo_skb, [1, 0x81, 0, 22], 0), (False, demo_skb, [2, 0x81, 0, 22], 0)]"
proof -
  obtain s' where r: "agg_run demo_kernel demo_ctx (demo_tx, Idle, None)
      [(True, demo_skb, [1, 0x81, 0, 22], 0), (False, demo_skb, [2, 0x81, 0, 22], 0)] (s', Idle, None)"
    and a: "agg_skb s' = None"
    using overtaking_run [of demo_tx demo_kernel demo_ctx demo_skb "[1, 0x81, 0, 22]" 0 False demo_skb
        "[2, 0x81, 0, 22]"]
    by (auto simp: packet_fits_def late_def timespec64_sub_def demo_defs alloc_spec_def)
  have "\<exists>gs. sent s' = map (pack packet_enc) gs
    \<and> mset (concat gs) = mset [(True, demo_skb, [1, 0x81, 0, 22], 0), (False, demo_skb, [2, 0x81, 0, 22], 0)]"
    by (rule interleavings_conserve [OF r _ _ _ a])
      (simp_all add: packet_fits_def demo_tx_def demo_skb_def demo_ctx_def ctx_ok_def)
  with r show ?thesis by blast
qed

section \<open>Limits of the implementation\<close>

text \<open>
  An Ethernet device with QMAPv1 never recognises an urgent IPv4 packet: the header is kept apart,
  so the offset of the header leads to the type field of the Ethernet header instead of the
  protocol of the IP header.
\<close>

theorem urgent_missed:
  assumes "skb_protocol b = ETH_P_IP" "peek16 K b 12 = ETH_P_IP" "\<not> bit first 6"
  shows "\<not> agg_urgent K xm first b"
proof -
  have "peek K b 13 = ucast (peek16 K b 12)"
    by (rule bit_word_eqI) (auto simp: peek16_def of_le16_def bit_simps)
  then have "peek K b 13 = 0" using assms(2) by simp
  then show ?thesis using assms by (simp add: agg_urgent_def rmnet_usb_tx_agg_skip_def)
qed

text \<open>
  The first packet of an aggregate is copied without a test against the size of the aggregate: a
  packet longer than the room of the allocation is a panic. \<^verbatim>\<open>qma_setting_store\<close> accepts any size.
\<close>

theorem first_packet_overruns:
  assumes "agg_skb s = None" "alloc_ok K (allocs s)"
    and "\<not> late (timespec64_sub (ktime K (ticks s)) (agg_time s)) (agg_bypass_time K)"
    and "\<not> agg_urgent K xm (hdr ! 0) b" and "off \<le> skb_len b"
    and "ul_data_aggregation_max_datagrams ctx \<noteq> 1"
    and "length (alloc_room K (unat (ul_data_aggregation_max_size ctx)))
      < length hdr + (skb_len b - off)"
  shows "rmnet_usb_tx_agg K ctx xm b hdr off s = None"
  using assms
  by (subst rmnet_usb_tx_agg_def, subst agg_loop.simps)
    (auto simp: agg_pass_def alloc_skb_def put_packet_def skb_put_data_def new_skb_def)

end
