(* ===== verification/Qmap_Rx.thy ===== *)
theory Qmap_Rx
  imports Qmap_Uplink
begin

text \<open>
  The downlink of the QMAP devices: the decoders of \<^verbatim>\<open>qmi_wwan_q.c\<close> (\<^verbatim>\<open>qmap_packet_decode\<close>) and
  \<^verbatim>\<open>GobiUSBNet.c\<close> (\<^verbatim>\<open>_rmnet_usb_rx_handler\<close>), which split a received frame into packets and hand
  each to the network device of its mux id. The decoders are shown to be inverse to the uplink.
\<close>

section \<open>State\<close>

text \<open>
  \<^verbatim>\<open>sQmiWwanQmap\<close> (and \<^verbatim>\<open>sGobiUSBNet\<close>, which has the same fields, \<open>qmap_mode\<close> as a signed
  \<open>int\<close>): the array has \<^verbatim>\<open>QUECTEL_WWAN_QMAP\<close> (4) entries, each a device or null.
\<close>

record qmap_dev =
  qmap_mode :: u32
  dev_qmap_version :: u32
  tx_ctx :: tx_agg_ctx
  mpQmapNetDev :: "qmap_net option list"
  use_rmnet_usb :: u32
  dev_bridge_mode :: u32
  dev_bridge_mac :: "u8 list"

text \<open>
  A packet of the chain: the device (its index), the bytes from the \<open>mac_header\<close> on, and the protocol in
  host order. A \<^verbatim>\<open>__skb_pull\<close> of the Ethernet header moves \<open>data\<close> and leaves these bytes as they are.
\<close>

record rx_skb =
  rx_dev :: nat
  rx_data :: "u8 list"
  rx_protocol :: u16

definition default_modem_addr :: "u8 list" where
  "default_modem_addr = [0x02, 0x50, 0xf3, 0, 0, 0]"

definition QUECTEL_QMAP_MUX_ID :: u8 where "QUECTEL_QMAP_MUX_ID = 0x81"

text \<open>The destination address of a packet for the host.\<close>

definition bridge_mode_rx_fixup :: "bool \<Rightarrow> qmap_dev \<Rightarrow> qmap_net \<Rightarrow> u8 list" where
  "bridge_mode_rx_fixup one_card_mode d net =
     (let (mode, mac) =
        (if qmap_mode d > 1 \<or> (use_rmnet_usb d = 1 \<and> \<not> one_card_mode)
         then (bridge_mode net, bridge_mac net) else (dev_bridge_mode d, dev_bridge_mac d))
      in if mode \<noteq> 0 then mac else dev_addr net)"

definition gobi_bridge_mode_rx_fixup :: "qmap_dev \<Rightarrow> qmap_net \<Rightarrow> u8 list" where
  "gobi_bridge_mode_rx_fixup d net =
     (let (mode, mac) =
        (if sint (qmap_mode d) > 1 then (bridge_mode net, bridge_mac net)
         else (dev_bridge_mode d, dev_bridge_mac d))
      in if mode \<noteq> 0 then mac else dev_addr net)"

section \<open>One packet\<close>

text \<open>
  What the loop body does with the packet at the front: stop (\<^verbatim>\<open>error_pkt\<close>), skip it, queue it, or
  fault (an access outside the array, the buffer or an allocation). The number is what
  \<^verbatim>\<open>skb_pull\<close> is given.
\<close>

datatype rx_action = Stop | Skip nat | Queue rx_skb nat | Fault

text \<open>
  \<^verbatim>\<open>memcpy(qmap_skb->data, skb_in->data + hdr_size, skb_len)\<close> with an \<open>int\<close> length: a negative one
  is a size of almost \<^term>\<open>2 ^ 64\<close>.
\<close>

definition copy_packet :: "sk_buff \<Rightarrow> nat \<Rightarrow> u32 \<Rightarrow> u8 list option" where
  "copy_packet b hdr_size len =
     (if sint len < 0 then None else rdn (skb_data b @ skb_tail b) hdr_size (unat len))"

definition ip_protocol :: "u8 \<Rightarrow> u16 option" where
  "ip_protocol c =
     (if c AND 0xf0 = 0x40 then Some ETH_P_IP else if c AND 0xf0 = 0x60 then Some ETH_P_IPV6
      else None)"

definition link_header :: "bool \<Rightarrow> u8 list \<Rightarrow> u16 \<Rightarrow> u8 list" where
  "link_header eth dest protocol =
     (if eth then dest @ default_modem_addr @ be16 protocol else [])"

definition map_hdr_size :: "u8 \<Rightarrow> nat" where
  "map_hdr_size h = (if bit h 6 then 4 + 4 else 4)"

definition dl_padding :: "qmap_dev \<Rightarrow> u32" where
  "dl_padding d = (if dev_qmap_version d = 9 then dl_minimum_padding (tx_ctx d) else 0)"

text \<open>
  \<open>mux_id\<close> and \<open>skb_len\<close> are \<open>int\<close> but compared with unsigned values, so they count as unsigned.
\<close>

definition qmap_decode_one :: "kernel \<Rightarrow> bool \<Rightarrow> qmap_dev \<Rightarrow> sk_buff \<Rightarrow> nat \<Rightarrow> rx_action" where
  "qmap_decode_one K one_card_mode d b n =
     (let h = peek K b 0;
          hdr_size = map_hdr_size h;
          pkt_len = peek16 K b 2;
          len = ucast pkt_len - ucast (h AND 0x3F) - dl_padding d;
          mux = ucast (peek K b 1) - ucast QUECTEL_QMAP_MUX_ID :: u32
      in if mux \<ge> qmap_mode d then Stop
         else case elem (mpQmapNetDev d) (unat mux) of
           None \<Rightarrow> Fault
         | Some None \<Rightarrow> Skip (unat pkt_len + hdr_size)
         | Some (Some net) \<Rightarrow>
             if len > mtu net then Stop
             else if skb_len b < unat pkt_len + hdr_size then Stop
             else if bit h 7 then Skip (unat pkt_len + hdr_size)
             else case ip_protocol (peek K b hdr_size) of
               None \<Rightarrow> Stop
             | Some protocol \<Rightarrow>
                 if \<not> alloc_ok K n then Stop
                 else case copy_packet b hdr_size len of
                   None \<Rightarrow> Fault
                 | Some pkt \<Rightarrow>
                     Queue \<lparr>rx_dev = unat mux,
                            rx_data = link_header (ether net)
                              (bridge_mode_rx_fixup one_card_mode d net) protocol @ pkt,
                            rx_protocol = protocol\<rparr> (unat pkt_len + hdr_size))"

text \<open>GobiNet: both comparisons are signed, and the device is looked up last.\<close>

definition gobi_decode_one :: "kernel \<Rightarrow> qmap_dev \<Rightarrow> sk_buff \<Rightarrow> nat \<Rightarrow> rx_action" where
  "gobi_decode_one K d b n =
     (let h = peek K b 0;
          hdr_size = map_hdr_size h;
          pkt_len = peek16 K b 2;
          len = ucast pkt_len - ucast (h AND 0x3F) - dl_padding d;
          mux = uint (peek K b 1) - uint QUECTEL_QMAP_MUX_ID
      in if sint len > 1500 then Stop
         else if skb_len b < unat pkt_len + hdr_size then Stop
         else if bit h 7 then Skip (unat pkt_len + hdr_size)
         else case ip_protocol (peek K b hdr_size) of
           None \<Rightarrow> Stop
         | Some protocol \<Rightarrow>
             if mux \<ge> sint (qmap_mode d) then Stop
             else if mux < 0 then Fault
             else case elem (mpQmapNetDev d) (nat mux) of
               None \<Rightarrow> Fault
             | Some None \<Rightarrow> Skip (unat pkt_len + hdr_size)
             | Some (Some net) \<Rightarrow>
                 if \<not> alloc_ok K n then Stop
                 else case copy_packet b hdr_size len of
                   None \<Rightarrow> Fault
                 | Some pkt \<Rightarrow>
                     Queue \<lparr>rx_dev = nat mux,
                            rx_data = link_header (ether net)
                              (gobi_bridge_mode_rx_fixup d net) protocol @ pkt,
                            rx_protocol = protocol\<rparr> (unat pkt_len + hdr_size))"

section \<open>The loop\<close>

text \<open>
  Both loops run while there is more than a header. \<^verbatim>\<open>skb_pull\<close> of too much leaves the buffer as
  it is. The result is the chain, nothing for a fault; a loop that never ends has no result at
  all, \<^term>\<open>None\<close>. Allocations are counted from \<open>n\<close>.
\<close>

partial_function (option) decode_loop :: "(sk_buff \<Rightarrow> nat \<Rightarrow> rx_action) \<Rightarrow> sk_buff \<Rightarrow> nat \<Rightarrow>
    rx_skb list option option" where
  "decode_loop one b n =
     (if skb_len b \<le> 4 then Some (Some [])
      else case one b n of
        Stop \<Rightarrow> Some (Some [])
      | Fault \<Rightarrow> Some None
      | Skip k \<Rightarrow> decode_loop one (case skb_pull k b of None \<Rightarrow> b | Some b' \<Rightarrow> b') n
      | Queue p k \<Rightarrow>
          Option.bind (decode_loop one (case skb_pull k b of None \<Rightarrow> b | Some b' \<Rightarrow> b') (n + 1))
            (\<lambda>r. Some (map_option (\<lambda>ps. p # ps) r)))"

definition qmap_packet_decode :: "kernel \<Rightarrow> bool \<Rightarrow> qmap_dev \<Rightarrow> sk_buff \<Rightarrow>
    rx_skb list option option" where
  "qmap_packet_decode K one_card_mode d b = decode_loop (qmap_decode_one K one_card_mode d) b 0"

definition rmnet_usb_rx_decode :: "kernel \<Rightarrow> qmap_dev \<Rightarrow> sk_buff \<Rightarrow> rx_skb list option option" where
  "rmnet_usb_rx_decode K d b = decode_loop (gobi_decode_one K d) b 0"

section \<open>The decoders invert the encoders\<close>

definition deliver :: "bool \<Rightarrow> u8 list \<Rightarrow> nat \<Rightarrow> u8 list \<Rightarrow> rx_skb" where
  "deliver eth dest idx pkt =
     (let protocol = (case ip_protocol (hd pkt) of Some p \<Rightarrow> p | None \<Rightarrow> 0)
      in \<lparr>rx_dev = idx, rx_data = link_header eth dest protocol @ pkt, rx_protocol = protocol\<rparr>)"

definition frame_hdr :: "u8 \<Rightarrow> nat \<Rightarrow> u8" where
  "frame_hdr ver pad = (if ver = 9 then 0x40 OR (of_nat pad AND 0x3F) else of_nat pad)"

lemma frame_hdr_bits:
  assumes "pad < 4"
  shows "bit (frame_hdr ver pad) 6 = (ver = 9)" "\<not> bit (frame_hdr ver pad) 7"
    "frame_hdr ver pad AND 0x3F = of_nat pad"
proof -
  have "pad = 0 \<or> pad = 1 \<or> pad = 2 \<or> pad = 3" using assms by linarith
  then show "bit (frame_hdr ver pad) 6 = (ver = 9)" "\<not> bit (frame_hdr ver pad) 7"
    "frame_hdr ver pad AND 0x3F = of_nat pad"
    by (auto simp: frame_hdr_def)
qed

lemma of_le16_be16: "of_le16 (ucast v) (ucast (drop_bit 8 v)) = (v :: u16)"
  by simp

lemma peek_data: "i < skb_len b \<Longrightarrow> peek K b i = skb_data b ! i"
  by (simp add: peek_def nth_append)

lemma peek_frame:
  assumes "skb_data b = qmap_frame ver mux pkt pad @ rest" "pkt \<noteq> []" "length pad < 4"
  shows "peek K b 0 = frame_hdr ver (length pad)" "peek K b 1 = mux"
    "peek16 K b 2 = of_nat (length pkt + length pad)"
    "peek K b (map_hdr_size (frame_hdr ver (length pad))) = hd pkt"
proof -
  note defs = qmap_frame_def qmap_hdr_def rmnet_map_header_v5_def be16_def frame_hdr_def
  show "peek K b 0 = frame_hdr ver (length pad)" "peek K b 1 = mux"
    "peek16 K b 2 = of_nat (length pkt + length pad)"
    using assms(1) by (auto simp: peek_def peek16_def defs)
  have sz: "map_hdr_size (frame_hdr ver (length pad)) = (if ver = 9 then 8 else 4)"
    by (simp add: map_hdr_size_def frame_hdr_bits [OF assms(3)])
  show "peek K b (map_hdr_size (frame_hdr ver (length pad))) = hd pkt"
    unfolding sz using assms(1,2) by (auto simp: peek_def defs hd_conv_nth nth_append)
qed

lemma copy_frame:
  assumes "skb_data b = qmap_frame ver mux pkt pad @ rest" "length pkt < 65536"
  shows "copy_packet b (if ver = 9 then 8 else 4) (of_nat (length pkt)) = Some pkt"
proof -
  have u: "unat (of_nat (length pkt) :: u32) = length pkt" using assms(2) by simp
  have s: "\<not> sint (of_nat (length pkt) :: u32) < 0"
    using sint_small [of "of_nat (length pkt)"] u assms(2) by simp
  show ?thesis
    unfolding copy_packet_def u using s assms(1)
    by (auto simp: rdn_def qmap_frame_def qmap_hdr_def rmnet_map_header_v5_def be16_def)
qed

text \<open>The device of a mux id, and the packets it takes.\<close>

definition rx_route :: "qmap_dev \<Rightarrow> u8 \<Rightarrow> nat \<Rightarrow> qmap_net \<Rightarrow> bool" where
  "rx_route d mux idx net \<longleftrightarrow> mux = QUECTEL_QMAP_MUX_ID + of_nat idx
     \<and> idx < unat (qmap_mode d) \<and> unat (qmap_mode d) \<le> length (mpQmapNetDev d)
     \<and> length (mpQmapNetDev d) \<le> 8
     \<and> mpQmapNetDev d ! idx = Some net \<and> dl_padding d = 0"

definition is_ip :: "u8 list \<Rightarrow> bool" where
  "is_ip pkt \<longleftrightarrow> pkt \<noteq> [] \<and> ip_protocol (hd pkt) \<noteq> None"

lemma rx_route_mux:
  assumes "rx_route d mux idx net"
  shows "ucast mux - ucast QUECTEL_QMAP_MUX_ID = (of_nat idx :: u32)"
    "uint mux - uint QUECTEL_QMAP_MUX_ID = int idx"
    "(of_nat idx :: u32) < qmap_mode d" "unat (of_nat idx :: u32) = idx"
    "idx < length (mpQmapNetDev d)"
    "sint (qmap_mode d) = int (unat (qmap_mode d))"
proof -
  have idx: "idx < 8" "idx < length (mpQmapNetDev d)" using assms by (auto simp: rx_route_def)
  then have "idx = 0 \<or> idx = 1 \<or> idx = 2 \<or> idx = 3 \<or> idx = 4 \<or> idx = 5 \<or> idx = 6 \<or> idx = 7"
    by linarith
  then show "ucast mux - ucast QUECTEL_QMAP_MUX_ID = (of_nat idx :: u32)"
    "uint mux - uint QUECTEL_QMAP_MUX_ID = int idx"
    using assms by (auto simp: rx_route_def QUECTEL_QMAP_MUX_ID_def)
  show u: "unat (of_nat idx :: u32) = idx" "idx < length (mpQmapNetDev d)" using idx by simp_all
  show "(of_nat idx :: u32) < qmap_mode d" using assms u by (simp add: word_less_nat_alt rx_route_def)
  show "sint (qmap_mode d) = int (unat (qmap_mode d))"
    using assms by (intro sint_small) (simp add: rx_route_def)
qed

lemma frame_len:
  assumes "length pkt + length pad < 65536" "length pad < 4"
  shows "ucast (of_nat (length pkt + length pad) :: u16) - ucast (of_nat (length pad) :: u8)
    = (of_nat (length pkt) :: u32)"
proof -
  have "(ucast (of_nat (length pkt + length pad) :: u16) :: u32) = of_nat (length pkt + length pad)"
    using assms(1) by (simp only: unsigned_of_nat) (simp add: take_bit_nat_eq_self)
  moreover have "(ucast (of_nat (length pad) :: u8) :: u32) = of_nat (length pad)"
    using assms(2) by (simp add: unsigned_of_nat take_bit_nat_eq_self)
  ultimately show ?thesis by simp
qed

text \<open>What both decoders compute from the header of a frame.\<close>

lemma frame_facts:
  assumes D: "skb_data b = qmap_frame ver mux pkt pad @ rest"
    and P: "is_ip pkt" "length pad < 4" "length pkt + 3 < 65536"
  defines "hs \<equiv> if ver = 9 then 8 else 4 :: nat"
  shows "peek K b 0 = frame_hdr ver (length pad)" "peek K b 1 = mux"
    "peek16 K b 2 = of_nat (length pkt + length pad)"
    "map_hdr_size (frame_hdr ver (length pad)) = hs" "peek K b hs = hd pkt"
    "ucast (of_nat (length pkt + length pad) :: u16) - ucast (of_nat (length pad) :: u8)
      = (of_nat (length pkt) :: u32)"
    "unat (of_nat (length pkt + length pad) :: u16) = length pkt + length pad"
    "skb_len b = length pkt + length pad + hs + length rest"
    "copy_packet b hs (of_nat (length pkt)) = Some pkt"
proof -
  have pk: "pkt \<noteq> []" using P(1) by (simp add: is_ip_def)
  note peeks = peek_frame [OF D pk P(2), of K]
  show sz: "map_hdr_size (frame_hdr ver (length pad)) = hs"
    by (simp add: map_hdr_size_def frame_hdr_bits [OF P(2), of ver] hs_def)
  show "peek K b 0 = frame_hdr ver (length pad)" "peek K b 1 = mux"
    "peek16 K b 2 = of_nat (length pkt + length pad)" "peek K b hs = hd pkt"
    using peeks unfolding sz by simp_all
  show "ucast (of_nat (length pkt + length pad) :: u16) - ucast (of_nat (length pad) :: u8)
      = (of_nat (length pkt) :: u32)"
    using frame_len [of pkt pad] P by simp
  show "unat (of_nat (length pkt + length pad) :: u16) = length pkt + length pad"
    using P by (intro unat_u16_of_nat) simp
  show "skb_len b = length pkt + length pad + hs + length rest"
    using D by (simp add: length_qmap_frame hs_def)
  show "copy_packet b hs (of_nat (length pkt)) = Some pkt"
    using copy_frame [OF D] P by (simp add: hs_def)
qed

lemma qmap_decode_frame:
  assumes D: "skb_data b = qmap_frame ver mux pkt pad @ rest" and R: "rx_route d mux idx net"
    and P: "is_ip pkt" "length pad < 4" "length pkt + 3 < 65536"
    and M: "length pkt \<le> unat (mtu net)" and A: "alloc_ok K n"
  shows "qmap_decode_one K oc d b n =
    Queue (deliver (ether net) (bridge_mode_rx_fixup oc d net) idx pkt)
      (length (qmap_frame ver mux pkt pad))"
proof -
  obtain proto where pr: "ip_protocol (hd pkt) = Some proto" using P(1) by (auto simp: is_ip_def)
  note f = frame_facts [OF D P] and bits = frame_hdr_bits [OF P(2), of ver]
  have dl: "dl_padding d = 0" "elem (mpQmapNetDev d) idx = Some (Some net)"
    using R rx_route_mux(5) [OF R] by (simp_all add: rx_route_def elem_def)
  have mt: "\<not> mtu net < of_nat (length pkt)" using M P by (simp add: word_less_nat_alt not_less)
  show ?thesis
    unfolding qmap_decode_one_def Let_def f(1-4) bits(3) f(6,7)
    using f(5,8,9) bits(2) dl mt rx_route_mux(1,3,4) [OF R] pr A
    by (simp add: deliver_def length_qmap_frame not_le)
qed

lemma gobi_decode_frame:
  assumes D: "skb_data b = qmap_frame ver mux pkt pad @ rest" and R: "rx_route d mux idx net"
    and P: "is_ip pkt" "length pad < 4" and M: "length pkt \<le> 1500" and A: "alloc_ok K n"
  shows "gobi_decode_one K d b n =
    Queue (deliver (ether net) (gobi_bridge_mode_rx_fixup d net) idx pkt)
      (length (qmap_frame ver mux pkt pad))"
proof -
  have l: "length pkt + 3 < 65536" using M by simp
  obtain proto where pr: "ip_protocol (hd pkt) = Some proto" using P(1) by (auto simp: is_ip_def)
  note f = frame_facts [OF D P l] and bits = frame_hdr_bits [OF P(2), of ver]
  have dl: "dl_padding d = 0" "elem (mpQmapNetDev d) idx = Some (Some net)"
    using R rx_route_mux(5) [OF R] by (simp_all add: rx_route_def elem_def)
  have idx: "int idx < int (unat (qmap_mode d))"
    using R by (simp only: rx_route_def of_nat_less_iff)
  have "unat (of_nat (length pkt) :: u32) = length pkt" using l by (intro unat_u32_of_nat) simp
  then have mt: "\<not> 1500 < sint (of_nat (length pkt) :: u32)"
    using sint_small [of "of_nat (length pkt)"] M by simp
  show ?thesis
    unfolding gobi_decode_one_def Let_def f(1-4) bits(3) f(6,7) rx_route_mux(2,6) [OF R] dl(1)
    using f(5,8,9) bits(2) dl(2) idx mt pr A
    by (simp add: deliver_def length_qmap_frame not_le)
qed

text \<open>
  A loop over whole frames: if the loop body queues the packet of each frame, the loop returns
  them in order.
\<close>

lemma decode_loop_frames:
  assumes step: "\<And>p b rest n. p \<in> set ps \<Longrightarrow> skb_data b = enc p @ rest \<Longrightarrow>
      one b n = Queue (out p) (length (enc p))"
    and long: "\<And>p. p \<in> set ps \<Longrightarrow> 4 < length (enc p)"
    and D: "skb_data b = pack enc ps"
  shows "decode_loop one b n = Some (Some (map out ps))"
  using assms
proof (induction ps arbitrary: b n)
  case Nil
  then show ?case by (simp add: decode_loop.simps [of one b])
next
  case (Cons p ps)
  have D: "skb_data b = enc p @ pack enc ps" using Cons.prems(3) by simp
  have one: "one b n = Queue (out p) (length (enc p))"
    by (rule Cons.prems(1) [OF _ D]) simp
  have l: "\<not> skb_len b \<le> 4" using D Cons.prems(2) [of p] by simp
  obtain b' where b': "skb_pull (length (enc p)) b = Some b'" "skb_data b' = pack enc ps"
    using D by (simp add: skb_pull_def)
  have "decode_loop one b' (n + 1) = Some (Some (map out ps))"
    by (rule Cons.IH [OF _ _ b'(2)]) (use Cons.prems(1,2) in auto)
  then show ?case
    using one l b'(1) by (subst decode_loop.simps) simp
qed

section \<open>From the uplink to the decoder\<close>

definition rx_buf :: "u8 list \<Rightarrow> sk_buff" where
  "rx_buf f = \<lparr>skb_data = f, skb_tail = [], skb_headroom = 0, skb_protocol = ETH_P_MAP,
     skb_network = 0\<rparr>"

text \<open>The packets of a sequence of frames: nothing if a frame faults or never ends.\<close>

definition receive_all :: "(sk_buff \<Rightarrow> rx_skb list option option) \<Rightarrow> u8 list list \<Rightarrow> rx_skb list option" where
  "receive_all decode fs =
     map_option concat (those (map (\<lambda>f. Option.bind (decode (rx_buf f)) (\<lambda>r. r)) fs))"

lemma those_map_Some: "(\<And>x. x \<in> set xs \<Longrightarrow> f x = Some (h x)) \<Longrightarrow> those (map f xs) = Some (map h xs)"
  by (induction xs) auto

lemma receive_all_groups:
  assumes "\<And>g b. g \<in> set gs \<Longrightarrow> skb_data b = pack enc g \<Longrightarrow> decode b = Some (Some (map out g))"
  shows "receive_all decode (map (pack enc) gs) = Some (map out (concat gs))"
proof -
  have "those (map ((\<lambda>f. Option.bind (decode (rx_buf f)) (\<lambda>r. r)) \<circ> pack enc) gs) = Some (map (map out) gs)"
    by (rule those_map_Some) (simp add: assms rx_buf_def)
  then show ?thesis by (simp add: receive_all_def map_concat)
qed

lemma is_ip_long: "is_ip pkt \<Longrightarrow> 4 < length (qmap_frame ver mux pkt pad)"
  by (auto simp: is_ip_def length_qmap_frame)

lemma qmap_decode_group:
  assumes enc: "\<And>p. \<exists>pad. enc p = qmap_frame ver mux (pk p) pad \<and> length pad < 4"
    and R: "rx_route d mux idx net" and A: "\<forall>n. alloc_ok K n"
    and P: "\<forall>p \<in> set g. is_ip (pk p) \<and> length (pk p) + 3 < 65536 \<and> length (pk p) \<le> unat (mtu net)"
    and D: "skb_data b = pack enc g"
  shows "qmap_packet_decode K oc d b =
    Some (Some (map (\<lambda>p. deliver (ether net) (bridge_mode_rx_fixup oc d net) idx (pk p)) g))"
  unfolding qmap_packet_decode_def
proof (rule decode_loop_frames [OF _ _ D])
  fix p and b :: sk_buff and rest n assume p: "p \<in> set g" and b: "skb_data b = enc p @ rest"
  obtain pad where e: "enc p = qmap_frame ver mux (pk p) pad" "length pad < 4" using enc by blast
  show "qmap_decode_one K oc d b n =
      Queue (deliver (ether net) (bridge_mode_rx_fixup oc d net) idx (pk p)) (length (enc p))"
    unfolding e(1) by (rule qmap_decode_frame [OF b [unfolded e(1)] R]) (use P p A e(2) in auto)
next
  fix p assume p: "p \<in> set g"
  obtain pad where "enc p = qmap_frame ver mux (pk p) pad" using enc by blast
  then show "4 < length (enc p)" using P p by (simp add: is_ip_long)
qed

lemma gobi_decode_group:
  assumes enc: "\<And>p. \<exists>pad. enc p = qmap_frame ver mux (pk p) pad \<and> length pad < 4"
    and R: "rx_route d mux idx net" and A: "\<forall>n. alloc_ok K n"
    and P: "\<forall>p \<in> set g. is_ip (pk p) \<and> length (pk p) \<le> 1500"
    and D: "skb_data b = pack enc g"
  shows "rmnet_usb_rx_decode K d b =
    Some (Some (map (\<lambda>p. deliver (ether net) (gobi_bridge_mode_rx_fixup d net) idx (pk p)) g))"
  unfolding rmnet_usb_rx_decode_def
proof (rule decode_loop_frames [OF _ _ D])
  fix p and b :: sk_buff and rest n assume p: "p \<in> set g" and b: "skb_data b = enc p @ rest"
  obtain pad where e: "enc p = qmap_frame ver mux (pk p) pad" "length pad < 4" using enc by blast
  show "gobi_decode_one K d b n =
      Queue (deliver (ether net) (gobi_bridge_mode_rx_fixup d net) idx (pk p)) (length (enc p))"
    unfolding e(1) by (rule gobi_decode_frame [OF b [unfolded e(1)] R]) (use P p A e(2) in auto)
next
  fix p assume p: "p \<in> set g"
  obtain pad where "enc p = qmap_frame ver mux (pk p) pad" using enc by blast
  then show "4 < length (enc p)" using P p by (simp add: is_ip_long)
qed

section \<open>Hostile frames\<close>

lemma decode_loop_returns:
  assumes "\<And>b n k p. 4 < skb_len b \<Longrightarrow> one b n = Skip k \<or> one b n = Queue p k \<Longrightarrow>
    0 < k \<and> k \<le> skb_len b"
  shows "\<exists>r. decode_loop one b n = Some r"
proof (induction "skb_len b" arbitrary: b n rule: less_induct)
  case less
  show ?case
  proof (cases "4 < skb_len b")
    case True
    have shorter: "\<exists>r. decode_loop one (case skb_pull k b of None \<Rightarrow> b | Some b' \<Rightarrow> b') m = Some r"
      if "one b n = Skip k \<or> one b n = Queue p k" for k p m
      using less.hyps [of "b\<lparr>skb_data := drop k (skb_data b), skb_headroom := skb_headroom b + k,
          skb_network := skb_network b - k\<rparr>" m] assms [OF True that] by (auto simp: skb_pull_def)
    show ?thesis
      using True shorter [of _ _ n] shorter [of _ _ "n + 1"]
      by (cases "one b n") (auto simp: decode_loop.simps [of one b n])
  next
    case False
    then show ?thesis by (simp add: decode_loop.simps [of one b n])
  qed
qed

lemma decode_loop_chain:
  assumes safe: "\<And>b n. 4 < skb_len b \<Longrightarrow> one b n \<noteq> Fault"
    and good: "\<And>b n k p. 4 < skb_len b \<Longrightarrow> one b n = Queue p k \<Longrightarrow> Q p"
    and "decode_loop one b n = Some r"
  shows "\<exists>ps. r = Some ps \<and> (\<forall>p \<in> set ps. Q p)"
proof -
  have "(\<forall>b n. 4 < skb_len b \<longrightarrow> one b n \<noteq> Fault
      \<and> (\<forall>p k. one b n = Queue p k \<longrightarrow> Q p)) \<longrightarrow> (\<exists>ps. r = Some ps \<and> (\<forall>p \<in> set ps. Q p))"
  proof (rule decode_loop.raw_induct [where P = "\<lambda>one b n r. (\<forall>b n. 4 < skb_len b \<longrightarrow>
      one b n \<noteq> Fault \<and> (\<forall>p k. one b n = Queue p k \<longrightarrow> Q p)) \<longrightarrow>
      (\<exists>ps. r = Some ps \<and> (\<forall>p \<in> set ps. Q p))", OF _ assms(3)])
    fix loop :: "(sk_buff \<Rightarrow> nat \<Rightarrow> rx_action) \<Rightarrow> sk_buff \<Rightarrow> nat \<Rightarrow> rx_skb list option option"
      and one b n r
    assume IH: "\<And>one b n r. loop one b n = Some r \<Longrightarrow> (\<forall>b n. 4 < skb_len b \<longrightarrow>
      one b n \<noteq> Fault \<and> (\<forall>p k. one b n = Queue p k \<longrightarrow> Q p)) \<longrightarrow>
      (\<exists>ps. r = Some ps \<and> (\<forall>p \<in> set ps. Q p))"
      and eq: "(if skb_len b \<le> 4 then Some (Some [])
        else case one b n of Stop \<Rightarrow> Some (Some []) | Fault \<Rightarrow> Some None
          | Skip k \<Rightarrow> loop one (case skb_pull k b of None \<Rightarrow> b | Some b' \<Rightarrow> b') n
          | Queue p k \<Rightarrow> Option.bind (loop one (case skb_pull k b of None \<Rightarrow> b | Some b' \<Rightarrow> b') (n + 1))
              (\<lambda>r. Some (map_option (\<lambda>ps. p # ps) r))) = Some r"
    show "(\<forall>b n. 4 < skb_len b \<longrightarrow> one b n \<noteq> Fault \<and> (\<forall>p k. one b n = Queue p k \<longrightarrow> Q p)) \<longrightarrow>
      (\<exists>ps. r = Some ps \<and> (\<forall>p \<in> set ps. Q p))"
    proof
      assume H: "\<forall>b n. 4 < skb_len b \<longrightarrow> one b n \<noteq> Fault \<and> (\<forall>p k. one b n = Queue p k \<longrightarrow> Q p)"
      show "\<exists>ps. r = Some ps \<and> (\<forall>p \<in> set ps. Q p)"
      proof (cases "4 < skb_len b")
        case True
        then show ?thesis
          using eq H IH [of one] by (cases "one b n") (fastforce simp: bind_eq_Some_conv)+
      next
        case False
        then show ?thesis using eq by auto
      qed
    qed
  qed
  then show ?thesis using safe good by blast
qed

text \<open>A length of the header that passes the comparison with the MTU has not wrapped.\<close>

lemma length_no_wrap:
  assumes "unat x < 65536" "unat y < 64" "unat z < 2 ^ 30" "x - y - z \<le> m" "unat m < 2 ^ 31"
  shows "unat (x - y - z :: u32) \<le> unat x"
  using assms by (auto simp: word_le_nat_alt unat_sub_if' split: if_splits)

definition dev_ok :: "qmap_dev \<Rightarrow> bool" where
  "dev_ok d \<longleftrightarrow> length (mpQmapNetDev d) = 4 \<and> unat (qmap_mode d) \<le> 4
     \<and> unat (dl_padding d) < 2 ^ 30
     \<and> (\<forall>net \<in> set (mpQmapNetDev d). case net of None \<Rightarrow> True | Some net \<Rightarrow> unat (mtu net) < 2 ^ 31)"

definition all_present :: "qmap_dev \<Rightarrow> bool" where
  "all_present d \<longleftrightarrow> (\<forall>i < unat (qmap_mode d). mpQmapNetDev d ! i \<noteq> None)"

text \<open>A packet handed over: to a device that exists, no longer than its MTU.\<close>

definition rx_good :: "bool \<Rightarrow> qmap_dev \<Rightarrow> rx_skb \<Rightarrow> bool" where
  "rx_good oc d p \<longleftrightarrow> rx_dev p < unat (qmap_mode d)
     \<and> (case mpQmapNetDev d ! rx_dev p of None \<Rightarrow> False
        | Some net \<Rightarrow> length (rx_data p) \<le> unat (mtu net)
            + length (link_header (ether net) (bridge_mode_rx_fixup oc d net) (rx_protocol p)))
     \<and> rx_protocol p \<in> {ETH_P_IP, ETH_P_IPV6}"

lemma ip_protocol_cases: "ip_protocol c = Some p \<Longrightarrow> p = 0x0800 \<or> p = 0x86DD"
  by (auto simp: ip_protocol_def split: if_splits)

lemma map_hdr_size_cases: "map_hdr_size h = 4 \<or> map_hdr_size h = 8"
  by (simp add: map_hdr_size_def)

lemma hdr_lengths: "unat (ucast (v :: u16) :: u32) = unat v" "unat (ucast (h AND 0x3F :: u8) :: u32) < 64"
proof -
  show "unat (ucast (v :: u16) :: u32) = unat v" 
    using less_trans [OF unat_u16_less [of v], of "2 ^ 32"]
    by (simp add: unsigned_ucast_eq take_bit_nat_eq_self)
  have "unat (h AND 0x3F) \<le> unat (0x3F :: u8)" using word_and_le1 [of h "0x3F"] by (simp only: word_le_nat_alt and.commute)
  then have "unat (h AND 0x3F) < 64" by simp
  then show "unat (ucast (h AND 0x3F :: u8) :: u32) < 64"
    by (simp add: unsigned_ucast_eq take_bit_nat_eq_self)
qed

lemma passed_length:
  assumes O: "dev_ok d" and net: "Some net \<in> set (mpQmapNetDev d)"
    and le: "\<not> mtu net < ucast (pl :: u16) - ucast (h AND 0x3F :: u8) - dl_padding d"
  shows "unat (mtu net) < 2 ^ 31" "unat (ucast pl - ucast (h AND 0x3F) - dl_padding d) \<le> unat pl"
proof -
  show m: "unat (mtu net) < 2 ^ 31" using O net by (auto simp: dev_ok_def split: option.splits)
  have "unat (ucast pl - ucast (h AND 0x3F) - dl_padding d) \<le> unat (ucast pl :: u32)"
    by (rule length_no_wrap [OF _ hdr_lengths(2), where m = "mtu net"])
      (use O m le hdr_lengths(1) [of pl] in \<open>auto simp: dev_ok_def not_less\<close>)
  then show "unat (ucast pl - ucast (h AND 0x3F) - dl_padding d) \<le> unat pl" by (simp add: hdr_lengths(1))
qed

lemma qmap_decode_one_safe:
  assumes O: "dev_ok d" and l: "4 < skb_len b"
  shows "qmap_decode_one K oc d b n \<noteq> Fault"
    and "qmap_decode_one K oc d b n = Queue p k \<Longrightarrow> rx_good oc d p \<and> 0 < k \<and> k \<le> skb_len b"
    and "all_present d \<Longrightarrow> qmap_decode_one K oc d b n = Skip k \<Longrightarrow> 0 < k \<and> k \<le> skb_len b"
proof -
  define h where "h = peek K b 0"
  define pl where "pl = peek16 K b 2"
  define len where "len = ucast pl - ucast (h AND 0x3F) - dl_padding d"
  define mux where "mux = (ucast (peek K b 1) - ucast QUECTEL_QMAP_MUX_ID :: u32)"
  have sz: "0 < map_hdr_size h" using map_hdr_size_cases [of h] by auto
  have el: "elem (mpQmapNetDev d) (unat mux) = Some (mpQmapNetDev d ! unat mux)"
      "unat mux < unat (qmap_mode d)" if "\<not> qmap_mode d \<le> mux"
    using that O by (auto simp: dev_ok_def elem_def word_less_nat_alt not_le)
  have cp: "\<exists>pkt. copy_packet b (map_hdr_size h) len = Some pkt \<and> length pkt \<le> unat (mtu net)"
    if "\<not> qmap_mode d \<le> mux" "mpQmapNetDev d ! unat mux = Some net" "\<not> mtu net < len"
      "\<not> skb_len b < unat pl + map_hdr_size h" for net
  proof -
    have "Some net \<in> set (mpQmapNetDev d)" using nth_mem [of "unat mux" "mpQmapNetDev d"] that(1,2) el(2) O by (simp add: dev_ok_def)
    note m = passed_length(1) [OF O this that(3) [unfolded len_def]]
      and le = passed_length(2) [OF O this that(3) [unfolded len_def], folded len_def]
    have lm: "unat len \<le> unat (mtu net)" using that(3) by (simp add: word_le_nat_alt not_less)
    have "\<not> sint len < 0" using sint_small [of len] lm m by simp
    then show ?thesis using le lm that(4) by (simp add: copy_packet_def rdn_def)
  qed
  note defs = qmap_decode_one_def Let_def h_def [symmetric] pl_def [symmetric] len_def [symmetric]
    mux_def [symmetric]
  show "qmap_decode_one K oc d b n \<noteq> Fault"
    unfolding defs using el cp by (auto split: option.splits) blast
  show "all_present d \<Longrightarrow> qmap_decode_one K oc d b n = Skip k \<Longrightarrow> 0 < k \<and> k \<le> skb_len b"
    unfolding defs using el sz by (auto simp: all_present_def split: option.splits if_splits)
  show "qmap_decode_one K oc d b n = Queue p k \<Longrightarrow> rx_good oc d p \<and> 0 < k \<and> k \<le> skb_len b"
    unfolding defs using el cp sz
    by (auto simp: rx_good_def dest!: ip_protocol_cases split: option.splits if_splits) metis+
qed

lemma gobi_decode_one_progress:
  assumes "gobi_decode_one K d b n = Skip k \<or> gobi_decode_one K d b n = Queue p k"
  shows "0 < k \<and> k \<le> skb_len b"
  using assms map_hdr_size_cases [of "peek K b 0"]
  unfolding gobi_decode_one_def Let_def by (auto split: option.splits if_splits)

text \<open>
  What the decoder reads. The bytes of the first header are inside the frame, and so is the packet it
  copies; the byte that tells the protocol is inside it or the one right behind it, when an 8-byte
  header without a packet ends the frame.
\<close>

definition same_frame :: "kernel \<Rightarrow> sk_buff \<Rightarrow> kernel \<Rightarrow> sk_buff \<Rightarrow> bool" where
  "same_frame K b K' b' \<longleftrightarrow> skb_data b' = skb_data b \<and> alloc_ok K' = alloc_ok K
     \<and> peek K' b' (skb_len b) = peek K b (skb_len b)"

lemma same_frame_peek: "same_frame K b K' b' \<Longrightarrow> i \<le> skb_len b \<Longrightarrow> peek K' b' i = peek K b i"
  by (cases "i = skb_len b") (auto simp: same_frame_def peek_data)

lemma peek_end: "peek K b (skb_len b) = (if skb_tail b = [] then beyond K 0 else hd (skb_tail b))"
  by (simp add: peek_def nth_append hd_conv_nth)

lemma same_frame_iff:
  "same_frame K b K' b' \<longleftrightarrow> skb_data b' = skb_data b \<and> alloc_ok K' = alloc_ok K
     \<and> (if skb_tail b' = [] then beyond K' 0 else hd (skb_tail b')) = (if skb_tail b = [] then beyond K 0 else hd (skb_tail b))"
  unfolding same_frame_def peek_end [symmetric] by metis

lemma same_frame_pull:
  assumes "same_frame K b K' b'"
  shows "same_frame K (case skb_pull k b of None \<Rightarrow> b | Some c \<Rightarrow> c) K' (case skb_pull k b' of None \<Rightarrow> b' | Some c \<Rightarrow> c)"
  using assms by (auto simp: same_frame_iff skb_pull_def split: if_splits)

lemma copy_packet_inside:
  "hs + unat len \<le> skb_len b \<Longrightarrow>
     copy_packet b hs len = (if sint len < 0 then None else Some (take (unat len) (drop hs (skb_data b))))"
  by (simp add: copy_packet_def rdn_def)

lemma qmap_decode_one_same:
  assumes O: "dev_ok d" and l: "4 < skb_len b" and S: "same_frame K b K' b'"
  shows "qmap_decode_one K' oc d b' n = qmap_decode_one K oc d b n"
proof -
  define h where "h = peek K b 0"
  define pl where "pl = peek16 K b 2"
  define len where "len = ucast pl - ucast (h AND 0x3F) - dl_padding d"
  have data: "skb_data b' = skb_data b" "alloc_ok K' = alloc_ok K" using S by (simp_all add: same_frame_def)
  have hd: "peek K' b' 0 = h" "peek K' b' 1 = peek K b 1" "peek16 K' b' 2 = pl"
    using l same_frame_peek [OF S] by (simp_all add: h_def pl_def peek16_def)
  have cp: "copy_packet b' (map_hdr_size h) len = copy_packet b (map_hdr_size h) len"
    if "elem (mpQmapNetDev d) i = Some (Some net)" "\<not> mtu net < len" "\<not> skb_len b < unat pl + map_hdr_size h" for i net
  proof -
    have "Some net \<in> set (mpQmapNetDev d)" using that(1) by (auto simp: elem_def split: if_splits) (metis nth_mem)
    from passed_length(2) [OF O this that(2) [unfolded len_def], folded len_def] that(3)
    have "map_hdr_size h + unat len \<le> skb_len b" by simp
    then show ?thesis using data(1) copy_packet_inside by simp
  qed
  have pr: "peek K' b' (map_hdr_size h) = peek K b (map_hdr_size h)" if "\<not> skb_len b < unat pl + map_hdr_size h"
    using that same_frame_peek [OF S] by simp
  show ?thesis
    unfolding qmap_decode_one_def Let_def hd data h_def [symmetric] pl_def [symmetric] len_def [symmetric]
    using cp pr by (auto split: option.split)
qed

lemma qmap_decode_same:
  assumes "dev_ok d" "all_present d" "same_frame K b K' b'"
  shows "decode_loop (qmap_decode_one K' oc d) b' n = decode_loop (qmap_decode_one K oc d) b n"
  using assms(3)
proof (induction "skb_len b" arbitrary: b b' n rule: less_induct)
  case less
  have len: "skb_len b' = skb_len b" using less.prems by (simp add: same_frame_def)
  show ?case
  proof (cases "4 < skb_len b")
    case True
    note one = qmap_decode_one_same [OF assms(1) True less.prems, of oc n]
    have IH: "decode_loop (qmap_decode_one K' oc d) (case skb_pull k b' of None \<Rightarrow> b' | Some c \<Rightarrow> c) m =
        decode_loop (qmap_decode_one K oc d) (case skb_pull k b of None \<Rightarrow> b | Some c \<Rightarrow> c) m"
      if "0 < k" "k \<le> skb_len b" for k m
      using less.hyps [OF _ same_frame_pull [OF less.prems]] that by (simp add: skb_pull_def)
    show ?thesis
    proof (cases "qmap_decode_one K oc d b n")
      case (Skip k)
      then show ?thesis
        using qmap_decode_one_safe(3) [OF assms(1) True assms(2)] IH [of k n] one True len
        by (subst (1 2) decode_loop.simps) simp
    next
      case (Queue p k)
      then show ?thesis
        using qmap_decode_one_safe(2) [OF assms(1) True] IH [of k "n + 1"] one True len
        by (subst (1 2) decode_loop.simps) simp
    qed (use one True len in \<open>simp_all add: decode_loop.simps\<close>)
  next
    case False
    then show ?thesis using len by (simp add: decode_loop.simps)
  qed
qed

text \<open>The other decoder: a frame for an absent device that is cut short.\<close>

definition cut_short :: "kernel \<Rightarrow> qmap_dev \<Rightarrow> sk_buff \<Rightarrow> bool" where
  "cut_short K d b \<longleftrightarrow> 4 < skb_len b
     \<and> (let mux = ucast (peek K b 1) - ucast QUECTEL_QMAP_MUX_ID :: u32
        in mux < qmap_mode d \<and> elem (mpQmapNetDev d) (unat mux) = Some None)
     \<and> skb_len b < unat (peek16 K b 2) + map_hdr_size (peek K b 0)"

lemma cut_short_same:
  assumes "cut_short K d b"
  shows "\<exists>k. qmap_decode_one K oc d b n = Skip k \<and> skb_pull k b = None"
  using assms by (auto simp: cut_short_def qmap_decode_one_def Let_def skb_pull_def not_le)

lemma decode_loop_stuck:
  assumes "one b n = Skip k" "skb_pull k b = None" "4 < skb_len b"
  shows "decode_loop one b n = None"
proof (rule ccontr)
  assume "decode_loop one b n \<noteq> None"
  then obtain r where "decode_loop one b n = Some r" by blast
  then have "\<not> (\<exists>k. one b n = Skip k \<and> skb_pull k b = None \<and> 4 < skb_len b)"
  proof (rule decode_loop.raw_induct [where P = "\<lambda>one b n r.
      \<not> (\<exists>k. one b n = Skip k \<and> skb_pull k b = None \<and> 4 < skb_len b)", rotated])
    fix loop :: "(sk_buff \<Rightarrow> nat \<Rightarrow> rx_action) \<Rightarrow> sk_buff \<Rightarrow> nat \<Rightarrow> rx_skb list option option"
      and one b n r
    assume IH: "\<And>one b n r. loop one b n = Some r \<Longrightarrow>
        \<not> (\<exists>k. one b n = Skip k \<and> skb_pull k b = None \<and> 4 < skb_len b)"
      and eq: "(if skb_len b \<le> 4 then Some (Some [])
        else case one b n of Stop \<Rightarrow> Some (Some []) | Fault \<Rightarrow> Some None
          | Skip k \<Rightarrow> loop one (case skb_pull k b of None \<Rightarrow> b | Some b' \<Rightarrow> b') n
          | Queue p k \<Rightarrow> Option.bind (loop one (case skb_pull k b of None \<Rightarrow> b | Some b' \<Rightarrow> b') (n + 1))
              (\<lambda>r. Some (map_option (\<lambda>ps. p # ps) r))) = Some r"
    show "\<not> (\<exists>k. one b n = Skip k \<and> skb_pull k b = None \<and> 4 < skb_len b)"
    proof
      assume "\<exists>k. one b n = Skip k \<and> skb_pull k b = None \<and> 4 < skb_len b"
      then obtain k where k: "one b n = Skip k" "skb_pull k b = None" "4 < skb_len b" by blast
      with eq have "loop one b n = Some r" by simp
      from IH [OF this] k show False by blast
    qed
  qed
  then show False using assms by blast
qed

lemma sint_word_of_small:
  assumes "- 2147483648 \<le> z" "z < 2147483648"
  shows "sint (word_of_int z :: u32) = z"
  using signed_take_bit_int_eq_self [of 31 z] assms by (simp add: signed_of_int)

lemma sint_header_len:
  "sint (ucast (v :: u16) - ucast (h AND 0x3F :: u8) :: u32) = int (unat v) - int (unat (h AND 0x3F))"
proof -
  have h: "unat (ucast (h AND 0x3F) :: u32) = unat (h AND 0x3F)"
  proof -
    have "unat (h AND 0x3F) < 2 ^ 8" using unsigned_less [of "h AND 0x3F"] by simp
    then have "unat (h AND 0x3F) < 2 ^ 32" by simp
    then show ?thesis by (simp add: unsigned_ucast_eq take_bit_nat_eq_self)
  qed
  have "ucast v - ucast (h AND 0x3F) = (word_of_int (int (unat v) - int (unat (h AND 0x3F))) :: u32)"
    by simp
  moreover have "unat (h AND 0x3F) < 64" using hdr_lengths(2) [of h] h by simp
  with unat_u16_less [of v] have "sint (word_of_int (int (unat v) - int (unat (h AND 0x3F))) :: u32)
      = int (unat v) - int (unat (h AND 0x3F))"
    by (intro sint_word_of_small) linarith+
  ultimately show ?thesis by (simp only:)
qed

section \<open>Witness data\<close>

definition demo_net :: qmap_net where
  "demo_net = \<lparr>ether = False, mtu = 1500, dev_addr = replicate 6 2, stopped = False,
     tx_packets = 0, tx_bytes = 0, tx_errors = 0, mux_id = 0x81, qmap_version = 5, agg_skb = None,
     agg_count = 0, agg_time = \<lparr>tv_sec = 0, tv_nsec = 0\<rparr>, agg_hrtimer = False, agg_wq = False,
     bridge_mode = 0, bridge_ipv4 = 0, bridge_mac = replicate 6 0\<rparr>"

definition demo_dev :: "qmap_net option \<Rightarrow> qmap_dev" where
  "demo_dev net = \<lparr>qmap_mode = 1, dev_qmap_version = 5, tx_ctx = demo_ctx,
     mpQmapNetDev = [net, None, None, None], use_rmnet_usb = 1, dev_bridge_mode = 0,
     dev_bridge_mac = replicate 6 0\<rparr>"

lemma demo_route: "rx_route (demo_dev (Some demo_net)) 0x81 0 demo_net"
  by (simp add: rx_route_def demo_dev_def QUECTEL_QMAP_MUX_ID_def dl_padding_def)

lemma demo_packet: "is_ip (packet_of False (xm, demo_skb))" "length (packet_of False (xm, demo_skb)) = 22"
  by (simp_all add: is_ip_def packet_of_def ip_off_def ip_protocol_def demo_skb_def)

section \<open>Properties\<close>

text \<open>
  C13. From one end of the uplink to the other. Packets sent through a multiplexed device of
  \<^verbatim>\<open>qmi_wwan_q\<close>, in any mix with runs of the work item and one at the end, leave as frames that
  the decoder of the same driver splits into exactly these packets, in order, each for the device
  of the mux id; headers, padding and aggregation of either QMAP version are undone.
\<close>

theorem uplink_decodes:
  assumes H: "q_holds K ctx eth ver mux s [] []" and A: "\<forall>n. alloc_ok K n"
    and R: "rx_route d mux idx net"
    and P: "\<forall>p \<in> set (sends xs). q_takes ctx eth p \<and> is_ip (packet_of eth p)
      \<and> length (packet_of eth p) + 3 < 65536 \<and> length (packet_of eth p) \<le> unat (mtu net)"
  shows "\<exists>s'. tx_run (q_send K ctx) (rmnet_usb_tx_agg_work K) (xs @ [Work]) s = Some s'
    \<and> receive_all (qmap_packet_decode K oc d) (sent s') =
        Some (map (\<lambda>p. deliver (ether net) (bridge_mode_rx_fixup oc d net) idx (packet_of eth p))
          (sends xs))"
proof -
  obtain s' gs where r: "tx_run (q_send K ctx) (rmnet_usb_tx_agg_work K) (xs @ [Work]) s = Some s'"
    and h: "q_holds K ctx eth ver mux s' gs []" and c: "concat gs = sends xs"
    using qmi.run_then_work [OF H _ A, of xs] P by blast
  have "sent s' = map (pack (q_enc eth ver mux)) gs" using h by (simp add: q_holds_def carries_def)
  moreover have "qmap_packet_decode K oc d b = Some (Some (map (\<lambda>p. deliver (ether net)
      (bridge_mode_rx_fixup oc d net) idx (packet_of eth p)) g))"
    if "g \<in> set gs" "skb_data b = pack (q_enc eth ver mux) g" for g b
    by (rule qmap_decode_group [OF enc_frames(1) R A _ that(2)])
      (use P that(1) c [symmetric] in auto)
  ultimately show ?thesis using r c receive_all_groups [of gs "q_enc eth ver mux"] by auto
qed

theorem uplink_decodes_witness:
  "\<exists>s'. tx_run (q_send demo_kernel demo_ctx) (rmnet_usb_tx_agg_work demo_kernel)
      ([Send (True, demo_skb), Send (False, demo_skb)] @ [Work]) demo_tx = Some s'
    \<and> receive_all (qmap_packet_decode demo_kernel False (demo_dev (Some demo_net))) (sent s') =
        Some (map (\<lambda>p. deliver (ether demo_net)
            (bridge_mode_rx_fixup False (demo_dev (Some demo_net)) demo_net) 0 (packet_of False p))
          (sends [Send (True, demo_skb), Send (False, demo_skb)]))"
  by (rule uplink_decodes [OF demo_holds(1) _ demo_route])
    (simp_all add: demo_takes demo_packet demo_net_def)

text \<open>
  C17. The same for GobiNet, whose uplink pushes the header into the packet and whose decoder has
  its own order of checks.
\<close>

theorem gobi_uplink_decodes:
  assumes H: "g_holds K ctx eth ver mux s [] []" and A: "\<forall>n. alloc_ok K n"
    and R: "rx_route d mux idx net"
    and P: "\<forall>p \<in> set (sends xs). g_takes K ctx eth p \<and> is_ip (packet_of eth p)
      \<and> length (packet_of eth p) \<le> 1500"
  shows "\<exists>s'. tx_run (g_send K ctx) (rmnet_usb_tx_agg_work K) (xs @ [Work]) s = Some s'
    \<and> receive_all (rmnet_usb_rx_decode K d) (sent s') =
        Some (map (\<lambda>p. deliver (ether net) (gobi_bridge_mode_rx_fixup d net) idx (packet_of eth p))
          (sends xs))"
proof -
  obtain s' gs where r: "tx_run (g_send K ctx) (rmnet_usb_tx_agg_work K) (xs @ [Work]) s = Some s'"
    and h: "g_holds K ctx eth ver mux s' gs []" and c: "concat gs = sends xs"
    using gobi.run_then_work [OF H _ A, of xs] P by blast
  have "sent s' = map (pack (g_enc eth ver mux)) gs" using h by (simp add: g_holds_def carries_def)
  moreover have "rmnet_usb_rx_decode K d b = Some (Some (map (\<lambda>p. deliver (ether net)
      (gobi_bridge_mode_rx_fixup d net) idx (packet_of eth p)) g))"
    if "g \<in> set gs" "skb_data b = pack (g_enc eth ver mux) g" for g b
    by (rule gobi_decode_group [OF enc_frames(2) R A _ that(2)])
      (use P that(1) c [symmetric] in auto)
  ultimately show ?thesis using r c receive_all_groups [of gs "g_enc eth ver mux"] by auto
qed

theorem gobi_uplink_decodes_witness:
  "\<exists>s'. tx_run (g_send demo_kernel demo_ctx) (rmnet_usb_tx_agg_work demo_kernel)
      ([Send (True, demo_skb), Send (False, demo_skb)] @ [Work]) demo_tx = Some s'
    \<and> receive_all (rmnet_usb_rx_decode demo_kernel (demo_dev (Some demo_net))) (sent s') =
        Some (map (\<lambda>p. deliver (ether demo_net)
            (gobi_bridge_mode_rx_fixup (demo_dev (Some demo_net)) demo_net) 0 (packet_of False p))
          (sends [Send (True, demo_skb), Send (False, demo_skb)]))"
  by (rule gobi_uplink_decodes [OF demo_holds(2) _ demo_route])
    (simp_all add: demo_takes demo_packet)

text \<open>
  C14. What the decoder of \<^verbatim>\<open>qmi_wwan_q\<close> does with any frame, however malformed, while all devices are
  registered: it ends, it never indexes outside the array of devices and never copies past the frame
  or by a negative length, every packet it hands over is IPv4 or IPv6, no longer than the MTU, and for
  a device that exists, and all of this is a function of the bytes of the frame and of the one byte
  behind it: other memory it does not see. The decoder looks at that one byte, outside the frame, when
  an 8-byte header without a packet ends the frame.
\<close>

theorem qmap_decode_safe:
  assumes "dev_ok d" "all_present d"
  shows "(\<exists>ps. qmap_packet_decode K oc d b = Some (Some ps) \<and> (\<forall>p \<in> set ps. rx_good oc d p))
    \<and> (\<forall>K' b'. skb_data b' = skb_data b \<and> alloc_ok K' = alloc_ok K \<and> peek K' b' (skb_len b) = peek K b (skb_len b) \<longrightarrow>
        qmap_packet_decode K' oc d b' = qmap_packet_decode K oc d b)"
proof -
  obtain r where "qmap_packet_decode K oc d b = Some r"
    using decode_loop_returns [of "qmap_decode_one K oc d" b 0] qmap_decode_one_safe(2,3) [OF assms(1)]
      assms(2) unfolding qmap_packet_decode_def by blast
  moreover then have "\<exists>ps. r = Some ps \<and> (\<forall>p \<in> set ps. rx_good oc d p)"
    unfolding qmap_packet_decode_def
    by (rule decode_loop_chain [rotated 2]) (use qmap_decode_one_safe(1,2) [OF assms(1)] in blast)+
  ultimately have "\<exists>ps. qmap_packet_decode K oc d b = Some (Some ps) \<and> (\<forall>p \<in> set ps. rx_good oc d p)" by blast
  moreover have "qmap_packet_decode K' oc d b' = qmap_packet_decode K oc d b" if "same_frame K b K' b'" for K' b'
    unfolding qmap_packet_decode_def by (rule qmap_decode_same [OF assms that])
  ultimately show ?thesis unfolding same_frame_def by blast
qed

text \<open>A frame cut short, in a buffer with nothing behind it and in one with more room.\<close>

theorem qmap_decode_safe_witness:
  "\<exists>ps. qmap_packet_decode demo_kernel False (demo_dev (Some demo_net)) (rx_buf [7, 0x81, 0, 2, 0x45])
      = Some (Some ps)
    \<and> list_all (rx_good False (demo_dev (Some demo_net))) ps
    \<and> qmap_packet_decode demo_kernel False (demo_dev (Some demo_net))
        ((rx_buf [7, 0x81, 0, 2, 0x45])\<lparr>skb_tail := [0, 1, 2]\<rparr>) = Some (Some ps)"
proof -
  have d: "dev_ok (demo_dev (Some demo_net))" "all_present (demo_dev (Some demo_net))"
    by (simp_all add: dev_ok_def all_present_def demo_dev_def demo_net_def dl_padding_def)
  let ?b = "rx_buf [7, 0x81, 0, 2, 0x45]"
  let ?b' = "?b\<lparr>skb_tail := [0, 1, 2]\<rparr>"
  have "skb_data ?b' = skb_data ?b" "peek demo_kernel ?b' (skb_len ?b) = peek demo_kernel ?b (skb_len ?b)"
    by (simp_all add: peek_def rx_buf_def demo_kernel_def)
  with qmap_decode_safe [OF d, of demo_kernel False ?b] show ?thesis unfolding list_all_iff by metis
qed

text \<open>
  The decoder of GobiNet ends on every frame, whatever devices are registered: a packet is
  skipped only after its length was compared with the frame.
\<close>

theorem gobi_decode_returns: "\<exists>r. rmnet_usb_rx_decode K d b = Some r"
  unfolding rmnet_usb_rx_decode_def
  by (rule decode_loop_returns) (use gobi_decode_one_progress in blast)

text \<open>
  The decoder of \<^verbatim>\<open>qmi_wwan_q\<close> never ends on a frame for a mux id whose device is absent when
  the packet is longer than the rest of the frame: the packet is skipped before its length is
  compared, \<^verbatim>\<open>skb_pull\<close> then removes nothing, and the loop sees the same packet again.
\<close>

theorem absent_device_never_returns:
  assumes "cut_short K d b"
  shows "qmap_packet_decode K oc d b = None"
proof -
  obtain k where "qmap_decode_one K oc d b 0 = Skip k" "skb_pull k b = None"
    using cut_short_same [OF assms, of oc 0] by blast
  then show ?thesis
    unfolding qmap_packet_decode_def
    by (rule decode_loop_stuck) (use assms in \<open>simp add: cut_short_def\<close>)
qed

theorem absent_device_never_returns_witness:
  "qmap_packet_decode demo_kernel False (demo_dev None) (rx_buf [0, 0x81, 1, 0, 0x45]) = None"
  by (rule absent_device_never_returns)
    (simp add: cut_short_def demo_dev_def rx_buf_def peek_def peek16_def of_le16_def elem_def
      QUECTEL_QMAP_MUX_ID_def map_hdr_size_def)

text \<open>
  GobiNet faults on two malformed headers that the other driver rejects, because its
  comparisons are signed: a mux id below the first one reads before the array of devices, and
  more padding than packet gives \<^verbatim>\<open>memcpy\<close> a negative length.
\<close>

theorem gobi_decode_faults:
  assumes b: "4 < skb_len b" "unat (peek16 K b 2) + map_hdr_size (peek K b 0) \<le> skb_len b"
    and h: "\<not> bit (peek K b 0) 7" "ip_protocol (peek K b (map_hdr_size (peek K b 0))) \<noteq> None"
    and d: "dl_padding d = 0" "qmap_mode d \<in> {1, 2, 3, 4}" and n: "unat (peek16 K b 2) \<le> 1500"
    and bad: "peek K b 1 < QUECTEL_QMAP_MUX_ID
      \<or> rx_route d (peek K b 1) idx net \<and> unat (peek16 K b 2) < unat (peek K b 0 AND 0x3F)
        \<and> alloc_ok K 0"
  shows "rmnet_usb_rx_decode K d b = Some None"
proof -
  obtain proto where pr: "ip_protocol (peek K b (map_hdr_size (peek K b 0))) = Some proto"
    using h by blast
  have len: "\<not> 1500 < sint (ucast (peek16 K b 2) - ucast (peek K b 0 AND 0x3F) - dl_padding d)"
    using n d(1) by (simp only: diff_zero sint_header_len)
  have "gobi_decode_one K d b 0 = Fault"
    using bad
  proof
    assume "peek K b 1 < QUECTEL_QMAP_MUX_ID"
    then have m: "uint (peek K b 1) - uint QUECTEL_QMAP_MUX_ID < 0" by (simp add: word_less_def)
    have "0 \<le> sint (qmap_mode d)" using d(2) by auto
    then show ?thesis
      unfolding gobi_decode_one_def Let_def using len b h pr m by simp
  next
    assume r: "rx_route d (peek K b 1) idx net \<and> unat (peek16 K b 2) < unat (peek K b 0 AND 0x3F)
        \<and> alloc_ok K 0"
    then have R: "rx_route d (peek K b 1) idx net" by simp
    have idx: "int idx < int (unat (qmap_mode d))" using R by (simp only: rx_route_def of_nat_less_iff)
    have el: "elem (mpQmapNetDev d) idx = Some (Some net)"
      using R rx_route_mux(5) [OF R] by (simp add: rx_route_def elem_def)
    have "sint (ucast (peek16 K b 2) - ucast (peek K b 0 AND 0x3F) - dl_padding d) < 0"
      using r d(1) by (simp only: diff_zero sint_header_len) linarith
    then have "copy_packet b x (ucast (peek16 K b 2) - ucast (peek K b 0 AND 0x3F) - dl_padding d) = None"
      for x by (simp add: copy_packet_def)
    then show ?thesis
      unfolding gobi_decode_one_def Let_def rx_route_mux(2,6) [OF R] using len b h pr r idx el by simp
  qed
  then show ?thesis
    unfolding rmnet_usb_rx_decode_def using b(1) by (simp add: decode_loop.simps [of _ b])
qed

theorem gobi_decode_faults_witness:
  "rmnet_usb_rx_decode demo_kernel (demo_dev (Some demo_net)) (rx_buf [0, 0x80, 0, 1, 0x45]) = Some None
    \<and> rmnet_usb_rx_decode demo_kernel (demo_dev (Some demo_net)) (rx_buf [2, 0x81, 0, 1, 0x45]) = Some None"
  using gobi_decode_faults [of "rx_buf [0, 0x80, 0, 1, 0x45]" demo_kernel "demo_dev (Some demo_net)" 0 demo_net]
    gobi_decode_faults [of "rx_buf [2, 0x81, 0, 1, 0x45]" demo_kernel "demo_dev (Some demo_net)" 0 demo_net]
    demo_route
  by (simp add: rx_buf_def peek_def peek16_def of_le16_def map_hdr_size_def ip_protocol_def
      dl_padding_def demo_dev_def QUECTEL_QMAP_MUX_ID_def)

end
