(* ===== verification/Mhi_Netdev.thy ===== *)
theory Mhi_Netdev
  imports Qmap_Rx
begin

text \<open>
  The network device on the MHI channels,
  \<^verbatim>\<open>drivers/quectel-mhi-pcie/src/devices/mhi_netdev_quectel.c\<close>: its configuration and the
  multiplexed devices, the uplink in MBIM and in QMAP mode, and the buffers of the downlink.

  Configuration: \<^verbatim>\<open>QUECTEL_BRIDGE_MODE\<close> set; \<^verbatim>\<open>MHI_NETDEV_ONE_CARD_MODE\<close>,
  \<^verbatim>\<open>CONFIG_USE_RMNET_DATA_FOR_SKIP_MEMCPY\<close>, \<^verbatim>\<open>CONFIG_IPQ5018_RATE_CONTROL\<close> and
  \<^verbatim>\<open>CONFIG_QCA_NSS_PACKET_FILTER\<close> not; no NSS callbacks (\<^verbatim>\<open>nss_cb\<close> is null); a little-endian host.
  Packet and byte counters are left out.
\<close>

section \<open>State\<close>

datatype mhi_net_type = MHI_NET_UNKNOW | MHI_NET_RMNET | MHI_NET_MBIM | MHI_NET_ETHER

record MHI_MBIM_CTX =
  tx_seq :: u16
  rx_seq :: u16
  rx_max :: u32

text \<open>An entry of \<^verbatim>\<open>mpQmapNetDev\<close>; a device whose memory was given back is \<open>Freed\<close>.\<close>

datatype net_ptr = Null | Dev qmap_net | Freed

text \<open>
  \<^verbatim>\<open>struct mhi_netdev\<close>: the array has 8 entries (that entry 0 of the Ethernet channel is the device
  itself is left out). The receive buffers are those the ring owns
  (\<open>posted\<close>, oldest first), the received ones (\<open>qmap_chain\<close>) and the ones to be used again
  (\<open>rx_allocated\<close>); \<open>real_queue_stopped\<close> is the queue of \<open>ndev\<close>, \<open>alloc_pending\<close> the delayed work.
  \<open>nd_wire\<close> has the transfers of the uplink channel, oldest first; \<open>to_stack\<close> the packets given to
  \<^verbatim>\<open>netif_receive_skb\<close>.
\<close>

record mhi_netdev =
  net_type :: mhi_net_type
  enabled :: bool
  mbim_ctx :: MHI_MBIM_CTX
  mbim_mux_id :: u32
  mru :: u32
  max_mtu :: u32
  nets :: "net_ptr list"
  nd_qmap_mode :: u32
  nd_qmap_version :: u32
  nd_qmap_size :: u32
  nd_link_state :: u32
  nd_carrier :: bool
  flow_control :: u32
  nd_dl_minimum_padding :: u32
  nd_bridge_mode :: u32
  nd_bridge_mac :: "u8 list"
  nd_use_rmnet_usb :: u32
  info_mux_id :: "u8 list"
  rmnet_map_command_stats :: "u32 list"
  alloc_failed :: nat
  posted :: "sk_buff list"
  qmap_chain :: "sk_buff list"
  rx_allocated :: "sk_buff list"
  rx_asked :: nat
  rx_queued :: nat
  alloc_pending :: bool
  real_queue_stopped :: bool
  real_tx_errors :: nat
  nd_wire :: "u8 list list"
  to_stack :: "rx_skb list"

text \<open>What the driver asks of the kernel and the MHI core, by the number of the call.\<close>

record mhi_env =
  rx_alloc_ok :: "nat \<Rightarrow> bool"
  rx_queue_ret :: "nat \<Rightarrow> int"
  ack_alloc_ok :: "nat \<Rightarrow> bool"

section \<open>Probe\<close>

definition MBIM_MUX_ID_SDX7X :: u32 where "MBIM_MUX_ID_SDX7X = 112"
definition QCUSB_MRECEIVE_MAX_BUFFER_SIZE :: u32 where "QCUSB_MRECEIVE_MAX_BUFFER_SIZE = 1024 * 32"

text \<open>Lengths of \<^verbatim>\<open>usb_cdc_ncm_nth16\<close>, \<^verbatim>\<open>_ndp16\<close> and \<^verbatim>\<open>_dpe16\<close>; the header of an uplink frame has two entries.\<close>

definition mbim_hdr_len :: nat where [simp]: "mbim_hdr_len = 12 + 8 + 2 * 4"

text \<open>The modules that use QMAPv5: vendor and device.\<close>

definition qmap_v5_ids :: "(u16 \<times> u16) list" where
  "qmap_v5_ids = [(0x17cb, 0x0306), (0x17cb, 0x0308), (0x1eac, 0x1004), (0x17cb, 0x011a),
     (0x1eac, 0x100b), (0x17cb, 0x0309)]"

text \<open>What probing depends on; the functions take the index of a multiplexed device.\<close>

record probe_env =
  vendor :: u16
  dev_id :: u16
  param_mbim_enabled :: u32
  param_qmap_mode :: u32
  param_bridge_mode :: u32
  kzalloc_ok :: bool
  stats_ok :: bool
  prepare_ret :: int
  netdev_ok :: bool
  register_ret :: int
  free_tre :: nat
  vnd_alloc_ok :: "nat \<Rightarrow> bool"
  vnd_stats_ok :: "nat \<Rightarrow> bool"
  vnd_register_ret :: "nat \<Rightarrow> int"

definition mhi_net_config :: "probe_env \<Rightarrow> mhi_net_type \<Rightarrow> mhi_netdev" where
  "mhi_net_config P t =
     (let d = \<lparr>net_type = t, enabled = False, mbim_ctx = \<lparr>tx_seq = 0, rx_seq = 0, rx_max = 0\<rparr>,
            mbim_mux_id = 0, mru = 15 * 1024, max_mtu = 15 * 1024 - (4 + 4),
            nets = replicate 8 Null, nd_qmap_mode = param_qmap_mode P, nd_qmap_version = 5,
            nd_qmap_size = 0, nd_link_state = 0, nd_carrier = False, flow_control = 0,
            nd_dl_minimum_padding = 0, nd_bridge_mode = 0, nd_bridge_mac = replicate 6 0,
            nd_use_rmnet_usb = 1, info_mux_id = replicate 8 0,
            rmnet_map_command_stats = replicate 10 0, alloc_failed = 0, posted = [],
            qmap_chain = [], rx_allocated = [], rx_asked = 0, rx_queued = 0,
            alloc_pending = False, real_queue_stopped = False, real_tx_errors = 0, nd_wire = [],
            to_stack = []\<rparr>;
          d = (if t = MHI_NET_MBIM
               then d\<lparr>mru := QCUSB_MRECEIVE_MAX_BUFFER_SIZE,
                      mbim_ctx := (mbim_ctx d)\<lparr>rx_max := QCUSB_MRECEIVE_MAX_BUFFER_SIZE\<rparr>,
                      max_mtu := QCUSB_MRECEIVE_MAX_BUFFER_SIZE - of_nat mbim_hdr_len\<rparr>
               else if t = MHI_NET_ETHER then d\<lparr>mru := 8 * 1024, max_mtu := 8 * 1024\<rparr>
               else d);
          d = d\<lparr>nd_qmap_size := mru d\<rparr>;
          d = (if (vendor P, dev_id P) \<in> set qmap_v5_ids then d\<lparr>nd_qmap_version := 9\<rparr> else d);
          d = (if t = MHI_NET_ETHER
               then d\<lparr>nd_qmap_mode := 1, nd_qmap_version := 0, nd_use_rmnet_usb := 0\<rparr> else d)
      in if (vendor P, dev_id P) = (0x17cb, 0x0309) then d\<lparr>mbim_mux_id := MBIM_MUX_ID_SDX7X\<rparr>
         else d)"

text \<open>
  \<^verbatim>\<open>rmnet_vnd_register_device\<close>: an error path frees the device and returns its address.
\<close>

definition rmnet_vnd_register_device :: "probe_env \<Rightarrow> mhi_netdev \<Rightarrow> nat \<Rightarrow> u8 \<Rightarrow> net_ptr" where
  "rmnet_vnd_register_device P d i mux =
     (if \<not> vnd_alloc_ok P i then Null
      else if \<not> vnd_stats_ok P i then Freed
      else if vnd_register_ret P i < 0 then Freed
      else Dev \<lparr>ether = True, mtu = 1500,
                dev_addr = [0x02, 0x50, 0xf4, 0, 0, of_nat i + 1], stopped = False,
                tx_packets = 0, tx_bytes = 0, tx_errors = 0, mux_id = mux,
                qmap_version = ucast (nd_qmap_version d), agg_skb = None, agg_count = 0,
                agg_time = \<lparr>tv_sec = 0, tv_nsec = 0\<rparr>, agg_hrtimer = False, agg_wq = False,
                bridge_mode = (if bit (nd_bridge_mode d) i then 1 else 0), bridge_ipv4 = 0,
                bridge_mac = replicate 6 0\<rparr>)"

definition vnd_mux_id :: "probe_env \<Rightarrow> mhi_netdev \<Rightarrow> nat \<Rightarrow> u8" where
  "vnd_mux_id P d i =
     (if param_mbim_enabled P \<noteq> 0 then ucast (mbim_mux_id d + of_nat i)
      else QUECTEL_QMAP_MUX_ID + of_nat i)"

text \<open>The loop over \<open>qmap_mode\<close>; a store beyond the array, or the name of a freed device, is a fault.\<close>

fun register_vnds :: "probe_env \<Rightarrow> nat \<Rightarrow> nat \<Rightarrow> mhi_netdev \<Rightarrow> mhi_netdev option" where
  "register_vnds P i 0 d = Some d"
| "register_vnds P i (Suc k) d =
     (let p = rmnet_vnd_register_device P d i (vnd_mux_id P d i)
      in if i \<ge> length (nets d) then None
         else let d = d\<lparr>nets := (nets d)[i := p]\<rparr>
              in case p of
                   Null \<Rightarrow> register_vnds P (i + 1) k d
                 | Dev _ \<Rightarrow> register_vnds P (i + 1) k
                     (d\<lparr>info_mux_id := (info_mux_id d)[i := vnd_mux_id P d i]\<rparr>)
                 | Freed \<Rightarrow> None)"

section \<open>Receive buffers\<close>

text \<open>
  \<^verbatim>\<open>mhi_netdev_alloc_skb\<close> fills the free descriptors: a buffer to be used again first. A buffer
  that cannot be queued is freed.
\<close>

fun alloc_loop :: "kernel \<Rightarrow> mhi_env \<Rightarrow> nat \<Rightarrow> mhi_netdev \<Rightarrow> int \<times> mhi_netdev" where
  "alloc_loop K E 0 d = (0, d)"
| "alloc_loop K E (Suc k) d =
     (let (b, d) =
        (case rx_allocated d of
           b # bs \<Rightarrow> (Some b, d\<lparr>rx_allocated := bs\<rparr>)
         | [] \<Rightarrow> (if rx_alloc_ok E (rx_asked d) then Some (new_skb K (unat (mru d))) else None,
                 d\<lparr>rx_asked := rx_asked d + 1\<rparr>))
      in case b of
           None \<Rightarrow> (- ENOMEM, d)
         | Some b \<Rightarrow>
             if \<not> enabled d then (- EIO, d)
             else if rx_queue_ret E (rx_queued d) \<noteq> 0
             then (- EIO, d\<lparr>rx_queued := rx_queued d + 1\<rparr>)
             else alloc_loop K E k (d\<lparr>rx_queued := rx_queued d + 1, posted := posted d @ [b]\<rparr>))"

definition mhi_netdev_alloc_skb :: "kernel \<Rightarrow> mhi_env \<Rightarrow> nat \<Rightarrow> mhi_netdev \<Rightarrow> int \<times> mhi_netdev" where
  "mhi_netdev_alloc_skb K E no_tre d = alloc_loop K E no_tre d"

text \<open>The delayed work: without memory it schedules itself again.\<close>

definition mhi_netdev_alloc_work :: "kernel \<Rightarrow> mhi_env \<Rightarrow> nat \<Rightarrow> mhi_netdev \<Rightarrow> mhi_netdev" where
  "mhi_netdev_alloc_work K E no_tre d =
     (let (ret, d) = mhi_netdev_alloc_skb K E no_tre (d\<lparr>alloc_pending := False\<rparr>)
      in if ret = - ENOMEM then d\<lparr>alloc_pending := True\<rparr> else d)"

definition mhi_netdev_dealloc :: "mhi_netdev \<Rightarrow> mhi_netdev" where
  "mhi_netdev_dealloc d = d\<lparr>rx_allocated := []\<rparr>"

text \<open>
  The completion of the oldest transfer: \<open>vs\<close> are the bytes the device wrote. A failed transfer
  frees the buffer; more bytes than the buffer has is \<^verbatim>\<open>skb_over_panic\<close>.
\<close>

definition mhi_netdev_xfer_dl_cb :: "int \<Rightarrow> u8 list \<Rightarrow> mhi_netdev \<Rightarrow> mhi_netdev option" where
  "mhi_netdev_xfer_dl_cb transaction_status vs d =
     (case posted d of
        [] \<Rightarrow> None
      | b # bs \<Rightarrow>
          let d = d\<lparr>posted := bs\<rparr>
          in if transaction_status \<noteq> 0 then Some d
             else do {
               b \<leftarrow> skb_put_data vs b;
               Some (d\<lparr>qmap_chain := qmap_chain d @ [b]\<rparr>) })"

text \<open>
  \<^verbatim>\<open>mhi_netdev_enable_iface\<close>, the first time: the result of each call decides how far it gets. The
  last step posts the first buffers.
\<close>

definition mhi_netdev_enable_iface :: "probe_env \<Rightarrow> kernel \<Rightarrow> mhi_env \<Rightarrow> mhi_netdev \<Rightarrow>
    int \<times> mhi_netdev" where
  "mhi_netdev_enable_iface P K E d =
     (if prepare_ret P \<noteq> 0 then (prepare_ret P, d)
      else if \<not> netdev_ok P then (- ENOMEM, d)
      else
        let d = (if net_type d = MHI_NET_RMNET \<or> net_type d = MHI_NET_MBIM
                 then d\<lparr>nd_bridge_mode := param_bridge_mode P\<rparr> else d)
        in if register_ret P \<noteq> 0 then (register_ret P, d)
           else let (ret, d) = mhi_netdev_alloc_skb K E (free_tre P) (d\<lparr>enabled := True\<rparr>)
                in (0, if ret \<noteq> 0 then d\<lparr>alloc_pending := True\<rparr> else d))"

text \<open>
  \<^verbatim>\<open>mhi_netdev_probe\<close>: the error code, or 0 with the device; no result is a fault.
\<close>

definition mhi_netdev_probe :: "probe_env \<Rightarrow> kernel \<Rightarrow> mhi_env \<Rightarrow> string \<Rightarrow>
    (int \<times> mhi_netdev option) option" where
  "mhi_netdev_probe P K E chan =
     (if \<not> kzalloc_ok P then Some (- ENOMEM, None)
      else if chan \<noteq> ''IP_HW0'' \<and> chan \<noteq> ''IP_SW0'' then Some (- EINVAL, None)
      else
        let t = (if chan = ''IP_HW0''
                 then (if param_mbim_enabled P \<noteq> 0 then MHI_NET_MBIM else MHI_NET_RMNET)
                 else MHI_NET_ETHER);
            d = mhi_net_config P t
        in if \<not> stats_ok P then Some (- ENOMEM, None)
           else case mhi_netdev_enable_iface P K E d of
             (ret, d) \<Rightarrow>
               if ret \<noteq> 0 then Some (ret, None)
               else if t = MHI_NET_ETHER then Some (0, Some (d\<lparr>nd_carrier := True\<rparr>))
               else map_option (\<lambda>d. (0, Some d))
                 (register_vnds P 0 (unat (nd_qmap_mode d)) d))"

section \<open>Uplink\<close>

text \<open>
  The MBIM header of one datagram. \<open>stale\<close> are the two bytes at \<open>wSequence\<close>, which are not written
  here; \<open>c[3] = tci\<close> keeps the low byte of the session.
\<close>

definition mbim_hdr :: "u8 list \<Rightarrow> u8 \<Rightarrow> nat \<Rightarrow> u8 list" where
  "mbim_hdr stale session len =
     [0x4E, 0x43, 0x4D, 0x48] @ le16 12 @ stale @ le16 (of_nat (mbim_hdr_len + len)) @ le16 12
     @ [0x49, 0x50, 0x53, session] @ le16 (8 + 4 * 2) @ le16 0
     @ le16 (of_nat mbim_hdr_len) @ le16 (of_nat len) @ le16 0 @ le16 0"

definition add_mbim_hdr :: "u32 \<Rightarrow> u8 list \<Rightarrow> sk_buff \<Rightarrow> u8 \<Rightarrow> sk_buff option" where
  "add_mbim_hdr qmode stale b mux =
     (let tci = (if qmode > 1 then ucast mux + 1 else ucast mux :: u16)
      in if skb_headroom b < mbim_hdr_len then None
         else skb_push_data (mbim_hdr stale (ucast tci) (skb_len b)) b)"

text \<open>
  \<^verbatim>\<open>rmnet_vnd_start_xmit\<close> of this driver, with the \<^verbatim>\<open>rmnet_vnd_tx_agg\<close> it calls: every packet is a
  frame of its own. The QMAP encoders are those of GobiNet, line by line. The result of
  \<^verbatim>\<open>dev_queue_xmit\<close> is returned.
\<close>

definition mhi_vnd_header :: "u32 \<Rightarrow> mhi_net_type \<Rightarrow> u8 list \<Rightarrow> sk_buff \<Rightarrow> qmap_tx \<Rightarrow>
    sk_buff option option" where
  "mhi_vnd_header qmode t stale b s =
     (if t = MHI_NET_MBIM then Some (add_mbim_hdr qmode stale b (mux_id s))
      else if qmap_version s = 5 then map_option Some (gobi_add_qhdr b (mux_id s))
      else if qmap_version s = 9 then map_option Some (gobi_add_qhdr_v5 b (mux_id s))
      else Some None)"

datatype vnd_tx = TX_BUSY | TX_DROPPED | TX_RESULT int

definition mhi_vnd_start_xmit :: "kernel \<Rightarrow> u32 \<Rightarrow> mhi_net_type \<Rightarrow> u8 list \<Rightarrow> sk_buff \<Rightarrow> qmap_tx \<Rightarrow>
    (vnd_tx \<times> qmap_tx) option" where
  "mhi_vnd_start_xmit K qmode t stale b s =
     (if real_stopped s then Some (TX_BUSY, s\<lparr>stopped := True\<rparr>)
      else
        let (s, go) = (if ether s then
                         (let (s, go) = (if bridge_mode s \<noteq> 0 then bridge_mode_tx_fixup K b s
                                         else (s, Some b))
                          in (s, Option.bind go (skb_pull ETH_HLEN)))
                       else (s, Some b))
        in case go of
             None \<Rightarrow> Some (TX_DROPPED, s)
           | Some b' \<Rightarrow> do {
               f \<leftarrow> mhi_vnd_header qmode t stale b' s;
               case f of
                 None \<Rightarrow> Some (TX_DROPPED, s)
               | Some f \<Rightarrow>
                   let err = xmit_ret K (length (sent s));
                       s = s\<lparr>sent := sent s @ [skb_data f]\<rparr>
                   in Some (TX_RESULT err,
                        if err = 0
                        then s\<lparr>tx_packets := tx_packets s + 1, tx_bytes := tx_bytes s + skb_len b\<rparr>
                        else s\<lparr>tx_errors := tx_errors s + 1\<rparr>) })"

text \<open>The first \<open>n\<close> entries of the array: an entry that is not there or was freed is a fault.\<close>

definition on_nets :: "(qmap_net \<Rightarrow> qmap_net) \<Rightarrow> nat \<Rightarrow> net_ptr list \<Rightarrow> net_ptr list option" where
  "on_nets f n ps =
     (if n > length ps \<or> Freed \<in> set (take n ps) then None
      else Some (map (\<lambda>p. case p of Dev net \<Rightarrow> Dev (f net) | _ \<Rightarrow> p) (take n ps) @ drop n ps))"

text \<open>
  \<^verbatim>\<open>mhi_netdev_xmit\<close> of the real device; \<open>free\<close> is the number of free descriptors of the uplink ring
  and \<open>res\<close> the result of \<^verbatim>\<open>mhi_queue_transfer\<close>. The sequence number is stored into the header.
\<close>

definition mhi_netdev_xmit :: "nat \<Rightarrow> int \<Rightarrow> u16 \<Rightarrow> u8 list \<Rightarrow> mhi_netdev \<Rightarrow> mhi_netdev option" where
  "mhi_netdev_xmit free res protocol frame d =
     (if (net_type d = MHI_NET_RMNET \<or> net_type d = MHI_NET_MBIM) \<and> protocol \<noteq> ETH_P_MAP then Some d
      else do {
        (frame, d) \<leftarrow>
          (if net_type d = MHI_NET_MBIM
           then map_option (\<lambda>f. (f, d\<lparr>mbim_ctx := (mbim_ctx d)\<lparr>tx_seq := tx_seq (mbim_ctx d) + 1\<rparr>\<rparr>))
             (puts frame 6 (le16 (tx_seq (mbim_ctx d))))
           else Some (frame, d));
        d \<leftarrow> (if free < 16
              then map_option (\<lambda>ps. d\<lparr>nets := ps, real_queue_stopped := True\<rparr>)
                (on_nets (\<lambda>net. net\<lparr>stopped := True\<rparr>) (unat (nd_qmap_mode d)) (nets d))
              else Some d);
        Some (if res \<noteq> 0 then d\<lparr>real_tx_errors := real_tx_errors d + 1\<rparr>
              else d\<lparr>nd_wire := nd_wire d @ [frame]\<rparr>) })"

text \<open>\<^verbatim>\<open>mhi_netdev_xfer_ul_cb\<close>: a completed transfer wakes the queues when there is room again.\<close>

definition mhi_netdev_xfer_ul_cb :: "int \<Rightarrow> nat \<Rightarrow> mhi_netdev \<Rightarrow> mhi_netdev option" where
  "mhi_netdev_xfer_ul_cb transaction_status free d =
     (if transaction_status = 0 \<and> real_queue_stopped d \<and> enabled d \<and> free > 32
      then map_option (\<lambda>ps. d\<lparr>nets := ps, real_queue_stopped := False\<rparr>)
        (on_nets (\<lambda>net. net\<lparr>stopped := False\<rparr>) (unat (nd_qmap_mode d)) (nets d))
      else Some d)"

section \<open>Control\<close>

definition rmnet_vnd_open :: "bool \<Rightarrow> bool \<Rightarrow> bool \<Rightarrow> int \<times> bool" where
  "rmnet_vnd_open real_up real_carrier carrier =
     (if \<not> real_up then (- ENETDOWN, carrier) else (0, real_carrier \<or> carrier))"

definition mhi_vnd_change_mtu :: "int \<Rightarrow> u32 \<Rightarrow> qmap_net \<Rightarrow> int \<times> qmap_net" where
  "mhi_vnd_change_mtu new_mtu limit net =
     (if new_mtu < 0 then (- EINVAL, net)
      else if (word_of_int new_mtu :: u32) > limit then (- EINVAL, net)
      else (0, net\<lparr>mtu := word_of_int new_mtu\<rparr>))"

definition qmap_setting_store :: "u32 \<Rightarrow> u32 \<Rightarrow> u32 \<Rightarrow> mhi_netdev \<Rightarrow> int \<times> mhi_netdev" where
  "qmap_setting_store settings_size expected padding d =
     (if settings_size \<noteq> expected then (- EOPNOTSUPP, d)
      else (0, d\<lparr>nd_dl_minimum_padding := padding\<rparr>))"

section \<open>Witness data\<close>

text \<open>A probe that grants everything, with two devices.\<close>

definition demo_env :: mhi_env where
  "demo_env = \<lparr>rx_alloc_ok = \<lambda>_. True, rx_queue_ret = \<lambda>_. 0, ack_alloc_ok = \<lambda>_. True\<rparr>"

definition demo_probe :: "u32 \<Rightarrow> probe_env" where
  "demo_probe mbim = \<lparr>vendor = 0x17cb, dev_id = 0x0306, param_mbim_enabled = mbim, param_qmap_mode = 2,
     param_bridge_mode = 0, kzalloc_ok = True, stats_ok = True, prepare_ret = 0, netdev_ok = True,
     register_ret = 0, free_tre = 4, vnd_alloc_ok = \<lambda>_. True, vnd_stats_ok = \<lambda>_. True,
     vnd_register_ret = \<lambda>_. 0\<rparr>"

end
