(* ===== verification/Mhi_Netdev_Rx.thy ===== *)
theory Mhi_Netdev_Rx
  imports Mhi_Netdev
begin

text \<open>
  The downlink of the MHI network device (\<^verbatim>\<open>mhi_netdev_quectel.c\<close>): the MBIM decoder, the QMAP
  decoder with the flow-control commands it answers, and the poll function that feeds them and
  uses the receive buffers again.
\<close>

section \<open>What a handler collects\<close>

text \<open>
  The chain of packets, how many buffers were asked for and refused, how many were taken and
  neither queued nor freed, and the acknowledgements given to \<^verbatim>\<open>dev_queue_xmit\<close> with the number
  of buffers asked for them.
\<close>

record mhi_rx =
  skb_chain :: "rx_skb list"
  asked :: nat
  refused :: nat
  leaked :: nat
  acks :: "u8 list list"
  ack_asked :: nat

definition no_rx :: mhi_rx where
  "no_rx = \<lparr>skb_chain = [], asked = 0, refused = 0, leaked = 0, acks = [], ack_asked = 0\<rparr>"

definition mhi_bridge_mode_rx_fixup :: "mhi_netdev \<Rightarrow> qmap_net \<Rightarrow> u8 list" where
  "mhi_bridge_mode_rx_fixup d net =
     (let (mode, mac) = (if nd_qmap_mode d > 0 then (bridge_mode net, bridge_mac net)
                         else (nd_bridge_mode d, nd_bridge_mac d))
      in if mode \<noteq> 0 then mac else dev_addr net)"

section \<open>MBIM\<close>

definition peek_le16 :: "kernel \<Rightarrow> sk_buff \<Rightarrow> nat \<Rightarrow> u16" where
  "peek_le16 K b i = of_le16 (peek K b i) (peek K b (i + 1))"

datatype ndp_end = Next_ndp | Goto_error | Ndp_fault

text \<open>
  The datagrams of one NDP, entry after entry from \<open>pos\<close>. The protocol is looked at after the
  buffer was allocated; the device is used only when the protocol is known. A packet is recorded
  from its \<open>mac_header\<close> on: the last statement of the loop body, \<^verbatim>\<open>__skb_pull(qmap_skb, ETH_HLEN)\<close> for an
  Ethernet device, hides these 14 bytes from the stack, which finds them by \<open>mac_header\<close>. Nothing keeps
  the entries inside the frame: \<open>pos\<close> is compared with nothing.
\<close>

fun mbim_datagrams :: "kernel \<Rightarrow> mhi_netdev \<Rightarrow> nat \<Rightarrow> net_ptr \<Rightarrow> sk_buff \<Rightarrow> nat \<Rightarrow> nat \<Rightarrow> mhi_rx \<Rightarrow>
    ndp_end \<times> mhi_rx" where
  "mbim_datagrams K d idx p b pos 0 r = (Next_ndp, r)"
| "mbim_datagrams K d idx p b pos (Suc k) r =
     (let offset = unat (peek_le16 K b pos);
          len = unat (peek_le16 K b (pos + 2))
      in if offset = 0 \<or> len = 0 then (Next_ndp, r)
         else if offset + len > skb_len b \<or> len > unat (rx_max (mbim_ctx d)) then (Goto_error, r)
         else if \<not> alloc_ok K (asked r)
         then (Goto_error, r\<lparr>asked := asked r + 1, refused := refused r + 1\<rparr>)
         else case ip_protocol (peek K b offset) of
           None \<Rightarrow> (Goto_error, r\<lparr>asked := asked r + 1, leaked := leaked r + 1\<rparr>)
         | Some protocol \<Rightarrow>
             (case p of
                Dev net \<Rightarrow>
                  mbim_datagrams K d idx p b (pos + 4) k
                    (r\<lparr>asked := asked r + 1,
                       skb_chain := skb_chain r @
                         [\<lparr>rx_dev = idx,
                           rx_data = link_header (ether net) (mhi_bridge_mode_rx_fixup d net) protocol
                             @ take len (drop offset (skb_data b)),
                           rx_protocol = protocol\<rparr>]\<rparr>)
              | _ \<Rightarrow> (Ndp_fault, r\<lparr>asked := asked r + 1\<rparr>)))"

text \<open>The session of an NDP, from its signature.\<close>

definition ndp_tci :: "kernel \<Rightarrow> sk_buff \<Rightarrow> nat \<Rightarrow> u16 option" where
  "ndp_tci K b off =
     (if peekn K b off 3 = [0x49, 0x50, 0x53] then Some (ucast (peek K b (off + 3)))
      else if peekn K b off 3 = [0x44, 0x53, 0x53] then Some (ucast (peek K b (off + 3)) + 256)
      else None)"

text \<open>
  The index of the device of a session; \<open>qmode\<close> is the module parameter. \<open>tci\<close> becomes an \<open>int\<close>
  but \<open>mbim_mux_id\<close> is unsigned, so both differences wrap at 32 bits.
\<close>

definition mbim_index :: "u32 \<Rightarrow> mhi_netdev \<Rightarrow> u16 \<Rightarrow> nat option" where
  "mbim_index qmode d tci =
     (if (qmode = 1 \<and> ucast tci \<noteq> mbim_mux_id d) \<or> (qmode > 1 \<and> ucast tci - mbim_mux_id d > qmode)
      then None
      else Some (if qmode = 1 then 0 else unat (ucast tci - 1 - mbim_mux_id d)))"

definition mbim_ndp :: "kernel \<Rightarrow> u32 \<Rightarrow> mhi_netdev \<Rightarrow> sk_buff \<Rightarrow> nat \<Rightarrow> mhi_rx \<Rightarrow>
    ndp_end \<times> mhi_rx" where
  "mbim_ndp K qmode d b off r =
     (if skb_len b < off + 8 then (Goto_error, r)
      else if peek_le16 K b (off + 4) < 0x10 then (Goto_error, r)
      else
        let nframes = (unat (peek_le16 K b (off + 4)) - 8) div 4
        in if skb_len b < 8 + nframes * 4 then (Goto_error, r)
           else case Option.bind (ndp_tci K b off) (mbim_index qmode d) of
             None \<Rightarrow> (Goto_error, r)
           | Some idx \<Rightarrow>
               (case elem (nets d) idx of
                  None \<Rightarrow> (Ndp_fault, r)
                | Some p \<Rightarrow> mbim_datagrams K d idx p b (off + 8) nframes r))"

text \<open>The loop over the NDPs follows \<open>wNextNdpIndex\<close> until it is 0; a loop that never ends has no result.\<close>

partial_function (option) mbim_ndps :: "kernel \<Rightarrow> u32 \<Rightarrow> mhi_netdev \<Rightarrow> sk_buff \<Rightarrow> nat \<Rightarrow> mhi_rx \<Rightarrow>
    mhi_rx option option" where
  "mbim_ndps K qmode d b off r =
     (if off = 0 then Some (Some r)
      else case mbim_ndp K qmode d b off r of
        (Next_ndp, r') \<Rightarrow> mbim_ndps K qmode d b (unat (peek_le16 K b (off + 6))) r'
      | (Goto_error, r') \<Rightarrow> Some (Some r')
      | (Ndp_fault, r') \<Rightarrow> Some None)"

definition mbim_header_ok :: "kernel \<Rightarrow> mhi_netdev \<Rightarrow> sk_buff \<Rightarrow> bool" where
  "mbim_header_ok K d b \<longleftrightarrow> 12 + 8 \<le> skb_len b \<and> peekn K b 0 4 = [0x4E, 0x43, 0x4D, 0x48]
     \<and> unat (peek_le16 K b 8) \<le> unat (rx_max (mbim_ctx d))"

definition rmnet_mbim_rx_handler :: "kernel \<Rightarrow> u32 \<Rightarrow> mhi_netdev \<Rightarrow> sk_buff \<Rightarrow>
    (mhi_netdev \<times> mhi_rx) option option" where
  "rmnet_mbim_rx_handler K qmode d b =
     (if \<not> mbim_header_ok K d b then Some (Some (d, no_rx))
      else
        let d = d\<lparr>mbim_ctx := (mbim_ctx d)\<lparr>rx_seq := peek_le16 K b 6 + 1\<rparr>\<rparr>
        in map_option (map_option (\<lambda>r. (d\<lparr>alloc_failed := alloc_failed d + refused r\<rparr>, r)))
             (mbim_ndps K qmode d b (unat (peek_le16 K b 10)) no_rx))"

section \<open>QMAP commands\<close>

definition RMNET_MAP_COMMAND_FLOW_DISABLE :: u8 where [simp]: "RMNET_MAP_COMMAND_FLOW_DISABLE = 1"
definition RMNET_MAP_COMMAND_FLOW_ENABLE :: u8 where [simp]: "RMNET_MAP_COMMAND_FLOW_ENABLE = 2"
definition RMNET_MAP_COMMAND_UNKNOWN :: nat where [simp]: "RMNET_MAP_COMMAND_UNKNOWN = 9"
definition RMNET_MAP_COMMAND_ACK :: u8 where [simp]: "RMNET_MAP_COMMAND_ACK = 1"
definition RMNET_MAP_COMMAND_UNSUPPORTED :: u8 where [simp]: "RMNET_MAP_COMMAND_UNSUPPORTED = 2"

text \<open>\<^verbatim>\<open>sizeof(struct rmnet_map_header) + sizeof(struct rmnet_map_control_command)\<close>.\<close>

definition map_command_len :: nat where [simp]: "map_command_len = 4 + 16"

text \<open>The acknowledgement is the command with another type; it is copied whatever the frame's length is.\<close>

definition rmnet_map_send_ack :: "kernel \<Rightarrow> mhi_env \<Rightarrow> u8 \<Rightarrow> sk_buff \<Rightarrow> mhi_rx \<Rightarrow> mhi_rx" where
  "rmnet_map_send_ack K E type b r =
     (if \<not> ack_alloc_ok E (ack_asked r) then r\<lparr>ack_asked := ack_asked r + 1\<rparr>
      else
        let cmd = peekn K b 0 map_command_len
        in r\<lparr>ack_asked := ack_asked r + 1,
             acks := acks r @ [cmd[5 := (cmd ! 5 AND 0xFC) OR (type AND 0x03)]]\<rparr>)"

text \<open>
  Both comparisons are those of the caller, which has passed them; a missing or freed entry is a
  fault. \<^verbatim>\<open>rmnet_data_vnd_do_flow_control\<close> does nothing.
\<close>

definition rmnet_map_do_flow_control :: "u8 \<Rightarrow> bool \<Rightarrow> mhi_netdev \<Rightarrow> (u8 \<times> mhi_netdev) option" where
  "rmnet_map_do_flow_control mux enable d =
     (let mux_id = mux - QUECTEL_QMAP_MUX_ID
      in if ucast mux_id \<ge> nd_qmap_mode d then Some (RMNET_MAP_COMMAND_UNSUPPORTED, d)
         else case elem (nets d) (unat mux_id) of
           Some Null \<Rightarrow> Some (RMNET_MAP_COMMAND_UNSUPPORTED, d)
         | Some (Dev net) \<Rightarrow>
             Some (RMNET_MAP_COMMAND_ACK,
               d\<lparr>flow_control := (if enable then flow_control d OR push_bit (unat mux_id) 1
                                  else flow_control d AND NOT (push_bit (unat mux_id) 1))\<rparr>)
         | _ \<Rightarrow> None)"

definition count_command :: "nat \<Rightarrow> mhi_netdev \<Rightarrow> mhi_netdev" where
  "count_command i d =
     d\<lparr>rmnet_map_command_stats := (rmnet_map_command_stats d)[i := rmnet_map_command_stats d ! i + 1]\<rparr>"

text \<open>The command stands after the first header, also when there is a second one.\<close>

definition rmnet_data_map_command :: "kernel \<Rightarrow> mhi_env \<Rightarrow> sk_buff \<Rightarrow> mhi_netdev \<times> mhi_rx \<Rightarrow>
    (mhi_netdev \<times> mhi_rx) option" where
  "rmnet_data_map_command K E b s =
     (case s of (d, r) \<Rightarrow>
        let command_name = peek K b 4;
            d = (if unat command_name < 10 then count_command (unat command_name) d else d)
        in if command_name = RMNET_MAP_COMMAND_FLOW_ENABLE
              \<or> command_name = RMNET_MAP_COMMAND_FLOW_DISABLE
           then do {
             (rc, d) \<leftarrow> rmnet_map_do_flow_control (peek K b 1)
                (command_name = RMNET_MAP_COMMAND_FLOW_ENABLE) d;
             Some (d, if rc = RMNET_MAP_COMMAND_ACK then rmnet_map_send_ack K E rc b r else r) }
           else Some (count_command RMNET_MAP_COMMAND_UNKNOWN d, r))"

section \<open>QMAP packets\<close>

datatype mhi_action =
  MStop | MNoMem | MSkip nat | MCommand nat | MQueue rx_skb nat | MFault

definition mhi_dl_padding :: "mhi_netdev \<Rightarrow> u32" where
  "mhi_dl_padding d = (if nd_qmap_version d = 9 then nd_dl_minimum_padding d else 0)"

text \<open>\<open>mux_id\<close> and \<open>skb_len\<close> are compared with unsigned values, as in \<^verbatim>\<open>qmi_wwan_q\<close>; a freed device is a fault.
  As for MBIM, a packet is recorded from its \<open>mac_header\<close> on, where the Ethernet header stays after
  \<^verbatim>\<open>__skb_pull\<close>.\<close>

definition mhi_decode_one :: "kernel \<Rightarrow> mhi_netdev \<Rightarrow> sk_buff \<Rightarrow> nat \<Rightarrow> mhi_action" where
  "mhi_decode_one K d b n =
     (let h = peek K b 0;
          hdr_size = map_hdr_size h;
          pkt_len = peek16 K b 2;
          len = ucast pkt_len - ucast (h AND 0x3F) - mhi_dl_padding d;
          mux = ucast (peek K b 1) - ucast QUECTEL_QMAP_MUX_ID :: u32
      in if mux \<ge> nd_qmap_mode d then MStop
         else case elem (nets d) (unat mux) of
           Some Null \<Rightarrow> MSkip (unat pkt_len + hdr_size)
         | Some (Dev net) \<Rightarrow>
             if len > mtu net then MStop
             else if skb_len b < unat pkt_len + hdr_size then MStop
             else if bit h 7 then MCommand (unat pkt_len + hdr_size)
             else (case ip_protocol (peek K b hdr_size) of
               None \<Rightarrow> MStop
             | Some protocol \<Rightarrow>
                 if \<not> alloc_ok K n then MNoMem
                 else (case copy_packet b hdr_size len of
                   None \<Rightarrow> MFault
                 | Some pkt \<Rightarrow>
                     MQueue \<lparr>rx_dev = unat mux,
                            rx_data = link_header (ether net)
                              (mhi_bridge_mode_rx_fixup d net) protocol @ pkt,
                            rx_protocol = protocol\<rparr> (unat pkt_len + hdr_size)))
         | _ \<Rightarrow> MFault)"

partial_function (option) qmi_loop :: "kernel \<Rightarrow> mhi_env \<Rightarrow> mhi_netdev \<Rightarrow> sk_buff \<Rightarrow> mhi_rx \<Rightarrow>
    (mhi_netdev \<times> mhi_rx) option option" where
  "qmi_loop K E d b r =
     (if skb_len b \<le> 4 then Some (Some (d, r))
      else case mhi_decode_one K d b (asked r) of
        MStop \<Rightarrow> Some (Some (d, r))
      | MNoMem \<Rightarrow> Some (Some (d\<lparr>alloc_failed := alloc_failed d + 1\<rparr>,
                              r\<lparr>asked := asked r + 1, refused := refused r + 1\<rparr>))
      | MFault \<Rightarrow> Some None
      | MSkip k \<Rightarrow> qmi_loop K E d (case skb_pull k b of None \<Rightarrow> b | Some b' \<Rightarrow> b') r
      | MCommand k \<Rightarrow>
          (case rmnet_data_map_command K E b (d, r) of
             None \<Rightarrow> Some None
           | Some (d', r') \<Rightarrow> qmi_loop K E d' (case skb_pull k b of None \<Rightarrow> b | Some b' \<Rightarrow> b') r')
      | MQueue p k \<Rightarrow>
          qmi_loop K E d (case skb_pull k b of None \<Rightarrow> b | Some b' \<Rightarrow> b')
            (r\<lparr>asked := asked r + 1, skb_chain := skb_chain r @ [p]\<rparr>))"

definition rmnet_qmi_rx_handler :: "kernel \<Rightarrow> mhi_env \<Rightarrow> mhi_netdev \<Rightarrow> sk_buff \<Rightarrow>
    (mhi_netdev \<times> mhi_rx) option option" where
  "rmnet_qmi_rx_handler K E d b = qmi_loop K E d b no_rx"

section \<open>Receiving\<close>

text \<open>
  \<^verbatim>\<open>rmnet_rx_handler\<close> on a frame of the real device that nobody else holds: up to 128 buffers are
  kept, with the whole buffer free again. \<open>None\<close> is a handler that does not return, \<open>Some None\<close> a
  fault.
\<close>

definition recycle :: "sk_buff \<Rightarrow> mhi_netdev \<Rightarrow> mhi_netdev" where
  "recycle b d =
     (if length (rx_allocated d) < 128
      then d\<lparr>rx_allocated := rx_allocated d @
             [b\<lparr>skb_data := [], skb_tail := skb_data b @ skb_tail b, skb_headroom := 0\<rparr>]\<rparr>
      else d)"

definition rmnet_rx_handler :: "kernel \<Rightarrow> mhi_env \<Rightarrow> u32 \<Rightarrow> sk_buff \<Rightarrow> mhi_netdev \<Rightarrow>
    mhi_netdev option option" where
  "rmnet_rx_handler K E qmode b d =
     map_option (map_option (\<lambda>(d, r). recycle b (d\<lparr>to_stack := to_stack d @ skb_chain r\<rparr>)))
       (if net_type d = MHI_NET_MBIM then rmnet_mbim_rx_handler K qmode d b
        else rmnet_qmi_rx_handler K E d b)"

text \<open>The frames of a poll: each goes through the receive handler of the real device.\<close>

fun poll_chain :: "kernel \<Rightarrow> mhi_env \<Rightarrow> u32 \<Rightarrow> sk_buff list \<Rightarrow> mhi_netdev \<Rightarrow>
    mhi_netdev option option" where
  "poll_chain K E qmode [] d = Some (Some d)"
| "poll_chain K E qmode (b # bs) d =
     (case rmnet_rx_handler K E qmode b d of
        Some (Some d') \<Rightarrow> poll_chain K E qmode bs d'
      | x \<Rightarrow> x)"

definition mhi_netdev_ip_type_trans :: "u8 \<Rightarrow> u16" where
  "mhi_netdev_ip_type_trans c = (case ip_protocol c of Some p \<Rightarrow> p | None \<Rightarrow> ETH_P_MAP)"

text \<open>The end of a poll: new buffers, unless the delayed work is to bring them.\<close>

definition poll_refill :: "kernel \<Rightarrow> mhi_env \<Rightarrow> nat \<Rightarrow> mhi_netdev \<Rightarrow> mhi_netdev" where
  "poll_refill K E no_tre d =
     (if alloc_pending d then d
      else
        let (ret, d) = mhi_netdev_alloc_skb K E no_tre d
        in if ret = - ENOMEM then d\<lparr>alloc_failed := alloc_failed d + 1, alloc_pending := True\<rparr> else d)"

text \<open>
  \<^verbatim>\<open>mhi_netdev_poll\<close>, whose \<open>rx_work\<close> is the result of \<^verbatim>\<open>mhi_poll\<close>, after which the callbacks have
  filled \<open>qmap_chain\<close>; the flag says whether the poll is complete.
\<close>

definition mhi_netdev_poll :: "kernel \<Rightarrow> mhi_env \<Rightarrow> u32 \<Rightarrow> int \<Rightarrow> int \<Rightarrow> nat \<Rightarrow> mhi_netdev \<Rightarrow>
    (int \<times> bool \<times> mhi_netdev) option option" where
  "mhi_netdev_poll K E qmode rx_work budget no_tre d =
     (if rx_work < 0 then Some (Some (0, True, d))
      else
        map_option (map_option (\<lambda>d. (rx_work, rx_work < budget, poll_refill K E no_tre d)))
          (if net_type d = MHI_NET_MBIM \<or> net_type d = MHI_NET_RMNET
           then poll_chain K E qmode (qmap_chain d) (d\<lparr>qmap_chain := []\<rparr>)
           else if net_type d = MHI_NET_ETHER
           then Some (Some (d\<lparr>qmap_chain := [],
             to_stack := to_stack d @ map (\<lambda>b. \<lparr>rx_dev = 0, rx_data = skb_data b,
               rx_protocol = mhi_netdev_ip_type_trans (peek K b 0)\<rparr>) (qmap_chain d)\<rparr>))
           else Some (Some d)))"

section \<open>The MBIM frame of one datagram\<close>

lemma length_mbim_hdr [simp]: "length st = 2 \<Longrightarrow> length (mbim_hdr st sess n) = 28"
  by (simp add: mbim_hdr_def)

lemma mbim_frame_fields:
  assumes b: "skb_data b = mbim_hdr (le16 seq) sess (length pkt) @ pkt"
  shows "skb_len b = 28 + length pkt"
    "peekn K b 0 4 = [0x4E, 0x43, 0x4D, 0x48]" "peek_le16 K b 6 = seq"
    "peek_le16 K b 8 = of_nat (28 + length pkt)" "peek_le16 K b 10 = 12"
    "peekn K b 12 3 = [0x49, 0x50, 0x53]" "peek K b 15 = sess"
    "peek_le16 K b 16 = 16" "peek_le16 K b 18 = 0"
    "peek_le16 K b 20 = 28" "peek_le16 K b 22 = of_nat (length pkt)" "peek_le16 K b 24 = 0"
proof -
  have len: "skb_len b = 28 + length pkt" using b by simp
  have nth: "i < 28 \<Longrightarrow> peek K b i = mbim_hdr (le16 seq) sess (length pkt) ! i" for i
    using len b by (simp add: peek_data nth_append)
  show "skb_len b = 28 + length pkt" by (rule len)
  note defs = peekn_def peek_le16_def nth mbim_hdr_def le16_def upt_rec nth_append
  show "peekn K b 0 4 = [0x4E, 0x43, 0x4D, 0x48]" "peekn K b 12 3 = [0x49, 0x50, 0x53]"
    "peek K b 15 = sess"
    by (simp_all add: defs)
  show "peek_le16 K b 6 = seq" "peek_le16 K b 8 = of_nat (28 + length pkt)" "peek_le16 K b 10 = 12"
    "peek_le16 K b 16 = 16" "peek_le16 K b 18 = 0" "peek_le16 K b 20 = 28"
    "peek_le16 K b 22 = of_nat (length pkt)" "peek_le16 K b 24 = 0"
    by (simp_all add: defs of_le16_def) (simp_all add: of_le16_def [symmetric] of_le16_le16)
qed

text \<open>The session byte of a mux id, and the device the receiver finds for it.\<close>

definition mbim_session :: "u32 \<Rightarrow> u8 \<Rightarrow> u8" where
  "mbim_session qmode mux = (if qmode > 1 then mux + 1 else mux)"

definition mbim_route :: "u32 \<Rightarrow> mhi_netdev \<Rightarrow> u8 \<Rightarrow> nat \<Rightarrow> qmap_net \<Rightarrow> bool" where
  "mbim_route qmode d mux idx net \<longleftrightarrow>
     (qmode = 1 \<and> idx = 0 \<or> 1 < qmode \<and> idx < unat qmode)
     \<and> unat mux = unat (mbim_mux_id d) + idx \<and> unat mux < 255
     \<and> elem (nets d) idx = Some (Dev net)"

lemma u8_through_u16: "(ucast (ucast (x :: u8) :: u16) :: u32) = of_nat (unat x)"
proof -
  have "unat x < 2 ^ 8" using unsigned_less [of x] by simp
  then have "unat (ucast x :: u16) = unat x" by (simp add: unsigned_ucast_eq take_bit_nat_eq_self)
  moreover have "(ucast (ucast x :: u16) :: u32) = of_nat (unat (ucast x :: u16))"
    by (rule of_nat_unat [symmetric])
  ultimately show ?thesis by (simp only:)
qed

lemma mbim_index_route:
  assumes R: "mbim_route qmode d mux idx net"
  shows "mbim_index qmode d (ucast (mbim_session qmode mux)) = Some idx"
proof (cases "qmode = 1")
  case True
  then have "unat mux = unat (mbim_mux_id d)" "idx = 0" using R by (auto simp: mbim_route_def)
  moreover have "(ucast (ucast mux :: u16) :: u32) = of_nat (unat mux)" by (rule u8_through_u16)
  ultimately show ?thesis using True \<open>idx = 0\<close> by (simp add: mbim_index_def mbim_session_def)
next
  case False
  then have q: "1 < qmode" and i: "idx < unat qmode" and m: "unat mux = unat (mbim_mux_id d) + idx"
      "unat mux < 255"
    using R by (auto simp: mbim_route_def)
  have u: "unat (mux + 1) = unat mux + 1" using m(2) by (simp add: unat_word_ariths(1))
  have s: "(ucast (ucast (mux + 1) :: u16) :: u32) = mbim_mux_id d + of_nat idx + 1"
  proof -
    have "(ucast (ucast (mux + 1) :: u16) :: u32) = of_nat (unat (mux + 1))" by (rule u8_through_u16)
    also have "\<dots> = of_nat (unat (mbim_mux_id d) + idx + 1)" using u m(1) by simp
    also have "\<dots> = mbim_mux_id d + of_nat idx + 1" by simp
    finally show ?thesis .
  qed
  have "idx < 255" using m by simp
  then have o: "unat (of_nat idx + 1 :: u32) = idx + 1" "unat (of_nat idx :: u32) = idx"
    by (simp_all add: unat_word_ariths(1))
  have "\<not> of_nat idx + 1 > qmode" using i o by (simp add: word_less_nat_alt)
  moreover have "(ucast (ucast (mux + 1) :: u16) :: u32) - mbim_mux_id d = of_nat idx + 1"
    "(ucast (ucast (mux + 1) :: u16) :: u32) - 1 - mbim_mux_id d = of_nat idx"
    unfolding s by simp_all
  ultimately show ?thesis
    using q False o(2) by (simp add: mbim_index_def mbim_session_def)
qed

lemma mbim_one_ndp:
  assumes b: "skb_data b = mbim_hdr (le16 seq) (mbim_session qmode mux) (length pkt) @ pkt"
    and n: "28 + length pkt < 65536"
    and R: "mbim_route qmode d mux idx net"
  shows "mbim_ndps K qmode d b 12 r =
    (case mbim_datagrams K d idx (Dev net) b 20 2 r of
       (Next_ndp, r') \<Rightarrow> Some (Some r') | (Goto_error, r') \<Rightarrow> Some (Some r') | (Ndp_fault, r') \<Rightarrow> Some None)"
proof -
  note f = mbim_frame_fields [OF b]
  have el: "elem (nets d) idx = Some (Dev net)" using R by (simp add: mbim_route_def)
  have t: "Option.bind (ndp_tci K b 12) (mbim_index qmode d) = Some idx"
    using f(6,7) mbim_index_route [OF R] by (simp add: ndp_tci_def)
  have "mbim_ndp K qmode d b 12 r = mbim_datagrams K d idx (Dev net) b 20 2 r"
    using f(1,8) t el by (simp add: mbim_ndp_def)
  moreover have "mbim_ndps K qmode d b (unat (peek_le16 K b 18)) r' = Some (Some r')" for r'
    using f(9) by (simp add: mbim_ndps.simps [of K qmode d b 0])
  ultimately show ?thesis
    by (simp add: mbim_ndps.simps [of K qmode d b 12] split: prod.split ndp_end.split)
qed

lemma mbim_one_datagram:
  assumes b: "skb_data b = mbim_hdr (le16 seq) (mbim_session qmode mux) (length pkt) @ pkt"
    and n: "28 + length pkt < 65536" "length pkt \<le> unat (rx_max (mbim_ctx d))" "pkt \<noteq> []"
  shows "mbim_datagrams K d idx (Dev net) b 20 2 r =
    (if \<not> alloc_ok K (asked r) then (Goto_error, r\<lparr>asked := asked r + 1, refused := refused r + 1\<rparr>)
     else case ip_protocol (hd pkt) of
       None \<Rightarrow> (Goto_error, r\<lparr>asked := asked r + 1, leaked := leaked r + 1\<rparr>)
     | Some protocol \<Rightarrow> (Next_ndp, r\<lparr>asked := asked r + 1, skb_chain := skb_chain r @
         [deliver (ether net) (mhi_bridge_mode_rx_fixup d net) idx pkt]\<rparr>))"
proof -
  note f = mbim_frame_fields [OF b]
  have p: "peek K b 28 = hd pkt"
    using f(1) b n(3) by (simp add: peek_data nth_append hd_conv_nth)
  have dt: "take (length pkt) (drop 28 (skb_data b)) = pkt" using b by simp
  have l: "unat (of_nat (length pkt) :: u16) = length pkt" using n(1) by simp
  have two: "2 = Suc (Suc 0)" by simp
  show ?thesis
    unfolding two
    using f(1,10-12) n p dt l
    by (simp add: deliver_def split: option.split)
qed

lemma mbim_decodes_frame:
  assumes b: "skb_data b = mbim_hdr (le16 seq) (mbim_session qmode mux) (length pkt) @ pkt"
    and n: "28 + length pkt \<le> unat (rx_max (mbim_ctx d))" "28 + length pkt < 65536" "is_ip pkt"
    and R: "mbim_route qmode d mux idx net" and A: "alloc_ok K 0"
  shows "rmnet_mbim_rx_handler K qmode d b =
    Some (Some (d\<lparr>mbim_ctx := (mbim_ctx d)\<lparr>rx_seq := seq + 1\<rparr>\<rparr>,
      no_rx\<lparr>asked := 1, skb_chain := [deliver (ether net) (mhi_bridge_mode_rx_fixup d net) idx pkt]\<rparr>))"
proof -
  note f = mbim_frame_fields [OF b]
  let ?d = "d\<lparr>mbim_ctx := (mbim_ctx d)\<lparr>rx_seq := seq + 1\<rparr>\<rparr>"
  have ip: "pkt \<noteq> []" "ip_protocol (hd pkt) \<noteq> None" using n(3) by (auto simp: is_ip_def)
  have R': "mbim_route qmode ?d mux idx net" using R by (simp add: mbim_route_def)
  have fx: "mhi_bridge_mode_rx_fixup ?d net = mhi_bridge_mode_rx_fixup d net"
    by (simp add: mhi_bridge_mode_rx_fixup_def)
  have "unat (peek_le16 K b 8) = 28 + length pkt"
    using n(2) unat_u16_of_nat [of "28 + length pkt"] by (simp only: f(4))
  then have "mbim_header_ok K d b"
    using f(1,2) n(1) by (simp add: mbim_header_ok_def)
  moreover have "mbim_ndps K qmode ?d b 12 no_rx = Some (Some (no_rx\<lparr>asked := 1, skb_chain :=
      [deliver (ether net) (mhi_bridge_mode_rx_fixup d net) idx pkt]\<rparr>))"
    using mbim_one_ndp [OF b n(2) R', of K no_rx] mbim_one_datagram [OF b n(2), of ?d K idx net no_rx]
      n(1) ip A
    by (auto simp: fx no_rx_def)
  ultimately show ?thesis
    using f(3,5) by (simp add: rmnet_mbim_rx_handler_def no_rx_def)
qed

section \<open>The QMAP decoder and that of qmi_wwan\<close>

fun net_option :: "net_ptr \<Rightarrow> qmap_net option" where
  "net_option (Dev net) = Some net"
| "net_option _ = None"

definition as_qmap_dev :: "mhi_netdev \<Rightarrow> qmap_dev" where
  "as_qmap_dev d = \<lparr>qmap_mode = nd_qmap_mode d, dev_qmap_version = nd_qmap_version d,
     tx_ctx = \<lparr>ul_data_aggregation_max_datagrams = 1, ul_data_aggregation_max_size = 1500,
       dl_minimum_padding = nd_dl_minimum_padding d\<rparr>,
     mpQmapNetDev = map net_option (nets d), use_rmnet_usb = 1,
     dev_bridge_mode = nd_bridge_mode d, dev_bridge_mac = nd_bridge_mac d\<rparr>"

fun as_rx_action :: "mhi_action \<Rightarrow> rx_action" where
  "as_rx_action MStop = Stop"
| "as_rx_action MNoMem = Stop"
| "as_rx_action (MSkip k) = Skip k"
| "as_rx_action (MCommand k) = Skip k"
| "as_rx_action (MQueue p k) = Queue p k"
| "as_rx_action MFault = Fault"

lemma as_qmap_dev_sel [simp]:
  "qmap_mode (as_qmap_dev d) = nd_qmap_mode d" "mpQmapNetDev (as_qmap_dev d) = map net_option (nets d)"
  "dl_padding (as_qmap_dev d) = mhi_dl_padding d"
  by (simp_all add: as_qmap_dev_def dl_padding_def mhi_dl_padding_def)

lemma bridge_fixup_same:
  "0 < nd_qmap_mode d \<Longrightarrow> bridge_mode_rx_fixup False (as_qmap_dev d) net = mhi_bridge_mode_rx_fixup d net"
  by (simp add: bridge_mode_rx_fixup_def mhi_bridge_mode_rx_fixup_def as_qmap_dev_def)

lemma elem_map: "elem (map f xs) i = map_option f (elem xs i)"
  by (simp add: elem_def)

lemma decode_one_same:
  assumes F: "Freed \<notin> set (nets d)"
  shows "qmap_decode_one K False (as_qmap_dev d) b n = as_rx_action (mhi_decode_one K d b n)"
proof -
  have z: "0 < nd_qmap_mode d" if "m < nd_qmap_mode d" for m using that word_gt_0 by fastforce
  have e: "elem (nets d) i \<noteq> Some Freed" for i using F by (auto simp: elem_def in_set_conv_nth split: if_splits)
  show ?thesis
    unfolding qmap_decode_one_def mhi_decode_one_def Let_def as_qmap_dev_sel elem_map
    using e by (auto simp: bridge_fixup_same z not_le split: option.split net_ptr.split)
qed

text \<open>A command changes what the device counts and the acknowledgements, nothing the decoder reads.\<close>

lemma count_command_same [simp]: "as_qmap_dev (count_command i d) = as_qmap_dev d"
  "nets (count_command i d) = nets d" "nd_qmap_mode (count_command i d) = nd_qmap_mode d"
  by (simp_all add: count_command_def as_qmap_dev_def)

lemma send_ack_same [simp]: "asked (rmnet_map_send_ack K E t b r) = asked r"
  "skb_chain (rmnet_map_send_ack K E t b r) = skb_chain r"
  by (simp_all add: rmnet_map_send_ack_def Let_def)

lemma mux_u8_u32:
  assumes l: "unat (ucast (m :: u8) - ucast QUECTEL_QMAP_MUX_ID :: u32) < 127"
  shows "unat (ucast m - ucast QUECTEL_QMAP_MUX_ID :: u32) = unat (m - QUECTEL_QMAP_MUX_ID)"
proof -
  have "m \<ge> QUECTEL_QMAP_MUX_ID"
  proof (rule ccontr)
    assume "\<not> m \<ge> QUECTEL_QMAP_MUX_ID"
    then have "unat m < 0x81" by (simp add: QUECTEL_QMAP_MUX_ID_def word_le_nat_alt)
    moreover have "unat m < 2 ^ 8" using unsigned_less [of m] by simp
    then have um: "unat (ucast m :: u32) = unat m"
      by (simp add: unsigned_ucast_eq take_bit_nat_eq_self)
    ultimately have "unat (ucast m - 0x81 :: u32) = 4294967296 + unat m - 0x81"
      by (simp add: unat_sub_if' um)
    then show False using l by (simp add: QUECTEL_QMAP_MUX_ID_def)
  qed
  then have "unat (m - QUECTEL_QMAP_MUX_ID) = unat m - 0x81" "0x81 \<le> unat m"
    by (simp_all add: unat_sub word_le_nat_alt QUECTEL_QMAP_MUX_ID_def)
  moreover have "unat m < 2 ^ 8" using unsigned_less [of m] by simp
  then have "unat (ucast m :: u32) = unat m" by (simp add: unsigned_ucast_eq take_bit_nat_eq_self)
  ultimately show ?thesis by (simp add: unat_sub_if' QUECTEL_QMAP_MUX_ID_def)
qed

lemma command_same:
  assumes M: "mhi_decode_one K d b n = MCommand k" and N: "length (nets d) = 8"
  shows "\<exists>d' r'. rmnet_data_map_command K E b (d, r) = Some (d', r') \<and> as_qmap_dev d' = as_qmap_dev d
    \<and> nets d' = nets d \<and> asked r' = asked r \<and> skb_chain r' = skb_chain r"
proof -
  let ?m = "ucast (peek K b 1) - ucast QUECTEL_QMAP_MUX_ID :: u32"
  let ?m8 = "peek K b 1 - QUECTEL_QMAP_MUX_ID"
  obtain net where q: "?m < nd_qmap_mode d" and e: "elem (nets d) (unat ?m) = Some (Dev net)"
    using M unfolding mhi_decode_one_def Let_def
    by (auto simp: not_le split: if_splits option.splits net_ptr.splits)
  have "unat ?m < 8" using e N by (auto simp: elem_def split: if_splits)
  then have u: "unat ?m = unat ?m8" by (intro mux_u8_u32) simp
  have "unat ?m8 < 2 ^ 8" using unsigned_less [of ?m8] by simp
  then have "unat (ucast ?m8 :: u32) = unat ?m8" by (simp add: unsigned_ucast_eq take_bit_nat_eq_self)
  then have "(ucast ?m8 :: u32) = ?m" using u by (simp only: word_unat_eq_iff)
  then have f: "\<exists>d'. rmnet_map_do_flow_control (peek K b 1) en (count_command i d) = Some (1, d')
      \<and> as_qmap_dev d' = as_qmap_dev d \<and> nets d' = nets d" for en i
    using q e u by (simp add: rmnet_map_do_flow_control_def Let_def as_qmap_dev_def not_le count_command_def)
  let ?c = "peek K b 4"
  show ?thesis
  proof (cases "?c = 2 \<or> ?c = 1")
    case True
    then have l: "unat ?c < 10" by auto
    obtain d' where "rmnet_map_do_flow_control (peek K b 1) (?c = 2) (count_command (unat ?c) d) = Some (1, d')"
      "as_qmap_dev d' = as_qmap_dev d" "nets d' = nets d"
      using f by blast
    then show ?thesis using True l by (simp add: rmnet_data_map_command_def Let_def)
  next
    case False
    then show ?thesis by (simp add: rmnet_data_map_command_def Let_def)
  qed
qed

lemma append_one: "(@) (xs @ [p]) = (\<lambda>ps. xs @ p # ps)"
  by (simp add: fun_eq_iff)

lemma qmi_loop_follows:
  fixes r :: mhi_rx
  assumes ret: "decode_loop one b n = Some res"
  shows "one = qmap_decode_one K False (as_qmap_dev d) \<Longrightarrow> Freed \<notin> set (nets d) \<Longrightarrow>
    length (nets d) = 8 \<Longrightarrow> asked r = n \<Longrightarrow>
    \<exists>x. qmi_loop K E d b r = Some x
      \<and> map_option (\<lambda>(d, r). skb_chain r) x = map_option (\<lambda>ps. skb_chain r @ ps) res"
proof -
  define P where "P = (\<lambda>one b n res. \<forall>d (r :: mhi_rx). one = qmap_decode_one K False (as_qmap_dev d) \<longrightarrow>
    Freed \<notin> set (nets d) \<longrightarrow> length (nets d) = 8 \<longrightarrow> asked r = n \<longrightarrow>
    (\<exists>x. qmi_loop K E d b r = Some x
      \<and> map_option (\<lambda>(d, r). skb_chain r) x = map_option (\<lambda>ps. skb_chain r @ ps) res))"
  have "P one b n res"
  proof (rule decode_loop.raw_induct [where P = P, OF _ ret])
    fix loop :: "(sk_buff \<Rightarrow> nat \<Rightarrow> rx_action) \<Rightarrow> sk_buff \<Rightarrow> nat \<Rightarrow> rx_skb list option option"
      and one b n res
    assume IH: "\<And>one b n r. loop one b n = Some r \<Longrightarrow> P one b n r"
      and eq: "(if skb_len b \<le> 4 then Some (Some [])
        else case one b n of Stop \<Rightarrow> Some (Some []) | Skip k \<Rightarrow> loop one (case skb_pull k b of None \<Rightarrow> b | Some b' \<Rightarrow> b') n
          | Queue p k \<Rightarrow> Option.bind (loop one (case skb_pull k b of None \<Rightarrow> b | Some b' \<Rightarrow> b') (n + 1))
              (\<lambda>r. Some (map_option (\<lambda>ps. p # ps) r))
          | Fault \<Rightarrow> Some None) = Some res"
    show "P one b n res" unfolding P_def
    proof (intro allI impI)
      fix d and r :: mhi_rx
      assume o: "one = qmap_decode_one K False (as_qmap_dev d)" and F: "Freed \<notin> set (nets d)"
        and N: "length (nets d) = 8" and n: "asked r = n"
      have one: "one b n = as_rx_action (mhi_decode_one K d b n)"
        using decode_one_same [OF F] o by simp
      note l = qmi_loop.simps [of K E d b r]
      show "\<exists>x. qmi_loop K E d b r = Some x
          \<and> map_option (\<lambda>(d, r). skb_chain r) x = map_option (\<lambda>ps. skb_chain r @ ps) res"
      proof (cases "skb_len b \<le> 4")
        case True
        then show ?thesis using eq l by auto
      next
        case False
        show ?thesis
        proof (cases "mhi_decode_one K d b n")
          case (MSkip k)
          let ?b = "case skb_pull k b of None \<Rightarrow> b | Some b' \<Rightarrow> b'"
          have "loop one ?b n = Some res" using eq False one MSkip by simp
          from IH [OF this] show ?thesis using o F N n l False MSkip unfolding P_def by auto
        next
          case (MCommand k)
          let ?b = "case skb_pull k b of None \<Rightarrow> b | Some b' \<Rightarrow> b'"
          obtain d' r' where c: "rmnet_data_map_command K E b (d, r) = Some (d', r')"
            "as_qmap_dev d' = as_qmap_dev d" "nets d' = nets d" "asked r' = asked r" "skb_chain r' = skb_chain r"
            using command_same [OF MCommand N] by blast
          have "loop one ?b n = Some res" using eq False one MCommand by simp
          from IH [OF this] have "\<exists>x. qmi_loop K E d' ?b r' = Some x
              \<and> map_option (\<lambda>(d, r). skb_chain r) x = map_option (\<lambda>ps. skb_chain r' @ ps) res"
            using o F N n c unfolding P_def by (elim allE [of _ d'] allE [of _ r']) simp
          then show ?thesis using c l False MCommand n by auto
        next
          case (MQueue p k)
          let ?b = "case skb_pull k b of None \<Rightarrow> b | Some b' \<Rightarrow> b'"
          let ?r = "r\<lparr>asked := asked r + 1, skb_chain := skb_chain r @ [p]\<rparr>"
          obtain res' where r': "loop one ?b (n + 1) = Some res'" "res = map_option (\<lambda>ps. p # ps) res'"
            using eq False one MQueue by (auto split: Option.bind_splits)
          from IH [OF r'(1)] have "\<exists>x. qmi_loop K E d ?b ?r = Some x
              \<and> map_option (\<lambda>(d, r). skb_chain r) x = map_option (\<lambda>ps. skb_chain ?r @ ps) res'"
            using o F N n unfolding P_def by (elim allE [of _ d] allE [of _ ?r]) (simp add: append_one)
          then show ?thesis using r'(2) l False MQueue n by (auto simp: option.map_comp comp_def)
        qed (use eq False one l n in auto)
      qed
    qed
  qed
  then show "one = qmap_decode_one K False (as_qmap_dev d) \<Longrightarrow> Freed \<notin> set (nets d) \<Longrightarrow>
    length (nets d) = 8 \<Longrightarrow> asked r = n \<Longrightarrow>
    \<exists>x. qmi_loop K E d b r = Some x
      \<and> map_option (\<lambda>(d, r). skb_chain r) x = map_option (\<lambda>ps. skb_chain r @ ps) res"
    unfolding P_def by blast
qed

lemma decode_loop_follows:
  assumes ret: "qmi_loop K E d b r = Some x"
  shows "Freed \<notin> set (nets d) \<Longrightarrow> length (nets d) = 8 \<Longrightarrow>
    \<exists>res. decode_loop (qmap_decode_one K False (as_qmap_dev d)) b (asked r) = Some res"
proof -
  define P where "P = (\<lambda>K (E :: mhi_env) d b r (x :: (mhi_netdev \<times> mhi_rx) option).
    Freed \<notin> set (nets d) \<longrightarrow> length (nets d) = 8 \<longrightarrow>
    (\<exists>res. decode_loop (qmap_decode_one K False (as_qmap_dev d)) b (asked (r :: mhi_rx)) = Some res))"
  have "P K E d b r x"
  proof (rule qmi_loop.raw_induct [where P = P, OF _ ret])
    fix loop :: "kernel \<Rightarrow> mhi_env \<Rightarrow> mhi_netdev \<Rightarrow> sk_buff \<Rightarrow> mhi_rx \<Rightarrow> (mhi_netdev \<times> mhi_rx) option option"
      and K E d b r x
    assume IH: "\<And>K E d b r x. loop K E d b r = Some x \<Longrightarrow> P K E d b r x"
      and eq: "(if skb_len b \<le> 4 then Some (Some (d, r))
        else case mhi_decode_one K d b (asked r) of
          MStop \<Rightarrow> Some (Some (d, r))
        | MNoMem \<Rightarrow> Some (Some (d\<lparr>alloc_failed := alloc_failed d + 1\<rparr>,
                              r\<lparr>asked := asked r + 1, refused := refused r + 1\<rparr>))
        | MSkip k \<Rightarrow> loop K E d (case skb_pull k b of None \<Rightarrow> b | Some b' \<Rightarrow> b') r
        | MCommand k \<Rightarrow> (case rmnet_data_map_command K E b (d, r) of None \<Rightarrow> Some None
            | Some (d', r') \<Rightarrow> loop K E d' (case skb_pull k b of None \<Rightarrow> b | Some b' \<Rightarrow> b') r')
        | MQueue p k \<Rightarrow> loop K E d (case skb_pull k b of None \<Rightarrow> b | Some b' \<Rightarrow> b')
            (r\<lparr>asked := asked r + 1, skb_chain := skb_chain r @ [p]\<rparr>)
        | MFault \<Rightarrow> Some None) = Some x"
    show "P K E d b r x" unfolding P_def
    proof (intro impI)
      assume F: "Freed \<notin> set (nets d)" and N: "length (nets d) = 8"
      note one = decode_one_same [OF F, of K b "asked r"]
      note l = decode_loop.simps [of "qmap_decode_one K False (as_qmap_dev d)" b "asked r"]
      show "\<exists>res. decode_loop (qmap_decode_one K False (as_qmap_dev d)) b (asked r) = Some res"
      proof (cases "skb_len b \<le> 4")
        case True
        then show ?thesis using l by simp
      next
        case False
        show ?thesis
        proof (cases "mhi_decode_one K d b (asked r)")
          case (MSkip k)
          then have "loop K E d (case skb_pull k b of None \<Rightarrow> b | Some b' \<Rightarrow> b') r = Some x"
            using eq False by simp
          from IH [OF this] show ?thesis using F N l one False MSkip by (simp add: P_def)
        next
          case (MCommand k)
          obtain d' r' where c: "rmnet_data_map_command K E b (d, r) = Some (d', r')"
            "as_qmap_dev d' = as_qmap_dev d" "nets d' = nets d" "asked r' = asked r" "skb_chain r' = skb_chain r"
            using command_same [OF MCommand N] by blast
          then have "loop K E d' (case skb_pull k b of None \<Rightarrow> b | Some b' \<Rightarrow> b') r' = Some x"
            using eq False MCommand by simp
          from IH [OF this] show ?thesis using F N l one False MCommand c by (simp add: P_def)
        next
          case (MQueue p k)
          then have "loop K E d (case skb_pull k b of None \<Rightarrow> b | Some b' \<Rightarrow> b')
              (r\<lparr>asked := asked r + 1, skb_chain := skb_chain r @ [p]\<rparr>) = Some x"
            using eq False by simp
          from IH [OF this] show ?thesis using F N l one False MQueue by (auto simp: P_def)
        qed (use l one False in simp_all)
      qed
    qed
  qed
  then show "Freed \<notin> set (nets d) \<Longrightarrow> length (nets d) = 8 \<Longrightarrow>
    \<exists>res. decode_loop (qmap_decode_one K False (as_qmap_dev d)) b (asked r) = Some res"
    by (simp add: P_def)
qed

text \<open>The two handlers, as functions of a frame: the same packets, fault or endless loop.\<close>

lemma qmi_handler_same:
  assumes F: "Freed \<notin> set (nets d)" and N: "length (nets d) = 8"
  shows "map_option (map_option (\<lambda>(d, r). skb_chain r)) (rmnet_qmi_rx_handler K E d b) =
    qmap_packet_decode K False (as_qmap_dev d) b"
proof (cases "qmap_packet_decode K False (as_qmap_dev d) b")
  case None
  then have "rmnet_qmi_rx_handler K E d b = None"
    using decode_loop_follows [of K E d b no_rx] F N
    by (cases "rmnet_qmi_rx_handler K E d b")
      (auto simp: rmnet_qmi_rx_handler_def qmap_packet_decode_def no_rx_def)
  then show ?thesis using None by simp
next
  case (Some res)
  then have D: "decode_loop (qmap_decode_one K False (as_qmap_dev d)) b 0 = Some res"
    by (simp add: qmap_packet_decode_def)
  obtain x where "rmnet_qmi_rx_handler K E d b = Some x"
    "map_option (\<lambda>(d, r). skb_chain r) x = map_option (\<lambda>ps. skb_chain no_rx @ ps) res"
    using qmi_loop_follows [OF D refl F N, of no_rx E] unfolding rmnet_qmi_rx_handler_def
    by (auto simp: no_rx_def)
  then show ?thesis using Some by (simp add: no_rx_def option.map_ident)
qed

section \<open>The receive buffers\<close>

text \<open>What a handler may change of the device: the sequence number and what it counts.\<close>

definition counts_only :: "mhi_netdev \<Rightarrow> mhi_netdev \<Rightarrow> bool" where
  "counts_only d d' \<longleftrightarrow> (\<exists>f st a c. d' = d\<lparr>mbim_ctx := (mbim_ctx d)\<lparr>rx_seq := c\<rparr>, flow_control := f,
     rmnet_map_command_stats := st, alloc_failed := a\<rparr>)"

lemma counts_onlyI: "d' = d\<lparr>mbim_ctx := (mbim_ctx d)\<lparr>rx_seq := c\<rparr>, flow_control := f,
    rmnet_map_command_stats := st, alloc_failed := a\<rparr> \<Longrightarrow> counts_only d d'"
  unfolding counts_only_def by blast

lemma counts_only_trans:
  assumes "counts_only d d1" "counts_only d1 d2"
  shows "counts_only d d2"
proof -
  obtain f st a c f' st' a' c' where
    "d1 = d\<lparr>mbim_ctx := (mbim_ctx d)\<lparr>rx_seq := c\<rparr>, flow_control := f, rmnet_map_command_stats := st,
      alloc_failed := a\<rparr>"
    "d2 = d1\<lparr>mbim_ctx := (mbim_ctx d1)\<lparr>rx_seq := c'\<rparr>, flow_control := f',
      rmnet_map_command_stats := st', alloc_failed := a'\<rparr>"
    using assms unfolding counts_only_def by blast
  then show ?thesis by (intro counts_onlyI [where c = c' and f = f' and st = st' and a = a']) simp
qed

lemma counts_only_simple [simp]:
  "counts_only d d" "counts_only d (d\<lparr>alloc_failed := a\<rparr>)" "counts_only d (d\<lparr>flow_control := f\<rparr>)"
  "counts_only d (count_command i d)"
  "counts_only d (d\<lparr>mbim_ctx := (mbim_ctx d)\<lparr>rx_seq := c\<rparr>, alloc_failed := a\<rparr>)"
proof -
  let ?c = "rx_seq (mbim_ctx d)" and ?st = "rmnet_map_command_stats d"
  show "counts_only d d"
    by (rule counts_onlyI [where c = ?c and f = "flow_control d" and st = ?st and a = "alloc_failed d"]) simp
  show "counts_only d (d\<lparr>alloc_failed := a\<rparr>)"
    by (rule counts_onlyI [where c = ?c and f = "flow_control d" and st = ?st and a = a]) simp
  show "counts_only d (d\<lparr>flow_control := f\<rparr>)"
    by (rule counts_onlyI [where c = ?c and f = f and st = ?st and a = "alloc_failed d"]) simp
  show "counts_only d (count_command i d)"
    by (rule counts_onlyI [where c = ?c and f = "flow_control d"
        and st = "rmnet_map_command_stats (count_command i d)" and a = "alloc_failed d"])
      (simp add: count_command_def)
  show "counts_only d (d\<lparr>mbim_ctx := (mbim_ctx d)\<lparr>rx_seq := c\<rparr>, alloc_failed := a\<rparr>)"
    by (rule counts_onlyI [where c = c and f = "flow_control d" and st = ?st and a = a]) simp
qed

lemma flow_control_counts: "rmnet_map_do_flow_control m en d = Some (rc, d') \<Longrightarrow> counts_only d d'"
  by (auto simp: rmnet_map_do_flow_control_def Let_def split: if_splits option.splits net_ptr.splits)

lemma map_command_counts:
  assumes "rmnet_data_map_command K E b (d, r) = Some (d', r')"
  shows "counts_only d d'"
  using assms
  by (auto simp: rmnet_data_map_command_def Let_def split: if_splits Option.bind_splits
      dest!: flow_control_counts intro: counts_only_trans [OF counts_only_simple(4)] counts_only_simple(4))

lemma qmi_loop_counts:
  assumes ret: "qmi_loop K E d b r = Some x"
  shows "x = Some (d', r') \<Longrightarrow> counts_only d d'"
proof -
  define P where "P = (\<lambda>(K :: kernel) (E :: mhi_env) d (b :: sk_buff) (r :: mhi_rx) x.
    \<forall>d' (r' :: mhi_rx). x = Some (d', r') \<longrightarrow> counts_only d d')"
  have "P K E d b r x"
  proof (rule qmi_loop.raw_induct [where P = P, OF _ ret])
    fix loop :: "kernel \<Rightarrow> mhi_env \<Rightarrow> mhi_netdev \<Rightarrow> sk_buff \<Rightarrow> mhi_rx \<Rightarrow> (mhi_netdev \<times> mhi_rx) option option"
      and K E d b r x
    assume IH: "\<And>K E d b r x. loop K E d b r = Some x \<Longrightarrow> P K E d b r x"
      and eq: "(if skb_len b \<le> 4 then Some (Some (d, r))
        else case mhi_decode_one K d b (asked r) of
          MStop \<Rightarrow> Some (Some (d, r))
        | MNoMem \<Rightarrow> Some (Some (d\<lparr>alloc_failed := alloc_failed d + 1\<rparr>,
                              r\<lparr>asked := asked r + 1, refused := refused r + 1\<rparr>))
        | MSkip k \<Rightarrow> loop K E d (case skb_pull k b of None \<Rightarrow> b | Some b' \<Rightarrow> b') r
        | MCommand k \<Rightarrow> (case rmnet_data_map_command K E b (d, r) of None \<Rightarrow> Some None
            | Some (d', r') \<Rightarrow> loop K E d' (case skb_pull k b of None \<Rightarrow> b | Some b' \<Rightarrow> b') r')
        | MQueue p k \<Rightarrow> loop K E d (case skb_pull k b of None \<Rightarrow> b | Some b' \<Rightarrow> b')
            (r\<lparr>asked := asked r + 1, skb_chain := skb_chain r @ [p]\<rparr>)
        | MFault \<Rightarrow> Some None) = Some x"
    have step: "P K E d b r x" if "loop K E d1 b1 r1 = Some x" "counts_only d d1" for d1 b1 r1
      using IH [OF that(1)] that(2) unfolding P_def by (blast intro: counts_only_trans)
    show "P K E d b r x"
      using eq step
      by (cases "mhi_decode_one K d b (asked r)")
        (auto simp: P_def split: if_splits option.splits dest: map_command_counts)
  qed
  then show "x = Some (d', r') \<Longrightarrow> counts_only d d'" by (simp add: P_def)
qed

lemma handlers_count:
  "rmnet_qmi_rx_handler K E d b = Some (Some (d', r)) \<Longrightarrow> counts_only d d'"
  "rmnet_mbim_rx_handler K qmode d b = Some (Some (d', r)) \<Longrightarrow> counts_only d d'"
  using qmi_loop_counts [of K E d b no_rx "Some (d', r)"]
  by (auto simp: rmnet_qmi_rx_handler_def rmnet_mbim_rx_handler_def Let_def split: if_splits)

text \<open>
  The invariant of the buffers: one in the ring or kept for it is whole and empty, and as large as
  the ring was told; a received one still is that large; at most 128 are kept.
\<close>

definition buffer_ok :: "u32 \<Rightarrow> sk_buff \<Rightarrow> bool" where
  "buffer_ok m b \<longleftrightarrow> skb_headroom b = 0 \<and> unat m \<le> length (skb_data b) + length (skb_tail b)"

definition idle_buffer :: "u32 \<Rightarrow> sk_buff \<Rightarrow> bool" where
  "idle_buffer m b \<longleftrightarrow> skb_data b = [] \<and> skb_headroom b = 0 \<and> unat m \<le> length (skb_tail b)"

definition rx_buffers_ok :: "mhi_netdev \<Rightarrow> bool" where
  "rx_buffers_ok d \<longleftrightarrow>
     (\<forall>b \<in> set (posted d) \<union> set (rx_allocated d). idle_buffer (mru d) b)
     \<and> (\<forall>b \<in> set (qmap_chain d). buffer_ok (mru d) b) \<and> length (rx_allocated d) \<le> 128"

definition rx_same :: "mhi_netdev \<Rightarrow> mhi_netdev \<Rightarrow> bool" where
  "rx_same d d' \<longleftrightarrow> posted d' = posted d \<and> qmap_chain d' = qmap_chain d \<and> mru d' = mru d
     \<and> enabled d' = enabled d \<and> alloc_pending d' = alloc_pending d \<and> rx_asked d' = rx_asked d
     \<and> rx_queued d' = rx_queued d"

lemma recycle_ok:
  assumes I: "rx_buffers_ok d" and b: "buffer_ok (mru d) b"
  shows "rx_buffers_ok (recycle b d)" "rx_same d (recycle b d)"
    "length (rx_allocated (recycle b d)) = min 128 (length (rx_allocated d) + 1)"
proof -
  have "idle_buffer (mru d) (b\<lparr>skb_data := [], skb_tail := skb_data b @ skb_tail b, skb_headroom := 0\<rparr>)"
    using b by (simp add: buffer_ok_def idle_buffer_def)
  then show "rx_buffers_ok (recycle b d)" using I by (auto simp: recycle_def rx_buffers_ok_def)
  show "rx_same d (recycle b d)" by (simp add: recycle_def rx_same_def)
  show "length (rx_allocated (recycle b d)) = min 128 (length (rx_allocated d) + 1)"
    using I by (auto simp: recycle_def rx_buffers_ok_def)
qed

lemma rx_handler_ok:
  assumes R: "rmnet_rx_handler K E qmode b d = Some (Some d')"
    and I: "rx_buffers_ok d" and b: "buffer_ok (mru d) b"
  shows "rx_buffers_ok d'" "rx_same d d'"
    "length (rx_allocated d') = min 128 (length (rx_allocated d) + 1)"
proof -
  obtain d1 r where h: "(if net_type d = MHI_NET_MBIM then rmnet_mbim_rx_handler K qmode d b
      else rmnet_qmi_rx_handler K E d b) = Some (Some (d1, r))"
    "d' = recycle b (d1\<lparr>to_stack := to_stack d1 @ skb_chain r\<rparr>)"
    using R unfolding rmnet_rx_handler_def map_option_eq_Some by auto
  then have 1: "counts_only d d1" by (auto split: if_splits dest: handlers_count)
  let ?d = "d1\<lparr>to_stack := to_stack d1 @ skb_chain r\<rparr>"
  have 2: "rx_buffers_ok ?d" "buffer_ok (mru ?d) b" "rx_same d ?d" "rx_allocated ?d = rx_allocated d"
    using 1 I b by (auto simp: counts_only_def rx_buffers_ok_def rx_same_def)
  show "rx_buffers_ok d'" "rx_same d d'"
    "length (rx_allocated d') = min 128 (length (rx_allocated d) + 1)"
    using recycle_ok [OF 2(1,2)] 2(3,4) h(2) by (auto simp: rx_same_def)
qed

lemma poll_chain_ok:
  assumes "poll_chain K E qmode bs d = Some (Some d')" "rx_buffers_ok d"
    "\<forall>b \<in> set bs. buffer_ok (mru d) b"
  shows "rx_buffers_ok d' \<and> rx_same d d'
    \<and> length (rx_allocated d') = min 128 (length (rx_allocated d) + length bs)"
  using assms
proof (induction bs arbitrary: d)
  case Nil
  then show ?case by (simp add: rx_same_def rx_buffers_ok_def)
next
  case (Cons b bs)
  from Cons.prems(1) obtain d1 where d1: "rmnet_rx_handler K E qmode b d = Some (Some d1)"
    "poll_chain K E qmode bs d1 = Some (Some d')"
    by (auto split: option.splits)
  note h = rx_handler_ok [OF d1(1) Cons.prems(2)]
  have b: "buffer_ok (mru d) b" using Cons.prems(3) by simp
  have "\<forall>b \<in> set bs. buffer_ok (mru d1) b" using Cons.prems(3) h(2) [OF b] by (simp add: rx_same_def)
  from Cons.IH [OF d1(2) h(1) [OF b] this] show ?case
    using h(2,3) [OF b] by (auto simp: rx_same_def)
qed

text \<open>Filling the ring keeps the invariant; with enough kept buffers no memory is asked for.\<close>

lemma rx_buffers_ok_counters [simp]:
  "rx_buffers_ok (d\<lparr>rx_asked := n\<rparr>) = rx_buffers_ok d" "rx_buffers_ok (d\<lparr>rx_queued := n\<rparr>) = rx_buffers_ok d"
  "rx_buffers_ok (d\<lparr>rx_asked := n, rx_queued := m\<rparr>) = rx_buffers_ok d"
  "rx_buffers_ok (d\<lparr>alloc_pending := p\<rparr>) = rx_buffers_ok d"
  "rx_buffers_ok (d\<lparr>alloc_failed := a\<rparr>) = rx_buffers_ok d"
  by (simp_all add: rx_buffers_ok_def)

lemma post_ok:
  "rx_buffers_ok d \<Longrightarrow> idle_buffer (mru d) b \<Longrightarrow>
    rx_buffers_ok (d\<lparr>rx_asked := n, rx_queued := m, posted := posted d @ [b]\<rparr>)"
  "rx_buffers_ok d \<Longrightarrow> idle_buffer (mru d) b \<Longrightarrow>
    rx_buffers_ok (d\<lparr>rx_queued := m, posted := posted d @ [b]\<rparr>)"
  by (auto simp: rx_buffers_ok_def)

lemma take_kept:
  assumes "rx_buffers_ok d" "rx_allocated d = b # bs"
  shows "rx_buffers_ok (d\<lparr>rx_allocated := bs\<rparr>)" "idle_buffer (mru d) b"
  using assms by (auto simp: rx_buffers_ok_def)

lemma alloc_loop_ok:
  assumes "alloc_spec K" "rx_buffers_ok d"
  shows "rx_buffers_ok (snd (alloc_loop K E k d))"
  using assms(2)
proof (induction k arbitrary: d)
  case 0
  then show ?case by simp
next
  case (Suc k)
  show ?case
  proof (cases "rx_allocated d")
    case Nil
    let ?b = "new_skb K (unat (mru d))"
    have "idle_buffer (mru d) ?b"
      using assms(1) by (simp add: new_skb_def idle_buffer_def alloc_spec_def)
    from Suc.IH [OF post_ok(1) [OF Suc.prems this, of "rx_queued d + 1" "rx_asked d + 1"]]
    show ?thesis using Nil Suc.prems by (simp add: Let_def)
  next
    case (Cons b bs)
    note t = take_kept [OF Suc.prems Cons]
    have "idle_buffer (mru (d\<lparr>rx_allocated := bs\<rparr>)) b" using t(2) by simp
    from Suc.IH [OF post_ok(2) [OF t(1) this, of "rx_queued d + 1"]]
    show ?thesis using Cons t(1) rx_buffers_ok_counters(2) [of "rx_queued d + 1" "d\<lparr>rx_allocated := bs\<rparr>"]
      by (simp add: Let_def)
  qed
qed

lemma alloc_loop_kept:
  assumes "k \<le> length (rx_allocated d)" "enabled d" "\<forall>n. rx_queue_ret E n = 0"
  shows "\<exists>d'. alloc_loop K E k d = (0, d') \<and> length (posted d') = length (posted d) + k
    \<and> rx_asked d' = rx_asked d \<and> rx_allocated d' = drop k (rx_allocated d)
    \<and> d' = d\<lparr>rx_allocated := rx_allocated d', rx_queued := rx_queued d', posted := posted d'\<rparr>"
  using assms
proof (induction k arbitrary: d)
  case 0
  then show ?case by simp
next
  case (Suc k)
  then obtain b bs where b: "rx_allocated d = b # bs" by (cases "rx_allocated d") auto
  let ?d = "d\<lparr>rx_allocated := bs, rx_queued := rx_queued d + 1, posted := posted d @ [b]\<rparr>"
  have "\<exists>d'. alloc_loop K E k ?d = (0, d') \<and> length (posted d') = length (posted ?d) + k
    \<and> rx_asked d' = rx_asked ?d \<and> rx_allocated d' = drop k (rx_allocated ?d)
    \<and> d' = ?d\<lparr>rx_allocated := rx_allocated d', rx_queued := rx_queued d', posted := posted d'\<rparr>"
    by (rule Suc.IH) (use Suc.prems b in auto)
  then show ?case using b Suc.prems by (auto simp: Let_def)
qed

lemma dl_cb_ok:
  assumes "mhi_netdev_xfer_dl_cb st vs d = Some d'" "rx_buffers_ok d"
  shows "rx_buffers_ok d'"
  using assms
  by (auto simp: mhi_netdev_xfer_dl_cb_def rx_buffers_ok_def buffer_ok_def idle_buffer_def
      skb_put_data_def Let_def split: list.splits if_splits)

lemma poll_ok:
  assumes P: "mhi_netdev_poll K E qmode rx_work budget no_tre d = Some (Some (w, fin, d'))"
    and I: "rx_buffers_ok d" and A: "alloc_spec K"
  shows "rx_buffers_ok d'"
proof (cases "rx_work < 0")
  case True
  then show ?thesis using P I by (simp add: mhi_netdev_poll_def)
next
  case False
  have I0: "rx_buffers_ok (d\<lparr>qmap_chain := []\<rparr>)" "\<forall>b \<in> set (qmap_chain d). buffer_ok (mru d) b"
    using I by (simp_all add: rx_buffers_ok_def)
  obtain d1 where d1: "rx_buffers_ok d1" "d' = poll_refill K E no_tre d1"
  proof (cases "net_type d = MHI_NET_MBIM \<or> net_type d = MHI_NET_RMNET")
    case True
    then obtain d1 where 1: "poll_chain K E qmode (qmap_chain d) (d\<lparr>qmap_chain := []\<rparr>) = Some (Some d1)"
      "d' = poll_refill K E no_tre d1"
      using P False unfolding mhi_netdev_poll_def by (auto simp: map_option_eq_Some)
    have "rx_buffers_ok d1" using poll_chain_ok [OF 1(1) I0(1)] I0(2) by simp
    then show ?thesis using 1(2) by (rule that)
  next
    case notq: False
    have "rx_buffers_ok (d\<lparr>qmap_chain := [], to_stack := x\<rparr>)" for x
      using I by (simp add: rx_buffers_ok_def)
    then show ?thesis
      using that I P False notq by (auto simp: mhi_netdev_poll_def split: if_splits)
  qed
  then show ?thesis
    using alloc_loop_ok [OF A d1(1), of E no_tre]
    by (auto simp: poll_refill_def Let_def mhi_netdev_alloc_skb_def split: if_splits prod.splits)
qed

text \<open>
  A poll that handled \<open>n\<close> frames and finds \<open>n\<close> free descriptors fills them without memory.
\<close>

lemma poll_refills:
  assumes P: "mhi_netdev_poll K E qmode rx_work budget (length (qmap_chain d)) d = Some (Some (w, fin, d'))"
    and I: "rx_buffers_ok d" and n: "0 \<le> rx_work" "length (qmap_chain d) \<le> 128"
    and c: "net_type d = MHI_NET_MBIM \<or> net_type d = MHI_NET_RMNET" "enabled d" "\<not> alloc_pending d"
      "\<forall>n. rx_queue_ret E n = 0"
  shows "length (posted d') = length (posted d) + length (qmap_chain d) \<and> qmap_chain d' = []
    \<and> rx_asked d' = rx_asked d \<and> \<not> alloc_pending d' \<and> enabled d'"
proof -
  let ?d = "d\<lparr>qmap_chain := []\<rparr>"
  have I0: "rx_buffers_ok ?d" "\<forall>b \<in> set (qmap_chain d). buffer_ok (mru ?d) b"
    using I by (simp_all add: rx_buffers_ok_def)
  obtain d1 where d1: "poll_chain K E qmode (qmap_chain d) ?d = Some (Some d1)"
    "d' = poll_refill K E (length (qmap_chain d)) d1"
    using P n(1) c(1) unfolding mhi_netdev_poll_def by (auto simp: map_option_eq_Some)
  from poll_chain_ok [OF d1(1) I0] have p: "rx_same ?d d1"
    "length (rx_allocated d1) = min 128 (length (rx_allocated d) + length (qmap_chain d))" by simp_all
  then have k: "length (qmap_chain d) \<le> length (rx_allocated d1)" using n(2) by simp
  from p(1) have s: "enabled d1" "\<not> alloc_pending d1" "posted d1 = posted d" "qmap_chain d1 = []"
    "rx_asked d1 = rx_asked d"
    using c(2,3) by (simp_all add: rx_same_def)
  obtain d2 where d2: "alloc_loop K E (length (qmap_chain d)) d1 = (0, d2)"
    "length (posted d2) = length (posted d1) + length (qmap_chain d)" "rx_asked d2 = rx_asked d1"
    "d2 = d1\<lparr>rx_allocated := rx_allocated d2, rx_queued := rx_queued d2, posted := posted d2\<rparr>"
    using alloc_loop_kept [OF k s(1) c(4), of K] by blast
  have e: "d' = d2" using d1(2) d2(1) s(2) by (simp add: poll_refill_def mhi_netdev_alloc_skb_def)
  have "qmap_chain d2 = [] \<and> \<not> alloc_pending d2 \<and> enabled d2"
    by (subst (1 2 3) d2(4)) (use s in simp)
  then show ?thesis using e d2(2,3) s by simp
qed

end
