(* ===== verification/Mhi_Frames.thy ===== *)
theory Mhi_Frames
  imports Mhi_Netdev_Rx
begin

text \<open>
  What the downlink of the MHI network device does with frames nobody promised to be well formed,
  and with flow-control commands: the packets it delivers, the causes of faults, the frames that
  keep it busy for ever, the answers it sends and the account of the receive buffers.
\<close>

section \<open>Hostile MBIM frames\<close>

text \<open>The NDPs the loop can come to: the next one follows one that is inside the frame.\<close>

inductive ndp_at :: "kernel \<Rightarrow> sk_buff \<Rightarrow> nat \<Rightarrow> bool" for K b where
  first: "ndp_at K b (unat (peek_le16 K b 10))"
| follow: "ndp_at K b off \<Longrightarrow> off \<noteq> 0 \<Longrightarrow> off + 8 \<le> skb_len b \<Longrightarrow> ndp_at K b (unat (peek_le16 K b (off + 6)))"

text \<open>The table of an NDP is inside the frame. The code compares its size with the frame, but not where it starts.\<close>

definition table_inside :: "kernel \<Rightarrow> sk_buff \<Rightarrow> nat \<Rightarrow> bool" where
  "table_inside K b off \<longleftrightarrow> (off \<noteq> 0 \<and> off + 8 \<le> skb_len b \<longrightarrow> off + unat (peek_le16 K b (off + 4)) \<le> skb_len b)"

text \<open>A packet that was cut out of the frame, for a device of the array.\<close>

definition mbim_good :: "mhi_netdev \<Rightarrow> sk_buff \<Rightarrow> rx_skb \<Rightarrow> bool" where
  "mbim_good d b p \<longleftrightarrow> (\<exists>idx net off len. elem (nets d) idx = Some (Dev net) \<and> off + len \<le> skb_len b
     \<and> len \<le> unat (rx_max (mbim_ctx d)) \<and> is_ip (take len (drop off (skb_data b)))
     \<and> p = deliver (ether net) (mhi_bridge_mode_rx_fixup d net) idx (take len (drop off (skb_data b))))"

text \<open>The packets and the account of the buffers.\<close>

definition mbim_sound :: "mhi_netdev \<Rightarrow> sk_buff \<Rightarrow> mhi_rx \<Rightarrow> bool" where
  "mbim_sound d b r \<longleftrightarrow> (\<forall>p \<in> set (skb_chain r). mbim_good d b p)
     \<and> asked r = length (skb_chain r) + refused r + leaked r"

text \<open>After an NDP that did not fault; the next one starts with no buffer lost.\<close>

definition ndp_sound :: "mhi_netdev \<Rightarrow> sk_buff \<Rightarrow> ndp_end \<times> mhi_rx \<Rightarrow> bool" where
  "ndp_sound d b x \<longleftrightarrow> (case x of (e, r) \<Rightarrow> e \<noteq> Ndp_fault \<longrightarrow> mbim_sound d b r \<and> refused r + leaked r \<le> 1
     \<and> (e = Next_ndp \<longrightarrow> refused r = 0 \<and> leaked r = 0))"

text \<open>A datagram that passes every test is a packet of the frame.\<close>

lemma mbim_datagram_good:
  assumes "off + len \<le> skb_len b" "len \<noteq> 0" "len \<le> unat (rx_max (mbim_ctx d))"
    "ip_protocol (peek K b off) = Some proto" "elem (nets d) idx = Some (Dev net)"
  shows "mbim_good d b \<lparr>rx_dev = idx, rx_data = link_header (ether net) (mhi_bridge_mode_rx_fixup d net) proto
    @ take len (drop off (skb_data b)), rx_protocol = proto\<rparr>" (is "mbim_good d b ?p")
proof -
  let ?pkt = "take len (drop off (skb_data b))"
  have hd: "hd ?pkt = peek K b off" "?pkt \<noteq> []" using assms(1,2) by (auto simp: hd_conv_nth peek_data)
  have eq: "?p = deliver (ether net) (mhi_bridge_mode_rx_fixup d net) idx ?pkt"
    unfolding deliver_def Let_def hd(1) assms(4) by simp
  have "is_ip ?pkt" unfolding is_ip_def hd(1) using hd(2) assms(4) by simp
  then show ?thesis unfolding mbim_good_def eq using assms(1,3,5) by blast
qed

lemma mbim_datagrams_sound:
  assumes "elem (nets d) idx = Some p" "mbim_sound d b r" "refused r = 0" "leaked r = 0"
  shows "ndp_sound d b (mbim_datagrams K d idx p b pos k r)"
  using assms
proof (induction k arbitrary: pos r)
  case 0
  then show ?case by (simp add: ndp_sound_def)
next
  case (Suc k)
  let ?off = "unat (peek_le16 K b pos)" and ?len = "unat (peek_le16 K b (pos + 2))"
  show ?case
  proof (cases "?off \<noteq> 0 \<and> ?len \<noteq> 0 \<and> ?off + ?len \<le> skb_len b \<and> ?len \<le> unat (rx_max (mbim_ctx d))
      \<and> alloc_ok K (asked r) \<and> (\<exists>net. p = Dev net) \<and> ip_protocol (peek K b ?off) \<noteq> None")
    case True
    then obtain net proto where n: "p = Dev net" "ip_protocol (peek K b ?off) = Some proto" by auto
    let ?p = "\<lparr>rx_dev = idx, rx_data = link_header (ether net) (mhi_bridge_mode_rx_fixup d net) proto
      @ take ?len (drop ?off (skb_data b)), rx_protocol = proto\<rparr>"
    have "mbim_good d b ?p" using mbim_datagram_good [OF _ _ _ n(2)] True Suc.prems(1) n(1) by simp
    then have "mbim_sound d b (r\<lparr>asked := asked r + 1, skb_chain := skb_chain r @ [?p]\<rparr>)"
      using Suc.prems(2) by (simp add: mbim_sound_def)
    from Suc.IH [OF Suc.prems(1) this, of "pos + 4"] Suc.prems(3,4)
    show ?thesis using True n by (simp add: Let_def)
  next
    case False
    then show ?thesis
      using Suc.prems by (cases p) (auto simp: Let_def mbim_sound_def ndp_sound_def split: option.splits)
  qed
qed

lemma mbim_ndp_sound:
  assumes "mbim_ndp K qmode d b off r = (e, r')" "e \<noteq> Ndp_fault"
    "mbim_sound d b r" "refused r = 0" "leaked r = 0"
  shows "mbim_sound d b r' \<and> refused r' + leaked r' \<le> 1 \<and> (e = Next_ndp \<longrightarrow> refused r' = 0 \<and> leaked r' = 0)"
proof -
  consider "(e, r') = (Goto_error, r)"
    | idx p pos k where "elem (nets d) idx = Some p" "mbim_datagrams K d idx p b pos k r = (e, r')"
    using assms(1,2) unfolding mbim_ndp_def Let_def by (auto split: if_splits option.splits)
  then show ?thesis
  proof cases
    case 1
    then show ?thesis using assms(3-5) by simp
  next
    case 2
    then show ?thesis using mbim_datagrams_sound [OF 2(1) assms(3-5), of K pos k] assms(2) by (simp add: ndp_sound_def)
  qed
qed

lemma mbim_ndps_sound:
  assumes ret: "mbim_ndps K qmode d b off r = Some x"
  shows "x = Some r' \<Longrightarrow> mbim_sound d b r \<Longrightarrow> refused r = 0 \<Longrightarrow> leaked r = 0 \<Longrightarrow>
    mbim_sound d b r' \<and> refused r' + leaked r' \<le> 1"
proof -
  define P where "P = (\<lambda>(K :: kernel) (qmode :: u32) d b (off :: nat) (r :: mhi_rx) x.
    \<forall>r'. x = Some r' \<longrightarrow> mbim_sound d b r \<longrightarrow> refused r = 0 \<longrightarrow> leaked r = 0 \<longrightarrow>
      mbim_sound d b r' \<and> refused r' + leaked r' \<le> 1)"
  have "P K qmode d b off r x"
  proof (rule mbim_ndps.raw_induct [where P = P, OF _ ret])
    fix loop :: "kernel \<Rightarrow> u32 \<Rightarrow> mhi_netdev \<Rightarrow> sk_buff \<Rightarrow> nat \<Rightarrow> mhi_rx \<Rightarrow> mhi_rx option option"
      and K qmode d b off r x
    assume IH: "\<And>K qmode d b off r x. loop K qmode d b off r = Some x \<Longrightarrow> P K qmode d b off r x"
      and eq: "(if off = 0 then Some (Some r)
        else case mbim_ndp K qmode d b off r of
          (Next_ndp, r') \<Rightarrow> loop K qmode d b (unat (peek_le16 K b (off + 6))) r'
        | (Goto_error, r') \<Rightarrow> Some (Some r') | (Ndp_fault, r') \<Rightarrow> Some None) = Some x"
    obtain e r1 where n: "mbim_ndp K qmode d b off r = (e, r1)" by force
    show "P K qmode d b off r x"
    proof (cases "off = 0 \<or> e \<noteq> Next_ndp")
      case True
      then show ?thesis using eq n mbim_ndp_sound [OF n] unfolding P_def by (cases e) (auto split: if_splits)
    next
      case False
      then have "loop K qmode d b (unat (peek_le16 K b (off + 6))) r1 = Some x" using eq n by simp
      from IH [OF this] show ?thesis using False mbim_ndp_sound [OF n] unfolding P_def by auto
    qed
  qed
  then show "x = Some r' \<Longrightarrow> mbim_sound d b r \<Longrightarrow> refused r = 0 \<Longrightarrow> leaked r = 0 \<Longrightarrow>
    mbim_sound d b r' \<and> refused r' + leaked r' \<le> 1"
    unfolding P_def by blast
qed

text \<open>When an NDP faults: its session is the one before the first.\<close>

definition mbim_devices :: "u32 \<Rightarrow> mhi_netdev \<Rightarrow> bool" where
  "mbim_devices qmode d \<longleftrightarrow> 0 < qmode \<and> unat qmode \<le> length (nets d) \<and> length (nets d) = 8
     \<and> (\<forall>i < unat qmode. \<exists>net. nets d ! i = Dev net)"

definition zero_session :: "kernel \<Rightarrow> u32 \<Rightarrow> mhi_netdev \<Rightarrow> sk_buff \<Rightarrow> nat \<Rightarrow> bool" where
  "zero_session K qmode d b off \<longleftrightarrow> 1 < qmode \<and> (\<exists>tci. ndp_tci K b off = Some tci \<and> ucast tci = mbim_mux_id d)"

lemma datagrams_no_fault: "fst (mbim_datagrams K d idx (Dev net) b pos k r) \<noteq> Ndp_fault"
  by (induction k arbitrary: pos r) (auto simp: Let_def split: option.split)

lemma datagrams_fault: "mbim_datagrams K d idx p b pos k r = (Ndp_fault, r') \<Longrightarrow> p \<noteq> Dev net"
  using datagrams_no_fault [of K d idx net b pos k r] by auto

lemma mbim_index_device:
  assumes D: "mbim_devices qmode d" and i: "mbim_index qmode d tci = Some idx"
  shows "(\<exists>net. elem (nets d) idx = Some (Dev net)) \<or> 1 < qmode \<and> ucast tci = mbim_mux_id d"
proof (cases "qmode = 1")
  case True
  then show ?thesis using D i by (auto simp: mbim_devices_def mbim_index_def elem_def split: if_splits)
next
  case False
  then have q: "1 < qmode" using D by (simp add: mbim_devices_def word_less_nat_alt word_unat_eq_iff)
  let ?x = "ucast tci - mbim_mux_id d :: u32"
  have x: "?x \<le> qmode" "idx = unat (?x - 1)"
    using i False q by (auto simp: mbim_index_def algebra_simps split: if_splits)
  show ?thesis
  proof (cases "?x = 0")
    case True
    then show ?thesis using q by simp
  next
    case nz: False
    then have "idx = unat ?x - 1" "0 < unat ?x" using x(2) unat_sub [of 1 ?x]
      by (simp_all add: word_le_nat_alt unat_gt_0 Suc_le_eq)
    then have "idx < unat qmode" using x(1) by (simp add: word_le_nat_alt)
    then show ?thesis using D by (auto simp: mbim_devices_def elem_def)
  qed
qed

lemma mbim_ndp_fault:
  assumes "mbim_ndp K qmode d b off r = (Ndp_fault, r')" "mbim_devices qmode d"
  shows "zero_session K qmode d b off"
proof -
  obtain tci idx where t: "ndp_tci K b off = Some tci" "mbim_index qmode d tci = Some idx"
    and c: "elem (nets d) idx = None \<or> (\<exists>p. elem (nets d) idx = Some p
      \<and> mbim_datagrams K d idx p b (off + 8) ((unat (peek_le16 K b (off + 4)) - 8) div 4) r = (Ndp_fault, r'))"
    using assms(1) unfolding mbim_ndp_def Let_def
    by (auto split: if_splits option.splits Option.bind_splits)
  from c have "\<not> (\<exists>net. elem (nets d) idx = Some (Dev net))" using datagrams_fault by auto
  then show ?thesis using t mbim_index_device [OF assms(2) t(2)] by (auto simp: zero_session_def)
qed

text \<open>The loop: the cause of a fault, when it returns, and when it cannot.\<close>

lemma mbim_ndp_inside:
  assumes "mbim_ndp K qmode d b off r = (Next_ndp, r')"
  shows "off + 8 \<le> skb_len b"
  using assms by (auto simp: mbim_ndp_def split: if_splits)

lemma mbim_ndps_fault:
  assumes ret: "mbim_ndps K qmode d b off r = Some x"
  shows "x = None \<Longrightarrow> mbim_devices qmode d \<Longrightarrow> ndp_at K b off \<Longrightarrow>
    \<exists>off. ndp_at K b off \<and> zero_session K qmode d b off"
proof -
  define P where "P = (\<lambda>(K :: kernel) (qmode :: u32) d b (off :: nat) (r :: mhi_rx) (x :: mhi_rx option).
    x = None \<longrightarrow> mbim_devices qmode d \<longrightarrow> ndp_at K b off \<longrightarrow>
      (\<exists>off. ndp_at K b off \<and> zero_session K qmode d b off))"
  have "P K qmode d b off r x"
  proof (rule mbim_ndps.raw_induct [where P = P, OF _ ret])
    fix loop :: "kernel \<Rightarrow> u32 \<Rightarrow> mhi_netdev \<Rightarrow> sk_buff \<Rightarrow> nat \<Rightarrow> mhi_rx \<Rightarrow> mhi_rx option option"
      and K qmode d b off r x
    assume IH: "\<And>K qmode d b off r x. loop K qmode d b off r = Some x \<Longrightarrow> P K qmode d b off r x"
      and eq: "(if off = 0 then Some (Some r)
        else case mbim_ndp K qmode d b off r of
          (Next_ndp, r') \<Rightarrow> loop K qmode d b (unat (peek_le16 K b (off + 6))) r'
        | (Goto_error, r') \<Rightarrow> Some (Some r') | (Ndp_fault, r') \<Rightarrow> Some None) = Some x"
    obtain e r1 where n: "mbim_ndp K qmode d b off r = (e, r1)" by force
    show "P K qmode d b off r x"
    proof (cases "off \<noteq> 0 \<and> e = Next_ndp")
      case True
      then have "loop K qmode d b (unat (peek_le16 K b (off + 6))) r1 = Some x" using eq n by simp
      from IH [OF this] show ?thesis
        unfolding P_def using ndp_at.follow True mbim_ndp_inside n by blast
    next
      case False
      then show ?thesis using eq n mbim_ndp_fault [of K qmode d b off r r1] unfolding P_def
        by (cases e) (auto split: if_splits)
    qed
  qed
  then show "x = None \<Longrightarrow> mbim_devices qmode d \<Longrightarrow> ndp_at K b off \<Longrightarrow>
    \<exists>off. ndp_at K b off \<and> zero_session K qmode d b off"
    unfolding P_def by blast
qed

text \<open>
  What the handler reads. Another buffer with the same frame, in other memory, gives the same result
  as long as the tables of the NDPs are inside the frame.
\<close>

definition other_memory :: "kernel \<Rightarrow> sk_buff \<Rightarrow> kernel \<Rightarrow> sk_buff \<Rightarrow> bool" where
  "other_memory K b K' b' \<longleftrightarrow> skb_data b' = skb_data b \<and> alloc_ok K' = alloc_ok K"

lemma other_peek: "other_memory K b K' b' \<Longrightarrow> i < skb_len b \<Longrightarrow> peek K' b' i = peek K b i"
  by (simp add: other_memory_def peek_data)

lemma other_le16: "other_memory K b K' b' \<Longrightarrow> i + 1 < skb_len b \<Longrightarrow> peek_le16 K' b' i = peek_le16 K b i"
  by (simp add: peek_le16_def other_peek)

lemma other_peekn: "other_memory K b K' b' \<Longrightarrow> i + n \<le> skb_len b \<Longrightarrow> peekn K' b' i n = peekn K b i n"
  by (simp add: peekn_def other_peek)

lemma datagrams_frame:
  assumes "other_memory K b K' b'" "pos + 4 * k \<le> skb_len b"
  shows "mbim_datagrams K' d idx p b' pos k r = mbim_datagrams K d idx p b pos k r"
  using assms(2)
proof (induction k arbitrary: pos r)
  case (Suc k)
  have e: "peek_le16 K' b' pos = peek_le16 K b pos" "peek_le16 K' b' (pos + 2) = peek_le16 K b (pos + 2)"
    using Suc.prems other_le16 [OF assms(1)] by simp_all
  have d: "skb_data b' = skb_data b" "alloc_ok K' = alloc_ok K" using assms(1) by (simp_all add: other_memory_def)
  have IH: "mbim_datagrams K' d idx p b' (pos + 4) k r = mbim_datagrams K d idx p b (pos + 4) k r" for r
    using Suc by simp
  show ?case
  proof (cases "peek K' b' (unat (peek_le16 K b pos)) = peek K b (unat (peek_le16 K b pos))")
    case True
    show ?thesis unfolding mbim_datagrams.simps Let_def e d IH True by (rule refl)
  next
    case False
    then have "\<not> unat (peek_le16 K b pos) < skb_len b" using other_peek [OF assms(1)] by blast
    then show ?thesis unfolding mbim_datagrams.simps Let_def e d by simp
  qed
qed simp

lemma mbim_ndp_frame:
  assumes o: "other_memory K b K' b'" and t: "table_inside K b off" "off \<noteq> 0"
  shows "mbim_ndp K' qmode d b' off r = mbim_ndp K qmode d b off r"
proof (cases "off + 8 \<le> skb_len b")
  case True
  have len: "skb_len b' = skb_len b" using o by (simp add: other_memory_def)
  have e: "peek_le16 K' b' (off + 4) = peek_le16 K b (off + 4)" "ndp_tci K' b' off = ndp_tci K b off"
    using True other_le16 [OF o] other_peek [OF o] other_peekn [OF o] by (simp_all add: ndp_tci_def)
  have dg: "mbim_datagrams K' d idx p b' (off + 8) ((unat (peek_le16 K b (off + 4)) - 8) div 4) r =
      mbim_datagrams K d idx p b (off + 8) ((unat (peek_le16 K b (off + 4)) - 8) div 4) r" for idx p
    by (rule datagrams_frame [OF o]) (use t True in \<open>simp add: table_inside_def\<close>)
  show ?thesis unfolding mbim_ndp_def Let_def len e dg by (rule refl)
next
  case False
  then show ?thesis using o by (simp add: mbim_ndp_def other_memory_def)
qed

lemma ndp_at_frame:
  assumes o: "other_memory K b K' b'" and l: "12 \<le> skb_len b" and "ndp_at K b off"
  shows "ndp_at K' b' off"
  using assms(3)
proof induction
  case first
  show ?case using ndp_at.first [of K' b'] other_le16 [OF o, of 10] l by simp
next
  case (follow off)
  then show ?case using ndp_at.follow [of K' b' off] other_le16 [OF o, of "off + 6"] o by (simp add: other_memory_def)
qed

lemma table_inside_frame: "other_memory K b K' b' \<Longrightarrow> table_inside K b off \<Longrightarrow> table_inside K' b' off"
  using other_le16 [of K b K' b' "off + 4"] by (simp add: table_inside_def other_memory_def)

lemma mbim_ndps_frame:
  assumes ret: "mbim_ndps K qmode d b off r = Some x" and o: "other_memory K b K' b'"
    and t: "\<forall>off. ndp_at K b off \<longrightarrow> table_inside K b off" and at: "ndp_at K b off"
  shows "mbim_ndps K' qmode d b' off r = Some x"
proof -
  define P where "P = (\<lambda>K (qmode :: u32) d b (off :: nat) (r :: mhi_rx) (x :: mhi_rx option).
    \<forall>K' b'. other_memory K b K' b' \<longrightarrow> (\<forall>off. ndp_at K b off \<longrightarrow> table_inside K b off) \<longrightarrow> ndp_at K b off \<longrightarrow>
      mbim_ndps K' qmode d b' off r = Some x)"
  have "P K qmode d b off r x"
  proof (rule mbim_ndps.raw_induct [where P = P, OF _ ret])
    fix loop :: "kernel \<Rightarrow> u32 \<Rightarrow> mhi_netdev \<Rightarrow> sk_buff \<Rightarrow> nat \<Rightarrow> mhi_rx \<Rightarrow> mhi_rx option option"
      and K qmode d b off r x
    assume IH: "\<And>K qmode d b off r x. loop K qmode d b off r = Some x \<Longrightarrow> P K qmode d b off r x"
      and eq: "(if off = 0 then Some (Some r)
        else case mbim_ndp K qmode d b off r of
          (Next_ndp, r') \<Rightarrow> loop K qmode d b (unat (peek_le16 K b (off + 6))) r'
        | (Goto_error, r') \<Rightarrow> Some (Some r') | (Ndp_fault, r') \<Rightarrow> Some None) = Some x"
    show "P K qmode d b off r x"
      unfolding P_def
    proof (intro allI impI)
      fix K' b' assume o: "other_memory K b K' b'" and t: "\<forall>off. ndp_at K b off \<longrightarrow> table_inside K b off"
        and at: "ndp_at K b off"
      obtain e r1 where n: "mbim_ndp K qmode d b off r = (e, r1)" by force
      have n': "mbim_ndp K' qmode d b' off r = (e, r1)" if "off \<noteq> 0" using mbim_ndp_frame [OF o _ that] t at n by simp
      show "mbim_ndps K' qmode d b' off r = Some x"
      proof (cases "off \<noteq> 0 \<and> e = Next_ndp")
        case True
        then have l: "off + 8 \<le> skb_len b" using mbim_ndp_inside n by blast
        then have nx: "peek_le16 K' b' (off + 6) = peek_le16 K b (off + 6)" using other_le16 [OF o] by simp
        have "loop K qmode d b (unat (peek_le16 K b (off + 6))) r1 = Some x" using True eq n by simp
        from IH [OF this] o t ndp_at.follow [OF at] True l
        have "mbim_ndps K' qmode d b' (unat (peek_le16 K b (off + 6))) r1 = Some x" unfolding P_def by blast
        then show ?thesis using True n' nx by (subst mbim_ndps.simps) simp
      next
        case False
        then show ?thesis using eq n n' by (subst mbim_ndps.simps) (cases "off = 0"; cases e; simp)
      qed
    qed
  qed
  then show ?thesis using o t at unfolding P_def by blast
qed

lemma mbim_ndps_same:
  assumes o: "other_memory K b K' b'" and l: "12 \<le> skb_len b" and t: "\<forall>off. ndp_at K b off \<longrightarrow> table_inside K b off"
    and at: "ndp_at K b off"
  shows "mbim_ndps K' qmode d b' off r = mbim_ndps K qmode d b off r"
proof -
  have o': "other_memory K' b' K b" and l': "12 \<le> skb_len b'" using o l by (simp_all add: other_memory_def)
  have t': "\<forall>off. ndp_at K' b' off \<longrightarrow> table_inside K' b' off"
    using t ndp_at_frame [OF o' l'] table_inside_frame [OF o] by blast
  show ?thesis
    using mbim_ndps_frame [OF _ o t at, of qmode d r] mbim_ndps_frame [OF _ o' t' ndp_at_frame [OF o l at], of qmode d r]
    by (cases "mbim_ndps K qmode d b off r"; cases "mbim_ndps K' qmode d b' off r") auto
qed

lemma mbim_ndps_returns:
  assumes "\<forall>off. ndp_at K b off \<longrightarrow> off = 0 \<or> unat (peek_le16 K b (off + 6)) = 0 \<or> off < unat (peek_le16 K b (off + 6))"
    "ndp_at K b off"
  shows "\<exists>x. mbim_ndps K qmode d b off r = Some x"
  using assms(2)
proof (induction "skb_len b - off" arbitrary: off r rule: less_induct)
  case less
  let ?n = "unat (peek_le16 K b (off + 6))"
  obtain e r' where n: "mbim_ndp K qmode d b off r = (e, r')" by force
  show ?case
  proof (cases "off \<noteq> 0 \<and> e = Next_ndp")
    case True
    note l = mbim_ndp_inside [OF n [unfolded conjunct2 [OF True]]]
    have "\<exists>x. mbim_ndps K qmode d b ?n r' = Some x"
    proof (cases "?n = 0")
      case True
      then show ?thesis by (simp add: mbim_ndps.simps [of K qmode d b 0])
    next
      case False
      then have "off < ?n" using spec [OF assms(1), of off] less.prems True by simp
      then show ?thesis using l True by (intro less.hyps ndp_at.follow less.prems) linarith+
    qed
    then show ?thesis using True n by (subst mbim_ndps.simps) simp
  next
    case False
    then show ?thesis using n by (subst mbim_ndps.simps) (cases e; auto)
  qed
qed

lemma mbim_ndps_stuck:
  assumes S: "\<And>r. mbim_ndp K qmode d b off r = (Next_ndp, r)" "off \<noteq> 0" "unat (peek_le16 K b (off + 6)) = off"
  shows "mbim_ndps K qmode d b off r = None"
proof (rule ccontr)
  assume "mbim_ndps K qmode d b off r \<noteq> None"
  then obtain x where ret: "mbim_ndps K qmode d b off r = Some x" by blast
  define P where "P = (\<lambda>K qmode d b off (r :: mhi_rx) (x :: mhi_rx option).
    \<not> ((\<forall>r. mbim_ndp K qmode d b off r = (Next_ndp, r)) \<and> off \<noteq> 0 \<and> unat (peek_le16 K b (off + 6)) = off))"
  have "P K qmode d b off r x"
  proof (rule mbim_ndps.raw_induct [where P = P, OF _ ret])
    fix loop :: "kernel \<Rightarrow> u32 \<Rightarrow> mhi_netdev \<Rightarrow> sk_buff \<Rightarrow> nat \<Rightarrow> mhi_rx \<Rightarrow> mhi_rx option option"
      and K qmode d b off r x
    assume IH: "\<And>K qmode d b off r x. loop K qmode d b off r = Some x \<Longrightarrow> P K qmode d b off r x"
      and eq: "(if off = 0 then Some (Some r)
        else case mbim_ndp K qmode d b off r of
          (Next_ndp, r') \<Rightarrow> loop K qmode d b (unat (peek_le16 K b (off + 6))) r'
        | (Goto_error, r') \<Rightarrow> Some (Some r') | (Ndp_fault, r') \<Rightarrow> Some None) = Some x"
    show "P K qmode d b off r x" unfolding P_def
    proof
      assume A: "(\<forall>r. mbim_ndp K qmode d b off r = (Next_ndp, r)) \<and> off \<noteq> 0
        \<and> unat (peek_le16 K b (off + 6)) = off"
      then have "loop K qmode d b off r = Some x" using eq by simp
      from IH [OF this] A show False unfolding P_def by blast
    qed
  qed
  then show False using S unfolding P_def by blast
qed

section \<open>Flow-control commands\<close>

definition flow_frame :: "u8 \<Rightarrow> u8 list \<Rightarrow> u8 list" where
  "flow_frame mux c = [0x80, mux] @ be16 16 @ c"

lemma flow_frame_fields:
  assumes b: "skb_data b = flow_frame mux c" and c: "length c = 16"
  shows "peek K b 0 = 0x80" "peek K b 1 = mux" "peek16 K b 2 = 16" "peek K b 4 = c ! 0"
    "skb_len b = 20" "peekn K b 0 20 = flow_frame mux c"
proof -
  have l: "skb_len b = 20" using b c by (simp add: flow_frame_def be16_def)
  show "peek K b 0 = 0x80" "peek K b 1 = mux" "peek K b 4 = c ! 0" "peek16 K b 2 = 16"
    using b c l by (simp_all add: peek_data peek16_def flow_frame_def be16_def of_le16_def)
  show "skb_len b = 20" by (rule l)
  show "peekn K b 0 20 = flow_frame mux c"
    unfolding peekn_def using l by (intro nth_equalityI) (simp_all add: peek_data b flip: b)
qed

lemma flow_frame_decoded:
  assumes b: "skb_data b = flow_frame mux c" "length c = 16"
    and R: "rx_route (as_qmap_dev d) mux idx net" and e: "elem (nets d) idx = Some (Dev net)"
    and m: "16 \<le> unat (mtu net)"
  shows "mhi_decode_one K d b n = MCommand 20"
proof -
  note f = flow_frame_fields [OF b]
  have dl: "mhi_dl_padding d = 0" using R by (simp add: rx_route_def)
  have s: "map_hdr_size 0x80 = 4" by (simp add: map_hdr_size_def)
  have "\<not> (16 :: u32) > mtu net" using m by (simp add: word_less_nat_alt)
  then show ?thesis
    unfolding mhi_decode_one_def Let_def f(1-3) s
    using f(5) dl e rx_route_mux(1,3,4) [OF R] by (simp add: not_le)
qed

lemma qmi_loop_command:
  assumes "mhi_decode_one K d b (asked r) = MCommand (skb_len b)" "4 < skb_len b"
    "rmnet_data_map_command K E b (d, r) = Some (d', r')"
  shows "qmi_loop K E d b r = Some (Some (d', r'))"
proof -
  obtain b' where b': "skb_pull (skb_len b) b = Some b'" "skb_len b' = 0" by (simp add: skb_pull_def)
  then have "qmi_loop K E d' b' r' = Some (Some (d', r'))" by (subst qmi_loop.simps) simp
  then show ?thesis using assms b'(1) by (subst qmi_loop.simps) simp
qed

lemma flow_bits:
  fixes w :: u32
  assumes "idx < 32"
  shows "bit (w OR push_bit idx 1) j = (if j = idx then True else bit w j)"
    "bit (w AND NOT (push_bit idx 1)) j = (if j = idx then False else bit w j)"
  using assms bit_imp_le_length [of w j] by (auto simp: bit_simps)

lemma flow_command_effect:
  assumes b: "skb_data b = flow_frame mux c" "length c = 16" and k: "c ! 0 = 1 \<or> c ! 0 = 2"
    and R: "rx_route (as_qmap_dev d) mux idx net" and e: "elem (nets d) idx = Some (Dev net)"
    and A: "ack_alloc_ok E (ack_asked r)"
  shows "\<exists>d'. rmnet_data_map_command K E b (d, r) = Some (d', r\<lparr>ack_asked := ack_asked r + 1,
      acks := acks r @ [(flow_frame mux c)[5 := (c ! 1 AND 0xFC) OR 1]]\<rparr>) \<and> counts_only d d'
    \<and> (\<forall>j. bit (flow_control d') j = (if j = idx then c ! 0 = 2 else bit (flow_control d) j))"
proof -
  note f = flow_frame_fields [OF b]
  let ?d = "count_command (unat (c ! 0)) d"
  have i: "idx < 8" using R by (auto simp: rx_route_def)
  have m8: "mux - QUECTEL_QMAP_MUX_ID = of_nat idx" using R by (simp add: rx_route_def)
  have u: "unat (of_nat idx :: u8) = idx" using i by (simp add: unsigned_of_nat take_bit_nat_eq_self)
  have "(ucast (of_nat idx :: u8) :: u32) = of_nat idx"
    using i by (simp add: unsigned_of_nat take_bit_nat_eq_self)
  then have q: "\<not> ucast (mux - QUECTEL_QMAP_MUX_ID) \<ge> nd_qmap_mode ?d"
    using rx_route_mux(3) [OF R] m8 by (simp add: not_le)
  define d' where "d' = ?d\<lparr>flow_control := (if c ! 0 = 2 then flow_control d OR push_bit idx 1
    else flow_control d AND NOT (push_bit idx 1))\<rparr>"
  have fc: "rmnet_map_do_flow_control mux (c ! 0 = 2) ?d = Some (1, d')"
    unfolding rmnet_map_do_flow_control_def Let_def using q e m8 u
    by (simp add: d'_def) (simp add: count_command_def)
  have "(flow_frame mux c) ! 5 = c ! 1" by (simp add: flow_frame_def be16_def)
  then have ack: "rmnet_map_send_ack K E 1 b r = r\<lparr>ack_asked := ack_asked r + 1,
      acks := acks r @ [(flow_frame mux c)[5 := (c ! 1 AND 0xFC) OR 1]]\<rparr>"
    using A f(6) by (simp add: rmnet_map_send_ack_def Let_def)
  have "unat (c ! 0) < 10" using k by auto
  then have "rmnet_data_map_command K E b (d, r) = Some (d', rmnet_map_send_ack K E 1 b r)"
    using fc k f(2,4) by (auto simp: rmnet_data_map_command_def Let_def)
  moreover have "counts_only d d'"
    unfolding d'_def by (rule counts_only_trans [OF counts_only_simple(4) counts_only_simple(3)])
  moreover have "\<forall>j. bit (flow_control d') j = (if j = idx then c ! 0 = 2 else bit (flow_control d) j)"
    using i flow_bits [of idx "flow_control d"] by (simp add: d'_def)
  ultimately show ?thesis using ack by auto
qed

lemma mbim_empty_ndp:
  assumes "mbim_index qmode d tci = Some idx" "elem (nets d) idx = Some p" "ndp_tci K b off = Some tci"
    "off + 8 \<le> skb_len b" "16 \<le> unat (peek_le16 K b (off + 4))"
    "unat (peek_le16 K b (off + 4)) \<le> skb_len b"
    "peek_le16 K b (off + 8) = 0 \<or> peek_le16 K b (off + 10) = 0"
  shows "mbim_ndp K qmode d b off r = (Next_ndp, r)"
proof -
  let ?w = "unat (peek_le16 K b (off + 4))"
  have w: "\<not> peek_le16 K b (off + 4) < 16" using assms(5) by (simp add: word_less_nat_alt)
  have n: "8 + (?w - 8) div 4 * 4 \<le> skb_len b"
    using assms(5,6) div_times_less_eq_dividend [of "?w - 8" 4] by linarith
  have "(?w - 8) div 4 \<noteq> 0" using assms(5) by (simp add: div_eq_0_iff)
  then obtain k where k: "(?w - 8) div 4 = Suc k" by (cases "(?w - 8) div 4") simp_all
  have e: "off + 8 + 2 = off + 10" by simp
  have dg: "mbim_datagrams K d idx p b (off + 8) ((?w - 8) div 4) r = (Next_ndp, r)"
    unfolding k mbim_datagrams.simps Let_def e using assms(7) by auto
  show ?thesis unfolding mbim_ndp_def Let_def using assms(1-4) w n dg by simp
qed

text \<open>An NDP that names itself as the next one and whose first entry is empty.\<close>

definition ndp_repeats :: "kernel \<Rightarrow> u32 \<Rightarrow> mhi_netdev \<Rightarrow> sk_buff \<Rightarrow> bool" where
  "ndp_repeats K qmode d b \<longleftrightarrow>
     (let off = unat (peek_le16 K b 10)
      in mbim_header_ok K d b \<and> off \<noteq> 0 \<and> off + 8 \<le> skb_len b \<and> peek_le16 K b (off + 6) = of_nat off
         \<and> 16 \<le> unat (peek_le16 K b (off + 4)) \<and> unat (peek_le16 K b (off + 4)) \<le> skb_len b
         \<and> (peek_le16 K b (off + 8) = 0 \<or> peek_le16 K b (off + 10) = 0)
         \<and> (case Option.bind (ndp_tci K b off) (mbim_index qmode d) of
              None \<Rightarrow> False | Some idx \<Rightarrow> elem (nets d) idx \<noteq> None))"

section \<open>Witness data\<close>

definition demo_nets :: "net_ptr list" where
  "demo_nets = Dev demo_net # replicate 7 Null"

definition demo_mhi :: "u32 \<Rightarrow> mhi_net_type \<Rightarrow> net_ptr list \<Rightarrow> mhi_netdev" where
  "demo_mhi mode t ps = (mhi_net_config (demo_probe 1) t)\<lparr>nd_qmap_mode := mode, nets := ps\<rparr>"

text \<open>A frame of 28 bytes whose NDP follows itself.\<close>

definition self_ndp :: "u8 list" where
  "self_ndp = [0x4E, 0x43, 0x4D, 0x48] @ le16 12 @ le16 0 @ le16 28 @ le16 12
     @ [0x49, 0x50, 0x53, 0] @ le16 16 @ le16 12 @ le16 0 @ le16 0 @ le16 0 @ le16 0"

lemma demo_mhi_fields [simp]:
  "nets (demo_mhi m t ps) = ps" "nd_qmap_mode (demo_mhi m t ps) = m" "mbim_mux_id (demo_mhi m t ps) = 0"
  "rx_max (mbim_ctx (demo_mhi m MHI_NET_MBIM ps)) = 32768" "mhi_dl_padding (demo_mhi m t ps) = 0"
  by (simp_all add: demo_mhi_def demo_probe_def mhi_net_config_def mhi_dl_padding_def Let_def
      QCUSB_MRECEIVE_MAX_BUFFER_SIZE_def)

text \<open>The frame of one datagram, for witnesses.\<close>

definition demo_mbim :: "u8 \<Rightarrow> u8 list \<Rightarrow> sk_buff" where
  "demo_mbim sess pkt = rx_buf (mbim_hdr (le16 0) sess (length pkt) @ pkt)"

lemma demo_mbim_data: "skb_data (demo_mbim sess pkt) = mbim_hdr (le16 0) sess (length pkt) @ pkt"
  by (simp add: demo_mbim_def rx_buf_def)

text \<open>One received frame, one buffer in the ring.\<close>

definition demo_rx :: mhi_netdev where
  "demo_rx = (demo_mhi 1 MHI_NET_RMNET demo_nets)\<lparr>mru := 8, enabled := True,
     posted := [new_skb demo_kernel 8], qmap_chain := [(new_skb demo_kernel 8)\<lparr>skb_data := [0, 0x81, 0, 1],
       skb_tail := [0, 0, 0, 0]\<rparr>]\<rparr>"

lemma demo_rx_ok: "rx_buffers_ok demo_rx"
  by (simp add: rx_buffers_ok_def idle_buffer_def buffer_ok_def demo_rx_def new_skb_def demo_kernel_def
      demo_mhi_def mhi_net_config_def Let_def)

section \<open>Properties\<close>

text \<open>C23. The QMAP decoder of the MHI driver and that of \<^verbatim>\<open>qmi_wwan_q\<close> are equivalent: on every frame, also
  a malformed one, both hand over the same packets, both fault or both never end. The flow-control
  commands that only the MHI driver answers do not change the packets.\<close>

theorem qmap_decoders_agree:
  assumes "Freed \<notin> set (nets d)" "length (nets d) = 8"
  shows "map_option (map_option (\<lambda>(d, r). skb_chain r)) (rmnet_qmi_rx_handler K E d b) =
    qmap_packet_decode K False (as_qmap_dev d) b"
  by (rule qmi_handler_same [OF assms])

theorem qmap_decoders_agree_witness:
  "map_option (map_option (\<lambda>(d, r). skb_chain r))
      (rmnet_qmi_rx_handler demo_kernel demo_env (demo_mhi 1 MHI_NET_RMNET demo_nets) (rx_buf [0, 0x81, 0, 1, 0x45])) =
    qmap_packet_decode demo_kernel False (as_qmap_dev (demo_mhi 1 MHI_NET_RMNET demo_nets)) (rx_buf [0, 0x81, 0, 1, 0x45])"
  by (rule qmap_decoders_agree) (simp_all add: demo_mhi_def demo_nets_def)

text \<open>C21. Whatever an MBIM frame holds, if the handler returns without a fault then every packet it hands
  over is an IP packet cut out of the frame, of at most \<open>rx_max\<close> bytes, for a device of the array;
  every buffer it took is handed over, except at most one that was refused or leaked; and of the
  device only the sequence number and counters changed.\<close>

theorem mbim_packets_sound:
  assumes "rmnet_mbim_rx_handler K qmode d b = Some (Some (d', r))"
  shows "(\<forall>p \<in> set (skb_chain r). mbim_good d b p) \<and> asked r = length (skb_chain r) + refused r + leaked r
    \<and> refused r + leaked r \<le> 1 \<and> counts_only d d'"
proof (cases "mbim_header_ok K d b")
  case False
  then show ?thesis using assms by (auto simp: rmnet_mbim_rx_handler_def no_rx_def)
next
  case True
  let ?d = "d\<lparr>mbim_ctx := (mbim_ctx d)\<lparr>rx_seq := peek_le16 K b 6 + 1\<rparr>\<rparr>"
  have n: "mbim_ndps K qmode ?d b (unat (peek_le16 K b 10)) no_rx = Some (Some r)"
    using assms True by (auto simp: rmnet_mbim_rx_handler_def Let_def)
  have "mbim_sound ?d b no_rx" "refused no_rx = 0" "leaked no_rx = 0" by (simp_all add: mbim_sound_def no_rx_def)
  from mbim_ndps_sound [OF n refl this] have "mbim_sound ?d b r \<and> refused r + leaked r \<le> 1" .
  moreover have "mbim_good ?d b = mbim_good d b"
    by (simp add: fun_eq_iff mbim_good_def mhi_bridge_mode_rx_fixup_def)
  ultimately show ?thesis using handlers_count(2) [OF assms] by (simp add: mbim_sound_def)
qed

theorem mbim_packets_sound_witness:
  "\<exists>d' r. rmnet_mbim_rx_handler demo_kernel 1 (demo_mhi 1 MHI_NET_MBIM demo_nets) (demo_mbim (mbim_session 1 0) [0x45])
      = Some (Some (d', r)) \<and> list_all (mbim_good (demo_mhi 1 MHI_NET_MBIM demo_nets)
        (demo_mbim (mbim_session 1 0) [0x45])) (skb_chain r)
    \<and> asked r = length (skb_chain r) + refused r + leaked r \<and> refused r + leaked r \<le> 1
    \<and> counts_only (demo_mhi 1 MHI_NET_MBIM demo_nets) d'"
proof -
  have "\<exists>d' r. rmnet_mbim_rx_handler demo_kernel 1 (demo_mhi 1 MHI_NET_MBIM demo_nets)
      (demo_mbim (mbim_session 1 0) [0x45]) = Some (Some (d', r))"
    by (intro exI, rule mbim_decodes_frame [OF demo_mbim_data, where mux = 0 and idx = 0 and net = demo_net])
      (simp_all add: ip_protocol_def is_ip_def mbim_route_def elem_def demo_nets_def)
  then show ?thesis using mbim_packets_sound unfolding list_all_iff by blast
qed

text \<open>The session before the first one, with several devices: the index is -1.\<close>

theorem mbim_zero_session_faults:
  assumes b: "skb_data b = mbim_hdr (le16 seq) sess (length pkt) @ pkt" and q: "1 < qmode"
    and s: "ucast sess = mbim_mux_id d" and n: "28 + length pkt \<le> unat (rx_max (mbim_ctx d))" "28 + length pkt < 65536"
    and l: "length (nets d) = 8"
  shows "rmnet_mbim_rx_handler K qmode d b = Some None"
proof -
  note f = mbim_frame_fields [OF b]
  let ?d = "d\<lparr>mbim_ctx := (mbim_ctx d)\<lparr>rx_seq := seq + 1\<rparr>\<rparr>"
  have "unat (peek_le16 K b 8) = 28 + length pkt"
    using n(2) unat_u16_of_nat [of "28 + length pkt"] by (simp only: f(4))
  then have h: "mbim_header_ok K d b" using f(1,2) n(1) by (simp add: mbim_header_ok_def)
  have u: "(ucast (ucast sess :: u16) :: u32) = mbim_mux_id d" using s u8_through_u16 [of sess] by simp
  have "mbim_index qmode ?d (ucast sess) = Some (unat (- 1 :: u32))"
    using q u by (auto simp: mbim_index_def)
  moreover have "unat (- 1 :: u32) = 4294967295" by (simp add: unsigned_minus_1_eq_mask mask_eq_exp_minus_1)
  then have "elem (nets ?d) (unat (- 1 :: u32)) = None" using l by (simp add: elem_def)
  ultimately have "mbim_ndp K qmode ?d b 12 no_rx = (Ndp_fault, no_rx)"
    using f(1,6,7,8) by (simp add: mbim_ndp_def ndp_tci_def)
  then have "mbim_ndps K qmode ?d b 12 no_rx = Some None" by (subst mbim_ndps.simps) simp
  then show ?thesis using h f(3,5) by (simp add: rmnet_mbim_rx_handler_def)
qed

theorem mbim_zero_session_faults_witness:
  "rmnet_mbim_rx_handler demo_kernel 2 (demo_mhi 2 MHI_NET_MBIM demo_nets) (demo_mbim 0 [0x45]) = Some None"
  by (rule mbim_zero_session_faults [OF demo_mbim_data]) (simp_all add: demo_nets_def)

text \<open>C34. The MBIM handler on any frame in which the table of every NDP the loop comes to is inside the frame,
  when all \<open>qmap_mode\<close> devices exist. It reads the frame and no other memory: what it does is the same
  for every buffer that holds these bytes, whatever stands behind them. And it faults only when the
  frame has an NDP whose session is the one before that of the first device (\<open>mbim_mux_id\<close>), with
  several devices configured; the index of that session is -1. The condition on the tables is one the
  code does not check.\<close>

theorem mbim_fault_cause:
  assumes D: "mbim_devices qmode d" and t: "\<forall>off. ndp_at K b off \<longrightarrow> table_inside K b off"
  shows "(\<forall>K' b'. skb_data b' = skb_data b \<and> alloc_ok K' = alloc_ok K \<longrightarrow>
      rmnet_mbim_rx_handler K' qmode d b' = rmnet_mbim_rx_handler K qmode d b)
    \<and> (rmnet_mbim_rx_handler K qmode d b = Some None \<longrightarrow> (\<exists>off. ndp_at K b off \<and> zero_session K qmode d b off))"
proof (intro conjI allI impI)
  fix K' :: kernel and b' :: sk_buff
  assume "skb_data b' = skb_data b \<and> alloc_ok K' = alloc_ok K"
  then have o: "other_memory K b K' b'" by (simp add: other_memory_def)
  show "rmnet_mbim_rx_handler K' qmode d b' = rmnet_mbim_rx_handler K qmode d b"
  proof (cases "20 \<le> skb_len b")
    case True
    have e: "peekn K' b' 0 4 = peekn K b 0 4" "peek_le16 K' b' 6 = peek_le16 K b 6" "peek_le16 K' b' 8 = peek_le16 K b 8"
      "peek_le16 K' b' 10 = peek_le16 K b 10" "skb_len b' = skb_len b"
      using True other_peekn [OF o] other_le16 [OF o] o by (simp_all add: other_memory_def)
    have "mbim_ndps K' qmode d' b' (unat (peek_le16 K b 10)) no_rx = mbim_ndps K qmode d' b (unat (peek_le16 K b 10)) no_rx" for d'
      by (rule mbim_ndps_same [OF o _ t ndp_at.first]) (use True in simp)
    then show ?thesis unfolding rmnet_mbim_rx_handler_def mbim_header_ok_def Let_def e by simp
  next
    case False
    then show ?thesis using o by (simp add: rmnet_mbim_rx_handler_def mbim_header_ok_def other_memory_def)
  qed
next
  assume f: "rmnet_mbim_rx_handler K qmode d b = Some None"
  let ?d = "d\<lparr>mbim_ctx := (mbim_ctx d)\<lparr>rx_seq := peek_le16 K b 6 + 1\<rparr>\<rparr>"
  have n: "mbim_ndps K qmode ?d b (unat (peek_le16 K b 10)) no_rx = Some None"
    using f by (auto simp: rmnet_mbim_rx_handler_def Let_def split: if_splits)
  have "mbim_devices qmode ?d" using D by (simp add: mbim_devices_def)
  from mbim_ndps_fault [OF n refl this ndp_at.first] show "\<exists>off. ndp_at K b off \<and> zero_session K qmode d b off"
    by (simp add: zero_session_def)
qed

text \<open>A frame of one NDP with the session before the first, alone and with other bytes behind it.\<close>

theorem mbim_fault_cause_witness:
  "rmnet_mbim_rx_handler demo_kernel 2 (demo_mhi 2 MHI_NET_MBIM (replicate 8 (Dev demo_net)))
      ((demo_mbim 0 [0x45])\<lparr>skb_tail := [1, 2, 3]\<rparr>) = Some None
    \<and> (\<exists>off. ndp_at demo_kernel (demo_mbim 0 [0x45]) off
      \<and> zero_session demo_kernel 2 (demo_mhi 2 MHI_NET_MBIM (replicate 8 (Dev demo_net))) (demo_mbim 0 [0x45]) off)"
proof -
  let ?d = "demo_mhi 2 MHI_NET_MBIM (replicate 8 (Dev demo_net))" and ?b = "demo_mbim 0 [0x45]"
  note f = mbim_frame_fields [OF demo_mbim_data [of 0 "[0x45]"]]
  have D: "mbim_devices 2 ?d" by (simp add: mbim_devices_def nth_replicate)
  have "off = 12 \<or> off = 0" if "ndp_at demo_kernel ?b off" for off
    using that by induction (use f in auto)
  moreover have "table_inside demo_kernel ?b 12" "table_inside demo_kernel ?b 0" using f(1,8) by (simp_all add: table_inside_def)
  ultimately have "\<forall>off. ndp_at demo_kernel ?b off \<longrightarrow> table_inside demo_kernel ?b off" by blast
  note w = mbim_fault_cause [OF D this]
  have "rmnet_mbim_rx_handler demo_kernel 2 ?d ?b = Some None"
    by (rule mbim_zero_session_faults [OF demo_mbim_data]) simp_all
  moreover have "skb_data (?b\<lparr>skb_tail := [1, 2, 3]\<rparr>) = skb_data ?b" by simp
  ultimately show ?thesis using w by metis
qed

text \<open>
  Why that condition is needed. A frame of 28 bytes that ends with the header of an NDP of two entries:
  the size of the table passes the test, the entries are read behind the frame, and what stands there
  decides what is handed over.
\<close>

definition past_frame :: sk_buff where
  "past_frame = rx_buf ([0x4E, 0x43, 0x4D, 0x48, 12, 0, 0, 0, 28, 0, 20, 0] @ [0x45, 0, 0, 0, 0, 0, 0, 0]
     @ [0x49, 0x50, 0x53, 0, 16, 0, 0, 0])"

lemma past_frame_fields:
  fixes mem defines "K \<equiv> demo_kernel\<lparr>beyond := mem\<rparr>"
  shows "mbim_header_ok K (demo_mhi 1 MHI_NET_MBIM demo_nets) past_frame" "peek_le16 K past_frame 10 = 20"
    "peek_le16 K past_frame 24 = 16" "ndp_tci K past_frame 20 = Some 0" "peek_le16 K past_frame 26 = 0"
    "peek_le16 K past_frame 28 = of_le16 (mem 0) (mem 1)" "peek_le16 K past_frame 30 = of_le16 (mem 2) (mem 3)"
    "peek_le16 K past_frame 32 = of_le16 (mem 4) (mem 5)"
    "ip_protocol (peek K past_frame 12) = Some ETH_P_IP" "alloc_ok K n"
  unfolding K_def
  by (simp_all add: past_frame_def rx_buf_def mbim_header_ok_def ndp_tci_def peek_le16_def peekn_def peek_def of_le16_def
      upt_rec demo_kernel_def ip_protocol_def)

lemma past_frame_ndps:
  fixes mem defines "K \<equiv> demo_kernel\<lparr>beyond := mem\<rparr>"
  assumes "nets d = demo_nets" "mbim_mux_id d = 0"
  shows "mbim_ndps K 1 d past_frame 20 r = (case mbim_datagrams K d 0 (Dev demo_net) past_frame 28 (Suc (Suc 0)) r of
    (Ndp_fault, r') \<Rightarrow> Some None | (e, r') \<Rightarrow> Some (Some r'))"
proof -
  have "skb_len past_frame = 28" by (simp add: past_frame_def rx_buf_def)
  then have "mbim_ndp K 1 d past_frame 20 r = mbim_datagrams K d 0 (Dev demo_net) past_frame 28 (Suc (Suc 0)) r"
    using past_frame_fields(3,4) [of mem] assms
    by (simp add: mbim_ndp_def mbim_index_def elem_def demo_nets_def del: mbim_datagrams.simps flip: numeral_2_eq_2)
  then show ?thesis
    using past_frame_fields(5) [of mem] unfolding K_def
    by (subst mbim_ndps.simps) (auto simp: mbim_ndps.simps [of _ _ _ _ 0] split: prod.split ndp_end.split)
qed

theorem mbim_reads_past_frame:
  "\<exists>d' r d'' r'. rmnet_mbim_rx_handler (demo_kernel\<lparr>beyond := \<lambda>_. 0\<rparr>) 1 (demo_mhi 1 MHI_NET_MBIM demo_nets) past_frame
      = Some (Some (d', r)) \<and> skb_chain r = []
    \<and> rmnet_mbim_rx_handler (demo_kernel\<lparr>beyond := (\<lambda>_. 0)(0 := 12, 2 := 1)\<rparr>) 1 (demo_mhi 1 MHI_NET_MBIM demo_nets) past_frame
      = Some (Some (d'', r')) \<and> length (skb_chain r') = 1"
proof -
  have l: "skb_len past_frame = 28" by (simp add: past_frame_def rx_buf_def)
  note f = past_frame_fields [of "\<lambda>_. 0"] and g = past_frame_fields [of "(\<lambda>_. 0)(0 := 12, 2 := 1)"]
  have "\<exists>d' r. rmnet_mbim_rx_handler (demo_kernel\<lparr>beyond := \<lambda>_. 0\<rparr>) 1 (demo_mhi 1 MHI_NET_MBIM demo_nets) past_frame
      = Some (Some (d', r)) \<and> skb_chain r = []"
    using f(1,2,6) by (simp add: rmnet_mbim_rx_handler_def Let_def past_frame_ndps of_le16_def no_rx_def)
  moreover have "\<exists>d' r. rmnet_mbim_rx_handler (demo_kernel\<lparr>beyond := (\<lambda>_. 0)(0 := 12, 2 := 1)\<rparr>) 1
      (demo_mhi 1 MHI_NET_MBIM demo_nets) past_frame = Some (Some (d', r)) \<and> length (skb_chain r) = 1"
    using g(1,2,6-10) l
    by (simp add: rmnet_mbim_rx_handler_def Let_def past_frame_ndps of_le16_def no_rx_def)
  ultimately show ?thesis by blast
qed

text \<open>C35. The MBIM handler returns, with or without a fault, on every frame whose NDPs follow each other
  forwards: at every NDP the loop can come to, \<open>wNextNdpIndex\<close> is 0 or beyond that NDP.\<close>

theorem mbim_returns:
  assumes "\<forall>off. ndp_at K b off \<longrightarrow> off = 0 \<or> unat (peek_le16 K b (off + 6)) = 0 \<or> off < unat (peek_le16 K b (off + 6))"
  shows "\<exists>x. rmnet_mbim_rx_handler K qmode d b = Some x"
  using mbim_ndps_returns [OF assms ndp_at.first] by (auto simp: rmnet_mbim_rx_handler_def Let_def)

theorem mbim_returns_witness:
  "\<exists>x. rmnet_mbim_rx_handler demo_kernel 1 (demo_mhi 1 MHI_NET_MBIM demo_nets) (demo_mbim 0 [0x45]) = Some x"
proof (rule mbim_returns, intro allI impI)
  fix off assume "ndp_at demo_kernel (demo_mbim 0 [0x45]) off"
  then have "off = 0 \<or> off = 12"
    using mbim_frame_fields(3,5,9) [OF demo_mbim_data] by induction auto
  then show "off = 0 \<or> unat (peek_le16 demo_kernel (demo_mbim 0 [0x45]) (off + 6)) = 0
      \<or> off < unat (peek_le16 demo_kernel (demo_mbim 0 [0x45]) (off + 6))"
    using mbim_frame_fields(3,9) [OF demo_mbim_data] by auto
qed

text \<open>C36. The MBIM handler never returns on a frame whose first NDP names itself as the next one, is for a
  device of the array and starts with an empty entry.\<close>

theorem mbim_never_returns:
  assumes "ndp_repeats K qmode d b"
  shows "rmnet_mbim_rx_handler K qmode d b = None"
proof -
  let ?off = "unat (peek_le16 K b 10)"
  let ?d = "d\<lparr>mbim_ctx := (mbim_ctx d)\<lparr>rx_seq := peek_le16 K b 6 + 1\<rparr>\<rparr>"
  obtain tci idx where t: "ndp_tci K b ?off = Some tci" "mbim_index qmode d tci = Some idx" "elem (nets d) idx \<noteq> None"
    using assms by (auto simp: ndp_repeats_def Let_def split: option.splits Option.bind_splits)
  have i: "mbim_index qmode ?d tci = Some idx" using t(2) by (auto simp: mbim_index_def split: if_splits)
  obtain p where p: "elem (nets ?d) idx = Some p" using t(3) by auto
  have "mbim_ndp K qmode ?d b ?off r = (Next_ndp, r)" for r
    using assms by (intro mbim_empty_ndp [OF i p t(1)]) (simp_all add: ndp_repeats_def Let_def)
  moreover have "?off \<noteq> 0" "unat (peek_le16 K b (?off + 6)) = ?off" "mbim_header_ok K d b"
    using assms by (simp_all add: ndp_repeats_def Let_def)
  ultimately show ?thesis using mbim_ndps_stuck by (simp add: rmnet_mbim_rx_handler_def Let_def)
qed

theorem mbim_never_returns_witness:
  "rmnet_mbim_rx_handler demo_kernel 1 (demo_mhi 1 MHI_NET_MBIM demo_nets) (rx_buf self_ndp) = None"
  by (rule mbim_never_returns)
    (simp add: ndp_repeats_def mbim_header_ok_def peek_le16_def peekn_def peek_def rx_buf_def self_ndp_def le16_def
      of_le16_def upt_rec ndp_tci_def mbim_index_def demo_mhi_def demo_probe_def mhi_net_config_def Let_def
      QCUSB_MRECEIVE_MAX_BUFFER_SIZE_def elem_def demo_nets_def)

text \<open>A datagram that is not an IP packet: its buffer is neither handed over nor freed.\<close>

theorem mbim_leaks:
  assumes b: "skb_data b = mbim_hdr (le16 seq) (mbim_session qmode mux) (length pkt) @ pkt"
    and n: "28 + length pkt \<le> unat (rx_max (mbim_ctx d))" "28 + length pkt < 65536" "pkt \<noteq> []"
    and p: "ip_protocol (hd pkt) = None" and R: "mbim_route qmode d mux idx net" and A: "alloc_ok K 0"
  shows "\<exists>d'. rmnet_mbim_rx_handler K qmode d b = Some (Some (d', no_rx\<lparr>asked := 1, leaked := 1\<rparr>))"
proof -
  note f = mbim_frame_fields [OF b]
  let ?d = "d\<lparr>mbim_ctx := (mbim_ctx d)\<lparr>rx_seq := seq + 1\<rparr>\<rparr>"
  have R': "mbim_route qmode ?d mux idx net" using R by (simp add: mbim_route_def)
  have "unat (peek_le16 K b 8) = 28 + length pkt"
    using n(2) unat_u16_of_nat [of "28 + length pkt"] by (simp only: f(4))
  then have h: "mbim_header_ok K d b" using f(1,2) n(1) by (simp add: mbim_header_ok_def)
  have "mbim_ndps K qmode ?d b 12 no_rx = Some (Some (no_rx\<lparr>asked := 1, leaked := 1\<rparr>))"
    using mbim_one_ndp [OF b n(2) R', of K no_rx] mbim_one_datagram [OF b n(2), of ?d K idx net no_rx] n p A
    by (simp add: no_rx_def)
  then show ?thesis using h f(3,5) by (simp add: rmnet_mbim_rx_handler_def)
qed

theorem mbim_leaks_witness:
  "\<exists>d'. rmnet_mbim_rx_handler demo_kernel 1 (demo_mhi 1 MHI_NET_MBIM demo_nets) (demo_mbim (mbim_session 1 0) [0x15]) =
    Some (Some (d', no_rx\<lparr>asked := 1, leaked := 1\<rparr>))"
  by (rule mbim_leaks [OF demo_mbim_data, where mux = 0 and idx = 0 and net = demo_net])
    (simp_all add: ip_protocol_def mbim_route_def elem_def demo_nets_def)

text \<open>C37. A flow command in a QMAP frame, \<^verbatim>\<open>FLOW_DISABLE\<close> or \<^verbatim>\<open>FLOW_ENABLE\<close> for a registered device, sets or
  clears the bit of this device in \<open>flow_control\<close> and no other, sends back one copy of the command
  whose type is \<^verbatim>\<open>ACK\<close>, hands over no packet, and leaves the rest of the device alone but for
  counters.\<close>

theorem flow_command_acknowledged:
  assumes b: "skb_data b = flow_frame mux c" "length c = 16" and k: "c ! 0 = 1 \<or> c ! 0 = 2"
    and R: "rx_route (as_qmap_dev d) mux idx net" and e: "elem (nets d) idx = Some (Dev net)"
    and m: "16 \<le> unat (mtu net)" and A: "ack_alloc_ok E 0"
  shows "\<exists>d'. rmnet_qmi_rx_handler K E d b = Some (Some (d', no_rx\<lparr>ack_asked := 1,
      acks := [(flow_frame mux c)[5 := (c ! 1 AND 0xFC) OR 1]]\<rparr>)) \<and> counts_only d d'
    \<and> (\<forall>j. bit (flow_control d') j = (if j = idx then c ! 0 = 2 else bit (flow_control d) j))"
proof -
  have l: "skb_len b = 20" by (rule flow_frame_fields(5) [OF b])
  have a: "ack_alloc_ok E (ack_asked no_rx)" using A by (simp add: no_rx_def)
  obtain d' where d': "rmnet_data_map_command K E b (d, no_rx) = Some (d', no_rx\<lparr>ack_asked := ack_asked no_rx + 1,
      acks := acks no_rx @ [(flow_frame mux c)[5 := (c ! 1 AND 0xFC) OR 1]]\<rparr>)" "counts_only d d'"
    "\<forall>j. bit (flow_control d') j = (if j = idx then c ! 0 = 2 else bit (flow_control d) j)"
    using flow_command_effect [OF b k R e a, of K] by blast
  have "mhi_decode_one K d b (asked no_rx) = MCommand (skb_len b)"
    using flow_frame_decoded [OF b R e m] l by simp
  from qmi_loop_command [OF this _ d'(1)] have "rmnet_qmi_rx_handler K E d b = Some (Some (d',
      no_rx\<lparr>ack_asked := ack_asked no_rx + 1,
        acks := acks no_rx @ [(flow_frame mux c)[5 := (c ! 1 AND 0xFC) OR 1]]\<rparr>))"
    using l by (simp add: rmnet_qmi_rx_handler_def)
  then show ?thesis using d'(2,3) by (simp add: no_rx_def)
qed

theorem flow_command_acknowledged_witness:
  "\<exists>d'. rmnet_qmi_rx_handler demo_kernel demo_env (demo_mhi 1 MHI_NET_RMNET demo_nets)
      (rx_buf (flow_frame 0x81 (1 # replicate 15 0))) = Some (Some (d', no_rx\<lparr>ack_asked := 1,
      acks := [(flow_frame 0x81 (1 # replicate 15 0))[5 := ((1 # replicate 15 0) ! 1 AND 0xFC) OR 1]]\<rparr>))
    \<and> counts_only (demo_mhi 1 MHI_NET_RMNET demo_nets) d'
    \<and> (\<forall>j. bit (flow_control d') j = (if j = 0 then (1 # replicate 15 0) ! 0 = (2 :: u8)
        else bit (flow_control (demo_mhi 1 MHI_NET_RMNET demo_nets)) j))"
  by (rule flow_command_acknowledged [where net = demo_net])
    (simp_all add: rx_buf_def rx_route_def QUECTEL_QMAP_MUX_ID_def demo_nets_def elem_def demo_net_def demo_env_def)

text \<open>Nothing in the uplink looks at \<open>flow_control\<close>.\<close>

theorem flow_control_ignored:
  "mhi_netdev_xmit free res protocol frame (d\<lparr>flow_control := w\<rparr>) =
    map_option (\<lambda>d. d\<lparr>flow_control := w\<rparr>) (mhi_netdev_xmit free res protocol frame d)"
  by (cases "puts frame 6 (le16 (tx_seq (mbim_ctx d)))";
      cases "on_nets (\<lambda>net. net\<lparr>stopped := True\<rparr>) (unat (nd_qmap_mode d)) (nets d)")
    (simp_all add: mhi_netdev_xmit_def)

text \<open>C22. The receive buffers. Every operation of the downlink (filling the ring, the delayed work, the
  release, the completion callback, a poll with any frames) keeps the invariant that buffers in the
  ring and kept for reuse are empty with room for \<open>mru\<close> bytes and at most 128 are kept; so a
  completion of up to \<open>mru\<close> bytes never overruns its buffer.\<close>

theorem rx_buffers_kept:
  assumes I: "rx_buffers_ok d" and A: "alloc_spec K"
  shows "rx_buffers_ok (snd (mhi_netdev_alloc_skb K E no_tre d))
    \<and> rx_buffers_ok (mhi_netdev_alloc_work K E no_tre d) \<and> rx_buffers_ok (mhi_netdev_dealloc d)
    \<and> (\<forall>st vs d'. mhi_netdev_xfer_dl_cb st vs d = Some d' \<longrightarrow> rx_buffers_ok d')
    \<and> (\<forall>w budget r d'. mhi_netdev_poll K E qmode w budget no_tre d = Some (Some (r, d')) \<longrightarrow> rx_buffers_ok (snd d'))
    \<and> (\<forall>vs. posted d \<noteq> [] \<and> length vs \<le> unat (mru d) \<longrightarrow> mhi_netdev_xfer_dl_cb 0 vs d \<noteq> None)"
proof (intro conjI allI impI)
  show "rx_buffers_ok (snd (mhi_netdev_alloc_skb K E no_tre d))"
    using alloc_loop_ok [OF A I] by (simp add: mhi_netdev_alloc_skb_def)
  have "rx_buffers_ok (d\<lparr>alloc_pending := False\<rparr>)" using I by simp
  from alloc_loop_ok [OF A this, of E no_tre] show "rx_buffers_ok (mhi_netdev_alloc_work K E no_tre d)"
    by (auto simp: mhi_netdev_alloc_work_def mhi_netdev_alloc_skb_def split: prod.split)
  show "rx_buffers_ok (mhi_netdev_dealloc d)" using I by (simp add: rx_buffers_ok_def mhi_netdev_dealloc_def)
  show "rx_buffers_ok d'" if "mhi_netdev_xfer_dl_cb st vs d = Some d'" for st vs d'
    using dl_cb_ok [OF that I] .
  show "rx_buffers_ok (snd d')" if "mhi_netdev_poll K E qmode w budget no_tre d = Some (Some (r, d'))" for w budget r d'
    using poll_ok [OF _ I A] that by (cases d') auto
  show "mhi_netdev_xfer_dl_cb 0 vs d \<noteq> None" if "posted d \<noteq> [] \<and> length vs \<le> unat (mru d)" for vs
    using that I by (cases "posted d") (auto simp: mhi_netdev_xfer_dl_cb_def rx_buffers_ok_def idle_buffer_def skb_put_data_def)
qed

theorem rx_buffers_kept_witness:
  "rx_buffers_ok demo_rx \<and> posted demo_rx \<noteq> []
    \<and> rx_buffers_ok (snd (mhi_netdev_alloc_skb demo_kernel demo_env 2 demo_rx))
    \<and> mhi_netdev_xfer_dl_cb 0 [1, 2, 3] demo_rx \<noteq> None"
proof -
  have p: "posted demo_rx \<noteq> [] \<and> length [1, 2, 3 :: u8] \<le> unat (mru demo_rx)" by (simp add: demo_rx_def)
  show ?thesis using rx_buffers_kept [OF demo_rx_ok, of demo_kernel demo_env 2 1] p demo_rx_ok by auto
qed

text \<open>C38. A poll of up to 128 frames that finds as many free descriptors puts as many buffers back into the
  ring without allocating one: the buffers of the frames just handled are used again.\<close>

theorem downlink_needs_no_memory:
  assumes "mhi_netdev_poll K E qmode rx_work budget (length (qmap_chain d)) d = Some (Some (w, fin, d'))"
    "rx_buffers_ok d" "0 \<le> rx_work" "length (qmap_chain d) \<le> 128"
    "net_type d = MHI_NET_MBIM \<or> net_type d = MHI_NET_RMNET" "enabled d" "\<not> alloc_pending d"
    "\<forall>n. rx_queue_ret E n = 0"
  shows "length (posted d') = length (posted d) + length (qmap_chain d) \<and> qmap_chain d' = []
    \<and> rx_asked d' = rx_asked d \<and> \<not> alloc_pending d' \<and> enabled d'"
  by (rule poll_refills [OF assms])

theorem downlink_needs_no_memory_witness:
  "\<exists>w fin d'. mhi_netdev_poll demo_kernel demo_env 1 1 64 1 demo_rx = Some (Some (w, fin, d'))
    \<and> length (posted d') = 2 \<and> qmap_chain d' = [] \<and> rx_asked d' = rx_asked demo_rx"
proof -
  let ?b = "(new_skb demo_kernel 8)\<lparr>skb_data := [0, 0x81, 0, 1], skb_tail := [0, 0, 0, 0]\<rparr>"
  have f: "net_type demo_rx = MHI_NET_RMNET" "qmap_chain demo_rx = [?b]" "enabled demo_rx"
    "\<not> alloc_pending demo_rx" "length (posted demo_rx) = 1"
    by (simp_all add: demo_rx_def demo_mhi_def mhi_net_config_def Let_def)
  have "rmnet_qmi_rx_handler demo_kernel demo_env d ?b = Some (Some (d, no_rx))" for d
    unfolding rmnet_qmi_rx_handler_def by (subst qmi_loop.simps) simp
  then obtain d' where p: "mhi_netdev_poll demo_kernel demo_env 1 1 64 (length (qmap_chain demo_rx)) demo_rx
      = Some (Some (1, True, d'))"
    using f(1,2) by (simp add: mhi_netdev_poll_def rmnet_rx_handler_def)
  have q: "0 \<le> (1 :: int)" "length (qmap_chain demo_rx) \<le> 128" "\<forall>n. rx_queue_ret demo_env n = 0"
    "net_type demo_rx = MHI_NET_MBIM \<or> net_type demo_rx = MHI_NET_RMNET"
    using f by (simp_all add: demo_env_def)
  show ?thesis
    using downlink_needs_no_memory [OF p demo_rx_ok q(1,2,4) f(3,4) q(3)] p f(2,5) by auto
qed

end
