(* ===== verification/Mhi_Link.thy ===== *)
theory Mhi_Link
  imports Mhi_Frames
begin

text \<open>
  Both ends of a link. The contract of a framed link is a locale, interpreted on the uplink and the
  downlink of the MHI network device in MBIM and in QMAP mode; \<^verbatim>\<open>mhi_netdev_probe\<close> establishes it.
\<close>

section \<open>Both ends of a link\<close>

text \<open>
  A sender whose frames a receiver takes one by one: if every packet becomes a frame that the
  receiver turns into that packet, a run of packets arrives complete and in order.
\<close>

fun run_all :: "('a \<Rightarrow> 's \<Rightarrow> 's option) \<Rightarrow> 'a list \<Rightarrow> 's \<Rightarrow> 's option" where
  "run_all f [] s = Some s"
| "run_all f (x # xs) s = Option.bind (f x s) (run_all f xs)"

locale frame_link =
  fixes send :: "'p \<Rightarrow> 's \<Rightarrow> 's option"
    and frames_sent :: "'s \<Rightarrow> u8 list list"
    and recv :: "u8 list \<Rightarrow> 'r \<Rightarrow> 'r option"
    and received :: "'r \<Rightarrow> rx_skb list"
    and takes :: "'p \<Rightarrow> bool"
    and outcome :: "'p \<Rightarrow> rx_skb"
    and in_step :: "'s \<Rightarrow> 'r \<Rightarrow> bool"
  assumes frame: "in_step s r \<Longrightarrow> takes p \<Longrightarrow>
    \<exists>s' f r'. send p s = Some s' \<and> frames_sent s' = frames_sent s @ [f] \<and> recv f r = Some r'
      \<and> received r' = received r @ [outcome p] \<and> in_step s' r'"
begin

lemma all_arrive:
  assumes "in_step s r" "\<forall>p \<in> set ps. takes p"
  shows "\<exists>s' fs r'. run_all send ps s = Some s' \<and> frames_sent s' = frames_sent s @ fs
    \<and> run_all recv fs r = Some r' \<and> received r' = received r @ map outcome ps \<and> in_step s' r'"
  using assms
proof (induction ps arbitrary: s r)
  case Nil
  have "run_all recv [] r = Some r" by simp
  then show ?case using Nil by fastforce
next
  case (Cons p ps)
  then obtain s1 f r1 where 1: "send p s = Some s1" "frames_sent s1 = frames_sent s @ [f]"
    "recv f r = Some r1" "received r1 = received r @ [outcome p]" "in_step s1 r1"
    using frame [OF Cons.prems(1), of p] by auto
  obtain s' fs r' where 2: "run_all send ps s1 = Some s'" "frames_sent s' = frames_sent s1 @ fs"
    "run_all recv fs r1 = Some r'" "received r' = received r1 @ map outcome ps" "in_step s' r'"
    using Cons.IH [OF 1(5)] Cons.prems(2) by auto
  have "run_all send (p # ps) s = Some s'" "frames_sent s' = frames_sent s @ (f # fs)"
    "run_all recv (f # fs) r = Some r'" "received r' = received r @ map outcome (p # ps)"
    using 1 2 by simp_all
  then show ?case using 2(5) by blast
qed

end

section \<open>MBIM and QMAP links\<close>

text \<open>
  The sender: a multiplexed device and the real device below it, with room in the uplink ring. The
  two stale bytes are those the header of this packet is written over.
\<close>

definition mhi_send :: "kernel \<Rightarrow> u32 \<Rightarrow> u8 list \<times> sk_buff \<Rightarrow> qmap_tx \<times> mhi_netdev \<Rightarrow>
    (qmap_tx \<times> mhi_netdev) option" where
  "mhi_send K qmode = (\<lambda>(stale, b) (s, u). do {
     (ret, s') \<leftarrow> mhi_vnd_start_xmit K qmode (net_type u) stale b s;
     u' \<leftarrow> (case ret of TX_RESULT _ \<Rightarrow> mhi_netdev_xmit 16 0 ETH_P_MAP (last (sent s')) u | _ \<Rightarrow> Some u);
     Some (s', u') })"

text \<open>The receiver: the oldest buffer of the ring completes with a frame, then a poll handles it.\<close>

definition mhi_receive :: "kernel \<Rightarrow> mhi_env \<Rightarrow> u32 \<Rightarrow> u8 list \<Rightarrow> mhi_netdev \<Rightarrow> mhi_netdev option" where
  "mhi_receive K E qmode f d = do {
     d \<leftarrow> mhi_netdev_xfer_dl_cb 0 f d;
     r \<leftarrow> mhi_netdev_poll K E qmode 1 64 1 d;
     map_option (\<lambda>(_, _, d). d) r }"

text \<open>A receiver between two polls.\<close>

definition rx_idle :: "kernel \<Rightarrow> mhi_env \<Rightarrow> mhi_netdev \<Rightarrow> bool" where
  "rx_idle K E d \<longleftrightarrow> rx_buffers_ok d \<and> qmap_chain d = [] \<and> posted d \<noteq> [] \<and> enabled d
     \<and> \<not> alloc_pending d \<and> alloc_spec K \<and> (\<forall>n. rx_queue_ret E n = 0)
     \<and> (net_type d = MHI_NET_MBIM \<or> net_type d = MHI_NET_RMNET)"

text \<open>The part of the device the decoders read.\<close>

definition link_view where
  "link_view d = (net_type d, mbim_ctx d, mbim_mux_id d, nets d, nd_qmap_mode d, nd_qmap_version d,
     nd_dl_minimum_padding d, nd_bridge_mode d, nd_bridge_mac d)"

definition rx_dispatch :: "kernel \<Rightarrow> mhi_env \<Rightarrow> u32 \<Rightarrow> mhi_netdev \<Rightarrow> sk_buff \<Rightarrow>
    (mhi_netdev \<times> mhi_rx) option option" where
  "rx_dispatch K E qmode d b =
     (if net_type d = MHI_NET_MBIM then rmnet_mbim_rx_handler K qmode d b
      else rmnet_qmi_rx_handler K E d b)"

lemma alloc_loop_view:
  "link_view (snd (alloc_loop K E k d)) = link_view d \<and> mru (snd (alloc_loop K E k d)) = mru d
    \<and> to_stack (snd (alloc_loop K E k d)) = to_stack d"
  by (induction k arbitrary: d) (auto simp: link_view_def Let_def split: list.split)

lemma poll_refill_view:
  "link_view (poll_refill K E n d) = link_view d" "mru (poll_refill K E n d) = mru d"
  "to_stack (poll_refill K E n d) = to_stack d"
  using alloc_loop_view [of K E n d]
  by (auto simp: poll_refill_def mhi_netdev_alloc_skb_def link_view_def split: prod.splits)

lemma mhi_receive_idle:
  assumes I: "rx_idle K E d" and f: "length f \<le> unat (mru d)"
    and H: "\<And>d1 b. link_view d1 = link_view d \<Longrightarrow> skb_data b = f \<Longrightarrow>
      \<exists>d2 r. rx_dispatch K E qmode d1 b = Some (Some (d2, r)) \<and> skb_chain r = ps \<and> V (link_view d2)"
  shows "\<exists>d'. mhi_receive K E qmode f d = Some d' \<and> to_stack d' = to_stack d @ ps
    \<and> rx_idle K E d' \<and> V (link_view d') \<and> mru d' = mru d"
proof -
  obtain p qs where p: "posted d = p # qs" using I by (cases "posted d") (auto simp: rx_idle_def)
  have ok: "rx_buffers_ok d" "idle_buffer (mru d) p" "alloc_spec K"
    using I p by (auto simp: rx_idle_def rx_buffers_ok_def)
  let ?b = "p\<lparr>skb_data := f, skb_tail := drop (length f) (skb_tail p)\<rparr>"
  define d0 where "d0 = d\<lparr>posted := qs, qmap_chain := [?b]\<rparr>"
  define d1 where "d1 = d\<lparr>posted := qs, qmap_chain := []\<rparr>"
  have cb: "mhi_netdev_xfer_dl_cb 0 f d = Some d0"
    using I p ok(2) f by (simp add: mhi_netdev_xfer_dl_cb_def rx_idle_def idle_buffer_def skb_put_data_def d0_def)
  have ok0: "rx_buffers_ok d0" by (rule dl_cb_ok [OF cb ok(1)])
  obtain d2 r where h: "rx_dispatch K E qmode d1 ?b = Some (Some (d2, r))" "skb_chain r = ps" "V (link_view d2)"
    using H [of d1 ?b] by (auto simp: d1_def link_view_def)
  then have co: "counts_only d1 d2" by (auto simp: rx_dispatch_def split: if_splits dest: handlers_count)
  define d3 where "d3 = recycle ?b (d2\<lparr>to_stack := to_stack d2 @ ps\<rparr>)"
  have v3: "to_stack d3 = to_stack d @ ps" "link_view d3 = link_view d2" "mru d3 = mru d" "net_type d3 = net_type d"
    using co by (auto simp: d3_def recycle_def counts_only_def d1_def link_view_def)
  have rh: "rmnet_rx_handler K E qmode ?b d1 = Some (Some d3)"
    using h(1,2) by (simp add: rmnet_rx_handler_def rx_dispatch_def d3_def split: if_splits)
  have t: "0 \<le> (1 :: int)" "net_type d0 = MHI_NET_MBIM \<or> net_type d0 = MHI_NET_RMNET" "enabled d0"
    "\<not> alloc_pending d0" "\<forall>n. rx_queue_ret E n = 0" "length (qmap_chain d0) = 1"
    using I by (auto simp: rx_idle_def d0_def)
  define d' where "d' = poll_refill K E 1 d3"
  have poll: "mhi_netdev_poll K E qmode 1 64 1 d0 = Some (Some (1, True, d'))"
    using t(2) rh unfolding mhi_netdev_poll_def d'_def by (auto simp: d0_def d1_def)
  have "length (posted d') = length (posted d0) + length (qmap_chain d0) \<and> qmap_chain d' = []
      \<and> rx_asked d' = rx_asked d0 \<and> \<not> alloc_pending d' \<and> enabled d'"
    by (rule poll_refills [OF _ ok0 t(1) _ t(2-5)]) (use poll t(6) in simp_all)
  then have "rx_idle K E d'"
    using poll_ok [OF poll ok0 ok(3)] t(5,6) ok(3) v3(4) poll_refill_view [of K E 1 d3] I
    by (auto simp: rx_idle_def d'_def link_view_def)
  moreover have "mhi_receive K E qmode f d = Some d'" using cb poll by (simp add: mhi_receive_def)
  ultimately show ?thesis using v3 h(3) poll_refill_view [of K E 1 d3] by (auto simp: d'_def)
qed

definition vnd_cfg :: "qmap_tx \<Rightarrow> bool \<times> u8 \<times> u8 \<times> u32 \<times> bool" where
  "vnd_cfg s = (ether s, qmap_version s, mux_id s, bridge_mode s, real_stopped s)"

lemma ucast_session:
  "(ucast (ucast (m :: u8) + 1 :: u16) :: u8) = m + 1" "(ucast (ucast m :: u16) :: u8) = m"
proof -
  have "unat m < 2 ^ 8" using unsigned_less [of m] by simp
  then have u: "unat (ucast m :: u16) = unat m" and l: "unat m < 256"
    by (simp_all add: unsigned_ucast_eq take_bit_nat_eq_self)
  have "(ucast m + 1 :: u16) = of_nat (unat m + 1)"
    using word_arith_nat_add [of "ucast m :: u16" 1] u by simp
  then have "unat (ucast m + 1 :: u16) = unat m + 1" using l by (simp only: unat_u16_of_nat)
  then have "(of_nat (unat (ucast m + 1 :: u16)) :: u8) = m + 1" by simp
  then show "(ucast (ucast m + 1 :: u16) :: u8) = m + 1" by (simp only: of_nat_unat)
  have "(of_nat (unat (ucast m :: u16)) :: u8) = m" using u by simp
  then show "(ucast (ucast m :: u16) :: u8) = m" by (simp only: of_nat_unat)
qed

lemma puts_sequence:
  assumes "length stale = 2"
  shows "puts (mbim_hdr stale sess n @ pkt) 6 (le16 seq) = Some (mbim_hdr (le16 seq) sess n @ pkt)"
proof -
  obtain x y where "stale = [x, y]" using assms by (auto simp: numeral_2_eq_2 length_Suc_conv)
  then show ?thesis by (simp add: puts_def mbim_hdr_def le16_def)
qed

lemma add_mbim_hdr_frame:
  assumes "28 \<le> skb_headroom b" "length stale = 2"
  shows "\<exists>f. add_mbim_hdr qmode stale b mux = Some f
    \<and> skb_data f = mbim_hdr stale (mbim_session qmode mux) (skb_len b) @ skb_data b"
  using assms by (simp add: add_mbim_hdr_def skb_push_data_def mbim_session_def ucast_session)

text \<open>The packet a multiplexed device passes on: without the Ethernet header it was given with.\<close>

lemma vnd_xmit_frame:
  assumes c: "vnd_cfg s = (eth, ver, mux, 0, False)" and l: "ip_off eth \<le> skb_len b"
    and f: "\<And>b'. skb_data b' = drop (ip_off eth) (skb_data b) \<Longrightarrow> skb_tail b' = skb_tail b \<Longrightarrow>
      skb_headroom b' = skb_headroom b + ip_off eth \<Longrightarrow>
      \<exists>g. mhi_vnd_header qmode t stale b' s = Some (Some g) \<and> skb_data g = frame"
  shows "\<exists>e s'. mhi_vnd_start_xmit K qmode t stale b s = Some (TX_RESULT e, s') \<and> sent s' = sent s @ [frame]
    \<and> vnd_cfg s' = vnd_cfg s"
proof -
  let ?b = "if eth then b\<lparr>skb_data := drop 14 (skb_data b), skb_headroom := skb_headroom b + 14,
      skb_network := skb_network b - 14\<rparr> else b"
  obtain g where g: "mhi_vnd_header qmode t stale ?b s = Some (Some g)" "skb_data g = frame"
    using f [of ?b] by (cases eth) (auto simp: ip_off_def)
  show ?thesis
    using c l g
    by (auto simp: mhi_vnd_start_xmit_def vnd_cfg_def Let_def skb_pull_def ip_off_def split: if_splits)
qed

lemma mhi_send_frame:
  assumes v: "\<exists>e s'. mhi_vnd_start_xmit K qmode (net_type u) stale b s = Some (TX_RESULT e, s')
      \<and> sent s' = sent s @ [frame] \<and> vnd_cfg s' = vnd_cfg s"
    and x: "mhi_netdev_xmit 16 0 ETH_P_MAP frame u = Some u'"
  shows "\<exists>s'. mhi_send K qmode (stale, b) (s, u) = Some (s', u') \<and> vnd_cfg s' = vnd_cfg s"
  using assms by (auto simp: mhi_send_def)

subsection \<open>MBIM\<close>

definition mbim_takes :: "bool \<Rightarrow> u8 list \<times> sk_buff \<Rightarrow> bool" where
  "mbim_takes eth = (\<lambda>(stale, b). length stale = 2 \<and> ip_off eth \<le> skb_len b
     \<and> 28 \<le> skb_headroom b + ip_off eth \<and> is_ip (drop (ip_off eth) (skb_data b))
     \<and> 28 + (skb_len b - ip_off eth) \<le> 32768)"

definition mbim_in_step :: "kernel \<Rightarrow> mhi_env \<Rightarrow> u32 \<Rightarrow> bool \<Rightarrow> u8 \<Rightarrow> nat \<Rightarrow> qmap_net \<Rightarrow> u8 list \<Rightarrow>
    qmap_tx \<times> mhi_netdev \<Rightarrow> mhi_netdev \<Rightarrow> bool" where
  "mbim_in_step K E qmode eth mux idx net dest = (\<lambda>(s, u) r.
     (\<exists>ver. vnd_cfg s = (eth, ver, mux, 0, False)) \<and> net_type u = MHI_NET_MBIM
     \<and> rx_idle K E r \<and> net_type r = MHI_NET_MBIM \<and> mru r = 32768 \<and> rx_max (mbim_ctx r) = 32768
     \<and> tx_seq (mbim_ctx u) = rx_seq (mbim_ctx r) \<and> mbim_route qmode r mux idx net
     \<and> mhi_bridge_mode_rx_fixup r net = dest \<and> (\<forall>n. alloc_ok K n))"

lemma mbim_link_frame:
  assumes S: "mbim_in_step K E qmode eth mux idx net dest (s, u) r" and T: "mbim_takes eth (stale, b)"
  shows "\<exists>s' f r'. mhi_send K qmode (stale, b) (s, u) = Some s' \<and> nd_wire (snd s') = nd_wire u @ [f]
    \<and> mhi_receive K E qmode f r = Some r'
    \<and> to_stack r' = to_stack r @ [deliver (ether net) dest idx (drop (ip_off eth) (skb_data b))]
    \<and> mbim_in_step K E qmode eth mux idx net dest s' r'"
proof -
  let ?pkt = "drop (ip_off eth) (skb_data b)" and ?seq = "tx_seq (mbim_ctx u)"
  from S obtain ver where c: "vnd_cfg s = (eth, ver, mux, 0, False)" by (auto simp: mbim_in_step_def)
  from S have m: "net_type u = MHI_NET_MBIM" and I: "rx_idle K E r" and r: "net_type r = MHI_NET_MBIM"
    "mru r = 32768" "rx_max (mbim_ctx r) = 32768" "?seq = rx_seq (mbim_ctx r)"
    "mbim_route qmode r mux idx net" "mhi_bridge_mode_rx_fixup r net = dest" "\<forall>n. alloc_ok K n"
    by (simp_all add: mbim_in_step_def)
  from T have t: "length stale = 2" "ip_off eth \<le> skb_len b" "28 \<le> skb_headroom b + ip_off eth"
    "is_ip ?pkt" "28 + length ?pkt \<le> 32768"
    by (auto simp: mbim_takes_def)
  let ?f = "mbim_hdr (le16 ?seq) (mbim_session qmode mux) (length ?pkt) @ ?pkt"
  let ?raw = "mbim_hdr stale (mbim_session qmode mux) (length ?pkt) @ ?pkt"
  have hdr: "\<exists>g. mhi_vnd_header qmode (net_type u) stale b' s = Some (Some g) \<and> skb_data g = ?raw"
    if "skb_data b' = ?pkt" "skb_headroom b' = skb_headroom b + ip_off eth" for b'
    using add_mbim_hdr_frame [of b' stale qmode mux] that t(1,3) c m
    by (auto simp: mhi_vnd_header_def vnd_cfg_def)
  let ?u = "u\<lparr>mbim_ctx := (mbim_ctx u)\<lparr>tx_seq := ?seq + 1\<rparr>, nd_wire := nd_wire u @ [?f]\<rparr>"
  have x: "mhi_netdev_xmit 16 0 ETH_P_MAP ?raw u = Some ?u"
    using m puts_sequence [OF t(1), of "mbim_session qmode mux" "length ?pkt" ?pkt ?seq]
    by (simp add: mhi_netdev_xmit_def)
  obtain s' where s': "mhi_send K qmode (stale, b) (s, u) = Some (s', ?u)" "vnd_cfg s' = vnd_cfg s"
    using mhi_send_frame [OF vnd_xmit_frame [OF c t(2) hdr] x] by blast
  have h: "\<exists>d2 x. rx_dispatch K E qmode d1 b1 = Some (Some (d2, x))
      \<and> skb_chain x = [deliver (ether net) dest idx ?pkt]
      \<and> link_view d2 = link_view (r\<lparr>mbim_ctx := (mbim_ctx r)\<lparr>rx_seq := ?seq + 1\<rparr>\<rparr>)"
    if d1: "link_view d1 = link_view r" and b1: "skb_data b1 = ?f" for d1 b1
  proof -
    have e: "net_type d1 = MHI_NET_MBIM" "rx_max (mbim_ctx d1) = 32768" "mbim_route qmode d1 mux idx net"
      "mhi_bridge_mode_rx_fixup d1 net = dest"
      using d1 r by (auto simp: link_view_def mbim_route_def mhi_bridge_mode_rx_fixup_def)
    have n: "28 + length ?pkt \<le> unat (rx_max (mbim_ctx d1))" "28 + length ?pkt < 65536"
      using e(2) t(5) by simp_all
    show ?thesis
      using mbim_decodes_frame [OF b1 n t(4) e(3), of K] r(7) e(1,4) d1
      by (auto simp: rx_dispatch_def link_view_def)
  qed
  have "length ?f \<le> unat (mru r)" using t(5) r(2) by simp
  from mhi_receive_idle [OF I this, where V = "\<lambda>v. v = link_view (r\<lparr>mbim_ctx := (mbim_ctx r)\<lparr>rx_seq := ?seq + 1\<rparr>\<rparr>)", OF h]
  obtain r' where r': "mhi_receive K E qmode ?f r = Some r'"
    "to_stack r' = to_stack r @ [deliver (ether net) dest idx ?pkt]" "rx_idle K E r'"
    "link_view r' = link_view (r\<lparr>mbim_ctx := (mbim_ctx r)\<lparr>rx_seq := ?seq + 1\<rparr>\<rparr>)" "mru r' = mru r"
    by blast
  have "mbim_in_step K E qmode eth mux idx net dest (s', ?u) r'"
    using r' r c s'(2) m
    by (auto simp: mbim_in_step_def link_view_def mbim_route_def mhi_bridge_mode_rx_fixup_def)
  then show ?thesis using s'(1) r'(1,2) by (intro exI [of _ "(s', ?u)"] exI [of _ ?f]) simp
qed

interpretation mbim: frame_link "mhi_send K qmode" "\<lambda>(s, u). nd_wire u" "mhi_receive K E qmode" to_stack
    "mbim_takes eth" "\<lambda>(stale, b). deliver (ether net) dest idx (drop (ip_off eth) (skb_data b))"
    "mbim_in_step K E qmode eth mux idx net dest" for K E qmode eth mux idx net dest
proof
  fix s r p
  assume "mbim_in_step K E qmode eth mux idx net dest s r" "mbim_takes eth p"
  then show "\<exists>s' f r'. mhi_send K qmode p s = Some s'
      \<and> (case s' of (s, u) \<Rightarrow> nd_wire u) = (case s of (s, u) \<Rightarrow> nd_wire u) @ [f]
      \<and> mhi_receive K E qmode f r = Some r'
      \<and> to_stack r' = to_stack r @ [case p of (stale, b) \<Rightarrow> deliver (ether net) dest idx (drop (ip_off eth) (skb_data b))]
      \<and> mbim_in_step K E qmode eth mux idx net dest s' r'"
    using mbim_link_frame [of K E qmode eth mux idx net dest "fst s" "snd s" r "fst p" "snd p"]
    by (simp add: case_prod_beta)
qed

subsection \<open>QMAP\<close>

definition qmap_takes :: "bool \<Rightarrow> qmap_net \<Rightarrow> u8 list \<times> sk_buff \<Rightarrow> bool" where
  "qmap_takes eth net = (\<lambda>(stale, b). ip_off eth \<le> skb_len b \<and> 8 \<le> skb_headroom b + ip_off eth
     \<and> is_ip (drop (ip_off eth) (skb_data b)) \<and> skb_len b - ip_off eth \<le> unat (mtu net)
     \<and> skb_len b - ip_off eth + 11 \<le> 15 * 1024)"

definition qmap_in_step :: "kernel \<Rightarrow> mhi_env \<Rightarrow> bool \<Rightarrow> u8 \<Rightarrow> nat \<Rightarrow> qmap_net \<Rightarrow> u8 list \<Rightarrow>
    qmap_tx \<times> mhi_netdev \<Rightarrow> mhi_netdev \<Rightarrow> bool" where
  "qmap_in_step K E eth mux idx net dest = (\<lambda>(s, u) r.
     (\<exists>ver \<in> {5, 9}. vnd_cfg s = (eth, ver, mux, 0, False)) \<and> net_type u = MHI_NET_RMNET
     \<and> rx_idle K E r \<and> net_type r = MHI_NET_RMNET \<and> mru r = 15 * 1024
     \<and> rx_route (as_qmap_dev r) mux idx net \<and> Freed \<notin> set (nets r) \<and> length (nets r) = 8
     \<and> mhi_bridge_mode_rx_fixup r net = dest \<and> (\<forall>n. alloc_ok K n))"

lemma qmi_handler_frame:
  assumes b: "skb_data b = qmap_frame ver mux pkt pad" and R: "rx_route (as_qmap_dev d) mux idx net"
    and P: "is_ip pkt" "length pad < 4" "length pkt + 3 < 65536" "length pkt \<le> unat (mtu net)"
    and F: "Freed \<notin> set (nets d)" "length (nets d) = 8" and A: "\<forall>n. alloc_ok K n"
  shows "\<exists>d' r. rmnet_qmi_rx_handler K E d b = Some (Some (d', r)) \<and> counts_only d d'
    \<and> skb_chain r = [deliver (ether net) (mhi_bridge_mode_rx_fixup d net) idx pkt]"
proof -
  have z: "0 < nd_qmap_mode d" using R by (auto simp: rx_route_def word_gt_0)
  have "qmap_packet_decode K False (as_qmap_dev d) b =
      Some (Some (map (\<lambda>_. deliver (ether net) (bridge_mode_rx_fixup False (as_qmap_dev d) net) idx pkt) [()]))"
    by (rule qmap_decode_group [where enc = "\<lambda>_. qmap_frame ver mux pkt pad" and ver = ver and mux = mux])
      (use b R P A in auto)
  then have "map_option (map_option (\<lambda>(d, r). skb_chain r)) (rmnet_qmi_rx_handler K E d b)
      = Some (Some [deliver (ether net) (mhi_bridge_mode_rx_fixup d net) idx pkt])"
    unfolding qmi_handler_same [OF F] using bridge_fixup_same [OF z, of net] by simp
  then show ?thesis by (auto simp: map_option_eq_Some dest: handlers_count)
qed

lemma qmap_link_frame:
  assumes S: "qmap_in_step K E eth mux idx net dest (s, u) r" and T: "qmap_takes eth net (stale, b)"
  shows "\<exists>s' f r'. mhi_send K qmode (stale, b) (s, u) = Some s' \<and> nd_wire (snd s') = nd_wire u @ [f]
    \<and> mhi_receive K E qmode f r = Some r'
    \<and> to_stack r' = to_stack r @ [deliver (ether net) dest idx (drop (ip_off eth) (skb_data b))]
    \<and> qmap_in_step K E eth mux idx net dest s' r'"
proof -
  let ?pkt = "drop (ip_off eth) (skb_data b)"
  from S obtain ver where c: "vnd_cfg s = (eth, ver, mux, 0, False)" and ver: "ver = 5 \<or> ver = 9"
    by (auto simp: qmap_in_step_def)
  from S have m: "net_type u = MHI_NET_RMNET" and I: "rx_idle K E r" and r: "net_type r = MHI_NET_RMNET"
    "mru r = 15 * 1024" "rx_route (as_qmap_dev r) mux idx net" "Freed \<notin> set (nets r)"
    "length (nets r) = 8" "mhi_bridge_mode_rx_fixup r net = dest" "\<forall>n. alloc_ok K n"
    by (simp_all add: qmap_in_step_def)
  from T have t: "ip_off eth \<le> skb_len b" "8 \<le> skb_headroom b + ip_off eth" "is_ip ?pkt"
    "length ?pkt \<le> unat (mtu net)" "length ?pkt + 11 \<le> 15360"
    by (auto simp: qmap_takes_def)
  let ?pad = "take (pad_for (length ?pkt) b) (skb_tail b)"
  let ?f = "qmap_frame ver mux ?pkt ?pad"
  have pad: "length ?pad < 4" using pad_for_le(2) [of "length ?pkt" b] by (simp add: min.strict_coboundedI2)
  have hdr: "\<exists>g. mhi_vnd_header qmode (net_type u) stale b' s = Some (Some g) \<and> skb_data g = ?f"
    if b': "skb_data b' = ?pkt" "skb_tail b' = skb_tail b" "skb_headroom b' = skb_headroom b + ip_off eth" for b'
  proof -
    have p: "pad_for n b' = pad_for n b" for n unfolding pad_for_def b'(2) ..
    have l: "skb_len b' < 65536" "8 \<le> skb_headroom b'" using t(2,5) b' by simp_all
    obtain g where "(if ver = 9 then gobi_add_qhdr_v5 else gobi_add_qhdr) b' mux = Some g"
      "skb_data g = qmap_frame ver mux (skb_data b') (take (pad_for (skb_len b') b') (skb_tail b'))"
      using gobi_header_frame [OF l, of ver mux] by blast
    then show ?thesis using ver c m b' p by (auto simp: mhi_vnd_header_def vnd_cfg_def)
  qed
  let ?u = "u\<lparr>nd_wire := nd_wire u @ [?f]\<rparr>"
  have x: "mhi_netdev_xmit 16 0 ETH_P_MAP ?f u = Some ?u" using m by (simp add: mhi_netdev_xmit_def)
  obtain s' where s': "mhi_send K qmode (stale, b) (s, u) = Some (s', ?u)" "vnd_cfg s' = vnd_cfg s"
    using mhi_send_frame [OF vnd_xmit_frame [OF c t(1) hdr] x] by blast
  define V where "V = (\<lambda>v. v = link_view r \<or> (\<exists>q. v = link_view (r\<lparr>mbim_ctx := (mbim_ctx r)\<lparr>rx_seq := q\<rparr>\<rparr>)))"
  have h: "\<exists>d2 x. rx_dispatch K E qmode d1 b1 = Some (Some (d2, x))
      \<and> skb_chain x = [deliver (ether net) dest idx ?pkt] \<and> V (link_view d2)"
    if d1: "link_view d1 = link_view r" and b1: "skb_data b1 = ?f" for d1 b1
  proof -
    have e: "net_type d1 = MHI_NET_RMNET" "rx_route (as_qmap_dev d1) mux idx net" "nets d1 = nets r"
      "mhi_bridge_mode_rx_fixup d1 net = dest"
      using d1 r by (auto simp: link_view_def as_qmap_dev_def mhi_bridge_mode_rx_fixup_def)
    obtain d2 x where d2: "rmnet_qmi_rx_handler K E d1 b1 = Some (Some (d2, x))" "counts_only d1 d2"
      "skb_chain x = [deliver (ether net) dest idx ?pkt]"
      using qmi_handler_frame [OF b1 e(2) t(3) pad _ t(4), of K E] t(5) r(4,5,7) e(3,4) by auto
    have "V (link_view d2)" using d2(2) d1 by (auto simp: V_def counts_only_def link_view_def)
    then show ?thesis using d2 e(1) by (simp add: rx_dispatch_def)
  qed
  have "length ?f \<le> unat (mru r)" using t(5) r(2) pad by (simp add: length_qmap_frame)
  from mhi_receive_idle [OF I this h] obtain r' where r': "mhi_receive K E qmode ?f r = Some r'"
    "to_stack r' = to_stack r @ [deliver (ether net) dest idx ?pkt]" "rx_idle K E r'"
    "V (link_view r')" "mru r' = mru r"
    by blast
  have "as_qmap_dev r' = as_qmap_dev r" "nets r' = nets r" "net_type r' = net_type r"
    "mhi_bridge_mode_rx_fixup r' net = mhi_bridge_mode_rx_fixup r net"
    using r'(4) by (auto simp: V_def link_view_def as_qmap_dev_def mhi_bridge_mode_rx_fixup_def)
  then have "qmap_in_step K E eth mux idx net dest (s', ?u) r'"
    using r' r c s'(2) m ver by (auto simp: qmap_in_step_def)
  then show ?thesis using s'(1) r'(1,2) by (intro exI [of _ "(s', ?u)"] exI [of _ ?f]) simp
qed

interpretation qmap: frame_link "mhi_send K qmode" "\<lambda>(s, u). nd_wire u" "mhi_receive K E qmode" to_stack
    "qmap_takes eth net" "\<lambda>(stale, b). deliver (ether net) dest idx (drop (ip_off eth) (skb_data b))"
    "qmap_in_step K E eth mux idx net dest" for K E qmode eth mux idx net dest
proof
  fix s r p
  assume "qmap_in_step K E eth mux idx net dest s r" "qmap_takes eth net p"
  then show "\<exists>s' f r'. mhi_send K qmode p s = Some s'
      \<and> (case s' of (s, u) \<Rightarrow> nd_wire u) = (case s of (s, u) \<Rightarrow> nd_wire u) @ [f]
      \<and> mhi_receive K E qmode f r = Some r'
      \<and> to_stack r' = to_stack r @ [case p of (stale, b) \<Rightarrow> deliver (ether net) dest idx (drop (ip_off eth) (skb_data b))]
      \<and> qmap_in_step K E eth mux idx net dest s' r'"
    using qmap_link_frame [of K E eth mux idx net dest "fst s" "snd s" r "fst p" "snd p" qmode]
    by (simp add: case_prod_beta)
qed

section \<open>After the probe\<close>

definition vnd_ok :: "probe_env \<Rightarrow> nat \<Rightarrow> bool" where
  "vnd_ok P i \<longleftrightarrow> vnd_alloc_ok P i \<and> vnd_stats_ok P i \<and> 0 \<le> vnd_register_ret P i"

text \<open>Everything the probe asks for is granted.\<close>

definition probe_granted :: "probe_env \<Rightarrow> kernel \<Rightarrow> mhi_env \<Rightarrow> bool" where
  "probe_granted P K E \<longleftrightarrow> kzalloc_ok P \<and> stats_ok P \<and> prepare_ret P = 0 \<and> netdev_ok P
     \<and> register_ret P = 0 \<and> 0 < free_tre P \<and> (\<forall>i. vnd_ok P i) \<and> alloc_spec K
     \<and> (\<forall>n. alloc_ok K n) \<and> (\<forall>n. rx_alloc_ok E n) \<and> (\<forall>n. rx_queue_ret E n = 0)"

lemma register_device_same [simp]:
  "rmnet_vnd_register_device P (d\<lparr>nets := x\<rparr>) = rmnet_vnd_register_device P d"
  "rmnet_vnd_register_device P (d\<lparr>nets := x, info_mux_id := y\<rparr>) = rmnet_vnd_register_device P d"
  "vnd_mux_id P (d\<lparr>nets := x\<rparr>) = vnd_mux_id P d"
  "vnd_mux_id P (d\<lparr>nets := x, info_mux_id := y\<rparr>) = vnd_mux_id P d"
  by (simp_all add: fun_eq_iff rmnet_vnd_register_device_def vnd_mux_id_def)

lemma register_device_Dev:
  assumes "vnd_ok P i"
  shows "\<exists>net. rmnet_vnd_register_device P d i m = Dev net \<and> ether net \<and> mtu net = 1500 \<and> mux_id net = m
    \<and> qmap_version net = ucast (nd_qmap_version d) \<and> bridge_mode net = (if bit (nd_bridge_mode d) i then 1 else 0)
    \<and> dev_addr net = [0x02, 0x50, 0xf4, 0, 0, of_nat i + 1] \<and> \<not> stopped net"
  using assms by (simp add: rmnet_vnd_register_device_def vnd_ok_def)

lemma register_vnds_ok:
  assumes "\<forall>i. vnd_ok P i" "i + k \<le> length (nets d)"
  shows "\<exists>ps ms. register_vnds P i k d = Some (d\<lparr>nets := ps, info_mux_id := ms\<rparr>) \<and> length ps = length (nets d)
    \<and> (\<forall>j < length ps. ps ! j = (if i \<le> j \<and> j < i + k
        then rmnet_vnd_register_device P d j (vnd_mux_id P d j) else nets d ! j))"
  using assms(2)
proof (induction k arbitrary: i d)
  case 0
  show ?case by (intro exI [of _ "nets d"] exI [of _ "info_mux_id d"]) auto
next
  case (Suc k)
  let ?p = "rmnet_vnd_register_device P d i (vnd_mux_id P d i)"
  obtain net where net: "?p = Dev net" using register_device_Dev assms(1) by blast
  let ?d = "d\<lparr>nets := (nets d)[i := ?p], info_mux_id := (info_mux_id d)[i := vnd_mux_id P d i]\<rparr>"
  have i: "i < length (nets d)" using Suc.prems by simp
  have "i + 1 + k \<le> length (nets ?d)" using Suc.prems by simp
  then obtain ps ms where r: "register_vnds P (i + 1) k ?d = Some (?d\<lparr>nets := ps, info_mux_id := ms\<rparr>)"
    "length ps = length (nets ?d)"
    "\<forall>j < length ps. ps ! j = (if i + 1 \<le> j \<and> j < i + 1 + k
        then rmnet_vnd_register_device P ?d j (vnd_mux_id P ?d j) else nets ?d ! j)"
    using Suc.IH by blast
  have "register_vnds P i (Suc k) d = Some (d\<lparr>nets := ps, info_mux_id := ms\<rparr>)"
    using r(1) net i by (simp add: Let_def)
  moreover have "\<forall>j < length ps. ps ! j = (if i \<le> j \<and> j < i + Suc k
        then rmnet_vnd_register_device P d j (vnd_mux_id P d j) else nets d ! j)"
    using r(2,3) i by (auto simp: nth_list_update)
  ultimately show ?case using r(2) by auto
qed

lemma alloc_loop_all:
  assumes "\<forall>n. rx_alloc_ok E n" "\<forall>n. rx_queue_ret E n = 0" "enabled d"
  shows "\<exists>d'. alloc_loop K E k d = (0, d') \<and> length (posted d') = length (posted d) + k
    \<and> (\<exists>ra a q p. d' = d\<lparr>rx_allocated := ra, rx_asked := a, rx_queued := q, posted := p\<rparr>)"
  using assms(3)
proof (induction k arbitrary: d)
  case 0
  show ?case
    by (intro exI [of _ d] conjI exI [of _ "rx_allocated d"] exI [of _ "rx_asked d"]
        exI [of _ "rx_queued d"] exI [of _ "posted d"]) simp_all
next
  case (Suc k)
  obtain ra a p where d1: "(case rx_allocated d of b # bs \<Rightarrow> (Some b, d\<lparr>rx_allocated := bs\<rparr>)
      | [] \<Rightarrow> (if rx_alloc_ok E (rx_asked d) then Some (new_skb K (unat (mru d))) else None,
              d\<lparr>rx_asked := rx_asked d + 1\<rparr>)) = (Some p, d\<lparr>rx_allocated := ra, rx_asked := a\<rparr>)"
  proof (cases "rx_allocated d")
    case Nil
    then show ?thesis using that [where ra = "[]" and a = "rx_asked d + 1"] assms(1) by simp
  next
    case (Cons b bs)
    then show ?thesis using that [where p = b and ra = bs and a = "rx_asked d"] by simp
  qed
  let ?d = "d\<lparr>rx_allocated := ra, rx_asked := a, rx_queued := rx_queued d + 1, posted := posted d @ [p]\<rparr>"
  obtain d' ra' a' q' p' where r: "alloc_loop K E k ?d = (0, d')" "length (posted d') = length (posted ?d) + k"
    "d' = ?d\<lparr>rx_allocated := ra', rx_asked := a', rx_queued := q', posted := p'\<rparr>"
    using Suc.IH [of ?d] Suc.prems by auto
  have "alloc_loop K E (Suc k) d = (0, d')"
    unfolding alloc_loop.simps d1 using Suc.prems assms(2) r(1) by (simp add: Let_def)
  moreover have "d' = d\<lparr>rx_allocated := ra', rx_asked := a', rx_queued := q', posted := p'\<rparr>" using r(3) by simp
  ultimately show ?case using r(2) by auto
qed

definition hw_net_type :: "probe_env \<Rightarrow> mhi_net_type" where
  "hw_net_type P = (if param_mbim_enabled P \<noteq> 0 then MHI_NET_MBIM else MHI_NET_RMNET)"

lemma config_fields:
  fixes P t
  defines "c \<equiv> mhi_net_config P t"
  shows "net_type c = t" "posted c = []" "qmap_chain c = []" "rx_allocated c = []" "\<not> alloc_pending c"
    "nets c = replicate 8 Null" "nd_dl_minimum_padding c = 0" "nd_wire c = []" "to_stack c = []"
    "t \<noteq> MHI_NET_ETHER \<Longrightarrow> nd_qmap_mode c = param_qmap_mode P"
    "t \<noteq> MHI_NET_ETHER \<Longrightarrow> nd_qmap_version c = 5 \<or> nd_qmap_version c = 9"
    "mbim_mux_id c = 0 \<or> mbim_mux_id c = 112"
    "t = MHI_NET_MBIM \<Longrightarrow> mru c = 32768 \<and> rx_max (mbim_ctx c) = 32768"
    "t = MHI_NET_RMNET \<Longrightarrow> mru c = 15360" "tx_seq (mbim_ctx c) = 0" "rx_seq (mbim_ctx c) = 0"
  by (auto simp: c_def mhi_net_config_def Let_def QCUSB_MRECEIVE_MAX_BUFFER_SIZE_def MBIM_MUX_ID_SDX7X_def)

lemma probe_ready:
  assumes G: "probe_granted P K E" and q: "0 < unat (param_qmap_mode P)" "unat (param_qmap_mode P) \<le> 8"
  defines "c \<equiv> mhi_net_config P (hw_net_type P)"
  shows "\<exists>d. mhi_netdev_probe P K E ''IP_HW0'' = Some (0, Some d) \<and> rx_idle K E d
    \<and> link_view d = (net_type c, mbim_ctx c, mbim_mux_id c, nets d, param_qmap_mode P, nd_qmap_version c, 0,
        param_bridge_mode P, nd_bridge_mac c)
    \<and> mru d = mru c \<and> nd_wire d = [] \<and> to_stack d = [] \<and> length (nets d) = 8
    \<and> (\<forall>j < 8. nets d ! j = (if j < unat (param_qmap_mode P)
        then rmnet_vnd_register_device P d j (vnd_mux_id P d j) else Null))"
proof -
  let ?t = "hw_net_type P"
  have t: "?t = MHI_NET_MBIM \<or> ?t = MHI_NET_RMNET" by (simp add: hw_net_type_def)
  then have ne: "?t \<noteq> MHI_NET_ETHER" by auto
  note cf = config_fields [where P = P and t = "hw_net_type P", folded c_def]
  let ?d1 = "c\<lparr>nd_bridge_mode := param_bridge_mode P, enabled := True\<rparr>"
  have g: "\<forall>n. rx_alloc_ok E n" "\<forall>n. rx_queue_ret E n = 0" "alloc_spec K" "\<forall>i. vnd_ok P i"
    using G by (simp_all add: probe_granted_def)
  obtain d2 ra a qd p where d2: "alloc_loop K E (free_tre P) ?d1 = (0, d2)"
    "length (posted d2) = length (posted ?d1) + free_tre P"
    "d2 = ?d1\<lparr>rx_allocated := ra, rx_asked := a, rx_queued := qd, posted := p\<rparr>"
    using alloc_loop_all [OF g(1,2), of ?d1 K "free_tre P"] by auto
  have "rx_buffers_ok ?d1" using cf(2,3,4) by (simp add: rx_buffers_ok_def)
  from alloc_loop_ok [OF g(3) this, of E "free_tre P"] have ok2: "rx_buffers_ok d2" using d2(1) by simp
  have en: "mhi_netdev_enable_iface P K E c = (0, d2)"
    using G t cf(1) d2(1)
    by (auto simp: mhi_netdev_enable_iface_def probe_granted_def mhi_netdev_alloc_skb_def)
  have "0 + unat (nd_qmap_mode d2) \<le> length (nets d2)" using d2(3) cf(6,10) ne q(2) by simp
  from register_vnds_ok [OF g(4) this] obtain ps ms where r:
    "register_vnds P 0 (unat (nd_qmap_mode d2)) d2 = Some (d2\<lparr>nets := ps, info_mux_id := ms\<rparr>)"
    "length ps = length (nets d2)"
    "\<forall>j < length ps. ps ! j = (if 0 \<le> j \<and> j < 0 + unat (nd_qmap_mode d2)
        then rmnet_vnd_register_device P d2 j (vnd_mux_id P d2 j) else nets d2 ! j)"
    by blast
  let ?d = "d2\<lparr>nets := ps, info_mux_id := ms\<rparr>"
  have "mhi_netdev_probe P K E ''IP_HW0'' = Some (0, Some ?d)"
    using G en r(1) ne unfolding mhi_netdev_probe_def hw_net_type_def [symmetric] c_def
    by (simp add: probe_granted_def Let_def)
  moreover have "rx_buffers_ok ?d" using ok2 by (simp add: rx_buffers_ok_def)
  moreover have "posted d2 \<noteq> []" using d2(2) G by (auto simp: probe_granted_def)
  then have "rx_idle K E ?d"
    using \<open>rx_buffers_ok ?d\<close> d2(3) cf(1,3,5) t g by (auto simp: rx_idle_def)
  moreover have "link_view ?d = (net_type c, mbim_ctx c, mbim_mux_id c, nets ?d, param_qmap_mode P,
      nd_qmap_version c, 0, param_bridge_mode P, nd_bridge_mac c)"
    using d2(3) cf(7,10) ne by (simp add: link_view_def)
  moreover have "mru ?d = mru c" "nd_wire ?d = []" "to_stack ?d = []" "length (nets ?d) = 8"
    using d2(3) cf(6,8,9) r(2) by simp_all
  moreover have "\<forall>j < 8. nets ?d ! j = (if j < unat (param_qmap_mode P)
        then rmnet_vnd_register_device P ?d j (vnd_mux_id P ?d j) else Null)"
    using r(2,3) d2(3) cf(6,10) ne by simp
  ultimately show ?thesis by blast
qed

text \<open>The transmitting side of a registered device.\<close>

definition vnd_tx_start :: "qmap_net \<Rightarrow> qmap_tx" where
  "vnd_tx_start net = qmap_net.extend net \<lparr>sent = [], real_stopped = False, arp_replies = [], allocs = 0, ticks = 0\<rparr>"

lemma vnd_tx_start_cfg: "vnd_cfg (vnd_tx_start net) = (ether net, qmap_version net, mux_id net, bridge_mode net, False)"
  by (simp add: vnd_cfg_def vnd_tx_start_def qmap_net.defs)

section \<open>Faults of the probe\<close>

lemma register_vnds_returns:
  assumes "register_vnds P i k d = Some d'"
  shows "(k = 0 \<or> i + k \<le> length (nets d)) \<and> (\<forall>j. i \<le> j \<and> j < i + k \<longrightarrow> \<not> (vnd_alloc_ok P j \<and> \<not> vnd_ok P j))"
  using assms
proof (induction k arbitrary: i d)
  case 0
  then show ?case by auto
next
  case (Suc k)
  let ?p = "rmnet_vnd_register_device P d i (vnd_mux_id P d i)"
  have i: "i < length (nets d)" using Suc.prems by (simp add: Let_def split: if_splits)
  have p: "?p \<noteq> Freed" using Suc.prems by (auto simp: Let_def split: if_splits)
  then have "\<not> (vnd_alloc_ok P i \<and> \<not> vnd_ok P i)"
    by (auto simp: rmnet_vnd_register_device_def vnd_ok_def split: if_splits)
  moreover obtain d1 where "register_vnds P (i + 1) k d1 = Some d'" "length (nets d1) = length (nets d)"
    using Suc.prems i p by (cases ?p) (auto simp: Let_def)
  note r = Suc.IH [OF this(1)] this(2)
  have "i + Suc k \<le> length (nets d)" using r i by auto
  moreover have "\<not> (vnd_alloc_ok P j \<and> \<not> vnd_ok P j)" if "i \<le> j" "j < i + Suc k" for j
    using r(1) that calculation(1) by (cases "j = i") auto
  ultimately show ?case by blast
qed

lemma enable_keeps_mode:
  "nd_qmap_mode (snd (alloc_loop K E k d)) = nd_qmap_mode d" "nets (snd (alloc_loop K E k d)) = nets d"
  using alloc_loop_view [of K E k d] by (simp_all add: link_view_def)

text \<open>The devices the probe registers are found by their mux id.\<close>

lemma mbim_route_probed:
  assumes q: "unat (param_qmap_mode P) \<le> 8" "i < unat (param_qmap_mode P)" and m: "param_mbim_enabled P \<noteq> 0"
    and d: "mbim_mux_id d = mbim_mux_id (mhi_net_config P t)" "elem (nets d) i = Some (Dev net)"
    and n: "mux_id net = vnd_mux_id P d i"
  shows "mbim_route (param_qmap_mode P) d (mux_id net) i net"
proof -
  have "mux_id net = ucast (mbim_mux_id d + of_nat i)" using n m by (simp add: vnd_mux_id_def)
  moreover have "i = 0 \<or> i = 1 \<or> i = 2 \<or> i = 3 \<or> i = 4 \<or> i = 5 \<or> i = 6 \<or> i = 7" using q by linarith
  ultimately have mx: "unat (mux_id net) = unat (mbim_mux_id d) + i" "unat (mux_id net) < 255"
    using config_fields(12) [where P = P and t = t] d(1) by auto
  have "param_qmap_mode P = 1 \<and> i = 0 \<or> 1 < param_qmap_mode P \<and> i < unat (param_qmap_mode P)"
  proof (cases "param_qmap_mode P = 1")
    case False
    then have "unat (param_qmap_mode P) \<noteq> 1" by (metis unsigned_1 word_unat_eq_iff)
    then show ?thesis using q(2) by (simp add: word_less_nat_alt)
  qed (use q(2) in simp)
  then show ?thesis using mx d(2) by (simp add: mbim_route_def)
qed

lemma probed_device:
  assumes G: "probe_granted P K E" and q: "0 < unat (param_qmap_mode P)" "unat (param_qmap_mode P) \<le> 8"
    and b: "param_bridge_mode P = 0" and i: "i < unat (param_qmap_mode P)"
  shows "\<exists>d net. mhi_netdev_probe P K E ''IP_HW0'' = Some (0, Some d) \<and> nets d ! i = Dev net
    \<and> nd_wire d = [] \<and> to_stack d = [] \<and> ether net
    \<and> (if hw_net_type P = MHI_NET_MBIM
       then mbim_in_step K E (param_qmap_mode P) True (mux_id net) i net (dev_addr net) (vnd_tx_start net, d) d
       else qmap_in_step K E True (mux_id net) i net (dev_addr net) (vnd_tx_start net, d) d \<and> mtu net = 1500)"
proof -
  let ?c = "mhi_net_config P (hw_net_type P)"
  note cf = config_fields [where P = P and t = "hw_net_type P"]
  have ne: "hw_net_type P \<noteq> MHI_NET_ETHER" by (simp add: hw_net_type_def)
  obtain d where d: "mhi_netdev_probe P K E ''IP_HW0'' = Some (0, Some d)" "rx_idle K E d"
    "link_view d = (net_type ?c, mbim_ctx ?c, mbim_mux_id ?c, nets d, param_qmap_mode P, nd_qmap_version ?c, 0,
        param_bridge_mode P, nd_bridge_mac ?c)"
    "mru d = mru ?c" "nd_wire d = []" "to_stack d = []" "length (nets d) = 8"
    "\<forall>j < 8. nets d ! j = (if j < unat (param_qmap_mode P)
        then rmnet_vnd_register_device P d j (vnd_mux_id P d j) else Null)"
    using probe_ready [OF G q] by blast
  have v: "net_type d = hw_net_type P" "mbim_ctx d = mbim_ctx ?c" "mbim_mux_id d = mbim_mux_id ?c"
    "nd_qmap_mode d = param_qmap_mode P" "nd_qmap_version d = nd_qmap_version ?c" "nd_dl_minimum_padding d = 0"
    "nd_bridge_mode d = 0"
    using d(3) b cf(1) by (simp_all add: link_view_def)
  have vo: "vnd_ok P j" for j using G by (simp add: probe_granted_def)
  obtain net where net: "rmnet_vnd_register_device P d i (vnd_mux_id P d i) = Dev net" "ether net" "mtu net = 1500"
    "mux_id net = vnd_mux_id P d i" "qmap_version net = ucast (nd_qmap_version d)"
    "bridge_mode net = 0"
    using register_device_Dev [OF vo, of d i "vnd_mux_id P d i"] v(7) by auto
  have ni: "nets d ! i = Dev net" "i < 8" using d(8) i q(2) net(1) by auto
  have fx: "mhi_bridge_mode_rx_fixup d net = dev_addr net"
    using net(6) v(4,7) q(1) by (auto simp: mhi_bridge_mode_rx_fixup_def)
  have el: "elem (nets d) i = Some (Dev net)" using ni d(7) by (simp add: elem_def)
  have al: "\<forall>n. alloc_ok K n" using G by (simp add: probe_granted_def)
  have ver: "qmap_version net = 5 \<or> qmap_version net = 9" using net(5) v(5) cf(11) ne by auto
  have cfg: "vnd_cfg (vnd_tx_start net) = (True, qmap_version net, mux_id net, 0, False)"
    using net(2,6) by (simp add: vnd_tx_start_cfg)
  show ?thesis
  proof (cases "hw_net_type P = MHI_NET_MBIM")
    case True
    then have "param_mbim_enabled P \<noteq> 0" by (simp add: hw_net_type_def split: if_splits)
    then have "mbim_route (param_qmap_mode P) d (mux_id net) i net"
      using mbim_route_probed [OF q(2) i _ v(3) el net(4)] by simp
    then have "mbim_in_step K E (param_qmap_mode P) True (mux_id net) i net (dev_addr net) (vnd_tx_start net, d) d"
      using cfg v(1,2) True d(2,4) cf(13,15,16) fx al by (simp add: mbim_in_step_def)
    then show ?thesis using d(1,5,6) ni(1) net(2) True by auto
  next
    case False
    then have t: "hw_net_type P = MHI_NET_RMNET" "param_mbim_enabled P = 0"
      by (simp_all add: hw_net_type_def split: if_splits)
    have "nets d ! j \<noteq> Freed" if "j < 8" for j
      using d(8) that register_device_Dev [OF vo, of d j "vnd_mux_id P d j"] by auto
    then have fr: "Freed \<notin> set (nets d)" using d(7) by (auto simp: in_set_conv_nth)
    have "rx_route (as_qmap_dev d) (mux_id net) i net"
      using i q(2) d(7) ni net(4) t(2) v(4,6) by (simp add: rx_route_def vnd_mux_id_def mhi_dl_padding_def)
    then have "qmap_in_step K E True (mux_id net) i net (dev_addr net) (vnd_tx_start net, d) d"
      using cfg v(1) t(1) d(2,4,7) cf(14) fx al fr ver by (auto simp: qmap_in_step_def)
    then show ?thesis using d(1,5,6) ni(1) net(2,3) t(1) by auto
  qed
qed

lemma demo_granted: "probe_granted (demo_probe m) demo_kernel demo_env"
  by (simp add: probe_granted_def demo_probe_def demo_env_def vnd_ok_def)

definition demo_eth_skb :: sk_buff where
  "demo_eth_skb = \<lparr>skb_data = replicate 14 1 @ 0x45 # replicate 21 7, skb_tail = [0, 0], skb_headroom = 16,
     skb_protocol = 0x0800, skb_network = 14\<rparr>"

definition demo_packets :: "(u8 list \<times> sk_buff) list" where
  "demo_packets = [([0, 0], demo_eth_skb)]"

lemma demo_packets_ok:
  "\<forall>p \<in> set demo_packets. mbim_takes True p"
  "\<forall>(stale, b) \<in> set demo_packets. 14 \<le> skb_len b \<and> skb_len b \<le> 1514 \<and> is_ip (drop 14 (skb_data b))"
  by (simp_all add: demo_packets_def mbim_takes_def ip_off_def demo_eth_skb_def is_ip_def ip_protocol_def)

text \<open>C19. MBIM, from the probe to the network stack. Let \<^verbatim>\<open>mhi_netdev_probe\<close> get what it asks for, with
  MBIM enabled and 1 to 8 devices. Any packets sent through the \<open>i\<close>-th device become frames that
  the driver at the other end, configured alike, turns into exactly these packets for its \<open>i\<close>-th
  device, in order and behind a new Ethernet header, and the sequence numbers of both ends agree.\<close>

theorem probed_mbim_delivers:
  assumes G: "probe_granted P K E" and m: "param_mbim_enabled P \<noteq> 0" "param_bridge_mode P = 0"
    and q: "unat (param_qmap_mode P) \<le> 8" "i < unat (param_qmap_mode P)"
    and T: "\<forall>p \<in> set ps. mbim_takes True p"
  shows "\<exists>d net s' u' d'. mhi_netdev_probe P K E ''IP_HW0'' = Some (0, Some d) \<and> nets d ! i = Dev net
    \<and> run_all (mhi_send K (param_qmap_mode P)) ps (vnd_tx_start net, d) = Some (s', u')
    \<and> run_all (mhi_receive K E (param_qmap_mode P)) (nd_wire u') d = Some d'
    \<and> to_stack d' = map (\<lambda>(stale, b). deliver True (dev_addr net) i (drop 14 (skb_data b))) ps
    \<and> rx_seq (mbim_ctx d') = tx_seq (mbim_ctx u')"
proof -
  have "0 < unat (param_qmap_mode P)" "hw_net_type P = MHI_NET_MBIM"
    using q(2) m(1) by (simp_all add: hw_net_type_def)
  then obtain d net where d: "mhi_netdev_probe P K E ''IP_HW0'' = Some (0, Some d)" "nets d ! i = Dev net"
    "nd_wire d = []" "to_stack d = []" "ether net"
    "mbim_in_step K E (param_qmap_mode P) True (mux_id net) i net (dev_addr net) (vnd_tx_start net, d) d"
    using probed_device [OF G _ q(1) m(2) q(2)] by auto
  from mbim.all_arrive [OF d(6) T] obtain s' u' fs d' where
    "run_all (mhi_send K (param_qmap_mode P)) ps (vnd_tx_start net, d) = Some (s', u')" "nd_wire u' = nd_wire d @ fs"
    "run_all (mhi_receive K E (param_qmap_mode P)) fs d = Some d'"
    "to_stack d' = to_stack d @ map (\<lambda>(stale, b). deliver (ether net) (dev_addr net) i (drop (ip_off True) (skb_data b))) ps"
    "mbim_in_step K E (param_qmap_mode P) True (mux_id net) i net (dev_addr net) (s', u') d'"
    by auto
  then show ?thesis using d(1-5) by (auto simp: ip_off_def mbim_in_step_def)
qed

theorem probed_mbim_delivers_witness:
  "\<exists>d net s' u' d'. mhi_netdev_probe (demo_probe 1) demo_kernel demo_env ''IP_HW0'' = Some (0, Some d)
    \<and> nets d ! 1 = Dev net
    \<and> run_all (mhi_send demo_kernel (param_qmap_mode (demo_probe 1))) demo_packets
        (vnd_tx_start net, d) = Some (s', u')
    \<and> run_all (mhi_receive demo_kernel demo_env (param_qmap_mode (demo_probe 1))) (nd_wire u') d = Some d'
    \<and> to_stack d' = map (\<lambda>(stale, b). deliver True (dev_addr net) 1 (drop 14 (skb_data b))) demo_packets
    \<and> rx_seq (mbim_ctx d') = tx_seq (mbim_ctx u')"
  by (rule probed_mbim_delivers [OF demo_granted _ _ _ _ demo_packets_ok(1)]) (simp_all add: demo_probe_def)

text \<open>C20. QMAP, from the probe to the network stack. The same with MBIM disabled, whichever QMAP version
  the module uses, for IP packets of up to 1500 bytes behind their Ethernet header: padding and
  headers are removed and every packet reaches the device of its mux id.\<close>

theorem probed_qmap_delivers:
  assumes G: "probe_granted P K E" and m: "param_mbim_enabled P = 0" "param_bridge_mode P = 0"
    and q: "unat (param_qmap_mode P) \<le> 8" "i < unat (param_qmap_mode P)"
    and T: "\<forall>(stale, b) \<in> set ps. 14 \<le> skb_len b \<and> skb_len b \<le> 1514 \<and> is_ip (drop 14 (skb_data b))"
  shows "\<exists>d net s' u' d'. mhi_netdev_probe P K E ''IP_HW0'' = Some (0, Some d) \<and> nets d ! i = Dev net
    \<and> run_all (mhi_send K (param_qmap_mode P)) ps (vnd_tx_start net, d) = Some (s', u')
    \<and> run_all (mhi_receive K E (param_qmap_mode P)) (nd_wire u') d = Some d'
    \<and> to_stack d' = map (\<lambda>(stale, b). deliver True (dev_addr net) i (drop 14 (skb_data b))) ps"
proof -
  have "0 < unat (param_qmap_mode P)" "hw_net_type P = MHI_NET_RMNET"
    using q(2) m(1) by (simp_all add: hw_net_type_def)
  then obtain d net where d: "mhi_netdev_probe P K E ''IP_HW0'' = Some (0, Some d)" "nets d ! i = Dev net"
    "nd_wire d = []" "to_stack d = []" "ether net" "mtu net = 1500"
    "qmap_in_step K E True (mux_id net) i net (dev_addr net) (vnd_tx_start net, d) d"
    using probed_device [OF G _ q(1) m(2) q(2)] by auto
  have T': "\<forall>p \<in> set ps. qmap_takes True net p"
    using T d(6) by (force simp: qmap_takes_def ip_off_def)
  from qmap.all_arrive [OF d(7) T', of "param_qmap_mode P"] obtain s' u' fs d' where
    "run_all (mhi_send K (param_qmap_mode P)) ps (vnd_tx_start net, d) = Some (s', u')" "nd_wire u' = nd_wire d @ fs"
    "run_all (mhi_receive K E (param_qmap_mode P)) fs d = Some d'"
    "to_stack d' = to_stack d @ map (\<lambda>(stale, b). deliver (ether net) (dev_addr net) i (drop (ip_off True) (skb_data b))) ps"
    by auto
  then show ?thesis using d(1-5) by (auto simp: ip_off_def)
qed

theorem probed_qmap_delivers_witness:
  "\<exists>d net s' u' d'. mhi_netdev_probe (demo_probe 0) demo_kernel demo_env ''IP_HW0'' = Some (0, Some d)
    \<and> nets d ! 1 = Dev net
    \<and> run_all (mhi_send demo_kernel (param_qmap_mode (demo_probe 0))) demo_packets
        (vnd_tx_start net, d) = Some (s', u')
    \<and> run_all (mhi_receive demo_kernel demo_env (param_qmap_mode (demo_probe 0))) (nd_wire u') d = Some d'
    \<and> to_stack d' = map (\<lambda>(stale, b). deliver True (dev_addr net) 1 (drop 14 (skb_data b))) demo_packets"
  by (rule probed_qmap_delivers [OF demo_granted _ _ _ _ demo_packets_ok(2)]) (simp_all add: demo_probe_def)

text \<open>A probe that gets what it asks for itself still faults: with a \<open>qmap_mode\<close> above 8, or when a multiplexed
  device was allocated but not registered.\<close>

theorem probe_faults:
  assumes G: "kzalloc_ok P" "stats_ok P" "prepare_ret P = 0" "netdev_ok P" "register_ret P = 0"
    and bad: "8 < unat (param_qmap_mode P)
      \<or> (\<exists>i < unat (param_qmap_mode P). vnd_alloc_ok P i \<and> \<not> vnd_ok P i)"
  shows "mhi_netdev_probe P K E ''IP_HW0'' = None"
proof -
  let ?t = "hw_net_type P"
  let ?c = "mhi_net_config P ?t"
  note cf = config_fields [where P = P and t = "hw_net_type P"]
  have ne: "?t \<noteq> MHI_NET_ETHER" by (simp add: hw_net_type_def)
  let ?d1 = "?c\<lparr>nd_bridge_mode := param_bridge_mode P, enabled := True\<rparr>"
  obtain ret d2 where al: "alloc_loop K E (free_tre P) ?d1 = (ret, d2)" by force
  then have d2: "nd_qmap_mode d2 = param_qmap_mode P" "length (nets d2) = 8"
    using enable_keeps_mode [of K E "free_tre P" ?d1] cf(6,10) ne by simp_all
  define d where "d = (if ret \<noteq> 0 then d2\<lparr>alloc_pending := True\<rparr> else d2)"
  have "net_type ?c = MHI_NET_RMNET \<or> net_type ?c = MHI_NET_MBIM" using cf(1) by (simp add: hw_net_type_def)
  then have en: "mhi_netdev_enable_iface P K E ?c = (0, d)" "nd_qmap_mode d = param_qmap_mode P"
    "length (nets d) = 8"
    using G al d2 by (auto simp: mhi_netdev_enable_iface_def mhi_netdev_alloc_skb_def d_def)
  have "register_vnds P 0 (unat (nd_qmap_mode d)) d = None"
    using register_vnds_returns [of P 0 "unat (nd_qmap_mode d)" d] bad en(2,3)
    by (cases "register_vnds P 0 (unat (nd_qmap_mode d)) d") auto
  then show ?thesis
    using G en ne unfolding mhi_netdev_probe_def hw_net_type_def [symmetric] by (simp add: Let_def)
qed

theorem probe_faults_witness:
  "mhi_netdev_probe ((demo_probe 0)\<lparr>param_qmap_mode := 9\<rparr>) demo_kernel demo_env ''IP_HW0'' = None
    \<and> mhi_netdev_probe ((demo_probe 0)\<lparr>vnd_register_ret := \<lambda>i. - ENOMEM\<rparr>) demo_kernel demo_env ''IP_HW0'' = None"
proof (intro conjI)
  show "mhi_netdev_probe ((demo_probe 0)\<lparr>param_qmap_mode := 9\<rparr>) demo_kernel demo_env ''IP_HW0'' = None"
    by (rule probe_faults) (simp_all add: demo_probe_def)
  show "mhi_netdev_probe ((demo_probe 0)\<lparr>vnd_register_ret := \<lambda>i. - ENOMEM\<rparr>) demo_kernel demo_env ''IP_HW0'' = None"
    by (rule probe_faults) (auto simp: demo_probe_def vnd_ok_def intro!: exI [of _ 0])
qed

end
