(* ===== verification/Mhi_Queues.thy ===== *)
theory Mhi_Queues
  imports Mhi_Netdev
begin

text \<open>
  Stopping and waking the queues of the MHI network device. Three activities run at the same time:
  the transmit functions of the multiplexed devices (\<^verbatim>\<open>rmnet_vnd_start_xmit\<close>), that of the real
  device (\<^verbatim>\<open>mhi_netdev_xmit\<close>) and the completion callback (\<^verbatim>\<open>mhi_netdev_xfer_ul_cb\<close>). Each access
  to a queue flag or to the number of free descriptors is a step.

  Every queued transfer completes without an error, and \<^verbatim>\<open>mhi_queue_transfer\<close> fails only when there
  is no free descriptor.
\<close>

section \<open>The machine\<close>

text \<open>A transmit function was entered, has seen the real queue stopped, or has seen it running.\<close>

datatype vnd_pc = VIdle | VEntered | VStopping | VSending

text \<open>The real device will stop the multiplexed ones, then itself, then queue its frame.\<close>

datatype real_pc = RIdle | RStopVnds | RStopReal | RQueue

text \<open>The callback will look at the real queue, count the free descriptors, wake the real queue, or wake the
  multiplexed devices.\<close>

datatype cb_pc = CIdle | CCheck | CCount | CWake | CVnds

record queues =
  q_free :: nat
  real_q :: bool
  vnd_q :: "nat \<Rightarrow> bool"
  vnds :: "nat \<Rightarrow> vnd_pc"
  real_at :: real_pc
  cb_at :: cb_pc
  q_backlog :: nat

text \<open>
  \<open>n\<close> descriptors, \<open>m\<close> multiplexed devices. With \<open>atomic\<close> a transmit function that finds the real
  queue stopped stops its own in the same step; the code does it in two.
\<close>

inductive q_step :: "bool \<Rightarrow> nat \<Rightarrow> nat \<Rightarrow> queues \<Rightarrow> queues \<Rightarrow> bool" for atomic n m where
  vnd_enter: "i < m \<Longrightarrow> vnds s i = VIdle \<Longrightarrow> \<not> vnd_q s i \<Longrightarrow>
    q_step atomic n m s (s\<lparr>vnds := (vnds s)(i := VEntered)\<rparr>)"
| vnd_busy: "\<not> atomic \<Longrightarrow> vnds s i = VEntered \<Longrightarrow> real_q s \<Longrightarrow>
    q_step atomic n m s (s\<lparr>vnds := (vnds s)(i := VStopping)\<rparr>)"
| vnd_stop: "vnds s i = VStopping \<Longrightarrow>
    q_step atomic n m s (s\<lparr>vnds := (vnds s)(i := VIdle), vnd_q := (vnd_q s)(i := True)\<rparr>)"
| vnd_busy_stop: "atomic \<Longrightarrow> vnds s i = VEntered \<Longrightarrow> real_q s \<Longrightarrow>
    q_step atomic n m s (s\<lparr>vnds := (vnds s)(i := VIdle), vnd_q := (vnd_q s)(i := True)\<rparr>)"
| vnd_go: "vnds s i = VEntered \<Longrightarrow> \<not> real_q s \<Longrightarrow>
    q_step atomic n m s (s\<lparr>vnds := (vnds s)(i := VSending)\<rparr>)"
| vnd_send: "vnds s i = VSending \<Longrightarrow>
    q_step atomic n m s (s\<lparr>vnds := (vnds s)(i := VIdle), q_backlog := q_backlog s + 1\<rparr>)"
| real_low: "real_at s = RIdle \<Longrightarrow> \<not> real_q s \<Longrightarrow> q_backlog s = Suc k \<Longrightarrow> q_free s < 16 \<Longrightarrow>
    q_step atomic n m s (s\<lparr>real_at := RStopVnds, q_backlog := k\<rparr>)"
| real_room: "real_at s = RIdle \<Longrightarrow> \<not> real_q s \<Longrightarrow> q_backlog s = Suc k \<Longrightarrow> \<not> q_free s < 16 \<Longrightarrow>
    q_step atomic n m s (s\<lparr>real_at := RQueue, q_backlog := k\<rparr>)"
| real_stop_vnds: "real_at s = RStopVnds \<Longrightarrow>
    q_step atomic n m s (s\<lparr>real_at := RStopReal, vnd_q := (\<lambda>i. i < m \<or> vnd_q s i)\<rparr>)"
| real_stop: "real_at s = RStopReal \<Longrightarrow> q_step atomic n m s (s\<lparr>real_at := RQueue, real_q := True\<rparr>)"
| real_queue: "real_at s = RQueue \<Longrightarrow> q_free s = Suc f \<Longrightarrow>
    q_step atomic n m s (s\<lparr>real_at := RIdle, q_free := f\<rparr>)"
| real_full: "real_at s = RQueue \<Longrightarrow> q_free s = 0 \<Longrightarrow> q_step atomic n m s (s\<lparr>real_at := RIdle\<rparr>)"
| complete: "cb_at s = CIdle \<Longrightarrow> q_free s < n \<Longrightarrow>
    q_step atomic n m s (s\<lparr>q_free := q_free s + 1, cb_at := CCheck\<rparr>)"
| cb_running: "cb_at s = CCheck \<Longrightarrow> \<not> real_q s \<Longrightarrow> q_step atomic n m s (s\<lparr>cb_at := CIdle\<rparr>)"
| cb_stopped: "cb_at s = CCheck \<Longrightarrow> real_q s \<Longrightarrow> q_step atomic n m s (s\<lparr>cb_at := CCount\<rparr>)"
| cb_few: "cb_at s = CCount \<Longrightarrow> \<not> q_free s > 32 \<Longrightarrow> q_step atomic n m s (s\<lparr>cb_at := CIdle\<rparr>)"
| cb_many: "cb_at s = CCount \<Longrightarrow> q_free s > 32 \<Longrightarrow> q_step atomic n m s (s\<lparr>cb_at := CWake\<rparr>)"
| cb_wake: "cb_at s = CWake \<Longrightarrow> q_step atomic n m s (s\<lparr>real_q := False, cb_at := CVnds\<rparr>)"
| cb_vnds: "cb_at s = CVnds \<Longrightarrow>
    q_step atomic n m s (s\<lparr>vnd_q := (\<lambda>i. \<not> i < m \<and> vnd_q s i), cb_at := CIdle\<rparr>)"

inductive_cases q_stepE: "q_step atomic n m s s'"

definition q_start :: "nat \<Rightarrow> queues" where
  "q_start n = \<lparr>q_free = n, real_q = False, vnd_q = \<lambda>_. False, vnds = \<lambda>_. VIdle, real_at = RIdle,
     cb_at = CIdle, q_backlog = 0\<rparr>"

inductive q_reach :: "bool \<Rightarrow> nat \<Rightarrow> nat \<Rightarrow> queues \<Rightarrow> bool" for atomic n m where
  start: "q_reach atomic n m (q_start n)"
| step: "q_reach atomic n m s \<Longrightarrow> q_step atomic n m s s' \<Longrightarrow> q_reach atomic n m s'"

text \<open>All transfers have completed and neither the real device nor the callback is at work.\<close>

definition q_quiet :: "nat \<Rightarrow> queues \<Rightarrow> bool" where
  "q_quiet n s \<longleftrightarrow> q_free s = n \<and> real_at s = RIdle \<and> cb_at s = CIdle"

section \<open>Invariants\<close>

text \<open>While the real queue is stopped there is a transfer whose completion will look at it.\<close>

definition real_inv :: "nat \<Rightarrow> queues \<Rightarrow> bool" where
  "real_inv n s \<longleftrightarrow> q_free s \<le> n \<and> (real_q s \<longrightarrow> q_free s < n \<or> cb_at s \<in> {CCheck, CCount, CWake} \<or> real_at s = RQueue)"

lemma real_inv_step: "q_step atomic n m s s' \<Longrightarrow> real_inv n s \<Longrightarrow> 32 < n \<Longrightarrow> real_inv n s'"
  by (erule q_stepE) (auto simp: real_inv_def)

lemma real_inv_reach: "q_reach atomic n m s \<Longrightarrow> 32 < n \<Longrightarrow> real_inv n s"
proof (induction rule: q_reach.induct)
  case start
  then show ?case by (simp add: real_inv_def q_start_def)
next
  case (step s s')
  then show ?case using real_inv_step by blast
qed

definition vnd_inv :: "nat \<Rightarrow> queues \<Rightarrow> bool" where
  "vnd_inv m s \<longleftrightarrow> (\<forall>i. vnds s i \<noteq> VStopping) \<and> (\<forall>i. vnds s i \<noteq> VIdle \<longrightarrow> i < m) \<and> (\<forall>i. vnd_q s i \<longrightarrow> i < m)
     \<and> ((\<exists>i. vnd_q s i) \<longrightarrow> real_q s \<or> real_at s = RStopReal \<or> cb_at s = CVnds)"

lemma vnd_inv_step: "q_step True n m s s' \<Longrightarrow> vnd_inv m s \<Longrightarrow> vnd_inv m s'"
  by (erule q_stepE) (auto simp: vnd_inv_def)

lemma vnd_inv_reach: "q_reach True n m s \<Longrightarrow> vnd_inv m s"
proof (induction rule: q_reach.induct)
  case start
  then show ?case by (simp add: vnd_inv_def q_start_def)
next
  case (step s s')
  then show ?case using vnd_inv_step by blast
qed

section \<open>A lost wake-up\<close>

text \<open>One multiplexed device.\<close>

definition q_at :: "nat \<Rightarrow> bool \<Rightarrow> bool \<Rightarrow> vnd_pc \<Rightarrow> real_pc \<Rightarrow> cb_pc \<Rightarrow> nat \<Rightarrow> queues" where
  "q_at f rq vq v r c bl = \<lparr>q_free = f, real_q = rq, vnd_q = (\<lambda>_. False)(0 := vq), vnds = (\<lambda>_. VIdle)(0 := v),
     real_at = r, cb_at = c, q_backlog = bl\<rparr>"

lemma step_eq: "q_step atomic n m s t \<Longrightarrow> t = t' \<Longrightarrow> q_step atomic n m s t'"
  by simp

lemma q_at_steps:
  "q_step False n 1 (q_at f rq False VIdle r c bl) (q_at f rq False VEntered r c bl)"
  "q_step False n 1 (q_at f True vq VEntered r c bl) (q_at f True vq VStopping r c bl)"
  "q_step False n 1 (q_at f rq vq VStopping r c bl) (q_at f rq True VIdle r c bl)"
  "q_step False n 1 (q_at f False vq VEntered r c bl) (q_at f False vq VSending r c bl)"
  "q_step False n 1 (q_at f rq vq VSending r c bl) (q_at f rq vq VIdle r c (Suc bl))"
  "f < 16 \<Longrightarrow> q_step False n 1 (q_at f False vq v RIdle c (Suc bl)) (q_at f False vq v RStopVnds c bl)"
  "\<not> f < 16 \<Longrightarrow> q_step False n 1 (q_at f False vq v RIdle c (Suc bl)) (q_at f False vq v RQueue c bl)"
  "q_step False n 1 (q_at f rq vq v RStopVnds c bl) (q_at f rq True v RStopReal c bl)"
  "q_step False n 1 (q_at f rq vq v RStopReal c bl) (q_at f True vq v RQueue c bl)"
  "q_step False n 1 (q_at (Suc f) rq vq v RQueue c bl) (q_at f rq vq v RIdle c bl)"
  "f < n \<Longrightarrow> q_step False n 1 (q_at f rq vq v r CIdle bl) (q_at (Suc f) rq vq v r CCheck bl)"
  "q_step False n 1 (q_at f False vq v r CCheck bl) (q_at f False vq v r CIdle bl)"
  "q_step False n 1 (q_at f True vq v r CCheck bl) (q_at f True vq v r CCount bl)"
  "\<not> f > 32 \<Longrightarrow> q_step False n 1 (q_at f rq vq v r CCount bl) (q_at f rq vq v r CIdle bl)"
  "f > 32 \<Longrightarrow> q_step False n 1 (q_at f rq vq v r CCount bl) (q_at f rq vq v r CWake bl)"
  "q_step False n 1 (q_at f rq vq v r CWake bl) (q_at f False vq v r CVnds bl)"
  "q_step False n 1 (q_at f rq vq v r CVnds bl) (q_at f rq False v r CIdle bl)"
proof -
  show "q_step False n 1 (q_at f rq False VIdle r c bl) (q_at f rq False VEntered r c bl)"
    by (rule step_eq [OF q_step.vnd_enter [of 0]]) (auto simp: q_at_def fun_eq_iff)
  show "q_step False n 1 (q_at f True vq VEntered r c bl) (q_at f True vq VStopping r c bl)"
    by (rule step_eq [OF q_step.vnd_busy [of _ _ 0]]) (auto simp: q_at_def fun_eq_iff)
  show "q_step False n 1 (q_at f rq vq VStopping r c bl) (q_at f rq True VIdle r c bl)"
    by (rule step_eq [OF q_step.vnd_stop [of _ 0]]) (auto simp: q_at_def fun_eq_iff)
  show "q_step False n 1 (q_at f False vq VEntered r c bl) (q_at f False vq VSending r c bl)"
    by (rule step_eq [OF q_step.vnd_go [of _ 0]]) (auto simp: q_at_def fun_eq_iff)
  show "q_step False n 1 (q_at f rq vq VSending r c bl) (q_at f rq vq VIdle r c (Suc bl))"
    by (rule step_eq [OF q_step.vnd_send [of _ 0]]) (auto simp: q_at_def fun_eq_iff)
  show "q_step False n 1 (q_at f False vq v RIdle c (Suc bl)) (q_at f False vq v RStopVnds c bl)" if "f < 16"
    by (rule step_eq [OF q_step.real_low [of _ bl]]) (use that in \<open>auto simp: q_at_def fun_eq_iff\<close>)
  show "q_step False n 1 (q_at f False vq v RIdle c (Suc bl)) (q_at f False vq v RQueue c bl)" if "\<not> f < 16"
    by (rule step_eq [OF q_step.real_room [of _ bl]]) (use that in \<open>auto simp: q_at_def fun_eq_iff\<close>)
  show "q_step False n 1 (q_at f rq vq v RStopVnds c bl) (q_at f rq True v RStopReal c bl)"
    by (rule step_eq [OF q_step.real_stop_vnds]) (auto simp: q_at_def fun_eq_iff)
  show "q_step False n 1 (q_at f rq vq v RStopReal c bl) (q_at f True vq v RQueue c bl)"
    by (rule step_eq [OF q_step.real_stop]) (auto simp: q_at_def fun_eq_iff)
  show "q_step False n 1 (q_at (Suc f) rq vq v RQueue c bl) (q_at f rq vq v RIdle c bl)"
    by (rule step_eq [OF q_step.real_queue [of _ f]]) (auto simp: q_at_def fun_eq_iff)
  show "q_step False n 1 (q_at f rq vq v r CIdle bl) (q_at (Suc f) rq vq v r CCheck bl)" if "f < n"
    by (rule step_eq [OF q_step.complete]) (use that in \<open>auto simp: q_at_def fun_eq_iff\<close>)
  show "q_step False n 1 (q_at f False vq v r CCheck bl) (q_at f False vq v r CIdle bl)"
    by (rule step_eq [OF q_step.cb_running]) (auto simp: q_at_def)
  show "q_step False n 1 (q_at f True vq v r CCheck bl) (q_at f True vq v r CCount bl)"
    by (rule step_eq [OF q_step.cb_stopped]) (auto simp: q_at_def)
  show "q_step False n 1 (q_at f rq vq v r CCount bl) (q_at f rq vq v r CIdle bl)" if "\<not> f > 32"
    by (rule step_eq [OF q_step.cb_few]) (use that in \<open>auto simp: q_at_def\<close>)
  show "q_step False n 1 (q_at f rq vq v r CCount bl) (q_at f rq vq v r CWake bl)" if "f > 32"
    by (rule step_eq [OF q_step.cb_many]) (use that in \<open>auto simp: q_at_def\<close>)
  show "q_step False n 1 (q_at f rq vq v r CWake bl) (q_at f False vq v r CVnds bl)"
    by (rule step_eq [OF q_step.cb_wake]) (auto simp: q_at_def)
  show "q_step False n 1 (q_at f rq vq v r CVnds bl) (q_at f rq False v r CIdle bl)"
    by (rule step_eq [OF q_step.cb_vnds]) (auto simp: q_at_def fun_eq_iff)
qed

text \<open>Transfers without completions until few descriptors are left, and completions without transfers.\<close>

lemma q_fill: "k + 15 \<le> n \<Longrightarrow> q_reach False n 1 (q_at (n - k) False False VIdle RIdle CIdle 0)"
proof (induction k)
  case 0
  have "q_start n = q_at (n - 0) False False VIdle RIdle CIdle 0" by (simp add: q_start_def q_at_def fun_eq_iff)
  then show ?case using q_reach.start [of False n 1] by simp
next
  case (Suc k)
  then have 1: "q_reach False n 1 (q_at (n - k) False False VIdle RIdle CIdle 0)" by simp
  note 2 = q_reach.step [OF 1 q_at_steps(1)]
  note 3 = q_reach.step [OF 2 q_at_steps(4)]
  note 4 = q_reach.step [OF 3 q_at_steps(5)]
  have "\<not> n - k < 16" and e: "n - k = Suc (n - Suc k)" using Suc.prems by simp_all
  note 5 = q_reach.step [OF 4 q_at_steps(7) [OF this(1)]]
  show ?case using q_reach.step [OF 5 [unfolded e] q_at_steps(10)] .
qed

lemma q_drain:
  assumes "q_reach False n 1 (q_at f rq vq v RIdle CIdle 0)" "f \<le> g" "g \<le> n" "rq \<longrightarrow> g \<le> 32"
  shows "q_reach False n 1 (q_at g rq vq v RIdle CIdle 0)"
  using assms(2-4)
proof (induction g rule: dec_induct)
  case base
  then show ?case using assms(1) by simp
next
  case (step g)
  then have 1: "q_reach False n 1 (q_at g rq vq v RIdle CIdle 0)" and l: "g < n" "rq \<Longrightarrow> \<not> Suc g > 32" by auto
  note 2 = q_reach.step [OF 1 q_at_steps(11) [OF l(1)]]
  show ?case
  proof (cases rq)
    case True
    then show ?thesis
      using 2 l(2) q_reach.step [OF q_reach.step [OF _ q_at_steps(13)] q_at_steps(14)] by simp
  next
    case False
    then show ?thesis using 2 q_reach.step [OF _ q_at_steps(12)] by simp
  qed
qed

text \<open>The real queue is stopped, and the transmit function of the multiplexed device has seen it.\<close>

lemma q_stopped:
  assumes "32 < n"
  shows "q_reach False n 1 (q_at 14 True True VStopping RIdle CIdle 0)"
proof -
  have "q_reach False n 1 (q_at 15 False False VIdle RIdle CIdle 0)"
    using q_fill [of "n - 15" n] assms by simp
  note 1 = q_reach.step [OF q_reach.step [OF q_reach.step [OF this q_at_steps(1)] q_at_steps(4)] q_at_steps(5)]
  note 2 = q_reach.step [OF 1 q_at_steps(1)]
  have "(15 :: nat) < 16" by simp
  note 3 = q_reach.step [OF q_reach.step [OF q_reach.step [OF 2 q_at_steps(6) [OF this]] q_at_steps(8)] q_at_steps(9)]
  have "q_at 15 True True VEntered RQueue CIdle 0 = q_at (Suc 14) True True VEntered RQueue CIdle 0" by simp
  from q_reach.step [OF q_reach.step [OF 3 [unfolded this] q_at_steps(10)] q_at_steps(2)] show ?thesis .
qed

lemma q_stuck: "\<not> q_step False n 1 (q_at n False True VIdle RIdle CIdle 0) s'"
  by (auto simp: q_at_def elim!: q_stepE split: if_splits)

section \<open>The functions of the driver follow the machine\<close>

definition abs_queues :: "nat \<Rightarrow> nat \<Rightarrow> mhi_netdev \<Rightarrow> queues" where
  "abs_queues f bl d = \<lparr>q_free = f, real_q = real_queue_stopped d,
     vnd_q = (\<lambda>i. i < unat (nd_qmap_mode d) \<and> (case nets d ! i of Dev net \<Rightarrow> stopped net | _ \<Rightarrow> False)),
     vnds = \<lambda>_. VIdle, real_at = RIdle, cb_at = CIdle, q_backlog = bl\<rparr>"

definition all_devs :: "mhi_netdev \<Rightarrow> bool" where
  "all_devs d \<longleftrightarrow> unat (nd_qmap_mode d) \<le> length (nets d) \<and> (\<forall>i < unat (nd_qmap_mode d). \<exists>net. nets d ! i = Dev net)"

lemma on_nets_stopped:
  assumes "all_devs d"
  shows "\<exists>ps. on_nets (\<lambda>net. net\<lparr>stopped := x\<rparr>) (unat (nd_qmap_mode d)) (nets d) = Some ps \<and> length ps = length (nets d)
    \<and> (\<forall>i < unat (nd_qmap_mode d). \<exists>net. ps ! i = Dev net \<and> stopped net = x)"
proof -
  let ?m = "unat (nd_qmap_mode d)"
  have m: "?m \<le> length (nets d)" using assms by (simp add: all_devs_def)
  have "Freed \<notin> set (take ?m (nets d))"
    using assms m by (auto simp: all_devs_def in_set_conv_nth)
  moreover have "\<exists>net. (map (\<lambda>p. case p of Dev net \<Rightarrow> Dev (net\<lparr>stopped := x\<rparr>) | _ \<Rightarrow> p) (take ?m (nets d))
      @ drop ?m (nets d)) ! i = Dev net \<and> stopped net = x" if "i < ?m" for i
    using assms that m by (auto simp: all_devs_def nth_append split: net_ptr.split)
  ultimately show ?thesis using m by (auto simp: on_nets_def)
qed

lemma abs_queues_xmit:
  assumes x: "mhi_netdev_xmit f 0 ETH_P_MAP frame d = Some d'" and D: "all_devs d" "\<not> real_queue_stopped d" "0 < f"
  shows "(q_step False n (unat (nd_qmap_mode d)))\<^sup>*\<^sup>* (abs_queues f (Suc bl) d) (abs_queues (f - 1) bl d')"
proof -
  let ?m = "unat (nd_qmap_mode d)" and ?s = "abs_queues f (Suc bl) d"
  obtain f' where f': "f = Suc f'" using D(3) by (cases f) auto
  show ?thesis
  proof (cases "f < 16")
    case False
    then have e: "real_queue_stopped d' = real_queue_stopped d" "nets d' = nets d" "nd_qmap_mode d' = nd_qmap_mode d"
      using x by (auto simp: mhi_netdev_xmit_def split: if_splits Option.bind_splits option.splits)
    have 1: "q_step False n ?m ?s (?s\<lparr>real_at := RQueue, q_backlog := bl\<rparr>)"
      by (rule q_step.real_room) (use D False in \<open>simp_all add: abs_queues_def\<close>)
    have "q_step False n ?m (?s\<lparr>real_at := RQueue, q_backlog := bl\<rparr>) (abs_queues (f - 1) bl d')"
      by (rule step_eq [OF q_step.real_queue [of _ f']]) (use f' e in \<open>simp_all add: abs_queues_def\<close>)
    with 1 show ?thesis by (meson converse_rtranclp_into_rtranclp rtranclp.rtrancl_refl)
  next
    case True
    obtain ps where ps: "on_nets (\<lambda>net. net\<lparr>stopped := True\<rparr>) ?m (nets d) = Some ps"
      "\<forall>i < ?m. \<exists>net. ps ! i = Dev net \<and> stopped net = True"
      using on_nets_stopped [OF D(1), of True] by blast
    have e: "real_queue_stopped d'" "nets d' = ps" "nd_qmap_mode d' = nd_qmap_mode d"
      using x True ps(1) by (auto simp: mhi_netdev_xmit_def split: if_splits Option.bind_splits option.splits)
    let ?s1 = "?s\<lparr>real_at := RStopVnds, q_backlog := bl\<rparr>"
    let ?s2 = "?s1\<lparr>real_at := RStopReal, vnd_q := (\<lambda>i. i < ?m \<or> vnd_q ?s1 i)\<rparr>"
    let ?s3 = "?s2\<lparr>real_at := RQueue, real_q := True\<rparr>"
    have 1: "q_step False n ?m ?s ?s1"
      by (rule q_step.real_low) (use D True in \<open>simp_all add: abs_queues_def\<close>)
    have 2: "q_step False n ?m ?s1 ?s2" by (rule q_step.real_stop_vnds) simp
    have 3: "q_step False n ?m ?s2 ?s3" by (rule q_step.real_stop) simp
    have "q_step False n ?m ?s3 (abs_queues (f - 1) bl d')"
      by (rule step_eq [OF q_step.real_queue [of _ f']])
        (use f' e ps(2) in \<open>auto simp: abs_queues_def fun_eq_iff split: net_ptr.splits\<close>)
    with 1 2 3 show ?thesis by (meson converse_rtranclp_into_rtranclp rtranclp.rtrancl_refl)
  qed
qed

lemma abs_queues_ul_cb:
  assumes x: "mhi_netdev_xfer_ul_cb 0 (Suc f) d = Some d'" and D: "all_devs d" "enabled d" "f < n"
  shows "(q_step False n (unat (nd_qmap_mode d)))\<^sup>*\<^sup>* (abs_queues f bl d) (abs_queues (Suc f) bl d')"
proof -
  let ?m = "unat (nd_qmap_mode d)" and ?s = "abs_queues f bl d"
  let ?s1 = "?s\<lparr>q_free := q_free ?s + 1, cb_at := CCheck\<rparr>"
  have 1: "q_step False n ?m ?s ?s1" by (rule q_step.complete) (use D in \<open>simp_all add: abs_queues_def\<close>)
  show ?thesis
  proof (cases "real_queue_stopped d \<and> 32 < Suc f")
    case False
    then have "d' = d" using x by (auto simp: mhi_netdev_xfer_ul_cb_def split: if_splits)
    then have e: "abs_queues (Suc f) bl d' = ?s1\<lparr>cb_at := CIdle\<rparr>" by (simp add: abs_queues_def)
    show ?thesis
    proof (cases "real_queue_stopped d")
      case stopped: True
      have 2: "q_step False n ?m ?s1 (?s1\<lparr>cb_at := CCount\<rparr>)"
        by (rule q_step.cb_stopped) (use stopped in \<open>simp_all add: abs_queues_def\<close>)
      have "q_step False n ?m (?s1\<lparr>cb_at := CCount\<rparr>) (abs_queues (Suc f) bl d')"
        by (intro step_eq [OF q_step.cb_few]) (use False stopped e in \<open>simp_all add: abs_queues_def\<close>)
      with 1 2 show ?thesis by (meson converse_rtranclp_into_rtranclp rtranclp.rtrancl_refl)
    next
      case running: False
      have "q_step False n ?m ?s1 (abs_queues (Suc f) bl d')"
        by (intro step_eq [OF q_step.cb_running]) (use running e in \<open>simp_all add: abs_queues_def\<close>)
      with 1 show ?thesis by (meson converse_rtranclp_into_rtranclp rtranclp.rtrancl_refl)
    qed
  next
    case True
    obtain ps where ps: "on_nets (\<lambda>net. net\<lparr>stopped := False\<rparr>) ?m (nets d) = Some ps"
      "\<forall>i < ?m. \<exists>net. ps ! i = Dev net \<and> stopped net = False"
      using on_nets_stopped [OF D(1), of False] by blast
    have e: "d' = d\<lparr>nets := ps, real_queue_stopped := False\<rparr>"
      using x True D(2) ps(1) by (simp add: mhi_netdev_xfer_ul_cb_def)
    let ?s2 = "?s1\<lparr>cb_at := CCount\<rparr>"
    let ?s3 = "?s2\<lparr>cb_at := CWake\<rparr>"
    let ?s4 = "?s3\<lparr>real_q := False, cb_at := CVnds\<rparr>"
    have 2: "q_step False n ?m ?s1 ?s2" by (rule q_step.cb_stopped) (use True in \<open>simp_all add: abs_queues_def\<close>)
    have 3: "q_step False n ?m ?s2 ?s3" by (rule q_step.cb_many) (use True in \<open>simp_all add: abs_queues_def\<close>)
    have 4: "q_step False n ?m ?s3 ?s4" by (rule q_step.cb_wake) simp
    have "q_step False n ?m ?s4 (abs_queues (Suc f) bl d')"
      by (rule step_eq [OF q_step.cb_vnds])
        (use e ps(2) in \<open>auto simp: abs_queues_def fun_eq_iff split: net_ptr.splits\<close>)
    with 1 2 3 4 show ?thesis by (meson converse_rtranclp_into_rtranclp rtranclp.rtrancl_refl)
  qed
qed

section \<open>Settling\<close>

text \<open>The steps of the real device and of completions; each step of a multiplexed device moves it.\<close>

definition settle :: "nat \<Rightarrow> nat \<Rightarrow> queues \<Rightarrow> queues \<Rightarrow> bool" where
  "settle n m s s' \<longleftrightarrow> q_step False n m s s' \<and> vnds s' = vnds s"

definition settle_measure :: "nat \<Rightarrow> queues \<Rightarrow> nat" where
  "settle_measure n s = 9 * q_backlog s
     + (case real_at s of RStopVnds \<Rightarrow> 8 | RStopReal \<Rightarrow> 7 | RQueue \<Rightarrow> 6 | RIdle \<Rightarrow> 0)
     + 5 * (n - q_free s) + (case cb_at s of CCheck \<Rightarrow> 4 | CCount \<Rightarrow> 3 | CWake \<Rightarrow> 2 | CVnds \<Rightarrow> 1 | CIdle \<Rightarrow> 0)"

lemma fun_upd_moves: "f(i := x) = f \<longleftrightarrow> f i = x"
  by (auto simp: fun_eq_iff)

lemma settle_decreases: "settle n m s s' \<Longrightarrow> settle_measure n s' < settle_measure n s"
  unfolding settle_def
  by (erule conjE, erule q_stepE) (auto simp: settle_measure_def fun_upd_moves)

lemma settleI: "q_step False n m s s' \<Longrightarrow> vnds s' = vnds s \<Longrightarrow> \<exists>s'. settle n m s s'"
  unfolding settle_def by blast

lemma settle_real:
  assumes "real_at s \<noteq> RIdle \<or> \<not> real_q s \<and> q_backlog s \<noteq> 0"
  shows "\<exists>s'. settle n m s s'"
proof (cases "real_at s")
  case RIdle
  then obtain k where k: "\<not> real_q s" "q_backlog s = Suc k" using assms by (cases "q_backlog s") auto
  then show ?thesis
    using settleI [OF q_step.real_low [OF RIdle k]] settleI [OF q_step.real_room [OF RIdle k]]
    by (cases "q_free s < 16") simp_all
next
  case RStopVnds
  show ?thesis by (rule settleI [OF q_step.real_stop_vnds [OF RStopVnds]]) simp
next
  case RStopReal
  show ?thesis by (rule settleI [OF q_step.real_stop [OF RStopReal]]) simp
next
  case RQueue
  show ?thesis
    using settleI [OF q_step.real_queue [OF RQueue]] settleI [OF q_step.real_full [OF RQueue]]
    by (cases "q_free s") simp_all
qed

lemma settle_callback:
  assumes "cb_at s \<noteq> CIdle \<or> q_free s < n"
  shows "\<exists>s'. settle n m s s'"
proof (cases "cb_at s")
  case CIdle
  then show ?thesis using settleI [OF q_step.complete [OF CIdle]] assms by simp
next
  case CCheck
  show ?thesis
    using settleI [OF q_step.cb_running [OF CCheck]] settleI [OF q_step.cb_stopped [OF CCheck]]
    by (cases "real_q s") simp_all
next
  case CCount
  show ?thesis
    using settleI [OF q_step.cb_few [OF CCount]] settleI [OF q_step.cb_many [OF CCount]]
    by (cases "q_free s > 32") simp_all
next
  case CWake
  show ?thesis by (rule settleI [OF q_step.cb_wake [OF CWake]]) simp
next
  case CVnds
  show ?thesis by (rule settleI [OF q_step.cb_vnds [OF CVnds]]) simp
qed

lemma settle_enabled:
  assumes I: "real_inv n s"
  shows "(\<exists>s'. settle n m s s') \<or> q_quiet n s \<and> \<not> real_q s \<and> q_backlog s = 0"
proof (cases "real_at s = RIdle \<and> cb_at s = CIdle \<and> q_free s = n \<and> (q_backlog s = 0 \<or> real_q s)")
  case True
  then show ?thesis using I by (auto simp: q_quiet_def real_inv_def)
next
  case False
  have "q_free s \<le> n" using I by (simp add: real_inv_def)
  then have "real_at s \<noteq> RIdle \<or> \<not> real_q s \<and> q_backlog s \<noteq> 0 \<or> cb_at s \<noteq> CIdle \<or> q_free s < n"
    using False by auto
  then show ?thesis using settle_real [of s n m] settle_callback [of s n m] by blast
qed

lemma settle_reach: "(settle n m)\<^sup>*\<^sup>* s s' \<Longrightarrow> q_reach False n m s \<Longrightarrow> q_reach False n m s'"
  by (induction rule: rtranclp_induct) (auto simp: settle_def intro: q_reach.step)

section \<open>Properties\<close>

definition demo_queues :: mhi_netdev where
  "demo_queues = (mhi_net_config (demo_probe 0) MHI_NET_RMNET)\<lparr>enabled := True, nets := replicate 8 (Dev demo_net)\<rparr>"

text \<open>C24. The queue of the real device is woken again. In every state the transmit functions and the
  completion callback can reach, with more than 32 descriptors, the steps of the real device and of
  completions end, and they end only in a state where all transfers have completed, the real queue
  runs and nothing waits in it.\<close>

theorem real_queue_wakes:
  assumes R: "q_reach False n m s" and n: "32 < n"
  shows "(\<nexists>f. f 0 = s \<and> (\<forall>i. settle n m (f i) (f (Suc i))))
    \<and> (\<forall>s'. (settle n m)\<^sup>*\<^sup>* s s' \<longrightarrow>
        (\<exists>s''. settle n m s' s'') \<or> q_quiet n s' \<and> \<not> real_q s' \<and> q_backlog s' = 0)"
proof (intro conjI allI impI notI)
  assume "\<exists>f. f 0 = s \<and> (\<forall>i. settle n m (f i) (f (Suc i)))"
  then obtain f where f: "f 0 = s" "\<And>i. settle n m (f i) (f (Suc i))" by blast
  have d: "settle_measure n (f i) + i \<le> settle_measure n (f 0)" for i
  proof (induction i)
    case (Suc i)
    then show ?case using settle_decreases [OF f(2) [of i]] by simp
  qed simp
  from d [of "Suc (settle_measure n (f 0))"] show False by simp
next
  fix s' assume "(settle n m)\<^sup>*\<^sup>* s s'"
  then have "real_inv n s'" using settle_reach R real_inv_reach n by blast
  then show "(\<exists>s''. settle n m s' s'') \<or> q_quiet n s' \<and> \<not> real_q s' \<and> q_backlog s' = 0"
    by (rule settle_enabled)
qed

text \<open>14 of 64 descriptors are free and the real queue is stopped.\<close>

theorem real_queue_wakes_witness:
  "(\<nexists>f. f 0 = q_at 14 True True VStopping RIdle CIdle 0 \<and> (\<forall>i. settle 64 1 (f i) (f (Suc i))))
    \<and> (\<exists>s. settle 64 1 (q_at 14 True True VStopping RIdle CIdle 0) s)"
proof -
  have "32 < (64 :: nat)" by simp
  note w = real_queue_wakes [OF q_stopped [OF this] this]
  have "real_q (q_at 14 True True VStopping RIdle CIdle 0)" by (simp add: q_at_def)
  with w show ?thesis by blast
qed

text \<open>C39. A multiplexed device can miss its wake-up: between the test of the real queue and the stop of its
  own, the callback can wake all queues. There is an interleaving after which its queue is stopped,
  all transfers have completed, the real queue runs, and no step is possible any more.\<close>

theorem vnd_wakeup_lost:
  assumes "32 < n"
  shows "\<exists>s. q_reach False n 1 s \<and> vnd_q s 0 \<and> \<not> real_q s \<and> q_quiet n s \<and> (\<forall>s'. \<not> q_step False n 1 s s')"
proof -
  have 5: "q_reach False n 1 (q_at 32 True True VStopping RIdle CIdle 0)"
    by (rule q_drain [OF q_stopped [OF assms]]) (use assms in simp_all)
  have l: "Suc 32 > 32" "32 < n" using assms by simp_all
  note 6 = q_reach.step [OF q_reach.step [OF 5 q_at_steps(11) [OF l(2)]] q_at_steps(13)]
  note 7 = q_reach.step [OF q_reach.step [OF q_reach.step [OF 6 q_at_steps(15) [OF l(1)]] q_at_steps(16)] q_at_steps(17)]
  have "q_reach False n 1 (q_at n False False VStopping RIdle CIdle 0)"
    by (rule q_drain [OF 7]) (use assms in simp_all)
  from q_reach.step [OF this q_at_steps(3)] have "q_reach False n 1 (q_at n False True VIdle RIdle CIdle 0)" .
  then show ?thesis using q_stuck by (intro exI [of _ "q_at n False True VIdle RIdle CIdle 0"]) (simp add: q_at_def q_quiet_def)
qed

theorem vnd_wakeup_lost_witness:
  "\<exists>s. q_reach False 64 1 s \<and> vnd_q s 0 \<and> \<not> real_q s \<and> q_quiet 64 s \<and> (\<forall>s'. \<not> q_step False 64 1 s s')"
  by (rule vnd_wakeup_lost) simp

text \<open>C25. The functions of the driver follow the queue machine: a call of \<^verbatim>\<open>mhi_netdev_xmit\<close> with a free
  descriptor, and a completed transfer in \<^verbatim>\<open>mhi_netdev_xfer_ul_cb\<close>, are sequences of its steps
  between the states they start and end in.\<close>

theorem queues_refined:
  assumes D: "all_devs d" "enabled d" "f < n"
  shows "(\<forall>d'. mhi_netdev_xmit f 0 ETH_P_MAP frame d = Some d' \<and> \<not> real_queue_stopped d \<and> 0 < f \<longrightarrow>
      (q_step False n (unat (nd_qmap_mode d)))\<^sup>*\<^sup>* (abs_queues f (Suc bl) d) (abs_queues (f - 1) bl d'))
    \<and> (\<forall>d'. mhi_netdev_xfer_ul_cb 0 (Suc f) d = Some d' \<longrightarrow>
      (q_step False n (unat (nd_qmap_mode d)))\<^sup>*\<^sup>* (abs_queues f bl d) (abs_queues (Suc f) bl d'))"
  using abs_queues_xmit [OF _ D(1)] abs_queues_ul_cb [OF _ D] by blast

theorem queues_refined_witness:
  "\<exists>d'. mhi_netdev_xmit 5 0 ETH_P_MAP [0] demo_queues = Some d'
    \<and> (q_step False 64 2)\<^sup>*\<^sup>* (abs_queues 5 1 demo_queues) (abs_queues 4 0 d')"
proof -
  have f: "all_devs demo_queues" "enabled demo_queues" "(5 :: nat) < 64" "\<not> real_queue_stopped demo_queues"
    "unat (nd_qmap_mode demo_queues) = 2" "net_type demo_queues = MHI_NET_RMNET"
    by (simp_all add: all_devs_def demo_queues_def mhi_net_config_def demo_probe_def nth_replicate Let_def)
  obtain ps where "on_nets (\<lambda>net. net\<lparr>stopped := True\<rparr>) (unat (nd_qmap_mode demo_queues)) (nets demo_queues) = Some ps"
    using on_nets_stopped [OF f(1)] by blast
  then obtain d' where "mhi_netdev_xmit 5 0 ETH_P_MAP [0] demo_queues = Some d'"
    using f(6) by (simp add: mhi_netdev_xmit_def)
  then show ?thesis using queues_refined [OF f(1-3), of "[0]" 0] f(4,5) by auto
qed

text \<open>If the test of the real queue and the stop were one step, no device would stay stopped.\<close>

theorem atomic_stop_suffices:
  assumes "q_reach True n m s" "32 < n" "q_quiet n s"
  shows "\<not> real_q s \<and> (\<forall>i. \<not> vnd_q s i)"
  using real_inv_reach [OF assms(1,2)] vnd_inv_reach [OF assms(1)] assms(3)
  by (auto simp: real_inv_def vnd_inv_def q_quiet_def)

theorem atomic_stop_suffices_witness:
  "\<not> real_q (q_start 64) \<and> (\<forall>i. \<not> vnd_q (q_start 64) i)"
  by (rule atomic_stop_suffices [OF q_reach.start]) (simp_all add: q_quiet_def q_start_def)

end
