(* ===== verification/Qmi_Wwan.thy ===== *)
theory Qmi_Wwan
  imports Qmap_Rx
begin

text \<open>
  The rest of the data side of \<^verbatim>\<open>drivers/quectel-qmi-wwan/src/qmi_wwan_q.c\<close>: the configuration
  \<^verbatim>\<open>qmi_wwan_bind\<close> chooses, the link state of the multiplexed devices, and the fixups of the real
  device for the modes without and with one QMAP channel.
\<close>

section \<open>Configuration\<close>

record bind_info =
  idProduct :: u16
  info_data :: u32
  super_speed :: bool

text \<open>The part of \<^verbatim>\<open>sQmiWwanQmap\<close> that \<^verbatim>\<open>qmi_wwan_bind\<close> fills in for a raw IP device.\<close>

record qmap_setup =
  su_qmap_mode :: u32
  su_qmap_version :: u32
  su_qmap_size :: u32
  su_link_state :: u32
  su_use_rmnet_usb :: u32
  su_tx_ctx :: tx_agg_ctx
  su_rx_urb_size :: u32

definition lte_a_products :: "u16 list" where
  "lte_a_products = [0x0306, 0x030B, 0x0512, 0x0620, 0x0800, 0x0801, 0x0122, 0x0316]"

text \<open>
  \<open>data\<close> of the driver info is \<open>(version << 8) | size\<close> with the size in KiB. \<^verbatim>\<open>QUECTEL_WWAN_QMAP\<close>
  caps the module parameter.
\<close>

definition is_lte_a :: "bind_info \<Rightarrow> bool" where
  "is_lte_a i \<longleftrightarrow> idProduct i \<in> set lte_a_products
     \<or> info_data i AND 0xFF > 4096 \<or> super_speed i"

definition qmi_wwan_bind_setup :: "u32 \<Rightarrow> bind_info \<Rightarrow> qmap_setup" where
  "qmi_wwan_bind_setup param i =
     (let qmap_version = drop_bit 8 (info_data i) AND 0xFF;
          qmap_size = info_data i AND 0xFF;
          mode = (if param > 4 then 4 else param);
          mode = (if is_lte_a i \<and> mode = 0 then 1 else mode);
          idle = \<lparr>su_qmap_mode = mode, su_qmap_version = 0, su_qmap_size = 0, su_link_state = 1,
                  su_use_rmnet_usb = 0, su_tx_ctx = \<lparr>ul_data_aggregation_max_datagrams = 0,
                    ul_data_aggregation_max_size = 0, dl_minimum_padding = 0\<rparr>,
                  su_rx_urb_size = 1500 + 14 + 6\<rparr>
      in if mode = 0 then idle
         else idle\<lparr>su_qmap_version := qmap_version, su_qmap_size := qmap_size * 1024,
                   su_rx_urb_size := qmap_size * 1024,
                   su_link_state := (if is_lte_a i then 0 else 1),
                   su_use_rmnet_usb :=
                     (if mode > 1 then 1 else if idProduct i \<in> {0x0800, 0x0801, 0x0122} then 1 else 0),
                   su_tx_ctx := \<lparr>ul_data_aggregation_max_datagrams = 1,
                     ul_data_aggregation_max_size = 1500, dl_minimum_padding = 0\<rparr>\<rparr>)"

text \<open>\<^verbatim>\<open>qma_setting_store\<close>: the limits of the modem, taken once.\<close>

record QMAP_SETTING_ul =
  qs_size :: u32
  qs_max_datagrams :: u32
  qs_max_size :: u32
  qs_dl_minimum_padding :: u32

definition qma_setting_store :: "QMAP_SETTING_ul \<Rightarrow> u32 \<Rightarrow> tx_agg_ctx \<Rightarrow> int \<times> tx_agg_ctx" where
  "qma_setting_store q sz c =
     (if qs_size q \<noteq> sz then (- EOPNOTSUPP, c)
      else (0, if ul_data_aggregation_max_datagrams c = 1 \<and> qs_max_datagrams q > 1
               then \<lparr>ul_data_aggregation_max_datagrams = qs_max_datagrams q,
                     ul_data_aggregation_max_size = qs_max_size q,
                     dl_minimum_padding = qs_dl_minimum_padding q\<rparr>
               else c))"

section \<open>Link state\<close>

record link_net =
  net_link_state :: bool
  net_up :: bool
  net_carrier :: bool
  net_stopped :: bool

text \<open>An entry of \<^verbatim>\<open>mpQmapNetDev\<close>: null, the real device itself, or a multiplexed device.\<close>

datatype link_slot = NoNet | RealNet | MuxNet link_net

record link_dev =
  ld_qmap_mode :: u32
  ld_link_state :: u32
  ld_real_up :: bool
  ld_real_carrier :: bool
  ld_real_stopped :: bool
  ld_nets :: "link_slot list"

definition wake_if :: "bool \<Rightarrow> link_net \<Rightarrow> link_net" where
  "wake_if rs n =
     (if net_stopped n \<and> \<not> rs then n\<lparr>net_stopped := False\<rparr> else n)"

text \<open>
  The write to \<^verbatim>\<open>link_state\<close>: bits 0 to 6 are the number of the device from 1, bit 7 takes the
  link down. The value is parsed from the text by the caller.
\<close>

definition set_link :: "bool \<Rightarrow> bool \<Rightarrow> link_net \<Rightarrow> link_net" where
  "set_link rs up n =
     (let n = n\<lparr>net_link_state := up\<rparr>
      in if net_up n
         then (if up then wake_if rs (n\<lparr>net_carrier := True\<rparr>)
               else n\<lparr>net_carrier := False\<rparr>)
         else n)"

definition link_change :: "u32 \<Rightarrow> link_dev \<Rightarrow> (u32 \<times> nat) option" where
  "link_change v d =
     (if ld_qmap_mode d = 1 then Some (if v = 0 then 0 else 1, 0)
      else if ld_qmap_mode d > 1 then
        (let offset_id = (v AND 0x7F) - 1
         in if offset_id \<ge> ld_qmap_mode d then None
            else if v AND 0x80 \<noteq> 0
            then Some (ld_link_state d AND NOT (push_bit (unat offset_id) 1), unat offset_id)
            else Some (ld_link_state d OR push_bit (unat offset_id) 1, unat offset_id))
      else Some (ld_link_state d, 0))"

definition link_state_store :: "u32 \<Rightarrow> link_dev \<Rightarrow> link_dev option" where
  "link_state_store v d =
     (case link_change v d of
        None \<Rightarrow> Some d
      | Some (new, i) \<Rightarrow>
          if new = ld_link_state d then Some d
          else do {
            n \<leftarrow> elem (ld_nets d) i;
            let d = d\<lparr>ld_link_state := new\<rparr>;
            let d = (if ld_real_up d \<and> new \<noteq> 0 then d\<lparr>ld_real_carrier := True\<rparr> else d);
            let d = (case n of
                       MuxNet m \<Rightarrow> d\<lparr>ld_nets := (ld_nets d)
                         [i := MuxNet (set_link (ld_real_stopped d) (bit new i) m)]\<rparr>
                     | _ \<Rightarrow> d);
            Some (if ld_real_up d \<and> new = 0 then d\<lparr>ld_real_carrier := False\<rparr> else d) })"

text \<open>Opening and closing a multiplexed device; the caller sets \<^verbatim>\<open>IFF_UP\<close> by the result.\<close>

definition qmap_open :: "link_net \<Rightarrow> link_dev \<Rightarrow> int \<times> link_net \<times> link_dev" where
  "qmap_open n d =
     (if \<not> ld_real_up d then (- ENETDOWN, n, d)
      else if net_link_state n
      then (0, wake_if (ld_real_stopped d) (n\<lparr>net_carrier := True, net_up := True\<rparr>),
            d\<lparr>ld_real_carrier := True\<rparr>)
      else (0, n\<lparr>net_up := True\<rparr>, d))"

definition qmap_stop :: "link_net \<Rightarrow> link_net" where
  "qmap_stop n = n\<lparr>net_carrier := False, net_up := False\<rparr>"

definition qmap_wake_queue :: "bool \<Rightarrow> link_dev \<Rightarrow> link_dev" where
  "qmap_wake_queue use_rmnet d =
     (if use_rmnet then
        d\<lparr>ld_nets := map (\<lambda>(i, n). if i < unat (ld_qmap_mode d) then
              (case n of MuxNet m \<Rightarrow>
                 MuxNet (if net_carrier m \<and> net_stopped m then m\<lparr>net_stopped := False\<rparr> else m)
               | _ \<Rightarrow> n) else n)
            (zip [0..<length (ld_nets d)] (ld_nets d))\<rparr>
      else d)"

section \<open>The real device\<close>

text \<open>
  An address whose first byte looks like an IP version could be taken for a packet without a
  header, so the driver changes such an address.
\<close>

definition possibly_iphdr :: "u8 \<Rightarrow> bool" where
  "possibly_iphdr c \<longleftrightarrow> c AND 0xd0 = 0x40"

definition bind_addr :: "u8 list \<Rightarrow> u8 list" where
  "bind_addr a = (if possibly_iphdr (hd a) then ((hd a OR 0x02) AND 0xbf) # tl a else a)"

text \<open>\<^verbatim>\<open>qmi_wwan_mac_addr\<close> after \<^verbatim>\<open>eth_prepare_mac_addr_change\<close> succeeded.\<close>

definition EADDRNOTAVAIL :: int where [simp]: "EADDRNOTAVAIL = 99"

definition qmi_wwan_mac_addr :: "u8 list \<Rightarrow> u8 list \<Rightarrow> int \<times> u8 list" where
  "qmi_wwan_mac_addr new old =
     (if possibly_iphdr (hd new) then (- EADDRNOTAVAIL, old) else (0, new))"

text \<open>
  Reception without QMAP: the result, and the buffer with its header. \<open>dest\<close> is what
  \<^verbatim>\<open>bridge_mode_rx_fixup\<close> stores.
\<close>

definition set_bytes :: "nat \<Rightarrow> u8 list \<Rightarrow> u8 list \<Rightarrow> u8 list" where
  "set_bytes i vs xs = take i xs @ vs @ drop (i + length vs) xs"

definition qmi_wwan_rx_fixup :: "kernel \<Rightarrow> nat \<Rightarrow> u8 list \<Rightarrow> sk_buff \<Rightarrow> int \<times> sk_buff" where
  "qmi_wwan_rx_fixup K hard_header_len dest b =
     (if skb_len b < hard_header_len then (0, b)
      else
        let c = peek K b 0
        in case ip_protocol c of
             Some proto \<Rightarrow>
               if skb_headroom b < ETH_HLEN then (0, b)
               else (1, b\<lparr>skb_data := dest @ default_modem_addr @ be16 proto @ skb_data b,
                          skb_headroom := skb_headroom b - ETH_HLEN,
                          skb_network := skb_network b + ETH_HLEN\<rparr>)
           | None \<Rightarrow>
               if c AND 0xf0 = 0 \<and> \<not> bit c 0
               then (1, b\<lparr>skb_data := set_bytes 0 dest (skb_data b)\<rparr>)
               else (1, b))"

text \<open>Transmission without QMAP: \<open>noarp\<close> devices drop the Ethernet header.\<close>

definition qmi_wwan_tx_fixup :: "kernel \<Rightarrow> bool \<Rightarrow> nat \<Rightarrow> sk_buff \<Rightarrow> qmap_tx \<Rightarrow>
    qmap_tx \<times> sk_buff option" where
  "qmi_wwan_tx_fixup K noarp hard_header_len b s =
     (if \<not> noarp then (s, Some b)
      else if hard_header_len = 0 then (s, Some b)
      else
        let (s, go) = (if bridge_mode s \<noteq> 0 then bridge_mode_tx_fixup K b s else (s, Some b))
        in (s, if go = None then None else skb_pull ETH_HLEN b))"

text \<open>\<open>None\<close> is a panic; the second \<open>None\<close> a dropped packet.\<close>

definition qmap_qmi_wwan_tx_fixup :: "kernel \<Rightarrow> bool \<Rightarrow> nat \<Rightarrow> u32 \<Rightarrow> u32 \<Rightarrow> u32 \<Rightarrow> sk_buff \<Rightarrow>
    qmap_tx \<Rightarrow> (qmap_tx \<times> sk_buff option) option" where
  "qmap_qmi_wwan_tx_fixup K noarp hard_header_len mode version link b s =
     (if mode \<noteq> 0 \<and> link = 0 then Some (s, None)
      else if mode = 0 then Some (qmi_wwan_tx_fixup K noarp hard_header_len b s)
      else if mode > 1 then Some (s, Some b)
      else (case qmi_wwan_tx_fixup K noarp hard_header_len b s of
              (s, None) \<Rightarrow> Some (s, None)
            | (s, Some b) \<Rightarrow> do {
                (b', _) \<leftarrow> (if version = 5 then add_qhdr b QUECTEL_QMAP_MUX_ID False 0
                          else add_qhdr_v5 b QUECTEL_QMAP_MUX_ID False 0);
                Some (s, Some b') }))"

section \<open>Links\<close>

datatype link_op = Store u32 | Open nat | Stop nat | Wake

definition link_apply :: "link_op \<Rightarrow> link_dev \<Rightarrow> link_dev option" where
  "link_apply x d =
     (case x of
        Store v \<Rightarrow> link_state_store v d
      | Open i \<Rightarrow>
          (if i < length (ld_nets d) then
             (case ld_nets d ! i of
                MuxNet n \<Rightarrow>
                  (case qmap_open n d of
                     (r, n', d') \<Rightarrow> Some (d'\<lparr>ld_nets := (ld_nets d')[i := MuxNet n']\<rparr>))
              | _ \<Rightarrow> Some d)
           else Some d)
      | Stop i \<Rightarrow>
          (if i < length (ld_nets d) then
             (case ld_nets d ! i of
                MuxNet n \<Rightarrow> Some (d\<lparr>ld_nets := (ld_nets d)[i := MuxNet (qmap_stop n)]\<rparr>)
              | _ \<Rightarrow> Some d)
           else Some d)
      | Wake \<Rightarrow> Some (qmap_wake_queue True d))"

primrec link_run :: "link_op list \<Rightarrow> link_dev \<Rightarrow> link_dev option" where
  "link_run [] d = Some d"
| "link_run (x # xs) d = Option.bind (link_apply x d) (link_run xs)"

text \<open>
  Every multiplexed device has its bit of the link state, and a carrier exactly when it is up and
  its bit is set.
\<close>

definition net_ok :: "bool \<Rightarrow> link_net \<Rightarrow> bool" where
  "net_ok l n \<longleftrightarrow> net_link_state n = l \<and> net_carrier n = (net_up n \<and> l)"

definition slot_ok :: "bool \<Rightarrow> link_slot \<Rightarrow> bool" where
  "slot_ok l n = (case n of MuxNet m \<Rightarrow> net_ok l m | _ \<Rightarrow> False)"

definition link_ok :: "link_dev \<Rightarrow> bool" where
  "link_ok d \<longleftrightarrow> 1 < ld_qmap_mode d \<and> unat (ld_qmap_mode d) \<le> 4 \<and> length (ld_nets d) = 4
     \<and> (\<forall>i < unat (ld_qmap_mode d). slot_ok (bit (ld_link_state d) i) (ld_nets d ! i))"

lemma wake_if_fields [simp]:
  "net_link_state (wake_if r n) = net_link_state n" "net_up (wake_if r n) = net_up n"
  "net_carrier (wake_if r n) = net_carrier n"
  by (simp_all add: wake_if_def)

lemma set_link_ok: "net_ok l n \<Longrightarrow> net_ok up (set_link r up n)"
  by (simp add: net_ok_def set_link_def Let_def)

lemma slot_okE:
  assumes "slot_ok l x"
  obtains n where "x = MuxNet n" "net_ok l n"
  using assms by (auto simp: slot_ok_def split: link_slot.splits)

lemma link_change_bit:
  assumes "link_change v d = Some (new, i)" "1 < ld_qmap_mode d" "unat (ld_qmap_mode d) \<le> 4"
  shows "i < unat (ld_qmap_mode d)" "bit new i = (v AND 0x80 = 0)"
    "j \<noteq> i \<Longrightarrow> bit new j = bit (ld_link_state d) j"
proof -
  have i: "i = unat ((v AND 0x7F) - 1 :: u32)" "\<not> ld_qmap_mode d \<le> (v AND 0x7F) - 1"
    "new = (if v AND 0x80 \<noteq> 0 then ld_link_state d AND NOT (push_bit i 1)
            else ld_link_state d OR push_bit i 1)"
    using assms(1,2) by (auto simp: link_change_def Let_def split: if_splits)
  then show *: "i < unat (ld_qmap_mode d)" by (simp add: word_less_nat_alt not_le)
  then have l: "i < 32" using assms(3) by simp
  show "bit new i = (v AND 0x80 = 0)" using l by (simp add: i(3) bit_simps)
  show "j \<noteq> i \<Longrightarrow> bit new j = bit (ld_link_state d) j"
    using l by (auto simp: i(3) bit_simps dest: bit_imp_le_length)
qed

lemma link_state_store_ok:
  assumes "link_ok d"
  shows "\<exists>d'. link_state_store v d = Some d' \<and> link_ok d'"
proof (cases "link_change v d")
  case None
  then show ?thesis using assms by (simp add: link_state_store_def)
next
  case (Some r)
  obtain new i where r: "r = (new, i)" by (cases r)
  note ch = link_change_bit [OF Some [unfolded r]]
  have m: "1 < ld_qmap_mode d" "unat (ld_qmap_mode d) \<le> 4" "length (ld_nets d) = 4"
    and s: "\<And>j. j < unat (ld_qmap_mode d) \<Longrightarrow> slot_ok (bit (ld_link_state d) j) (ld_nets d ! j)"
    using assms by (auto simp: link_ok_def)
  have i: "i < unat (ld_qmap_mode d)" "i < 4" using ch(1) m by simp_all
  obtain n where n: "ld_nets d ! i = MuxNet n" "net_ok (bit (ld_link_state d) i) n"
    using s [OF i(1)] by (rule slot_okE)
  have e: "elem (ld_nets d) i = Some (MuxNet n)" using n i m by (simp add: elem_def)
  have "slot_ok (bit new j) ((ld_nets d)[i := MuxNet (set_link x (bit new i) n)] ! j)"
    if "j < unat (ld_qmap_mode d)" for j x
    using that s [OF that] n set_link_ok [OF n(2)] ch(3) [OF m(1,2), of j] m i
    by (cases "j = i") (simp_all add: slot_ok_def)
  then have new: "\<forall>j < unat (ld_qmap_mode d).
      slot_ok (bit new j) ((ld_nets d)[i := MuxNet (set_link x (bit new i) n)] ! j)" for x by blast
  show ?thesis
  proof (cases "new = ld_link_state d")
    case True
    then show ?thesis using Some r assms by (simp add: link_state_store_def)
  next
    case False
    then show ?thesis
      using Some r e m new [of "ld_real_stopped d"]
      by (cases "new = 0") (simp_all add: link_state_store_def Let_def link_ok_def)
  qed
qed

lemma slot_update_ok:
  assumes "link_ok d" "i < unat (ld_qmap_mode d) \<Longrightarrow> net_ok (bit (ld_link_state d) i) n"
  shows "link_ok (d\<lparr>ld_nets := (ld_nets d)[i := MuxNet n]\<rparr>)"
proof -
  have "slot_ok (bit (ld_link_state d) j) ((ld_nets d)[i := MuxNet n] ! j)"
    if "j < unat (ld_qmap_mode d)" for j
    using assms that by (cases "j = i") (auto simp: link_ok_def slot_ok_def)
  then show ?thesis using assms by (simp add: link_ok_def)
qed

lemma link_ok_carrier [simp]: "link_ok (d\<lparr>ld_real_carrier := c\<rparr>) = link_ok d"
  by (simp add: link_ok_def)

lemma qmap_open_ok:
  assumes "qmap_open n d = (r, n', d')"
  shows "net_ok l n \<Longrightarrow> net_ok l n'" "link_ok d' = link_ok d" "ld_nets d' = ld_nets d"
    "ld_link_state d' = ld_link_state d" "ld_qmap_mode d' = ld_qmap_mode d"
  using assms by (auto simp: qmap_open_def net_ok_def split: if_splits)

lemma link_ok_slot:
  "link_ok d \<Longrightarrow> i < unat (ld_qmap_mode d) \<Longrightarrow> ld_nets d ! i = MuxNet n \<Longrightarrow>
    net_ok (bit (ld_link_state d) i) n"
  by (force simp: link_ok_def slot_ok_def)

lemma qmap_wake_queue_ok:
  assumes "link_ok d"
  shows "link_ok (qmap_wake_queue True d)"
proof -
  have "slot_ok (bit (ld_link_state d) i) (ld_nets (qmap_wake_queue True d) ! i)"
    if "i < unat (ld_qmap_mode d)" for i
    using that assms
    by (auto simp: link_ok_def qmap_wake_queue_def slot_ok_def net_ok_def split: link_slot.splits)
  then show ?thesis using assms by (simp add: link_ok_def qmap_wake_queue_def)
qed

lemma link_apply_ok:
  assumes "link_ok d"
  shows "\<exists>d'. link_apply x d = Some d' \<and> link_ok d'"
proof (cases x)
  case (Store v)
  then show ?thesis using link_state_store_ok [OF assms] by (simp add: link_apply_def)
next
  case (Open i)
  show ?thesis
  proof (cases "ld_nets d ! i")
    case (MuxNet n)
    obtain r n' d' where q: "qmap_open n d = (r, n', d')" by (metis prod_cases3)
    have "link_ok (d'\<lparr>ld_nets := (ld_nets d')[i := MuxNet n']\<rparr>)"
      using qmap_open_ok [OF q] link_ok_slot [OF assms _ MuxNet] assms
      by (intro slot_update_ok) simp_all
    then show ?thesis using assms Open MuxNet q by (simp add: link_apply_def)
  qed (use assms Open in \<open>simp_all add: link_apply_def\<close>)
next
  case (Stop i)
  show ?thesis
  proof (cases "ld_nets d ! i")
    case (MuxNet n)
    have "link_ok (d\<lparr>ld_nets := (ld_nets d)[i := MuxNet (qmap_stop n)]\<rparr>)"
      using link_ok_slot [OF assms _ MuxNet] assms
      by (intro slot_update_ok) (auto simp: qmap_stop_def net_ok_def)
    then show ?thesis using assms Stop MuxNet by (simp add: link_apply_def)
  qed (use assms Stop in \<open>simp_all add: link_apply_def\<close>)
next
  case Wake
  then show ?thesis using qmap_wake_queue_ok [OF assms] by (simp add: link_apply_def)
qed

text \<open>
  C18. Carriers follow the link state. For a device with several channels, over any sequence of
  writes to \<^verbatim>\<open>link_state\<close> (valid or not), opens, closes and wake-ups: no access leaves the array of
  devices, every multiplexed device keeps the bit of the link state that is its own, and it has a
  carrier exactly when it is open and that bit is set.
\<close>

theorem link_state_tracked:
  assumes "link_ok d"
  shows "\<exists>d'. link_run xs d = Some d' \<and> link_ok d'"
  using assms
proof (induction xs arbitrary: d)
  case (Cons x xs)
  then show ?case using link_apply_ok [OF Cons.prems, of x] by force
qed simp

theorem link_state_tracked_witness:
  "\<exists>d'. link_run [Open 0, Store 1, Store 0x82, Stop 0, Wake]
      \<lparr>ld_qmap_mode = 2, ld_link_state = 2, ld_real_up = True, ld_real_carrier = True,
       ld_real_stopped = False,
       ld_nets = [MuxNet \<lparr>net_link_state = False, net_up = False, net_carrier = False, net_stopped = False\<rparr>,
         MuxNet \<lparr>net_link_state = True, net_up = True, net_carrier = True, net_stopped = True\<rparr>,
         NoNet, NoNet]\<rparr> = Some d' \<and> link_ok d'"
  by (rule link_state_tracked) (auto simp: link_ok_def slot_ok_def net_ok_def less_2_cases_iff bit_simps)

text \<open>The multiplexed devices after \<^verbatim>\<open>qmap_register_device\<close>: no link, no carrier, not open.\<close>

definition registered :: "qmap_setup \<Rightarrow> link_dev" where
  "registered su =
     \<lparr>ld_qmap_mode = su_qmap_mode su, ld_link_state = su_link_state su, ld_real_up = False,
      ld_real_carrier = su_link_state su \<noteq> 0, ld_real_stopped = False,
      ld_nets = map (\<lambda>i. if i < unat (su_qmap_mode su)
                         then MuxNet \<lparr>net_link_state = False, net_up = False, net_carrier = False,
                                      net_stopped = False\<rparr> else NoNet) [0..<4]\<rparr>"

lemma registered_lte_a_ok:
  assumes "is_lte_a i" "1 < param" "su = qmi_wwan_bind_setup param i"
  shows "link_ok (registered su)"
proof -
  have "unat (if param > 4 then 4 else param) \<le> 4" by (auto simp: word_le_nat_alt not_less)
  then show ?thesis
    using assms by (auto simp: link_ok_def registered_def qmi_wwan_bind_setup_def Let_def slot_ok_def
        net_ok_def)
qed

text \<open>
  After the registration of a module that is not LTE-A the invariant does not hold: the link state
  of the driver starts as 1, that of the first device as 0. A write of 1, which should bring up
  the first device, then changes nothing.
\<close>

theorem link_up_ignored:
  assumes "\<not> is_lte_a i" "1 < param" "su = qmi_wwan_bind_setup param i"
  shows "link_state_store 1 (registered su) = Some (registered su)
    \<and> \<not> link_ok (registered su)"
proof -
  let ?m = "if param > 4 then 4 else param"
  have su: "su_qmap_mode su = ?m" "su_link_state su = 1"
    using assms by (auto simp: qmi_wwan_bind_setup_def Let_def)
  have m: "1 < ?m" using assms(2) by auto
  have "link_state_store 1 (registered su) = Some (registered su)"
    using m by (auto simp: link_state_store_def link_change_def registered_def su)
  moreover have "\<not> link_ok (registered su)"
  proof
    assume "link_ok (registered su)"
    moreover have "0 < unat (ld_qmap_mode (registered su))"
      using m by (simp add: word_less_nat_alt registered_def su)
    ultimately have "slot_ok (bit (ld_link_state (registered su)) 0) (ld_nets (registered su) ! 0)"
      unfolding link_ok_def by blast
    then show False using m
      by (simp add: registered_def su slot_ok_def net_ok_def word_less_nat_alt split: if_splits)
  qed
  ultimately show ?thesis ..
qed

text \<open>
  The size never makes a module LTE-A: it is in KiB and at most 255, but compared with 4096.
\<close>

theorem size_never_decides: "is_lte_a i \<longleftrightarrow> idProduct i \<in> set lte_a_products \<or> super_speed i"
proof -
  have "info_data i AND 0xFF \<le> 0xFF" by (rule word_and_le1)
  then have "\<not> info_data i AND 0xFF > 4096" by (auto simp: word_less_nat_alt word_le_nat_alt)
  then show ?thesis by (simp add: is_lte_a_def)
qed

section \<open>Packets of the real device\<close>

lemma ip_protocol_possibly: "ip_protocol c \<noteq> None \<Longrightarrow> possibly_iphdr c"
proof -
  have *: "c AND 0xd0 = (c AND 0xf0) AND 0xd0" by (simp add: and.assoc)
  assume "ip_protocol c \<noteq> None"
  then have "c AND 0xf0 = 0x40 \<or> c AND 0xf0 = 0x60" by (auto simp: ip_protocol_def split: if_splits)
  then show ?thesis unfolding possibly_iphdr_def * by auto
qed

lemma bind_addr_safe: "a \<noteq> [] \<Longrightarrow> \<not> possibly_iphdr (hd (bind_addr a))"
proof -
  have "\<not> bit ((c OR 0x02) AND 0xbf :: u8) 6" for c by (simp add: bit_simps)
  moreover have "bit (0x40 :: u8) 6" by simp
  ultimately have "((c OR 0x02) AND 0xbf) AND 0xd0 \<noteq> (0x40 :: u8)" for c
    by (metis bit_and_iff)
  then show "a \<noteq> [] \<Longrightarrow> \<not> possibly_iphdr (hd (bind_addr a))"
    by (auto simp: bind_addr_def possibly_iphdr_def)
qed

text \<open>
  Ethernet frames to the device are not taken for packets without a header, since
  \<^verbatim>\<open>qmi_wwan_bind\<close> keeps the address apart from IP versions: at most their destination changes.
\<close>

theorem own_frames_recognised:
  assumes "length a = 6" "skb_data b = bind_addr a @ rest" "hl \<le> skb_len b" "length dest = 6"
  shows "\<exists>b'. qmi_wwan_rx_fixup K hl dest b = (1, b')
    \<and> skb_data b' \<in> {bind_addr a @ rest, dest @ rest}"
proof -
  have l: "length (bind_addr a) = 6" "bind_addr a \<noteq> []" "a \<noteq> []"
    using assms(1) by (auto simp: bind_addr_def)
  have p: "peek K b 0 = hd (bind_addr a)"
    using assms(2) l by (simp add: peek_def hd_conv_nth nth_append)
  have n: "ip_protocol (peek K b 0) = None"
    using ip_protocol_possibly bind_addr_safe [OF l(3)] p by metis
  show ?thesis
    using n assms l by (auto simp: qmi_wwan_rx_fixup_def Let_def set_bytes_def)
qed

text \<open>
  Without QMAP: what the transmit fixup strips, the receive fixup puts back around the same packet.
\<close>

theorem raw_ip_roundtrip:
  assumes b: "14 \<le> skb_len b" "is_ip (drop 14 (skb_data b))" "bridge_mode s = 0"
    and hl: "0 < hl" "hl \<le> skb_len b - 14"
    and tx: "qmi_wwan_tx_fixup K True hl b s = (s', Some b1)"
  shows "s' = s \<and> (\<exists>b2 proto. qmi_wwan_rx_fixup K hl dest b1 = (1, b2)
    \<and> skb_data b2 = dest @ default_modem_addr @ be16 proto @ drop 14 (skb_data b)
    \<and> proto \<in> {ETH_P_IP, ETH_P_IPV6})"
proof -
  have b1: "s' = s" "skb_data b1 = drop 14 (skb_data b)" "14 \<le> skb_headroom b1"
    using tx b(1,3) hl(1) by (auto simp: qmi_wwan_tx_fixup_def skb_pull_def Let_def)
  obtain proto where p: "ip_protocol (hd (skb_data b1)) = Some proto" "skb_data b1 \<noteq> []"
    using b(2) b1(2) by (auto simp: is_ip_def)
  have "peek K b1 0 = hd (skb_data b1)" using p(2) by (simp add: peek_def hd_conv_nth nth_append)
  then show ?thesis
    using p b1 hl ip_protocol_cases [OF p(1)] by (auto simp: qmi_wwan_rx_fixup_def Let_def)
qed

lemma pushed_header_frame:
  assumes "8 \<le> skb_headroom b" "skb_len b < 65536"
  shows "\<exists>b' pad. (if version = 5 then add_qhdr b mux False 0 else add_qhdr_v5 b mux False 0) = Some (b', [])
    \<and> skb_data b' = qmap_frame (if version = 5 then 5 else 9) mux (skb_data b) pad \<and> length pad < 4"
proof (cases "version = 5")
  case True
  then show ?thesis
    using assms pad_for_le [of "skb_len b" b]
    by (intro exI [of _ "take (pad_for (skb_len b) b) (skb_tail b)"] exI)
      (auto simp: add_qhdr_def skb_put_pad skb_push_data_def qmap_frame_def Let_def min_absorb2)
next
  case False
  then show ?thesis
    using assms pad_for_le [of "skb_len b" b]
    by (intro exI [of _ "take (pad_for (skb_len b) b) (skb_tail b)"] exI)
      (auto simp: add_qhdr_v5_def skb_put_pad skb_push_data_def qmap_frame_def Let_def min_absorb2)
qed

text \<open>
  With one QMAP channel: a packet that passes the transmit fixup of the real device, in either
  QMAP version, decodes to itself.
\<close>

theorem one_channel_roundtrip:
  assumes b: "14 \<le> skb_len b" "skb_len b < 65536" "is_ip (drop 14 (skb_data b))" "bridge_mode s = 0"
    and R: "rx_route d QUECTEL_QMAP_MUX_ID 0 net" "skb_len b - 14 \<le> unat (mtu net)"
    and A: "\<forall>n. alloc_ok K n" and hl: "0 < hl" and lk: "link \<noteq> 0"
  shows "\<exists>b1. qmap_qmi_wwan_tx_fixup K True hl 1 ver link b s = Some (s, Some b1)
    \<and> qmap_packet_decode K oc d b1 = Some (Some [deliver (ether net)
        (bridge_mode_rx_fixup oc d net) 0 (drop 14 (skb_data b))])"
proof -
  let ?v = "if ver = 5 then 5 else 9 :: u8"
  obtain b0 where b0: "qmi_wwan_tx_fixup K True hl b s = (s, Some b0)"
    "skb_data b0 = drop 14 (skb_data b)" "8 \<le> skb_headroom b0"
    using b(1,4) hl by (auto simp: qmi_wwan_tx_fixup_def skb_pull_def)
  have l: "skb_len b0 < 65536" using b(2) b0(2) by simp
  obtain b1 pad where h: "(if ver = 5 then add_qhdr b0 QUECTEL_QMAP_MUX_ID False 0
      else add_qhdr_v5 b0 QUECTEL_QMAP_MUX_ID False 0) = Some (b1, [])"
    "skb_data b1 = qmap_frame ?v QUECTEL_QMAP_MUX_ID (skb_data b0) pad" "length pad < 4"
    using pushed_header_frame [OF b0(3) l, of ver QUECTEL_QMAP_MUX_ID] by blast
  have tx: "qmap_qmi_wwan_tx_fixup K True hl 1 ver link b s = Some (s, Some b1)"
    using b0(1) h(1) lk by (simp add: qmap_qmi_wwan_tx_fixup_def)
  have "qmap_packet_decode K oc d b1 = Some (Some (map (\<lambda>p. deliver (ether net)
      (bridge_mode_rx_fixup oc d net) 0 (skb_data b0)) [()]))"
    by (rule qmap_decode_group [where enc = "\<lambda>_. skb_data b1" and ver = "if ver = 5 then 5 else 9", OF _ R(1) A])
      (use h b0(2) b R in auto)
  then show ?thesis using tx b0(2) by simp
qed

theorem one_channel_roundtrip_witness:
  "\<exists>b1. qmap_qmi_wwan_tx_fixup demo_kernel True 14 1 9 1
      (demo_skb\<lparr>skb_data := replicate 14 2 @ skb_data demo_skb\<rparr>) demo_tx = Some (demo_tx, Some b1)
    \<and> qmap_packet_decode demo_kernel False (demo_dev (Some demo_net)) b1 =
        Some (Some [deliver (ether demo_net)
          (bridge_mode_rx_fixup False (demo_dev (Some demo_net)) demo_net) 0
          (drop 14 (skb_data (demo_skb\<lparr>skb_data := replicate 14 2 @ skb_data demo_skb\<rparr>)))])"
  by (rule one_channel_roundtrip)
    (use demo_route in \<open>simp_all add: demo_skb_def demo_tx_def demo_net_def is_ip_def ip_protocol_def
      QUECTEL_QMAP_MUX_ID_def\<close>)

section \<open>Multiplexed devices\<close>

text \<open>The MTU is an \<open>int\<close> of the caller.\<close>

definition rmnet_vnd_change_mtu :: "int \<Rightarrow> qmap_net \<Rightarrow> int \<times> qmap_net" where
  "rmnet_vnd_change_mtu new_mtu net =
     (if new_mtu < 0 then (- EINVAL, net) else (0, net\<lparr>mtu := word_of_int new_mtu\<rparr>))"

definition ENOBUFS :: int where [simp]: "ENOBUFS = 105"

text \<open>
  \<^verbatim>\<open>qmap_register_device\<close> without the NSS callbacks: the kernel decides whether the device and its
  statistics can be allocated and what \<^verbatim>\<open>register_netdev\<close> returns; \<open>now\<close> is the clock and \<open>addr\<close>
  the address of the real device.
\<close>

definition qmap_register_device :: "bool \<Rightarrow> bool \<Rightarrow> int \<Rightarrow> timespec64 \<Rightarrow> u8 list \<Rightarrow> nat \<Rightarrow>
    qmap_dev \<Rightarrow> int \<times> qmap_dev" where
  "qmap_register_device netdev_ok stats_ok err now addr offset_id d =
     (if \<not> netdev_ok then (- ENOBUFS, d)
      else
        let net = \<lparr>ether = True, mtu = 1500, dev_addr = addr, stopped = False, tx_packets = 0,
                   tx_bytes = 0, tx_errors = 0, mux_id = QUECTEL_QMAP_MUX_ID + of_nat offset_id,
                   qmap_version = ucast (dev_qmap_version d), agg_skb = None, agg_count = 0,
                   agg_time = now, agg_hrtimer = False, agg_wq = False,
                   bridge_mode = (if bit (dev_bridge_mode d) offset_id then 1 else 0),
                   bridge_ipv4 = 0, bridge_mac = replicate 6 0\<rparr>
        in if \<not> stats_ok then (- ENOBUFS, d)
           else if err < 0 then (err, d)
           else (0, d\<lparr>mpQmapNetDev := (mpQmapNetDev d)[offset_id := Some net]\<rparr>))"

definition qmap_unregister_device :: "nat \<Rightarrow> qmap_dev \<Rightarrow> qmap_dev" where
  "qmap_unregister_device offset_id d =
     (case mpQmapNetDev d ! offset_id of
        None \<Rightarrow> d
      | Some net \<Rightarrow> d\<lparr>mpQmapNetDev := (mpQmapNetDev d)[offset_id := None]\<rparr>)"

text \<open>The real device of a multiplexed set-up only carries QMAP frames.\<close>

definition rmnet_usb_tx_fixup :: "sk_buff \<Rightarrow> sk_buff option" where
  "rmnet_usb_tx_fixup b = (if skb_protocol b \<noteq> ETH_P_MAP then None else Some b)"

definition rmnet_usb_rx_fixup :: "bool \<Rightarrow> u8 list \<Rightarrow> sk_buff \<Rightarrow> int \<times> sk_buff" where
  "rmnet_usb_rx_fixup eth addr b =
     (if eth \<and> skb_headroom b \<ge> ETH_HLEN
      then (case skb_push_data (addr @ default_modem_addr @ be16 ETH_P_MAP) b of
              Some b' \<Rightarrow> (1, b') | None \<Rightarrow> (0, b))
      else (0, b))"

text \<open>
  The receive handler: pass the frame on, or the packets given to \<^verbatim>\<open>netif_receive_skb\<close> (without
  their Ethernet header) with the bytes counted for them. Faults and endless loops as in the
  decoder.
\<close>

datatype rx_result = RxPass | RxConsumed "(rx_skb \<times> nat) list"

definition rmnet_usb_rx_handler :: "kernel \<Rightarrow> bool \<Rightarrow> bool \<Rightarrow> qmap_dev \<Rightarrow> sk_buff \<Rightarrow>
    rx_result option option" where
  "rmnet_usb_rx_handler K oc loopback d b =
     (if loopback then Some (Some RxPass)
      else if skb_protocol b \<noteq> ETH_P_MAP then Some (Some RxPass)
      else map_option (map_option (\<lambda>ps. RxConsumed (map (\<lambda>p.
             (case mpQmapNetDev d ! rx_dev p of
                Some net \<Rightarrow> (if ether net then p\<lparr>rx_data := drop 14 (rx_data p)\<rparr> else p)
              | None \<Rightarrow> p, length (rx_data p))) ps)))
             (qmap_packet_decode K oc d b))"

text \<open>The devices the driver registers are those the decoder and the uplink expect.\<close>

lemma registered_route:
  assumes "qmap_register_device True True 0 now addr i d = (0, d')"
    and "i < unat (qmap_mode d)" "unat (qmap_mode d) \<le> 4" "length (mpQmapNetDev d) = 4" "dl_padding d = 0"
  shows "\<exists>net. rx_route d' (mux_id net) i net \<and> mtu net = 1500 \<and> ether net
    \<and> agg_skb net = None \<and> agg_count net = 0 \<and> qmap_version net = ucast (dev_qmap_version d)"
  using assms by (auto simp: qmap_register_device_def rx_route_def dl_padding_def Let_def)

lemma change_mtu_bound:
  assumes "new_mtu < 2 ^ 31" "unat (mtu net) < 2 ^ 31"
  shows "unat (mtu (snd (rmnet_vnd_change_mtu new_mtu net))) < 2 ^ 31"
  using assms by (auto simp: rmnet_vnd_change_mtu_def unsigned_of_int take_bit_int_eq_self nat_less_iff)

lemma handler_packets:
  assumes R: "rx_route d mux idx net" and A: "\<forall>n. alloc_ok K n"
    and enc: "\<And>p. \<exists>pad. enc p = qmap_frame ver mux (pk p) pad \<and> length pad < 4"
    and P: "\<forall>p \<in> set g. is_ip (pk p) \<and> length (pk p) + 3 < 65536 \<and> length (pk p) \<le> unat (mtu net)"
    and M: "length (bridge_mode_rx_fixup oc d net) = 6"
    and D: "skb_data b = pack enc g" "skb_protocol b = ETH_P_MAP"
  shows "\<exists>rs. rmnet_usb_rx_handler K oc False d b = Some (Some (RxConsumed rs))
    \<and> map (rx_data \<circ> fst) rs = map pk g \<and> map (rx_dev \<circ> fst) rs = replicate (length g) idx"
proof -
  have net: "mpQmapNetDev d ! idx = Some net" using R by (simp add: rx_route_def)
  have lh: "length (link_header True (bridge_mode_rx_fixup oc d net) p) = 14" for p
    using M by (simp add: link_header_def default_modem_addr_def be16_def)
  note dec = qmap_decode_group [OF enc R A P D(1), of oc]
  let ?m = "bridge_mode_rx_fixup oc d net"
  let ?h = "\<lambda>p. (case mpQmapNetDev d ! rx_dev p of
      Some net \<Rightarrow> (if ether net then p\<lparr>rx_data := drop 14 (rx_data p)\<rparr> else p) | None \<Rightarrow> p,
      length (rx_data p))"
  have h: "rx_data (fst (?h (deliver (ether net) ?m idx q))) = q"
    "rx_dev (fst (?h (deliver (ether net) ?m idx q))) = idx" for q
    using net lh by (cases "ether net"; simp add: deliver_def Let_def; simp add: link_header_def)+
  show ?thesis
    using D(2) by (intro exI [of _ "map ?h (map (\<lambda>p. deliver (ether net) ?m idx (pk p)) g)"] conjI)
      (simp_all only: rmnet_usb_rx_handler_def dec if_False not_True_eq_False simp_thms option.map
        map_map comp_def h map_replicate_const)
qed

end
