(* ===== verification/Mhi_Control.thy ===== *)
theory Mhi_Control
  imports Mhi_Netdev Qmi_Wwan
begin

text \<open>
  What user space and the kernel tell the MHI network device (\<^verbatim>\<open>mhi_netdev_quectel.c\<close>): the link
  state and the carriers, opening and closing, the ioctl, and the removal. The state of the links
  is the record of the \<^verbatim>\<open>qmi_wwan\<close> driver; this driver has no link state per device.
\<close>

section \<open>Links\<close>

text \<open>
  The write to \<^verbatim>\<open>link_state\<close>, parsed by the caller: the new state and the index of the device. For
  several channels the low four bits are the number of the device, \<open>0x80\<close> takes the link down.
\<close>

definition mhi_link_change :: "u32 \<Rightarrow> link_dev \<Rightarrow> u32 \<times> nat" where
  "mhi_link_change v d =
     (if ld_qmap_mode d > 1 then
        (let offset_id = (v AND 0xF) - 1
         in (if 0 < v \<and> v \<le> ld_qmap_mode d then ld_link_state d OR push_bit (unat offset_id) 1
             else if 0x80 < v \<and> v \<le> 0x80 + ld_qmap_mode d
             then ld_link_state d AND NOT (push_bit (unat offset_id) 1)
             else ld_link_state d, unat offset_id))
      else (if v = 0 then 0 else 1, 0))"

definition mhi_link_state_store :: "u32 \<Rightarrow> link_dev \<Rightarrow> link_dev option" where
  "mhi_link_state_store v d =
     (case mhi_link_change v d of (new, i) \<Rightarrow>
        if new = ld_link_state d then Some d
        else do {
          n \<leftarrow> elem (ld_nets d) i;
          let d = d\<lparr>ld_link_state := new, ld_real_carrier := (new \<noteq> 0)\<rparr>;
          Some (case n of
                  NoNet \<Rightarrow> d
                | RealNet \<Rightarrow> d\<lparr>ld_real_carrier := bit new i\<rparr>
                | MuxNet m \<Rightarrow> d\<lparr>ld_nets := (ld_nets d)[i := MuxNet (m\<lparr>net_carrier := bit new i\<rparr>)]\<rparr>) })"

definition rmnet_vnd_stop :: "link_net \<Rightarrow> link_net" where
  "rmnet_vnd_stop n = n\<lparr>net_carrier := False, net_up := False\<rparr>"

text \<open>Opening a device; the caller sets \<^verbatim>\<open>IFF_UP\<close> when it succeeds.\<close>

definition mhi_vnd_open :: "link_net \<Rightarrow> link_dev \<Rightarrow> int \<times> link_net" where
  "mhi_vnd_open n d =
     (case rmnet_vnd_open (ld_real_up d) (ld_real_carrier d) (net_carrier n) of
        (r, c) \<Rightarrow> (r, n\<lparr>net_carrier := c, net_up := net_up n \<or> r = 0\<rparr>))"

datatype mhi_link_op = MStore u32 | MOpen nat | MClose nat

definition mhi_link_apply :: "mhi_link_op \<Rightarrow> link_dev \<Rightarrow> link_dev option" where
  "mhi_link_apply x d =
     (case x of
        MStore v \<Rightarrow> mhi_link_state_store v d
      | MOpen i \<Rightarrow>
          (case elem (ld_nets d) i of
             Some (MuxNet n) \<Rightarrow> Some (d\<lparr>ld_nets := (ld_nets d)[i := MuxNet (snd (mhi_vnd_open n d))]\<rparr>)
           | _ \<Rightarrow> Some d)
      | MClose i \<Rightarrow>
          (case elem (ld_nets d) i of
             Some (MuxNet n) \<Rightarrow> Some (d\<lparr>ld_nets := (ld_nets d)[i := MuxNet (rmnet_vnd_stop n)]\<rparr>)
           | _ \<Rightarrow> Some d))"

primrec mhi_link_run :: "mhi_link_op list \<Rightarrow> link_dev \<Rightarrow> link_dev option" where
  "mhi_link_run [] d = Some d"
| "mhi_link_run (x # xs) d = Option.bind (mhi_link_apply x d) (mhi_link_run xs)"

text \<open>
  The ioctl, by the result of the copy from or to user space. The link state goes through
  \<^verbatim>\<open>snprintf\<close> and \<^verbatim>\<open>simple_strtoul\<close> unchanged; its result is not looked at.
\<close>

datatype mhi_ioctl = Ioctl_link u32 | Ioctl_setting u32 u32 | Ioctl_info | Ioctl_other

definition qmap_ndo_do_ioctl :: "mhi_ioctl \<Rightarrow> int \<Rightarrow> u32 \<Rightarrow> link_dev \<times> mhi_netdev \<Rightarrow>
    (int \<times> link_dev \<times> mhi_netdev) option" where
  "qmap_ndo_do_ioctl cmd copied expected s =
     (case s of (l, d) \<Rightarrow>
        (case cmd of
           Ioctl_link v \<Rightarrow>
             if copied \<noteq> 0 then Some (copied, l, d)
             else map_option (\<lambda>l. (copied, l, d)) (mhi_link_state_store v l)
         | Ioctl_setting sz padding \<Rightarrow>
             if copied \<noteq> 0 then Some (copied, l, d)
             else (case qmap_setting_store sz expected padding d of (rc, d) \<Rightarrow> Some (rc, l, d))
         | Ioctl_info \<Rightarrow> Some (if nd_use_rmnet_usb d \<noteq> 0 then copied else - EOPNOTSUPP, l, d)
         | Ioctl_other \<Rightarrow> Some (- EOPNOTSUPP, l, d)))"

section \<open>The real device\<close>

text \<open>The queue runs when there is an uplink channel.\<close>

definition mhi_netdev_open :: "bool \<Rightarrow> mhi_netdev \<Rightarrow> int \<times> mhi_netdev" where
  "mhi_netdev_open ul_chan d = (0, d\<lparr>real_queue_stopped := \<not> ul_chan\<rparr>)"

text \<open>The limit is that of the MHI device, a signed comparison.\<close>

definition mhi_netdev_change_mtu :: "int \<Rightarrow> int \<Rightarrow> u32 \<Rightarrow> int \<times> u32" where
  "mhi_netdev_change_mtu new_mtu limit old =
     (if new_mtu < 0 \<or> limit < new_mtu then (- EINVAL, old) else (0, word_of_int new_mtu))"

text \<open>
  \<^verbatim>\<open>mhi_netdev_remove\<close>: the multiplexed devices are unregistered and freed, then the buffers; a
  missing entry of the array or a freed device is a fault. \<^verbatim>\<open>flush_delayed_work\<close> runs a pending work
  once and waits for that run.
\<close>

definition mhi_netdev_remove :: "kernel \<Rightarrow> mhi_env \<Rightarrow> nat \<Rightarrow> mhi_netdev \<Rightarrow> mhi_netdev option" where
  "mhi_netdev_remove K E no_tre d =
     (let n = unat (nd_qmap_mode d)
      in if n > length (nets d) \<or> Freed \<in> set (take n (nets d)) then None
         else
           let d = d\<lparr>enabled := False, nets := replicate n Null @ drop n (nets d)\<rparr>;
               d = mhi_netdev_dealloc (d\<lparr>qmap_chain := [], rx_allocated := []\<rparr>)
           in Some (if alloc_pending d then mhi_netdev_alloc_work K E no_tre d else d))"

section \<open>The links follow the writes\<close>

definition mhi_links_ok :: "link_dev \<Rightarrow> bool" where
  "mhi_links_ok d \<longleftrightarrow> length (ld_nets d) = 8 \<and> unat (ld_qmap_mode d) \<le> 8 \<and> RealNet \<notin> set (ld_nets d)
     \<and> ld_real_carrier d = (ld_link_state d \<noteq> 0)
     \<and> (\<forall>i. bit (ld_link_state d) i \<longrightarrow> i < max 1 (unat (ld_qmap_mode d)))
     \<and> (\<forall>i n. elem (ld_nets d) i = Some (MuxNet n) \<and> net_up n \<and> bit (ld_link_state d) i \<longrightarrow> net_carrier n)"

lemma mhi_link_change_cases:
  assumes "mhi_link_change v d = (new, i)" "new \<noteq> ld_link_state d" "unat (ld_qmap_mode d) \<le> 8"
    "\<forall>j. bit (ld_link_state d) j \<longrightarrow> j < max 1 (unat (ld_qmap_mode d))"
  shows "i < max 1 (unat (ld_qmap_mode d)) \<and> (\<forall>j. j \<noteq> i \<longrightarrow> bit new j = bit (ld_link_state d) j)"
proof (cases "ld_qmap_mode d > 1")
  case False
  then have "unat (ld_qmap_mode d) \<le> 1" by (simp add: word_less_nat_alt)
  moreover have "i = 0" "new = 0 \<or> new = 1" using assms(1) False by (auto simp: mhi_link_change_def split: if_splits)
  ultimately show ?thesis using assms(4) by (auto simp: max_def bit_1_iff split: if_splits)
next
  case True
  let ?k = "unat (v AND 0xF) - 1"
  have q: "1 < unat (ld_qmap_mode d)" using True by (simp add: word_less_nat_alt)
  have r: "0 < v \<and> v \<le> ld_qmap_mode d \<or> 0x80 < v \<and> v \<le> 0x80 + ld_qmap_mode d"
    using assms(1,2) True by (auto simp: mhi_link_change_def Let_def split: if_splits)
  have "unat (0x80 + ld_qmap_mode d) = 0x80 + unat (ld_qmap_mode d)"
    using assms(3) by (subst unat_add_lem [THEN iffD1]) simp_all
  then have u: "0 < unat v \<and> unat v \<le> unat (ld_qmap_mode d) \<or> 128 < unat v \<and> unat v \<le> 128 + unat (ld_qmap_mode d)"
    using r by (auto simp: word_less_nat_alt word_le_nat_alt)
  have "v AND 0xF = take_bit 4 v" by (simp add: take_bit_eq_mask mask_eq_exp_minus_1)
  then have "unat (v AND 0xF) = unat v mod 2 ^ 4" by (simp only: unsigned_take_bit_eq) (simp add: take_bit_eq_mod)
  then have "unat (v AND 0xF) = unat v mod 16" by simp
  then have m: "0 < unat (v AND 0xF)" "unat (v AND 0xF) \<le> unat (ld_qmap_mode d)"
    using u assms(3) by presburger+
  then have "unat ((v AND 0xF) - 1) = ?k" using unat_sub [of 1 "v AND 0xF"] by (simp add: word_le_nat_alt)
  then have i: "i = ?k" using assms(1) True by (simp add: mhi_link_change_def Let_def)
  then have b: "i < unat (ld_qmap_mode d)" "i < 32" using m assms(3) by linarith+
  have "new = ld_link_state d OR push_bit i 1 \<or> new = ld_link_state d AND NOT (push_bit i 1)"
    using assms(1,2) True by (auto simp: mhi_link_change_def Let_def split: if_splits)
  then have "\<forall>j. j \<noteq> i \<longrightarrow> bit new j = bit (ld_link_state d) j"
    using b(2) bit_imp_le_length [of "ld_link_state d"] by (auto simp: bit_simps)
  then show ?thesis using b(1) by simp
qed

lemma mhi_links_ok_update:
  assumes I: "mhi_links_ok d" and x: "x \<noteq> RealNet" "\<And>n. x = MuxNet n \<Longrightarrow> net_up n \<Longrightarrow> bit new i \<Longrightarrow> net_carrier n"
    and b: "\<forall>j. j \<noteq> i \<longrightarrow> bit new j = bit (ld_link_state d) j" "\<forall>j. bit new j \<longrightarrow> j < max 1 (unat (ld_qmap_mode d))"
    and c: "c = (new \<noteq> 0)"
  shows "mhi_links_ok (d\<lparr>ld_link_state := new, ld_real_carrier := c, ld_nets := (ld_nets d)[i := x]\<rparr>)"
proof -
  have "RealNet \<notin> set ((ld_nets d)[i := x])"
    using I x(1) set_update_subset_insert [of "ld_nets d" i x] by (auto simp: mhi_links_ok_def)
  moreover have "net_carrier n" if "elem ((ld_nets d)[i := x]) j = Some (MuxNet n)" "net_up n" "bit new j" for j n
  proof (cases "j = i")
    case True
    then show ?thesis using that x(2) by (auto simp: elem_def split: if_splits)
  next
    case False
    then have "elem (ld_nets d) j = Some (MuxNet n)" "bit (ld_link_state d) j"
      using that b(1) by (auto simp: elem_def split: if_splits)
    then show ?thesis using I that(2) by (simp add: mhi_links_ok_def)
  qed
  ultimately show ?thesis using I b(2) c by (auto simp: mhi_links_ok_def)
qed

lemma mhi_link_state_store_ok:
  assumes "mhi_links_ok d"
  shows "\<exists>d'. mhi_link_state_store v d = Some d' \<and> mhi_links_ok d'"
proof -
  obtain new i where c: "mhi_link_change v d = (new, i)" by force
  show ?thesis
  proof (cases "new = ld_link_state d")
    case True
    then show ?thesis using c assms by (simp add: mhi_link_state_store_def)
  next
    case False
    have q: "unat (ld_qmap_mode d) \<le> 8" "\<forall>j. bit (ld_link_state d) j \<longrightarrow> j < max 1 (unat (ld_qmap_mode d))"
      "length (ld_nets d) = 8" "RealNet \<notin> set (ld_nets d)"
      using assms by (simp_all add: mhi_links_ok_def)
    note ch = mhi_link_change_cases [OF c False q(1,2)]
    then have i: "i < 8" "\<forall>j. bit new j \<longrightarrow> j < max 1 (unat (ld_qmap_mode d))" using q(1,2) by auto
    have e: "elem (ld_nets d) i = Some (ld_nets d ! i)" using i(1) q(3) by (simp add: elem_def)
    note up = mhi_links_ok_update [OF assms, where new = new and i = i and c = "new \<noteq> 0"]
    show ?thesis
    proof (cases "ld_nets d ! i")
      case NoNet
      then show ?thesis using up [of NoNet] list_update_id [of "ld_nets d" i] c False e ch i(2)
        by (simp add: mhi_link_state_store_def)
    next
      case RealNet
      then show ?thesis using i(1) q(3,4) nth_mem [of i "ld_nets d"] by simp
    next
      case (MuxNet m)
      then show ?thesis using up [of "MuxNet (m\<lparr>net_carrier := bit new i\<rparr>)"] c False e ch i(2)
        by (simp add: mhi_link_state_store_def)
    qed
  qed
qed

lemma mhi_link_apply_ok:
  assumes "mhi_links_ok d"
  shows "\<exists>d'. mhi_link_apply x d = Some d' \<and> mhi_links_ok d'"
proof -
  have up: "mhi_links_ok (d\<lparr>ld_nets := (ld_nets d)[i := MuxNet n]\<rparr>)"
    if "net_up n \<and> bit (ld_link_state d) i \<longrightarrow> net_carrier n" for i n
    using mhi_links_ok_update [OF assms, where x = "MuxNet n" and new = "ld_link_state d" and c = "ld_real_carrier d"
        and i = i] assms that
    by (simp add: mhi_links_ok_def) blast
  have keep: "net_up n \<and> bit (ld_link_state d) i \<longrightarrow> net_carrier n" if "elem (ld_nets d) i = Some (MuxNet n)" for i n
    using assms that by (auto simp: mhi_links_ok_def)
  have real: "ld_real_carrier d = (ld_link_state d \<noteq> 0)" using assms by (simp add: mhi_links_ok_def)
  show ?thesis
  proof (cases x)
    case (MStore v)
    then show ?thesis using mhi_link_state_store_ok [OF assms] by (simp add: mhi_link_apply_def)
  next
    case (MOpen i)
    have "mhi_links_ok (d\<lparr>ld_nets := (ld_nets d)[i := MuxNet (snd (mhi_vnd_open n d))]\<rparr>)"
      if "elem (ld_nets d) i = Some (MuxNet n)" for n
      using keep [OF that] real
      by (intro up) (auto simp: mhi_vnd_open_def rmnet_vnd_open_def split: if_splits)
    then show ?thesis using MOpen assms
      by (auto simp: mhi_link_apply_def split: option.splits link_slot.splits)
  next
    case (MClose i)
    have "mhi_links_ok (d\<lparr>ld_nets := (ld_nets d)[i := MuxNet (rmnet_vnd_stop n)]\<rparr>)" for n
      by (intro up) (simp add: rmnet_vnd_stop_def)
    then show ?thesis using MClose assms
      by (auto simp: mhi_link_apply_def split: option.splits link_slot.splits)
  qed
qed

definition closed_net :: link_net where
  "closed_net = \<lparr>net_link_state = False, net_up = False, net_carrier = False, net_stopped = False\<rparr>"

definition demo_links :: link_dev where
  "demo_links = \<lparr>ld_qmap_mode = 2, ld_link_state = 0, ld_real_up = True, ld_real_carrier = False,
     ld_real_stopped = False, ld_nets = [MuxNet closed_net, MuxNet closed_net, NoNet, NoNet, NoNet, NoNet, NoNet, NoNet]\<rparr>"

lemma demo_links_ok: "mhi_links_ok demo_links"
  by (auto simp: mhi_links_ok_def demo_links_def)

section \<open>Properties\<close>

text \<open>C40. Over any sequence of writes to \<^verbatim>\<open>link_state\<close> (valid or not), opens and closes, no access leaves the
  array of devices, the carrier of the real device is on exactly when some link is up, only bits of
  configured devices are set, and an open device whose link is up has a carrier.\<close>

theorem mhi_links_follow:
  assumes "mhi_links_ok d"
  shows "\<exists>d'. mhi_link_run xs d = Some d' \<and> mhi_links_ok d'"
  using assms
proof (induction xs arbitrary: d)
  case (Cons x xs)
  then show ?case using mhi_link_apply_ok [OF Cons.prems, of x] by auto
qed simp

theorem mhi_links_follow_witness:
  "\<exists>d'. mhi_link_run [MStore 1, MOpen 0, MStore 0x81, MStore 200, MClose 0] demo_links = Some d' \<and> mhi_links_ok d'"
  by (rule mhi_links_follow [OF demo_links_ok])

text \<open>A device whose own link is down gets a carrier when it is opened while another link is up.\<close>

theorem mhi_open_takes_any_carrier:
  assumes I: "mhi_links_ok d" and u: "ld_real_up d" "ld_link_state d \<noteq> 0" "\<not> bit (ld_link_state d) i"
    and n: "elem (ld_nets d) i = Some (MuxNet n)"
  shows "\<exists>d' n'. mhi_link_apply (MOpen i) d = Some d' \<and> elem (ld_nets d') i = Some (MuxNet n')
    \<and> net_up n' \<and> net_carrier n' \<and> \<not> bit (ld_link_state d') i"
proof -
  have "ld_real_carrier d" using I u(2) by (simp add: mhi_links_ok_def)
  then show ?thesis using u n
    by (auto simp: mhi_link_apply_def mhi_vnd_open_def rmnet_vnd_open_def elem_def split: if_splits)
qed

theorem mhi_open_takes_any_carrier_witness:
  "\<exists>d d' n'. mhi_link_run [MStore 1] demo_links = Some d \<and> mhi_link_apply (MOpen 1) d = Some d'
    \<and> elem (ld_nets d') 1 = Some (MuxNet n') \<and> net_up n' \<and> net_carrier n' \<and> \<not> bit (ld_link_state d') 1"
proof -
  obtain d where d: "mhi_link_run [MStore 1] demo_links = Some d" "mhi_links_ok d"
    using mhi_link_apply_ok [OF demo_links_ok, of "MStore 1"] by auto
  from d(1) have "d = demo_links\<lparr>ld_link_state := 1, ld_real_carrier := True,
      ld_nets := (ld_nets demo_links)[0 := MuxNet (closed_net\<lparr>net_carrier := True\<rparr>)]\<rparr>"
    by (simp add: mhi_link_apply_def mhi_link_state_store_def mhi_link_change_def demo_links_def elem_def Let_def)
  then have f: "ld_real_up d" "ld_link_state d \<noteq> 0" "\<not> bit (ld_link_state d) 1"
    "elem (ld_nets d) 1 = Some (MuxNet closed_net)"
    by (simp_all add: demo_links_def elem_def bit_1_iff)
  show ?thesis using mhi_open_takes_any_carrier [OF d(2) f] d(1) by blast
qed

text \<open>The removal releases the received and kept buffers and all devices; a delayed work that found no memory
  is scheduled again.\<close>

theorem remove_flushes_once:
  assumes "mhi_netdev_remove K E no_tre d = Some d'"
  shows "qmap_chain d' = [] \<and> rx_allocated d' = [] \<and> \<not> enabled d' \<and> posted d' = posted d
    \<and> (\<forall>i < unat (nd_qmap_mode d). nets d' ! i = Null)
    \<and> (alloc_pending d' \<longleftrightarrow> alloc_pending d \<and> 0 < no_tre \<and> \<not> rx_alloc_ok E (rx_asked d))"
  using assms
  by (cases no_tre)
    (auto simp: mhi_netdev_remove_def Let_def mhi_netdev_dealloc_def mhi_netdev_alloc_work_def
      mhi_netdev_alloc_skb_def nth_append split: if_splits)

theorem remove_flushes_once_witness:
  "\<exists>d'. mhi_netdev_remove demo_kernel (demo_env\<lparr>rx_alloc_ok := \<lambda>_. False\<rparr>) 1
      ((mhi_net_config (demo_probe 0) MHI_NET_RMNET)\<lparr>alloc_pending := True\<rparr>) = Some d' \<and> alloc_pending d'"
proof -
  let ?d = "(mhi_net_config (demo_probe 0) MHI_NET_RMNET)\<lparr>alloc_pending := True\<rparr>"
  have f: "unat (nd_qmap_mode ?d) = 2" "nets ?d = replicate 8 Null"
    by (simp_all add: mhi_net_config_def Let_def demo_probe_def)
  obtain d' where d': "mhi_netdev_remove demo_kernel (demo_env\<lparr>rx_alloc_ok := \<lambda>_. False\<rparr>) 1 ?d = Some d'"
    unfolding mhi_netdev_remove_def Let_def using f by simp
  show ?thesis using remove_flushes_once [OF d'] d' by simp
qed

end
