(* ===== verification/Spec2Isabelle.thy ===== *)
theory Spec2Isabelle
  imports Qmi_Driver Mhi_Pm Sipc_Stack Mhi_Link Mhi_Queues Mhi_Control
begin

text \<open>
  \<^bold>\<open>Verification of the WWAN drivers of wwan-packages.\<close>

  The repository collects the kernel drivers and user-space tools an OpenWrt router needs for
  cellular modems. This development models the drivers that carry most of its own logic and the
  protocol code they rest on.

  \<^bold>\<open>Parts and how they interact.\<close>

  \<^item> GobiNet (\<^verbatim>\<open>drivers/quectel-gobinet/src\<close>). \<^verbatim>\<open>QMI.c\<close> encodes and decodes QMI messages behind a
    QMUX header. \<^verbatim>\<open>QMIDevice.c\<close> keeps, per device, a list of clients (one per service and client
    ID), each with a queue of received messages, a list of waiters and a list of URBs. The read
    callback runs when the modem sent a message: it decodes the QMUX header, appends the payload to
    the queue of every addressed client and wakes one waiter of each. The synchronous calls (reads,
    writes, client registration and release, ready and sync procedures, the character device) run
    in threads and sleep on semaphores that the callback raises.
  \<^item> MHI core (\<^verbatim>\<open>drivers/quectel-mhi-pcie/src/core\<close>). Host and modem share ring buffers of transfer
    descriptors. \<^verbatim>\<open>mhi_main.c\<close> queues buffers (a descriptor ring and a ring of buffer records in
    step), takes completion events from event rings, runs the client callbacks and resets
    channels. \<^verbatim>\<open>mhi_pm.c\<close> is the power management: a table of allowed transitions, control events of
    the device, workers, power up and down, suspend and resume.
  \<^item> SIPC (\<^verbatim>\<open>drivers/quectel-sprd-pcie/src/sipc\<close>). Host and modem share rings of bytes with free-running
    read and write pointers (\<^verbatim>\<open>sbuf.c\<close>). Each side tells the other with a short message when it wrote
    into an empty ring or read from a full one; the thread of a channel turns these messages into
    wake-ups of blocked readers and writers. \<^verbatim>\<open>spipe.c\<close> makes the rings character devices. The
    messages themselves travel through two more rings (\<^verbatim>\<open>smsg.c\<close>), which the interrupt empties into a
    cache per channel; channels are opened and closed by messages of both sides.
  \<^item> QMAP data path (\<^verbatim>\<open>drivers/quectel-qmi-wwan/src/qmi_wwan_q.c\<close>, \<^verbatim>\<open>GobiUSBNet.c\<close>). One USB endpoint
    carries several network devices: a packet gets a header with the mux id of its device and joins
    an aggregate, which is sent when full, old or urgent, or by a work item that a timer starts;
    received frames are split into packets for the devices. User space sets the link state of
    each device and the limits of the modem.
  \<^item> MHI network device (\<^verbatim>\<open>drivers/quectel-mhi-pcie/src/devices/mhi_netdev_quectel.c\<close>). A client of the MHI
    core: its probe registers a real device and up to eight multiplexed ones. A packet of a
    multiplexed device gets an MBIM or a QMAP header and goes through the queue of the real device
    into the uplink ring; the completion callback wakes queues that were stopped for want of
    descriptors. The poll function takes the received buffers, splits them into packets, answers
    flow commands and puts the buffers back into the downlink ring.

  \<^bold>\<open>Theories.\<close>

  \<^item> \<open>Wwan_Prelude\<close>: types of machine words, errno values, checked byte buffers (a read or store
    outside the object is \<^term>\<open>None\<close>), shared list and word lemmas.
  \<^item> \<open>Qmi_Codec\<close> (\<^verbatim>\<open>QMI.c\<close>, \<^verbatim>\<open>QMI.h\<close>): every size, parse and fill function. The locales \<open>fixed_codec\<close> and
    \<open>request_builder\<close> state what a builder promises; each builder interprets them. Theorems: the
    header round trip, that the builders store well-formed messages (and where the one with a QMAP
    version does not), what \<open>GetTLV\<close> returns on every well-formed message, the routing of a new client ID, the link state decoded from a
    status indication, and the inputs on which the search reads out of bounds or never ends.
  \<^item> \<open>Qmi_Clients\<close> (\<^verbatim>\<open>QMIDevice.c\<close>, receive side): the record \<open>sGobiUSBNet\<close>, client lists, queues,
    waiters, URBs, \<open>ReadCallback\<close>, \<open>IntCallback\<close>, \<open>ReadAsync\<close>, the status callback. Theorems:
    delivery to exactly the addressed clients, to threads and to the status callback alike, one resubmission per callback, FIFO queues (locales
    \<open>client_queue\<close> and \<open>client_fifo\<close>, interpreted on the list operations), the down reasons.
  \<^item> \<open>Qmi_Driver\<close> (\<^verbatim>\<open>QMIDevice.c\<close>, threads): transaction IDs, \<open>ReadSync\<close>, \<open>WriteSync\<close>, \<open>GetClientID\<close>,
    \<open>ReleaseClientID\<close>, the ready and sync procedures, the character device, registration and
    deregistration. Theorems: freshness of IDs, what goes on the wire, registration and release,
    what user space reads, the life cycle of the device.
  \<^item> \<open>Mhi_Ring\<close> (\<^verbatim>\<open>mhi_main.c\<close>): ring pointers as addresses. The locale \<open>circular\<close> is the contract of a
    bounded circular counter; its interpretation on the pointer functions is the refinement
    theorem \<open>mhi_ring_counts\<close>.
  \<^item> \<open>Mhi_Core\<close> (\<^verbatim>\<open>mhi_internal.h\<close>, \<^verbatim>\<open>mhi.h\<close>, register and doorbell functions): the records of
    controller, channel, event ring and command ring, and the transition table.
  \<^item> \<open>Mhi_Xfer\<close> (\<^verbatim>\<open>mhi_main.c\<close>): \<open>mhi_queue_buf\<close>, \<open>mhi_queue_skb\<close>, \<open>mhi_queue_dma\<close>, completions, data
    event rings, channel reset. Theorems: every buffer handed to the core comes back exactly once
    and in order, over any sequence of operations (rule induction over \<open>xfer_step\<close>), each branch
    of queueing, termination of the reset, equivalence of the two queueing paths.
  \<^item> \<open>Mhi_Pm\<close> (\<^verbatim>\<open>mhi_pm.c\<close>, \<^verbatim>\<open>mhi_init_mmio\<close>): the whole power management. The locales \<open>pm_activity\<close>,
    \<open>pm_shutdown\<close> and \<open>pm_requests\<close> derive, for any relation that respects waits and state
    requests, that every operation respects it; they are interpreted with paths in the table, with
    the wake count, and with the states of a shutdown. The ghost field \<open>pm_history\<close> records every
    assignment of \<open>pm_state\<close>. Theorems: every assignment of every operation is an edge of the table,
    but for the reset at power up, power down ends disabled, suspend and resume are a round trip that keeps the
    queued buffers, errors are sticky.
  \<^item> \<open>Sipc_Smsg\<close> (\<^verbatim>\<open>smsg.c\<close>): the message rings as bytes in shared memory, the distribution to channels,
    sending, receiving, opening and closing, the set-up of a link. Theorems: what
    \<open>smsg_recv\<close> returns on a channel is what the peer sent to it, in order, over any order of sends,
    interrupts and receives; what an interrupt leaves in the caches, opening succeeds in both
    orders, opening with a time limit fails.
  \<^item> \<open>Sipc_Channel\<close> (\<^verbatim>\<open>smsg.c\<close>): the atomic steps of receivers, interrupts, senders, an opener and a closer
    on one channel object, interleaved (\<open>chan_step\<close>). Theorems: under two provisos the object is never
    freed under a user that counts (rule induction over the reachable states); without them it is,
    and senders, which do not count, are never protected.
  \<^item> \<open>Sipc_Sbuf\<close> (\<^verbatim>\<open>sbuf.c\<close>, \<^verbatim>\<open>spipe.c\<close>): shared memory, the copy loops, the thread of a channel, set-up by
    host and client, the calls by channel number and the character device. Theorems: the stream
    law over any interleaving, host and client map the same disjoint pipes, what a write and a
    read do and when they notify, a blocked writer resumes, and the configured size for which the
    wrapping pointers lose data.
  \<^item> \<open>Sipc_Stack\<close>: both together; what is written into a pipe on one side is read on the other, by way of
    the message ring.

  \<^item> \<open>Qmap_Tx\<close> (\<^verbatim>\<open>qmi_wwan_q.c\<close>, \<^verbatim>\<open>GobiUSBNet.c\<close>): socket buffers, headers, aggregation, bridge mode and
    transmission, in both copies. The record \<open>kernel\<close> holds what the kernel decides: allocations,
    the clock, results of transmissions, and the memory an over-read returns.
  \<^item> \<open>Qmap_Uplink\<close>: the abstract aggregator \<open>pass_step\<close>, which both drivers refine, and the locale
    \<open>uplink\<close> with its law that packets keep their order, interpreted on both; the two threads of the
    uplink as a step relation (\<open>agg_step\<close>). Theorems: frames stay within the agreed limits, the
    threads lose nothing but can change the order, urgent packets that are missed, the panic on
    a long first packet.
  \<^item> \<open>Qmap_Rx\<close>: the two decoders. Theorems: they invert the uplinks, one, while its devices exist, ends on
    every frame without a fault and depends on the frame and one byte behind it only, and never ends
    on some frames when a device is absent; the other always ends and faults on two
    kinds of headers.
  \<^item> \<open>Qmi_Wwan\<close> (\<^verbatim>\<open>qmi_wwan_q.c\<close>): configuration, link state, the fixups of the real device, registration
    and the receive handler. Theorems: carriers follow the link state, the round trips of the
    modes without and with one channel, and two tests of the configuration that fail.

  \<^item> \<open>Mhi_Netdev\<close> (\<^verbatim>\<open>mhi_netdev_quectel.c\<close>): the record \<open>mhi_netdev\<close>, probe, receive buffers and uplink.
  \<^item> \<open>Mhi_Netdev_Rx\<close>: the MBIM and QMAP decoders, the commands, the receive handler and the poll, with the
    fields of a frame, the comparison with the decoder of \<open>Qmap_Rx\<close> and the invariant of the buffers.
  \<^item> \<open>Mhi_Frames\<close>: arbitrary frames. Theorems: what is handed over is cut out of the frame, the cause of a
    fault and the reads of the MBIM decoder when its tables are inside the frame, a frame whose table
    is not and that is read past its end, when the MBIM decoder returns and when it never does, the equivalence of the QMAP
    decoder with that of \<^verbatim>\<open>qmi_wwan_q\<close>, the answer to a flow command, the buffers.
  \<^item> \<open>Mhi_Link\<close>: the locale \<open>frame_link\<close> derives from the fate of one packet that a run of packets arrives
    complete and in order; it is interpreted for MBIM and for QMAP. Theorems: both round trips from
    the probe to the stack, and when the probe faults.
  \<^item> \<open>Mhi_Queues\<close>: the transmit functions and the completion callback as a step relation (\<open>q_step\<close>).
    Theorems: the functions of \<open>Mhi_Netdev\<close> refine it, the real queue is always woken, a multiplexed
    device can miss its wake-up.
  \<^item> \<open>Mhi_Control\<close>: link state, carriers, ioctl, opening, removal. Theorems: the links follow the writes, a
    carrier that should be off, a delayed work that outlives the device.

  The locale \<open>fifo_streams\<close> of the prelude derives the stream law (what was taken followed by what is
  stored is what was written) from the effect of single transfers; it is interpreted on the copy
  rounds of the byte pipes and, for each channel, on sends, interrupts and receives of messages.

  \<^bold>\<open>How code becomes definitions.\<close>

  \<^item> A C function is one definition with the same name; a loop of it that needs recursion is a
    definition of its own. Structures are records with the fields the modelled code uses;
    enumerations are datatypes, or words where the code compares or masks them.
  \<^item> Errors are the returned negative errno values. \<^term>\<open>None\<close> stands for undefined behaviour (an access
    outside an object, a null pointer, a lock taken twice) and for a loop that never ends: such
    loops are \<open>partial_function (option)\<close>, and theorems that claim a result prove that it is
    \<^term>\<open>Some\<close>. No definition uses fuel.
  \<^item> Effects that leave the model (register writes, callbacks, wake-ups, work scheduling) are
    appended to a list in order. What the environment decides is read from scripts in the state:
    results of allocations (\<open>mallocs\<close>), of USB transfers (\<open>writes\<close>), of DMA mappings (\<open>dma_maps\<close>), and
    what other contexts do while a thread sleeps (\<open>waits\<close> and \<open>sleeps\<close>, lists of interrupts run at that
    point) or between two rounds of a copy loop (\<open>races\<close>).
    An empty script means that everything succeeds and nothing happens. Theorems quantify over the
    scripts.
  \<^item> Machine integers keep their width; additions wrap.
  \<^item> Reads of a socket buffer (\<open>peek\<close>) are not bounded, as in C: past the data they find the rest of
    the buffer and past that the memory \<open>beyond\<close>. That a decoder reads only its frame is proved as
    independence of both.

  \<^bold>\<open>Configuration assumed.\<close> Little endian, signed \<^verbatim>\<open>char\<close>, \<^verbatim>\<open>QUECTEL_WWAN_QMAP\<close> set; for MHI no
  \<^verbatim>\<open>CONFIG_MHI_DEBUG\<close> (assertions only warn), no bus monitor, no bounce buffers, and the optional
  channels of \<^verbatim>\<open>mhi.h\<close> off, so that there are three event rings.

  The QMAP theories assume \<^verbatim>\<open>QUECTEL_UL_DATA_AGG\<close> and \<^verbatim>\<open>QUECTEL_BRIDGE_MODE\<close>, linear buffers, and no NSS;
  the MHI network device has one device per channel (no \<^verbatim>\<open>MHI_NETDEV_ONE_CARD_MODE\<close>) and copies packets.

  \<^bold>\<open>Concurrency.\<close> Code runs in critical sections; interrupts run between them, at the waits. Two
  threads inside the same function are not interleaved at a finer grain, except in \<open>Sipc_Channel\<close>, for
  the uplink in \<open>Qmap_Uplink\<close> and for the queues in \<open>Mhi_Queues\<close>, where the interleavings are the subject.

  \<^bold>\<open>Not modelled.\<close> Logging and debug printing; the USB, PCI, network and character device frameworks
  around the drivers; firmware loading (\<^verbatim>\<open>mhi_boot.c\<close>), device tree parsing and memory allocation
  (\<^verbatim>\<open>mhi_init.c\<close> apart from \<open>mhi_init_mmio\<close>): they are calls into the kernel with little logic of
  their own. Of the \<^verbatim>\<open>qmi_wwan\<close> drivers the USB side, and \<^verbatim>\<open>qmi_wwan_f.c\<close>, an older copy. Of the MHI
  network device the variants the configuration leaves out, statistics and debugfs. The channel
  commands and control events of the MHI core, the blocks of SIPC, the SIPA stack, the rmnet data
  path, the diallers (\<^verbatim>\<open>quectel-cm\<close>, \<^verbatim>\<open>fibocom-dial\<close>) and the proxies: large parts of them are register
  access, sockets and shell commands; what they have of logic of their own (the de-aggregation of
  rmnet, the block transport, the message builders of the diallers) has the shape of what is
  modelled here for the other drivers.
\<close>

end
